(* ===== verification/Prelude.thy ===== *)
theory Prelude
  imports Main "HOL-Library.Char_ord" "HOL-Library.List_Lexorder"
begin

text \<open>
  What every theory of the development shares: the collections of rewrite rules
  (\<open>cpp_simps\<close>), the error values that stand for the exceptions of the BES
  (\<^verbatim>\<open>bes/dispatch/BES*Error.h\<close>) and of libdap (\<^verbatim>\<open>libdap/Error.h\<close>, \<^verbatim>\<open>InternalErr.h\<close>),
  the sum type that carries them, and a few facts about lists and options.
\<close>

named_theorems cpp_simps \<open>unfolding rules of the operations of the C++ library\<close>

section \<open>Errors as values\<close>

text \<open>
  A function that throws returns \<open>Inl\<close> of the exception; a function that returns gives
  \<open>Inr\<close> of its result. The text that the source builds for the message is kept.
\<close>

datatype bes_error =
    BESInternalError string
  | BESInternalFatalError string
  | BESSyntaxUserError string
  | BESForbiddenError string
  | BESNotFoundError string

type_synonym 'a bes_result = "bes_error + 'a"

text \<open>The codes of \<^verbatim>\<open>BESError.h\<close> that \<^verbatim>\<open>get_error_type\<close> returns, and the message.\<close>

fun get_error_type :: "bes_error \<Rightarrow> int" where
  "get_error_type (BESInternalError _) = 1"
| "get_error_type (BESInternalFatalError _) = 2"
| "get_error_type (BESSyntaxUserError _) = 3"
| "get_error_type (BESForbiddenError _) = 4"
| "get_error_type (BESNotFoundError _) = 5"

fun get_message :: "bes_error \<Rightarrow> string" where
  "get_message (BESInternalError m) = m"
| "get_message (BESInternalFatalError m) = m"
| "get_message (BESSyntaxUserError m) = m"
| "get_message (BESForbiddenError m) = m"
| "get_message (BESNotFoundError m) = m"

lemma get_error_type_pos: "0 < get_error_type e"
  by (cases e) auto

text \<open>The exceptions of libdap: \<^verbatim>\<open>Error\<close> with its code, and \<^verbatim>\<open>InternalErr\<close>.\<close>

datatype dap_error =
    Error string
  | MalformedExpr string
  | InternalErr string

section \<open>Sequencing\<close>

fun rbind :: "'e + 'a \<Rightarrow> ('a \<Rightarrow> 'e + 'b) \<Rightarrow> 'e + 'b" where
  "rbind (Inl e) f = Inl e"
| "rbind (Inr a) f = f a"

lemma rbind_cong [fundef_cong]:
  "r = r' \<Longrightarrow> (\<And>a. r' = Inr a \<Longrightarrow> f a = g a) \<Longrightarrow> rbind r f = rbind r' g"
  by (cases r') auto

lemma rbind_Inr_iff: "rbind r f = Inr b \<longleftrightarrow> (\<exists>a. r = Inr a \<and> f a = Inr b)"
  by (cases r) auto

lemma rbind_Inl_iff: "rbind r f = Inl e \<longleftrightarrow> r = Inl e \<or> (\<exists>a. r = Inr a \<and> f a = Inl e)"
  by (cases r) auto

definition is_ok :: "'e + 'a \<Rightarrow> bool" where
  "is_ok r = (case r of Inl _ \<Rightarrow> False | Inr _ \<Rightarrow> True)"

lemma is_ok_simps [simp]: "is_ok (Inr a)" "\<not> is_ok (Inl e)"
  by (simp_all add: is_ok_def)

text \<open>A loop over a list whose body may throw.\<close>

fun each :: "('a \<Rightarrow> 's \<Rightarrow> 'e + 's) \<Rightarrow> 'a list \<Rightarrow> 's \<Rightarrow> 'e + 's" where
  "each f [] s = Inr s"
| "each f (x # xs) s = rbind (f x s) (each f xs)"

lemma each_append: "each f (xs @ ys) s = rbind (each f xs s) (each f ys)"
proof (induction xs arbitrary: s)
  case (Cons x xs)
  then show ?case by (cases "f x s") auto
qed simp

section \<open>Characters that the sources name\<close>

abbreviation bslash :: char where "bslash \<equiv> CHR 0x5C"
abbreviation dquote :: char where "dquote \<equiv> CHR 0x22"
abbreviation squote :: char where "squote \<equiv> CHR 0x27"
abbreviation lf :: char where "lf \<equiv> CHR 0x0A"
abbreviation cr :: char where "cr \<equiv> CHR 0x0D"
abbreviation tab :: char where "tab \<equiv> CHR 0x09"
abbreviation nul :: char where "nul \<equiv> CHR 0x00"

section \<open>Lists\<close>

lemma concat_map_singleton_id: "(\<And>c. c \<in> set s \<Longrightarrow> f c = [c]) \<Longrightarrow> concat (map f s) = s"
  by (induction s) auto

lemma length_concat_map_ge:
  "(\<And>c. c \<in> set s \<Longrightarrow> 1 \<le> length (f c)) \<Longrightarrow> length s \<le> length (concat (map f s))"
  by (induction s) force+

lemma length_filter_drop_le:
  assumes "m \<le> n"
  shows "length (filter P (drop n s)) \<le> length (filter P (drop m s))"
proof -
  have d: "drop n s = drop (n - m) (drop m s)" using assms by simp
  have "filter P (drop m s)
        = filter P (take (n - m) (drop m s)) @ filter P (drop (n - m) (drop m s))"
    by (metis append_take_drop_id filter_append)
  then show ?thesis unfolding d by simp
qed

lemma length_filter_split:
  "j < length s \<Longrightarrow> length (filter P s)
     = length (filter P (take j s)) + (if P (s ! j) then 1 else 0) + length (filter P (drop (Suc j) s))"
  by (subst id_take_nth_drop [of j s]) auto

lemma nth_split_take_drop: "j < length s \<Longrightarrow> s = take j s @ s ! j # drop (Suc j) s"
  by (rule id_take_nth_drop)

end
