(* ===== verification/CppString.thy ===== *)
theory CppString
  imports Prelude
begin

text \<open>
  The operations of \<^verbatim>\<open>std::string\<close> and of the string streams that the modelled sources use.
  A string is a list of \<^typ>\<open>char\<close>; a position is a \<^typ>\<open>nat\<close>; \<^verbatim>\<open>npos\<close> is \<open>None\<close>. A call
  that would throw \<^verbatim>\<open>std::out_of_range\<close> does not occur in the modelled code where these
  functions are used without a check; where it can, the model says so.
\<close>

section \<open>Searching\<close>

text \<open>\<open>scan P s k\<close>: the first position at which \<open>P\<close> holds, positions counted from \<open>k\<close>.\<close>

fun scan :: "('a \<Rightarrow> bool) \<Rightarrow> 'a list \<Rightarrow> nat \<Rightarrow> nat option" where
  "scan P [] k = None"
| "scan P (x # xs) k = (if P x then Some k else scan P xs (Suc k))"

text \<open>\<^verbatim>\<open>find_first_of\<close>, \<^verbatim>\<open>find_first_not_of\<close> and \<^verbatim>\<open>find\<close> of a character, from \<open>i\<close> on.\<close>

definition find_if_from :: "('a \<Rightarrow> bool) \<Rightarrow> 'a list \<Rightarrow> nat \<Rightarrow> nat option" where
  "find_if_from P s i = scan P (drop i s) i"

definition find_first_of :: "string \<Rightarrow> string \<Rightarrow> nat \<Rightarrow> nat option" where
  "find_first_of s cs i = find_if_from (\<lambda>c. c \<in> set cs) s i"

definition find_first_not_of :: "string \<Rightarrow> string \<Rightarrow> nat \<Rightarrow> nat option" where
  "find_first_not_of s cs i = find_if_from (\<lambda>c. c \<notin> set cs) s i"

definition find_char :: "string \<Rightarrow> char \<Rightarrow> nat \<Rightarrow> nat option" where
  "find_char s c i = find_if_from (\<lambda>x. x = c) s i"

text \<open>\<^verbatim>\<open>find_last_not_of\<close> over the whole string.\<close>

definition find_last_not_of :: "string \<Rightarrow> string \<Rightarrow> nat option" where
  "find_last_not_of s cs =
     (case scan (\<lambda>c. c \<notin> set cs) (rev s) 0 of
        None \<Rightarrow> None
      | Some k \<Rightarrow> Some (length s - 1 - k))"

text \<open>\<^verbatim>\<open>find\<close> of a substring, and \<^verbatim>\<open>rfind\<close> (the last occurrence).\<close>

fun starts_with :: "'a list \<Rightarrow> 'a list \<Rightarrow> bool" where
  "starts_with [] s = True"
| "starts_with (t # ts) [] = False"
| "starts_with (t # ts) (x # xs) = (t = x \<and> starts_with ts xs)"

fun scan_sub :: "'a list \<Rightarrow> 'a list \<Rightarrow> nat \<Rightarrow> nat option" where
  "scan_sub t [] k = (if t = [] then Some k else None)"
| "scan_sub t (x # xs) k =
     (if starts_with t (x # xs) then Some k else scan_sub t xs (Suc k))"

definition find_sub :: "'a list \<Rightarrow> 'a list \<Rightarrow> nat \<Rightarrow> nat option" where
  "find_sub s t i = (if i \<le> length s then scan_sub t (drop i s) i else None)"

fun rscan_sub :: "'a list \<Rightarrow> 'a list \<Rightarrow> nat \<Rightarrow> nat option" where
  "rscan_sub s t 0 = (if starts_with t s then Some 0 else None)"
| "rscan_sub s t (Suc i) =
     (if starts_with t (drop (Suc i) s) then Some (Suc i) else rscan_sub s t i)"

definition rfind_sub :: "'a list \<Rightarrow> 'a list \<Rightarrow> nat option" where
  "rfind_sub s t = rscan_sub s t (length s)"

section \<open>Building\<close>

definition substr :: "'a list \<Rightarrow> nat \<Rightarrow> nat \<Rightarrow> 'a list" where
  "substr s i n = take n (drop i s)"

definition substr_from :: "'a list \<Rightarrow> nat \<Rightarrow> 'a list" where
  "substr_from s i = drop i s"

definition str_replace :: "'a list \<Rightarrow> nat \<Rightarrow> nat \<Rightarrow> 'a list \<Rightarrow> 'a list" where
  "str_replace s i n r = take i s @ r @ drop (i + n) s"

text \<open>The string that a null-terminated buffer holds: everything before the first NUL.\<close>

definition c_str :: "string \<Rightarrow> string" where
  "c_str s = takeWhile (\<lambda>c. c \<noteq> nul) s"

section \<open>Facts about searching\<close>

lemma scan_Some_iff:
  "scan P s k = Some j \<longleftrightarrow>
     (k \<le> j \<and> j < k + length s \<and> P (s ! (j - k)) \<and> (\<forall>m < j - k. \<not> P (s ! m)))"
proof (induction s arbitrary: k)
  case Nil
  then show ?case by simp
next
  case (Cons x xs)
  show ?case
  proof (cases "P x")
    case True
    then show ?thesis
      by (auto simp: nth_Cons' split: if_splits)
  next
    case False
    then have "scan P (x # xs) k = Some j \<longleftrightarrow> scan P xs (Suc k) = Some j" by simp
    also have "\<dots> \<longleftrightarrow> Suc k \<le> j \<and> j < Suc k + length xs \<and> P (xs ! (j - Suc k))
                  \<and> (\<forall>m < j - Suc k. \<not> P (xs ! m))"
      by (rule Cons.IH)
    also have "\<dots> \<longleftrightarrow> k \<le> j \<and> j < k + length (x # xs) \<and> P ((x # xs) ! (j - k))
                  \<and> (\<forall>m < j - k. \<not> P ((x # xs) ! m))"
    proof (cases "j = k")
      case True
      with False show ?thesis by simp
    next
      case neq: False
      show ?thesis
      proof (cases "k \<le> j")
        case True
        with neq obtain d where d: "j = Suc (k + d)"
          using less_imp_Suc_add[of k j] by auto
        have "(\<forall>m < Suc d. \<not> P ((x # xs) ! m)) \<longleftrightarrow> (\<forall>m < d. \<not> P (xs ! m))"
          using False by (auto simp: less_Suc_eq_0_disj)
        with d show ?thesis by simp
      qed (use neq in simp)
    qed
    finally show ?thesis .
  qed
qed

lemma scan_None_iff: "scan P s k = None \<longleftrightarrow> (\<forall>x \<in> set s. \<not> P x)"
  by (induction s arbitrary: k) auto

lemma find_if_from_SomeD:
  assumes "find_if_from P s i = Some j"
  shows "i \<le> j" "j < length s" "P (s ! j)" "\<And>m. i \<le> m \<Longrightarrow> m < j \<Longrightarrow> \<not> P (s ! m)"
proof -
  from assms have *: "i \<le> j" "j < i + length (drop i s)" "P (drop i s ! (j - i))"
      "\<forall>m < j - i. \<not> P (drop i s ! m)"
    by (auto simp: find_if_from_def scan_Some_iff)
  then show "i \<le> j" by simp
  have ile: "i \<le> length s" using * by (cases "i \<le> length s") auto
  with * show "j < length s" by simp
  with * ile show "P (s ! j)" by simp
  fix m assume "i \<le> m" "m < j"
  with * ile show "\<not> P (s ! m)"
    by (metis diff_less_mono le_add_diff_inverse nth_drop)
qed

lemma find_if_from_None_iff: "find_if_from P s i = None \<longleftrightarrow> (\<forall>x \<in> set (drop i s). \<not> P x)"
  by (simp add: find_if_from_def scan_None_iff)

lemma find_if_from_beyond [simp]: "length s \<le> i \<Longrightarrow> find_if_from P s i = None"
  by (simp add: find_if_from_def)

lemma starts_with_iff: "starts_with t s \<longleftrightarrow> (\<exists>r. s = t @ r)"
  by (induction t s rule: starts_with.induct) auto

lemma starts_with_length: "starts_with t s \<Longrightarrow> length t \<le> length s"
  by (auto simp: starts_with_iff)

lemma starts_with_append [simp]: "starts_with t (t @ r)"
  by (simp add: starts_with_iff)

lemma scan_sub_SomeD:
  "scan_sub t s k = Some j \<Longrightarrow>
     k \<le> j \<and> j + length t \<le> k + length s \<and> starts_with t (drop (j - k) s)"
proof (induction s arbitrary: k)
  case Nil
  then show ?case by (auto split: if_splits)
next
  case (Cons x xs)
  show ?case
  proof (cases "starts_with t (x # xs)")
    case True
    with Cons.prems show ?thesis by (auto dest: starts_with_length)
  next
    case False
    with Cons.prems Cons.IH [of "Suc k"] show ?thesis
      by (auto simp: Suc_diff_le drop_Cons' split: if_splits)
  qed
qed

lemma find_sub_SomeD:
  assumes "find_sub s t i = Some j"
  shows "i \<le> j" "j + length t \<le> length s" "starts_with t (drop j s)"
  using assms scan_sub_SomeD [of t "drop i s" i j]
  by (auto simp: find_sub_def split: if_splits)

lemma rscan_sub_Some:
  "rscan_sub s t n = Some w \<Longrightarrow> w \<le> n \<and> starts_with t (drop w s)"
  by (induction s t n rule: rscan_sub.induct) (auto split: if_splits)

lemma rscan_sub_skip:
  "w \<le> n \<Longrightarrow> (\<And>k. w < k \<Longrightarrow> k \<le> n \<Longrightarrow> \<not> starts_with t (drop k s)) \<Longrightarrow> starts_with t (drop w s) \<Longrightarrow>
     rscan_sub s t n = Some w"
proof (induction n)
  case (Suc n)
  then show ?case by (cases "w = Suc n") auto
qed auto

text \<open>A pattern at the very end of the text is its last occurrence.\<close>

lemma rfind_sub_suffix: "rfind_sub (n @ t) t = Some (length n)"
  unfolding rfind_sub_def
proof (rule rscan_sub_skip)
  fix k assume "length n < k" "k \<le> length (n @ t)"
  then have "length (drop k (n @ t)) < length t" by simp
  then show "\<not> starts_with t (drop k (n @ t))" using starts_with_length [of t "drop k (n @ t)"] by linarith
qed (auto simp: starts_with_iff)

lemma rfind_sub_Some: "rfind_sub s t = Some w \<Longrightarrow> w \<le> length s \<and> (\<exists>r. drop w s = t @ r)"
  unfolding rfind_sub_def by (drule rscan_sub_Some) (auto simp: starts_with_iff)

lemma length_str_replace:
  "i + n \<le> length s \<Longrightarrow> length (str_replace s i n r) = length s - n + length r"
  by (auto simp: str_replace_def)

lemma scan_append_None: "(\<forall>x \<in> set s. \<not> P x) \<Longrightarrow> scan P (s @ t) k = scan P t (k + length s)"
  by (induction s arbitrary: k) auto

text \<open>Skipping: a position that does not match can be left out of the search.\<close>

lemma find_if_from_here: "i < length s \<Longrightarrow> P (s ! i) \<Longrightarrow> find_if_from P s i = Some i"
  by (simp add: find_if_from_def Cons_nth_drop_Suc [symmetric])

lemma find_if_from_skip:
  "i < length s \<Longrightarrow> \<not> P (s ! i) \<Longrightarrow> find_if_from P s i = find_if_from P s (Suc i)"
  by (simp add: find_if_from_def Cons_nth_drop_Suc [symmetric])

lemma find_sub_here:
  "starts_with t (drop i s) \<Longrightarrow> i < length s \<Longrightarrow> find_sub s t i = Some i"
  by (simp add: find_sub_def Cons_nth_drop_Suc [symmetric])

lemma find_sub_skip:
  "\<not> starts_with t (drop i s) \<Longrightarrow> i < length s \<Longrightarrow> find_sub s t i = find_sub s t (Suc i)"
  by (simp add: find_sub_def Cons_nth_drop_Suc [symmetric])

lemma find_sub_skip_list:
  assumes "\<And>k. k < length u \<Longrightarrow> \<not> starts_with t (drop k u @ rest)"
  shows "find_sub (pre @ u @ rest) t (length pre) = find_sub (pre @ u @ rest) t (length pre + length u)"
  using assms
proof (induction u arbitrary: pre)
  case Nil
  then show ?case by simp
next
  case (Cons x u)
  have "find_sub (pre @ (x # u) @ rest) t (length pre)
        = find_sub ((pre @ [x]) @ u @ rest) t (length (pre @ [x]))"
    using Cons.prems [of 0] by (simp add: find_sub_skip)
  also have "\<dots> = find_sub ((pre @ [x]) @ u @ rest) t (length (pre @ [x]) + length u)"
    using Cons.prems [of "Suc _"] by (intro Cons.IH) auto
  finally show ?case by simp
qed

lemma find_sub_at_end: "t \<noteq> [] \<Longrightarrow> length s \<le> i \<Longrightarrow> find_sub s t i = None"
  by (auto simp: find_sub_def)

section \<open>The replacing loop\<close>

text \<open>
  Several routines scan for the next character of a class, replace it by a longer text and go
  on after that text. The fact below says that one round of such a loop moves one character
  from the part still to be read into the part already written.
\<close>

lemma replace_round:
  assumes "find_if_from P s i = Some j"
  shows "take (j + length r) (str_replace s j 1 r) = take i s @ substr s i (j - i) @ r"
    and "drop (j + length r) (str_replace s j 1 r) = drop (Suc j) s"
    and "\<forall>x \<in> set (substr s i (j - i)). \<not> P x"
    and "drop i s = substr s i (j - i) @ s ! j # drop (Suc j) s"
proof -
  note d = find_if_from_SomeD [OF assms]
  have len: "length (take j s) = j" using d by simp
  have tj: "take j s = take i s @ substr s i (j - i)"
    unfolding substr_def using d by (metis le_add_diff_inverse take_add)
  have "take (j + length r) (str_replace s j 1 r) = take j s @ r"
    using len by (simp add: str_replace_def)
  then show "take (j + length r) (str_replace s j 1 r) = take i s @ substr s i (j - i) @ r"
    using tj by simp
  show "drop (j + length r) (str_replace s j 1 r) = drop (Suc j) s"
    using len by (simp add: str_replace_def)
  show "\<forall>x \<in> set (substr s i (j - i)). \<not> P x"
  proof
    fix x assume "x \<in> set (substr s i (j - i))"
    then obtain m where m: "m < j - i" "x = s ! (i + m)"
      using d by (auto simp: substr_def in_set_conv_nth)
    then show "\<not> P x" using d(4) [of "i + m"] by simp
  qed
  have "drop i s = take (j - i) (drop i s) @ drop (j - i) (drop i s)"
    by (rule append_take_drop_id [symmetric])
  also have "drop (j - i) (drop i s) = drop j s" using d by simp
  also have "drop j s = s ! j # drop (Suc j) s" using d by (simp add: Cons_nth_drop_Suc)
  finally show "drop i s = substr s i (j - i) @ s ! j # drop (Suc j) s"
    by (simp add: substr_def)
qed

text \<open>
  \<open>escape_loop P f s i\<close>: \<^verbatim>\<open>while ((i = s.find...(i)) != npos) { s.replace(i, 1, r); i += r.length(); }\<close>
  with \<^verbatim>\<open>r = f(s[i])\<close>.
\<close>

function escape_loop :: "(char \<Rightarrow> bool) \<Rightarrow> (char \<Rightarrow> string) \<Rightarrow> string \<Rightarrow> nat \<Rightarrow> string" where
  "escape_loop P f s i =
     (case find_if_from P s i of
        None \<Rightarrow> s
      | Some j \<Rightarrow> escape_loop P f (str_replace s j 1 (f (s ! j))) (j + length (f (s ! j))))"
  by pat_completeness auto
termination
proof (relation "measure (\<lambda>(P, f, s, i). length s - i)", goal_cases)
  case (2 P f s i j)
  with find_if_from_SomeD [OF 2] show ?case by (simp add: length_str_replace)
qed simp

declare escape_loop.simps [simp del]

lemma escape_loop_eq:
  "escape_loop P f s i = take i s @ concat (map (\<lambda>c. if P c then f c else [c]) (drop i s))"
proof (induction P f s i rule: escape_loop.induct)
  case (1 P f s i)
  let ?g = "\<lambda>c. if P c then f c else [c]"
  show ?case
  proof (cases "find_if_from P s i")
    case None
    then have "concat (map ?g (drop i s)) = drop i s"
      by (auto simp: find_if_from_None_iff intro: concat_map_singleton_id)
    with None show ?thesis by (simp add: escape_loop.simps [of P f s i])
  next
    case (Some j)
    note r = replace_round(1,2) [OF Some, of "f (s ! j)"] and r3 = replace_round(3,4) [OF Some]
    have id: "concat (map ?g (substr s i (j - i))) = substr s i (j - i)"
      using r3(1) by (auto intro: concat_map_singleton_id)
    have Pj: "P (s ! j)" by (rule find_if_from_SomeD(3) [OF Some])
    have "concat (map ?g (drop i s))
          = substr s i (j - i) @ f (s ! j) @ concat (map ?g (drop (Suc j) s))"
      unfolding r3(2) using id Pj by simp
    with Some 1 r(1,2) show ?thesis by (simp add: escape_loop.simps [of P f s i])
  qed
qed

lemma escape_loop_0: "escape_loop P f s 0 = concat (map (\<lambda>c. if P c then f c else [c]) s)"
  by (simp add: escape_loop_eq)

end
