(* ===== verification/CppStream.thy ===== *)
theory CppStream
  imports CppString
begin

text \<open>
  The number formatting and parsing of \<^verbatim>\<open>std::ostringstream\<close> and \<^verbatim>\<open>std::istringstream\<close> that
  the sources use: \<^verbatim>\<open>hex\<close>, \<^verbatim>\<open>oct\<close> and \<^verbatim>\<open>dec\<close> output padded with \<^verbatim>\<open>setw\<close> and \<^verbatim>\<open>setfill('0')\<close>,
  and integer extraction. Extraction skips white space, takes an optional sign, for \<^verbatim>\<open>hex\<close> an
  optional \<^verbatim>\<open>0x\<close>, and then as many digits as there are; with no digit it fails and stores 0.
  When nothing but white space is left the stream's sentry fails first and the variable keeps
  the value it had.
\<close>

section \<open>Digits\<close>

text \<open>\<^verbatim>\<open>"0123456789abcdef..."[d]\<close>.\<close>

definition digit_char :: "nat \<Rightarrow> char" where
  "digit_char d = char_of (if d < 10 then 48 + d else 87 + d)"

definition digit_val :: "char \<Rightarrow> nat option" where
  "digit_val c =
     (let n = of_char c :: nat in
      if 48 \<le> n \<and> n \<le> 57 then Some (n - 48)
      else if 97 \<le> n \<and> n \<le> 122 then Some (n - 87)
      else if 65 \<le> n \<and> n \<le> 90 then Some (n - 55)
      else None)"

definition is_digit_in :: "nat \<Rightarrow> char \<Rightarrow> bool" where
  "is_digit_in b c = (case digit_val c of None \<Rightarrow> False | Some d \<Rightarrow> d < b)"

text \<open>Output of a non-negative number in base \<open>b\<close>.\<close>

function show_base :: "nat \<Rightarrow> nat \<Rightarrow> string" where
  "show_base b n = (if b < 2 \<or> n < b then [digit_char n]
                    else show_base b (n div b) @ [digit_char (n mod b)])"
  by pat_completeness auto
termination
  by (relation "measure snd") (auto intro: div_less_dividend)

declare show_base.simps [simp del]

definition pad_left :: "nat \<Rightarrow> char \<Rightarrow> string \<Rightarrow> string" where
  "pad_left w c s = replicate (w - length s) c @ s"

definition show_hex :: "nat \<Rightarrow> nat \<Rightarrow> string" where
  "show_hex w n = pad_left w (CHR ''0'') (show_base 16 n)"

definition show_oct :: "nat \<Rightarrow> nat \<Rightarrow> string" where
  "show_oct w n = pad_left w (CHR ''0'') (show_base 8 n)"

definition show_int :: "int \<Rightarrow> string" where
  "show_int i = (if i < 0 then CHR ''-'' # show_base 10 (nat (- i)) else show_base 10 (nat i))"

text \<open>Input: the value of the digits, and what extraction into an \<^verbatim>\<open>int\<close> stores.\<close>

definition digits_value :: "nat \<Rightarrow> string \<Rightarrow> nat" where
  "digits_value b s =
     foldl (\<lambda>a c. a * b + (case digit_val c of None \<Rightarrow> 0 | Some d \<Rightarrow> d)) 0 s"

definition is_space :: "char \<Rightarrow> bool" where
  "is_space c = (let n = of_char c :: nat in n = 32 \<or> (9 \<le> n \<and> n \<le> 13))"

definition skip_ws :: "string \<Rightarrow> string" where
  "skip_ws s = dropWhile is_space s"

definition split_sign :: "string \<Rightarrow> bool \<times> string" where
  "split_sign s =
     (case s of
        [] \<Rightarrow> (False, [])
      | c # r \<Rightarrow> if c = CHR ''-'' then (True, r) else if c = CHR ''+'' then (False, r)
                 else (False, s))"

definition strip_0x :: "nat \<Rightarrow> string \<Rightarrow> string" where
  "strip_0x b s =
     (if b = 16 \<and> 2 \<le> length s \<and> s ! 0 = CHR ''0'' \<and> (s ! 1 = CHR ''x'' \<or> s ! 1 = CHR ''X'')
      then drop 2 s else s)"

definition extract_num :: "nat \<Rightarrow> string \<Rightarrow> (bool \<times> nat) option" where
  "extract_num b s =
     (let s1 = skip_ws s in
      if s1 = [] then None
      else let (neg, s2) = split_sign s1 in
           Some (neg, digits_value b (takeWhile (is_digit_in b) (strip_0x b s2))))"

definition saturate32 :: "int \<Rightarrow> int" where
  "saturate32 i = max (- (2 ^ 31)) (min (2 ^ 31 - 1) i)"

definition extract_int :: "nat \<Rightarrow> string \<Rightarrow> int option" where
  "extract_int b s =
     map_option (\<lambda>(neg, v). saturate32 (if neg then - int v else int v)) (extract_num b s)"

text \<open>Extraction into an \<^verbatim>\<open>unsigned long\<close> of 64 bits: too large saturates, a sign negates.\<close>

definition extract_ulong :: "nat \<Rightarrow> string \<Rightarrow> nat option" where
  "extract_ulong b s =
     map_option (\<lambda>(neg, v). if 2 ^ 64 \<le> v then 2 ^ 64 - 1
                            else if neg then (2 ^ 64 - v) mod 2 ^ 64 else v) (extract_num b s)"

lemma is_digit_8: "is_digit_in 8 c \<longleftrightarrow> c \<in> set ''01234567''"
proof
  assume "is_digit_in 8 c"
  then have r: "48 \<le> (of_char c :: nat) \<and> (of_char c :: nat) \<le> 55"
    by (auto simp: is_digit_in_def digit_val_def Let_def split: if_splits option.splits)
  have "(of_char c :: nat) \<in> {48, 49, 50, 51, 52, 53, 54, 55}" using r by force
  also have "{48, 49, 50, 51, 52, 53, 54, 55 :: nat} = of_char ` set ''01234567''" by simp
  finally obtain x where "(of_char c :: nat) = of_char x" "x \<in> set ''01234567''" by blast
  then show "c \<in> set ''01234567''" by (simp only: of_char_eq_iff)
qed (auto simp: is_digit_in_def digit_val_def)

section \<open>Printing and reading back\<close>

lemma digit_val_char [simp]: "d < 36 \<Longrightarrow> digit_val (digit_char d) = Some d"
  by (simp add: digit_val_def digit_char_def Let_def)

lemma is_digit_char [simp]: "d < b \<Longrightarrow> b \<le> 36 \<Longrightarrow> is_digit_in b (digit_char d)"
  by (simp add: is_digit_in_def)

lemma digits_value_Nil [simp]: "digits_value b [] = 0"
  by (simp add: digits_value_def)

lemma digits_value_snoc [simp]:
  "digits_value b (s @ [c]) = digits_value b s * b + (case digit_val c of None \<Rightarrow> 0 | Some d \<Rightarrow> d)"
  by (simp add: digits_value_def)

lemma show_base_digits:
  assumes "2 \<le> b" "b \<le> 36"
  shows "\<forall>c \<in> set (show_base b n). is_digit_in b c"
  using assms
proof (induction b n rule: show_base.induct)
  case (1 b n)
  then show ?case by (auto simp: show_base.simps [of b n])
qed

lemma digits_value_show_base:
  assumes "2 \<le> b" "b \<le> 36"
  shows "digits_value b (show_base b n) = n"
  using assms
proof (induction b n rule: show_base.induct)
  case (1 b n)
  show ?case
  proof (cases "n < b")
    case True
    then show ?thesis using "1.prems" by (simp add: show_base.simps [of b n] digits_value_def)
  next
    case False
    moreover have "digit_val (digit_char (n mod b)) = Some (n mod b)"
    proof (rule digit_val_char)
      have "n mod b < b" using "1.prems" by simp
      then show "n mod b < 36" using "1.prems" by linarith
    qed
    ultimately show ?thesis using 1 by (simp add: show_base.simps [of b n])
  qed
qed

lemma show_base_nonempty [simp]: "show_base b n \<noteq> []"
  by (subst show_base.simps) simp

lemma length_show_base:
  assumes "2 \<le> b" "n < b ^ Suc k"
  shows "length (show_base b n) \<le> Suc k"
  using assms
proof (induction k arbitrary: n)
  case 0
  then show ?case by (simp add: show_base.simps [of b n])
next
  case (Suc k)
  show ?case
  proof (cases "n < b")
    case True
    then show ?thesis by (simp add: show_base.simps [of b n])
  next
    case False
    have "n div b < b ^ Suc k"
      using Suc.prems by (metis less_mult_imp_div_less mult.commute power_Suc)
    then have "length (show_base b (n div b)) \<le> Suc k" using Suc by blast
    then show ?thesis using False Suc.prems by (simp add: show_base.simps [of b n])
  qed
qed

lemma length_pad_left: "length (pad_left w c s) = max w (length s)"
  by (simp add: pad_left_def)

lemma length_show_hex: "n < 16 ^ Suc k \<Longrightarrow> length (show_hex (Suc k) n) = Suc k"
  using length_show_base [of 16 n k] by (simp add: show_hex_def length_pad_left)

lemma length_show_oct: "n < 8 ^ Suc k \<Longrightarrow> length (show_oct (Suc k) n) = Suc k"
  using length_show_base [of 8 n k] by (simp add: show_oct_def length_pad_left)

lemma digits_value_zeros:
  "digits_value b (replicate k (CHR ''0'') @ s) = digits_value b s"
proof -
  have z: "digit_val (CHR ''0'') = Some 0" by (simp add: digit_val_def)
  have "foldl (\<lambda>a c. a * b + (case digit_val c of None \<Rightarrow> 0 | Some d \<Rightarrow> d)) 0
          (replicate k (CHR ''0'')) = 0"
    by (induction k) (simp_all add: z)
  then show ?thesis by (simp add: digits_value_def)
qed

lemma digits_value_pad: "digits_value b (pad_left w (CHR ''0'') s) = digits_value b s"
  by (simp add: pad_left_def digits_value_zeros)

lemma show_hex_digits: "\<forall>c \<in> set (show_hex w n). is_digit_in 16 c"
  using show_base_digits [of 16 n]
  by (auto simp: show_hex_def pad_left_def is_digit_in_def digit_val_def)

lemma show_oct_digits: "\<forall>c \<in> set (show_oct w n). is_digit_in 8 c"
  using show_base_digits [of 8 n]
  by (auto simp: show_oct_def pad_left_def is_digit_in_def digit_val_def)

lemma is_digit_not_special:
  assumes "is_digit_in b c" "b \<le> 16"
  shows "\<not> is_space c" "c \<noteq> CHR ''-''" "c \<noteq> CHR ''+''" "c \<noteq> CHR ''x''" "c \<noteq> CHR ''X''" "c \<noteq> nul"
  using assms
  by (auto simp: is_digit_in_def digit_val_def is_space_def Let_def split: if_splits option.splits)

text \<open>A string of digits followed by something that is no digit reads as its value.\<close>

lemma extract_num_digits:
  assumes "ds \<noteq> []" "\<forall>c \<in> set ds. is_digit_in b c" "b \<le> 16"
    and rest: "rest = [] \<or> \<not> is_digit_in b (hd rest) \<and> hd rest \<noteq> CHR ''x'' \<and> hd rest \<noteq> CHR ''X''"
  shows "extract_num b (ds @ rest) = Some (False, digits_value b ds)"
proof -
  obtain d ds' where ds: "ds = d # ds'" using assms by (cases ds) auto
  note nd = is_digit_not_special [OF _ assms(3)]
  have d: "is_digit_in b d" using assms ds by simp
  have sk: "skip_ws (ds @ rest) = ds @ rest"
    using nd [OF d] by (simp add: skip_ws_def ds)
  have sg: "split_sign (ds @ rest) = (False, ds @ rest)"
    using nd [OF d] by (simp add: split_sign_def ds)
  have nx: "(ds @ rest) ! 1 \<noteq> CHR ''x'' \<and> (ds @ rest) ! 1 \<noteq> CHR ''X''" if "2 \<le> length (ds @ rest)"
  proof (cases ds')
    case Nil
    then show ?thesis using that rest ds by (cases rest) auto
  next
    case (Cons e es)
    then have "is_digit_in b e" using assms ds by simp
    from nd [OF this] show ?thesis using Cons ds by simp
  qed
  then have st: "strip_0x b (ds @ rest) = ds @ rest"
    unfolding strip_0x_def by (meson)
  have "takeWhile (is_digit_in b) (ds @ rest) = ds"
    using assms by (cases rest) (auto simp: takeWhile_append2)
  then show ?thesis
    using assms(1) unfolding extract_num_def sk by (simp add: Let_def sg st)
qed

lemma extract_int_hex:
  assumes "n < 2 ^ 31"
  shows "extract_int 16 (show_hex w n) = Some (int n)"
proof -
  have "extract_num 16 (show_hex w n @ []) = Some (False, digits_value 16 (show_hex w n))"
    by (rule extract_num_digits) (use show_hex_digits in \<open>auto simp: show_hex_def pad_left_def\<close>)
  then show ?thesis
    using assms
    by (simp add: extract_int_def show_hex_def digits_value_pad digits_value_show_base saturate32_def)
qed

lemma extract_int_oct:
  assumes "n < 2 ^ 31"
  shows "extract_int 8 (show_oct w n) = Some (int n)"
proof -
  have "extract_num 8 (show_oct w n @ []) = Some (False, digits_value 8 (show_oct w n))"
    by (rule extract_num_digits) (use show_oct_digits in \<open>auto simp: show_oct_def pad_left_def\<close>)
  then show ?thesis
    using assms
    by (simp add: extract_int_def show_oct_def digits_value_pad digits_value_show_base saturate32_def)
qed

lemma extract_ulong_hex:
  assumes "n < 2 ^ 64"
  shows "extract_ulong 16 (show_hex w n) = Some n"
proof -
  have "extract_num 16 (show_hex w n @ []) = Some (False, digits_value 16 (show_hex w n))"
    by (rule extract_num_digits) (use show_hex_digits in \<open>auto simp: show_hex_def pad_left_def\<close>)
  then show ?thesis
    using assms
    by (simp add: extract_ulong_def show_hex_def digits_value_pad digits_value_show_base)
qed

end
