(* ===== verification/Escaping.thy ===== *)
theory Escaping
  imports CppStream
begin

text \<open>
  \<^verbatim>\<open>libdap/escaping.cc\<close>: escaping of DAP2 identifiers (\<open>id2www\<close>, \<open>www2id\<close>), of XML text
  (\<open>id2xml\<close>, \<open>xml2id\<close>), of attribute values (\<open>escattr\<close>, \<open>unescattr\<close>), of quotes and of error
  messages. Every loop of the source is a recursive function over the string and the position;
  lemmas then say what the loop computes character by character, and the round trips follow.

  \<^verbatim>\<open>unhexstring\<close> and \<^verbatim>\<open>unoctstring\<close> read into a local \<^verbatim>\<open>int val\<close> that is not initialised: when
  the digits are missing altogether the stream does not store anything and the value of \<^verbatim>\<open>val\<close> is
  whatever the stack held. The argument \<open>junk\<close> is that value.
\<close>

section \<open>Digits\<close>

definition hexstring :: "char \<Rightarrow> string" where
  "hexstring val = show_hex 2 (of_char val)"

definition octstring :: "char \<Rightarrow> string" where
  "octstring val = show_oct 3 (of_char val)"

definition char_cast :: "int \<Rightarrow> char" where
  "char_cast v = char_of (nat (v mod 256))"

definition unhexstring :: "int \<Rightarrow> string \<Rightarrow> string" where
  "unhexstring junk s =
     c_str [char_cast (case extract_int 16 s of None \<Rightarrow> junk | Some val \<Rightarrow> val)]"

definition unoctstring :: "int \<Rightarrow> string \<Rightarrow> string" where
  "unoctstring junk s =
     c_str [char_cast (case extract_int 8 s of None \<Rightarrow> junk | Some val \<Rightarrow> val)]"

definition octal_to_hex :: "int \<Rightarrow> string \<Rightarrow> string" where
  "octal_to_hex junk octal_digits =
     show_hex 2 (nat ((case extract_int 8 octal_digits of None \<Rightarrow> junk | Some val \<Rightarrow> val) mod 2 ^ 32))"

section \<open>Identifiers\<close>

text \<open>The default of the argument \<open>allowable\<close> in \<^verbatim>\<open>escaping.h\<close>, without and with the star.\<close>

definition allowable_ce :: string where
  "allowable_ce =
     ''ABCDEFGHIJKLMNOPQRSTUVWXYZabcdefghijklmnopqrstuvwxyz0123456789-+_/.'' @ [bslash]"

definition allowable_id :: string where
  "allowable_id = allowable_ce @ ''*''"

lemma length_hexstring [simp]: "length (hexstring c) = 2"
  using length_show_hex [of "of_char c" 1] by (simp add: hexstring_def numeral_2_eq_2)

function id2www_loop :: "string \<Rightarrow> string \<Rightarrow> nat \<Rightarrow> string" where
  "id2www_loop allowable s i =
     (case find_first_not_of s allowable i of
        None \<Rightarrow> s
      | Some j \<Rightarrow> id2www_loop allowable (str_replace s j 1 (''%'' @ hexstring (s ! j))) (j + 3))"
  by pat_completeness auto
termination
proof (relation "measure (\<lambda>(allowable, s, i). length s - i)", goal_cases)
  case (2 a s i j)
  then have "find_if_from (\<lambda>c. c \<notin> set a) s i = Some j" by (simp add: find_first_not_of_def)
  from find_if_from_SomeD [OF this] show ?case by (simp add: length_str_replace)
qed simp

declare id2www_loop.simps [simp del]

definition id2www :: "string \<Rightarrow> string \<Rightarrow> string" where
  "id2www s allowable = id2www_loop allowable s 0"

definition id2www_ce :: "string \<Rightarrow> string \<Rightarrow> string" where
  "id2www_ce s allowable = id2www s allowable"

lemma length_c_str_singleton: "length (c_str [c]) \<le> 1"
  by (simp add: c_str_def)

function www2id_loop :: "int \<Rightarrow> string \<Rightarrow> string \<Rightarrow> string \<Rightarrow> nat \<Rightarrow> string" where
  "www2id_loop junk escape except res i =
     (case find_first_of res escape i of
        None \<Rightarrow> res
      | Some j \<Rightarrow>
          if find_sub except (substr res j 3) 0 \<noteq> None
          then www2id_loop junk escape except res (j + 3)
          else www2id_loop junk escape except
                 (str_replace res j 3 (unhexstring junk (substr res (j + 1) 2))) (Suc j))"
  by pat_completeness auto
termination
proof (relation "measure (\<lambda>(junk, escape, except, res, i). length res - i)", goal_cases)
  case (2 junk escape except res i j)
  then have "find_if_from (\<lambda>c. c \<in> set escape) res i = Some j" by (simp add: find_first_of_def)
  from find_if_from_SomeD [OF this] show ?case by simp
next
  case (3 junk escape except res i j)
  then have "find_if_from (\<lambda>c. c \<in> set escape) res i = Some j" by (simp add: find_first_of_def)
  note d = find_if_from_SomeD [OF this]
  have "length (unhexstring junk (substr res (j + 1) 2)) \<le> 1"
    unfolding unhexstring_def by (rule length_c_str_singleton)
  with d show ?case by (auto simp: str_replace_def)
qed simp

declare www2id_loop.simps [simp del]

definition www2id :: "int \<Rightarrow> string \<Rightarrow> string \<Rightarrow> string \<Rightarrow> string" where
  "www2id junk s escape except = www2id_loop junk escape except s 0"

function esc2underscore :: "string \<Rightarrow> string" where
  "esc2underscore s =
     (case find_char s (CHR ''%'') 0 of
        None \<Rightarrow> s
      | Some pos \<Rightarrow> esc2underscore (str_replace s pos 3 ''_''))"
  by pat_completeness auto
termination
proof (relation "measure (\<lambda>s. length (filter (\<lambda>c. c = CHR ''%'') s))", goal_cases)
  case (2 s pos)
  then have "find_if_from (\<lambda>c. c = CHR ''%'') s 0 = Some pos" by (simp add: find_char_def)
  note d = find_if_from_SomeD [OF this]
  from length_filter_drop_le [of "Suc pos" "pos + 3" "\<lambda>c. c = CHR ''%''" s]
    length_filter_split [OF d(2), of "\<lambda>c. c = CHR ''%''"] d(3)
  show ?case by (simp add: str_replace_def)
qed simp

declare esc2underscore.simps [simp del]

section \<open>XML\<close>

definition entity :: "char \<Rightarrow> dap_error + string" where
  "entity c =
     (if c = CHR ''>'' then Inr ''&gt;''
      else if c = CHR ''<'' then Inr ''&lt;''
      else if c = CHR ''&'' then Inr ''&amp;''
      else if c = squote then Inr ''&apos;''
      else if c = dquote then Inr ''&quot;''
      else Inl (InternalErr ''Unrecognized character.''))"

text \<open>The default of \<open>not_allowed\<close>, and the characters that have an entity.\<close>

definition xml_special :: string where
  "xml_special = ''><&'' @ [squote, dquote]"

lemma entity_tail_plain:
  "entity c = Inr e \<Longrightarrow> c \<in> set xml_special \<and> e \<noteq> [] \<and> hd e = CHR ''&'' \<and>
     filter (\<lambda>x. x \<in> set xml_special) (tl e) = []"
  by (auto simp: entity_def xml_special_def split: if_splits)

function id2xml_loop :: "string \<Rightarrow> string \<Rightarrow> nat \<Rightarrow> dap_error + string" where
  "id2xml_loop not_allowed s i =
     (case find_first_of s not_allowed i of
        None \<Rightarrow> Inr s
      | Some j \<Rightarrow> (case entity (s ! j) of
                    Inl e \<Rightarrow> Inl e
                  | Inr r \<Rightarrow> id2xml_loop not_allowed (str_replace s j 1 r) (Suc j)))"
  by pat_completeness auto
termination
proof (relation "measure (\<lambda>(na, s, i). length (filter (\<lambda>x. x \<in> set xml_special) (drop i s)))", goal_cases)
  case (2 na s i j r)
  from 2(1) have "find_if_from (\<lambda>c. c \<in> set na) s i = Some j" by (simp add: find_first_of_def)
  note d = find_if_from_SomeD [OF this]
  note e = entity_tail_plain [OF 2(2)]
  let ?P = "\<lambda>x. x \<in> set xml_special"
  obtain r' where r: "r = CHR ''&'' # r'" using e by (cases r) auto
  have "drop (Suc j) (str_replace s j 1 r) = r' @ drop (Suc j) s"
    using d r by (simp add: str_replace_def)
  moreover have "filter ?P r' = []" using e r by simp
  ultimately have "length (filter ?P (drop (Suc j) (str_replace s j 1 r)))
                   = length (filter ?P (drop (Suc j) s))" by simp
  also have "\<dots> < length (filter ?P (drop j s))"
    using d e by (simp add: Cons_nth_drop_Suc [symmetric])
  also have "\<dots> \<le> length (filter ?P (drop i s))" by (rule length_filter_drop_le [OF d(1)])
  finally show ?case by simp
qed simp

declare id2xml_loop.simps [simp del]

definition id2xml :: "string \<Rightarrow> string \<Rightarrow> dap_error + string" where
  "id2xml s not_allowed = id2xml_loop not_allowed s 0"

text \<open>
  One of the five loops of \<open>xml2id\<close>: the entity \<open>& p ps\<close> becomes the character \<open>c\<close>. The
  search goes on at the position of that character, not after it.
\<close>

function xml2id_loop :: "char \<Rightarrow> string \<Rightarrow> char \<Rightarrow> string \<Rightarrow> nat \<Rightarrow> string" where
  "xml2id_loop p ps c s i =
     (case find_sub s (CHR ''&'' # p # ps) i of
        None \<Rightarrow> s
      | Some j \<Rightarrow> xml2id_loop p ps c (str_replace s j (2 + length ps) [c]) j)"
  by pat_completeness auto
termination
proof (relation "measure (\<lambda>(p, ps, c, s, i). length s)", goal_cases)
  case (2 p ps c s i j)
  with find_sub_SomeD [OF 2] show ?case by (simp add: length_str_replace)
qed simp

declare xml2id_loop.simps [simp del]

definition xml2id :: "string \<Rightarrow> string" where
  "xml2id s =
     (let s1 = xml2id_loop (CHR ''g'') ''t;'' (CHR ''>'') s 0;
          s2 = xml2id_loop (CHR ''l'') ''t;'' (CHR ''<'') s1 0;
          s3 = xml2id_loop (CHR ''a'') ''mp;'' (CHR ''&'') s2 0;
          s4 = xml2id_loop (CHR ''a'') ''pos;'' squote s3 0
      in xml2id_loop (CHR ''q'') ''uot;'' dquote s4 0)"

section \<open>Attribute values\<close>

definition printable :: string where
  "printable = '' ABCDEFGHIJKLMNOPQRSTUVWXYZabcdefghijklmnopqrstuvwxyz0123456789~`!@#$%^&*()_-+={[}]|''
     @ [bslash] @ '':;<,>.?/'' @ [squote, dquote]"

lemma octstring_printable: "c \<in> set (octstring x) \<Longrightarrow> c \<in> set printable"
proof -
  assume "c \<in> set (octstring x)"
  then have "is_digit_in 8 c" using show_oct_digits by (auto simp: octstring_def)
  then have "c \<in> set ''01234567''" by (simp only: is_digit_8)
  then show ?thesis by (auto simp: printable_def)
qed

function escattr_octal_loop :: "string \<Rightarrow> nat \<Rightarrow> string" where
  "escattr_octal_loop s ind =
     (case find_first_not_of s printable ind of
        None \<Rightarrow> s
      | Some j \<Rightarrow> escattr_octal_loop (str_replace s j 1 (bslash # octstring (s ! j))) j)"
  by pat_completeness auto
termination
proof (relation "measure (\<lambda>(s, i). length (filter (\<lambda>x. x \<notin> set printable) s))", goal_cases)
  case (2 s i j)
  then have "find_if_from (\<lambda>c. c \<notin> set printable) s i = Some j" by (simp add: find_first_not_of_def)
  note d = find_if_from_SomeD [OF this]
  have "filter (\<lambda>x. x \<notin> set printable) (octstring (s ! j)) = []"
    using octstring_printable by (auto simp: filter_empty_conv)
  moreover have "bslash \<in> set printable" by (simp add: printable_def)
  ultimately show ?case
    using length_filter_split [OF d(2), of "\<lambda>x. x \<notin> set printable"] d(3)
    by (simp add: str_replace_def)
qed simp

declare escattr_octal_loop.simps [simp del]

definition escattr :: "string \<Rightarrow> string" where
  "escattr s =
     (let s1 = escape_loop (\<lambda>c. c = bslash) (\<lambda>c. [bslash, bslash]) s 0;
          s2 = escattr_octal_loop s1 0
      in escape_loop (\<lambda>c. c = dquote) (\<lambda>c. [bslash, dquote]) s2 0)"

text \<open>
  \<^verbatim>\<open>Regex::search(s.c_str(), s.length(), matchlen, 0)\<close> for a pattern that matches a fixed number
  of characters: the leftmost match in the text before the first NUL; texts longer than 32766
  are not searched.
\<close>

fun leftmost :: "(string \<Rightarrow> bool) \<Rightarrow> string \<Rightarrow> nat \<Rightarrow> nat option" where
  "leftmost m [] k = (if m [] then Some k else None)"
| "leftmost m (x # xs) k = (if m (x # xs) then Some k else leftmost m xs (Suc k))"

definition regex_search :: "(string \<Rightarrow> bool) \<Rightarrow> string \<Rightarrow> nat option" where
  "regex_search m s = (if 32766 < length s then None else leftmost m (c_str s) 0)"

definition esc_esc :: "string \<Rightarrow> bool" where
  "esc_esc s = starts_with [bslash, bslash] s"

definition esc_quote :: "string \<Rightarrow> bool" where
  "esc_quote s = starts_with [bslash, dquote] s"

definition octal_esc :: "string \<Rightarrow> bool" where
  "octal_esc s = (4 \<le> length s \<and> s ! 0 = bslash \<and> s ! 1 \<in> set ''0123''
                  \<and> s ! 2 \<in> set ''01234567'' \<and> s ! 3 \<in> set ''01234567'')"

lemma leftmost_SomeD: "leftmost m s k = Some j \<Longrightarrow> k \<le> j \<and> j \<le> k + length s \<and> m (drop (j - k) s)"
proof (induction s arbitrary: k)
  case Nil
  then show ?case by (auto split: if_splits)
next
  case (Cons x xs)
  show ?case
  proof (cases "m (x # xs)")
    case False
    with Cons.prems Cons.IH [of "Suc k"] show ?thesis by (auto simp: drop_Cons' Suc_diff_le)
  qed (use Cons.prems in auto)
qed

lemma length_c_str: "length (c_str s) \<le> length s"
  by (simp add: c_str_def length_takeWhile_le)

lemma regex_search_fits:
  assumes "regex_search m s = Some j" and "\<And>t. m t \<Longrightarrow> n \<le> length t"
  shows "j + n \<le> length s"
proof -
  from assms(1) have "leftmost m (c_str s) 0 = Some j" by (simp add: regex_search_def split: if_splits)
  from leftmost_SomeD [OF this] have "j \<le> length (c_str s)" "m (drop j (c_str s))" by auto
  with assms(2) have "n \<le> length (c_str s) - j" by (metis length_drop)
  with \<open>j \<le> length (c_str s)\<close> length_c_str [of s] show ?thesis by linarith
qed

lemma esc_lengths: "esc_esc t \<Longrightarrow> 2 \<le> length t" "esc_quote t \<Longrightarrow> 2 \<le> length t"
    "octal_esc t \<Longrightarrow> 4 \<le> length t"
  by (auto simp: esc_esc_def esc_quote_def octal_esc_def dest: starts_with_length)

function unescattr_esc_loop :: "string \<Rightarrow> string" where
  "unescattr_esc_loop s =
     (case regex_search esc_esc s of
        None \<Rightarrow> s
      | Some ind \<Rightarrow> unescattr_esc_loop (str_replace s ind 2 [bslash]))"
  by pat_completeness auto
termination
proof (relation "measure length", goal_cases)
  case (2 s j)
  from regex_search_fits [OF 2 esc_lengths(1)] show ?case by (simp add: length_str_replace)
qed simp

function unescattr_quote_loop :: "string \<Rightarrow> string" where
  "unescattr_quote_loop s =
     (case regex_search esc_quote s of
        None \<Rightarrow> s
      | Some ind \<Rightarrow> unescattr_quote_loop (str_replace s ind 2 [dquote]))"
  by pat_completeness auto
termination
proof (relation "measure length", goal_cases)
  case (2 s j)
  from regex_search_fits [OF 2 esc_lengths(2)] show ?case by (simp add: length_str_replace)
qed simp

function unescattr_octal_loop :: "int \<Rightarrow> string \<Rightarrow> string" where
  "unescattr_octal_loop junk s =
     (case regex_search octal_esc s of
        None \<Rightarrow> s
      | Some ind \<Rightarrow>
          unescattr_octal_loop junk (str_replace s ind 4 (unoctstring junk (substr s (ind + 1) 3))))"
  by pat_completeness auto
termination
proof (relation "measure (\<lambda>(junk, s). length s)", goal_cases)
  case (2 junk s j)
  have "length (unoctstring junk (substr s (j + 1) 3)) \<le> 1"
    unfolding unoctstring_def by (rule length_c_str_singleton)
  with regex_search_fits [OF 2 esc_lengths(3)] show ?case by (simp add: length_str_replace)
qed simp

declare unescattr_esc_loop.simps [simp del] unescattr_quote_loop.simps [simp del]
  unescattr_octal_loop.simps [simp del]

definition unescattr :: "int \<Rightarrow> string \<Rightarrow> string" where
  "unescattr junk s = unescattr_octal_loop junk (unescattr_quote_loop (unescattr_esc_loop s))"

section \<open>Quotes and error messages\<close>

text \<open>
  \<open>munge_error_message\<close> reads \<^verbatim>\<open>*msg.begin()\<close> of its argument and walks from \<^verbatim>\<open>begin() + 1\<close> to
  \<^verbatim>\<open>end() - 1\<close>. For the empty string, and for the string that is one quote, this leaves the string
  (undefined behaviour): the model gives \<open>None\<close>. From \<open>i = 1\<close> on a string of two characters or more
  \<open>i < length - 1\<close> is the test \<^verbatim>\<open>miter != msg.end() - 1\<close>.
\<close>

function munge_loop :: "string \<Rightarrow> nat \<Rightarrow> string" where
  "munge_loop msg i =
     (if i < length msg - 1
      then if msg ! i = dquote \<and> msg ! (i - 1) \<noteq> bslash
           then munge_loop (str_replace msg i 0 [bslash]) (Suc i)
           else munge_loop msg (Suc i)
      else msg)"
  by pat_completeness auto
termination
proof (relation "measure (\<lambda>(msg, i). 2 * (length msg - i)
         + (if msg ! i = dquote \<and> msg ! (i - 1) \<noteq> bslash then 1 else 0))", goal_cases)
  case (2 msg i)
  then have "str_replace msg i 0 [bslash] ! i = bslash"
    by (simp add: str_replace_def nth_append)
  with 2 show ?case by (simp add: length_str_replace)
next
  case (3 msg i)
  then show ?case by auto
qed simp

declare munge_loop.simps [simp del]

definition munge_error_message :: "string \<Rightarrow> string option" where
  "munge_error_message msg =
     (if msg = [] \<or> msg = [dquote] then None
      else let m1 = (if hd msg \<noteq> dquote then dquote # msg else msg);
               m2 = (if last m1 \<noteq> dquote then m1 @ [dquote] else m1)
           in Some (munge_loop m2 1))"

definition escape_double_quotes :: "string \<Rightarrow> string" where
  "escape_double_quotes source = escape_loop (\<lambda>c. c = dquote) (\<lambda>c. [bslash, dquote]) source 0"

function unescape_double_quotes_loop :: "string \<Rightarrow> nat \<Rightarrow> string" where
  "unescape_double_quotes_loop s idx =
     (case find_sub s [bslash, dquote] idx of
        None \<Rightarrow> s
      | Some j \<Rightarrow> unescape_double_quotes_loop (str_replace s j 2 [dquote]) (Suc j))"
  by pat_completeness auto
termination
proof (relation "measure (\<lambda>(s, i). length s - i)", goal_cases)
  case (2 s i j)
  with find_sub_SomeD [OF 2] show ?case by (simp add: length_str_replace)
qed simp

declare unescape_double_quotes_loop.simps [simp del]

definition unescape_double_quotes :: "string \<Rightarrow> string" where
  "unescape_double_quotes source = unescape_double_quotes_loop source 0"

section \<open>What the identifier loops compute\<close>

lemma id2www_loop_escape:
  "id2www_loop a s i = escape_loop (\<lambda>c. c \<notin> set a) (\<lambda>c. CHR ''%'' # hexstring c) s i"
proof (induction a s i rule: id2www_loop.induct)
  case (1 a s i)
  then show ?case
    by (subst id2www_loop.simps, subst escape_loop.simps)
       (auto simp: find_first_not_of_def add.commute eval_nat_numeral split: option.split)
qed

definition www_code :: "string \<Rightarrow> char \<Rightarrow> string" where
  "www_code a c = (if c \<in> set a then [c] else CHR ''%'' # hexstring c)"

lemma id2www_eq: "id2www s a = concat (map (www_code a) s)"
  unfolding id2www_def id2www_loop_escape escape_loop_0
  by (rule arg_cong [where f = concat]) (simp add: www_code_def)

lemma char_cast_of_char [simp]: "char_cast (int (of_char c)) = c"
  using nat_of_char_less_256 [of c] by (simp add: char_cast_def nat_mod_distrib nat_int)

lemma unhexstring_hexstring: "unhexstring junk (hexstring c) = c_str [c]"
proof -
  have "(of_char c :: nat) < 2 ^ 31" by (rule less_trans [OF nat_of_char_less_256]) simp
  from extract_int_hex [OF this, of 2]
  have "extract_int 16 (hexstring c) = Some (int (of_char c))" by (simp add: hexstring_def)
  then show ?thesis by (simp add: unhexstring_def)
qed

lemma unoctstring_octstring: "unoctstring junk (octstring c) = c_str [c]"
proof -
  have "(of_char c :: nat) < 2 ^ 31" by (rule less_trans [OF nat_of_char_less_256]) simp
  from extract_int_oct [OF this, of 3]
  have "extract_int 8 (octstring c) = Some (int (of_char c))" by (simp add: octstring_def)
  then show ?thesis by (simp add: unoctstring_def)
qed

lemma c_str_plain [simp]: "c \<noteq> nul \<Longrightarrow> c_str [c] = [c]"
  by (simp add: c_str_def)

text \<open>One step of the decoding loop on a character that is kept and on an escape.\<close>

lemma www2id_loop_skip:
  assumes "i < length res" "res ! i \<notin> set esc"
  shows "www2id_loop junk esc ex res i = www2id_loop junk esc ex res (Suc i)"
  using find_if_from_skip [OF assms(1), of "\<lambda>c. c \<in> set esc"] assms(2)
  by (subst (1 2) www2id_loop.simps) (simp add: find_first_of_def)

lemma www2id_loop_code:
  assumes "i < length res" "res ! i \<in> set esc"
  shows "www2id_loop junk esc [] res i
         = www2id_loop junk esc [] (str_replace res i 3 (unhexstring junk (substr res (i + 1) 2))) (Suc i)"
proof -
  have "substr res i 3 \<noteq> []" using assms by (simp add: substr_def)
  then have "find_sub [] (substr res i 3) 0 = None" by (simp add: find_sub_def)
  then show ?thesis
    using find_if_from_here [OF assms(1), of "\<lambda>c. c \<in> set esc"] assms(2)
    by (subst www2id_loop.simps) (simp add: find_first_of_def)
qed

lemma www2id_loop_decodes:
  assumes "CHR ''%'' \<notin> set a" "nul \<notin> set s"
  shows "www2id_loop junk ''%'' [] (pre @ concat (map (www_code a) s)) (length pre) = pre @ s"
  using assms(2)
proof (induction s arbitrary: pre)
  case Nil
  then show ?case by (simp add: www2id_loop.simps find_first_of_def)
next
  case (Cons c cs)
  let ?rest = "concat (map (www_code a) cs)"
  have "www2id_loop junk ''%'' [] (pre @ concat (map (www_code a) (c # cs))) (length pre)
        = www2id_loop junk ''%'' [] ((pre @ [c]) @ ?rest) (length (pre @ [c]))"
  proof (cases "c \<in> set a")
    case True
    then have "c \<noteq> CHR ''%''" using assms(1) by auto
    with True show ?thesis by (simp add: www_code_def www2id_loop_skip)
  next
    case False
    let ?res = "pre @ CHR ''%'' # hexstring c @ ?rest"
    have s2: "substr ?res (length pre + 1) 2 = hexstring c" by (simp add: substr_def)
    have "str_replace ?res (length pre) 3 [c] = (pre @ [c]) @ ?rest"
      by (simp add: str_replace_def eval_nat_numeral)
    moreover have "c_str [c] = [c]" using Cons.prems by (intro c_str_plain) auto
    ultimately show ?thesis using False s2
      by (simp add: www_code_def www2id_loop_code unhexstring_hexstring)
  qed
  also have "\<dots> = (pre @ [c]) @ cs" using Cons by (intro Cons.IH) auto
  finally show ?case by simp
qed

text \<open>
  C38: Decoding undoes encoding of a DAP2 identifier: for every string without NUL and every set of
  allowable characters that leaves out the percent sign, \<open>www2id\<close> (with its default arguments)
  applied to the output of \<open>id2www\<close> returns the string, whatever the uninitialised local holds.
\<close>

theorem www2id_id2www:
  assumes "CHR ''%'' \<notin> set allowable" and "nul \<notin> set s"
  shows "www2id junk (id2www s allowable) ''%'' [] = s"
  using www2id_loop_decodes [OF assms, of junk "[]"] by (simp add: www2id_def id2www_eq)

theorem www2id_id2www_witness:
  "www2id 7 (id2www ''a b%41'' allowable_id) ''%'' [] = ''a b%41''
   \<and> id2www ''a b%41'' allowable_id = ''a%20b%2541''"
proof
  show "www2id 7 (id2www ''a b%41'' allowable_id) ''%'' [] = ''a b%41''"
    by (rule www2id_id2www) (simp_all add: allowable_id_def allowable_ce_def)
  show "id2www ''a b%41'' allowable_id = ''a%20b%2541''"
    by code_simp
qed

section \<open>What the quoting loops compute\<close>

definition quote_code :: "char \<Rightarrow> string" where
  "quote_code c = (if c = dquote then [bslash, dquote] else [c])"

lemma escape_double_quotes_eq: "escape_double_quotes s = concat (map quote_code s)"
  unfolding escape_double_quotes_def escape_loop_0
  by (rule arg_cong [where f = concat]) (simp add: quote_code_def)

lemma quote_code_hd: "s \<noteq> [] \<Longrightarrow> concat (map quote_code s) \<noteq> [] \<and> hd (concat (map quote_code s)) \<noteq> dquote"
  by (cases s) (auto simp: quote_code_def)

lemma unescape_quotes_skip:
  assumes "i < length s" "\<not> starts_with [bslash, dquote] (drop i s)"
  shows "unescape_double_quotes_loop s i = unescape_double_quotes_loop s (Suc i)"
  using find_sub_skip [OF assms(2,1)] by (subst (1 2) unescape_double_quotes_loop.simps) simp

lemma unescape_quotes_decodes:
  "unescape_double_quotes_loop (pre @ concat (map quote_code s)) (length pre) = pre @ s"
proof (induction s arbitrary: pre)
  case Nil
  then show ?case by (simp add: unescape_double_quotes_loop.simps find_sub_at_end)
next
  case (Cons c cs)
  let ?rest = "concat (map quote_code cs)"
  have "unescape_double_quotes_loop (pre @ concat (map quote_code (c # cs))) (length pre)
        = unescape_double_quotes_loop ((pre @ [c]) @ ?rest) (length (pre @ [c]))"
  proof (cases "c = dquote")
    case True
    let ?t = "pre @ bslash # dquote # ?rest"
    have f: "find_sub ?t [bslash, dquote] (length pre) = Some (length pre)"
      by (rule find_sub_here) simp_all
    have "str_replace ?t (length pre) 2 [dquote] = (pre @ [dquote]) @ ?rest"
      by (simp add: str_replace_def)
    with True f show ?thesis
      by (subst unescape_double_quotes_loop.simps) (simp add: quote_code_def)
  next
    case False
    have "\<not> starts_with [bslash, dquote] (c # ?rest)"
    proof
      assume "starts_with [bslash, dquote] (c # ?rest)"
      then obtain r where r: "?rest = dquote # r" by (auto simp: starts_with_iff)
      then have "cs \<noteq> []" by auto
      from quote_code_hd [OF this] r show False by simp
    qed
    with False show ?thesis by (simp add: quote_code_def unescape_quotes_skip)
  qed
  also have "\<dots> = (pre @ [c]) @ cs" by (rule Cons.IH)
  finally show ?case by simp
qed

text \<open>
  Removing the backslashes in front of double quotes undoes putting them there, for every
  string: also for one that holds backslashes, or quotes that were escaped already.
\<close>

theorem unescape_escape_double_quotes: "unescape_double_quotes (escape_double_quotes s) = s"
  using unescape_quotes_decodes [of "[]" s]
  by (simp add: unescape_double_quotes_def escape_double_quotes_eq)

text \<open>The specification of the message loop: \<open>p\<close> is the character before.\<close>

fun munge_spec :: "char \<Rightarrow> string \<Rightarrow> string" where
  "munge_spec p [] = []"
| "munge_spec p (c # cs) =
     (if c = dquote \<and> p \<noteq> bslash then bslash # c # munge_spec c cs else c # munge_spec c cs)"

lemma munge_loop_spec:
  "munge_loop (pre @ p # mid @ [z]) (Suc (length pre)) = pre @ p # munge_spec p mid @ [z]"
proof (induction mid arbitrary: pre p)
  case Nil
  then show ?case by (simp add: munge_loop.simps)
next
  case (Cons c cs)
  let ?m = "pre @ p # (c # cs) @ [z]"
  have nth: "?m ! Suc (length pre) = c" "?m ! length pre = p"
    by (simp_all add: nth_append)
  have step: "munge_loop ?m (Suc (length pre)) = pre @ p # c # munge_spec c cs @ [z]"
    if "\<not> (c = dquote \<and> p \<noteq> bslash)"
  proof -
    have "munge_loop ?m (Suc (length pre)) = munge_loop ?m (Suc (Suc (length pre)))"
      using that nth by (subst munge_loop.simps) auto
    also have "\<dots> = (pre @ [p]) @ c # munge_spec c cs @ [z]"
      using Cons.IH [of "pre @ [p]" c] by simp
    finally show ?thesis by simp
  qed
  show ?case
  proof (cases "c = dquote \<and> p \<noteq> bslash")
    case False
    then show ?thesis using step by auto
  next
    case True
    let ?n = "(pre @ [p]) @ bslash # (c # cs) @ [z]"
    have rep: "str_replace ?m (Suc (length pre)) 0 [bslash] = ?n"
      by (simp add: str_replace_def)
    have nth': "?n ! Suc (Suc (length pre)) = c" "?n ! Suc (length pre) = bslash"
      by (simp_all add: nth_append)
    have "munge_loop ?m (Suc (length pre)) = munge_loop ?n (Suc (Suc (length pre)))"
      using True nth rep by (subst munge_loop.simps) auto
    also have "\<dots> = munge_loop ?n (Suc (Suc (Suc (length pre))))"
      using nth' by (subst munge_loop.simps) auto
    also have "\<dots> = (pre @ [p, bslash]) @ c # munge_spec c cs @ [z]"
      using Cons.IH [of "pre @ [p, bslash]" c] by simp
    finally show ?thesis using True by simp
  qed
qed

lemma munge_spec_escaped:
  "k < length (munge_spec p s) \<Longrightarrow> munge_spec p s ! k = dquote \<Longrightarrow> (p # munge_spec p s) ! k = bslash"
proof (induction p s arbitrary: k rule: munge_spec.induct)
  case (1 p)
  then show ?case by simp
next
  case (2 p c cs)
  show ?case
  proof (cases "c = dquote \<and> p \<noteq> bslash")
    case True
    then consider "k = 0" | "k = 1" | k' where "k = Suc (Suc k')"
      by (metis One_nat_def not0_implies_Suc)
    then show ?thesis
    proof cases
      case 3
      then show ?thesis using 2(1) [OF True, of k'] 2(3,4) True by simp
    qed (use True 2 in auto)
  next
    case False
    then show ?thesis
    proof (cases k)
      case (Suc k')
      then show ?thesis using 2(2) [OF False, of k'] 2(3,4) False by auto
    qed (use False 2 in auto)
  qed
qed

text \<open>
  An error message that leaves \<open>munge_error_message\<close> is enclosed in double quotes and every
  double quote between them has a backslash before it; the function is defined for every message
  but the empty one and the one that is a single quote.
\<close>

theorem munge_error_message_quoted:
  assumes "msg \<noteq> []" and "msg \<noteq> [dquote]"
  shows "\<exists>body. munge_error_message msg = Some (dquote # body @ [dquote]) \<and>
           (\<forall>k < length body. body ! k = dquote \<longrightarrow> 0 < k \<and> body ! (k - 1) = bslash)"
proof -
  define m1 where "m1 = (if hd msg \<noteq> dquote then dquote # msg else msg)"
  define m2 where "m2 = (if last m1 \<noteq> dquote then m1 @ [dquote] else m1)"
  have m1: "hd m1 = dquote" "2 \<le> length m1"
    using assms by (cases msg; cases "tl msg"; auto simp: m1_def)+
  have m2: "hd m2 = dquote" "2 \<le> length m2" "last m2 = dquote"
    using m1 by (cases m1; auto simp: m2_def)+
  obtain mid where mid: "m2 = dquote # mid @ [dquote]"
  proof -
    obtain t where t: "m2 = dquote # t" "t \<noteq> []" using m2 by (cases m2) (auto simp: Suc_le_eq)
    then have "t = butlast t @ [dquote]" using m2(3) by (metis append_butlast_last_id last_ConsR)
    with t that show thesis by blast
  qed
  have "munge_error_message msg = Some (munge_loop m2 1)"
    using assms by (simp add: munge_error_message_def m1_def m2_def Let_def)
  also have "munge_loop m2 1 = dquote # munge_spec dquote mid @ [dquote]"
    using munge_loop_spec [of "[]" dquote mid dquote] mid by simp
  finally have eq: "munge_error_message msg = Some (dquote # munge_spec dquote mid @ [dquote])" .
  moreover have "0 < k \<and> munge_spec dquote mid ! (k - 1) = bslash"
    if "k < length (munge_spec dquote mid)" "munge_spec dquote mid ! k = dquote" for k
    using munge_spec_escaped [OF that] by (cases k) auto
  ultimately show ?thesis by blast
qed

theorem munge_error_message_quoted_witness:
  "\<exists>body. munge_error_message [CHR ''a'', dquote] = Some (dquote # body @ [dquote]) \<and>
           (\<forall>k < length body. body ! k = dquote \<longrightarrow> 0 < k \<and> body ! (k - 1) = bslash)"
  by (rule munge_error_message_quoted) simp_all

section \<open>What the XML loops compute\<close>

definition xml_code :: "string \<Rightarrow> char \<Rightarrow> string" where
  "xml_code D c = (if c \<in> set D then (case entity c of Inl _ \<Rightarrow> [c] | Inr e \<Rightarrow> e) else [c])"

lemma find_first_of_append:
  "\<forall>x \<in> set u. x \<notin> set cs \<Longrightarrow>
     find_first_of (pre @ u @ rest) cs (length pre) = find_first_of (pre @ u @ rest) cs (length pre + length u)"
  by (simp add: find_first_of_def find_if_from_def scan_append_None)

lemma id2xml_loop_find_cong:
  "find_first_of s na i = find_first_of s na i' \<Longrightarrow> id2xml_loop na s i = id2xml_loop na s i'"
  by (subst (1 2) id2xml_loop.simps) simp

lemma id2xml_loop_codes:
  assumes "set na \<subseteq> set xml_special"
  shows "id2xml_loop na (pre @ s) (length pre) = Inr (pre @ concat (map (xml_code na) s))"
proof (induction s arbitrary: pre)
  case Nil
  then show ?case by (simp add: id2xml_loop.simps find_first_of_def)
next
  case (Cons c cs)
  show ?case
  proof (cases "c \<in> set na")
    case False
    have "find_first_of (pre @ [c] @ cs) na (length pre)
          = find_first_of (pre @ [c] @ cs) na (length pre + length [c])"
      by (rule find_first_of_append) (use False in simp)
    from id2xml_loop_find_cong [OF this]
    have "id2xml_loop na (pre @ c # cs) (length pre) = id2xml_loop na ((pre @ [c]) @ cs) (length (pre @ [c]))"
      by simp
    then show ?thesis using Cons.IH [of "pre @ [c]"] False by (simp add: xml_code_def)
  next
    case True
    then obtain e where e: "entity c = Inr e" using assms by (auto simp: xml_special_def entity_def)
    obtain e' where ee: "e = CHR ''&'' # e'" "\<forall>x \<in> set e'. x \<notin> set na"
      using entity_tail_plain [OF e] assms by (cases e) (auto simp: filter_empty_conv)
    have f: "find_first_of (pre @ c # cs) na (length pre) = Some (length pre)"
      unfolding find_first_of_def by (rule find_if_from_here) (use True in simp_all)
    have rep: "str_replace (pre @ c # cs) (length pre) 1 e = (pre @ [CHR ''&'']) @ e' @ cs"
      using ee by (simp add: str_replace_def)
    have "id2xml_loop na (pre @ c # cs) (length pre)
          = id2xml_loop na ((pre @ [CHR ''&'']) @ e' @ cs) (length (pre @ [CHR ''&'']))"
      using f e rep by (subst id2xml_loop.simps) simp
    also have "\<dots> = id2xml_loop na ((pre @ e) @ cs) (length (pre @ e))"
      using id2xml_loop_find_cong [OF find_first_of_append [of e' na "pre @ [CHR ''&'']" cs]] ee
      by simp
    finally show ?thesis using Cons.IH [of "pre @ e"] True e by (simp add: xml_code_def)
  qed
qed

lemma id2xml_eq:
  "set na \<subseteq> set xml_special \<Longrightarrow> id2xml s na = Inr (concat (map (xml_code na) s))"
  using id2xml_loop_codes [of na "[]" s] by (simp add: id2xml_def)

text \<open>The loop of one entity decodes that entity and leaves the others.\<close>

lemma xml2id_loop_skip:
  assumes "\<And>k. k < length u \<Longrightarrow> \<not> starts_with (CHR ''&'' # p # ps) (drop k u @ rest)"
  shows "xml2id_loop p ps c (pre @ u @ rest) (length pre)
         = xml2id_loop p ps c ((pre @ u) @ rest) (length (pre @ u))"
proof -
  have "xml2id_loop p ps c t i = xml2id_loop p ps c t i'"
    if "find_sub t (CHR ''&'' # p # ps) i = find_sub t (CHR ''&'' # p # ps) i'" for t i i'
    using that by (subst (1 2) xml2id_loop.simps) simp
  from this [OF find_sub_skip_list [OF assms, where pre = pre]] show ?thesis by simp
qed

lemma xml2id_loop_hit:
  "xml2id_loop p ps c (pre @ (CHR ''&'' # p # ps) @ rest) (length pre)
   = xml2id_loop p ps c (pre @ c # rest) (length pre)"
proof -
  let ?t = "pre @ (CHR ''&'' # p # ps) @ rest"
  have f: "find_sub ?t (CHR ''&'' # p # ps) (length pre) = Some (length pre)"
    by (rule find_sub_here) simp_all
  have "str_replace ?t (length pre) (2 + length ps) [c] = pre @ c # rest"
    by (simp add: str_replace_def)
  with f show ?thesis by (subst xml2id_loop.simps) simp
qed

definition drop_char :: "char \<Rightarrow> string \<Rightarrow> string" where
  "drop_char c D = filter (\<lambda>x. x \<noteq> c) D"

lemma xml2id_loop_pass:
  assumes ent: "entity x = Inr (CHR ''&'' # p # ps)" and "x \<noteq> CHR ''&''" and "x \<in> set D"
    and noamp: "CHR ''&'' \<notin> set s"
  shows "xml2id_loop p ps x (pre @ concat (map (xml_code D) s)) (length pre)
         = pre @ concat (map (xml_code (drop_char x D)) s)"
  using noamp
proof (induction s arbitrary: pre)
  case Nil
  then show ?case by (simp add: xml2id_loop.simps find_sub_at_end)
next
  case (Cons c cs)
  let ?rest = "concat (map (xml_code D) cs)"
  have c: "c \<noteq> CHR ''&''" using Cons.prems by auto
  have IH: "xml2id_loop p ps x (pre' @ ?rest) (length pre')
            = pre' @ concat (map (xml_code (drop_char x D)) cs)" for pre'
    using Cons by auto
  show ?case
  proof (cases "c = x")
    case True
    have code: "xml_code D c = CHR ''&'' # p # ps" "xml_code (drop_char x D) c = [x]"
      using True assms by (simp_all add: xml_code_def drop_char_def)
    have "xml2id_loop p ps x (pre @ xml_code D c @ ?rest) (length pre)
          = xml2id_loop p ps x (pre @ [x] @ ?rest) (length pre)"
      using xml2id_loop_hit [of p ps x pre ?rest] by (simp add: code)
    also have "\<dots> = xml2id_loop p ps x ((pre @ [x]) @ ?rest) (length (pre @ [x]))"
      by (rule xml2id_loop_skip) (use assms(2) in auto)
    finally show ?thesis using IH [of "pre @ [x]"] code by simp
  next
    case False
    have same: "xml_code (drop_char x D) c = xml_code D c"
      using False by (simp add: xml_code_def drop_char_def)
    have "xml2id_loop p ps x (pre @ xml_code D c @ ?rest) (length pre)
          = xml2id_loop p ps x ((pre @ xml_code D c) @ ?rest) (length (pre @ xml_code D c))"
    proof (rule xml2id_loop_skip)
      fix k assume k: "k < length (xml_code D c)"
      show "\<not> starts_with (CHR ''&'' # p # ps) (drop k (xml_code D c) @ ?rest)"
        using k False c ent
        by (auto simp: xml_code_def entity_def less_Suc_eq_0_disj numeral_eq_Suc split: if_splits)
    qed
    then show ?thesis using IH [of "pre @ xml_code D c"] same by simp
  qed
qed

lemma xml2id_loop_none:
  assumes ent: "entity x = Inr (CHR ''&'' # p # ps)" and "x \<notin> set D" and noamp: "CHR ''&'' \<notin> set s"
  shows "xml2id_loop p ps x (pre @ concat (map (xml_code D) s)) (length pre)
         = pre @ concat (map (xml_code D) s)"
  using noamp
proof (induction s arbitrary: pre)
  case Nil
  then show ?case by (simp add: xml2id_loop.simps find_sub_at_end)
next
  case (Cons c cs)
  let ?rest = "concat (map (xml_code D) cs)"
  have c: "c \<noteq> CHR ''&''" using Cons.prems by auto
  have "xml2id_loop p ps x (pre @ xml_code D c @ ?rest) (length pre)
        = xml2id_loop p ps x ((pre @ xml_code D c) @ ?rest) (length (pre @ xml_code D c))"
  proof (rule xml2id_loop_skip)
    fix k assume k: "k < length (xml_code D c)"
    show "\<not> starts_with (CHR ''&'' # p # ps) (drop k (xml_code D c) @ ?rest)"
      using k assms(2) c ent
      by (auto simp: xml_code_def entity_def less_Suc_eq_0_disj numeral_eq_Suc split: if_splits)
  qed
  then show ?case using Cons.IH [of "pre @ xml_code D c"] Cons.prems by simp
qed

lemma xml2id_pass:
  assumes "entity x = Inr (CHR ''&'' # p # ps)" and "CHR ''&'' \<notin> set s"
  shows "xml2id_loop p ps x (concat (map (xml_code D) s)) 0
         = concat (map (xml_code (drop_char x D)) s)"
proof (cases "x \<in> set D \<and> x \<noteq> CHR ''&''")
  case True
  then show ?thesis using xml2id_loop_pass [OF assms(1) _ _ assms(2), of D "[]"] by simp
next
  case False
  have eq: "map (xml_code D) s = map (xml_code (drop_char x D)) s"
    using False assms(2) by (auto simp: xml_code_def drop_char_def)
  have "x \<notin> set (drop_char x D)" by (simp add: drop_char_def)
  from xml2id_loop_none [OF assms(1) this assms(2), of "[]"] show ?thesis
    by (simp add: eq)
qed

text \<open>
  For a string without an ampersand, \<open>xml2id\<close> undoes \<open>id2xml\<close>, whichever of the five special
  characters the caller asks to encode; no entity is left over and no exception is thrown.
\<close>

theorem xml2id_id2xml:
  assumes "set not_allowed \<subseteq> set xml_special" and "CHR ''&'' \<notin> set s"
  shows "\<exists>t. id2xml s not_allowed = Inr t \<and> xml2id t = s"
proof -
  have "xml2id (concat (map (xml_code not_allowed) s)) = s"
    unfolding xml2id_def Let_def
    using assms(2)
    by (simp add: xml2id_pass entity_def)
       (rule concat_map_singleton_id,
        use assms(1) in \<open>auto simp: xml_code_def drop_char_def xml_special_def\<close>)
  with id2xml_eq [OF assms(1)] show ?thesis by simp
qed

theorem xml2id_id2xml_witness:
  "\<exists>t. id2xml ''a<b'' xml_special = Inr t \<and> xml2id t = ''a<b''"
  by (rule xml2id_id2xml) simp_all

text \<open>
  With an ampersand the two functions are no inverses: the loop for \<^verbatim>\<open>&amp;\<close> searches again at
  the ampersand it has just written and the loops for \<^verbatim>\<open>&apos;\<close> and \<^verbatim>\<open>&quot;\<close> run after it, so
  text that was escaped once is decoded twice: the text \<^verbatim>\<open>&amp;\<close> comes back as one ampersand and
  the text \<^verbatim>\<open>&apos;\<close> as an apostrophe.
\<close>

theorem xml2id_decodes_twice:
  "id2xml ''&amp;'' xml_special = Inr ''&amp;amp;'' \<and> xml2id ''&amp;amp;'' = ''&'' \<and>
   id2xml ''&apos;'' xml_special = Inr ''&amp;apos;'' \<and> xml2id ''&amp;apos;'' = [squote]"
  by (intro conjI; code_simp)

section \<open>What the attribute loops compute\<close>

definition octal_code :: "char \<Rightarrow> string" where
  "octal_code c = (if c \<in> set printable then [c] else bslash # octstring c)"

definition attr_code :: "char \<Rightarrow> string" where
  "attr_code c = (if c = dquote then [bslash, dquote] else octal_code c)"

lemma dquote_printable: "dquote \<in> set printable"
  by (simp add: printable_def)

lemma bslash_printable: "bslash \<in> set printable"
  by (simp add: printable_def)

lemma nul_not_printable: "nul \<notin> set printable"
  by (simp add: printable_def)

lemma octstring_octal: "c \<in> set (octstring x) \<Longrightarrow> c \<in> set ''01234567''"
  using show_oct_digits is_digit_8 by (auto simp: octstring_def simp del: set_simps)

lemma octstring_cons: "\<exists>a b c. octstring x = [a, b, c] \<and> {a, b, c} \<subseteq> set ''01234567'' \<and> a \<in> set ''0123''"
proof -
  have len: "length (octstring x) = 3"
    using length_show_oct [of "of_char x" 2] nat_of_char_less_256 [of x]
    by (simp add: octstring_def numeral_3_eq_3 less_trans [OF nat_of_char_less_256])
  then obtain a b c where abc: "octstring x = [a, b, c]"
    by (metis (no_types) length_0_conv length_Suc_conv numeral_3_eq_3)
  have sub: "{a, b, c} \<subseteq> set ''01234567''" using octstring_octal [of _ x] abc by auto
  have v: "digits_value 8 [a, b, c] = of_char x"
    unfolding abc [symmetric] octstring_def show_oct_def digits_value_pad
    by (rule digits_value_show_base) simp_all
  have "a \<in> set ''0123''"
  proof (rule ccontr)
    assume "a \<notin> set ''0123''"
    with sub have "a \<in> set ''4567''" by auto
    then have "256 \<le> digits_value 8 [a, b, c]" by (auto simp: digits_value_def digit_val_def)
    with v nat_of_char_less_256 [of x] show False by simp
  qed
  with abc sub show ?thesis by blast
qed

lemma escattr_octal_codes:
  "escattr_octal_loop (pre @ s) (length pre) = pre @ concat (map octal_code s)"
proof (induction s arbitrary: pre)
  case Nil
  then show ?case by (simp add: escattr_octal_loop.simps find_first_not_of_def)
next
  case (Cons c cs)
  have skip: "escattr_octal_loop (pre @ u @ cs) (length pre)
              = escattr_octal_loop ((pre @ u) @ cs) (length (pre @ u))"
    if "\<forall>x \<in> set u. x \<in> set printable" for u
  proof -
    have "find_first_not_of (pre @ u @ cs) printable (length pre)
          = find_first_not_of (pre @ u @ cs) printable (length pre + length u)"
      using that by (simp add: find_first_not_of_def find_if_from_def scan_append_None)
    then have "escattr_octal_loop (pre @ u @ cs) (length pre)
               = escattr_octal_loop (pre @ u @ cs) (length pre + length u)"
      by (subst (1 2) escattr_octal_loop.simps) simp
    then show ?thesis by simp
  qed
  show ?case
  proof (cases "c \<in> set printable")
    case True
    then show ?thesis using skip [of "[c]"] Cons.IH [of "pre @ [c]"] by (simp add: octal_code_def)
  next
    case False
    let ?u = "bslash # octstring c"
    have f: "find_first_not_of (pre @ c # cs) printable (length pre) = Some (length pre)"
      unfolding find_first_not_of_def by (rule find_if_from_here) (use False in simp_all)
    have "str_replace (pre @ c # cs) (length pre) 1 ?u = pre @ ?u @ cs"
      by (simp add: str_replace_def)
    with f have "escattr_octal_loop (pre @ c # cs) (length pre) = escattr_octal_loop (pre @ ?u @ cs) (length pre)"
      by (subst escattr_octal_loop.simps) simp
    also have "\<dots> = escattr_octal_loop ((pre @ ?u) @ cs) (length (pre @ ?u))"
      by (rule skip) (use octstring_printable bslash_printable in auto)
    finally show ?thesis using Cons.IH [of "pre @ ?u"] False by (simp add: octal_code_def)
  qed
qed

lemma escattr_eq:
  assumes "bslash \<notin> set s"
  shows "escattr s = concat (map attr_code s)"
proof -
  let ?q = "\<lambda>c. if c = dquote then [bslash, dquote] else [c]"
  have s1: "escape_loop (\<lambda>c. c = bslash) (\<lambda>c. [bslash, bslash]) s 0 = s"
    unfolding escape_loop_0 using assms by (intro concat_map_singleton_id) auto
  have s2: "escattr_octal_loop s 0 = concat (map octal_code s)"
    using escattr_octal_codes [of "[]" s] by simp
  have q: "concat (map ?q (octal_code c)) = attr_code c" for c
  proof (cases "c \<in> set printable")
    case False
    then have ne: "c \<noteq> dquote" using dquote_printable by metis
    have "concat (map ?q (bslash # octstring c)) = bslash # octstring c"
      using octstring_octal [of _ c] by (intro concat_map_singleton_id) auto
    then show ?thesis using False ne by (simp add: octal_code_def attr_code_def)
  qed (auto simp: octal_code_def attr_code_def)
  have "concat (map ?q (concat (map octal_code s))) = concat (map attr_code s)"
    by (induction s) (simp_all add: q)
  then show ?thesis
    unfolding escattr_def Let_def s1 s2 by (simp only: escape_loop_0)
qed

text \<open>
  Searching text that is made of blocks: a block is quiet for a pattern when the pattern matches at
  none of its positions, whatever follows.
\<close>

definition quiet :: "(string \<Rightarrow> bool) \<Rightarrow> string \<Rightarrow> bool" where
  "quiet m u = (\<forall>rest. \<forall>k < length u. \<not> m (drop k u @ rest))"

lemma leftmost_skip:
  assumes "quiet m u"
  shows "leftmost m (u @ rest) n = leftmost m rest (n + length u)"
proof -
  have "(\<And>k. k < length u \<Longrightarrow> \<not> m (drop k u @ rest)) \<Longrightarrow> ?thesis"
  proof (induction u arbitrary: n)
    case Nil
    then show ?case by simp
  next
    case (Cons x u)
    have "\<not> m (x # u @ rest)" using Cons.prems [of 0] by simp
    moreover have "leftmost m (u @ rest) (Suc n) = leftmost m rest (Suc n + length u)"
      using Cons.prems [of "Suc _"] by (intro Cons.IH) auto
    ultimately show ?case by simp
  qed
  then show ?thesis using assms by (simp add: quiet_def)
qed

lemma leftmost_skip_blocks:
  "(\<forall>c \<in> set s. quiet m (f c)) \<Longrightarrow>
     leftmost m (concat (map f s) @ rest) n = leftmost m rest (n + length (concat (map f s)))"
  by (induction s arbitrary: n) (simp_all add: leftmost_skip add.assoc)

lemma leftmost_here: "m t \<Longrightarrow> leftmost m t n = Some n"
  by (cases t) auto

lemma regex_search_blocks:
  assumes "nul \<notin> set (concat (map f s) @ rest)" "length (concat (map f s) @ rest) \<le> 32766"
    and "\<forall>c \<in> set s. quiet m (f c)"
  shows "regex_search m (concat (map f s) @ rest) = leftmost m rest (length (concat (map f s)))"
proof -
  have "c_str (concat (map f s) @ rest) = concat (map f s) @ rest"
    unfolding c_str_def using assms(1) by (intro takeWhile_eq_all_conv [THEN iffD2]) metis
  then show ?thesis
    using assms leftmost_skip_blocks [OF assms(3), of rest 0] by (simp add: regex_search_def)
qed

lemma quiet_single: "(\<And>rest. \<not> m (c # rest)) \<Longrightarrow> quiet m [c]"
  by (simp add: quiet_def)

lemma quiet_octal:
  assumes "\<And>r. \<not> m (bslash # octstring x @ r)" and "\<And>d r. d \<in> set ''01234567'' \<Longrightarrow> \<not> m (d # r)"
  shows "quiet m (bslash # octstring x)"
proof -
  obtain a b c where "octstring x = [a, b, c]" "{a, b, c} \<subseteq> set ''01234567''"
    using octstring_cons [of x] by blast
  then show ?thesis using assms
    by (auto simp: quiet_def less_Suc_eq_0_disj numeral_eq_Suc simp del: set_simps)
qed

lemma quiet_octal_code:
  assumes "c \<noteq> bslash" "m \<in> {esc_esc, esc_quote}"
  shows "quiet m (octal_code c)"
proof (cases "c \<in> set printable")
  case True
  then show ?thesis using assms
    by (auto simp: octal_code_def esc_esc_def esc_quote_def intro!: quiet_single)
next
  case False
  have "quiet m (bslash # octstring c)"
  proof (rule quiet_octal)
    show "\<not> m (bslash # octstring c @ r)" for r
      using octstring_cons [of c] assms(2) by (auto simp: esc_esc_def esc_quote_def)
    show "\<not> m (d # r)" if "d \<in> set ''01234567''" for d r
      using that assms(2) by (auto simp: esc_esc_def esc_quote_def)
  qed
  with False show ?thesis by (simp add: octal_code_def)
qed

lemma quiet_octal_codes: "bslash \<notin> set s \<Longrightarrow> \<forall>c \<in> set s. quiet esc_quote (octal_code c)"
  by (intro ballI quiet_octal_code) auto

lemma quiet_attr_code: "c \<noteq> bslash \<Longrightarrow> quiet esc_esc (attr_code c)"
  using quiet_octal_code [of c esc_esc]
  by (auto simp: attr_code_def quiet_def esc_esc_def less_Suc_eq_0_disj numeral_eq_Suc)

lemma codes_no_nul:
  "nul \<notin> set s \<Longrightarrow> nul \<notin> set (concat (map octal_code s))"
  "nul \<notin> set s \<Longrightarrow> nul \<notin> set (concat (map attr_code s))"
  using octstring_octal by (auto simp: octal_code_def attr_code_def split: if_splits)

lemma octal_code_le_attr: "length (octal_code c) \<le> length (attr_code c)"
  using dquote_printable by (auto simp: attr_code_def octal_code_def)

lemma unescattr_quote_codes:
  assumes "bslash \<notin> set (pre @ s)" "nul \<notin> set (pre @ s)"
    and "length (concat (map octal_code pre) @ concat (map attr_code s)) \<le> 32766"
  shows "unescattr_quote_loop (concat (map octal_code pre) @ concat (map attr_code s))
         = concat (map octal_code (pre @ s))"
  using assms
proof (induction s arbitrary: pre)
  case Nil
  have "regex_search esc_quote (concat (map octal_code pre) @ []) = leftmost esc_quote [] (length (concat (map octal_code pre)))"
    using Nil codes_no_nul(1) [of pre] quiet_octal_codes [of pre]
    by (intro regex_search_blocks) auto
  then show ?case by (subst unescattr_quote_loop.simps) (simp add: esc_quote_def)
next
  case (Cons c cs)
  let ?t = "concat (map octal_code pre) @ concat (map attr_code (c # cs))"
  have IH: "unescattr_quote_loop (concat (map octal_code (pre @ [c])) @ concat (map attr_code cs))
            = concat (map octal_code ((pre @ [c]) @ cs))"
    using Cons.prems octal_code_le_attr [of c] by (intro Cons.IH) auto
  show ?case
  proof (cases "c = dquote")
    case False
    then have "attr_code c = octal_code c" by (simp add: attr_code_def)
    then show ?thesis using IH by simp
  next
    case True
    have "regex_search esc_quote ?t
          = leftmost esc_quote (concat (map attr_code (c # cs))) (length (concat (map octal_code pre)))"
      using Cons.prems codes_no_nul(1) [of pre] codes_no_nul(2) [of "c # cs"]
        quiet_octal_codes [of pre]
      by (intro regex_search_blocks) auto
    also have "\<dots> = Some (length (concat (map octal_code pre)))"
      using True by (intro leftmost_here) (simp add: esc_quote_def attr_code_def)
    finally have f: "regex_search esc_quote ?t = Some (length (concat (map octal_code pre)))" .
    have "str_replace ?t (length (concat (map octal_code pre))) 2 [dquote]
          = concat (map octal_code (pre @ [c])) @ concat (map attr_code cs)"
      using True dquote_printable by (simp add: str_replace_def attr_code_def octal_code_def)
    with f IH show ?thesis by (subst unescattr_quote_loop.simps) simp
  qed
qed

lemma unescattr_octal_codes:
  assumes "bslash \<notin> set (pre @ s)" "nul \<notin> set (pre @ s)"
    and "length (pre @ concat (map octal_code s)) \<le> 32766"
  shows "unescattr_octal_loop junk (pre @ concat (map octal_code s)) = pre @ s"
  using assms
proof (induction s arbitrary: pre)
  case Nil
  have q: "\<forall>c \<in> set pre. quiet octal_esc [c]"
    using Nil by (auto simp: octal_esc_def intro!: quiet_single)
  have "regex_search octal_esc (concat (map (\<lambda>c. [c]) pre) @ []) = leftmost octal_esc [] (length (concat (map (\<lambda>c. [c]) pre)))"
    using Nil q by (intro regex_search_blocks) auto
  then show ?case by (subst unescattr_octal_loop.simps) (simp add: octal_esc_def)
next
  case (Cons c cs)
  let ?t = "pre @ concat (map octal_code (c # cs))"
  have len: "1 \<le> length (octal_code c)" by (simp add: octal_code_def)
  then have IH: "unescattr_octal_loop junk ((pre @ [c]) @ concat (map octal_code cs)) = (pre @ [c]) @ cs"
    using Cons.prems by (intro Cons.IH) auto
  show ?case
  proof (cases "c \<in> set printable")
    case True
    then have "octal_code c = [c]" by (simp add: octal_code_def)
    then show ?thesis using IH by simp
  next
    case False
    obtain x y z where xyz: "octstring c = [x, y, z]" "{x, y, z} \<subseteq> set ''01234567''" "x \<in> set ''0123''"
      using octstring_cons [of c] by blast
    have q: "\<forall>c \<in> set pre. quiet octal_esc [c]"
      using Cons.prems by (auto simp: octal_esc_def intro!: quiet_single)
    have "regex_search octal_esc (concat (map (\<lambda>c. [c]) pre) @ concat (map octal_code (c # cs)))
          = leftmost octal_esc (concat (map octal_code (c # cs))) (length (concat (map (\<lambda>c. [c]) pre)))"
      using Cons.prems codes_no_nul(1) [of "c # cs"] q by (intro regex_search_blocks) auto
    also have "\<dots> = Some (length pre)"
      using False xyz by (subst leftmost_here) (auto simp: octal_esc_def octal_code_def)
    finally have f: "regex_search octal_esc ?t = Some (length pre)" by simp
    have s3: "substr ?t (length pre + 1) 3 = octstring c"
      using False xyz by (simp add: substr_def octal_code_def)
    have "c_str [c] = [c]" using Cons.prems by (intro c_str_plain) auto
    then have "str_replace ?t (length pre) 4 (unoctstring junk (octstring c))
               = (pre @ [c]) @ concat (map octal_code cs)"
      unfolding unoctstring_octstring using False xyz by (simp add: str_replace_def octal_code_def)
    with f s3 IH show ?thesis by (subst unescattr_octal_loop.simps) simp
  qed
qed

text \<open>
  \<open>unescattr\<close> restores every attribute value that \<open>escattr\<close> has escaped, as long as the value
  holds no backslash and no NUL and its escaped form has at most 32766 characters (the limit of
  \<^verbatim>\<open>Regex::search\<close>): quotes, control characters and bytes above 127 all come back.
\<close>

theorem unescattr_escattr:
  assumes "bslash \<notin> set s" and "nul \<notin> set s" and "length (escattr s) \<le> 32766"
  shows "unescattr junk (escattr s) = s"
proof -
  have e: "escattr s = concat (map attr_code s)" by (rule escattr_eq [OF assms(1)])
  have "regex_search esc_esc (concat (map attr_code s) @ []) = leftmost esc_esc [] (length (concat (map attr_code s)))"
  proof (rule regex_search_blocks)
    show "\<forall>c \<in> set s. quiet esc_esc (attr_code c)" using assms(1) by (auto intro!: quiet_attr_code)
  qed (use assms e codes_no_nul(2) [of s] in auto)
  then have "unescattr_esc_loop (escattr s) = escattr s"
    unfolding e by (subst unescattr_esc_loop.simps) (simp add: esc_esc_def)
  moreover have "unescattr_quote_loop (escattr s) = concat (map octal_code s)"
    using unescattr_quote_codes [of "[]" s] assms e by simp
  moreover have "length (concat (map octal_code s)) \<le> 32766"
  proof -
    have "length (concat (map octal_code s)) \<le> length (concat (map attr_code s))"
      by (induction s) (auto intro: add_mono octal_code_le_attr)
    then show ?thesis using assms e by simp
  qed
  ultimately show ?thesis
    using unescattr_octal_codes [of "[]" s junk] assms by (simp add: unescattr_def)
qed

theorem unescattr_escattr_witness:
  "unescattr 5 (escattr [CHR ''a'', lf, dquote, CHR 0xE9]) = [CHR ''a'', lf, dquote, CHR 0xE9]"
proof (rule unescattr_escattr)
  show "length (escattr [CHR ''a'', lf, dquote, CHR 0xE9]) \<le> 32766" by code_simp
qed simp_all

lemma unescattr_steps:
  "regex_search esc_esc s = None \<Longrightarrow> unescattr_esc_loop s = s"
  "regex_search esc_esc s = Some i \<Longrightarrow> unescattr_esc_loop s = unescattr_esc_loop (str_replace s i 2 [bslash])"
  "regex_search esc_quote s = None \<Longrightarrow> unescattr_quote_loop s = s"
  "regex_search octal_esc s = None \<Longrightarrow> unescattr_octal_loop junk s = s"
  "regex_search octal_esc s = Some i \<Longrightarrow> unescattr_octal_loop junk s
     = unescattr_octal_loop junk (str_replace s i 4 (unoctstring junk (substr s (i + 1) 3)))"
  by (subst unescattr_esc_loop.simps unescattr_quote_loop.simps unescattr_octal_loop.simps; simp)+

lemma escattr_backslash_cases:
  "escattr [bslash, bslash] = [bslash, bslash, bslash, bslash]"
  "escattr (bslash # ''001'') = bslash # bslash # ''001''"
  using escattr_octal_codes [of "[]" "[bslash, bslash, bslash, bslash]"]
    escattr_octal_codes [of "[]" "bslash # bslash # ''001''"]
  by (simp_all add: escattr_def escape_loop_0 octal_code_def printable_def)

lemma unescattr_backslash_steps:
  "regex_search esc_esc [bslash, bslash, bslash, bslash] = Some 0"
  "regex_search esc_esc [bslash, bslash, bslash] = Some 0"
  "regex_search esc_esc [bslash, bslash] = Some 0"
  "regex_search esc_esc [bslash] = None"
  "regex_search esc_quote [bslash] = None"
  "regex_search octal_esc [bslash] = None"
  "regex_search esc_esc (bslash # bslash # ''001'') = Some 0"
  "regex_search esc_esc (bslash # ''001'') = None"
  "regex_search esc_quote (bslash # ''001'') = None"
  "regex_search octal_esc (bslash # ''001'') = Some 0"
  "regex_search octal_esc [CHR 0x01] = None"
  by (simp_all add: regex_search_def c_str_def esc_esc_def esc_quote_def octal_esc_def)

lemma unoctstring_001: "unoctstring 0 ''001'' = [CHR 0x01]"
  by code_simp

text \<open>
  Backslashes do not survive the round trip: \<open>unescattr\<close> restarts its search for an escaped
  backslash at the start of the string, so it halves again what it has just written, and it reads
  octal escapes after the backslashes have been restored. Two backslashes come back as one, and the
  four characters backslash, 0, 0, 1 come back as the single byte 1.
\<close>

theorem unescattr_loses_backslashes:
  "unescattr 0 (escattr [bslash, bslash]) = [bslash] \<and>
   unescattr 0 (escattr (bslash # ''001'')) = [CHR 0x01]"
  unfolding unescattr_def escattr_backslash_cases
  by (simp add: unescattr_steps unescattr_backslash_steps str_replace_def substr_def
      unoctstring_001)

end
