(* ===== verification/BesUtil.thy ===== *)
theory BesUtil
  imports Escaping
begin

text \<open>
  \<^verbatim>\<open>bes/dispatch/BESUtil.cc\<close>: the string and path utilities of the BES. Decoding of request
  strings, splitting and joining of lists of values, taking URLs apart and putting them together,
  the check that a request names a node below the root, and the printing of process numbers. The
  file system of \<open>check_path\<close> is a parameter of the model. An escaping \<^verbatim>\<open>std::out_of_range\<close> is
  \<open>None\<close>.
\<close>

section \<open>Decoding\<close>

text \<open>
  The loop of \<open>BESUtil::www2id\<close>: unlike the loop of libdap it does not step over the character it
  has written. \<open>junk\<close> is the value of the uninitialised \<open>val\<close> of \<open>unhexstring\<close>, read when the
  characters after the escape are no number. The loop may not return.
\<close>

partial_function (option) bes_www2id_loop :: "int \<Rightarrow> string \<Rightarrow> string \<Rightarrow> string \<Rightarrow> nat \<Rightarrow> string option" where
  "bes_www2id_loop junk escape except res i =
     (case find_first_of res escape i of
        None \<Rightarrow> Some res
      | Some j \<Rightarrow>
          if find_sub except (substr res j 3) 0 \<noteq> None
          then bes_www2id_loop junk escape except res (j + 3)
          else bes_www2id_loop junk escape except
                 (str_replace res j 3 (unhexstring junk (substr res (j + 1) 2))) j)"

definition bes_www2id :: "int \<Rightarrow> string \<Rightarrow> string \<Rightarrow> string \<Rightarrow> string option" where
  "bes_www2id junk s escape except = bes_www2id_loop junk escape except s 0"

definition tolower :: "char \<Rightarrow> char" where
  "tolower c = (let n = of_char c :: nat in if 65 \<le> n \<and> n \<le> 90 then char_of (n + 32) else c)"

definition lowercase :: "string \<Rightarrow> string" where
  "lowercase s = map tolower s"

text \<open>
  \<open>BESUtil::unescape\<close> drops every backslash and keeps the character after it. After a backslash
  at the end \<open>s.substr\<close> is called beyond the end of the string and throws.
\<close>

function unescape_loop :: "string \<Rightarrow> nat \<Rightarrow> string \<Rightarrow> string option" where
  "unescape_loop s index new_str =
     (case find_char s bslash index of
        None \<Rightarrow> if index \<le> length s then Some (new_str @ substr s index (length s - index)) else None
      | Some bs \<Rightarrow>
          unescape_loop s (bs + 2)
            (new_str @ substr s index (bs - index) @ [if bs + 1 < length s then s ! (bs + 1) else nul]))"
  by pat_completeness auto
termination
proof (relation "measure (\<lambda>(s, i, n). length s - i)", goal_cases)
  case (2 s i n j)
  then have "find_if_from (\<lambda>c. c = bslash) s i = Some j" by (simp add: find_char_def)
  from find_if_from_SomeD [OF this] show ?case by simp
qed simp

declare unescape_loop.simps [simp del]

definition unescape :: "string \<Rightarrow> string option" where
  "unescape s = unescape_loop s 0 []"

definition bes_entity :: "char \<Rightarrow> string" where
  "bes_entity c =
     (if c = CHR ''>'' then ''&gt;''
      else if c = CHR ''<'' then ''&lt;''
      else if c = CHR ''&'' then ''&amp;''
      else if c = squote then ''&apos;''
      else if c = dquote then ''&quot;''
      else [c])"

text \<open>
  The loop of \<open>id2xml\<close> steps over one character of the entity it has written. It ends because
  the rest of an entity has no character with an entity of its own.
\<close>

definition xml_weight :: "string \<Rightarrow> nat" where
  "xml_weight s = sum_list (map (\<lambda>c. if c \<in> set xml_special then 6 else 1) s)"

lemma xml_weight_simps [simp]:
  "xml_weight [] = 0" "xml_weight (c # s) = (if c \<in> set xml_special then 6 else 1) + xml_weight s"
  "xml_weight (s @ t) = xml_weight s + xml_weight t"
  by (simp_all add: xml_weight_def)

lemma bes_entity_special:
  assumes "c \<in> set xml_special"
  shows "\<exists>r. bes_entity c = CHR ''&'' # r \<and> xml_weight r \<le> 5 \<and> (\<forall>x \<in> set r. x \<notin> set xml_special)"
proof -
  from assms consider "c = CHR ''>''" | "c = CHR ''<''" | "c = CHR ''&''" | "c = squote" | "c = dquote"
    by (auto simp: xml_special_def)
  then show ?thesis by cases (simp_all add: bes_entity_def xml_special_def)
qed

lemma bes_entity_plain: "c \<notin> set xml_special \<Longrightarrow> bes_entity c = [c]"
  by (simp add: bes_entity_def xml_special_def)

lemma bes_entity_cases:
  obtains (special) r where "c \<in> set xml_special" "bes_entity c = CHR ''&'' # r"
    "xml_weight r \<le> 5" "\<forall>x \<in> set r. x \<notin> set xml_special"
  | (plain) "c \<notin> set xml_special" "bes_entity c = [c]"
  using bes_entity_special bes_entity_plain by blast

lemma xml_weight_drop: "i \<le> j \<Longrightarrow> xml_weight (drop j s) \<le> xml_weight (drop i s)"
proof -
  assume "i \<le> j"
  then have "drop i s = take (j - i) (drop i s) @ drop j s"
    by (metis append_take_drop_id drop_drop le_add_diff_inverse2)
  then show ?thesis by (metis le_add2 xml_weight_simps(3))
qed

lemma bes_entity_step:
  assumes "j < length s"
  shows "drop (Suc j) (str_replace s j 1 (bes_entity (s ! j))) = tl (bes_entity (s ! j)) @ drop (Suc j) s"
proof -
  have "bes_entity (s ! j) \<noteq> []" by (cases "s ! j" rule: bes_entity_cases) auto
  then obtain x r where r: "bes_entity (s ! j) = x # r" by (cases "bes_entity (s ! j)") auto
  have "Suc j - length (take j s) = 1" using assms by simp
  then show ?thesis using assms unfolding r str_replace_def by simp
qed

function bes_id2xml_loop :: "string \<Rightarrow> string \<Rightarrow> nat \<Rightarrow> string" where
  "bes_id2xml_loop not_allowed s i =
     (case find_first_of s not_allowed i of
        None \<Rightarrow> s
      | Some j \<Rightarrow> bes_id2xml_loop not_allowed (str_replace s j 1 (bes_entity (s ! j))) (Suc j))"
  by pat_completeness auto
termination
proof (relation "measure (\<lambda>(a, s, i). xml_weight (drop i s))", goal_cases)
  case (2 a s i j)
  then have "find_if_from (\<lambda>c. c \<in> set a) s i = Some j" by (simp add: find_first_of_def)
  note d = find_if_from_SomeD [OF this]
  have "xml_weight (drop j s) \<le> xml_weight (drop i s)" by (rule xml_weight_drop [OF d(1)])
  moreover have "xml_weight (drop (Suc j) (str_replace s j 1 (bes_entity (s ! j)))) < xml_weight (drop j s)"
    unfolding bes_entity_step [OF d(2)] Cons_nth_drop_Suc [OF d(2), symmetric]
    by (cases "s ! j" rule: bes_entity_cases) auto
  ultimately show ?case by simp
qed simp

declare bes_id2xml_loop.simps [simp del]

definition bes_id2xml :: "string \<Rightarrow> string \<Rightarrow> string" where
  "bes_id2xml s not_allowed = bes_id2xml_loop not_allowed s 0"

definition bes_xml2id :: "string \<Rightarrow> string" where
  "bes_xml2id s =
     (let s1 = xml2id_loop (CHR ''g'') ''t;'' (CHR ''>'') s 0;
          s2 = xml2id_loop (CHR ''l'') ''t;'' (CHR ''<'') s1 0;
          s3 = xml2id_loop (CHR ''a'') ''mp;'' (CHR ''&'') s2 0;
          s4 = xml2id_loop (CHR ''a'') ''pos;'' squote s3 0
      in xml2id_loop (CHR ''q'') ''uot;'' dquote s4 0)"

section \<open>Trimming and numbers\<close>

definition blanks :: string where
  "blanks = [CHR '' '', tab, lf, cr]"

definition removeLeadingAndTrailingBlanks :: "string \<Rightarrow> string" where
  "removeLeadingAndTrailingBlanks key =
     (if key = [] then key
      else case find_first_not_of key blanks 0 of
             None \<Rightarrow> []
           | Some first \<Rightarrow>
               (case find_last_not_of key blanks of
                  None \<Rightarrow> []
                | Some end_at \<Rightarrow> substr key first (end_at - first + 1)))"

text \<open>
  \<open>fastpidconverter\<close> writes into a buffer; the model returns the characters before the NUL. The
  recursion is on the quotient, which \<^verbatim>\<open>ldiv\<close> of the absolute value makes smaller.
\<close>

function fastpidconverter :: "int \<Rightarrow> int \<Rightarrow> string" where
  "fastpidconverter val base =
     (if 36 < base \<or> base < 2 then []
      else (if val < 0 then ''-'' else []) @
           (if 0 < \<bar>val\<bar> div base then fastpidconverter (\<bar>val\<bar> div base) base else []) @
           [''0123456789abcdefghijklmnopqrstuvwxyz'' ! nat (\<bar>val\<bar> mod base)])"
  by pat_completeness auto
termination
proof (relation "measure (\<lambda>(v, b). nat \<bar>v\<bar>)", goal_cases)
  case (2 val base)
  then have "2 \<le> base" by simp
  then have "\<bar>val\<bar> div base < \<bar>val\<bar>"
    using 2 by (smt (verit) int_div_less_self div_by_1 zdiv_mono2 div_pos_pos_trivial)
  then show ?case using 2 by simp
qed simp

declare fastpidconverter.simps [simp del]

section \<open>Paths below the root\<close>

text \<open>
  What \<^verbatim>\<open>lstat\<close> and \<^verbatim>\<open>stat\<close> say of a name: a node (and whether it is a symbolic link), or an error:
  whether it is \<^verbatim>\<open>ENOENT\<close>, and the text of \<^verbatim>\<open>strerror\<close>.
\<close>

datatype stat_result = Node bool | Stat_error bool string

definition stat_error :: "string \<Rightarrow> bool \<Rightarrow> string \<Rightarrow> bes_error" where
  "stat_error checked enoent s_err =
     (let error = ''Unable to access node '' @ checked @ '': '' @ s_err
      in if enoent then BESNotFoundError error else BESForbiddenError error)"

definition check_node :: "(string \<Rightarrow> stat_result) \<Rightarrow> (string \<Rightarrow> stat_result) \<Rightarrow> bool \<Rightarrow> string \<Rightarrow> string \<Rightarrow> unit bes_result" where
  "check_node lstat stat follow_sym_links fullpath checked =
     (if \<not> follow_sym_links
      then case lstat fullpath of
             Stat_error enoent s_err \<Rightarrow> Inl (stat_error checked enoent s_err)
           | Node link \<Rightarrow>
               if link then Inl (BESForbiddenError (''You do not have permission to access '' @ checked))
               else Inr ()
      else case stat fullpath of
             Stat_error enoent s_err \<Rightarrow> Inl (stat_error checked enoent s_err)
           | Node link \<Rightarrow> Inr ())"

function check_path_loop ::
  "(string \<Rightarrow> stat_result) \<Rightarrow> (string \<Rightarrow> stat_result) \<Rightarrow> bool \<Rightarrow> string \<Rightarrow> string \<Rightarrow> string \<Rightarrow> unit bes_result" where
  "check_path_loop lstat stat follow_sym_links rem fullpath checked =
     (case find_char rem (CHR ''/'') 0 of
        None \<Rightarrow> check_node lstat stat follow_sym_links (fullpath @ ''/'' @ rem) (checked @ ''/'' @ rem)
      | Some slash \<Rightarrow>
          (let fullpath' = fullpath @ ''/'' @ substr rem 0 slash;
               checked' = checked @ ''/'' @ substr rem 0 slash
           in rbind (check_node lstat stat follow_sym_links fullpath' checked') (\<lambda>_.
                check_path_loop lstat stat follow_sym_links
                  (substr rem (slash + 1) (length rem - slash)) fullpath' checked')))"
  by pat_completeness auto
termination
proof (relation "measure (\<lambda>(l, s, f, rem, p, c). length rem)", goal_cases)
  case (2 l s f rem p c slash)
  then have "find_if_from (\<lambda>c. c = CHR ''/'') rem 0 = Some slash" by (simp add: find_char_def)
  from find_if_from_SomeD [OF this] show ?case by (simp add: substr_def)
qed simp

declare check_path_loop.simps [simp del]

text \<open>
  The source also reads \<open>rem[rem.length() - 1]\<close> of an empty \<open>rem\<close> or an empty root, outside the
  string; whatever is there, the \<open>substr\<close> that may follow gives the empty string again.
\<close>

definition strip_last_slash :: "string \<Rightarrow> string" where
  "strip_last_slash s = (if s \<noteq> [] \<and> last s = CHR ''/'' then substr s 0 (length s - 1) else s)"

definition check_path ::
  "(string \<Rightarrow> stat_result) \<Rightarrow> (string \<Rightarrow> stat_result) \<Rightarrow> string \<Rightarrow> string \<Rightarrow> bool \<Rightarrow> unit bes_result" where
  "check_path lstat stat path root follow_sym_links =
     (if path = '''' then Inr ()
      else if find_sub path ''..'' 0 \<noteq> None
      then Inl (BESForbiddenError (''You are not allowed to access the node '' @ path))
      else
        (let rem = (if hd path = CHR ''/'' then substr path 1 (length path - 1) else path)
         in check_path_loop lstat stat follow_sym_links (strip_last_slash rem) (strip_last_slash root) []))"

section \<open>Lists of values\<close>

text \<open>
  The scan for the closing quote of \<open>BESUtil::explode\<close>: a quote after one backslash is skipped,
  after two it ends the value. The result is \<open>qstart\<close>, or \<open>None\<close> when there is no end quote.
\<close>

function endquote :: "string \<Rightarrow> nat \<Rightarrow> nat option" where
  "endquote str qstart =
     (case find_char str dquote qstart of
        None \<Rightarrow> None
      | Some aquote \<Rightarrow>
          if str ! (aquote - 1) = bslash
          then if str ! (aquote - 2) = bslash then Some (aquote + 1) else endquote str (aquote + 1)
          else Some (aquote + 1))"
  by pat_completeness auto
termination
proof (relation "measure (\<lambda>(s, i). length s - i)", goal_cases)
  case (2 s i j)
  then have "find_if_from (\<lambda>c. c = dquote) s i = Some j" by (simp add: find_char_def)
  from find_if_from_SomeD [OF this] show ?case by simp
qed simp

declare endquote.simps [simp del]

lemma endquote_bounds: "endquote str q = Some r \<Longrightarrow> q < r \<and> r \<le> length str"
proof (induction str q rule: endquote.induct)
  case (1 str q)
  from 1(2) obtain a where a: "find_char str dquote q = Some a"
    by (subst (asm) endquote.simps) (auto split: option.splits)
  then have f: "q \<le> a" "a < length str"
    using find_if_from_SomeD [of "\<lambda>c. c = dquote" str q a] by (simp_all add: find_char_def)
  show ?case
  proof (cases "str ! (a - 1) = bslash \<and> str ! (a - 2) \<noteq> bslash")
    case True
    then have "endquote str (a + 1) = Some r" using 1(2) a by (subst (asm) endquote.simps) simp
    with 1(1) [OF a] True have "a + 1 < r \<and> r \<le> length str" by blast
    with f show ?thesis by simp
  next
    case False
    then have "r = a + 1" using 1(2) a
      by (subst (asm) endquote.simps) (auto split: if_splits)
    with f show ?thesis by simp
  qed
qed

text \<open>Where the value that starts at \<open>start\<close> ends: \<open>adelim\<close>, \<open>None\<close> for \<^verbatim>\<open>npos\<close>.\<close>

definition value_end :: "char \<Rightarrow> string \<Rightarrow> nat \<Rightarrow> nat option bes_result" where
  "value_end delim str start =
     (if start < length str \<and> str ! start = dquote
      then case endquote str (start + 1) of
             None \<Rightarrow> Inl (BESInternalError (''BESUtil::explode - No end quote after value ''
                        @ substr str start (length str - start)))
           | Some qstart \<Rightarrow>
               if qstart \<noteq> length str \<and> str ! qstart \<noteq> delim
               then Inl (BESInternalError (''BESUtil::explode - No delim after end quote ''
                        @ substr str start (qstart - start)))
               else if qstart = length str then Inr None else Inr (Some qstart)
      else Inr (find_char str delim start))"

lemma value_end_bounds: "value_end delim str start = Inr (Some adelim) \<Longrightarrow> start \<le> adelim \<and> adelim < length str"
  using find_if_from_SomeD [of "\<lambda>c. c = delim" str start adelim] endquote_bounds [of str "start + 1"]
  by (force simp: value_end_def find_char_def split: if_splits option.splits)

text \<open>
  One turn of the loop appends a value. At the last value \<open>adelim\<close> is \<^verbatim>\<open>npos\<close>, so \<open>start\<close> becomes
  0, and the test for a delimiter at the end is made with that 0 as well.
\<close>

function explode_loop :: "char \<Rightarrow> string \<Rightarrow> nat \<Rightarrow> string list \<Rightarrow> string list bes_result" where
  "explode_loop delim str start values =
     (case value_end delim str start of
        Inl e \<Rightarrow> Inl e
      | Inr None \<Rightarrow>
          (let values' = values @ [substr str start (length str - start)]
           in Inr (if 0 = length str then values' @ [''''] else values'))
      | Inr (Some adelim) \<Rightarrow>
          (let values' = values @ [substr str start (adelim - start)]
           in if adelim + 1 = length str then Inr (values' @ [''''])
              else explode_loop delim str (adelim + 1) values'))"
  by pat_completeness auto
termination
proof (relation "measure (\<lambda>(d, s, i, v). length s - i)", goal_cases)
  case (2 d s i v a j)
  then have "i \<le> j" "j < length s" using value_end_bounds [of d s i j] by auto
  then show ?case by auto
qed simp

declare explode_loop.simps [simp del]

definition explode :: "char \<Rightarrow> string \<Rightarrow> string list bes_result" where
  "explode delim str = explode_loop delim str 0 []"

fun implode_loop :: "char \<Rightarrow> string list \<Rightarrow> bool \<Rightarrow> string \<Rightarrow> string bes_result" where
  "implode_loop delim [] first result = Inr result"
| "implode_loop delim (v # vs) first result =
     (let result' = (if first then result else result @ [delim])
      in if find_char v delim 0 \<noteq> None \<and> v ! 0 \<noteq> dquote
         then Inl (BESInternalError (''BESUtil::implode - delimiter exists in value '' @ v))
         else implode_loop delim vs False (result' @ v))"

definition implode :: "string list \<Rightarrow> char \<Rightarrow> string bes_result" where
  "implode values delim = implode_loop delim values True []"

section \<open>URLs\<close>

record url =
  protocol :: string
  uname :: string
  psswd :: string
  domain :: string
  port :: string
  path :: string

definition url_explode_tail :: "string \<Rightarrow> url \<Rightarrow> url" where
  "url_explode_tail rest url_parts =
     (let slash = (case find_sub rest ''/'' 0 of None \<Rightarrow> length rest | Some i \<Rightarrow> i)
      in case find_sub rest '':'' 0 of
           Some colon \<Rightarrow>
             if colon < slash
             then (let parts = url_parts\<lparr>domain := substr rest 0 colon\<rparr>;
                       rest' = substr_from rest (colon + 1)
                   in case find_sub rest' ''/'' 0 of
                        Some slash' \<Rightarrow> parts\<lparr>port := substr rest' 0 slash', path := substr_from rest' (slash' + 1)\<rparr>
                      | None \<Rightarrow> parts\<lparr>port := rest', path := ''''\<rparr>)
             else (case find_sub rest ''/'' 0 of
                     Some slash' \<Rightarrow> url_parts\<lparr>domain := substr rest 0 slash', path := substr_from rest (slash' + 1)\<rparr>
                   | None \<Rightarrow> url_parts\<lparr>domain := rest\<rparr>)
         | None \<Rightarrow>
             (case find_sub rest ''/'' 0 of
                Some slash' \<Rightarrow> url_parts\<lparr>domain := substr rest 0 slash', path := substr_from rest (slash' + 1)\<rparr>
              | None \<Rightarrow> url_parts\<lparr>domain := rest\<rparr>))"

definition url_explode :: "string \<Rightarrow> url \<Rightarrow> url bes_result" where
  "url_explode url_str url_parts =
     (case find_sub url_str '':'' 0 of
        None \<Rightarrow> Inl (BESInternalError ''BESUtil::url_explode: missing colon for protocol'')
      | Some colon \<Rightarrow>
          (let parts = url_parts\<lparr>protocol := substr url_str 0 colon\<rparr>
           in if substr url_str colon 3 \<noteq> ''://''
              then Inl (BESInternalError ''BESUtil::url_explode: no :// in the URL'')
              else
                (let rest = substr_from url_str (colon + 3);
                     slash = (case find_sub rest ''/'' 0 of None \<Rightarrow> length rest | Some i \<Rightarrow> i)
                 in case find_sub rest ''@'' 0 of
                      Some at \<Rightarrow>
                        if at < slash
                        then (let up = substr rest 0 at;
                                  parts' = (case find_sub up '':'' 0 of
                                      Some c \<Rightarrow> parts\<lparr>uname := substr up 0 c, psswd := substr_from up (c + 1)\<rparr>
                                    | None \<Rightarrow> parts\<lparr>uname := up\<rparr>)
                              in Inr (url_explode_tail (substr_from rest (at + 1)) parts'))
                        else Inr (url_explode_tail rest parts)
                    | None \<Rightarrow> Inr (url_explode_tail rest parts))))"

definition url_create :: "url \<Rightarrow> string" where
  "url_create u =
     protocol u @ ''://'' @
     (if uname u \<noteq> [] then uname u @ (if psswd u \<noteq> [] then '':'' @ psswd u else []) @ ''@'' else []) @
     domain u @
     (if port u \<noteq> [] then '':'' @ port u else []) @
     (if path u \<noteq> [] then ''/'' @ path u else [])"

section \<open>Lists of values survive\<close>

text \<open>
  The values that \<open>implode\<close> may join: plain ones, without the delimiter, and quoted ones, in which
  every inner quote is escaped by one backslash and the last one is not.
\<close>

definition plain_value :: "char \<Rightarrow> string \<Rightarrow> bool" where
  "plain_value delim v = (delim \<notin> set v \<and> (v = [] \<or> hd v \<noteq> dquote))"

definition quoted_value :: "string \<Rightarrow> bool" where
  "quoted_value v =
     (2 \<le> length v \<and> hd v = dquote \<and> last v = dquote \<and>
      (\<forall>k \<in> {1..<length v}. v ! k = dquote \<longrightarrow>
          (v ! (k - 1) = bslash \<and> v ! (k - 2) \<noteq> bslash \<longleftrightarrow> k \<noteq> length v - 1)))"

fun join :: "char \<Rightarrow> string list \<Rightarrow> string" where
  "join d [] = []"
| "join d [v] = v"
| "join d (v # w # ws) = v @ d # join d (w # ws)"

lemma join_Cons: "ws \<noteq> [] \<Longrightarrow> join d (v # ws) = v @ d # join d ws"
  by (cases ws) auto

lemma join_eq_Nil: "ws \<noteq> [] \<Longrightarrow> join d ws = [] \<longleftrightarrow> ws = [[]]"
  by (cases "(d, ws)" rule: join.cases) auto

lemma find_char_here: "find_char (pre @ c # rest) c (length pre) = Some (length pre)"
  unfolding find_char_def by (rule find_if_from_here) simp_all

lemma find_char_skip:
  "c \<notin> set u \<Longrightarrow> find_char (pre @ u @ rest) c (length pre) = find_char (pre @ u @ rest) c (length pre + length u)"
  using scan_append_None [of u "\<lambda>x. x = c" rest "length pre"]
  by (auto simp: find_char_def find_if_from_def)

lemma find_char_block:
  "c \<notin> set u \<Longrightarrow> find_char (pre @ u @ c # rest) c (length pre) = Some (length pre + length u)"
  using find_char_skip [of c u pre "c # rest"] find_char_here [of "pre @ u" c rest] by simp

lemma find_char_none: "c \<notin> set u \<Longrightarrow> find_char (pre @ u) c (length pre) = None"
  by (auto simp: find_char_def find_if_from_None_iff)

lemma nth_block: "k < length u \<Longrightarrow> (pre @ u @ rest) ! (length pre + k) = u ! k"
  by (simp add: nth_append)

lemma find_char_mid:
  assumes "i \<le> length u" "u \<noteq> []" "last u = c"
  obtains a where "find_char (pre @ u @ rest) c (length pre + i) = Some (length pre + a)"
    "i \<le> a" "a < length u" "u ! a = c" | "i = length u"
proof (cases "i < length u")
  case True
  have "find_char (pre @ u @ rest) c (length pre + i) \<noteq> None"
  proof -
    have "u ! (length u - 1) = c" using assms by (simp add: last_conv_nth)
    then have "c \<in> set (drop i u)" using True assms by (auto simp: in_set_conv_nth intro!: exI [of _ "length u - 1 - i"])
    then show ?thesis by (auto simp: find_char_def find_if_from_None_iff)
  qed
  then obtain j where j: "find_char (pre @ u @ rest) c (length pre + i) = Some j" by auto
  then have f: "find_if_from (\<lambda>x. x = c) (pre @ u @ rest) (length pre + i) = Some j" by (simp add: find_char_def)
  note d = find_if_from_SomeD [OF f]
  have "j - length pre < length u"
  proof (rule ccontr)
    assume "\<not> ?thesis"
    then have "length pre + (length u - 1) < j" using d(1) True assms(2) by (cases u) auto
    moreover have "length pre + i \<le> length pre + (length u - 1)" using True by simp
    ultimately have "(pre @ u @ rest) ! (length pre + (length u - 1)) \<noteq> c" using d(4) by blast
    then show False using assms True nth_block [of "length u - 1" u pre rest] by (simp add: last_conv_nth)
  qed
  with d j show thesis by (intro that(1) [of "j - length pre"]) (auto simp: nth_append)
qed (use assms that in auto)

lemma endquote_quoted:
  assumes q: "quoted_value v" and "1 \<le> i" "i < length v"
  shows "endquote (pre @ v @ rest) (length pre + i) = Some (length pre + length v)"
  using assms(2,3)
proof (induction "length v - i" arbitrary: i rule: less_induct)
  case less
  have v: "v \<noteq> []" "last v = dquote" using q by (auto simp: quoted_value_def)
  obtain a where a: "find_char (pre @ v @ rest) dquote (length pre + i) = Some (length pre + a)"
      "i \<le> a" "a < length v" "v ! a = dquote"
    by (rule find_char_mid [where i = i and u = v and c = dquote and pre = pre and rest = rest])
      (use less v in auto)
  have at: "(pre @ v @ rest) ! (length pre + a - 1) = v ! (a - 1)"
    using a less nth_block [of "a - 1" v pre rest] by simp
  have rule: "v ! (a - 1) = bslash \<and> v ! (a - 2) \<noteq> bslash \<longleftrightarrow> a \<noteq> length v - 1"
    using q a less by (auto simp: quoted_value_def)
  show ?case
  proof (cases "v ! (a - 1) = bslash")
    case True
    have "a \<noteq> 1" using True q by (cases v) (auto simp: quoted_value_def)
    then have at2: "(pre @ v @ rest) ! (length pre + a - 2) = v ! (a - 2)"
      using a less nth_block [of "a - 2" v pre rest] by simp
    show ?thesis
    proof (cases "v ! (a - 2) = bslash")
      case True
      with a at at2 \<open>v ! (a - 1) = bslash\<close> rule show ?thesis by (subst endquote.simps) simp
    next
      case False
      then have "a + 1 < length v" using rule True a by simp
      then have "endquote (pre @ v @ rest) (length pre + (a + 1)) = Some (length pre + length v)"
        using a by (intro less.hyps) auto
      with a at at2 True False show ?thesis by (subst endquote.simps) simp
    qed
  next
    case False
    with a at rule show ?thesis by (subst endquote.simps) simp
  qed
qed

lemma quoted_value_Cons: "quoted_value v \<Longrightarrow> \<exists>w. v = dquote # w \<and> w \<noteq> []"
  by (cases v) (auto simp: quoted_value_def)

lemma value_end_quoted:
  assumes "quoted_value v"
  shows "value_end delim (pre @ v) (length pre) = Inr None"
    and "value_end delim (pre @ v @ delim # rest) (length pre) = Inr (Some (length pre + length v))"
proof -
  obtain w where v: "v = dquote # w" "w \<noteq> []" using quoted_value_Cons [OF assms] by blast
  have e: "endquote (pre @ v @ r) (length pre + 1) = Some (length pre + length v)" for r
    by (rule endquote_quoted [OF assms]) (use v in auto)
  show "value_end delim (pre @ v) (length pre) = Inr None"
    using e [of "[]"] v by (simp add: value_end_def)
  have n: "(pre @ v @ delim # rest) ! (length pre + length v) = delim"
    using nth_block [of 0 "delim # rest" "pre @ v" "[]"] by simp
  have h: "(pre @ v @ delim # rest) ! length pre = dquote"
    using nth_block [of 0 v pre "delim # rest"] v by simp
  show "value_end delim (pre @ v @ delim # rest) (length pre) = Inr (Some (length pre + length v))"
    using e [of "delim # rest"] n h v by (simp add: value_end_def)
qed

lemma value_end_plain:
  assumes "plain_value delim v" "delim \<noteq> dquote"
  shows "value_end delim (pre @ v) (length pre) = Inr None"
    and "value_end delim (pre @ v @ delim # rest) (length pre) = Inr (Some (length pre + length v))"
  using assms find_char_none [of delim v pre] find_char_block [of delim v pre rest]
  by (cases v; auto simp: value_end_def plain_value_def)+

lemma value_end_value:
  assumes "plain_value delim v \<or> quoted_value v" "delim \<noteq> dquote"
  shows "value_end delim (pre @ v) (length pre) = Inr None"
    and "value_end delim (pre @ v @ delim # rest) (length pre) = Inr (Some (length pre + length v))"
  using assms value_end_plain value_end_quoted by blast+

lemma explode_loop_join:
  assumes "\<forall>v \<in> set vs. plain_value delim v \<or> quoted_value v" "delim \<noteq> dquote" "vs \<noteq> []"
    and "pre @ join delim vs \<noteq> []"
  shows "explode_loop delim (pre @ join delim vs) (length pre) acc = Inr (acc @ vs)"
  using assms
proof (induction vs arbitrary: pre acc)
  case (Cons v vs)
  show ?case
  proof (cases "vs = []")
    case True
    then show ?thesis using Cons.prems value_end_value(1) [of delim v pre]
      by (subst explode_loop.simps) (auto simp: substr_def)
  next
    case False
    let ?s = "pre @ v @ delim # join delim vs"
    have ve: "value_end delim ?s (length pre) = Inr (Some (length pre + length v))"
      using Cons.prems by (intro value_end_value(2)) auto
    have sub: "substr ?s (length pre) (length pre + length v - length pre) = v"
      by (simp add: substr_def)
    have IH: "explode_loop delim ((pre @ v @ [delim]) @ join delim vs) (length (pre @ v @ [delim])) (acc @ [v])
              = Inr ((acc @ [v]) @ vs)"
      using Cons.prems False by (intro Cons.IH) auto
    show ?thesis
    proof (cases "join delim vs = []")
      case True
      then have "vs = [[]]" using False join_eq_Nil by blast
      with ve sub True False show ?thesis
        by (subst explode_loop.simps) (simp add: join_Cons)
    next
      case ne: False
      with ve sub IH False show ?thesis
        by (subst explode_loop.simps) (simp add: join_Cons)
    qed
  qed
qed simp

lemma implode_loop_join:
  assumes "\<forall>v \<in> set vs. plain_value delim v \<or> quoted_value v" "vs \<noteq> []"
  shows "implode_loop delim vs first acc = Inr ((if first then acc else acc @ [delim]) @ join delim vs)"
  using assms
proof (induction vs arbitrary: first acc)
  case (Cons v vs)
  have ok: "\<not> (find_char v delim 0 \<noteq> None \<and> v ! 0 \<noteq> dquote)"
    using Cons.prems find_char_none [of delim v "[]"] quoted_value_Cons [of v]
    by (auto simp: plain_value_def)
  show ?case
    using Cons ok by (cases "vs = []") (auto simp: join_Cons Let_def)
qed simp

text \<open>
  \<open>implode\<close> accepts every list of plain and of correctly quoted values, and \<open>explode\<close> with the
  same delimiter gives the list back, empty values at the start, in the middle and at the end
  included. The delimiter is not the quote, the list is not empty and not the list of one empty
  string.
\<close>

theorem explode_implode:
  assumes "\<forall>v \<in> set values. plain_value delim v \<or> quoted_value v"
    and "delim \<noteq> dquote" and "values \<noteq> []" and "values \<noteq> [[]]"
  shows "\<exists>s. implode values delim = Inr s \<and> explode delim s = Inr values"
  using implode_loop_join [OF assms(1,3), of True "[]"] explode_loop_join [OF assms(1,2,3), of "[]" "[]"]
    join_eq_Nil [OF assms(3), of delim] assms(4)
  by (simp add: implode_def explode_def)

theorem explode_implode_witness:
  "\<exists>s. implode [''a'', dquote # ''b,c'' @ [bslash, dquote, CHR ''d'', dquote], ''''] (CHR '','') = Inr s
     \<and> explode (CHR '','') s = Inr [''a'', dquote # ''b,c'' @ [bslash, dquote, CHR ''d'', dquote], '''']"
proof (rule explode_implode)
  have "quoted_value (dquote # ''b,c'' @ [bslash, dquote, CHR ''d'', dquote])" by code_simp
  then show "\<forall>v \<in> set [''a'', dquote # ''b,c'' @ [bslash, dquote, CHR ''d'', dquote], ''''].
      plain_value (CHR '','') v \<or> quoted_value v"
    by (simp add: plain_value_def)
qed simp_all

text \<open>
  The list of one empty value is the exception: it is joined to the empty string, and the
  empty string is split into two empty values, because \<open>npos + 1\<close> is 0, the length of the string.
\<close>

theorem explode_empty_string:
  "implode [''''] delim = Inr '''' \<and> explode delim '''' = Inr ['''', '''']"
  by (simp add: implode_def find_char_def explode_def explode_loop.simps value_end_def substr_def)

section \<open>URLs survive\<close>

lemma find_sub_char: "find_sub s [c::char] i = (if i \<le> length s then find_char s c i else None)"
proof -
  have "scan_sub [c] s k = scan (\<lambda>x. x = c) s k" for s k
    by (induction s arbitrary: k) auto
  then show ?thesis by (simp add: find_sub_def find_char_def find_if_from_def)
qed

lemma find_sub_char_block: "(c::char) \<notin> set u \<Longrightarrow> find_sub (u @ c # r) [c] 0 = Some (length u)"
  using find_char_block [of c u "[]" r] by (simp add: find_sub_char)

lemma find_sub_char_none: "(c::char) \<notin> set u \<Longrightarrow> find_sub u [c] 0 = None"
  using find_char_none [of c u "[]"] by (simp add: find_sub_char)

lemma find_sub_char_first:
  assumes "(c::char) \<notin> set u"
  shows "find_sub (u @ r) [c] 0 = map_option (\<lambda>k. length u + k) (find_sub r [c] 0)"
proof (cases "c \<in> set r")
  case True
  then obtain x y where r: "r = x @ c # y" "c \<notin> set x" by (meson split_list_first)
  then show ?thesis using assms find_sub_char_block [of c "u @ x" y] find_sub_char_block [of c x y] by simp
next
  case False
  then show ?thesis using assms by (simp add: find_sub_char_none)
qed

text \<open>The parts that \<open>url_create\<close> can print so that they can be told apart again.\<close>

definition url_ok :: "url \<Rightarrow> bool" where
  "url_ok u =
     (CHR '':'' \<notin> set (protocol u) \<and>
      set (uname u) \<inter> set '':@/'' = {} \<and> set (psswd u) \<inter> set ''@/'' = {} \<and>
      (uname u = [] \<longrightarrow> psswd u = []) \<and>
      set (domain u) \<inter> set '':@/'' = {} \<and> set (port u) \<inter> set ''@/'' = {})"

definition no_parts :: "url" where
  "no_parts = \<lparr>protocol = '''', uname = '''', psswd = '''', domain = '''', port = '''', path = ''''\<rparr>"

definition url_tail :: "url \<Rightarrow> string" where
  "url_tail u = domain u @ (if port u \<noteq> [] then '':'' @ port u else []) @ (if path u \<noteq> [] then ''/'' @ path u else [])"

lemma url_explode_tail_ok:
  assumes "url_ok u"
  shows "url_explode_tail (url_tail u)
           \<lparr>protocol = protocol u, uname = uname u, psswd = psswd u, domain = '''', port = '''', path = ''''\<rparr> = u"
proof -
  have d: "CHR '':'' \<notin> set (domain u)" "CHR ''/'' \<notin> set (domain u)" and p: "CHR ''/'' \<notin> set (port u)"
    using assms by (auto simp: url_ok_def)
  note facts = find_sub_char_first find_sub_char_none find_sub_char_block
  consider "port u = []" "path u = []" | "port u = []" "path u \<noteq> []" | "port u \<noteq> []" "path u = []"
    | "port u \<noteq> []" "path u \<noteq> []" by blast
  then show ?thesis
  proof cases
    case 1
    with d show ?thesis by (simp add: url_explode_tail_def url_tail_def facts)
  next
    case 2
    have "find_sub (domain u @ CHR ''/'' # path u) '':'' 0
          = map_option (\<lambda>k. length (domain u) + k) (find_sub (CHR ''/'' # path u) '':'' 0)"
      by (rule find_sub_char_first [OF d(1)])
    moreover have "find_sub (CHR ''/'' # path u) '':'' 0 \<noteq> Some 0"
      by (auto dest: find_sub_SomeD(3))
    ultimately show ?thesis using 2 d
      by (cases "find_sub (CHR ''/'' # path u) '':'' 0")
        (auto simp: url_explode_tail_def url_tail_def find_sub_char_block substr_def substr_from_def)
  next
    case 3
    with d p show ?thesis
      by (simp add: url_explode_tail_def url_tail_def find_sub_char_block find_sub_char_none substr_def
          substr_from_def)
  next
    case 4
    have "find_sub (domain u @ CHR '':'' # port u @ CHR ''/'' # path u) ''/'' 0 = Some (length (domain u) + 1 + length (port u))"
      using find_sub_char_block [of "CHR ''/''" "domain u @ CHR '':'' # port u" "path u"] d p by simp
    with 4 d p show ?thesis
      by (simp add: url_explode_tail_def url_tail_def find_sub_char_block substr_def substr_from_def)
  qed
qed

definition user_part :: "url \<Rightarrow> string" where
  "user_part u = uname u @ (if psswd u \<noteq> [] then '':'' @ psswd u else [])"

lemma url_create_parts:
  "url_create u = protocol u @ CHR '':'' # ''//'' @ (if uname u \<noteq> [] then user_part u @ CHR ''@'' # url_tail u else url_tail u)"
  by (simp add: url_create_def user_part_def url_tail_def)

lemma url_tail_at:
  assumes "url_ok u" "find_sub (url_tail u) ''@'' 0 = Some a"
  shows "\<exists>slash. find_sub (url_tail u) ''/'' 0 = Some slash \<and> slash \<le> a"
proof -
  let ?x = "domain u @ (if port u \<noteq> [] then '':'' @ port u else [])"
  have x: "CHR ''@'' \<notin> set ?x" "CHR ''/'' \<notin> set ?x" using assms(1) by (auto simp: url_ok_def)
  have t: "url_tail u = ?x @ (if path u \<noteq> [] then ''/'' @ path u else [])" by (simp add: url_tail_def)
  have "path u \<noteq> []"
  proof
    assume "path u = []"
    then show False using assms(2) find_sub_char_none [OF x(1)] unfolding t by simp
  qed
  then have "find_sub (url_tail u) ''/'' 0 = Some (length ?x)"
    using find_sub_char_block [OF x(2), of "path u"] unfolding t by simp
  moreover have "length ?x \<le> a"
    using assms(2) find_sub_char_first [OF x(1)] \<open>path u \<noteq> []\<close> unfolding t by auto
  ultimately show ?thesis by blast
qed

lemma find_sub_slash_beyond:
  assumes "(c::char) \<notin> set u"
  shows "length u \<le> (case find_sub (u @ r) [c] 0 of None \<Rightarrow> length (u @ r) | Some i \<Rightarrow> i)"
  using find_sub_char_first [OF assms, of r] by (cases "find_sub r [c] 0") auto

text \<open>
  A URL that \<open>url_create\<close> has put together from well-formed parts is taken apart by
  \<open>url_explode\<close> into the same parts, with and without user, password, port and path.
\<close>

theorem url_explode_create:
  assumes "url_ok u"
  shows "url_explode (url_create u) no_parts = Inr u"
proof -
  let ?r = "if uname u \<noteq> [] then user_part u @ CHR ''@'' # url_tail u else url_tail u"
  let ?p = "no_parts\<lparr>protocol := protocol u\<rparr>"
  have f: "find_sub (url_create u) '':'' 0 = Some (length (protocol u))"
    using find_sub_char_block [of "CHR '':''" "protocol u" "''//'' @ ?r"] assms
    by (simp add: url_create_parts url_ok_def)
  have parts: "substr (url_create u) 0 (length (protocol u)) = protocol u"
     "substr (url_create u) (length (protocol u)) 3 = ''://''"
     "substr_from (url_create u) (length (protocol u) + 3) = ?r"
    by (simp_all add: url_create_parts substr_def substr_from_def)
  have tail: "url_explode_tail (url_tail u) (?p\<lparr>uname := uname u, psswd := psswd u\<rparr>) = u"
    using url_explode_tail_ok [OF assms] by (simp add: no_parts_def)
  show ?thesis
  proof (cases "uname u = []")
    case True
    then have e: "?p\<lparr>uname := uname u, psswd := psswd u\<rparr> = ?p"
      using assms by (simp add: url_ok_def no_parts_def)
    show ?thesis
    proof (cases "find_sub (url_tail u) ''@'' 0")
      case None
      with True f parts tail e show ?thesis by (simp add: url_explode_def)
    next
      case (Some a)
      with url_tail_at [OF assms Some] True f parts tail e show ?thesis
        by (auto simp: url_explode_def)
    qed
  next
    case False
    have up: "CHR ''@'' \<notin> set (user_part u)" "CHR ''/'' \<notin> set (user_part u @ ''@'')"
      using assms by (auto simp: url_ok_def user_part_def)
    have at: "find_sub ?r ''@'' 0 = Some (length (user_part u))"
      using False find_sub_char_block [OF up(1), of "url_tail u"] by simp
    have slash: "length (user_part u) < (case find_sub ?r ''/'' 0 of None \<Rightarrow> length ?r | Some i \<Rightarrow> i)"
      using False find_sub_slash_beyond [OF up(2), of "url_tail u"] by (auto split: option.splits)
    have sub: "substr ?r 0 (length (user_part u)) = user_part u"
        "substr_from ?r (length (user_part u) + 1) = url_tail u"
      using False by (simp_all add: substr_def substr_from_def)
    have user: "(case find_sub (user_part u) '':'' 0 of
          Some c \<Rightarrow> ?p\<lparr>uname := substr (user_part u) 0 c, psswd := substr_from (user_part u) (c + 1)\<rparr>
        | None \<Rightarrow> ?p\<lparr>uname := user_part u\<rparr>) = ?p\<lparr>uname := uname u, psswd := psswd u\<rparr>"
      using assms find_sub_char_block [of "CHR '':''" "uname u" "psswd u"] find_sub_char_none [of "CHR '':''" "uname u"]
      by (cases "psswd u = []") (auto simp: user_part_def substr_def substr_from_def url_ok_def no_parts_def)
    show ?thesis
      unfolding url_explode_def f option.case parts Let_def at sub user tail
      using slash by simp
  qed
qed

theorem url_explode_create_witness:
  "url_explode (url_create \<lparr>protocol = ''http'', uname = ''me'', psswd = ''x'', domain = ''h.org'',
       port = ''8080'', path = ''a@b/c''\<rparr>) no_parts
   = Inr \<lparr>protocol = ''http'', uname = ''me'', psswd = ''x'', domain = ''h.org'', port = ''8080'',
       path = ''a@b/c''\<rparr>"
  by (rule url_explode_create) (simp add: url_ok_def)

section \<open>What the path check grants\<close>

text \<open>The nodes on the way from the root to the named node, and the test each of them has to pass.\<close>

definition node_ok :: "(string \<Rightarrow> stat_result) \<Rightarrow> (string \<Rightarrow> stat_result) \<Rightarrow> bool \<Rightarrow> string \<Rightarrow> bool" where
  "node_ok lstat stat follow p = (if follow then (case stat p of Node _ \<Rightarrow> True | _ \<Rightarrow> False) else lstat p = Node False)"

definition path_nodes :: "string \<Rightarrow> string \<Rightarrow> string list" where
  "path_nodes root rem =
     map (\<lambda>k. root @ ''/'' @ take k rem) (filter (\<lambda>k. k = length rem \<or> rem ! k = CHR ''/'') [0..<Suc (length rem)])"

lemma set_path_nodes:
  "set (path_nodes root rem)
     = (\<lambda>k. root @ ''/'' @ take k rem) ` {k. k < Suc (length rem) \<and> (k = length rem \<or> rem ! k = CHR ''/'')}"
  unfolding path_nodes_def set_map set_filter set_upt by (simp add: atLeast0LessThan lessThan_def)

lemma path_nodes_none:
  assumes "CHR ''/'' \<notin> set rem"
  shows "set (path_nodes root rem) = {root @ ''/'' @ rem}"
proof -
  have "rem ! k \<noteq> CHR ''/''" if "k < length rem" for k using assms that by (metis nth_mem)
  then have "{k. k < Suc (length rem) \<and> (k = length rem \<or> rem ! k = CHR ''/'')} = {length rem}"
    by (auto simp: less_Suc_eq)
  then show ?thesis unfolding set_path_nodes by simp
qed

lemma path_nodes_step:
  assumes "CHR ''/'' \<notin> set u"
  shows "set (path_nodes root (u @ CHR ''/'' # r)) = insert (root @ ''/'' @ u) (set (path_nodes (root @ ''/'' @ u) r))"
proof -
  let ?rem = "u @ CHR ''/'' # r"
  have before: "?rem ! k \<noteq> CHR ''/''" if "k < length u" for k
    using assms that by (metis nth_append nth_mem)
  have "{k. k < Suc (length ?rem) \<and> (k = length ?rem \<or> ?rem ! k = CHR ''/'')}
        = insert (length u) ((\<lambda>k. length u + 1 + k) ` {k. k < Suc (length r) \<and> (k = length r \<or> r ! k = CHR ''/'')})"
    (is "?L = ?R")
  proof (intro set_eqI iffI)
    fix k assume k: "k \<in> ?L"
    then have "\<not> k < length u" using before by auto
    then consider "k = length u" | k' where "k = length u + 1 + k'"
      by (metis add.commute less_eqE linorder_not_less Suc_eq_plus1 add_Suc_right add_Suc not0_implies_Suc add.right_neutral)
    then show "k \<in> ?R"
      by cases (use k in \<open>auto simp: nth_append\<close>)
  qed (auto simp: nth_append)
  then show ?thesis unfolding set_path_nodes by (auto simp: image_image)
qed

lemma check_node_ok:
  "check_node lstat stat follow p c = Inr () \<longleftrightarrow> node_ok lstat stat follow p"
  by (auto simp: check_node_def node_ok_def split: stat_result.splits)

lemma check_path_loop_ok:
  "check_path_loop lstat stat follow rem p c = Inr () \<longleftrightarrow> (\<forall>n \<in> set (path_nodes p rem). node_ok lstat stat follow n)"
proof (induction lstat stat follow rem p c rule: check_path_loop.induct)
  case (1 lstat stat follow rem p c)
  show ?case
  proof (cases "CHR ''/'' \<in> set rem")
    case False
    then show ?thesis using find_char_none [OF False, of "[]"]
      by (subst check_path_loop.simps) (simp add: path_nodes_none check_node_ok)
  next
    case True
    then obtain u r where rem: "rem = u @ CHR ''/'' # r" "CHR ''/'' \<notin> set u" by (meson split_list_first)
    then have f: "find_char rem (CHR ''/'') 0 = Some (length u)"
      using find_char_block [of "CHR ''/''" u "[]" r] by simp
    have s: "substr rem 0 (length u) = u" "substr rem (length u + 1) (length rem - length u) = r"
      using rem by (simp_all add: substr_def)
    have IH: "check_path_loop lstat stat follow r (p @ ''/'' @ u) (c @ ''/'' @ u) = Inr ()
        \<longleftrightarrow> (\<forall>n \<in> set (path_nodes (p @ ''/'' @ u) r). node_ok lstat stat follow n)"
      if "check_node lstat stat follow (p @ ''/'' @ u) (c @ ''/'' @ u) = Inr ()"
      using 1 [OF f, of "p @ ''/'' @ u" "c @ ''/'' @ u" "()"] that s by simp
    have "check_path_loop lstat stat follow rem p c
        = rbind (check_node lstat stat follow (p @ ''/'' @ u) (c @ ''/'' @ u)) (\<lambda>_.
                check_path_loop lstat stat follow r (p @ ''/'' @ u) (c @ ''/'' @ u))"
      by (subst check_path_loop.simps) (simp only: f option.case s Let_def)
    then show ?thesis
      using IH unfolding rem(1) path_nodes_step [OF rem(2)]
      by (auto simp: rbind_Inr_iff check_node_ok)
  qed
qed

text \<open>
  C12: \<open>check_path\<close> grants access to a non-empty path exactly when no \<^verbatim>\<open>..\<close> occurs in it and every node
  from the root down to the named one exists and, unless symbolic links may be followed, is no
  symbolic link. A leading and a trailing slash make no difference.
\<close>

theorem check_path_grants:
  assumes "node \<noteq> ''''"
  shows "check_path lstat stat node root follow = Inr () \<longleftrightarrow>
     find_sub node ''..'' 0 = None \<and>
     (\<forall>n \<in> set (path_nodes (strip_last_slash root)
          (strip_last_slash (if hd node = CHR ''/'' then tl node else node))).
        node_ok lstat stat follow n)"
proof -
  have "substr node 1 (length node - 1) = tl node" using assms by (cases node) (simp_all add: substr_def)
  then show ?thesis using assms
    by (auto simp: check_path_def check_path_loop_ok Let_def)
qed

theorem check_path_grants_witness:
  "check_path (\<lambda>p. if p \<in> {''/d/a'', ''/d/a/b''} then Node False else Stat_error True ''none'')
     (\<lambda>_. Node False) ''/a/b'' ''/d/'' False = Inr ()"
  by (subst check_path_grants) (simp_all add: find_sub_def path_nodes_def strip_last_slash_def substr_def
     node_ok_def upt_rec)

section \<open>Trimming, numbers and decoding\<close>

lemma find_first_not_of_split:
  assumes "find_first_not_of s cs 0 = Some f"
  shows "f < length s" "s ! f \<notin> set cs" "set (take f s) \<subseteq> set cs"
proof -
  from assms have f: "find_if_from (\<lambda>c. c \<notin> set cs) s 0 = Some f" by (simp add: find_first_not_of_def)
  note d = find_if_from_SomeD [OF f]
  from d show "f < length s" "s ! f \<notin> set cs" by auto
  show "set (take f s) \<subseteq> set cs" using d(4) by (auto simp: in_set_conv_nth)
qed

lemma find_last_not_of_split:
  assumes "find_last_not_of s cs = Some l"
  shows "l < length s" "s ! l \<notin> set cs" "set (drop (Suc l) s) \<subseteq> set cs"
proof -
  obtain k where k: "scan (\<lambda>c. c \<notin> set cs) (rev s) 0 = Some k" "l = length s - 1 - k"
    using assms by (auto simp: find_last_not_of_def split: option.splits)
  then have d: "k < length s" "rev s ! k \<notin> set cs" "\<forall>m < k. rev s ! m \<in> set cs"
    using scan_Some_iff [of "\<lambda>c. c \<notin> set cs" "rev s" 0 k] by auto
  then show "l < length s" "s ! l \<notin> set cs" using k(2) by (auto simp: rev_nth)
  have "s ! m \<in> set cs" if "l < m" "m < length s" for m
  proof -
    have "rev s ! (length s - 1 - m) \<in> set cs" using that d(1) k(2) by (intro d(3) [rule_format]) linarith
    then show ?thesis using that by (simp add: rev_nth)
  qed
  then show "set (drop (Suc l) s) \<subseteq> set cs" by (force simp: in_set_conv_nth)
qed

text \<open>
  \<open>removeLeadingAndTrailingBlanks\<close> takes away blanks at both ends and nothing else: the string
  is its result between two runs of blanks, and the result neither starts nor ends with one.
\<close>

theorem trim_spec:
  "\<exists>pre post. key = pre @ removeLeadingAndTrailingBlanks key @ post \<and>
     set pre \<subseteq> set blanks \<and> set post \<subseteq> set blanks \<and>
     (removeLeadingAndTrailingBlanks key = [] \<or>
      hd (removeLeadingAndTrailingBlanks key) \<notin> set blanks \<and>
      last (removeLeadingAndTrailingBlanks key) \<notin> set blanks)"
proof (cases "find_first_not_of key blanks 0")
  case None
  then have "set key \<subseteq> set blanks" by (auto simp: find_first_not_of_def find_if_from_None_iff)
  moreover have "removeLeadingAndTrailingBlanks key = []"
    using None by (simp add: removeLeadingAndTrailingBlanks_def)
  ultimately show ?thesis by (intro exI [of _ key] exI [of _ "[]"]) simp
next
  case (Some f)
  note f = find_first_not_of_split [OF Some]
  have "find_last_not_of key blanks \<noteq> None"
    using f by (auto simp: find_last_not_of_def scan_None_iff split: option.splits)
  then obtain l where l0: "find_last_not_of key blanks = Some l" by blast
  note l = find_last_not_of_split [OF l0]
  have fl: "f \<le> l"
  proof (rule ccontr)
    assume "\<not> f \<le> l"
    then have "key ! f \<in> set (drop (Suc l) key)"
      using f(1) by (auto simp: in_set_conv_nth intro!: exI [of _ "f - Suc l"])
    with l(3) f(2) show False by blast
  qed
  let ?r = "take (l - f + 1) (drop f key)"
  have r: "removeLeadingAndTrailingBlanks key = ?r"
    using Some l0 f by (auto simp: removeLeadingAndTrailingBlanks_def substr_def)
  have "key = take f key @ ?r @ drop (Suc l) key"
    using fl by (metis Suc_diff_le Suc_eq_plus1 append_take_drop_id drop_drop le_add_diff_inverse2 le_SucI
        diff_Suc_eq_diff_pred add.commute)
  moreover have "hd ?r = key ! f" using f fl by (simp add: hd_drop_conv_nth)
  moreover have "last ?r = key ! l"
  proof -
    have len: "length ?r = Suc (l - f)" using f(1) l(1) fl by simp
    then have "last ?r = ?r ! (l - f)" by (subst last_conv_nth) auto
    then show ?thesis using f(1) l(1) fl by simp
  qed
  ultimately show ?thesis unfolding r using f l by metis
qed

lemma digit_table: "d < 36 \<Longrightarrow> ''0123456789abcdefghijklmnopqrstuvwxyz'' ! d = digit_char d"
proof -
  have "map digit_char [0..<36] = ''0123456789abcdefghijklmnopqrstuvwxyz''" by code_simp
  moreover assume "d < 36"
  ultimately show ?thesis by (metis (no_types) add.left_neutral length_upt nth_map nth_upt minus_nat.diff_0)
qed

lemma fastpid_nat:
  assumes "2 \<le> b" "b \<le> 36"
  shows "fastpidconverter (int n) (int b) = show_base b n"
  using assms
proof (induction b n rule: show_base.induct)
  case (1 b n)
  have m: "int n mod int b = int (n mod b)" and q: "int n div int b = int (n div b)"
    by (simp_all add: zmod_int zdiv_int)
  have d: "n mod b < 36" using 1(2,3) mod_less_divisor [of b n] by linarith
  have pos: "0 < int n div int b \<longleftrightarrow> \<not> n < b" using 1(2) q
    by (simp add: div_greater_zero_iff not_less)
  show ?case
  proof (cases "n < b")
    case True
    then show ?thesis using 1(2,3) d pos m
      by (subst fastpidconverter.simps, subst show_base.simps) (simp add: digit_table)
  next
    case False
    then have IH: "fastpidconverter (int (n div b)) (int b) = show_base b (n div b)"
      using 1 by simp
    show ?thesis using 1(2,3) False d pos m q IH
      by (subst fastpidconverter.simps, subst show_base.simps) (simp add: digit_table)
  qed
qed

text \<open>
  \<open>fastpidconverter\<close> prints every number in every base from 2 to 36: a minus sign for a negative
  number, then the digits of its absolute value, without leading zeros.
\<close>

theorem fastpidconverter_prints:
  assumes "2 \<le> base" and "base \<le> 36"
  shows "fastpidconverter val base
         = (if val < 0 then ''-'' else []) @ show_base (nat base) (nat \<bar>val\<bar>) \<and>
         digits_value (nat base) (show_base (nat base) (nat \<bar>val\<bar>)) = nat \<bar>val\<bar>"
proof
  have nb: "int (nat base) = base" "2 \<le> nat base" "nat base \<le> 36" using assms by auto
  show "digits_value (nat base) (show_base (nat base) (nat \<bar>val\<bar>)) = nat \<bar>val\<bar>"
    by (rule digits_value_show_base) (use nb in auto)
  have "fastpidconverter \<bar>val\<bar> base = show_base (nat base) (nat \<bar>val\<bar>)"
    using fastpid_nat [OF nb(2,3), of "nat \<bar>val\<bar>"] nb(1) by simp
  then show "fastpidconverter val base = (if val < 0 then ''-'' else []) @ show_base (nat base) (nat \<bar>val\<bar>)"
    using assms fastpidconverter.simps [of val base] fastpidconverter.simps [of "\<bar>val\<bar>" base] by auto
qed

theorem fastpidconverter_prints_witness:
  "fastpidconverter (- 255) 16 = (if (- 255 :: int) < 0 then ''-'' else []) @ show_base (nat 16) (nat \<bar>- 255\<bar>) \<and>
   digits_value (nat 16) (show_base (nat 16) (nat \<bar>- 255\<bar>)) = nat \<bar>- 255\<bar>"
  by (rule fastpidconverter_prints) simp_all

text \<open>The one-pass reading of backslashes that the index loop of \<open>unescape\<close> implements.\<close>

fun unescape_ref :: "string \<Rightarrow> string option" where
  "unescape_ref [] = Some []"
| "unescape_ref (c # s) =
     (if c = bslash
      then (case s of [] \<Rightarrow> None | d # s' \<Rightarrow> map_option ((#) d) (unescape_ref s'))
      else map_option ((#) c) (unescape_ref s))"

lemma unescape_ref_append:
  "bslash \<notin> set u \<Longrightarrow> unescape_ref (u @ s) = map_option (\<lambda>t. u @ t) (unescape_ref s)"
  by (cases "unescape_ref s"; induction u; auto)

lemma unescape_loop_ref:
  "i \<le> length s \<Longrightarrow> unescape_loop s i acc = map_option (\<lambda>t. acc @ t) (unescape_ref (drop i s))"
proof (induction s i acc rule: unescape_loop.induct)
  case (1 s i acc)
  show ?case
  proof (cases "find_char s bslash i")
    case None
    then have "bslash \<notin> set (drop i s)" by (auto simp: find_char_def find_if_from_None_iff)
    then show ?thesis using None 1(2) unescape_ref_append [of "drop i s" "[]"]
      by (subst unescape_loop.simps) (simp add: substr_def)
  next
    case (Some j)
    then have "find_if_from (\<lambda>c. c = bslash) s i = Some j" by (simp add: find_char_def)
    note d = find_if_from_SomeD [OF this]
    let ?u = "substr s i (j - i)"
    have u: "bslash \<notin> set ?u"
    proof
      assume "bslash \<in> set ?u"
      then obtain k where "k < length ?u" "?u ! k = bslash" by (auto simp: in_set_conv_nth)
      then have "i + k < j" "s ! (i + k) = bslash" using d by (auto simp: substr_def)
      with d(4) [of "i + k"] show False by simp
    qed
    have dr: "drop i s = ?u @ bslash # drop (Suc j) s"
    proof -
      have "drop i s = ?u @ drop j s" using d(1)
        by (metis append_take_drop_id drop_drop le_add_diff_inverse2 substr_def)
      then show ?thesis using d by (simp add: Cons_nth_drop_Suc [symmetric])
    qed
    show ?thesis
    proof (cases "j + 1 < length s")
      case True
      then have ds: "drop (Suc j) s = s ! (j + 1) # drop (j + 2) s"
        by (simp add: Cons_nth_drop_Suc [symmetric])
      have IH: "unescape_loop s (j + 2) (acc @ ?u @ [s ! (j + 1)])
          = map_option (\<lambda>t. (acc @ ?u @ [s ! (j + 1)]) @ t) (unescape_ref (drop (j + 2) s))"
        using 1(1) [OF Some] True by simp
      show ?thesis unfolding dr unescape_ref_append [OF u]
        using IH True ds Some by (subst unescape_loop.simps) (simp add: option.map_comp comp_def)
    next
      case False
      then have "drop (Suc j) s = []" using d(2) by simp
      moreover have "find_char s bslash (j + 2) = None"
        using False d(2) unfolding find_char_def by (intro find_if_from_beyond) simp
      ultimately show ?thesis unfolding dr unescape_ref_append [OF u]
        using Some False
        by (subst unescape_loop.simps, simp, subst unescape_loop.simps) (simp add: option.map_comp comp_def)
    qed
  qed
qed

text \<open>
  \<open>unescape\<close> reads its string once from left to right: a backslash is dropped and the character
  after it is kept whatever it is, every other character is kept, and a backslash with nothing
  after it ends in an exception.
\<close>

theorem unescape_reads_once: "unescape s = unescape_ref s"
  using unescape_loop_ref [of 0 s "[]"] by (simp add: unescape_def option.map_ident)

lemma bes_www2id_loop_skip:
  "i < length res \<Longrightarrow> res ! i \<notin> set esc \<Longrightarrow>
     bes_www2id_loop junk esc ex res i = bes_www2id_loop junk esc ex res (Suc i)"
  using find_if_from_skip [of i res "\<lambda>c. c \<in> set esc"]
  by (subst (1 2) bes_www2id_loop.simps) (simp add: find_first_of_def)

lemma bes_www2id_loop_code:
  "i < length res \<Longrightarrow> res ! i \<in> set esc \<Longrightarrow>
     bes_www2id_loop junk esc [] res i
     = bes_www2id_loop junk esc [] (str_replace res i 3 (unhexstring junk (substr res (i + 1) 2))) i"
  using find_if_from_here [of i res "\<lambda>c. c \<in> set esc"] find_sub_at_end [of "substr res i 3" "[]" 0]
  by (subst (1) bes_www2id_loop.simps) (simp add: find_first_of_def substr_def)

lemma bes_www2id_loop_end: "length res \<le> i \<Longrightarrow> bes_www2id_loop junk esc ex res i = Some res"
  by (subst bes_www2id_loop.simps) (simp add: find_first_of_def)

lemma bes_www2id_loop_decodes:
  assumes "CHR ''%'' \<notin> set s" "nul \<notin> set s"
  shows "bes_www2id_loop junk ''%'' [] (pre @ concat (map (www_code a) s)) (length pre) = Some (pre @ s)"
  using assms
proof (induction s arbitrary: pre)
  case (Cons c s)
  let ?rest = "concat (map (www_code a) s)"
  have IH: "bes_www2id_loop junk ''%'' [] ((pre @ [c]) @ ?rest) (length (pre @ [c])) = Some ((pre @ [c]) @ s)"
    using Cons.prems by (intro Cons.IH) auto
  have skip: "bes_www2id_loop junk ''%'' [] (pre @ c # ?rest) (length pre)
      = bes_www2id_loop junk ''%'' [] (pre @ c # ?rest) (Suc (length pre))"
    using Cons.prems by (intro bes_www2id_loop_skip) auto
  show ?case
  proof (cases "c \<in> set a")
    case True
    then have "www_code a c = [c]" by (simp add: www_code_def)
    then show ?thesis using IH skip by simp
  next
    case False
    then have code: "www_code a c = CHR ''%'' # hexstring c" by (simp add: www_code_def)
    let ?t = "pre @ CHR ''%'' # hexstring c @ ?rest"
    have "length (hexstring c) = 2"
      using length_show_hex [of "of_char c" 1] nat_of_char_less_256 [of c]
      by (simp add: hexstring_def numeral_2_eq_2)
    then have "substr ?t (length pre + 1) 2 = hexstring c" "str_replace ?t (length pre) 3 [c] = pre @ c # ?rest"
      by (simp_all add: substr_def str_replace_def)
    moreover have "unhexstring junk (hexstring c) = [c]"
      using Cons.prems unhexstring_hexstring [of junk c] c_str_plain [of c] by auto
    ultimately have "bes_www2id_loop junk ''%'' [] ?t (length pre)
        = bes_www2id_loop junk ''%'' [] (pre @ c # ?rest) (length pre)"
      by (subst bes_www2id_loop_code) simp_all
    then show ?thesis using IH skip code by simp
  qed
qed (simp add: bes_www2id_loop_end)

text \<open>
  What the client encodes with libdap's \<open>id2www\<close> the server's own \<open>BESUtil::www2id\<close> decodes, as
  long as the identifier itself has no percent sign; the loop then returns.
\<close>

theorem bes_www2id_id2www:
  assumes "CHR ''%'' \<notin> set s" and "nul \<notin> set s"
  shows "bes_www2id junk (id2www s allowable) ''%'' [] = Some s"
  using bes_www2id_loop_decodes [OF assms, of junk "[]" allowable] by (simp add: bes_www2id_def id2www_eq)

theorem bes_www2id_id2www_witness:
  "bes_www2id 7 (id2www ''a b'' allowable_id) ''%'' [] = Some ''a b''"
  by (rule bes_www2id_id2www) simp_all

lemma www2id_escapes_by_hand:
  "unhexstring junk ''25'' = ''%''" "unhexstring junk ''41'' = ''A''"
proof -
  have "extract_int 16 ''25'' = Some 37" "extract_int 16 ''41'' = Some 65"
    "c_str [char_cast 37] = ''%''" "c_str [char_cast 65] = ''A''" by code_simp+
  then show "unhexstring junk ''25'' = ''%''" "unhexstring junk ''41'' = ''A''"
    by (simp_all add: unhexstring_def)
qed

lemma www2id_loop_end: "length res \<le> i \<Longrightarrow> www2id_loop junk esc ex res i = res"
  by (subst www2id_loop.simps) (simp add: find_first_of_def)

lemma unhexstring_empty: "unhexstring 37 [] = ''%''"
  by code_simp

lemma bes_www2id_loop_forever:
  "bes_www2id_loop 37 ''%'' [] ''%'' 0 = None"
proof -
  let ?here = "\<lambda>junk escape except res i. junk = 37 \<and> escape = ''%'' \<and> except = [] \<and> res = ''%'' \<and> i = (0::nat)"
  have "\<not> ?here junk escape except res i"
    if r: "bes_www2id_loop junk escape except res i = Some y" for junk escape except res i y
  proof (rule bes_www2id_loop.raw_induct [OF _ r,
        where P = "\<lambda>junk escape except res i y. \<not> ?here junk escape except res i"], rule notI)
    fix loop and junk :: int and escape except res :: string and i :: nat and y
    assume IH: "\<And>junk escape except res i y. loop junk escape except res i = Some y \<Longrightarrow> \<not> ?here junk escape except res i"
      and body: "(case find_first_of res escape i of None \<Rightarrow> Some res
          | Some j \<Rightarrow> if find_sub except (substr res j 3) 0 \<noteq> None then loop junk escape except res (j + 3)
              else loop junk escape except
                (str_replace res j 3 (unhexstring junk (substr res (j + 1) 2))) j) = Some y"
      and here: "?here junk escape except res i"
    from body here have "loop 37 ''%'' [] ''%'' 0 = Some y"
      by (simp add: find_first_of_def find_if_from_def find_sub_def substr_def str_replace_def unhexstring_empty)
    from IH [OF this] show False by simp
  qed
  then show ?thesis by (metis not_Some_eq)
qed

text \<open>
  The loop of \<open>BESUtil::www2id\<close> searches again at the character it has written. An identifier
  with a percent sign that is encoded once is decoded twice, so \<^verbatim>\<open>%2541\<close> gives \<^verbatim>\<open>A\<close> where libdap's
  \<open>www2id\<close> gives \<^verbatim>\<open>%41\<close>; and on a lone percent sign the loop never returns when the uninitialised
  \<open>val\<close> happens to be 37, the code of the percent sign.
\<close>

theorem bes_www2id_decodes_again:
  "bes_www2id junk ''%2541'' ''%'' [] = Some ''A'' \<and> www2id junk ''%2541'' ''%'' [] = ''%41'' \<and>
   bes_www2id 37 ''%'' ''%'' [] = None"
  by (simp add: bes_www2id_def www2id_def bes_www2id_loop_code bes_www2id_loop_skip bes_www2id_loop_end
      www2id_loop_code www2id_loop_skip www2id_loop_end str_replace_def substr_def www2id_escapes_by_hand
      bes_www2id_loop_forever)

section \<open>XML text of the server\<close>

lemma bes_id2xml_loop_codes:
  "bes_id2xml_loop a s i = take i s @ concat (map (\<lambda>c. if c \<in> set a then bes_entity c else [c]) (drop i s))"
    (is "_ = take i s @ ?code (drop i s)")
proof (induction a s i rule: bes_id2xml_loop.induct)
  case (1 a s i)
  let ?f = "\<lambda>c. if c \<in> set a then bes_entity c else [c]"
  show ?case
  proof (cases "find_first_of s a i")
    case None
    then have "\<forall>c \<in> set (drop i s). c \<notin> set a" by (simp add: find_first_of_def find_if_from_None_iff)
    then have "concat (map ?f (drop i s)) = drop i s" by (intro concat_map_singleton_id) auto
    then show ?thesis using None by (subst bes_id2xml_loop.simps) simp
  next
    case (Some j)
    then have "find_if_from (\<lambda>c. c \<in> set a) s i = Some j" by (simp add: find_first_of_def)
    note d = find_if_from_SomeD [OF this]
    let ?e = "bes_entity (s ! j)" and ?s = "str_replace s j 1 (bes_entity (s ! j))"
    obtain x r where e: "?e = x # r" "concat (map ?f r) = r"
    proof (cases "s ! j" rule: bes_entity_cases)
      case (special r)
      then have "concat (map ?f r) = r" by (intro concat_map_singleton_id) (auto simp: bes_entity_plain)
      with special that show thesis by blast
    qed (use that in simp)
    have head: "take (Suc j) ?s = take j s @ [x]" using d(2) e(1) by (simp add: str_replace_def)
    have pre: "concat (map ?f (take (j - i) (drop i s))) = take (j - i) (drop i s)"
      using d by (intro concat_map_singleton_id) (auto simp: in_set_conv_nth)
    have split: "drop i s = take (j - i) (drop i s) @ s ! j # drop (Suc j) s"
      using d(1,2) by (metis Cons_nth_drop_Suc append_take_drop_id drop_drop le_add_diff_inverse2)
    have "bes_id2xml_loop a s i = bes_id2xml_loop a ?s (Suc j)"
      using Some by (subst bes_id2xml_loop.simps) simp
    also have "\<dots> = take j s @ ?e @ concat (map ?f (drop (Suc j) s))"
      unfolding 1 [OF Some] head bes_entity_step [OF d(2)] using e by simp
    also have "take j s = take i s @ take (j - i) (drop i s)"
      using d(1) by (metis le_add_diff_inverse take_add)
    finally show ?thesis using arg_cong [OF split, of "\<lambda>u. concat (map ?f u)"] pre d(3) by simp
  qed
qed

text \<open>
  The server's \<open>id2xml\<close> replaces each character to be escaped by its entity and keeps the
  others, for every set of characters; and the server's \<open>xml2id\<close> undoes it on text without
  ampersands.
\<close>

theorem bes_xml2id_id2xml:
  assumes "set not_allowed \<subseteq> set xml_special" and "CHR ''&'' \<notin> set s"
  shows "bes_id2xml s not_allowed = concat (map (\<lambda>c. if c \<in> set not_allowed then bes_entity c else [c]) s) \<and>
         bes_xml2id (bes_id2xml s not_allowed) = s"
proof
  show eq: "bes_id2xml s not_allowed = concat (map (\<lambda>c. if c \<in> set not_allowed then bes_entity c else [c]) s)"
    by (simp add: bes_id2xml_def bes_id2xml_loop_codes)
  have "bes_id2xml s not_allowed = concat (map (xml_code not_allowed) s)"
    unfolding eq by (intro arg_cong [where f = concat] map_cong) (auto simp: bes_entity_def xml_code_def entity_def)
  moreover have "xml2id (concat (map (xml_code not_allowed) s)) = s"
    unfolding xml2id_def Let_def using assms(2)
    by (simp add: xml2id_pass entity_def)
       (rule concat_map_singleton_id,
        use assms(1) in \<open>auto simp: xml_code_def drop_char_def xml_special_def\<close>)
  ultimately show "bes_xml2id (bes_id2xml s not_allowed) = s"
    by (simp add: bes_xml2id_def xml2id_def)
qed

theorem bes_xml2id_id2xml_witness:
  "bes_id2xml ''x>1'' xml_special = concat (map (\<lambda>c. if c \<in> set xml_special then bes_entity c else [c]) ''x>1'') \<and>
   bes_xml2id (bes_id2xml ''x>1'' xml_special) = ''x>1''"
  by (rule bes_xml2id_id2xml) simp_all

end
