(* ===== verification/CppMap.thy ===== *)
theory CppMap
  imports Prelude
begin

text \<open>
  \<^verbatim>\<open>std::map\<close> with its iteration order: an association list whose keys increase strictly.
  The interface \<open>assoc_store\<close> says what its clients rely on; the lists implement it, and the
  registries, the service tables and the catalogs of the BES are built on the interpretation.
\<close>

type_synonym ('k, 'v) cpp_map = "('k \<times> 'v) list"

definition m_ok :: "('k::linorder, 'v) cpp_map \<Rightarrow> bool" where
  "m_ok m = sorted_wrt (<) (map fst m)"

definition m_find :: "('k, 'v) cpp_map \<Rightarrow> 'k \<Rightarrow> 'v option" where
  "m_find m k = map_of m k"

text \<open>\<^verbatim>\<open>m[k] = v\<close>: insert or overwrite.\<close>

fun m_set :: "'k::linorder \<Rightarrow> 'v \<Rightarrow> ('k, 'v) cpp_map \<Rightarrow> ('k, 'v) cpp_map" where
  "m_set k v [] = [(k, v)]"
| "m_set k v ((k', v') # m) =
     (if k < k' then (k, v) # (k', v') # m
      else if k = k' then (k, v) # m
      else (k', v') # m_set k v m)"

definition m_erase :: "'k \<Rightarrow> ('k, 'v) cpp_map \<Rightarrow> ('k, 'v) cpp_map" where
  "m_erase k m = filter (\<lambda>p. fst p \<noteq> k) m"

text \<open>\<^verbatim>\<open>m.insert(pair)\<close> keeps an element that is there; the flag says whether it inserted.\<close>

definition m_insert :: "'k::linorder \<Rightarrow> 'v \<Rightarrow> ('k, 'v) cpp_map \<Rightarrow> bool \<times> ('k, 'v) cpp_map" where
  "m_insert k v m = (case m_find m k of None \<Rightarrow> (True, m_set k v m) | Some _ \<Rightarrow> (False, m))"

text \<open>\<^verbatim>\<open>m[k]\<close> read: it inserts the default value when the key is absent.\<close>

definition m_index :: "'v \<Rightarrow> 'k::linorder \<Rightarrow> ('k, 'v) cpp_map \<Rightarrow> 'v \<times> ('k, 'v) cpp_map" where
  "m_index dflt k m = (case m_find m k of None \<Rightarrow> (dflt, m_set k dflt m) | Some v \<Rightarrow> (v, m))"

section \<open>The interface\<close>

locale assoc_store =
  fixes emp :: "'m"
    and upd :: "'k \<Rightarrow> 'v \<Rightarrow> 'm \<Rightarrow> 'm"
    and del :: "'k \<Rightarrow> 'm \<Rightarrow> 'm"
    and look :: "'m \<Rightarrow> 'k \<Rightarrow> 'v option"
    and inv :: "'m \<Rightarrow> bool"
  assumes look_emp: "look emp k = None"
    and look_upd: "inv m \<Longrightarrow> look (upd k v m) k' = (if k' = k then Some v else look m k')"
    and look_del: "inv m \<Longrightarrow> look (del k m) k' = (if k' = k then None else look m k')"
    and inv_emp: "inv emp"
    and inv_upd: "inv m \<Longrightarrow> inv (upd k v m)"
    and inv_del: "inv m \<Longrightarrow> inv (del k m)"
begin

lemmas store_laws = look_emp look_upd look_del inv_emp inv_upd inv_del

lemma abs_upd: "inv m \<Longrightarrow> look (upd k v m) = (look m)(k \<mapsto> v)"
  by (auto simp: look_upd)

lemma abs_del: "inv m \<Longrightarrow> look (del k m) = (look m)(k := None)"
  by (auto simp: look_del)

lemma dom_upd: "inv m \<Longrightarrow> dom (look (upd k v m)) = insert k (dom (look m))"
  by (simp add: abs_upd)

lemma dom_del: "inv m \<Longrightarrow> dom (look (del k m)) = dom (look m) - {k}"
  by (simp add: abs_del)

lemma upd_del_same: "inv m \<Longrightarrow> look (upd k v (del k m)) = look (upd k v m)"
  by (simp add: abs_upd abs_del inv_del)

lemma del_upd_fresh: "inv m \<Longrightarrow> look m k = None \<Longrightarrow> look (del k (upd k v m)) = look m"
  by (auto simp: abs_upd abs_del inv_upd)

end

section \<open>Lists with increasing keys implement it\<close>

lemma m_find_Nil [simp]: "m_find [] k = None"
  by (simp add: m_find_def)

lemma m_ok_Nil [simp]: "m_ok []"
  by (simp add: m_ok_def)

lemma m_ok_Cons: "m_ok (p # m) \<longleftrightarrow> (\<forall>q \<in> set m. fst p < fst q) \<and> m_ok m"
  by (simp add: m_ok_def)

lemma m_find_set [simp]: "m_find (m_set k v m) k' = (if k' = k then Some v else m_find m k')"
  by (induction k v m rule: m_set.induct) (auto simp: m_find_def)

lemma m_find_erase [simp]: "m_find (m_erase k m) k' = (if k' = k then None else m_find m k')"
  by (induction m) (auto simp: m_find_def m_erase_def)

lemma keys_m_set: "fst ` set (m_set k v m) = insert k (fst ` set m)"
  by (induction k v m rule: m_set.induct) auto

lemma m_ok_set [simp]: "m_ok m \<Longrightarrow> m_ok (m_set k v m)"
proof (induction k v m rule: m_set.induct)
  case (1 k v)
  then show ?case by (simp add: m_ok_def)
next
  case (2 k v k' v' m)
  have *: "\<forall>q \<in> set (m_set k v m). fst q = k \<or> fst q \<in> fst ` set m"
    using keys_m_set [of k v m] by (metis imageI insert_iff)
  show ?case
  proof (cases "k < k' \<or> k = k'")
    case True
    with 2 show ?thesis by (auto simp: m_ok_Cons)
  next
    case False
    with 2 have "m_ok (m_set k v m)" and "k' < k" by (auto simp: m_ok_Cons)
    with 2 * show ?thesis by (force simp: m_ok_Cons)
  qed
qed

lemma m_ok_erase [simp]: "m_ok m \<Longrightarrow> m_ok (m_erase k m)"
  by (simp add: m_ok_def m_erase_def sorted_wrt_map sorted_wrt_filter)

lemma m_ok_distinct: "m_ok m \<Longrightarrow> distinct (map fst m)"
  by (induction m) (auto simp: m_ok_Cons)

lemma m_find_Some_iff: "m_ok m \<Longrightarrow> m_find m k = Some v \<longleftrightarrow> (k, v) \<in> set m"
  by (simp add: m_find_def m_ok_distinct)

lemma m_find_None_iff: "m_find m k = None \<longleftrightarrow> k \<notin> fst ` set m"
  by (simp add: m_find_def map_of_eq_None_iff)

text \<open>Two ordered lists with the same entries are the same list.\<close>

lemma m_ok_ext:
  assumes "m_ok m" "m_ok m'" "\<And>k. m_find m k = m_find m' k"
  shows "m = m'"
proof -
  have set_eq: "set m = set m'"
  proof -
    have "(k, v) \<in> set m \<longleftrightarrow> (k, v) \<in> set m'" for k v
      using assms by (metis m_find_Some_iff)
    then show ?thesis by auto
  qed
  have d: "distinct (map fst m)" "distinct (map fst m')"
    using assms m_ok_distinct by auto
  have s: "sorted (map fst m)" "sorted (map fst m')"
    using assms by (auto simp: m_ok_def intro: sorted_wrt_mono_rel [of _ "(<)"] less_imp_le)
  have keys: "map fst m = map fst m'"
    using sorted_distinct_set_unique [OF s(1) d(1) s(2) d(2)] set_eq by simp
  show ?thesis
  proof (rule nth_equalityI)
    show len: "length m = length m'" using keys by (metis length_map)
    fix i assume i: "i < length m"
    then have f: "fst (m ! i) = fst (m' ! i)"
      using keys len by (metis nth_map)
    have "m ! i \<in> set m'" "m' ! i \<in> set m'" using i len set_eq nth_mem by metis+
    then show "m ! i = m' ! i"
      using f d(2) by (metis eq_key_imp_eq_value prod.collapse)
  qed
qed

interpretation cpp_map: assoc_store "[]" m_set m_erase m_find m_ok
  by unfold_locales auto

lemma m_set_set: "m_ok m \<Longrightarrow> m_set k v (m_set k w m) = m_set k v m"
  by (rule m_ok_ext) auto

lemma m_set_same: "m_ok m \<Longrightarrow> m_find m k = Some v \<Longrightarrow> m_set k v m = m"
  by (rule m_ok_ext) auto

lemma m_erase_fresh: "m_find m k = None \<Longrightarrow> m_erase k m = m"
  unfolding m_erase_def by (rule filter_True) (force simp: m_find_None_iff)

lemma m_erase_set_fresh: "m_ok m \<Longrightarrow> m_find m k = None \<Longrightarrow> m_erase k (m_set k v m) = m"
  by (rule m_ok_ext) auto

lemma m_insert_ok: "m_ok m \<Longrightarrow> m_insert k v m = (b, m') \<Longrightarrow> m_ok m'"
  by (auto simp: m_insert_def split: option.splits)

section \<open>Updating every value\<close>

definition m_map :: "('k \<Rightarrow> 'v \<Rightarrow> 'w) \<Rightarrow> ('k, 'v) cpp_map \<Rightarrow> ('k, 'w) cpp_map" where
  "m_map f m = map (\<lambda>(k, v). (k, f k v)) m"

lemma m_find_map [simp]: "m_find (m_map f m) k = map_option (f k) (m_find m k)"
  by (induction m) (auto simp: m_find_def m_map_def)

lemma keys_m_map [simp]: "map fst (m_map f m) = map fst m"
  by (induction m) (auto simp: m_map_def)

lemma m_ok_map [simp]: "m_ok (m_map f m) = m_ok m"
  by (simp add: m_ok_def)

section \<open>Maps with one entry\<close>

lemma m_find_single [simp]: "m_find [(k, v)] k' = (if k' = k then Some v else None)"
  by (simp add: m_find_def)

lemma m_ok_single [simp]: "m_ok [p]"
  by (simp add: m_ok_def)

lemma m_erase_if_there: "(case m_find m k of None \<Rightarrow> m | Some _ \<Rightarrow> m_erase k m) = m_erase k m"
  by (simp add: m_erase_fresh split: option.splits)

lemma m_find_in: "m_find m k = Some v \<Longrightarrow> (k, v) \<in> set m"
  by (simp add: m_find_def map_of_SomeD)

section \<open>Setting every entry of a map\<close>

lemma m_find_fold_set:
  "m_ok m \<Longrightarrow> m_find (fold (\<lambda>(k, v). m_set k v) m e) k = (case m_find m k of Some v \<Rightarrow> Some v | None \<Rightarrow> m_find e k)"
proof (induction m arbitrary: e)
  case (Cons kv m)
  obtain k' v where kv: "kv = (k', v)" by (cases kv)
  have fresh: "m_find m k' = None"
    using Cons.prems kv by (auto simp: m_ok_Cons m_find_None_iff)
  have m: "m_find (kv # m) k = (if k = k' then Some v else m_find m k)"
    by (simp add: m_find_def kv)
  show ?case
    using Cons.IH [of "m_set k' v e"] Cons.prems fresh m kv
    by (auto simp: m_ok_Cons split: option.splits)
qed simp

lemma m_ok_fold_set: "m_ok e \<Longrightarrow> m_ok (fold (\<lambda>(k, v). m_set k v) m e)"
  by (induction m arbitrary: e) auto

lemma fold_set_self: "m_ok m \<Longrightarrow> fold (\<lambda>(k, v). m_set k v) m [] = m"
  by (rule m_ok_ext) (auto simp: m_ok_fold_set m_find_fold_set split: option.splits)

end
