(* ===== verification/BesInfo.thy ===== *)
theory BesInfo
  imports CppMap CppString CppStream
begin

text \<open>
  The informational responses of the BES: \<^verbatim>\<open>bes/dispatch/BESInfo.cc\<close> (the stack of open tags, the
  buffer, the exception report) and its plain-text implementation \<^verbatim>\<open>BESTextInfo.cc\<close>. The virtual
  functions that the registries call are a record of operations, \<open>info_ops\<close>; the contract of the
  tag stack is the locale \<open>info_sink\<close>, which \<open>BESTextInfo\<close> implements.
\<close>

type_synonym props = "(string, string) cpp_map"

record text_info =
  info_tags :: "string list"
  info_strm :: string
  info_buffered :: bool
  info_response_started :: bool
  info_response_name :: string
  info_indent :: string
  info_ishttp :: bool
  info_header :: bool

section \<open>The base class\<close>

definition new_text_info :: "bool \<Rightarrow> text_info" where
  "new_text_info ishttp =
     \<lparr>info_tags = [], info_strm = [], info_buffered = True, info_response_started = False,
      info_response_name = [], info_indent = [], info_ishttp = ishttp, info_header = False\<rparr>"

text \<open>
  The constructor with a key: \<open>b\<close> is the value of the key, \<open>strm\<close> the text already in the stream
  that was passed (\<open>None\<close> for a null pointer).
\<close>

definition keyed_text_info :: "string \<Rightarrow> string option \<Rightarrow> bool \<Rightarrow> text_info bes_result" where
  "keyed_text_info b strm ishttp =
     (if b \<in> {''true'', ''True'', ''TRUE'', ''yes'', ''Yes'', ''YES''}
      then Inr (new_text_info ishttp)
      else case strm of
             None \<Rightarrow> Inl (BESInternalError ''Informational response not buffered but no stream passed'')
           | Some s \<Rightarrow> Inr ((new_text_info ishttp)\<lparr>info_strm := s, info_buffered := False\<rparr>))"

definition begin_response :: "string \<Rightarrow> text_info \<Rightarrow> text_info" where
  "begin_response response_name i = i\<lparr>info_response_started := True, info_response_name := response_name\<rparr>"

text \<open>The flag is reset before the test, also when the call throws; the model gives the new state to both.\<close>

definition end_response :: "text_info \<Rightarrow> text_info \<times> unit bes_result" where
  "end_response i =
     (i\<lparr>info_response_started := False\<rparr>,
      if info_tags i \<noteq> [] then Inl (BESInternalError ''Not all tags were ended in info response'') else Inr ())"

definition push_tag :: "string \<Rightarrow> text_info \<Rightarrow> text_info" where
  "push_tag tag_name i = i\<lparr>info_tags := tag_name # info_tags i\<rparr>"

definition pop_tag :: "string \<Rightarrow> text_info \<Rightarrow> text_info bes_result" where
  "pop_tag tag_name i =
     (if info_tags i = [] \<or> hd (info_tags i) \<noteq> tag_name
      then Inl (BESInternalError (''tag '' @ tag_name @ '' already ended or not started''))
      else Inr (i\<lparr>info_tags := tl (info_tags i)\<rparr>))"

definition base_add_data :: "string \<Rightarrow> text_info \<Rightarrow> text_info" where
  "base_add_data s i = i\<lparr>info_strm := info_strm i @ s\<rparr>"

definition info_print :: "text_info \<Rightarrow> string" where
  "info_print i = (if info_buffered i then info_strm i else [])"

section \<open>Plain text\<close>

text \<open>\<open>mime\<close> is what \<open>BESUtil::set_mime_text\<close> writes: it depends on the clock.\<close>

definition text_add_data :: "string \<Rightarrow> string \<Rightarrow> text_info \<Rightarrow> text_info" where
  "text_add_data mime s i =
     base_add_data s
       (if info_ishttp i \<and> \<not> info_header i \<and> \<not> info_buffered i
        then i\<lparr>info_strm := info_strm i @ mime, info_header := True\<rparr> else i)"

fun text_attrs :: "string \<Rightarrow> string \<Rightarrow> props \<Rightarrow> text_info \<Rightarrow> text_info" where
  "text_attrs mime ind [] i = i"
| "text_attrs mime ind ((name, val) # attrs) i =
     text_attrs mime ind attrs (text_add_data mime (info_indent i @ ind @ name @ '': '' @ val @ [lf]) i)"

definition text_add_tag :: "string \<Rightarrow> string \<Rightarrow> string \<Rightarrow> props \<Rightarrow> text_info \<Rightarrow> text_info" where
  "text_add_tag mime tag_name tag_data attrs i =
     text_attrs mime ''    '' attrs
       (text_add_data mime (info_indent i @ tag_name @ '': '' @ tag_data @ [lf]) i)"

definition text_begin_tag :: "string \<Rightarrow> string \<Rightarrow> props \<Rightarrow> text_info \<Rightarrow> text_info" where
  "text_begin_tag mime tag_name attrs i =
     (let i1 = push_tag tag_name i;
          i2 = text_add_data mime (info_indent i1 @ tag_name @ [lf]) i1;
          i3 = i2\<lparr>info_indent := info_indent i2 @ ''    ''\<rparr>
      in text_attrs mime [] attrs i3)"

definition text_end_tag :: "string \<Rightarrow> text_info \<Rightarrow> text_info bes_result" where
  "text_end_tag tag_name i =
     rbind (pop_tag tag_name i) (\<lambda>i.
       Inr (if 4 \<le> length (info_indent i)
            then i\<lparr>info_indent := substr (info_indent i) 0 (length (info_indent i) - 4)\<rparr> else i))"

definition text_add_space :: "string \<Rightarrow> nat \<Rightarrow> text_info \<Rightarrow> text_info" where
  "text_add_space mime num_spaces i = text_add_data mime (replicate num_spaces (CHR '' '')) i"

definition text_add_break :: "string \<Rightarrow> nat \<Rightarrow> text_info \<Rightarrow> text_info" where
  "text_add_break mime num_breaks i = text_add_data mime (replicate num_breaks lf) i"

section \<open>The virtual functions\<close>

text \<open>A null pointer for the attributes and an empty map have the same effect: \<open>[]\<close>.\<close>

record 'i info_ops =
  begin_tag_op :: "string \<Rightarrow> props \<Rightarrow> 'i \<Rightarrow> 'i bes_result"
  add_tag_op :: "string \<Rightarrow> string \<Rightarrow> props \<Rightarrow> 'i \<Rightarrow> 'i bes_result"
  end_tag_op :: "string \<Rightarrow> 'i \<Rightarrow> 'i bes_result"

definition text_ops :: "string \<Rightarrow> text_info info_ops" where
  "text_ops mime =
     \<lparr>begin_tag_op = (\<lambda>t p i. Inr (text_begin_tag mime t p i)),
      add_tag_op = (\<lambda>t d p i. Inr (text_add_tag mime t d p i)),
      end_tag_op = text_end_tag\<rparr>"

definition add_exception :: "'i info_ops \<Rightarrow> bes_error \<Rightarrow> string \<Rightarrow> 'i \<Rightarrow> 'i bes_result" where
  "add_exception ops e admin i =
     rbind (begin_tag_op ops ''BESError'' [] i) (\<lambda>i.
     rbind (add_tag_op ops ''Type'' (show_int (get_error_type e)) [] i) (\<lambda>i.
     rbind (add_tag_op ops ''Message'' (get_message e) [] i) (\<lambda>i.
     rbind (add_tag_op ops ''Administrator'' admin [] i) (\<lambda>i.
     end_tag_op ops ''BESError'' i))))"

section \<open>Text from a file\<close>

text \<open>
  \<^verbatim>\<open>ifs.getline(line, 4096)\<close> on the rest of a file: the characters up to a newline, or up to the
  end of the file, or 4095 characters with the fail flag set. A stream that has failed gives an
  empty line, consumes nothing and never reaches the end of the file.
\<close>

datatype getline_result = Line string string | Eof string | Fail string

fun getline :: "nat \<Rightarrow> string \<Rightarrow> getline_result" where
  "getline n [] = Eof []"
| "getline n (c # s) =
     (if c = lf then Line [] s
      else if n = 0 then Fail (c # s)
      else case getline (n - 1) s of
             Line l r \<Rightarrow> Line (c # l) r
           | Eof l \<Rightarrow> Eof (c # l)
           | Fail r \<Rightarrow> Fail r)"

text \<open>
  The copy loop. After a failed read every turn adds an empty line and the loop goes on, so the
  model has no result then.
\<close>

lemma getline_Line: "getline n s = Line l r \<Longrightarrow> s = l @ lf # r"
  by (induction n s arbitrary: l rule: getline.induct)
    (auto split: if_splits getline_result.splits)

function copy_lines :: "(string \<Rightarrow> 'i \<Rightarrow> 'i) \<Rightarrow> string \<Rightarrow> 'i \<Rightarrow> 'i option" where
  "copy_lines add s i =
     (case getline 4095 s of
        Line l r \<Rightarrow> copy_lines add r (add [lf] (add l i))
      | Eof l \<Rightarrow> Some i
      | Fail r \<Rightarrow> None)"
  by pat_completeness auto
termination
  by (relation "measure (\<lambda>(a, s, i). length s)") (auto dest: getline_Line)

declare copy_lines.simps [simp del]

datatype open_result = Opened string | Not_opened string

text \<open>
  \<open>add_data_from_file\<close>: \<open>file\<close> is the value of the key (\<open>None\<close> when the key is not found or the
  lookup throws), \<open>fopen\<close> the file system: the contents, or the text of the error.
\<close>

definition add_data_from_file ::
  "(string \<Rightarrow> 'i \<Rightarrow> 'i) \<Rightarrow> (string \<Rightarrow> string option) \<Rightarrow> (string \<Rightarrow> open_result) \<Rightarrow> string \<Rightarrow> string \<Rightarrow> 'i \<Rightarrow> 'i option" where
  "add_data_from_file add key_value fopen key name i =
     (case key_value key of
        None \<Rightarrow> Some (add (name @ '' file key '' @ key @ '' not found, information not available'' @ [lf]) i)
      | Some file \<Rightarrow>
          (case fopen file of
             Not_opened err \<Rightarrow>
               Some (add (name @ '' file '' @ file @ '' not found, information not available: '' @ err @ [lf]) i)
           | Opened contents \<Rightarrow> copy_lines add contents i))"

definition text_add_data_from_file ::
  "string \<Rightarrow> (string \<Rightarrow> string option) \<Rightarrow> (string \<Rightarrow> open_result) \<Rightarrow> string \<Rightarrow> string \<Rightarrow> text_info \<Rightarrow> text_info option" where
  "text_add_data_from_file mime key_value fopen key name i =
     add_data_from_file (text_add_data mime) key_value fopen (key @ ''.TXT'') name i"

section \<open>The contract of the tags\<close>

text \<open>
  What the writers of responses rely on: opening a tag pushes it, adding a tag leaves the stack as
  it is, closing the innermost tag pops it, and nothing of this throws.
\<close>

locale info_sink =
  fixes ops :: "'i info_ops"
    and tags :: "'i \<Rightarrow> string list"
    and inv :: "'i \<Rightarrow> bool"
  assumes begin_law: "inv i \<Longrightarrow> \<exists>i'. begin_tag_op ops t p i = Inr i' \<and> inv i' \<and> tags i' = t # tags i"
    and add_law: "inv i \<Longrightarrow> \<exists>i'. add_tag_op ops t d p i = Inr i' \<and> inv i' \<and> tags i' = tags i"
    and end_law: "inv i \<Longrightarrow> tags i = t # ts \<Longrightarrow> \<exists>i'. end_tag_op ops t i = Inr i' \<and> inv i' \<and> tags i' = ts"
begin

definition balanced :: "('i \<Rightarrow> 'i bes_result) \<Rightarrow> bool" where
  "balanced f = (\<forall>i. inv i \<longrightarrow> (\<exists>i'. f i = Inr i' \<and> inv i' \<and> tags i' = tags i))"

lemma balancedE:
  assumes "balanced f" "inv i"
  obtains i' where "f i = Inr i'" "inv i'" "tags i' = tags i"
  using assms by (auto simp: balanced_def)

lemma balanced_skip [intro]: "balanced Inr"
  by (auto simp: balanced_def)

lemma balanced_add [intro]: "balanced (add_tag_op ops t d p)"
  using add_law by (auto simp: balanced_def)

lemma balanced_seq [intro]: "balanced f \<Longrightarrow> balanced g \<Longrightarrow> balanced (\<lambda>i. rbind (f i) g)"
  unfolding balanced_def by (metis rbind.simps(2))

lemma balanced_each [intro]: "(\<And>x. x \<in> set xs \<Longrightarrow> balanced (f x)) \<Longrightarrow> balanced (each f xs)"
proof (induction xs)
  case Nil
  then show ?case by (simp add: balanced_def)
next
  case (Cons x xs)
  then have "balanced (\<lambda>i. rbind (f x i) (each f xs))" by (intro balanced_seq) auto
  then show ?case by (simp add: balanced_def)
qed

lemma balanced_element [intro]:
  assumes "balanced body"
  shows "balanced (\<lambda>i. rbind (begin_tag_op ops t p i) (\<lambda>i. rbind (body i) (end_tag_op ops t)))"
  unfolding balanced_def
proof (intro allI impI)
  fix i assume "inv i"
  obtain i1 where 1: "begin_tag_op ops t p i = Inr i1" "inv i1" "tags i1 = t # tags i"
    using begin_law [OF \<open>inv i\<close>] by blast
  obtain i2 where 2: "body i1 = Inr i2" "inv i2" "tags i2 = tags i1"
    by (rule balancedE [OF assms 1(2)])
  obtain i3 where "end_tag_op ops t i2 = Inr i3" "inv i3" "tags i3 = tags i"
    using end_law [OF 2(2), of t "tags i"] 1 2 by auto
  with 1 2 show "\<exists>i'. rbind (begin_tag_op ops t p i) (\<lambda>i. rbind (body i) (end_tag_op ops t)) = Inr i'
      \<and> inv i' \<and> tags i' = tags i" by simp
qed

lemma balanced_exception: "balanced (add_exception ops e admin)"
proof -
  have "balanced (\<lambda>i. rbind (begin_tag_op ops ''BESError'' [] i) (\<lambda>i. rbind (each (\<lambda>(t, d). add_tag_op ops t d [])
      [(''Type'', show_int (get_error_type e)), (''Message'', get_message e), (''Administrator'', admin)] i)
      (end_tag_op ops ''BESError'')))"
    by (rule balanced_element, rule balanced_each) auto
  moreover have "(\<lambda>i. rbind (begin_tag_op ops ''BESError'' [] i) (\<lambda>i. rbind (each (\<lambda>(t, d). add_tag_op ops t d [])
      [(''Type'', show_int (get_error_type e)), (''Message'', get_message e), (''Administrator'', admin)] i)
      (end_tag_op ops ''BESError''))) = add_exception ops e admin"
  proof -
    have a: "rbind (rbind r f) g = rbind r (\<lambda>x. rbind (f x) g)"
      for r :: "bes_error + 'i" and f g :: "'i \<Rightarrow> bes_error + 'i" by (cases r) auto
    have r: "rbind r Inr = r" for r :: "bes_error + 'i" by (cases r) auto
    show ?thesis by (rule ext) (simp add: add_exception_def a r)
  qed
  ultimately show ?thesis by simp
qed

end

text \<open>
  The plain-text response implements it. Its invariant ties the indentation to the stack: four
  blanks for each open tag, so that closing a tag takes away what opening it added.
\<close>

definition text_inv :: "text_info \<Rightarrow> bool" where
  "text_inv i = (info_indent i = replicate (4 * length (info_tags i)) (CHR '' ''))"

lemma text_add_data_fields [simp]:
  "info_tags (text_add_data mime s i) = info_tags i" "info_indent (text_add_data mime s i) = info_indent i"
  "info_response_started (text_add_data mime s i) = info_response_started i"
  by (simp_all add: text_add_data_def base_add_data_def)

lemma text_attrs_fields [simp]:
  "info_tags (text_attrs mime ind p i) = info_tags i" "info_indent (text_attrs mime ind p i) = info_indent i"
  by (induction mime ind p i rule: text_attrs.induct) simp_all

lemma push_tag_fields [simp]:
  "info_tags (push_tag t i) = t # info_tags i" "info_indent (push_tag t i) = info_indent i"
  by (simp_all add: push_tag_def)

lemma text_begin_tag_fields [simp]:
  "info_tags (text_begin_tag mime t p i) = t # info_tags i"
  "info_indent (text_begin_tag mime t p i) = info_indent i @ ''    ''"
  by (simp_all add: text_begin_tag_def Let_def)

lemma four_blanks: "replicate n (CHR '' '') @ ''    '' = replicate (4 + n) (CHR '' '')"
proof -
  have "''    '' = replicate 4 (CHR '' '')" by (simp add: numeral_eq_Suc)
  then show ?thesis by (simp only: replicate_add [symmetric] add.commute)
qed

interpretation plain: info_sink "text_ops mime" info_tags text_inv for mime
proof
  fix i t p d ts
  assume inv: "text_inv i"
  show "\<exists>i'. begin_tag_op (text_ops mime) t p i = Inr i' \<and> text_inv i' \<and> info_tags i' = t # info_tags i"
    using inv by (simp add: text_ops_def text_inv_def four_blanks)
  show "\<exists>i'. add_tag_op (text_ops mime) t d p i = Inr i' \<and> text_inv i' \<and> info_tags i' = info_tags i"
    using inv by (simp add: text_ops_def text_inv_def text_add_tag_def)
  show "\<exists>i'. end_tag_op (text_ops mime) t i = Inr i' \<and> text_inv i' \<and> info_tags i' = ts"
    if "info_tags i = t # ts"
    using inv that by (auto simp: text_ops_def text_inv_def text_end_tag_def pop_tag_def substr_def)
qed

section \<open>Properties\<close>

text \<open>
  Reporting an exception in a plain-text response never throws and leaves no tag open, whatever
  tags were open before; afterwards \<open>end_response\<close> accepts the response if and only if no other
  tag is open.
\<close>

theorem text_exception_report:
  assumes "text_inv i"
  shows "\<exists>i'. add_exception (text_ops mime) e admin i = Inr i' \<and> info_tags i' = info_tags i \<and>
     info_indent i' = info_indent i \<and>
     (snd (end_response i') = Inr () \<longleftrightarrow> info_tags i = [])"
proof -
  obtain i' where i': "add_exception (text_ops mime) e admin i = Inr i'" "text_inv i'" "info_tags i' = info_tags i"
    by (rule plain.balancedE [OF plain.balanced_exception assms])
  then have "info_indent i' = info_indent i" using assms by (simp add: text_inv_def)
  with i' show ?thesis by (auto simp: end_response_def)
qed

theorem text_exception_report_witness:
  "\<exists>i'. add_exception (text_ops []) (BESNotFoundError ''gone'') ''me'' (new_text_info False) = Inr i' \<and>
     info_tags i' = info_tags (new_text_info False) \<and> info_indent i' = info_indent (new_text_info False) \<and>
     (snd (end_response i') = Inr () \<longleftrightarrow> info_tags (new_text_info False) = [])"
  by (rule text_exception_report) (simp add: text_inv_def new_text_info_def)

lemma getline_here: "lf \<notin> set l \<Longrightarrow> length l \<le> n \<Longrightarrow> getline n (l @ lf # r) = Line l r"
  by (induction l arbitrary: n) (auto simp: Suc_le_eq)

lemma getline_eof: "lf \<notin> set l \<Longrightarrow> length l \<le> n \<Longrightarrow> getline n l = Eof l"
  by (induction l arbitrary: n) (auto simp: Suc_le_eq)

lemma getline_long: "lf \<notin> set l \<Longrightarrow> n < length l \<Longrightarrow> \<exists>x. getline n (l @ r) = Fail x"
proof (induction l arbitrary: n)
  case (Cons c l)
  show ?case
  proof (cases n)
    case (Suc m)
    with Cons obtain x where "getline m (l @ r) = Fail x" by fastforce
    with Suc Cons show ?thesis by auto
  qed (use Cons in auto)
qed simp

lemma copy_lines_all:
  assumes "\<forall>l \<in> set ls. lf \<notin> set l \<and> length l \<le> 4095" "lf \<notin> set tail" "length tail \<le> 4095"
  shows "copy_lines (text_add_data mime) (concat (map (\<lambda>l. l @ [lf]) ls) @ tail) i
         = Some (fold (\<lambda>l i. text_add_data mime [lf] (text_add_data mime l i)) ls i)"
  using assms(1)
proof (induction ls arbitrary: i)
  case Nil
  then show ?case using getline_eof [OF assms(2,3)] by (subst copy_lines.simps) simp
next
  case (Cons l ls)
  then have "getline 4095 (l @ lf # concat (map (\<lambda>l. l @ [lf]) ls) @ tail)
      = Line l (concat (map (\<lambda>l. l @ [lf]) ls) @ tail)"
    by (intro getline_here) auto
  then show ?case using Cons by (subst copy_lines.simps) simp
qed

text \<open>
  A file whose lines have at most 4095 characters is copied line by line, but text after the
  last newline is left out; a longer line makes the copy loop run forever.
\<close>

theorem file_text_copied:
  "((\<forall>l \<in> set ls. lf \<notin> set l \<and> length l \<le> 4095) \<and> lf \<notin> set tail \<and> length tail \<le> 4095 \<longrightarrow>
      copy_lines (text_add_data mime) (concat (map (\<lambda>l. l @ [lf]) ls) @ tail) i
      = Some (fold (\<lambda>l i. text_add_data mime [lf] (text_add_data mime l i)) ls i)) \<and>
   (lf \<notin> set long \<and> 4095 < length long \<longrightarrow> copy_lines (text_add_data mime) (long @ rest) i = None)"
  using copy_lines_all [of ls tail mime i] getline_long [of long 4095 rest]
  by (auto simp: copy_lines.simps [of _ "long @ rest"])

theorem file_text_copied_witness:
  "copy_lines (text_add_data []) (''a'' @ [lf] @ ''b'') (new_text_info False)
   = Some (text_add_data [] [lf] (text_add_data [] ''a'' (new_text_info False))) \<and>
   copy_lines (text_add_data []) (replicate 4096 (CHR ''x'') @ []) (new_text_info False) = None"
  using file_text_copied [of "[''a'']" "''b''" "[]" "new_text_info False" "replicate 4096 (CHR ''x'')" "[]"]
  by simp

end
