(* ===== verification/Registries.thy ===== *)
theory Registries
  imports BesInfo
begin

text \<open>
  The registries of \<^verbatim>\<open>bes/dispatch\<close>: request handlers and their methods (\<^verbatim>\<open>BESRequestHandler.cc\<close>,
  \<^verbatim>\<open>BESRequestHandlerList.cc\<close>), response handlers (\<^verbatim>\<open>BESResponseHandlerList.cc\<close>), reporters
  (\<^verbatim>\<open>BESReporterList.cc\<close>), transmitters (\<^verbatim>\<open>BESReturnManager.cc\<close>), builders of informational
  responses (\<^verbatim>\<open>BESInfoList.cc\<close>), stored definitions (\<^verbatim>\<open>BESDefinitionStorageVolatile.cc\<close>) and the
  context (\<^verbatim>\<open>BESContextManager.cc\<close>). All but the last share one contract, the locale \<open>registry\<close>: a
  name is bound by the first registration and stays bound until it is removed.

  A pointer that may be null is an \<open>option\<close>. The registries that look a name up through their
  \<open>find\<close> function take a null entry for an absent one; those that test the iterator do not.
\<close>

section \<open>The contract of a registry\<close>

datatype 'h reg_op = Add string 'h | Remove string

fun op_name :: "'h reg_op \<Rightarrow> string" where
  "op_name (Add n h) = n"
| "op_name (Remove n) = n"

locale registry =
  fixes add :: "string \<Rightarrow> 'h \<Rightarrow> 's \<Rightarrow> bool \<times> 's"
    and del :: "string \<Rightarrow> 's \<Rightarrow> 's"
    and look :: "'s \<Rightarrow> string \<Rightarrow> 'h option"
    and inv :: "'s \<Rightarrow> bool"
  assumes add_result: "inv s \<Longrightarrow> fst (add n h s) = (look s n = None)"
    and look_add: "inv s \<Longrightarrow> look (snd (add n h s)) k = (if k = n \<and> look s n = None then Some h else look s k)"
    and look_del: "inv s \<Longrightarrow> look (del n s) k = (if k = n then None else look s k)"
    and inv_add: "inv s \<Longrightarrow> inv (snd (add n h s))"
    and inv_del: "inv s \<Longrightarrow> inv (del n s)"
begin

lemmas registry_laws = add_result look_add look_del inv_add inv_del

fun step :: "'h reg_op \<Rightarrow> 's \<Rightarrow> 's" where
  "step (Add n h) s = snd (add n h s)"
| "step (Remove n) s = del n s"

fun answers :: "'h reg_op list \<Rightarrow> 's \<Rightarrow> bool list" where
  "answers [] s = []"
| "answers (Add n h # ops) s = fst (add n h s) # answers ops (step (Add n h) s)"
| "answers (Remove n # ops) s = (look s n \<noteq> None) # answers ops (step (Remove n) s)"

lemma inv_step: "inv s \<Longrightarrow> inv (step p s)"
  by (cases p) (simp_all add: registry_laws)

lemma inv_run: "inv s \<Longrightarrow> inv (fold step ops s)"
  by (induction ops arbitrary: s) (auto intro: inv_step)

lemma other_name: "inv s \<Longrightarrow> op_name p \<noteq> n \<Longrightarrow> look (step p s) n = look s n"
  by (cases p) (simp_all add: registry_laws)

text \<open>A bound name keeps its object as long as it is not removed.\<close>

lemma bound_stays:
  assumes "inv s" "look s n = Some h" "Remove n \<notin> set ops"
  shows "look (fold step ops s) n = Some h"
  using assms
proof (induction ops arbitrary: s)
  case (Cons p ops)
  have "look (step p s) n = Some h"
    using Cons.prems by (cases p) (auto simp: registry_laws)
  with Cons show ?case by (auto intro: inv_step)
qed simp

text \<open>An unbound name takes the object of the first registration.\<close>

fun first_added :: "string \<Rightarrow> 'h reg_op list \<Rightarrow> 'h option" where
  "first_added n [] = None"
| "first_added n (Add k h # ops) = (if k = n then Some h else first_added n ops)"
| "first_added n (Remove k # ops) = first_added n ops"

lemma first_wins:
  assumes "inv s" "Remove n \<notin> set ops"
  shows "look (fold step ops s) n = (case look s n of Some h \<Rightarrow> Some h | None \<Rightarrow> first_added n ops)"
  using assms
proof (induction ops arbitrary: s)
  case Nil
  then show ?case by (simp split: option.splits)
next
  case (Cons p ops)
  note IH = Cons.IH [OF inv_step [OF Cons.prems(1), of p]]
  show ?case
  proof (cases p)
    case (Add k h)
    then show ?thesis using IH Cons.prems by (auto simp: registry_laws split: option.splits)
  next
    case (Remove k)
    then show ?thesis using IH Cons.prems by (auto simp: registry_laws split: option.splits)
  qed
qed

text \<open>The registry refines a partial function that keeps the first binding of a name.\<close>

fun spec_step :: "'h reg_op \<Rightarrow> (string \<Rightarrow> 'h option) \<Rightarrow> (string \<Rightarrow> 'h option)" where
  "spec_step (Add n h) m = (if m n = None then m(n \<mapsto> h) else m)"
| "spec_step (Remove n) m = m(n := None)"

lemma refines: "inv s \<Longrightarrow> look (fold step ops s) = fold spec_step ops (look s)"
proof (induction ops arbitrary: s)
  case (Cons p ops)
  have "look (step p s) = spec_step p (look s)"
    using Cons.prems by (cases p) (auto simp: registry_laws)
  with Cons show ?case by (simp add: inv_step)
qed simp

end

section \<open>Names in a list\<close>

text \<open>The loop of the \<open>get_handler_names\<close> functions.\<close>

fun names_loop :: "(string, 'v) cpp_map \<Rightarrow> bool \<Rightarrow> string \<Rightarrow> string" where
  "names_loop [] first_name ret = ret"
| "names_loop ((n, v) # m) first_name ret =
     names_loop m False ((if first_name then ret else ret @ '', '') @ n)"

section \<open>Request handlers\<close>

text \<open>
  \<open>'m\<close> is the type of the methods, \<open>p_request_handler\<close>; a null function pointer is \<open>None\<close>.
\<close>

record 'm request_handler =
  rh_name :: string
  rh_handler_list :: "(string, 'm option) cpp_map"

definition rh_find_handler :: "string \<Rightarrow> 'm request_handler \<Rightarrow> 'm option" where
  "rh_find_handler handler_name rh =
     (case m_find (rh_handler_list rh) handler_name of Some p \<Rightarrow> p | None \<Rightarrow> None)"

definition rh_add_handler :: "string \<Rightarrow> 'm option \<Rightarrow> 'm request_handler \<Rightarrow> bool \<times> 'm request_handler" where
  "rh_add_handler handler_name handler_method rh =
     (if rh_find_handler handler_name rh = None
      then (True, rh\<lparr>rh_handler_list := m_set handler_name handler_method (rh_handler_list rh)\<rparr>)
      else (False, rh))"

definition rh_remove_handler :: "string \<Rightarrow> 'm request_handler \<Rightarrow> bool \<times> 'm request_handler" where
  "rh_remove_handler handler_name rh =
     (case m_find (rh_handler_list rh) handler_name of
        Some _ \<Rightarrow> (True, rh\<lparr>rh_handler_list := m_erase handler_name (rh_handler_list rh)\<rparr>)
      | None \<Rightarrow> (False, rh))"

definition rh_get_handler_names :: "'m request_handler \<Rightarrow> string" where
  "rh_get_handler_names rh = names_loop (rh_handler_list rh) True []"

section \<open>The list of request handlers\<close>

type_synonym 'm request_handler_list = "(string, 'm request_handler option) cpp_map"

definition rhl_find_handler :: "string \<Rightarrow> 'm request_handler_list \<Rightarrow> 'm request_handler option" where
  "rhl_find_handler handler_name l =
     (case m_find l handler_name of Some p \<Rightarrow> p | None \<Rightarrow> None)"

definition rhl_add_handler ::
  "string \<Rightarrow> 'm request_handler option \<Rightarrow> 'm request_handler_list \<Rightarrow> bool \<times> 'm request_handler_list" where
  "rhl_add_handler handler_name handler_object l =
     (if rhl_find_handler handler_name l = None
      then (True, m_set handler_name handler_object l) else (False, l))"

definition rhl_remove_handler ::
  "string \<Rightarrow> 'm request_handler_list \<Rightarrow> 'm request_handler option \<times> 'm request_handler_list" where
  "rhl_remove_handler handler_name l =
     (case m_find l handler_name of
        Some p \<Rightarrow> (p, m_erase handler_name l)
      | None \<Rightarrow> (None, l))"

definition rhl_get_handler_names :: "'m request_handler_list \<Rightarrow> string" where
  "rhl_get_handler_names l = names_loop l True []"

section \<open>The request and its containers\<close>

text \<open>
  \<^verbatim>\<open>BESDataHandlerInterface.h\<close>. Containers are objects in a store that are referred to by their
  addresses; the iterator of the list is a position in it.
\<close>

record bes_container =
  symbolic_name :: string
  real_name :: string
  container_type :: string
  constraint :: string
  attributes :: string

type_synonym addr = nat
type_synonym store = "addr \<Rightarrow> bes_container"

record dhi =
  containers :: "addr list"
  containers_iterator :: nat
  container :: "addr option"
  objects :: store
  action :: string
  action_name :: string
  executed :: bool
  transmit_protocol :: string
  dhi_data :: props

definition first_container :: "'a dhi_scheme \<Rightarrow> 'a dhi_scheme" where
  "first_container d =
     d\<lparr>containers_iterator := 0,
       container := if 0 < length (containers d) then Some (containers d ! 0) else None\<rparr>"

definition next_container :: "'a dhi_scheme \<Rightarrow> 'a dhi_scheme" where
  "next_container d =
     (let i = containers_iterator d + 1
      in d\<lparr>containers_iterator := i,
           container := if i < length (containers d) then Some (containers d ! i) else None\<rparr>)"

section \<open>Calling the request handlers\<close>

text \<open>
  A method gets the request and returns it changed, or throws. \<open>access\<close> is the virtual
  \<open>BESContainer::access\<close>; it may change the container.
\<close>

type_synonym 'a rh_method = "'a dhi_scheme \<Rightarrow> 'a dhi_scheme bes_result"
type_synonym access_fun = "addr \<Rightarrow> store \<Rightarrow> store bes_result"

definition add_name :: "string \<Rightarrow> string \<Rightarrow> string" where
  "add_name c_list n = (if c_list \<noteq> [] then c_list @ '', '' else c_list) @ n"

definition record_name :: "'a dhi_scheme \<Rightarrow> 'a dhi_scheme" where
  "record_name d =
     (case container d of
        None \<Rightarrow> d
      | Some c \<Rightarrow>
          (let (c_list, data) = m_index [] ''real_name_list'' (dhi_data d)
           in d\<lparr>dhi_data := m_set ''real_name_list'' (add_name c_list (real_name (objects d c))) data\<rparr>))"

definition pick_method :: "string \<Rightarrow> 'm request_handler \<Rightarrow> 'm option" where
  "pick_method act rh =
     (case rh_find_handler act rh of
        Some p \<Rightarrow> Some p
      | None \<Rightarrow> rh_find_handler ''catch_all'' rh)"

definition execute_current ::
  "'a rh_method request_handler_list \<Rightarrow> access_fun \<Rightarrow> 'a dhi_scheme \<Rightarrow> 'a dhi_scheme bes_result" where
  "execute_current l access d =
     (case container d of
        None \<Rightarrow> Inr d
      | Some c \<Rightarrow>
          rbind (access c (objects d)) (\<lambda>objs.
            let d = d\<lparr>objects := objs\<rparr>; ctype = container_type (objs c)
            in case rhl_find_handler (c_str ctype) l of
                 None \<Rightarrow> Inl (BESInternalError (''The data handler '' @ [dquote] @ ctype @ [dquote] @ '' does not exist''))
               | Some rh \<Rightarrow>
                   (case pick_method (action d) rh of
                      None \<Rightarrow> Inl (BESInternalError (''Request handler '' @ [dquote] @ ctype @ [dquote]
                         @ '' does not handle the response type '' @ [dquote] @ action d @ [dquote]))
                    | Some p \<Rightarrow> rbind (p d) (\<lambda>d. Inr (record_name d)))))"

text \<open>The loop ends when there is no current container; a method may move the iterator.\<close>

partial_function (option) each_loop ::
  "'a rh_method request_handler_list \<Rightarrow> access_fun \<Rightarrow> 'a dhi_scheme \<Rightarrow> 'a dhi_scheme bes_result option" where
  "each_loop l access d =
     (if container d = None then Some (Inr d)
      else case execute_current l access d of
             Inl e \<Rightarrow> Some (Inl e)
           | Inr d' \<Rightarrow> each_loop l access (next_container d'))"

definition execute_each ::
  "'a rh_method request_handler_list \<Rightarrow> access_fun \<Rightarrow> 'a dhi_scheme \<Rightarrow> 'a dhi_scheme bes_result option" where
  "execute_each l access d = each_loop l access (first_container d)"

definition execute_once ::
  "'a rh_method request_handler_list \<Rightarrow> access_fun \<Rightarrow> 'a dhi_scheme \<Rightarrow> 'a dhi_scheme bes_result" where
  "execute_once l access d = execute_current l access (first_container d)"

text \<open>Every handler with a method for the action is called; a null handler object is dereferenced.\<close>

definition execute_all :: "'a rh_method request_handler_list \<Rightarrow> 'a dhi_scheme \<Rightarrow> 'a dhi_scheme bes_result" where
  "execute_all l d =
     each (\<lambda>(n, rh) d. case rh_find_handler (action d) (the rh) of Some p \<Rightarrow> p d | None \<Rightarrow> Inr d) l d"

section \<open>Response handlers\<close>

text \<open>\<open>'b\<close> is the builder, \<open>p_response_handler\<close>, and \<open>build\<close> its call with the name.\<close>

type_synonym 'b response_handler_list = "(string, 'b option) cpp_map"

definition rsl_add_handler :: "string \<Rightarrow> 'b option \<Rightarrow> 'b response_handler_list \<Rightarrow> bool \<times> 'b response_handler_list" where
  "rsl_add_handler handler_name handler_method l =
     (case m_find l handler_name of
        None \<Rightarrow> (True, m_set handler_name handler_method l)
      | Some _ \<Rightarrow> (False, l))"

definition rsl_remove_handler :: "string \<Rightarrow> 'b response_handler_list \<Rightarrow> bool \<times> 'b response_handler_list" where
  "rsl_remove_handler handler_name l =
     (case m_find l handler_name of
        Some _ \<Rightarrow> (True, m_erase handler_name l)
      | None \<Rightarrow> (False, l))"

definition rsl_find_handler :: "('b \<Rightarrow> string \<Rightarrow> 'r) \<Rightarrow> string \<Rightarrow> 'b response_handler_list \<Rightarrow> 'r option" where
  "rsl_find_handler build handler_name l =
     (case m_find l handler_name of
        Some (Some p) \<Rightarrow> Some (build p handler_name)
      | _ \<Rightarrow> None)"

definition rsl_get_handler_names :: "'b response_handler_list \<Rightarrow> string" where
  "rsl_get_handler_names l = names_loop l True []"

section \<open>Reporters, transmitters, builders of responses\<close>

type_synonym 'r reporter_list = "(string, 'r option) cpp_map"

definition find_reporter :: "string \<Rightarrow> 'r reporter_list \<Rightarrow> 'r option" where
  "find_reporter reporter_name l = (case m_find l reporter_name of Some p \<Rightarrow> p | None \<Rightarrow> None)"

definition add_reporter :: "string \<Rightarrow> 'r option \<Rightarrow> 'r reporter_list \<Rightarrow> bool \<times> 'r reporter_list" where
  "add_reporter reporter_name reporter_object l =
     (if find_reporter reporter_name l = None
      then (True, m_set reporter_name reporter_object l) else (False, l))"

definition remove_reporter :: "string \<Rightarrow> 'r reporter_list \<Rightarrow> 'r option \<times> 'r reporter_list" where
  "remove_reporter reporter_name l =
     (case m_find l reporter_name of
        Some p \<Rightarrow> (p, m_erase reporter_name l)
      | None \<Rightarrow> (None, l))"

text \<open>\<open>call r\<close> is the virtual function \<open>report\<close> of the reporter \<open>r\<close>.\<close>

definition reporters_report :: "('r \<Rightarrow> 'd \<Rightarrow> 'd bes_result) \<Rightarrow> 'r reporter_list \<Rightarrow> 'd \<Rightarrow> 'd bes_result" where
  "reporters_report call l d = each (\<lambda>(n, p) d. case p of Some r \<Rightarrow> call r d | None \<Rightarrow> Inr d) l d"

type_synonym 't transmitter_list = "(string, 't option) cpp_map"

definition find_transmitter :: "string \<Rightarrow> 't transmitter_list \<Rightarrow> 't option" where
  "find_transmitter name l = (case m_find l name of Some p \<Rightarrow> p | None \<Rightarrow> None)"

definition add_transmitter :: "string \<Rightarrow> 't option \<Rightarrow> 't transmitter_list \<Rightarrow> bool \<times> 't transmitter_list" where
  "add_transmitter name transmitter l =
     (if find_transmitter name l = None then (True, m_set name transmitter l) else (False, l))"

text \<open>\<open>del_transmitter\<close> also frees the object: it is the second component of the result.\<close>

definition del_transmitter :: "string \<Rightarrow> 't transmitter_list \<Rightarrow> bool \<times> 't option \<times> 't transmitter_list" where
  "del_transmitter name l =
     (case m_find l name of
        Some obj \<Rightarrow> (True, obj, m_erase name l)
      | None \<Rightarrow> (False, None, l))"

type_synonym 'b info_list = "(string, 'b option) cpp_map"

definition add_info_builder :: "string \<Rightarrow> 'b option \<Rightarrow> 'b info_list \<Rightarrow> bool \<times> 'b info_list" where
  "add_info_builder info_type info_builder l =
     (case m_find l info_type of
        None \<Rightarrow> (True, m_set info_type info_builder l)
      | Some _ \<Rightarrow> (False, l))"

definition rem_info_builder :: "string \<Rightarrow> 'b info_list \<Rightarrow> bool \<times> 'b info_list" where
  "rem_info_builder info_type l =
     (case m_find l info_type of
        Some _ \<Rightarrow> (True, m_erase info_type l)
      | None \<Rightarrow> (False, l))"

text \<open>\<open>key\<close> is the value of \<^verbatim>\<open>BES.Info.Type\<close>, \<open>None\<close> when it is not found; the default is \<^verbatim>\<open>txt\<close>.\<close>

definition build_info :: "('b \<Rightarrow> string \<Rightarrow> 'i) \<Rightarrow> string option \<Rightarrow> 'b info_list \<Rightarrow> 'i option" where
  "build_info build key l =
     (let info_type = (case key of Some t \<Rightarrow> if t = '''' then ''txt'' else t | None \<Rightarrow> ''txt'')
      in case m_find l info_type of
           Some (Some p) \<Rightarrow> Some (build p info_type)
         | _ \<Rightarrow> None)"

section \<open>Stored definitions\<close>

record bes_define =
  def_containers :: "bes_container list"
  agg_cmd :: string
  agg_handler :: string

type_synonym definition_list = "(string, bes_define option) cpp_map"

definition def_look_for :: "string \<Rightarrow> definition_list \<Rightarrow> bes_define option" where
  "def_look_for def_name l = (case m_find l def_name of Some p \<Rightarrow> p | None \<Rightarrow> None)"

definition add_definition :: "string \<Rightarrow> bes_define option \<Rightarrow> definition_list \<Rightarrow> bool \<times> definition_list" where
  "add_definition def_name d l =
     (if def_look_for def_name l = None then (True, m_set def_name d l) else (False, l))"

definition del_definition :: "string \<Rightarrow> definition_list \<Rightarrow> bool \<times> definition_list" where
  "del_definition def_name l =
     (case m_find l def_name of
        Some d \<Rightarrow> (True, m_erase def_name l)
      | None \<Rightarrow> (False, l))"

text \<open>Every turn erases the first entry; the objects that are freed, in order, come with the result.\<close>

fun del_definitions_loop :: "definition_list \<Rightarrow> bes_define list \<Rightarrow> bes_define list \<times> definition_list" where
  "del_definitions_loop [] freed = (freed, [])"
| "del_definitions_loop ((n, d) # l) freed =
     del_definitions_loop l (case d of Some x \<Rightarrow> freed @ [x] | None \<Rightarrow> freed)"

definition del_definitions :: "definition_list \<Rightarrow> bool \<times> bes_define list \<times> definition_list" where
  "del_definitions l = (True, del_definitions_loop l [])"

definition container_props :: "bes_container \<Rightarrow> props" where
  "container_props c =
     (let p = m_set ''name'' (symbolic_name c) [];
          p = m_set ''type'' (container_type c) p;
          p = (if constraint c \<noteq> [] then m_set ''constraint'' (constraint c) p else p)
      in if attributes c \<noteq> [] then m_set ''attributes'' (attributes c) p else p)"

definition show_definition :: "'i info_ops \<Rightarrow> string \<Rightarrow> bes_define \<Rightarrow> 'i \<Rightarrow> 'i bes_result" where
  "show_definition ops def_name d i =
     rbind (begin_tag_op ops ''definition'' [(''name'', def_name)] i) (\<lambda>i.
     rbind (rbind (each (\<lambda>c. add_tag_op ops ''container'' (real_name c) (container_props c)) (def_containers d) i)
        (\<lambda>i. if agg_handler d \<noteq> [] then add_tag_op ops ''aggregation'' (agg_cmd d) [(''handler'', agg_handler d)] i
             else Inr i))
     (end_tag_op ops ''definition''))"

definition show_definitions :: "'i info_ops \<Rightarrow> definition_list \<Rightarrow> 'i \<Rightarrow> 'i bes_result" where
  "show_definitions ops l = each (\<lambda>(n, d). show_definition ops n (the d)) l"

section \<open>The context\<close>

type_synonym context_list = "(string, string) cpp_map"

definition set_context :: "string \<Rightarrow> string \<Rightarrow> context_list \<Rightarrow> context_list" where
  "set_context name value l = m_set name value l"

definition get_context :: "string \<Rightarrow> context_list \<Rightarrow> string \<times> bool" where
  "get_context name l = (case m_find l name of Some v \<Rightarrow> (v, True) | None \<Rightarrow> ([], False))"

definition list_context :: "'i info_ops \<Rightarrow> context_list \<Rightarrow> 'i \<Rightarrow> 'i bes_result" where
  "list_context ops l = each (\<lambda>(name, value). add_tag_op ops ''context'' value [(''name'', name)]) l"

section \<open>The registries keep the contract\<close>

interpretation rh: registry "\<lambda>n h. rh_add_handler n (Some h)" "\<lambda>n rh. snd (rh_remove_handler n rh)"
    "\<lambda>rh n. rh_find_handler n rh" "\<lambda>rh. m_ok (rh_handler_list rh)"
  by unfold_locales
    (auto simp: rh_add_handler_def rh_remove_handler_def rh_find_handler_def split: option.splits)

interpretation rhl: registry "\<lambda>n h. rhl_add_handler n (Some h)" "\<lambda>n l. snd (rhl_remove_handler n l)"
    "\<lambda>l n. rhl_find_handler n l" m_ok
  by unfold_locales
    (auto simp: rhl_add_handler_def rhl_remove_handler_def rhl_find_handler_def split: option.splits)

interpretation rsl: registry rsl_add_handler "\<lambda>n l. snd (rsl_remove_handler n l)" m_find m_ok
  by unfold_locales (auto simp: rsl_add_handler_def rsl_remove_handler_def split: option.splits)

interpretation rep: registry "\<lambda>n h. add_reporter n (Some h)" "\<lambda>n l. snd (remove_reporter n l)"
    "\<lambda>l n. find_reporter n l" m_ok
  by unfold_locales (auto simp: add_reporter_def remove_reporter_def find_reporter_def split: option.splits)

interpretation transmit: registry "\<lambda>n h. add_transmitter n (Some h)" "\<lambda>n l. snd (snd (del_transmitter n l))"
    "\<lambda>l n. find_transmitter n l" m_ok
  by unfold_locales (auto simp: add_transmitter_def del_transmitter_def find_transmitter_def split: option.splits)

interpretation il: registry add_info_builder "\<lambda>n l. snd (rem_info_builder n l)" m_find m_ok
  by unfold_locales (auto simp: add_info_builder_def rem_info_builder_def split: option.splits)

interpretation defs: registry "\<lambda>n h. add_definition n (Some h)" "\<lambda>n l. snd (del_definition n l)"
    "\<lambda>l n. def_look_for n l" m_ok
  by unfold_locales (auto simp: add_definition_def del_definition_def def_look_for_def split: option.splits)

section \<open>Runs of registrations\<close>

text \<open>The abstract registry: a partial function from names to objects that keeps the first binding.\<close>

fun reg_spec :: "'h reg_op \<Rightarrow> (string \<Rightarrow> 'h option) \<Rightarrow> (string \<Rightarrow> 'h option)" where
  "reg_spec (Add n h) m = (if m n = None then m(n \<mapsto> h) else m)"
| "reg_spec (Remove n) m = m(n := None)"

fun rhl_op :: "'m request_handler reg_op \<Rightarrow> 'm request_handler_list \<Rightarrow> 'm request_handler_list" where
  "rhl_op (Add n h) l = snd (rhl_add_handler n (Some h) l)"
| "rhl_op (Remove n) l = snd (rhl_remove_handler n l)"

fun def_op :: "bes_define reg_op \<Rightarrow> definition_list \<Rightarrow> definition_list" where
  "def_op (Add n d) l = snd (add_definition n (Some d) l)"
| "def_op (Remove n) l = snd (del_definition n l)"

lemma rhl_op_step: "rhl_op = rhl.step"
proof (intro ext)
  fix p :: "'m request_handler reg_op" and l show "rhl_op p l = rhl.step p l" by (cases p) simp_all
qed

lemma def_op_step: "def_op = defs.step"
proof (intro ext)
  fix p l show "def_op p l = defs.step p l" by (cases p) simp_all
qed

lemma rhl_spec_step: "rhl.spec_step = reg_spec"
proof (intro ext)
  fix p :: "'m request_handler reg_op" and m n
  show "rhl.spec_step p m n = reg_spec p m n" by (cases p) simp_all
qed

lemma reg_first_binding:
  assumes "Remove n \<notin> set ops" "m n = Some h"
  shows "fold reg_spec ops m n = Some h"
  using assms
proof (induction ops arbitrary: m)
  case (Cons p ops)
  then have "reg_spec p m n = Some h" by (cases p) auto
  with Cons show ?case by auto
qed simp

text \<open>
  C35: Any sequence of registrations and removals of request handlers changes the list as it changes
  the abstract registry: the first handler registered for a name is the one that is found, later
  registrations are refused, and a removal makes the name free again.
\<close>

theorem request_handlers_refine:
  assumes "m_ok l"
  shows "(\<lambda>n. rhl_find_handler n (fold rhl_op ops l)) = fold reg_spec ops (\<lambda>n. rhl_find_handler n l)"
  using rhl.refines [OF assms, of ops] by (simp add: rhl_op_step rhl_spec_step)

theorem request_handlers_refine_witness:
  "(\<lambda>n. rhl_find_handler n (fold rhl_op
      [Add ''nc'' (\<lparr>rh_name = ''nc'', rh_handler_list = []\<rparr> :: nat request_handler), Add ''nc'' \<lparr>rh_name = ''x'', rh_handler_list = []\<rparr>] []))
   = fold reg_spec [Add ''nc'' \<lparr>rh_name = ''nc'', rh_handler_list = []\<rparr>, Add ''nc'' \<lparr>rh_name = ''x'', rh_handler_list = []\<rparr>]
       (\<lambda>n. rhl_find_handler n [])"
  by (rule request_handlers_refine) simp

lemma del_definitions_loop_all:
  "del_definitions_loop l freed = (freed @ concat (map (\<lambda>(n, d). case d of Some x \<Rightarrow> [x] | None \<Rightarrow> []) l), [])"
  by (induction l freed rule: del_definitions_loop.induct) (auto split: option.splits)

text \<open>
  A stored definition is found under its name, unchanged, through every sequence of additions
  and deletions that does not delete it; \<open>del_definitions\<close> frees every stored definition once and
  leaves none.
\<close>

theorem definition_stays:
  assumes "m_ok l" and "def_look_for n l = Some d" and "Remove n \<notin> set ops"
  shows "def_look_for n (fold def_op ops l) = Some d \<and>
    del_definitions l = (True, concat (map (\<lambda>(n, d). case d of Some x \<Rightarrow> [x] | None \<Rightarrow> []) l), [])"
  using defs.bound_stays [OF assms] by (simp add: def_op_step del_definitions_def del_definitions_loop_all)

theorem definition_stays_witness:
  "def_look_for ''d'' (fold def_op [Remove ''e'', Add ''d'' \<lparr>def_containers = [], agg_cmd = ''x'', agg_handler = []\<rparr>]
      [(''d'', Some \<lparr>def_containers = [], agg_cmd = [], agg_handler = []\<rparr>)])
     = Some \<lparr>def_containers = [], agg_cmd = [], agg_handler = []\<rparr> \<and>
   del_definitions [(''d'', Some \<lparr>def_containers = [], agg_cmd = [], agg_handler = []\<rparr>)]
     = (True, concat (map (\<lambda>(n, d). case d of Some x \<Rightarrow> [x] | None \<Rightarrow> [])
           [(''d'', Some \<lparr>def_containers = [], agg_cmd = [], agg_handler = []\<rparr>)]), [])"
  by (rule definition_stays) (simp_all add: def_look_for_def m_find_def m_ok_def)

section \<open>Every container is handled once\<close>

definition keeps_containers :: "'a rh_method \<Rightarrow> bool" where
  "keeps_containers p =
     (\<forall>d d'. p d = Inr d' \<longrightarrow>
        containers d' = containers d \<and> containers_iterator d' = containers_iterator d \<and>
        container d' = container d \<and> (\<forall>c. real_name (objects d' c) = real_name (objects d c)) \<and>
        m_find (dhi_data d') ''real_name_list'' = m_find (dhi_data d) ''real_name_list'' \<and>
        (m_ok (dhi_data d) \<longrightarrow> m_ok (dhi_data d')))"

definition keeps_names :: "access_fun \<Rightarrow> bool" where
  "keeps_names access = (\<forall>c s s'. access c s = Inr s' \<longrightarrow> (\<forall>k. real_name (s' k) = real_name (s k)))"

definition all_methods :: "('m \<Rightarrow> bool) \<Rightarrow> 'm request_handler_list \<Rightarrow> bool" where
  "all_methods P l = (\<forall>(n, rh) \<in> set l. case rh of None \<Rightarrow> True | Some rh \<Rightarrow>
      (\<forall>(k, p) \<in> set (rh_handler_list rh). case p of None \<Rightarrow> True | Some p \<Rightarrow> P p))"

lemma pick_method_all:
  assumes "all_methods P l" "rhl_find_handler n l = Some rh" "pick_method a rh = Some p"
  shows "P p"
proof -
  have "(n, Some rh) \<in> set l"
    using assms(2) m_find_in [of l n "Some rh"] by (auto simp: rhl_find_handler_def split: option.splits)
  moreover obtain k where "(k, Some p) \<in> set (rh_handler_list rh)"
    using assms(3) m_find_in [of "rh_handler_list rh" _ "Some p"]
    by (auto simp: pick_method_def rh_find_handler_def split: option.splits)
  ultimately show ?thesis using assms(1) by (force simp: all_methods_def)
qed

lemma execute_current_keeps:
  assumes "all_methods keeps_containers l" "keeps_names access"
    and c: "container d = Some c" and r: "execute_current l access d = Inr d'"
    and ok: "m_ok (dhi_data d)"
    and names: "names = (case m_find (dhi_data d) ''real_name_list'' of None \<Rightarrow> [] | Some x \<Rightarrow> x)"
  shows "containers d' = containers d \<and> containers_iterator d' = containers_iterator d \<and>
    (\<forall>k. real_name (objects d' k) = real_name (objects d k)) \<and> m_ok (dhi_data d') \<and>
    m_find (dhi_data d') ''real_name_list'' = Some (add_name names (real_name (objects d c)))"
proof -
  obtain objs where a: "access c (objects d) = Inr objs"
    using r c by (auto simp: execute_current_def rbind_Inr_iff)
  let ?d = "d\<lparr>objects := objs\<rparr>"
  obtain rh p d1 where p: "rhl_find_handler (c_str (container_type (objs c))) l = Some rh"
      "pick_method (action d) rh = Some p" "p ?d = Inr d1" "d' = record_name d1"
    using r c a by (auto simp: execute_current_def rbind_Inr_iff Let_def split: option.splits)
  have k: "keeps_containers p" by (rule pick_method_all [OF assms(1) p(1,2)])
  have n: "real_name (objs k) = real_name (objects d k)" for k
    using assms(2) a by (auto simp: keeps_names_def)
  from k p(3) have k1: "containers d1 = containers d" "containers_iterator d1 = containers_iterator d"
      "container d1 = Some c" "\<And>k. real_name (objects d1 k) = real_name (objects d k)"
      "m_find (dhi_data d1) ''real_name_list'' = m_find (dhi_data d) ''real_name_list''" "m_ok (dhi_data d1)"
    using c n ok by (fastforce simp: keeps_containers_def)+
  then show ?thesis unfolding p(4) names
    by (auto simp: record_name_def m_index_def split: option.splits)
qed

definition names_so_far :: "'a dhi_scheme \<Rightarrow> string" where
  "names_so_far d = (case m_find (dhi_data d) ''real_name_list'' of None \<Rightarrow> [] | Some x \<Rightarrow> x)"

lemma each_loop_visits:
  assumes l: "all_methods keeps_containers l" "keeps_names access"
    and "container d = (if i < length cs then Some (cs ! i) else None)"
    and "containers d = cs" "containers_iterator d = i" "m_ok (dhi_data d)"
  shows "\<exists>r. each_loop l access d = Some r \<and>
    (\<forall>d'. r = Inr d' \<longrightarrow> containers d' = cs \<and> container d' = None \<and>
       names_so_far d' = foldl add_name (names_so_far d) (map (\<lambda>c. real_name (objects d c)) (drop i cs)))"
  using assms(3-)
proof (induction "length cs - i" arbitrary: i d)
  case 0
  then show ?case by (subst each_loop.simps) simp
next
  case (Suc n)
  then have i: "i < length cs" and c: "container d = Some (cs ! i)" by auto
  show ?case
  proof (cases "execute_current l access d")
    case (Inl e)
    then show ?thesis using c by (subst each_loop.simps) simp
  next
    case (Inr d1)
    note k = execute_current_keeps [OF l c Inr Suc.prems(4) refl]
    let ?d2 = "next_container d1"
    have "\<exists>r. each_loop l access ?d2 = Some r \<and>
      (\<forall>d'. r = Inr d' \<longrightarrow> containers d' = cs \<and> container d' = None \<and>
       names_so_far d' = foldl add_name (names_so_far ?d2) (map (\<lambda>c. real_name (objects ?d2 c)) (drop (Suc i) cs)))"
    proof (rule Suc.hyps)
      show "n = length cs - Suc i" using Suc.hyps by simp
    qed (use k Suc.prems in \<open>simp_all add: next_container_def Let_def\<close>)
    moreover have "names_so_far ?d2 = add_name (names_so_far d) (real_name (objects d (cs ! i)))"
      using k by (simp add: names_so_far_def next_container_def Let_def)
    moreover have "map (\<lambda>c. real_name (objects ?d2 c)) (drop (Suc i) cs) = map (\<lambda>c. real_name (objects d c)) (drop (Suc i) cs)"
      using k by (simp add: next_container_def Let_def)
    ultimately show ?thesis using Inr c i
      by (subst each_loop.simps) (simp add: Cons_nth_drop_Suc [symmetric])
  qed
qed

text \<open>
  When the methods of the handlers leave the list of containers alone, \<open>execute_each\<close> returns:
  either with the first exception that a container, a missing handler or a method raised, or after
  the handler of every container was called once, in order; the list of real names in the request
  then names every container, separated by commas.
\<close>

theorem execute_each_visits_all:
  assumes "all_methods keeps_containers l" and "keeps_names access" and "m_ok (dhi_data d)"
  shows "\<exists>r. execute_each l access d = Some r \<and>
    (\<forall>d'. r = Inr d' \<longrightarrow> containers d' = containers d \<and> container d' = None \<and>
       names_so_far d' = foldl add_name (names_so_far d) (map (\<lambda>c. real_name (objects d c)) (containers d)))"
  using each_loop_visits [OF assms(1,2), where i = 0 and d = "first_container d" and cs = "containers d"]
    assms(3)
  by (simp add: execute_each_def first_container_def names_so_far_def)

definition two_files :: dhi where
  "two_files = \<lparr>containers = [1, 2], containers_iterator = 0, container = None,
     objects = (\<lambda>k. \<lparr>symbolic_name = ''c'', real_name = (if k = 1 then ''a.nc'' else ''b.nc''),
        container_type = ''nc'', constraint = [], attributes = []\<rparr>),
     action = ''get.dds'', action_name = ''dds'', executed = False, transmit_protocol = ''HTTP'', dhi_data = []\<rparr>"

theorem execute_each_visits_all_witness:
  "\<exists>r. execute_each [(''nc'', Some \<lparr>rh_name = ''nc'', rh_handler_list = [(''get.dds'', Some Inr)]\<rparr>)] (\<lambda>c. Inr) two_files
      = Some r \<and>
    (\<forall>d'. r = Inr d' \<longrightarrow> containers d' = containers two_files \<and> container d' = None \<and>
       names_so_far d' = foldl add_name (names_so_far two_files)
         (map (\<lambda>c. real_name (objects two_files c)) (containers two_files)))"
proof (rule execute_each_visits_all)
  show "all_methods keeps_containers [(''nc'', Some \<lparr>rh_name = ''nc'', rh_handler_list = [(''get.dds'', Some Inr)]\<rparr>)]"
    by (simp add: all_methods_def keeps_containers_def)
  show "keeps_names (\<lambda>c. Inr)" by (simp add: keeps_names_def)
  show "m_ok (dhi_data two_files)" by (simp add: two_files_def)
qed

section \<open>Writers of responses\<close>

context info_sink
begin

lemma balanced_definition: "balanced (show_definition ops n d)"
proof -
  have "balanced (\<lambda>i. if agg_handler d \<noteq> [] then add_tag_op ops ''aggregation'' (agg_cmd d) [(''handler'', agg_handler d)] i
             else Inr i)"
    using balanced_add balanced_skip by (cases "agg_handler d = []") auto
  then have "balanced (\<lambda>i. rbind (each (\<lambda>c. add_tag_op ops ''container'' (real_name c) (container_props c)) (def_containers d) i)
        (\<lambda>i. if agg_handler d \<noteq> [] then add_tag_op ops ''aggregation'' (agg_cmd d) [(''handler'', agg_handler d)] i
             else Inr i))"
    by (intro balanced_seq balanced_each balanced_add)
  from balanced_element [OF this, of "''definition''" "[(''name'', n)]"]
  show ?thesis by (simp add: balanced_def show_definition_def)
qed

lemma balanced_definitions: "balanced (show_definitions ops l)"
  unfolding show_definitions_def by (rule balanced_each) (auto intro: balanced_definition)

lemma balanced_context: "balanced (list_context ops l)"
  unfolding list_context_def by (rule balanced_each) auto

end

end
