(* ===== verification/Services.thy ===== *)
theory Services
  imports Registries
begin

text \<open>
  \<^verbatim>\<open>bes/dispatch/BESServiceRegistry.cc\<close>: the services the server offers, their commands and the
  formats of each command, and the services every handler handles. The maps keep the iteration
  order of \<^verbatim>\<open>std::map\<close>, which \<open>show_services\<close> and \<open>services_handled\<close> expose.
\<close>

record service_cmd =
  sc_description :: string
  sc_formats :: "(string, string) cpp_map"

type_synonym commands = "(string, service_cmd) cpp_map"

record service_registry =
  services :: "(string, commands) cpp_map"
  handles :: "(string, (string, string) cpp_map) cpp_map"

definition no_services :: service_registry where
  "no_services = \<lparr>services = [], handles = []\<rparr>"

definition add_service :: "string \<Rightarrow> service_registry \<Rightarrow> service_registry bes_result" where
  "add_service name r =
     (case m_find (services r) name of
        None \<Rightarrow> Inr (r\<lparr>services := m_set name [] (services r)\<rparr>)
      | Some _ \<Rightarrow> Inl (BESInternalError (''The service '' @ name @ '' has already been registered'')))"

definition add_to_service :: "string \<Rightarrow> string \<Rightarrow> string \<Rightarrow> string \<Rightarrow> service_registry \<Rightarrow> service_registry bes_result" where
  "add_to_service service cmd cmd_descript format r =
     (case m_find (services r) service of
        Some cmds \<Rightarrow>
          (case m_find cmds cmd of
             Some _ \<Rightarrow> Inl (BESInternalError (''Attempting to add command '' @ cmd @ '' to the service ''
                         @ service @ '', command alrady exists''))
           | None \<Rightarrow>
               (let sc = \<lparr>sc_description = cmd_descript, sc_formats = m_set format format []\<rparr>
                in Inr (r\<lparr>services := m_set service (m_set cmd sc cmds) (services r)\<rparr>)))
      | None \<Rightarrow> Inl (BESInternalError (''Attempting to add commands to the service '' @ service
                  @ '' that has not yet been registered'')))"

definition add_format :: "string \<Rightarrow> string \<Rightarrow> string \<Rightarrow> service_registry \<Rightarrow> service_registry bes_result" where
  "add_format service cmd format r =
     (case m_find (services r) service of
        Some cmds \<Rightarrow>
          (case m_find cmds cmd of
             Some sc \<Rightarrow>
               (case m_find (sc_formats sc) format of
                  None \<Rightarrow>
                    (let sc' = sc\<lparr>sc_formats := m_set format format (sc_formats sc)\<rparr>
                     in Inr (r\<lparr>services := m_set service (m_set cmd sc' cmds) (services r)\<rparr>))
                | Some _ \<Rightarrow> Inl (BESInternalError (''Attempting to add format '' @ format @ '' to command ''
                            @ cmd @ '' for service '' @ service
                            @ '' where the format has already been registered'')))
           | None \<Rightarrow> Inl (BESInternalError (''Attempting to add a format '' @ format @ '' to command ''
                       @ cmd @ '' for service '' @ service @ '' where the command has not been registered'')))
      | None \<Rightarrow> Inl (BESInternalError (''Attempting to add a format '' @ format @ '' to command '' @ cmd
                  @ '' for a service '' @ service @ '' that has not been registered'')))"

definition remove_service :: "string \<Rightarrow> service_registry \<Rightarrow> service_registry" where
  "remove_service service r =
     (case m_find (services r) service of
        None \<Rightarrow> r
      | Some _ \<Rightarrow>
          r\<lparr>services := m_erase service (services r),
            handles := m_map (\<lambda>handler hs. case m_find hs service of
                                              None \<Rightarrow> hs | Some _ \<Rightarrow> m_erase service hs) (handles r)\<rparr>)"

definition service_available :: "string \<Rightarrow> string \<Rightarrow> string \<Rightarrow> service_registry \<Rightarrow> bool" where
  "service_available service cmd format r =
     (case m_find (services r) service of
        None \<Rightarrow> False
      | Some cmds \<Rightarrow>
          if cmd \<noteq> [] then
            (case m_find cmds cmd of
               None \<Rightarrow> False
             | Some sc \<Rightarrow>
                 if format \<noteq> [] then
                   (case m_find (sc_formats sc) format of None \<Rightarrow> False | Some _ \<Rightarrow> True)
                 else True)
          else True)"

definition handles_service :: "string \<Rightarrow> string \<Rightarrow> service_registry \<Rightarrow> service_registry bes_result" where
  "handles_service handler service r =
     (case m_find (services r) service of
        None \<Rightarrow> Inl (BESInternalError (''Registering a handler to handle service '' @ service
                  @ '' that has not yet been registered''))
      | Some _ \<Rightarrow>
          (case m_find (handles r) handler of
             None \<Rightarrow> Inr (r\<lparr>handles := m_set handler (m_set service service []) (handles r)\<rparr>)
           | Some hs \<Rightarrow>
               (case m_find hs service of
                  None \<Rightarrow> Inr (r\<lparr>handles := m_set handler (m_set service service hs) (handles r)\<rparr>)
                | Some _ \<Rightarrow> Inr r)))"

definition does_handle_service :: "string \<Rightarrow> string \<Rightarrow> service_registry \<Rightarrow> bool" where
  "does_handle_service handler service r =
     (case m_find (handles r) handler of
        None \<Rightarrow> False
      | Some hs \<Rightarrow> (case m_find hs service of None \<Rightarrow> False | Some _ \<Rightarrow> True))"

definition services_handled :: "string \<Rightarrow> service_registry \<Rightarrow> string list \<Rightarrow> string list" where
  "services_handled handler r result =
     (case m_find (handles r) handler of
        None \<Rightarrow> result
      | Some hs \<Rightarrow> result @ map snd hs)"

definition show_command :: "'i info_ops \<Rightarrow> string \<Rightarrow> service_cmd \<Rightarrow> 'i \<Rightarrow> 'i bes_result" where
  "show_command ops name sc i =
     rbind (begin_tag_op ops ''command'' [(''name'', name)] i) (\<lambda>i.
     rbind (rbind (add_tag_op ops ''description'' (sc_description sc) [] i)
        (each (\<lambda>(f, f'). add_tag_op ops ''format'' [] [(''name'', f)]) (sc_formats sc)))
     (end_tag_op ops ''command''))"

definition show_service :: "'i info_ops \<Rightarrow> string \<Rightarrow> commands \<Rightarrow> 'i \<Rightarrow> 'i bes_result" where
  "show_service ops name cmds i =
     rbind (begin_tag_op ops ''serviceDescription'' [(''name'', name)] i) (\<lambda>i.
     rbind (each (\<lambda>(c, sc). show_command ops c sc) cmds i)
     (end_tag_op ops ''serviceDescription''))"

definition show_services :: "'i info_ops \<Rightarrow> service_registry \<Rightarrow> 'i \<Rightarrow> 'i bes_result" where
  "show_services ops r = each (\<lambda>(s, cmds). show_service ops s cmds) (services r)"

section \<open>The invariant\<close>

text \<open>
  Every map is ordered; a format is stored under its own name; a handler only handles registered
  services, each stored under its own name.
\<close>

definition cmd_ok :: "service_cmd \<Rightarrow> bool" where
  "cmd_ok sc = (m_ok (sc_formats sc) \<and> (\<forall>f g. m_find (sc_formats sc) f = Some g \<longrightarrow> g = f))"

definition services_ok :: "service_registry \<Rightarrow> bool" where
  "services_ok r =
     (m_ok (services r) \<and> m_ok (handles r) \<and>
      (\<forall>s cmds. m_find (services r) s = Some cmds \<longrightarrow>
         m_ok cmds \<and> (\<forall>c sc. m_find cmds c = Some sc \<longrightarrow> cmd_ok sc)) \<and>
      (\<forall>h hs. m_find (handles r) h = Some hs \<longrightarrow>
         m_ok hs \<and> (\<forall>s t. m_find hs s = Some t \<longrightarrow> t = s \<and> m_find (services r) s \<noteq> None)))"

named_theorems service_defs

lemmas service_ops [service_defs] = add_service_def add_to_service_def add_format_def remove_service_def
  handles_service_def

lemma ok_no_services: "services_ok no_services"
  by (simp add: services_ok_def no_services_def)

lemma ok_add_service: "services_ok r \<Longrightarrow> add_service n r = Inr r' \<Longrightarrow> services_ok r'"
  by (auto simp: add_service_def services_ok_def split: option.splits if_splits)

lemma ok_add_to_service: "services_ok r \<Longrightarrow> add_to_service s c d f r = Inr r' \<Longrightarrow> services_ok r'"
  by (auto simp: add_to_service_def services_ok_def cmd_ok_def Let_def split: option.splits if_splits)

lemma ok_add_format: "services_ok r \<Longrightarrow> add_format s c f r = Inr r' \<Longrightarrow> services_ok r'"
  by (auto simp: add_format_def services_ok_def cmd_ok_def Let_def split: option.splits if_splits)

lemma ok_remove_service: "services_ok r \<Longrightarrow> services_ok (remove_service s r)"
  by (auto simp: remove_service_def services_ok_def m_erase_if_there split: option.splits if_splits)

lemma ok_handles_service: "services_ok r \<Longrightarrow> handles_service h s r = Inr r' \<Longrightarrow> services_ok r'"
  by (auto simp: handles_service_def services_ok_def split: option.splits if_splits)

section \<open>Reachable registries\<close>

text \<open>The states of the registry of a running server: any sequence of calls that did not throw.\<close>

inductive service_step :: "service_registry \<Rightarrow> service_registry \<Rightarrow> bool" where
  step_add: "add_service n r = Inr r' \<Longrightarrow> service_step r r'"
| step_command: "add_to_service s c d f r = Inr r' \<Longrightarrow> service_step r r'"
| step_format: "add_format s c f r = Inr r' \<Longrightarrow> service_step r r'"
| step_remove: "service_step r (remove_service s r)"
| step_handles: "handles_service h s r = Inr r' \<Longrightarrow> service_step r r'"

inductive_cases service_stepE: "service_step r r'"

inductive reachable_services :: "service_registry \<Rightarrow> bool" where
  reach_start: "reachable_services no_services"
| reach_step: "reachable_services r \<Longrightarrow> service_step r r' \<Longrightarrow> reachable_services r'"

lemma service_step_ok: "service_step r r' \<Longrightarrow> services_ok r \<Longrightarrow> services_ok r'"
  by (erule service_stepE)
    (auto intro: ok_add_service ok_add_to_service ok_add_format ok_remove_service ok_handles_service)

lemma reachable_services_ok: "reachable_services r \<Longrightarrow> services_ok r"
  by (induction rule: reachable_services.induct) (auto intro: ok_no_services service_step_ok)

lemma handled_registered: "services_ok r \<Longrightarrow> does_handle_service h s r \<Longrightarrow> m_find (services r) s \<noteq> None"
  by (auto simp: services_ok_def does_handle_service_def split: option.splits)

lemma handled_values:
  assumes "m_ok hs" "\<forall>s t. m_find hs s = Some t \<longrightarrow> t = s"
  shows "map snd hs = map fst hs"
proof (rule map_cong [OF refl])
  fix p assume "p \<in> set hs"
  then have "m_find hs (fst p) = Some (snd p)" using m_find_Some_iff [OF assms(1)] by simp
  with assms(2) show "snd p = fst p" by blast
qed

text \<open>
  C37: In every state the service registry can reach, a handler handles only services that are
  available, and \<open>services_handled\<close> lists exactly the services for which \<open>does_handle_service\<close> is
  true, each once and in increasing order.
\<close>

theorem handled_services_available:
  assumes "reachable_services r"
  shows "(\<forall>s. does_handle_service h s r \<longrightarrow> service_available s [] [] r) \<and>
    set (services_handled h r []) = {s. does_handle_service h s r} \<and>
    sorted_wrt (<) (services_handled h r [])"
proof (cases "m_find (handles r) h")
  case None
  then show ?thesis by (simp add: does_handle_service_def services_handled_def)
next
  case (Some hs)
  note ok = reachable_services_ok [OF assms]
  have hs: "m_ok hs" "\<forall>s t. m_find hs s = Some t \<longrightarrow> t = s \<and> m_find (services r) s \<noteq> None"
    using ok Some by (auto simp: services_ok_def)
  have eq: "map snd hs = map fst hs" by (rule handled_values) (use hs in auto)
  have "set (map fst hs) = {s. m_find hs s \<noteq> None}" using m_find_None_iff [of hs] by auto
  moreover have d: "does_handle_service h s r \<longleftrightarrow> m_find hs s \<noteq> None" for s
    using Some by (auto simp: does_handle_service_def split: option.splits)
  moreover have "services_handled h r [] = map fst hs"
    using Some eq by (simp add: services_handled_def)
  moreover have "service_available s [] [] r" if "does_handle_service h s r" for s
    using handled_registered [OF ok that] by (auto simp: service_available_def)
  moreover have "sorted_wrt (<) (map fst hs)" using hs by (simp add: m_ok_def)
  ultimately show ?thesis by simp
qed

theorem handled_services_available_witness:
  "let r = \<lparr>services = [(''dap'', [])], handles = [(''nc'', [(''dap'', ''dap'')])]\<rparr> in
   (\<forall>s. does_handle_service ''nc'' s r \<longrightarrow> service_available s [] [] r) \<and>
    set (services_handled ''nc'' r []) = {s. does_handle_service ''nc'' s r} \<and>
    sorted_wrt (<) (services_handled ''nc'' r [])"
proof -
  have 1: "add_service ''dap'' no_services = Inr \<lparr>services = [(''dap'', [])], handles = []\<rparr>"
    by (simp add: add_service_def no_services_def)
  have 2: "handles_service ''nc'' ''dap'' \<lparr>services = [(''dap'', [])], handles = []\<rparr>
      = Inr \<lparr>services = [(''dap'', [])], handles = [(''nc'', [(''dap'', ''dap'')])]\<rparr>"
    by (simp add: handles_service_def)
  have "reachable_services \<lparr>services = [(''dap'', [])], handles = [(''nc'', [(''dap'', ''dap'')])]\<rparr>"
    by (rule reach_step [OF reach_step [OF reach_start step_add [OF 1]] step_handles [OF 2]])
  from handled_services_available [OF this, of "''nc''"] show ?thesis unfolding Let_def .
qed

text \<open>
  What each call makes available: a command that is added is available in its one format, a
  format that is added in that format, everything else stays as it was; after a service is removed
  it is not available in any form and no handler handles it.
\<close>

theorem service_calls_effect:
  assumes "services_ok r"
  shows "(add_to_service s c d f r = Inr r1 \<longrightarrow> (\<forall>s' c' f'. c' \<noteq> [] \<longrightarrow>
        service_available s' c' f' r1 = (service_available s' c' f' r \<or> s' = s \<and> c' = c \<and> (f' = [] \<or> f' = f))))
     \<and> (add_format s c f r = Inr r2 \<longrightarrow> (\<forall>s' c' f'. c' \<noteq> [] \<longrightarrow>
        service_available s' c' f' r2 = (service_available s' c' f' r \<or> s' = s \<and> c' = c \<and> f' = f)))
     \<and> \<not> service_available s c f (remove_service s r) \<and> \<not> does_handle_service h s (remove_service s r)
     \<and> (s' \<noteq> s \<longrightarrow> service_available s' c f (remove_service s r) = service_available s' c f r
          \<and> does_handle_service h s' (remove_service s r) = does_handle_service h s' r)"
proof (intro conjI)
  show "add_to_service s c d f r = Inr r1 \<longrightarrow> (\<forall>s' c' f'. c' \<noteq> [] \<longrightarrow>
        service_available s' c' f' r1 = (service_available s' c' f' r \<or> s' = s \<and> c' = c \<and> (f' = [] \<or> f' = f)))"
    by (auto simp: add_to_service_def service_available_def Let_def split: option.splits if_splits)
  show "add_format s c f r = Inr r2 \<longrightarrow> (\<forall>s' c' f'. c' \<noteq> [] \<longrightarrow>
        service_available s' c' f' r2 = (service_available s' c' f' r \<or> s' = s \<and> c' = c \<and> f' = f))"
    by (auto simp: add_format_def service_available_def Let_def split: option.splits if_splits)
  show "\<not> service_available s c f (remove_service s r)"
    by (auto simp: remove_service_def service_available_def split: option.splits)
  have h: "\<not> does_handle_service h s r" if "m_find (services r) s = None"
    using handled_registered [OF assms, of h s] that by auto
  show "\<not> does_handle_service h s (remove_service s r)"
    using h by (auto simp: remove_service_def does_handle_service_def m_erase_if_there split: option.splits)
  show "s' \<noteq> s \<longrightarrow> service_available s' c f (remove_service s r) = service_available s' c f r
          \<and> does_handle_service h s' (remove_service s r) = does_handle_service h s' r"
    by (auto simp: remove_service_def service_available_def does_handle_service_def m_erase_if_there
        split: option.splits if_splits)
qed

theorem service_calls_effect_witness:
  "service_available ''dap'' ''get'' ''xml''
     \<lparr>services = [(''dap'', [(''get'', \<lparr>sc_description = [], sc_formats = [(''xml'', ''xml'')]\<rparr>)])], handles = []\<rparr> \<and>
   \<not> service_available ''dap'' [] [] (remove_service ''dap'' \<lparr>services = [(''dap'', [])], handles = []\<rparr>)"
proof -
  let ?r = "\<lparr>services = [(''dap'', [])], handles = []\<rparr> :: service_registry"
  let ?r1 = "\<lparr>services = [(''dap'', [(''get'', \<lparr>sc_description = [], sc_formats = [(''xml'', ''xml'')]\<rparr>)])], handles = []\<rparr>"
  have ok: "services_ok ?r" by (simp add: services_ok_def)
  have r1: "add_to_service ''dap'' ''get'' [] ''xml'' ?r = Inr ?r1" by (simp add: add_to_service_def)
  note e = service_calls_effect [OF ok, of "''dap''" "''get''" "[]" "''xml''" ?r1]
  have "service_available ''dap'' ''get'' ''xml'' ?r1" using e r1 by blast
  moreover have "\<not> service_available ''dap'' [] [] (remove_service ''dap'' ?r)"
    using service_calls_effect [OF ok, of "''dap''" "[]" "[]" "[]" ?r1] by blast
  ultimately show ?thesis by blast
qed

section \<open>Showing the services\<close>

context info_sink
begin

lemma balanced_command: "balanced (show_command ops n sc)"
proof -
  have "balanced (\<lambda>i. rbind (add_tag_op ops ''description'' (sc_description sc) [] i)
        (each (\<lambda>(f, f'). add_tag_op ops ''format'' [] [(''name'', f)]) (sc_formats sc)))"
    by (rule balanced_seq [OF balanced_add], rule balanced_each) auto
  from balanced_element [OF this, of "''command''" "[(''name'', n)]"]
  show ?thesis by (simp add: balanced_def show_command_def)
qed

lemma balanced_service: "balanced (show_service ops n cmds)"
proof -
  have "balanced (each (\<lambda>(c, sc). show_command ops c sc) cmds)"
    by (rule balanced_each) (auto intro: balanced_command)
  from balanced_element [OF this, of "''serviceDescription''" "[(''name'', n)]"]
  show ?thesis by (simp add: balanced_def show_service_def)
qed

lemma balanced_services: "balanced (show_services ops r)"
  unfolding show_services_def by (rule balanced_each) (auto intro: balanced_service)

lemma balanced_response:
  "balanced (\<lambda>i. rbind (show_services ops r i) (\<lambda>i. rbind (show_definitions ops l i) (list_context ops c)))"
  by (intro balanced_seq balanced_services balanced_definitions balanced_context)

end

text \<open>
  The server's inventory - its services with their commands and formats, the stored definitions
  with their containers and aggregation, and the context - is written into a plain-text response
  without an exception; every tag that was opened is closed and the indentation is what it was.
\<close>

theorem inventory_balanced:
  assumes "text_inv i"
  shows "\<exists>i'. rbind (show_services (text_ops mime) r i) (\<lambda>i. rbind (show_definitions (text_ops mime) l i)
      (list_context (text_ops mime) c)) = Inr i' \<and> info_tags i' = info_tags i \<and> info_indent i' = info_indent i"
  by (rule plain.balancedE [OF plain.balanced_response assms]) (use assms in \<open>auto simp: text_inv_def\<close>)

theorem inventory_balanced_witness:
  "\<exists>i'. rbind (show_services (text_ops []) no_services (new_text_info False)) (\<lambda>i.
      rbind (show_definitions (text_ops []) [] i) (list_context (text_ops []) [(''a'', ''b'')])) = Inr i' \<and>
      info_tags i' = info_tags (new_text_info False) \<and> info_indent i' = info_indent (new_text_info False)"
  by (rule inventory_balanced) (simp add: text_inv_def new_text_info_def)

end
