(* ===== verification/RefStores.thy ===== *)
theory RefStores
  imports Services "HOL-Library.Word"
begin

text \<open>
  The reference-counted stores of the BES: the lists
  \<^verbatim>\<open>BESContainerStorageList.cc\<close> and \<^verbatim>\<open>BESDefinitionStorageList.cc\<close> and the catalogs with their
  reference counts (\<^verbatim>\<open>BESCatalogList.cc\<close>, \<^verbatim>\<open>BESCatalog.h\<close>). Counts are 32-bit words.
  The contract of the three counted stores is the locale \<open>ref_store\<close>.

  The objects of a list are virtual: what is called on them is a parameter. A linked list is the
  list of its nodes; objects in it are not null.
\<close>

section \<open>The contract of a counted store\<close>

datatype 'o ref_op = Put 'o | Ref string | Deref string

fun ref_spec :: "('o \<Rightarrow> string) \<Rightarrow> nat \<Rightarrow> 'o ref_op \<Rightarrow> (string \<Rightarrow> ('o \<times> nat) option) \<Rightarrow> (string \<Rightarrow> ('o \<times> nat) option)" where
  "ref_spec key start (Put x) m = (if m (key x) = None then m(key x \<mapsto> (x, start)) else m)"
| "ref_spec key start (Ref n) m = (case m n of None \<Rightarrow> m | Some (x, c) \<Rightarrow> m(n \<mapsto> (x, c + 1)))"
| "ref_spec key start (Deref n) m =
     (case m n of None \<Rightarrow> m | Some (x, c) \<Rightarrow> if c \<le> 1 then m(n := None) else m(n \<mapsto> (x, c - 1)))"

lemma ref_spec_bound:
  assumes bound: "\<And>n x c. m n = Some (x, c) \<Longrightarrow> c \<le> k" and "start \<le> k"
    and r: "ref_spec key start p m n = Some (x, c)"
  shows "c \<le> Suc k"
proof (cases "m n = Some (x, c)")
  case True
  from bound [OF True] show ?thesis by simp
next
  case ne: False
  show ?thesis
  proof (cases p)
    case (Put y)
    then show ?thesis using r ne assms(2) by (auto split: if_splits)
  next
    case (Ref j)
    then obtain y d where "m j = Some (y, d)" "c = d + 1"
      using r ne by (auto split: option.splits if_splits)
    then show ?thesis using bound by fastforce
  next
    case (Deref j)
    then obtain y d where "m j = Some (y, d)" "c = d - 1"
      using r ne by (auto split: option.splits if_splits)
    then show ?thesis using bound by fastforce
  qed
qed

text \<open>An object stays while no prefix of the calls releases it more often than it was taken.\<close>

fun held :: "string \<Rightarrow> 'o ref_op list \<Rightarrow> nat \<Rightarrow> nat" where
  "held n [] c = c"
| "held n (Put x # ops) c = held n ops c"
| "held n (Ref k # ops) c = held n ops (if k = n then c + 1 else c)"
| "held n (Deref k # ops) c = (if k = n \<and> c \<le> 1 then 0 else held n ops (if k = n then c - 1 else c))"

lemma held_stays: "m n = Some (x, c) \<Longrightarrow> 0 < held n ops c \<Longrightarrow>
    fold (ref_spec key start) ops m n = Some (x, held n ops c)"
proof (induction n ops c arbitrary: m rule: held.induct)
  case (2 n y ops c)
  then have "ref_spec key start (Put y) m n = Some (x, c)" by (cases "key y = n") auto
  with 2 show ?case by simp
next
  case (3 n k ops c)
  then have "ref_spec key start (Ref k) m n = Some (x, if k = n then c + 1 else c)"
    by (auto split: option.splits)
  with 3 show ?case by simp
next
  case (4 n k ops c)
  then have ok: "\<not> (k = n \<and> c \<le> 1)" by auto
  then have d: "ref_spec key start (Deref k) m n = Some (x, if k = n then c - 1 else c)"
    using 4 by (auto split: option.splits)
  have h: "held n (Deref k # ops) c = held n ops (if k = n then c - 1 else c)" using ok by auto
  from 4(1) [where m = "ref_spec key start (Deref k) m", OF ok d] 4(3) show ?case unfolding h by (simp only: fold.simps comp_apply)
qed simp

locale ref_store =
  fixes add :: "'o \<Rightarrow> 's \<Rightarrow> bool \<times> 's"
    and ref :: "string \<Rightarrow> 's \<Rightarrow> bool \<times> 's"
    and deref :: "string \<Rightarrow> 's \<Rightarrow> bool \<times> 's"
    and view :: "'s \<Rightarrow> string \<Rightarrow> ('o \<times> nat) option"
    and key :: "'o \<Rightarrow> string"
    and start :: nat
    and inv :: "'s \<Rightarrow> bool"
  assumes add_new: "inv s \<Longrightarrow> view s (key x) = None \<Longrightarrow>
      fst (add x s) \<and> view (snd (add x s)) = (view s)(key x \<mapsto> (x, start)) \<and> inv (snd (add x s))"
    and add_old: "inv s \<Longrightarrow> view s (key x) \<noteq> None \<Longrightarrow> add x s = (False, s)"
    and ref_law: "inv s \<Longrightarrow> view s n = Some (x, c) \<Longrightarrow> c + 1 < 2 ^ 32 \<Longrightarrow>
      fst (ref n s) \<and> view (snd (ref n s)) = (view s)(n \<mapsto> (x, c + 1)) \<and> inv (snd (ref n s))"
    and ref_none: "inv s \<Longrightarrow> view s n = None \<Longrightarrow> ref n s = (False, s)"
    and deref_law: "inv s \<Longrightarrow> view s n = Some (x, c) \<Longrightarrow>
      fst (deref n s) \<and> inv (snd (deref n s)) \<and>
      view (snd (deref n s)) = (if c \<le> 1 then (view s)(n := None) else (view s)(n \<mapsto> (x, c - 1)))"
    and deref_none: "inv s \<Longrightarrow> view s n = None \<Longrightarrow> deref n s = (False, s)"
begin

fun step :: "'o ref_op \<Rightarrow> 's \<Rightarrow> 's" where
  "step (Put x) s = snd (add x s)"
| "step (Ref n) s = snd (ref n s)"
| "step (Deref n) s = snd (deref n s)"

lemma step_law:
  assumes "inv s" "\<And>n x c. view s n = Some (x, c) \<Longrightarrow> c + 1 < 2 ^ 32"
  shows "view (step p s) = ref_spec key start p (view s)" "inv (step p s)"
proof -
  have "view (step p s) = ref_spec key start p (view s) \<and> inv (step p s)"
  proof (cases p)
    case (Put x)
    then show ?thesis using add_new [OF assms(1)] add_old [OF assms(1)] assms(1)
      by (cases "view s (key x) = None") auto
  next
    case (Ref n)
    show ?thesis
    proof (cases "view s n")
      case None
      then show ?thesis using Ref ref_none [OF assms(1)] assms(1) by simp
    next
      case (Some xc)
      then show ?thesis using Ref ref_law [OF assms(1)] assms(2) by (cases xc) auto
    qed
  next
    case (Deref n)
    show ?thesis
    proof (cases "view s n")
      case None
      then show ?thesis using Deref deref_none [OF assms(1)] assms(1) by simp
    next
      case (Some xc)
      then show ?thesis using Deref deref_law [OF assms(1)] by (cases xc) auto
    qed
  qed
  then show "view (step p s) = ref_spec key start p (view s)" "inv (step p s)" by auto
qed

lemma refines:
  assumes "inv s" "\<And>n x c. view s n = Some (x, c) \<Longrightarrow> c \<le> k" "start \<le> k" "k + length ops < 2 ^ 32"
  shows "view (fold step ops s) = fold (ref_spec key start) ops (view s) \<and> inv (fold step ops s)"
  using assms
proof (induction ops arbitrary: s k)
  case (Cons p ops)
  have small: "c + 1 < 2 ^ 32" if "view s n = Some (x, c)" for n x c
    using Cons.prems(2) [OF that] Cons.prems(4) by simp
  note law = step_law [OF Cons.prems(1) small]
  have bound: "c \<le> Suc k" if "view (step p s) n = Some (x, c)" for n x c
    by (rule ref_spec_bound [OF Cons.prems(2,3)]) (use that law(1) in simp_all)
  show ?case
    using Cons.IH [of "step p s" "Suc k", OF law(2) bound] Cons.prems(3,4) law(1) by simp
qed simp

end

section \<open>Nodes of a list\<close>

record 'o node =
  node_obj :: 'o
  node_reference :: "32 word"

text \<open>\<open>add_persistence\<close> walks to the end unless it meets the name; a new node has one reference.\<close>

fun pl_add :: "('o \<Rightarrow> string) \<Rightarrow> 'o \<Rightarrow> 'o node list \<Rightarrow> bool \<times> 'o node list" where
  "pl_add get_name cp [] = (True, [\<lparr>node_obj = cp, node_reference = 1\<rparr>])"
| "pl_add get_name cp (pl # rest) =
     (if get_name (node_obj pl) \<noteq> get_name cp
      then (let (ret, rest') = pl_add get_name cp rest in (ret, pl # rest'))
      else (False, pl # rest))"

fun pl_ref :: "('o \<Rightarrow> string) \<Rightarrow> string \<Rightarrow> 'o node list \<Rightarrow> bool \<times> 'o node list" where
  "pl_ref get_name persist_name [] = (False, [])"
| "pl_ref get_name persist_name (pl # rest) =
     (if get_name (node_obj pl) = persist_name
      then (True, pl\<lparr>node_reference := node_reference pl + 1\<rparr> # rest)
      else (let (ret, rest') = pl_ref get_name persist_name rest in (ret, pl # rest')))"

text \<open>A node whose count drops to 0 is unlinked and freed with its object.\<close>

fun pl_deref :: "('o \<Rightarrow> string) \<Rightarrow> string \<Rightarrow> 'o node list \<Rightarrow> bool \<times> 'o node list" where
  "pl_deref get_name persist_name [] = (False, [])"
| "pl_deref get_name persist_name (pl # rest) =
     (if get_name (node_obj pl) = persist_name
      then (let r = node_reference pl - 1
            in (True, if r = 0 then rest else pl\<lparr>node_reference := r\<rparr> # rest))
      else (let (ret, rest') = pl_deref get_name persist_name rest in (ret, pl # rest')))"

fun pl_find :: "('o \<Rightarrow> string) \<Rightarrow> string \<Rightarrow> 'o node list \<Rightarrow> 'o option" where
  "pl_find get_name persist_name [] = None"
| "pl_find get_name persist_name (pl # rest) =
     (if persist_name = get_name (node_obj pl) then Some (node_obj pl)
      else pl_find get_name persist_name rest)"

fun pl_look :: "('o \<Rightarrow> string \<Rightarrow> 'c option) \<Rightarrow> string \<Rightarrow> 'o node list \<Rightarrow> 'c option" where
  "pl_look look name [] = None"
| "pl_look look name (pl # rest) =
     (case look (node_obj pl) name of Some c \<Rightarrow> Some c | None \<Rightarrow> pl_look look name rest)"

section \<open>The lists\<close>

definition csl_add_persistence :: "('o \<Rightarrow> string) \<Rightarrow> 'o \<Rightarrow> 'o node list \<Rightarrow> bool \<times> 'o node list" where
  "csl_add_persistence get_name cp l = pl_add get_name cp l"

definition csl_ref_persistence :: "('o \<Rightarrow> string) \<Rightarrow> string \<Rightarrow> 'o node list \<Rightarrow> bool \<times> 'o node list" where
  "csl_ref_persistence get_name persist_name l = pl_ref get_name persist_name l"

definition csl_deref_persistence :: "('o \<Rightarrow> string) \<Rightarrow> string \<Rightarrow> 'o node list \<Rightarrow> bool \<times> 'o node list" where
  "csl_deref_persistence get_name persist_name l = pl_deref get_name persist_name l"

definition csl_find_persistence :: "('o \<Rightarrow> string) \<Rightarrow> string \<Rightarrow> 'o node list \<Rightarrow> 'o option" where
  "csl_find_persistence get_name persist_name l = pl_find get_name persist_name l"

text \<open>\<open>key\<close> is the value of \<^verbatim>\<open>BES.Container.Persistence\<close>, empty when the key is not found.\<close>

definition csl_isnice :: "string \<Rightarrow> bool" where
  "csl_isnice key = (key \<in> {''Nice'', ''nice'', ''NICE''})"

definition csl_look_for ::
  "('o \<Rightarrow> string \<Rightarrow> 'c option) \<Rightarrow> string \<Rightarrow> string \<Rightarrow> 'o node list \<Rightarrow> 'c option bes_result" where
  "csl_look_for look key sym_name l =
     (case pl_look look sym_name l of
        Some c \<Rightarrow> Inr (Some c)
      | None \<Rightarrow> if csl_isnice key then Inr None
                 else Inl (BESSyntaxUserError (''Could not find the symbolic name '' @ sym_name)))"

definition csl_show_containers ::
  "('o \<Rightarrow> string) \<Rightarrow> ('o \<Rightarrow> 'i \<Rightarrow> 'i bes_result) \<Rightarrow> 'i info_ops \<Rightarrow> 'o node list \<Rightarrow> 'i \<Rightarrow> 'i bes_result" where
  "csl_show_containers get_name show_obj ops l =
     each (\<lambda>pl i. rbind (begin_tag_op ops ''store'' [(''name'', get_name (node_obj pl))] i) (\<lambda>i.
                  rbind (show_obj (node_obj pl) i) (end_tag_op ops ''store''))) l"

definition dsl_add_persistence :: "('o \<Rightarrow> string) \<Rightarrow> 'o \<Rightarrow> 'o node list \<Rightarrow> bool \<times> 'o node list" where
  "dsl_add_persistence get_name cp l = pl_add get_name cp l"

definition dsl_ref_persistence :: "('o \<Rightarrow> string) \<Rightarrow> string \<Rightarrow> 'o node list \<Rightarrow> bool \<times> 'o node list" where
  "dsl_ref_persistence get_name persist_name l = pl_ref get_name persist_name l"

definition dsl_deref_persistence :: "('o \<Rightarrow> string) \<Rightarrow> string \<Rightarrow> 'o node list \<Rightarrow> bool \<times> 'o node list" where
  "dsl_deref_persistence get_name persist_name l = pl_deref get_name persist_name l"

definition dsl_find_persistence :: "('o \<Rightarrow> string) \<Rightarrow> string \<Rightarrow> 'o node list \<Rightarrow> 'o option" where
  "dsl_find_persistence get_name persist_name l = pl_find get_name persist_name l"

definition dsl_look_for :: "('o \<Rightarrow> string \<Rightarrow> 'c option) \<Rightarrow> string \<Rightarrow> 'o node list \<Rightarrow> 'c option" where
  "dsl_look_for look def_name l = pl_look look def_name l"

text \<open>Stores are separated by a line break, \<open>add_break 1\<close>.\<close>

definition dsl_show_definitions ::
  "('o \<Rightarrow> string) \<Rightarrow> ('o \<Rightarrow> 'i \<Rightarrow> 'i bes_result) \<Rightarrow> ('i \<Rightarrow> 'i) \<Rightarrow> 'i info_ops \<Rightarrow> 'o node list \<Rightarrow> 'i \<Rightarrow> 'i bes_result" where
  "dsl_show_definitions get_name show_obj add_break1 ops l =
     each (\<lambda>(k, pl) i.
        rbind (begin_tag_op ops ''store'' [(''name'', get_name (node_obj pl))]
                 (if k = (0::nat) then i else add_break1 i)) (\<lambda>i.
        rbind (show_obj (node_obj pl) i) (end_tag_op ops ''store''))) (enumerate 0 l)"

section \<open>Catalogs\<close>

record catalog =
  catalog_name :: string
  cat_reference :: "32 word"

definition new_catalog :: "string \<Rightarrow> catalog" where
  "new_catalog n = \<lparr>catalog_name = n, cat_reference = 0\<rparr>"

definition reference_catalog :: "catalog \<Rightarrow> catalog" where
  "reference_catalog c = c\<lparr>cat_reference := cat_reference c + 1\<rparr>"

definition dereference_catalog :: "catalog \<Rightarrow> 32 word \<times> catalog" where
  "dereference_catalog c =
     (if cat_reference c = 0 then (0, c)
      else (cat_reference c - 1, c\<lparr>cat_reference := cat_reference c - 1\<rparr>))"

type_synonym catalogs = "(string, catalog) cpp_map"

definition default_catalog :: "string option \<Rightarrow> string" where
  "default_catalog key = (case key of Some n \<Rightarrow> if n = [] then ''catalog'' else n | None \<Rightarrow> ''catalog'')"

definition find_catalog :: "string \<Rightarrow> catalogs \<Rightarrow> catalog option" where
  "find_catalog n l = m_find l n"

definition add_catalog :: "catalog option \<Rightarrow> catalogs \<Rightarrow> bool \<times> catalogs" where
  "add_catalog cat l =
     (case cat of
        None \<Rightarrow> (False, l)
      | Some c \<Rightarrow>
          if find_catalog (catalog_name c) l = None then m_insert (catalog_name c) c l else (False, l))"

definition ref_catalog :: "string \<Rightarrow> catalogs \<Rightarrow> bool \<times> catalogs" where
  "ref_catalog n l =
     (case m_find l n of
        Some c \<Rightarrow> (True, m_set n (reference_catalog c) l)
      | None \<Rightarrow> (False, l))"

definition deref_catalog :: "string \<Rightarrow> catalogs \<Rightarrow> bool \<times> catalogs" where
  "deref_catalog n l =
     (case m_find l n of
        Some c \<Rightarrow>
          (let (r, c') = dereference_catalog c
           in (True, if r = 0 then m_erase n l else m_set n c' l))
      | None \<Rightarrow> (False, l))"

definition show_catalogs :: "(catalog \<Rightarrow> 'e \<Rightarrow> 'e bes_result) \<Rightarrow> (unit \<Rightarrow> 'e) \<Rightarrow> string \<Rightarrow> 'e option \<Rightarrow> bool \<Rightarrow> catalogs \<Rightarrow> 'e bes_result" where
  "show_catalogs show_catalog new_entry dflt entry show_default l =
     each (\<lambda>(n, c) e. if show_default \<or> n \<noteq> dflt then show_catalog c e else Inr e) l
       (case entry of Some e \<Rightarrow> e | None \<Rightarrow> new_entry ())"

section \<open>Lists of nodes keep the contract\<close>

definition pl_view :: "('o \<Rightarrow> string) \<Rightarrow> 'o node list \<Rightarrow> string \<Rightarrow> ('o \<times> nat) option" where
  "pl_view get_name l n =
     map_option (\<lambda>pl. (node_obj pl, unat (node_reference pl))) (find (\<lambda>pl. get_name (node_obj pl) = n) l)"

text \<open>Names are unique and every node has a reference.\<close>

definition pl_inv :: "('o \<Rightarrow> string) \<Rightarrow> 'o node list \<Rightarrow> bool" where
  "pl_inv get_name l =
     (distinct (map (\<lambda>pl. get_name (node_obj pl)) l) \<and> (\<forall>pl \<in> set l. node_reference pl \<noteq> 0))"

lemma pl_view_Nil [simp]: "pl_view g [] = Map.empty"
  by (auto simp: pl_view_def)

lemma pl_view_Cons:
  "pl_view g (pl # l) = (\<lambda>n. if g (node_obj pl) = n then Some (node_obj pl, unat (node_reference pl)) else pl_view g l n)"
  by (auto simp: pl_view_def)

lemma pl_view_None: "pl_view g l n = None \<longleftrightarrow> n \<notin> (\<lambda>pl. g (node_obj pl)) ` set l"
  by (induction l) (auto simp: pl_view_Cons)

lemma pl_inv_Cons: "pl_inv g (pl # l) \<longleftrightarrow> g (node_obj pl) \<notin> (\<lambda>pl. g (node_obj pl)) ` set l \<and>
    node_reference pl \<noteq> 0 \<and> pl_inv g l"
  by (auto simp: pl_inv_def)

lemma pl_find_view: "pl_find g n l = map_option fst (pl_view g l n)"
  by (induction l) (auto simp: pl_view_Cons)

lemma unat_add_one:
  assumes "unat (w :: 32 word) + 1 < 2 ^ 32"
  shows "unat (w + 1) = unat w + 1 \<and> w + 1 \<noteq> 0"
proof -
  have u: "unat (w + 1) = unat w + 1" using assms by (simp add: unat_word_ariths)
  have "w + 1 \<noteq> 0"
  proof
    assume "w + 1 = 0"
    then have "unat (w + 1) = 0" by (simp only: unat_0)
    with u show False by simp
  qed
  with u show ?thesis by simp
qed

lemma unat_minus_one: "(w :: 32 word) \<noteq> 0 \<Longrightarrow> unat (w - 1) = unat w - 1 \<and> (w - 1 = 0 \<longleftrightarrow> unat w \<le> 1)"
  by (metis diff_is_0_eq eq_iff_diff_eq_0 unat_eq_zero unat_minus_one)

lemma pl_add_law: "pl_inv g l \<Longrightarrow>
   (if pl_view g l (g x) = None
    then fst (pl_add g x l) \<and> pl_view g (snd (pl_add g x l)) = (pl_view g l)(g x \<mapsto> (x, 1)) \<and> pl_inv g (snd (pl_add g x l))
         \<and> set (snd (pl_add g x l)) = insert \<lparr>node_obj = x, node_reference = 1\<rparr> (set l)
    else pl_add g x l = (False, l))"
proof (induction l)
  case Nil
  then show ?case by (auto simp: pl_view_Cons pl_inv_def)
next
  case (Cons pl l)
  then show ?case
    by (cases "g (node_obj pl) = g x"; cases "pl_add g x l")
      (auto simp: pl_view_Cons pl_inv_Cons pl_view_None split: if_splits)
qed

lemma pl_ref_law: "pl_inv g l \<Longrightarrow>
   (case pl_view g l n of
      None \<Rightarrow> pl_ref g n l = (False, l)
    | Some (x, c) \<Rightarrow> c + 1 < 2 ^ 32 \<longrightarrow> fst (pl_ref g n l) \<and> pl_view g (snd (pl_ref g n l)) = (pl_view g l)(n \<mapsto> (x, c + 1))
         \<and> pl_inv g (snd (pl_ref g n l))
         \<and> (\<lambda>pl. g (node_obj pl)) ` set (snd (pl_ref g n l)) = (\<lambda>pl. g (node_obj pl)) ` set l)"
proof (induction l)
  case Nil
  then show ?case by simp
next
  case (Cons pl l)
  show ?case
  proof (cases "g (node_obj pl) = n")
    case True
    then show ?thesis using Cons.prems unat_add_one [of "node_reference pl"]
      by (auto simp: pl_view_Cons pl_inv_Cons)
  next
    case False
    then show ?thesis using Cons
      by (cases "pl_ref g n l") (auto simp: pl_view_Cons pl_inv_Cons split: option.splits)
  qed
qed

lemma pl_deref_law: "pl_inv g l \<Longrightarrow>
   (case pl_view g l n of
      None \<Rightarrow> pl_deref g n l = (False, l)
    | Some (x, c) \<Rightarrow> fst (pl_deref g n l) \<and> pl_inv g (snd (pl_deref g n l)) \<and>
         pl_view g (snd (pl_deref g n l)) = (if c \<le> 1 then (pl_view g l)(n := None) else (pl_view g l)(n \<mapsto> (x, c - 1)))
         \<and> (\<lambda>pl. g (node_obj pl)) ` set (snd (pl_deref g n l)) \<subseteq> (\<lambda>pl. g (node_obj pl)) ` set l)"
proof (induction l)
  case Nil
  then show ?case by simp
next
  case (Cons pl l)
  show ?case
  proof (cases "g (node_obj pl) = n")
    case True
    have "pl_view g l n = None" using True Cons.prems by (auto simp: pl_view_None pl_inv_Cons)
    then show ?thesis using True Cons.prems unat_minus_one [of "node_reference pl"]
      by (auto simp: pl_view_Cons pl_inv_Cons Let_def fun_eq_iff)
  next
    case False
    then show ?thesis using Cons
      by (cases "pl_deref g n l") (auto simp: pl_view_Cons pl_inv_Cons fun_eq_iff split: option.splits)
  qed
qed

interpretation csl: ref_store "csl_add_persistence g" "csl_ref_persistence g" "csl_deref_persistence g"
    "pl_view g" g 1 "pl_inv g" for g
proof
  fix l x n c
  assume inv: "pl_inv g l"
  show "pl_view g l (g x) = None \<Longrightarrow> fst (csl_add_persistence g x l) \<and>
      pl_view g (snd (csl_add_persistence g x l)) = (pl_view g l)(g x \<mapsto> (x, 1)) \<and> pl_inv g (snd (csl_add_persistence g x l))"
    using pl_add_law [OF inv, of x] by (simp add: csl_add_persistence_def)
  show "pl_view g l (g x) \<noteq> None \<Longrightarrow> csl_add_persistence g x l = (False, l)"
    using pl_add_law [OF inv, of x] by (auto simp: csl_add_persistence_def)
  show "pl_view g l n = Some (x, c) \<Longrightarrow> c + 1 < 2 ^ 32 \<Longrightarrow> fst (csl_ref_persistence g n l) \<and>
      pl_view g (snd (csl_ref_persistence g n l)) = (pl_view g l)(n \<mapsto> (x, c + 1)) \<and> pl_inv g (snd (csl_ref_persistence g n l))"
    using pl_ref_law [OF inv, of n] by (simp add: csl_ref_persistence_def)
  show "pl_view g l n = None \<Longrightarrow> csl_ref_persistence g n l = (False, l)"
    using pl_ref_law [OF inv, of n] by (simp add: csl_ref_persistence_def)
  show "pl_view g l n = Some (x, c) \<Longrightarrow> fst (csl_deref_persistence g n l) \<and> pl_inv g (snd (csl_deref_persistence g n l)) \<and>
      pl_view g (snd (csl_deref_persistence g n l))
      = (if c \<le> 1 then (pl_view g l)(n := None) else (pl_view g l)(n \<mapsto> (x, c - 1)))"
    using pl_deref_law [OF inv, of n] by (simp add: csl_deref_persistence_def)
  show "pl_view g l n = None \<Longrightarrow> csl_deref_persistence g n l = (False, l)"
    using pl_deref_law [OF inv, of n] by (simp add: csl_deref_persistence_def)
qed

interpretation dsl: ref_store "dsl_add_persistence g" "dsl_ref_persistence g" "dsl_deref_persistence g"
    "pl_view g" g 1 "pl_inv g" for g
proof -
  have eq: "dsl_add_persistence g = csl_add_persistence g" "dsl_ref_persistence g = csl_ref_persistence g"
    "dsl_deref_persistence g = csl_deref_persistence g"
    by (simp_all add: fun_eq_iff csl_add_persistence_def csl_ref_persistence_def csl_deref_persistence_def
        dsl_add_persistence_def dsl_ref_persistence_def dsl_deref_persistence_def)
  show "ref_store (dsl_add_persistence g) (dsl_ref_persistence g) (dsl_deref_persistence g) (pl_view g) g 1 (pl_inv g)"
    unfolding eq by (rule csl.ref_store_axioms)
qed

text \<open>A catalog is its own node: the count is a field of the object, and it starts at 0.\<close>

definition cat_view :: "catalogs \<Rightarrow> string \<Rightarrow> (string \<times> nat) option" where
  "cat_view l n = map_option (\<lambda>c. (catalog_name c, unat (cat_reference c))) (m_find l n)"

definition cat_inv :: "catalogs \<Rightarrow> bool" where
  "cat_inv l = (m_ok l \<and> (\<forall>n c. m_find l n = Some c \<longrightarrow> catalog_name c = n))"

lemma dereference_catalog_law:
  "dereference_catalog c = (r, c') \<Longrightarrow>
     (r = 0 \<longleftrightarrow> unat (cat_reference c) \<le> 1) \<and>
     (r \<noteq> 0 \<longrightarrow> catalog_name c' = catalog_name c \<and> unat (cat_reference c') = unat (cat_reference c) - 1)"
  using unat_minus_one [of "cat_reference c"]
  by (auto simp: dereference_catalog_def split: if_splits)

interpretation cats: ref_store "\<lambda>n. add_catalog (Some (new_catalog n))" ref_catalog deref_catalog cat_view "\<lambda>n. n" 0 cat_inv
proof
  fix l n x c
  assume inv: "cat_inv l"
  show "cat_view l x = None \<Longrightarrow> fst (add_catalog (Some (new_catalog x)) l) \<and>
      cat_view (snd (add_catalog (Some (new_catalog x)) l)) = (cat_view l)(x \<mapsto> (x, 0)) \<and>
      cat_inv (snd (add_catalog (Some (new_catalog x)) l))"
    using inv by (auto simp: cat_view_def cat_inv_def add_catalog_def find_catalog_def new_catalog_def m_insert_def fun_eq_iff)
  show "cat_view l x \<noteq> None \<Longrightarrow> add_catalog (Some (new_catalog x)) l = (False, l)"
    by (auto simp: cat_view_def add_catalog_def find_catalog_def new_catalog_def)
  show "cat_view l n = Some (x, c) \<Longrightarrow> c + 1 < 2 ^ 32 \<Longrightarrow> fst (ref_catalog n l) \<and>
      cat_view (snd (ref_catalog n l)) = (cat_view l)(n \<mapsto> (x, c + 1)) \<and> cat_inv (snd (ref_catalog n l))"
    using inv unat_add_one
    by (auto simp: cat_view_def cat_inv_def ref_catalog_def reference_catalog_def fun_eq_iff split: if_splits)
  show "cat_view l n = None \<Longrightarrow> ref_catalog n l = (False, l)"
    by (auto simp: cat_view_def ref_catalog_def)
  show "cat_view l n = Some (x, c) \<Longrightarrow> fst (deref_catalog n l) \<and> cat_inv (snd (deref_catalog n l)) \<and>
      cat_view (snd (deref_catalog n l))
      = (if c \<le> 1 then (cat_view l)(n := None) else (cat_view l)(n \<mapsto> (x, c - 1)))"
  proof -
    assume v: "cat_view l n = Some (x, c)"
    then obtain z where z: "m_find l n = Some z" "x = catalog_name z" "c = unat (cat_reference z)"
      by (auto simp: cat_view_def)
    obtain r z' where d: "dereference_catalog z = (r, z')" by fastforce
    note law = dereference_catalog_law [OF d]
    show ?thesis
    proof (cases "r = 0")
      case True
      then show ?thesis using law z d inv
        by (auto simp: cat_view_def cat_inv_def deref_catalog_def fun_eq_iff)
    next
      case False
      then show ?thesis using law z d inv
        by (auto simp: cat_view_def cat_inv_def deref_catalog_def fun_eq_iff split: if_splits)
    qed
  qed
  show "cat_view l n = None \<Longrightarrow> deref_catalog n l = (False, l)"
    by (auto simp: cat_view_def deref_catalog_def)
qed

section \<open>Properties\<close>

fun csl_op :: "('o \<Rightarrow> string) \<Rightarrow> 'o ref_op \<Rightarrow> 'o node list \<Rightarrow> 'o node list" where
  "csl_op g (Put x) l = snd (csl_add_persistence g x l)"
| "csl_op g (Ref n) l = snd (csl_ref_persistence g n l)"
| "csl_op g (Deref n) l = snd (csl_deref_persistence g n l)"

fun dsl_op :: "('o \<Rightarrow> string) \<Rightarrow> 'o ref_op \<Rightarrow> 'o node list \<Rightarrow> 'o node list" where
  "dsl_op g (Put x) l = snd (dsl_add_persistence g x l)"
| "dsl_op g (Ref n) l = snd (dsl_ref_persistence g n l)"
| "dsl_op g (Deref n) l = snd (dsl_deref_persistence g n l)"

fun cat_op :: "string ref_op \<Rightarrow> catalogs \<Rightarrow> catalogs" where
  "cat_op (Put n) l = snd (add_catalog (Some (new_catalog n)) l)"
| "cat_op (Ref n) l = snd (ref_catalog n l)"
| "cat_op (Deref n) l = snd (deref_catalog n l)"

lemma csl_op_step: "csl_op g = csl.step g"
proof (intro ext)
  fix p l show "csl_op g p l = csl.step g p l" by (cases p) simp_all
qed

lemma dsl_op_step: "dsl_op g = dsl.step g"
proof (intro ext)
  fix p l show "dsl_op g p l = dsl.step g p l" by (cases p) simp_all
qed

lemma cat_op_step: "cat_op = cats.step"
proof (intro ext)
  fix p l show "cat_op p l = cats.step p l" by (cases p) simp_all
qed

text \<open>
  C36: Any sequence of additions, references and releases changes a list of container stores as it
  changes the abstract map from names to stores and counts: a store starts with one reference, and
  the release that takes the last reference removes it. The bound keeps the 32-bit counts from
  wrapping around.
\<close>

theorem container_stores_refine:
  assumes "pl_inv g l" and "\<forall>n x c. pl_view g l n = Some (x, c) \<longrightarrow> c \<le> k"
    and "1 \<le> k" and "k + length ops < 2 ^ 32"
  shows "pl_view g (fold (csl_op g) ops l) = fold (ref_spec g 1) ops (pl_view g l)
    \<and> pl_inv g (fold (csl_op g) ops l)"
  using csl.refines [OF assms(1) _ assms(3,4)] assms(2) by (simp add: csl_op_step)

theorem container_stores_refine_witness:
  "pl_view (\<lambda>n. n) (fold (csl_op (\<lambda>n. n)) [Put ''default'', Ref ''default'', Deref ''default'', Deref ''default''] [])
   = fold (ref_spec (\<lambda>n. n) 1) [Put ''default'', Ref ''default'', Deref ''default'', Deref ''default''] (pl_view (\<lambda>n. n) [])
   \<and> pl_inv (\<lambda>n. n) (fold (csl_op (\<lambda>n. n)) [Put ''default'', Ref ''default'', Deref ''default'', Deref ''default''] [])"
  by (rule container_stores_refine [where k = 1]) (simp_all add: pl_inv_def)

text \<open>
  A definition store that is referenced more often than released is still there: after every
  sequence of calls in which no prefix releases it as often as it was taken,
  \<open>find_persistence\<close> returns it.
\<close>

theorem held_store_found:
  assumes "pl_inv g l" and "\<forall>n x c. pl_view g l n = Some (x, c) \<longrightarrow> c \<le> k"
    and "1 \<le> k" and "k + length ops < 2 ^ 32"
    and "pl_view g l n = Some (x, c)" and "0 < held n ops c"
  shows "dsl_find_persistence g n (fold (dsl_op g) ops l) = Some x"
proof -
  have "pl_view g (fold (dsl_op g) ops l) = fold (ref_spec g 1) ops (pl_view g l)"
    using dsl.refines [OF assms(1) _ assms(3,4)] assms(2) by (simp add: dsl_op_step)
  with held_stays [where m = "pl_view g l", OF assms(5,6)] show ?thesis
    by (simp add: dsl_find_persistence_def pl_find_view)
qed

theorem held_store_found_witness:
  "dsl_find_persistence (\<lambda>n. n) ''default'' (fold (dsl_op (\<lambda>n. n)) [Ref ''default'', Deref ''default'']
      [\<lparr>node_obj = ''default'', node_reference = 1\<rparr>]) = Some ''default''"
  by (rule held_store_found [where k = 1 and c = 1]) (simp_all add: pl_inv_def pl_view_Cons)

text \<open>
  C39: The catalogs count in their own way. A catalog is added with a count of 0, and a reference and
  a release bring it from 0 to 1 and then remove it; a release of a catalog that was never
  referenced removes it as well. So under every sequence of calls the list is the map of the
  catalogs under their names with these counts, as long as no count can reach two to the 32.
\<close>

theorem catalogs_refine:
  assumes "cat_inv l" and "\<forall>n x c. cat_view l n = Some (x, c) \<longrightarrow> c \<le> k" and "k + length ops < 2 ^ 32"
  shows "cat_view (fold cat_op ops l) = fold (ref_spec (\<lambda>n. n) 0) ops (cat_view l)"
  using cats.refines [OF assms(1) _ _ assms(3)] assms(2) by (simp add: cat_op_step)

theorem catalogs_refine_witness:
  "cat_view (fold cat_op [Put ''catalog'', Deref ''catalog''] []) = fold (ref_spec (\<lambda>n. n) 0) [Put ''catalog'', Deref ''catalog''] (cat_view [])"
  by (rule catalogs_refine [where k = 0]) (simp_all add: cat_inv_def cat_view_def)

end
