(* ===== verification/Storage.thy ===== *)
theory Storage
  imports RefStores BesUtil
begin

text \<open>
  The volatile container store, \<^verbatim>\<open>bes/dispatch/BESContainerStorageVolatile.cc\<close>, with the file
  containers it makes (\<^verbatim>\<open>BESFileContainer.cc\<close>) and \<open>show_container\<close> of \<^verbatim>\<open>BESContainerStorage.cc\<close>.
  The file system is the parameter of \<open>check_path\<close>.
\<close>

record volatile_storage =
  vs_name :: string
  vs_root_dir :: string
  vs_follow_sym_links :: bool
  vs_container_list :: "(string, bes_container) cpp_map"

text \<open>
  The constructor. \<open>keys\<close> are the configuration keys; the flag for symbolic links is assigned only
  when the key is present and says yes, otherwise the member keeps the value it happened to have,
  \<open>junk\<close>.
\<close>

definition new_volatile :: "bool \<Rightarrow> (string \<Rightarrow> string option) \<Rightarrow> string \<Rightarrow> volatile_storage bes_result" where
  "new_volatile junk keys n =
     (let root = (case keys ''BES.Data.RootDirectory'' of Some v \<Rightarrow> v | None \<Rightarrow> [])
      in if root = '''' then
           Inl (BESSyntaxUserError ''BES.Data.RootDirectory not defined in BES configuration file'')
         else
           (let follow = (case keys ''BES.FollowSymLinks'' of
                            Some v \<Rightarrow> if lowercase v \<in> {''yes'', ''on'', ''true''} then True else junk
                          | None \<Rightarrow> junk)
            in Inr \<lparr>vs_name = n, vs_root_dir = root, vs_follow_sym_links = follow, vs_container_list = []\<rparr>))"

definition new_file_container :: "string \<Rightarrow> string \<Rightarrow> string \<Rightarrow> bes_container bes_result" where
  "new_file_container sym_name real type =
     (if find_sub real ''..'' 0 \<noteq> None
      then Inl (BESForbiddenError ([squote] @ ''../'' @ [squote] @ '' not allowed in container real name '' @ real))
      else Inr \<lparr>symbolic_name = sym_name, real_name = real, container_type = type, constraint = [], attributes = []\<rparr>)"

text \<open>\<open>look_for\<close> gives a copy, \<open>ptr_duplicate\<close>: the five strings of the container.\<close>

definition ptr_duplicate :: "bes_container \<Rightarrow> bes_container" where
  "ptr_duplicate c =
     \<lparr>symbolic_name = symbolic_name c, real_name = real_name c, container_type = container_type c,
      constraint = constraint c, attributes = attributes c\<rparr>"

definition vs_look_for :: "string \<Rightarrow> volatile_storage \<Rightarrow> bes_container option" where
  "vs_look_for sym_name s = map_option ptr_duplicate (m_find (vs_container_list s) sym_name)"

definition vs_add_container ::
  "(string \<Rightarrow> stat_result) \<Rightarrow> (string \<Rightarrow> stat_result) \<Rightarrow> string \<Rightarrow> string \<Rightarrow> string \<Rightarrow> volatile_storage \<Rightarrow> volatile_storage bes_result" where
  "vs_add_container lstat stat sym_name real type s =
     (if type = '''' then Inl (BESInternalError ''Unable to add container, type of data must be specified'')
      else if m_find (vs_container_list s) sym_name \<noteq> None
      then Inl (BESInternalError (''A container with the name '' @ sym_name @ '' already exists''))
      else
        rbind (check_path lstat stat real (vs_root_dir s) (vs_follow_sym_links s)) (\<lambda>_.
        rbind (new_file_container sym_name (vs_root_dir s @ ''/'' @ real) type) (\<lambda>c.
        Inr (s\<lparr>vs_container_list := m_set sym_name c (vs_container_list s)\<rparr>))))"

definition vs_add_container_ptr :: "bes_container option \<Rightarrow> volatile_storage \<Rightarrow> volatile_storage bes_result" where
  "vs_add_container_ptr cp s =
     (case cp of
        None \<Rightarrow> Inl (BESInternalError ''Unable to add container, container passed is null'')
      | Some c \<Rightarrow>
          if container_type c = '''' then Inl (BESInternalError ''Unable to add container, type of data must be specified'')
          else if m_find (vs_container_list s) (symbolic_name c) \<noteq> None
          then Inl (BESInternalError (''A container with the name '' @ symbolic_name c @ '' already exists''))
          else Inr (s\<lparr>vs_container_list := m_set (symbolic_name c) c (vs_container_list s)\<rparr>))"

definition vs_del_container :: "string \<Rightarrow> volatile_storage \<Rightarrow> bool \<times> volatile_storage" where
  "vs_del_container s_name s =
     (case m_find (vs_container_list s) s_name of
        Some _ \<Rightarrow> (True, s\<lparr>vs_container_list := m_erase s_name (vs_container_list s)\<rparr>)
      | None \<Rightarrow> (False, s))"

fun erase_all :: "('k, 'v) cpp_map \<Rightarrow> ('k, 'v) cpp_map" where
  "erase_all [] = []"
| "erase_all (p # m) = erase_all m"

definition vs_del_containers :: "volatile_storage \<Rightarrow> bool \<times> volatile_storage" where
  "vs_del_containers s = (True, s\<lparr>vs_container_list := erase_all (vs_container_list s)\<rparr>)"

definition vs_isData :: "string \<Rightarrow> service_registry \<Rightarrow> volatile_storage \<Rightarrow> string list \<Rightarrow> bool \<times> string list" where
  "vs_isData inQuestion reg s provides =
     (case vs_look_for inQuestion s of
        Some c \<Rightarrow> (True, services_handled (container_type c) reg provides)
      | None \<Rightarrow> (False, provides))"

definition show_container :: "'i info_ops \<Rightarrow> string \<Rightarrow> string \<Rightarrow> string \<Rightarrow> 'i \<Rightarrow> 'i bes_result" where
  "show_container ops sym_name real type =
     add_tag_op ops ''container'' real (m_set ''type'' type (m_set ''name'' sym_name []))"

definition below_root :: "string \<Rightarrow> string \<Rightarrow> string" where
  "below_root root real =
     (if length root < length real \<and> starts_with root real
      then substr real (length root) (length real - length root) else real)"

definition vs_show_containers :: "'i info_ops \<Rightarrow> volatile_storage \<Rightarrow> 'i \<Rightarrow> 'i bes_result" where
  "vs_show_containers ops s i =
     rbind (add_tag_op ops ''name'' (vs_name s) [] i)
       (each (\<lambda>(n, c). show_container ops (symbolic_name c) (below_root (vs_root_dir s) (real_name c)) (container_type c))
          (vs_container_list s))"

section \<open>What the store holds\<close>

lemma ptr_duplicate_id [simp]: "ptr_duplicate c = c"
  by (simp add: ptr_duplicate_def)

lemma vs_add_container_cases:
  assumes "vs_add_container lstat stat n real type s = Inr s'"
  shows "type \<noteq> [] \<and> m_find (vs_container_list s) n = None \<and>
    check_path lstat stat real (vs_root_dir s) (vs_follow_sym_links s) = Inr () \<and>
    find_sub (vs_root_dir s @ ''/'' @ real) ''..'' 0 = None \<and>
    s' = s\<lparr>vs_container_list := m_set n \<lparr>symbolic_name = n, real_name = vs_root_dir s @ ''/'' @ real,
       container_type = type, constraint = [], attributes = []\<rparr> (vs_container_list s)\<rparr>"
  using assms
  by (auto simp: vs_add_container_def new_file_container_def rbind_Inr_iff split: if_splits)

lemma vs_add_container_ptr_cases:
  "vs_add_container_ptr cp s = Inr s' \<Longrightarrow> \<exists>c. cp = Some c \<and> container_type c \<noteq> [] \<and>
     s' = s\<lparr>vs_container_list := m_set (symbolic_name c) c (vs_container_list s)\<rparr>"
  by (auto simp: vs_add_container_ptr_def split: option.splits if_splits)

lemma erase_all_Nil [simp]: "erase_all m = []"
  by (induction m) auto

text \<open>
  The calls that change the store. The file system may be another one at each call; a call that fails leaves
  the store as it is.
\<close>

datatype vs_call =
    Add "string \<Rightarrow> stat_result" "string \<Rightarrow> stat_result" string string string
  | Add_ptr "bes_container option"
  | Del string
  | Del_all

fun vs_do :: "vs_call \<Rightarrow> volatile_storage \<Rightarrow> volatile_storage" where
  "vs_do (Add lstat stat n real type) s = (case vs_add_container lstat stat n real type s of Inl e \<Rightarrow> s | Inr s' \<Rightarrow> s')"
| "vs_do (Add_ptr cp) s = (case vs_add_container_ptr cp s of Inl e \<Rightarrow> s | Inr s' \<Rightarrow> s')"
| "vs_do (Del n) s = snd (vs_del_container n s)"
| "vs_do Del_all s = snd (vs_del_containers s)"

text \<open>
  Where a container may come from: a call that named a path below the root directory, to which the access was
  granted in the file system of that call, or an object that the program handed over.
\<close>

definition came_from :: "vs_call set \<Rightarrow> string \<Rightarrow> bool \<Rightarrow> string \<Rightarrow> bes_container \<Rightarrow> bool" where
  "came_from calls root follow n c =
     (container_type c \<noteq> [] \<and> symbolic_name c = n \<and>
      (Add_ptr (Some c) \<in> calls \<or>
       (\<exists>lstat stat real type. Add lstat stat n real type \<in> calls \<and>
          check_path lstat stat real root follow = Inr () \<and> find_sub (real_name c) ''..'' 0 = None \<and>
          c = \<lparr>symbolic_name = n, real_name = root @ ''/'' @ real, container_type = type, constraint = [], attributes = []\<rparr>)))"

definition vs_ok :: "vs_call set \<Rightarrow> string \<Rightarrow> bool \<Rightarrow> volatile_storage \<Rightarrow> bool" where
  "vs_ok calls root follow s =
     (vs_root_dir s = root \<and> vs_follow_sym_links s = follow \<and> m_ok (vs_container_list s) \<and>
      (\<forall>n c. m_find (vs_container_list s) n = Some c \<longrightarrow> came_from calls root follow n c))"

lemma came_from_mono: "came_from calls root follow n c \<Longrightarrow> calls \<subseteq> calls' \<Longrightarrow> came_from calls' root follow n c"
  unfolding came_from_def by blast

lemma vs_ok_put:
  "vs_ok calls root follow s \<Longrightarrow> came_from calls root follow n c \<Longrightarrow>
     vs_ok calls root follow (s\<lparr>vs_container_list := m_set n c (vs_container_list s)\<rparr>)"
  by (auto simp: vs_ok_def)

lemma vs_do_ok:
  assumes "vs_ok calls root follow s"
  shows "vs_ok (insert call calls) root follow (vs_do call s)"
proof -
  have s: "vs_ok (insert call calls) root follow s" using assms came_from_mono unfolding vs_ok_def by blast
  show ?thesis
  proof (cases call)
    case (Add lstat stat n real type)
    show ?thesis
    proof (cases "vs_add_container lstat stat n real type s")
      case (Inr s')
      let ?c = "\<lparr>symbolic_name = n, real_name = root @ ''/'' @ real, container_type = type, constraint = [], attributes = []\<rparr>"
      have r: "vs_root_dir s = root" "vs_follow_sym_links s = follow" using s by (simp_all add: vs_ok_def)
      note c = vs_add_container_cases [OF Inr, unfolded r]
      have "came_from (insert call calls) root follow n ?c" using c Add by (simp add: came_from_def) blast
      then show ?thesis using vs_ok_put [OF s] c Inr Add by simp
    qed (use s Add in simp)
  next
    case (Add_ptr cp)
    show ?thesis
    proof (cases "vs_add_container_ptr cp s")
      case (Inr s')
      from vs_add_container_ptr_cases [OF this] obtain c where c: "cp = Some c" "container_type c \<noteq> []"
        "s' = s\<lparr>vs_container_list := m_set (symbolic_name c) c (vs_container_list s)\<rparr>" by blast
      have "came_from (insert call calls) root follow (symbolic_name c) c" using c Add_ptr by (simp add: came_from_def)
      then show ?thesis using vs_ok_put [OF s] c(3) Inr Add_ptr by simp
    qed (use s Add_ptr in simp)
  next
    case (Del n)
    then show ?thesis using s by (auto simp: vs_ok_def vs_del_container_def split: option.splits if_splits)
  next
    case Del_all
    then show ?thesis using s by (simp add: vs_ok_def vs_del_containers_def)
  qed
qed

lemma vs_do_all_ok: "vs_ok calls root follow s \<Longrightarrow> vs_ok (set cs \<union> calls) root follow (fold vs_do cs s)"
proof (induction cs arbitrary: s calls)
  case (Cons c cs)
  then show ?case using Cons.IH [OF vs_do_ok [OF Cons.prems, of c]] by simp
qed simp

text \<open>
  C11: Confinement: however containers are added and deleted, and however the file system changes meanwhile, a
  container that the volatile store gives out is stored under the name asked for, has a type, and was either
  handed over as an object or added by a call whose path \<open>check_path\<close> granted, relative to the root directory and with the
  store's setting for symbolic links; then its real name is that path below the root and no \<^verbatim>\<open>..\<close> occurs in it. Objects
  that are handed over are not checked.
\<close>

theorem containers_confined:
  assumes "new_volatile junk keys name = Inr s0" and "vs_look_for n (fold vs_do calls s0) = Some c"
  shows "container_type c \<noteq> [] \<and> symbolic_name c = n \<and>
    (Add_ptr (Some c) \<in> set calls \<or>
     (\<exists>lstat stat real type. Add lstat stat n real type \<in> set calls \<and>
        check_path lstat stat real (vs_root_dir s0) (vs_follow_sym_links s0) = Inr () \<and>
        find_sub (real_name c) ''..'' 0 = None \<and>
        c = \<lparr>symbolic_name = n, real_name = vs_root_dir s0 @ ''/'' @ real, container_type = type, constraint = [], attributes = []\<rparr>))"
proof -
  have "vs_ok {} (vs_root_dir s0) (vs_follow_sym_links s0) s0"
    using assms(1) by (auto simp: new_volatile_def vs_ok_def Let_def split: if_splits)
  from vs_do_all_ok [OF this, of calls]
  have "came_from (set calls) (vs_root_dir s0) (vs_follow_sym_links s0) n c"
    using assms(2) by (auto simp: vs_look_for_def vs_ok_def)
  then show ?thesis unfolding came_from_def .
qed

text \<open>A store below \<^verbatim>\<open>/d\<close>; a call that is refused, one that is granted, and one that deletes something else.\<close>

definition demo_store_0 :: volatile_storage where
  "demo_store_0 = \<lparr>vs_name = ''default'', vs_root_dir = ''/d'', vs_follow_sym_links = False, vs_container_list = []\<rparr>"

definition demo_calls :: "vs_call list" where
  "demo_calls = [Add (\<lambda>_. Node True) (\<lambda>_. Node True) ''c'' ''link'' ''nc'', Add (\<lambda>_. Node False) (\<lambda>_. Node False) ''c'' ''f.nc'' ''nc'', Del ''b'']"

theorem containers_confined_witness:
  "\<exists>c. vs_look_for ''c'' (fold vs_do demo_calls demo_store_0) = Some c \<and> real_name c = ''/d/f.nc'' \<and>
     (\<exists>lstat stat real type. Add lstat stat ''c'' real type \<in> set demo_calls \<and>
        check_path lstat stat real ''/d'' False = Inr () \<and> real_name c = ''/d'' @ ''/'' @ real)"
proof -
  let ?c = "\<lparr>symbolic_name = ''c'', real_name = ''/d/f.nc'', container_type = ''nc'', constraint = [], attributes = []\<rparr>"
  have n: "new_volatile False (\<lambda>k. if k = ''BES.Data.RootDirectory'' then Some ''/d'' else None) ''default'' = Inr demo_store_0"
    by (simp add: new_volatile_def demo_store_0_def)
  have cp: "check_path (\<lambda>_. Node False) (\<lambda>_. Node False) ''f.nc'' ''/d'' False = Inr ()"
    "\<exists>e. check_path (\<lambda>_. Node True) (\<lambda>_. Node True) ''link'' ''/d'' False = Inl e"
  proof -
    have "check_path (\<lambda>_. Node True) (\<lambda>_. Node True) ''link'' ''/d'' False \<noteq> Inr ()"
      by (simp add: check_path_def check_path_loop_ok strip_last_slash_def substr_def find_sub_def path_nodes_def node_ok_def)
    then show "\<exists>e. check_path (\<lambda>_. Node True) (\<lambda>_. Node True) ''link'' ''/d'' False = Inl e" by (metis old.unit.exhaust sum.exhaust)
  qed (simp add: check_path_def check_path_loop_ok strip_last_slash_def substr_def find_sub_def path_nodes_def node_ok_def)
  have "vs_look_for ''c'' (fold vs_do demo_calls demo_store_0) = Some ?c"
    using cp by (auto simp: demo_calls_def demo_store_0_def vs_add_container_def new_file_container_def find_sub_def vs_del_container_def
        m_find_def vs_look_for_def)
  with containers_confined [OF n this] show ?thesis by (fastforce simp: demo_calls_def demo_store_0_def)
qed

text \<open>
  Whether a new volatile store follows symbolic links is decided by the configuration only when
  the key says yes: without the key, or with the value no, the flag of the new object is whatever
  the memory held, and the path check of \<open>add_container\<close> depends on it.
\<close>

theorem symlink_flag_uninitialised:
  "\<exists>s. new_volatile junk (\<lambda>k. if k = ''BES.Data.RootDirectory'' then Some ''/d'' else None) n = Inr s
     \<and> vs_follow_sym_links s = junk \<and>
   (\<exists>s'. vs_add_container (\<lambda>_. Node True) (\<lambda>_. Node True) ''c'' ''link'' ''nc'' s = Inr s') = junk"
proof -
  have cp: "check_path (\<lambda>_. Node True) (\<lambda>_. Node True) ''link'' ''/d'' junk = Inr () \<longleftrightarrow> junk"
    by (simp add: check_path_def check_path_loop_ok strip_last_slash_def substr_def find_sub_def path_nodes_def node_ok_def)
  let ?s = "\<lparr>vs_name = n, vs_root_dir = ''/d'', vs_follow_sym_links = junk, vs_container_list = []\<rparr>"
  have "(\<exists>s'. vs_add_container (\<lambda>_. Node True) (\<lambda>_. Node True) ''c'' ''link'' ''nc'' ?s = Inr s') = junk"
    using cp by (cases "check_path (\<lambda>_. Node True) (\<lambda>_. Node True) ''link'' ''/d'' junk")
      (auto simp: vs_add_container_def new_file_container_def find_sub_def)
  then show ?thesis by (intro exI [of _ ?s]) (simp add: new_volatile_def)
qed

end
