(* ===== verification/PptConnection.thy ===== *)
theory PptConnection
  imports CppMap CppString CppStream
begin

text \<open>
  The framing of the PPT protocol, \<^verbatim>\<open>bes/ppt/PPTConnection.cc\<close> and \<^verbatim>\<open>PPTStreamBuf.cc\<close>, over the
  reads and writes of \<^verbatim>\<open>bes/ppt/Socket.cc\<close>. A message is a sequence of chunks: seven hexadecimal
  digits with the length, a letter (\<open>x\<close> for extensions, \<open>d\<close> for data), the bytes; a data chunk of
  length 0 ends it.

  What arrives on a socket is a list of packets: one \<open>read\<close> returns at most what is left of the
  first packet, and a read at the end of the list fails. A \<open>write\<close> is taken to write all its bytes.
\<close>

type_synonym extensions = "(string, string) cpp_map"

section \<open>Sending\<close>

fun extensions_string :: "extensions \<Rightarrow> string" where
  "extensions_string [] = []"
| "extensions_string ((name, value) # m) =
     name @ (if value \<noteq> [] then ''='' @ value else []) @ '';'' @ extensions_string m"

definition sendExtensions :: "extensions \<Rightarrow> string" where
  "sendExtensions extensions =
     (if extensions \<noteq> []
      then (let xstr = extensions_string extensions in show_hex 7 (length xstr) @ ''x'' @ xstr)
      else [])"

definition sendChunk :: "string \<Rightarrow> extensions \<Rightarrow> string" where
  "sendChunk buffer extensions =
     (if extensions \<noteq> [] then sendExtensions extensions else []) @
     show_hex 7 (length buffer) @ ''d'' @ (if buffer \<noteq> [] then buffer else [])"

definition ppt_send :: "string \<Rightarrow> extensions \<Rightarrow> string" where
  "ppt_send buffer extensions =
     (if buffer \<noteq> [] then sendChunk buffer extensions @ sendChunk [] [] else sendChunk [] extensions)"

definition PPT_EXIT_NOW :: string where "PPT_EXIT_NOW = ''PPT_EXIT_NOW''"

definition sendExit :: string where
  "sendExit = ppt_send [] (m_set ''status'' PPT_EXIT_NOW []) @ sendChunk [] []"

section \<open>Reading from the socket\<close>

type_synonym packets = "string list"

text \<open>\<open>err\<close> is the text of \<^verbatim>\<open>strerror\<close>. A read of 0 bytes returns 0, which is a failure here.\<close>

definition sock_receive :: "string \<Rightarrow> nat \<Rightarrow> packets \<Rightarrow> (string \<times> packets) bes_result" where
  "sock_receive err n pkts =
     (case pkts of
        p # ps \<Rightarrow>
          if p = [] \<or> n = 0
          then Inl (BESInternalError (''Socket::receive: socket failure, reading on stream socket: '' @ err @ '', bytesRead: 0''))
          else Inr (take n p, if length p \<le> n then ps else drop n p # ps)
      | [] \<Rightarrow> Inl (BESInternalError (''Socket::receive: socket failure, reading on stream socket: '' @ err @ '', bytesRead: 0'')))"

lemma sock_receive_progress:
  "sock_receive err n pkts = Inr (b, pkts') \<Longrightarrow>
     0 < length b \<and> length b \<le> n \<and> concat pkts = b @ concat pkts' \<and> length (concat pkts') < length (concat pkts)"
  by (auto simp: sock_receive_def split: list.splits if_splits)

function readChunkHeader :: "string \<Rightarrow> nat \<Rightarrow> string \<Rightarrow> packets \<Rightarrow> (string \<times> packets) bes_result" where
  "readChunkHeader err buffer_size read pkts =
     (case sock_receive err buffer_size pkts of
        Inl e \<Rightarrow> Inl e
      | Inr (b, pkts') \<Rightarrow>
          if length b < buffer_size
          then readChunkHeader err (buffer_size - length b) (read @ b) pkts'
          else Inr (read @ b, pkts'))"
  by pat_completeness auto
termination
proof (relation "measure (\<lambda>(e, n, r, p). n)", goal_cases)
  case (2 err n read pkts bp b pkts')
  with sock_receive_progress [of err n pkts b pkts'] show ?case by auto
qed simp

declare readChunkHeader.simps [simp del]

text \<open>The conversion of an \<^verbatim>\<open>unsigned long\<close> to the \<^verbatim>\<open>int\<close> parameter of \<open>receive\<close>.\<close>

definition to_int :: "nat \<Rightarrow> int" where
  "to_int n = (int n + 2 ^ 31) mod 2 ^ 32 - 2 ^ 31"

text \<open>
  \<open>receive(strm, len)\<close>: \<open>len\<close> is not checked for its sign. A negative one becomes a size that does not fit into
  \<^verbatim>\<open>ssize_t\<close>, for which \<^verbatim>\<open>read\<close> of Linux fails.
\<close>

function receive_len :: "string \<Rightarrow> nat \<Rightarrow> int \<Rightarrow> string \<Rightarrow> packets \<Rightarrow> (string \<times> packets) bes_result" where
  "receive_len err buflen len strm pkts =
     (let to_read = (if int buflen < len then int buflen else len)
      in if to_read < 0
         then Inl (BESInternalError (''Socket::receive: socket failure, reading on stream socket: '' @ err @ '', bytesRead: -1''))
         else case sock_receive err (nat to_read) pkts of
                Inl e \<Rightarrow> Inl e
              | Inr (b, pkts') \<Rightarrow>
                  if int (length b) < len
                  then receive_len err buflen (len - int (length b)) (strm @ b) pkts'
                  else Inr (strm @ b, pkts'))"
  by pat_completeness auto
termination
proof (relation "measure (\<lambda>(e, bl, n, r, p). nat n)", goal_cases)
  case (2 err bl n read pkts x bp b pkts')
  with sock_receive_progress [of err "nat x" pkts b pkts'] show ?case by auto
qed simp

declare receive_len.simps [simp del]

section \<open>Reading extensions\<close>

function read_extensions_loop :: "string \<Rightarrow> nat \<Rightarrow> extensions \<Rightarrow> extensions bes_result" where
  "read_extensions_loop xstr index extensions =
     (case find_char xstr (CHR '';'') index of
        None \<Rightarrow> Inl (BESInternalError (''malformed extensions '' @ substr xstr index (length xstr - index)
                   @ '', missing semicolon''))
      | Some semi \<Rightarrow>
          (let r = (case find_char xstr (CHR ''='') index of
                      None \<Rightarrow> Inr (m_set (substr xstr index (semi - index)) [] extensions)
                    | Some eq \<Rightarrow>
                        if semi < eq then Inr (m_set (substr xstr index (semi - index)) [] extensions)
                        else if eq + 1 = semi
                        then Inl (BESInternalError (''malformed extensions '' @ substr xstr index (length xstr - index)
                               @ '', missing value after =''))
                        else Inr (m_set (substr xstr index (eq - index)) (substr xstr (eq + 1) (semi - eq - 1)) extensions))
           in case r of
                Inl e \<Rightarrow> Inl e
              | Inr ext \<Rightarrow> if length xstr \<le> semi + 1 then Inr ext else read_extensions_loop xstr (semi + 1) ext))"
  by pat_completeness auto
termination
proof (relation "measure (\<lambda>(x, i, e). length x - i)", goal_cases)
  case (2 x i e semi r ext)
  then have "find_if_from (\<lambda>c. c = CHR '';'') x i = Some semi" by (simp add: find_char_def)
  from find_if_from_SomeD [OF this] 2 show ?case by simp
qed simp

declare read_extensions_loop.simps [simp del]

definition read_extensions :: "extensions \<Rightarrow> string \<Rightarrow> extensions bes_result" where
  "read_extensions extensions xstr = read_extensions_loop xstr 0 extensions"

section \<open>Receiving a chunk\<close>

text \<open>
  \<open>receive(extensions, strm)\<close>: the flag says that the message is complete. The stream gets the data
  of a data chunk. The buffer has room for at least a header.
\<close>

definition header_length :: "string \<Rightarrow> nat" where
  "header_length h = (case extract_ulong 16 (take 7 h) of None \<Rightarrow> 0 | Some n \<Rightarrow> n)"

definition receive_chunk ::
  "string \<Rightarrow> nat \<Rightarrow> extensions \<Rightarrow> string \<Rightarrow> packets \<Rightarrow> (bool \<times> extensions \<times> string \<times> packets) bes_result" where
  "receive_chunk err buflen extensions strm pkts =
     (case readChunkHeader err 8 [] pkts of
        Inl e \<Rightarrow> Inl e
      | Inr (h, pkts1) \<Rightarrow>
          if length h \<noteq> 8 then Inl (BESInternalError ''Failed to read chunk header'')
          else
            (let inlen = header_length h
             in if h ! 7 = CHR ''x'' then
                  (case receive_len err buflen (to_int inlen) [] pkts1 of
                     Inl e \<Rightarrow> Inl e
                   | Inr (xstr, pkts2) \<Rightarrow>
                       (case read_extensions extensions xstr of
                               Inl e \<Rightarrow> Inl e
                             | Inr ext \<Rightarrow> Inr (False, ext, strm, pkts2)))
                else if h ! 7 = CHR ''d'' then
                  (if inlen = 0 then Inr (True, extensions, strm, pkts1)
                   else case receive_len err buflen (to_int inlen) strm pkts1 of
                          Inl e \<Rightarrow> Inl e
                        | Inr (s, pkts2) \<Rightarrow> Inr (False, extensions, s, pkts2))
                else Inl (BESInternalError (''type of data is '' @ [h ! 7] @ '', should be x for extensions or d for data''))))"

lemma sock_receive_shrinks: "sock_receive e n p = Inr (b, p') \<Longrightarrow> length (concat p') < length (concat p)"
  using sock_receive_progress by blast

lemma readChunkHeader_shrinks:
  "readChunkHeader e n r p = Inr (h, p') \<Longrightarrow> length (concat p') < length (concat p)"
proof (induction e n r p rule: readChunkHeader.induct)
  case (1 e n r p)
  obtain b p1 where b: "sock_receive e n p = Inr (b, p1)"
    using 1(2) by (subst (asm) readChunkHeader.simps) (auto split: sum.splits)
  note s = sock_receive_shrinks [OF b]
  show ?case
  proof (cases "length b < n")
    case True
    then have "readChunkHeader e (n - length b) (r @ b) p1 = Inr (h, p')"
      using 1(2) b by (subst (asm) readChunkHeader.simps) simp
    from 1(1) [OF b refl True this] s show ?thesis by simp
  next
    case False
    then show ?thesis using 1(2) b s by (subst (asm) readChunkHeader.simps) auto
  qed
qed

lemma receive_len_shrinks:
  "receive_len e bl n r p = Inr (s, p') \<Longrightarrow> length (concat p') < length (concat p)"
proof (induction e bl n r p rule: receive_len.induct)
  case (1 e bl n r p)
  let ?t = "if int bl < n then int bl else n"
  have nn: "\<not> ?t < 0" using 1(2) by (subst (asm) receive_len.simps) (auto simp: Let_def split: if_splits)
  obtain b p1 where b: "sock_receive e (nat ?t) p = Inr (b, p1)"
    using 1(2) nn by (subst (asm) receive_len.simps) (auto simp: Let_def split: sum.splits)
  note s = sock_receive_shrinks [OF b]
  show ?case
  proof (cases "int (length b) < n")
    case True
    then have "receive_len e bl (n - int (length b)) (r @ b) p1 = Inr (s, p')"
      using 1(2) b nn by (subst (asm) receive_len.simps) (simp add: Let_def)
    from 1(1) [OF refl nn b refl True this] s show ?thesis by simp
  next
    case False
    then show ?thesis using 1(2) b s nn by (subst (asm) receive_len.simps) (auto simp: Let_def)
  qed
qed

lemma receive_chunk_shrinks:
  assumes "receive_chunk e bl ext s p = Inr (d, ext', s', p')"
  shows "length (concat p') < length (concat p)"
proof -
  obtain h p1 where h: "readChunkHeader e 8 [] p = Inr (h, p1)"
    using assms by (auto simp: receive_chunk_def split: sum.splits)
  note s = readChunkHeader_shrinks [OF h]
  have "p' = p1 \<or> (\<exists>n r t. receive_len e bl n r p1 = Inr (t, p'))"
    using assms h
    by (auto simp: receive_chunk_def Let_def split: if_splits option.splits sum.splits)
  then show ?thesis using s receive_len_shrinks by (metis less_trans)
qed

text \<open>The loop of the server and of the clients: chunks are received until the message is complete.\<close>

function receive_message ::
  "string \<Rightarrow> nat \<Rightarrow> extensions \<Rightarrow> string \<Rightarrow> packets \<Rightarrow> (extensions \<times> string \<times> packets) bes_result" where
  "receive_message err buflen extensions strm pkts =
     (case receive_chunk err buflen extensions strm pkts of
        Inl e \<Rightarrow> Inl e
      | Inr (done, ext, s, pkts') \<Rightarrow>
          if done then Inr (ext, s, pkts') else receive_message err buflen ext s pkts')"
  by pat_completeness auto
termination
proof (relation "measure (\<lambda>(e, bl, x, s, p). length (concat p))", goal_cases)
  case (2 e bl x s p a b ext c s' d pkts')
  then show ?case by (auto dest!: receive_chunk_shrinks simp del: length_concat)
qed simp

declare receive_message.simps [simp del]

section \<open>What arrives is what was sent\<close>

definition nonempty :: "packets \<Rightarrow> bool" where
  "nonempty pkts = (\<forall>p \<in> set pkts. p \<noteq> [])"

lemma sock_receive_ok:
  assumes "nonempty pkts" "concat pkts = u @ rest" "u \<noteq> []" "0 < n" "n \<le> length u"
  shows "\<exists>k pkts'. sock_receive err n pkts = Inr (take k u, pkts') \<and> 0 < k \<and> k \<le> n \<and> nonempty pkts' \<and>
    concat pkts' = drop k u @ rest"
proof -
  obtain p ps where p: "pkts = p # ps" using assms(2,3) by (cases pkts) auto
  have pne: "p \<noteq> []" using assms(1) p by (simp add: nonempty_def)
  let ?k = "min n (length p)"
  have "take n p = take ?k u"
  proof -
    have "take n p = take ?k (concat pkts)" using p by (auto simp: min_def)
    also have "\<dots> = take ?k u" using assms(2,5) by simp
    finally show ?thesis .
  qed
  moreover have "concat (if length p \<le> n then ps else drop n p # ps) = drop ?k (concat pkts)"
    using p by (auto simp: min_def)
  moreover have "drop ?k (concat pkts) = drop ?k u @ rest" using assms(2,5) by simp
  moreover have "nonempty (if length p \<le> n then ps else drop n p # ps)"
    using assms(1) p by (auto simp: nonempty_def)
  ultimately show ?thesis using p pne assms(4)
    by (intro exI [of _ ?k] exI [of _ "if length p \<le> n then ps else drop n p # ps"]) (simp add: sock_receive_def)
qed

lemma readChunkHeader_ok:
  "nonempty pkts \<Longrightarrow> concat pkts = u @ rest \<Longrightarrow> u \<noteq> [] \<Longrightarrow>
   \<exists>pkts'. readChunkHeader err (length u) r pkts = Inr (r @ u, pkts') \<and> nonempty pkts' \<and> concat pkts' = rest"
proof (induction "length u" arbitrary: u r pkts rule: less_induct)
  case less
  obtain k pkts' where k: "sock_receive err (length u) pkts = Inr (take k u, pkts')" "0 < k" "k \<le> length u"
      "nonempty pkts'" "concat pkts' = drop k u @ rest"
    using sock_receive_ok [OF less.prems, of "length u" err] less.prems(3) by blast
  show ?case
  proof (cases "k < length u")
    case True
    have "\<exists>pkts''. readChunkHeader err (length (drop k u)) (r @ take k u) pkts' = Inr ((r @ take k u) @ drop k u, pkts'')
        \<and> nonempty pkts'' \<and> concat pkts'' = rest"
      by (rule less.hyps) (use k True in auto)
    then show ?thesis using k True by (subst readChunkHeader.simps) simp
  next
    case False
    then show ?thesis using k by (subst readChunkHeader.simps) simp
  qed
qed

lemma receive_len_ok:
  "nonempty pkts \<Longrightarrow> concat pkts = u @ rest \<Longrightarrow> u \<noteq> [] \<Longrightarrow> 0 < bl \<Longrightarrow>
   \<exists>pkts'. receive_len err bl (int (length u)) r pkts = Inr (r @ u, pkts') \<and> nonempty pkts' \<and> concat pkts' = rest"
proof (induction "length u" arbitrary: u r pkts rule: less_induct)
  case less
  let ?t = "if int bl < int (length u) then int bl else int (length u)"
  have t: "\<not> ?t < 0" "nat ?t = min bl (length u)" by auto
  have t0: "0 < nat ?t" "nat ?t \<le> length u" using less.prems(3,4) by auto
  obtain k pkts' where k: "sock_receive err (nat ?t) pkts = Inr (take k u, pkts')" "0 < k" "k \<le> nat ?t"
      "nonempty pkts'" "concat pkts' = drop k u @ rest"
    using sock_receive_ok [OF less.prems(1-3), of "nat ?t" err] t0 by blast
  have kl: "k \<le> length u" "length (take k u) = k" using k(3) t(2) by auto
  show ?case
  proof (cases "k < length u")
    case True
    have "\<exists>pkts''. receive_len err bl (int (length (drop k u))) (r @ take k u) pkts' = Inr ((r @ take k u) @ drop k u, pkts'')
        \<and> nonempty pkts'' \<and> concat pkts'' = rest"
      by (rule less.hyps) (use k True less.prems(4) in auto)
    moreover have "int (length (drop k u)) = int (length u) - int k" using kl by simp
    ultimately show ?thesis using k kl True t(1) by (subst receive_len.simps) (simp add: Let_def)
  next
    case False
    then show ?thesis using k kl t(1) by (subst receive_len.simps) (simp add: Let_def)
  qed
qed

lemma to_int_small: "n < 2 ^ 31 \<Longrightarrow> to_int n = int n"
  by (simp add: to_int_def)

lemma header_ok:
  assumes "n < 16 ^ 7"
  shows "length (show_hex 7 n @ [c]) = 8" "(show_hex 7 n @ [c]) ! 7 = c" "header_length (show_hex 7 n @ [c]) = n"
proof -
  have l: "length (show_hex 7 n) = 7" using length_show_hex [of n 6] assms by simp
  then show "length (show_hex 7 n @ [c]) = 8" "(show_hex 7 n @ [c]) ! 7 = c" by (simp_all add: nth_append)
  have "n < 2 ^ 64" using assms by simp
  then show "header_length (show_hex 7 n @ [c]) = n" using l extract_ulong_hex by (simp add: header_length_def)
qed

lemma read_header:
  assumes "nonempty pkts" "concat pkts = show_hex 7 n @ [c] @ rest" "n < 16 ^ 7"
  obtains pkts' where "readChunkHeader err 8 [] pkts = Inr (show_hex 7 n @ [c], pkts')" "nonempty pkts'" "concat pkts' = rest"
  using readChunkHeader_ok [of pkts "show_hex 7 n @ [c]" rest err "[]"] header_ok(1) [OF assms(3), of c] assms
  by auto

lemma receive_data:
  assumes "nonempty pkts" "concat pkts = show_hex 7 (length d) @ ''d'' @ d @ rest" "d \<noteq> []" "length d < 16 ^ 7" "0 < bl"
  shows "\<exists>pkts'. receive_chunk err bl ext s pkts = Inr (False, ext, s @ d, pkts') \<and> nonempty pkts' \<and> concat pkts' = rest"
proof -
  obtain p1 where p1: "readChunkHeader err 8 [] pkts = Inr (show_hex 7 (length d) @ ''d'', p1)" "nonempty p1" "concat p1 = d @ rest"
    by (rule read_header [OF assms(1) _ assms(4)]) (use assms(2) in auto)
  have "to_int (length d) = int (length d)" using assms(4) by (intro to_int_small) simp
  then show ?thesis
    using receive_len_ok [OF p1(2,3) assms(3,5), of err s] p1(1) header_ok [OF assms(4), of "CHR ''d''"] assms(3)
    by (auto simp: receive_chunk_def Let_def)
qed

lemma receive_end:
  assumes "nonempty pkts" "concat pkts = show_hex 7 0 @ ''d'' @ rest"
  shows "\<exists>pkts'. receive_chunk err bl ext s pkts = Inr (True, ext, s, pkts') \<and> nonempty pkts' \<and> concat pkts' = rest"
proof -
  obtain p1 where p1: "readChunkHeader err 8 [] pkts = Inr (show_hex 7 0 @ ''d'', p1)" "nonempty p1" "concat p1 = rest"
    by (rule read_header [OF assms(1), of 0]) (use assms(2) in auto)
  then show ?thesis using header_ok [of 0 "CHR ''d''"] by (simp add: receive_chunk_def Let_def)
qed

lemma receive_ext:
  assumes "nonempty pkts" "concat pkts = show_hex 7 (length x) @ ''x'' @ x @ rest" "x \<noteq> []" "length x < 16 ^ 7" "0 < bl"
    and "read_extensions ext x = Inr ext'"
  shows "\<exists>pkts'. receive_chunk err bl ext s pkts = Inr (False, ext', s, pkts') \<and> nonempty pkts' \<and> concat pkts' = rest"
proof -
  obtain p1 where p1: "readChunkHeader err 8 [] pkts = Inr (show_hex 7 (length x) @ ''x'', p1)" "nonempty p1" "concat p1 = x @ rest"
    by (rule read_header [OF assms(1) _ assms(4)]) (use assms(2) in auto)
  have "to_int (length x) = int (length x)" using assms(4) by (intro to_int_small) simp
  then show ?thesis
    using receive_len_ok [OF p1(2,3) assms(3,5), of err "[]"] p1(1) header_ok [OF assms(4), of "CHR ''x''"] assms(6)
    by (auto simp: receive_chunk_def Let_def)
qed

section \<open>Extensions survive\<close>

definition extension_ok :: "string \<times> string \<Rightarrow> bool" where
  "extension_ok kv = (set (fst kv) \<inter> set '';='' = {} \<and> CHR '';'' \<notin> set (snd kv))"

lemma find_char_after:
  "c \<notin> set u \<Longrightarrow> find_char (pre @ u @ c # rest) c (length pre) = Some (length pre + length u)"
proof -
  assume "c \<notin> set u"
  then have "scan (\<lambda>x. x = c) (u @ c # rest) (length pre) = Some (length pre + length u)"
    by (subst scan_append_None) auto
  then show ?thesis by (simp add: find_char_def find_if_from_def)
qed

lemma find_char_skips:
  "c \<notin> set u \<Longrightarrow> find_char (pre @ u @ rest) c (length pre) = None \<or>
     (\<exists>j. find_char (pre @ u @ rest) c (length pre) = Some j \<and> length pre + length u \<le> j)"
proof -
  assume "c \<notin> set u"
  then have "scan (\<lambda>x. x = c) (u @ rest) (length pre) = scan (\<lambda>x. x = c) rest (length pre + length u)"
    by (subst scan_append_None) auto
  then show ?thesis
    using scan_Some_iff [of "\<lambda>x. x = c" rest "length pre + length u"]
    by (cases "scan (\<lambda>x. x = c) rest (length pre + length u)") (auto simp: find_char_def find_if_from_def)
qed

lemma extensions_string_Nil: "extensions_string m = [] \<longleftrightarrow> m = []"
  by (cases "m") auto

lemma read_extensions_loop_ok:
  assumes "\<forall>kv \<in> set m. extension_ok kv" "m \<noteq> []"
  shows "read_extensions_loop (pre @ extensions_string m) (length pre) ext = Inr (fold (\<lambda>(k, v). m_set k v) m ext)"
  using assms
proof (induction m arbitrary: pre ext)
  case (Cons kv m)
  obtain k v where kv: "kv = (k, v)" by (cases kv)
  have ok: "CHR '';'' \<notin> set k" "CHR ''='' \<notin> set k" "CHR '';'' \<notin> set v"
    using Cons.prems(1) kv by (auto simp: extension_ok_def)
  let ?kv = "k @ (if v \<noteq> [] then ''='' @ v else [])"
  let ?x = "pre @ ?kv @ CHR '';'' # extensions_string m"
  have x: "pre @ extensions_string (kv # m) = ?x" using kv by simp
  have semi: "find_char ?x (CHR '';'') (length pre) = Some (length pre + length ?kv)"
    by (rule find_char_after) (use ok in auto)
  let ?r = "(case find_char ?x (CHR ''='') (length pre) of
      None \<Rightarrow> Inr (m_set (substr ?x (length pre) (length pre + length ?kv - length pre)) [] ext)
    | Some eq \<Rightarrow>
        if length pre + length ?kv < eq then Inr (m_set (substr ?x (length pre) (length pre + length ?kv - length pre)) [] ext)
        else if eq + 1 = length pre + length ?kv
        then Inl (BESInternalError (''malformed extensions '' @ substr ?x (length pre) (length ?x - length pre)
               @ '', missing value after =''))
        else Inr (m_set (substr ?x (length pre) (eq - length pre)) (substr ?x (eq + 1) (length pre + length ?kv - eq - 1)) ext))"
  have r: "?r = Inr (m_set k v ext)"
  proof (cases "v = []")
    case True
    have "CHR ''='' \<notin> set (k @ '';'')" using ok by simp
    from find_char_skips [OF this, of pre "extensions_string m"] True
    show ?thesis by (auto simp: substr_def)
  next
    case False
    have "find_char ?x (CHR ''='') (length pre) = Some (length pre + length k)"
      using find_char_after [OF ok(2), of pre "v @ CHR '';'' # extensions_string m"] False by simp
    then show ?thesis using False by (simp add: substr_def)
  qed
  have step: "read_extensions_loop ?x (length pre) ext =
     (if length ?x \<le> length pre + length ?kv + 1 then Inr (m_set k v ext)
      else read_extensions_loop ?x (length pre + length ?kv + 1) (m_set k v ext))"
    by (subst read_extensions_loop.simps) (simp only: semi option.case Let_def r sum.case)
  show ?case
  proof (cases "m = []")
    case True
    with step kv x show ?thesis by simp
  next
    case False
    have "read_extensions_loop ((pre @ ?kv @ '';'') @ extensions_string m) (length (pre @ ?kv @ '';'')) (m_set k v ext)
        = Inr (fold (\<lambda>(k, v). m_set k v) m (m_set k v ext))"
      by (rule Cons.IH) (use Cons.prems False in auto)
    then show ?thesis using step kv x False extensions_string_Nil [of m] by simp
  qed
qed simp

lemma receive_message_step:
  "receive_chunk err bl ext s pkts = Inr (d, ext', s', pkts') \<Longrightarrow>
     receive_message err bl ext s pkts
     = (if d then Inr (ext', s', pkts') else receive_message err bl ext' s' pkts')"
  by (subst receive_message.simps) simp

lemma receive_message_end:
  assumes "nonempty pkts" "concat pkts = show_hex 7 0 @ ''d'' @ rest"
  shows "\<exists>pkts'. receive_message err bl ext s pkts = Inr (ext, s, pkts') \<and> nonempty pkts' \<and> concat pkts' = rest"
  using receive_end [OF assms, of err bl ext s] receive_message_step [of err bl ext s pkts True] by auto

lemma receive_message_data:
  assumes "nonempty pkts" "concat pkts = concat (map (\<lambda>d. show_hex 7 (length d) @ ''d'' @ d) ds) @ show_hex 7 0 @ ''d'' @ rest"
    and "\<forall>d \<in> set ds. d \<noteq> [] \<and> length d < 16 ^ 7" "0 < bl"
  shows "\<exists>pkts'. receive_message err bl ext s pkts = Inr (ext, s @ concat ds, pkts') \<and> nonempty pkts' \<and> concat pkts' = rest"
  using assms(1-3)
proof (induction ds arbitrary: s pkts)
  case Nil
  then show ?case using receive_message_end [of pkts rest err bl ext s] by simp
next
  case (Cons d ds)
  let ?rest = "concat (map (\<lambda>d. show_hex 7 (length d) @ ''d'' @ d) ds) @ show_hex 7 0 @ ''d'' @ rest"
  obtain p1 where p1: "receive_chunk err bl ext s pkts = Inr (False, ext, s @ d, p1)" "nonempty p1" "concat p1 = ?rest"
    using receive_data [of pkts d ?rest bl err ext s] Cons.prems assms(4) by auto
  show ?case
    using Cons.IH [OF p1(2,3), of "s @ d"] Cons.prems receive_message_step [OF p1(1)] by simp
qed

lemma receive_message_ext:
  assumes "nonempty pkts" "concat pkts = sendExtensions m @ rest" "m_ok m" "\<forall>kv \<in> set m. extension_ok kv"
    and "length (extensions_string m) < 16 ^ 7" "0 < bl"
  shows "\<exists>pkts'. receive_message err bl [] s pkts = receive_message err bl m s pkts' \<and> nonempty pkts' \<and> concat pkts' = rest"
proof (cases "m = []")
  case True
  then show ?thesis using assms by (auto simp: sendExtensions_def)
next
  case False
  have r: "read_extensions [] (extensions_string m) = Inr m"
    using read_extensions_loop_ok [OF assms(4) False, of "[]" "[]"] fold_set_self [OF assms(3)]
    by (simp add: read_extensions_def)
  have "concat pkts = show_hex 7 (length (extensions_string m)) @ ''x'' @ extensions_string m @ rest"
    using assms(2) False by (simp add: sendExtensions_def Let_def)
  from receive_ext [OF assms(1) this _ assms(5,6) r, of err s] False extensions_string_Nil [of m]
  obtain p1 where "receive_chunk err bl [] s pkts = Inr (False, m, s, p1)" "nonempty p1" "concat p1 = rest" by auto
  then show ?thesis using receive_message_step by (metis (full_types))
qed

section \<open>Properties of the framing\<close>

text \<open>
  C2: Whatever way the network cuts the bytes into packets, the receiver of a message gets exactly
  the data and the extensions that were sent, and what follows the message stays unread. The data
  and the extension text have less than 16^7 bytes, the largest length seven digits can hold; names
  and values of extensions have no semicolon and names no equals sign.
\<close>

theorem ppt_message_arrives:
  assumes "nonempty pkts" and "concat pkts = ppt_send buffer extensions @ rest"
    and "m_ok extensions" and "\<forall>kv \<in> set extensions. extension_ok kv"
    and "length (extensions_string extensions) < 16 ^ 7" and "length buffer < 16 ^ 7" and "0 < buflen"
  shows "\<exists>pkts'. receive_message err buflen [] [] pkts = Inr (extensions, buffer, pkts')
    \<and> concat pkts' = rest"
proof -
  let ?ds = "if buffer = [] then [] else [buffer]"
  let ?rest = "concat (map (\<lambda>d. show_hex 7 (length d) @ ''d'' @ d) ?ds) @ show_hex 7 0 @ ''d'' @ rest"
  have "concat pkts = sendExtensions extensions @ ?rest"
    using assms(2) by (auto simp: ppt_send_def sendChunk_def sendExtensions_def)
  from receive_message_ext [OF assms(1) this assms(3-5,7), of err "[]"]
  obtain p1 where p1: "receive_message err buflen [] [] pkts = receive_message err buflen extensions [] p1"
      "nonempty p1" "concat p1 = ?rest" by blast
  have "\<forall>d \<in> set ?ds. d \<noteq> [] \<and> length d < 16 ^ 7" using assms(6) by (cases "buffer = []") simp_all
  from receive_message_data [OF p1(2,3) this assms(7), of err extensions "[]"]
  obtain p2 where p2: "receive_message err buflen extensions [] p1 = Inr (extensions, [] @ concat ?ds, p2)"
      "concat p2 = rest" by blast
  have "[] @ concat ?ds = buffer" by simp
  then show ?thesis using p1(1) p2 by metis
qed

theorem ppt_message_arrives_witness:
  "\<exists>pkts'. receive_message [] 100 [] [] (map (\<lambda>c. [c]) (ppt_send ''show'' [(''status'', ''ok'')]))
     = Inr ([(''status'', ''ok'')], ''show'', pkts') \<and> concat pkts' = []"
proof (rule ppt_message_arrives)
  show "nonempty (map (\<lambda>c. [c]) (ppt_send ''show'' [(''status'', ''ok'')]))" by (auto simp: nonempty_def)
  show "concat (map (\<lambda>c. [c]) (ppt_send ''show'' [(''status'', ''ok'')])) = ppt_send ''show'' [(''status'', ''ok'')] @ []"
    by (simp only: append_Nil2) (rule concat_map_singleton_id, rule refl)
  show "m_ok [(''status'', ''ok'')]" by simp
  show "\<forall>kv \<in> set [(''status'', ''ok'')]. extension_ok kv" by (simp add: extension_ok_def)
  have "length (extensions_string [(''status'', ''ok'')]) = 10" by simp
  then show "length (extensions_string [(''status'', ''ok'')]) < 16 ^ 7" by (simp only:) simp
  show "length ''show'' < 16 ^ 7" by simp
qed simp

end
