(* ===== verification/PptServer.thy ===== *)
theory PptServer
  imports PptConnection "HOL-Library.Word"
begin

text \<open>
  The two ends of a PPT connection: the output buffer of the server (\<^verbatim>\<open>bes/ppt/PPTStreamBuf.cc\<close>), the
  handshake (\<^verbatim>\<open>PPTServer.cc\<close>, \<^verbatim>\<open>PPTClient.cc\<close>, the polling of \<^verbatim>\<open>PPTConnection.cc\<close>), and the loop
  that answers the requests of one client (\<^verbatim>\<open>bes/server/BESServerHandler.cc\<close>). The code is modelled
  as it is built, without OpenSSL (the macro \<^verbatim>\<open>NOTTHERE\<close> is never defined).
\<close>

section \<open>The output buffer\<close>

text \<open>What was written to the descriptor is \<open>sb_written\<close>; a \<^verbatim>\<open>write\<close> is taken to write all its bytes.\<close>

record stream_buf =
  sb_bufsize :: nat
  sb_buffer :: string
  sb_written :: string
  sb_count :: nat

definition sb_open :: "nat \<Rightarrow> stream_buf" where
  "sb_open bufsize = \<lparr>sb_bufsize = (if bufsize = 0 then 1 else bufsize), sb_buffer = [], sb_written = [], sb_count = 0\<rparr>"

definition sb_sync :: "stream_buf \<Rightarrow> stream_buf" where
  "sb_sync b =
     (if sb_buffer b \<noteq> []
      then b\<lparr>sb_written := sb_written b @ show_hex 7 (length (sb_buffer b)) @ ''d'' @ sb_buffer b,
             sb_count := sb_count b + length (sb_buffer b), sb_buffer := []\<rparr>
      else b)"

definition sb_overflow :: "char \<Rightarrow> stream_buf \<Rightarrow> stream_buf" where
  "sb_overflow c b = (let b1 = sb_sync b in b1\<lparr>sb_buffer := sb_buffer b1 @ [c]\<rparr>)"

text \<open>Output of a character through \<^verbatim>\<open>std::streambuf\<close>: into the buffer, or \<open>overflow\<close> when it is full.\<close>

definition sb_put :: "char \<Rightarrow> stream_buf \<Rightarrow> stream_buf" where
  "sb_put c b = (if length (sb_buffer b) < sb_bufsize b then b\<lparr>sb_buffer := sb_buffer b @ [c]\<rparr> else sb_overflow c b)"

definition sb_puts :: "string \<Rightarrow> stream_buf \<Rightarrow> stream_buf" where
  "sb_puts s b = fold sb_put s b"

definition eod_marker :: string where "eod_marker = ''0000000d''"

definition sb_finish :: "stream_buf \<Rightarrow> stream_buf" where
  "sb_finish b = (let b1 = sb_sync b in b1\<lparr>sb_written := sb_written b1 @ eod_marker, sb_count := 0\<rparr>)"

definition send_chunk_size :: "32 word \<Rightarrow> 32 word" where
  "send_chunk_size bufsize = bufsize - 15"

definition recv_chunk_size :: "32 word \<Rightarrow> 32 word" where
  "recv_chunk_size bufsize = bufsize - 15"

text \<open>The chunks that a buffer has written: none is empty and none is larger than the buffer.\<close>

definition chunk_text :: "string list \<Rightarrow> string" where
  "chunk_text ds = concat (map (\<lambda>d. show_hex 7 (length d) @ ''d'' @ d) ds)"

definition sb_holds :: "stream_buf \<Rightarrow> string \<Rightarrow> string \<Rightarrow> bool" where
  "sb_holds b w s =
     (0 < sb_bufsize b \<and> length (sb_buffer b) \<le> sb_bufsize b \<and>
      (\<exists>ds. sb_written b = w @ chunk_text ds \<and> concat ds @ sb_buffer b = s \<and>
            (\<forall>d \<in> set ds. d \<noteq> [] \<and> length d \<le> sb_bufsize b)))"

lemma chunk_text_simps [simp]:
  "chunk_text [] = []" "chunk_text (d # ds) = show_hex 7 (length d) @ ''d'' @ d @ chunk_text ds"
  "chunk_text (ds @ es) = chunk_text ds @ chunk_text es"
  by (simp_all add: chunk_text_def)

lemma sb_holds_open: "sb_holds (sb_open n) [] []"
  by (auto simp: sb_holds_def sb_open_def intro!: exI [of _ "[]"])

lemma sb_sync_size [simp]: "sb_bufsize (sb_sync b) = sb_bufsize b" "sb_buffer (sb_sync b) = []"
  by (simp_all add: sb_sync_def)

lemma sb_holds_sync:
  assumes "sb_holds b w s"
  shows "sb_holds (sb_sync b) w s"
proof (cases "sb_buffer b = []")
  case True
  then show ?thesis using assms by (simp add: sb_sync_def)
next
  case False
  obtain ds where ds: "sb_written b = w @ chunk_text ds" "concat ds @ sb_buffer b = s"
      "\<forall>d \<in> set ds. d \<noteq> [] \<and> length d \<le> sb_bufsize b"
    using assms by (auto simp: sb_holds_def)
  have "sb_written (sb_sync b) = w @ chunk_text (ds @ [sb_buffer b])"
    using False ds(1) by (simp add: sb_sync_def)
  moreover have "concat (ds @ [sb_buffer b]) @ sb_buffer (sb_sync b) = s" using ds(2) by simp
  moreover have "\<forall>d \<in> set (ds @ [sb_buffer b]). d \<noteq> [] \<and> length d \<le> sb_bufsize (sb_sync b)"
    using assms False ds(3) by (auto simp: sb_holds_def)
  moreover have "0 < sb_bufsize (sb_sync b) \<and> length (sb_buffer (sb_sync b)) \<le> sb_bufsize (sb_sync b)"
    using assms by (simp add: sb_holds_def)
  ultimately show ?thesis unfolding sb_holds_def by blast
qed

lemma sb_holds_put: "sb_holds b w s \<Longrightarrow> sb_holds (sb_put c b) w (s @ [c])"
proof (cases "length (sb_buffer b) < sb_bufsize b")
  case True
  assume "sb_holds b w s"
  then show ?thesis using True by (auto simp: sb_holds_def sb_put_def)
next
  case False
  assume "sb_holds b w s"
  from sb_holds_sync [OF this] show ?thesis
    using False by (auto simp: sb_holds_def sb_put_def sb_overflow_def Let_def)
qed

lemma sb_holds_puts: "sb_holds b w s \<Longrightarrow> sb_holds (sb_puts t b) w (s @ t)"
proof (induction t arbitrary: b s)
  case (Cons c t)
  from Cons.IH [OF sb_holds_put [OF Cons.prems, of c]] show ?case by (simp add: sb_puts_def)
qed (simp add: sb_puts_def)

lemma sb_puts_size [simp]: "sb_bufsize (sb_puts t b) = sb_bufsize b"
  by (induction t arbitrary: b) (auto simp: sb_puts_def sb_put_def sb_overflow_def Let_def)

lemma sb_finish_text:
  assumes "sb_holds b w s"
  shows "\<exists>ds. sb_written (sb_finish b) = w @ chunk_text ds @ eod_marker \<and> concat ds = s \<and>
    (\<forall>d \<in> set ds. d \<noteq> [] \<and> length d \<le> sb_bufsize b)"
  using sb_holds_sync [OF assms] by (auto simp: sb_holds_def sb_finish_def Let_def)

lemma eod_is_empty_chunk: "eod_marker = show_hex 7 0 @ ''d''"
  by code_simp

section \<open>Polling\<close>

text \<open>
  One \<^verbatim>\<open>poll\<close> of a second: an error (\<open>True\<close> for \<^verbatim>\<open>EINTR\<close> and \<^verbatim>\<open>EAGAIN\<close>, which only uses up a turn),
  input, or anything else. \<open>None\<close> stands for the result -1 after the last turn.
\<close>

datatype poll_result = Poll_error bool string | Poll_in | Poll_other

function nonblocking_loop ::
  "string \<Rightarrow> (nat \<Rightarrow> poll_result) \<Rightarrow> nat \<Rightarrow> nat \<Rightarrow> nat \<Rightarrow> packets \<Rightarrow> (string \<times> packets) option bes_result" where
  "nonblocking_loop err poll timeout j buffer_size pkts =
     (if timeout \<le> j then Inr None
      else case poll j of
             Poll_error again msg \<Rightarrow>
               if again then nonblocking_loop err poll timeout (j + 1) buffer_size pkts
               else Inl (BESInternalError (''poll error '' @ msg))
           | Poll_in \<Rightarrow> rbind (sock_receive err buffer_size pkts) (\<lambda>r. Inr (Some r))
           | Poll_other \<Rightarrow> nonblocking_loop err poll timeout (j + 1) buffer_size pkts)"
  by pat_completeness auto
termination by (relation "measure (\<lambda>(e, p, t, j, n, k). t - j)") auto

declare nonblocking_loop.simps [simp del]

definition readBufferNonBlocking ::
  "string \<Rightarrow> (nat \<Rightarrow> poll_result) \<Rightarrow> nat \<Rightarrow> nat \<Rightarrow> packets \<Rightarrow> (string \<times> packets) option bes_result" where
  "readBufferNonBlocking err poll timeout buffer_size pkts = nonblocking_loop err poll timeout 0 buffer_size pkts"

section \<open>The handshake\<close>

definition PPTCLIENT_TESTING_CONNECTION :: string where "PPTCLIENT_TESTING_CONNECTION = ''PPTCLIENT_TESTING_CONNECTION''"
definition PPTSERVER_CONNECTION_OK :: string where "PPTSERVER_CONNECTION_OK = ''PPTSERVER_CONNECTION_OK''"
definition PPTSERVER_AUTHENTICATE :: string where "PPTSERVER_AUTHENTICATE = ''PPTSERVER_AUTHENTICATE''"
definition PPT_PROTOCOL_UNDEFINED :: string where "PPT_PROTOCOL_UNDEFINED = ''PPT_PROTOCOL_UNDEFINED''"

text \<open>What \<open>welcomeClient\<close> did: its return value, what it sent, whether it closed the socket.\<close>

record welcome_result =
  welcome_ret :: int
  welcome_sent :: string
  welcome_closed :: bool

definition authenticateClient :: "welcome_result bes_result" where
  "authenticateClient =
     Inl (BESInternalError ''Authentication requested for this server but OpenSSL is not built into the server'')"

definition welcomeClient :: "bool \<Rightarrow> (string \<times> packets) option bes_result \<Rightarrow> welcome_result bes_result" where
  "welcomeClient secure read =
     rbind read (\<lambda>r.
       case r of
         None \<Rightarrow> Inr \<lparr>welcome_ret = - 1, welcome_sent = [], welcome_closed = True\<rparr>
       | Some (status, pkts) \<Rightarrow>
           if status \<noteq> PPTCLIENT_TESTING_CONNECTION
           then Inr \<lparr>welcome_ret = - 1,
                     welcome_sent = ''PPT cannot negotiate, '' @ '' client started the connection with '' @ status,
                     welcome_closed = True\<rparr>
           else if \<not> secure
           then Inr \<lparr>welcome_ret = 0, welcome_sent = PPTSERVER_CONNECTION_OK, welcome_closed = False\<rparr>
           else authenticateClient)"

definition authenticateWithServer :: "unit bes_result" where
  "authenticateWithServer =
     Inl (BESInternalError ''Server has requested authentication, but OpenSSL is not built into this client'')"

text \<open>
  \<open>PPTClient::initConnection\<close> after the test message was sent (\<open>sent\<close> is the result of that), with
  the result of reading the answer. \<open>string status(inBuff, 0, bytesRead)\<close> copies the buffer as a
  C string, so the answer ends at the first NUL.
\<close>

definition client_initConnection :: "unit bes_result \<Rightarrow> (string \<times> packets) option bes_result \<Rightarrow> unit bes_result" where
  "client_initConnection sent read =
     (case sent of
        Inl e \<Rightarrow> Inl (BESInternalError (''Failed to initialize connection to server'' @ [lf] @ get_message e))
      | Inr _ \<Rightarrow>
          rbind read (\<lambda>r.
            case r of
              None \<Rightarrow> Inl (BESInternalError ''Could not connect to server, server may be down or busy'')
            | Some (b, pkts) \<Rightarrow>
                (let status = c_str (take 64 b)
                 in if status = PPT_PROTOCOL_UNDEFINED
                    then Inl (BESInternalError ''Could not connect to server, server may be down or busy'')
                    else if status = PPTSERVER_AUTHENTICATE then authenticateWithServer
                    else if status \<noteq> PPTSERVER_CONNECTION_OK
                    then Inl (BESInternalError (''Server reported an invalid connection, '' @ [dquote] @ status @ [dquote]))
                    else Inr ())))"

text \<open>\<open>get_secure_files\<close> of the two ends; \<open>keys\<close> is the configuration, \<open>atoi\<close> reads a decimal number.\<close>

definition key_or :: "(string \<Rightarrow> string option) \<Rightarrow> string \<Rightarrow> string \<Rightarrow> string bes_result" where
  "key_or keys key msg =
     (case keys key of
        Some v \<Rightarrow> if v = [] then Inl (BESSyntaxUserError msg) else Inr v
      | None \<Rightarrow> Inl (BESSyntaxUserError msg))"

definition atoi :: "string \<Rightarrow> int" where
  "atoi s = (case extract_int 10 (c_str s) of Some n \<Rightarrow> n | None \<Rightarrow> 0)"

definition server_get_secure_files :: "(string \<Rightarrow> string option) \<Rightarrow> (string \<times> string \<times> string \<times> int) bes_result" where
  "server_get_secure_files keys =
     rbind (key_or keys ''BES.ServerCertFile'' ''Unable to determine server certificate file.'') (\<lambda>cfile.
     rbind (key_or keys ''BES.ServerCertAuthFile'' ''Unable to determine server certificate authority file.'') (\<lambda>cafile.
     rbind (key_or keys ''BES.ServerKeyFile'' ''Unable to determine server key file.'') (\<lambda>kfile.
     rbind (key_or keys ''BES.ServerSecurePort'' ''Unable to determine secure connection port.'') (\<lambda>portstr.
     if atoi portstr = 0
     then Inl (BESSyntaxUserError (''Unable to determine secure connection port from string '' @ portstr))
     else Inr (cfile, cafile, kfile, atoi portstr)))))"

definition client_get_secure_files :: "(string \<Rightarrow> string option) \<Rightarrow> (string \<times> string \<times> string) bes_result" where
  "client_get_secure_files keys =
     rbind (key_or keys ''BES.ClientCertFile'' ''Unable to determine client certificate file.'') (\<lambda>cfile.
     rbind (key_or keys ''BES.ClientCertAuthFile'' ''Unable to determine client certificate authority file.'') (\<lambda>cafile.
     rbind (key_or keys ''BES.ClientKeyFile'' ''Unable to determine client key file.'') (\<lambda>kfile.
     Inr (cfile, cafile, kfile))))"

text \<open>One turn of \<open>PPTServer::initConnection\<close>: what happens to the socket that \<open>accept\<close> gave.\<close>

datatype serve_action = No_socket | Refused | Not_welcome | Served

definition serve_turn :: "bool option \<Rightarrow> welcome_result bes_result \<Rightarrow> serve_action bes_result" where
  "serve_turn allowed w =
     (case allowed of
        None \<Rightarrow> Inr No_socket
      | Some allow \<Rightarrow>
          if allow then rbind w (\<lambda>w. Inr (if welcome_ret w \<noteq> - 1 then Served else Not_welcome))
          else Inr Refused)"

text \<open>\<open>PPTClient::closeConnection\<close>: the bytes sent before the socket is closed, and the flags after.\<close>

definition client_closeConnection :: "bool \<Rightarrow> bool \<Rightarrow> string \<times> bool \<times> bool \<times> bool" where
  "client_closeConnection connected brokenPipe =
     (if connected then (if \<not> brokenPipe then sendExit else [], True, False, False)
      else ([], False, connected, brokenPipe))"

section \<open>Serving the requests of a client\<close>

text \<open>
  What executing a command gives (\<open>BESXMLInterface::execute_request\<close>): the status, the text written
  to \<^verbatim>\<open>cout\<close> until then, and the text that \<open>finish_with_error\<close> writes. The interface keeps a state.
\<close>

record response =
  resp_status :: int
  resp_out :: string
  resp_error :: string

definition BES_INTERNAL_FATAL_ERROR :: int where "BES_INTERNAL_FATAL_ERROR = 2"
definition SERVER_EXIT_ABNORMAL_TERMINATION :: int where "SERVER_EXIT_ABNORMAL_TERMINATION = 2"
definition CHILD_SUBPROCESS_READY :: int where "CHILD_SUBPROCESS_READY = 6"

text \<open>The bytes of the answer to one command, and whether the process then exits.\<close>

definition error_extensions :: "int \<Rightarrow> extensions" where
  "error_extensions status =
     (let e = m_set ''status'' ''error'' []
      in if status = BES_INTERNAL_FATAL_ERROR then m_set ''exit'' ''true'' e else e)"

definition answer :: "nat \<Rightarrow> response \<Rightarrow> string" where
  "answer bufsize r =
     (let fds = sb_puts (resp_out r) (sb_open bufsize)
      in if resp_status r = 0 then sb_written (sb_finish fds)
         else
           (let fds = sb_sync fds;
                fds = fds\<lparr>sb_written := sb_written fds @ sendExtensions (error_extensions (resp_status r))\<rparr>
            in sb_written (sb_finish (sb_puts (resp_error r) fds))))"

datatype session_end = Raised bes_error | Exited int

lemma receive_message_shrinks:
  "receive_message e bl ext s p = Inr (ext', s', p') \<Longrightarrow> length (concat p') < length (concat p)"
proof (induction e bl ext s p rule: receive_message.induct)
  case (1 e bl ext s p)
  obtain d x t q where c: "receive_chunk e bl ext s p = Inr (d, x, t, q)"
    using 1(2) by (subst (asm) receive_message.simps) (auto split: option.splits sum.splits)
  note s = receive_chunk_shrinks [OF c]
  show ?case
  proof (cases d)
    case True
    then show ?thesis using 1(2) s c by (subst (asm) receive_message.simps) simp
  next
    case False
    then have "receive_message e bl x t q = Inr (ext', s', p')"
      using 1(2) c by (subst (asm) receive_message.simps) simp
    from 1(1) [OF c refl refl refl False this] s show ?thesis by simp
  qed
qed

text \<open>
  \<open>BESServerHandler::execute\<close>. The map of extensions is declared outside the loop and keeps what
  earlier messages put into it; \<open>extensions["status"]\<close> inserts the name. The result is how the
  process ends and all the bytes it has written.
\<close>

function execute ::
  "string \<Rightarrow> nat \<Rightarrow> nat \<Rightarrow> ('st \<Rightarrow> string \<Rightarrow> 'st \<times> response) \<Rightarrow> 'st \<Rightarrow> extensions \<Rightarrow> packets \<Rightarrow> string
     \<Rightarrow> session_end \<times> string" where
  "execute err buflen bufsize run st extensions pkts out =
     (case receive_message err buflen extensions [] pkts of
        Inl e \<Rightarrow> (Raised e, out)
      | Inr (ext, cmd_str, pkts') \<Rightarrow>
          (let (status, ext') = m_index [] ''status'' ext
           in if status = PPT_EXIT_NOW then (Exited CHILD_SUBPROCESS_READY, out)
              else
                (let (st', r) = run st cmd_str;
                     out' = out @ answer bufsize r
                 in if resp_status r = BES_INTERNAL_FATAL_ERROR
                    then (Exited SERVER_EXIT_ABNORMAL_TERMINATION, out')
                    else execute err buflen bufsize run st' ext' pkts' out')))"
  by pat_completeness auto
termination
proof (relation "measure (\<lambda>(e, bl, bs, run, st, ext, p, out). length (concat p))", goal_cases)
  case (2 e bl bs run st ext p out)
  then show ?case by (auto dest!: receive_message_shrinks simp del: length_concat)
qed simp

declare execute.simps [simp del]

text \<open>
  \<open>BESServerHandler::handle\<close>: with the method \<open>single\<close> the server itself serves the client, otherwise
  a child does; \<open>fork\<close> gives the sign of the process number, or the text of the error.
\<close>

datatype fork_result = Fork_failed string | In_child | In_parent

definition handle :: "string \<Rightarrow> fork_result \<Rightarrow> 'r \<Rightarrow> 'r option bes_result" where
  "handle method fork serve =
     (if method = ''single'' then Inr (Some serve)
      else case fork of
             Fork_failed err \<Rightarrow> Inl (BESInternalError (''fork error '' @ err))
           | In_child \<Rightarrow> Inr (Some serve)
           | In_parent \<Rightarrow> Inr None)"

section \<open>The answer arrives\<close>

lemma receive_message_chunks:
  assumes "nonempty pkts" "concat pkts = chunk_text ds @ rest" "\<forall>d \<in> set ds. d \<noteq> [] \<and> length d < 16 ^ 7" "0 < bl"
  shows "\<exists>p1. receive_message err bl ext s pkts = receive_message err bl ext (s @ concat ds) p1 \<and> nonempty p1 \<and> concat p1 = rest"
  using assms(1-3)
proof (induction ds arbitrary: s pkts)
  case Nil
  then show ?case by auto
next
  case (Cons d ds)
  obtain p1 where p1: "receive_chunk err bl ext s pkts = Inr (False, ext, s @ d, p1)" "nonempty p1"
      "concat p1 = chunk_text ds @ rest"
    using receive_data [of pkts d "chunk_text ds @ rest" bl err ext s] Cons.prems assms(4) by auto
  show ?case
    using Cons.IH [OF p1(2,3), of "s @ d"] Cons.prems receive_message_step [OF p1(1)] by simp
qed

lemma receive_message_extensions:
  assumes "nonempty pkts" "concat pkts = sendExtensions m @ rest" "m \<noteq> []" "\<forall>kv \<in> set m. extension_ok kv"
    and "length (extensions_string m) < 16 ^ 7" "0 < bl"
  shows "\<exists>p1. receive_message err bl ext s pkts = receive_message err bl (fold (\<lambda>(k, v). m_set k v) m ext) s p1
      \<and> nonempty p1 \<and> concat p1 = rest"
proof -
  have r: "read_extensions ext (extensions_string m) = Inr (fold (\<lambda>(k, v). m_set k v) m ext)"
    using read_extensions_loop_ok [OF assms(4,3), of "[]" ext] by (simp add: read_extensions_def)
  have "concat pkts = show_hex 7 (length (extensions_string m)) @ ''x'' @ extensions_string m @ rest"
    using assms(2,3) by (simp add: sendExtensions_def Let_def)
  from receive_ext [OF assms(1) this _ assms(5,6) r, of err s] assms(3) extensions_string_Nil [of m]
  obtain p1 where "receive_chunk err bl ext s pkts = Inr (False, fold (\<lambda>(k, v). m_set k v) m ext, s, p1)"
      "nonempty p1" "concat p1 = rest" by auto
  then show ?thesis using receive_message_step by (metis (full_types))
qed

lemma error_extensions_ok:
  "error_extensions status \<noteq> []" "\<forall>kv \<in> set (error_extensions status). extension_ok kv"
  "length (extensions_string (error_extensions status)) < 16 ^ 7"
  "fold (\<lambda>(k, v). m_set k v) (error_extensions status) [] = error_extensions status"
  by (simp_all add: error_extensions_def extension_ok_def Let_def)

text \<open>
  C3: The client gets what the server printed, whatever the size of the server's buffer and however
  the network cuts the bytes: after a success exactly the text of the answer without extensions,
  after a failure the text printed so far followed by the error report, and the extensions tell the
  client that there was an error and, for a fatal one, that the server exits.
\<close>

theorem answer_arrives:
  assumes "nonempty pkts" and "concat pkts = answer bufsize r @ rest" and "bufsize < 16 ^ 7" and "0 < buflen"
  shows "\<exists>pkts'. receive_message err buflen [] [] pkts
     = Inr (if resp_status r = 0 then ([], resp_out r, pkts')
                  else (error_extensions (resp_status r), resp_out r @ resp_error r, pkts'))
     \<and> concat pkts' = rest"
proof -
  let ?bs = "sb_bufsize (sb_open bufsize)"
  have bs: "?bs < 16 ^ 7" using assms(3) by (simp add: sb_open_def)
  let ?f = "sb_puts (resp_out r) (sb_open bufsize)"
  have f: "sb_holds ?f [] (resp_out r)" using sb_holds_puts [OF sb_holds_open [of bufsize], of "resp_out r"] by simp
  show ?thesis
  proof (cases "resp_status r = 0")
    case True
    obtain ds where ds: "sb_written (sb_finish ?f) = chunk_text ds @ eod_marker" "concat ds = resp_out r"
        "\<forall>d \<in> set ds. d \<noteq> [] \<and> length d \<le> ?bs"
      using sb_finish_text [OF f] by auto
    have c: "concat pkts = concat (map (\<lambda>d. show_hex 7 (length d) @ ''d'' @ d) ds) @ show_hex 7 0 @ ''d'' @ rest"
      using assms(2) True ds(1) by (simp add: answer_def Let_def eod_is_empty_chunk chunk_text_def)
    have "\<forall>d \<in> set ds. d \<noteq> [] \<and> length d < 16 ^ 7" using ds(3) bs by (meson le_less_trans)
    from receive_message_data [OF assms(1) c this assms(4), of err "[]" "[]"]
    obtain p1 where "receive_message err buflen [] [] pkts = Inr ([], [] @ concat ds, p1)" "concat p1 = rest"
      by blast
    then show ?thesis using True ds(2) by simp
  next
    case False
    let ?e = "sendExtensions (error_extensions (resp_status r))"
    let ?g = "(sb_sync ?f)\<lparr>sb_written := sb_written (sb_sync ?f) @ ?e\<rparr>"
    obtain ds where ds: "sb_written (sb_sync ?f) = chunk_text ds" "concat ds = resp_out r"
        "\<forall>d \<in> set ds. d \<noteq> [] \<and> length d \<le> ?bs"
      using sb_holds_sync [OF f] by (auto simp: sb_holds_def)
    have g: "sb_holds ?g (chunk_text ds @ ?e) []"
      using ds(1) sb_holds_sync [OF f] by (auto simp: sb_holds_def intro!: exI [of _ "[]"])
    obtain es where es: "sb_written (sb_finish (sb_puts (resp_error r) ?g)) = (chunk_text ds @ ?e) @ chunk_text es @ eod_marker"
        "concat es = resp_error r" "\<forall>d \<in> set es. d \<noteq> [] \<and> length d \<le> ?bs"
      using sb_finish_text [OF sb_holds_puts [OF g, of "resp_error r"]] by auto
    have small: "\<forall>d \<in> set ds. d \<noteq> [] \<and> length d < 16 ^ 7" "\<forall>d \<in> set es. d \<noteq> [] \<and> length d < 16 ^ 7"
      using ds(3) es(3) bs by (meson le_less_trans)+
    have "concat pkts = chunk_text ds @ ?e @ chunk_text es @ show_hex 7 0 @ ''d'' @ rest"
      using assms(2) False es(1) by (simp add: answer_def Let_def eod_is_empty_chunk)
    from receive_message_chunks [OF assms(1) this small(1) assms(4), of err "[]" "[]"]
    obtain p1 where p1: "receive_message err buflen [] [] pkts = receive_message err buflen [] ([] @ concat ds) p1"
        "nonempty p1" "concat p1 = ?e @ chunk_text es @ show_hex 7 0 @ ''d'' @ rest" by blast
    from receive_message_extensions [OF p1(2,3) error_extensions_ok(1-3) assms(4), of err "[]" "[] @ concat ds"]
    obtain p2 where p2: "receive_message err buflen [] ([] @ concat ds) p1
        = receive_message err buflen (error_extensions (resp_status r)) ([] @ concat ds) p2"
        "nonempty p2" "concat p2 = chunk_text es @ show_hex 7 0 @ ''d'' @ rest"
      unfolding error_extensions_ok(4) by blast
    from receive_message_data [OF p2(2) _ small(2) assms(4), of rest err] p2(3)
    obtain p3 where p3: "receive_message err buflen (error_extensions (resp_status r)) ([] @ concat ds) p2
        = Inr (error_extensions (resp_status r), ([] @ concat ds) @ concat es, p3)" "concat p3 = rest"
      unfolding chunk_text_def by blast
    then show ?thesis using p1(1) p2(1) False ds(2) es(2) by simp
  qed
qed

theorem answer_arrives_witness:
  "\<exists>pkts'. receive_message [] 100 [] [] (map (\<lambda>c. [c]) (answer 3 \<lparr>resp_status = 4, resp_out = ''hello'', resp_error = ''no''\<rparr>))
     = Inr (error_extensions 4, ''hello'' @ ''no'', pkts') \<and> concat pkts' = []"
proof -
  let ?r = "\<lparr>resp_status = 4, resp_out = ''hello'', resp_error = ''no''\<rparr>"
  have "\<exists>pkts'. receive_message [] 100 [] [] (map (\<lambda>c. [c]) (answer 3 ?r))
     = Inr (if resp_status ?r = 0 then ([], resp_out ?r, pkts')
                  else (error_extensions (resp_status ?r), resp_out ?r @ resp_error ?r, pkts'))
     \<and> concat pkts' = []"
  proof (rule answer_arrives)
    show "nonempty (map (\<lambda>c. [c]) (answer 3 ?r))" by (auto simp: nonempty_def)
    show "concat (map (\<lambda>c. [c]) (answer 3 ?r)) = answer 3 ?r @ []"
      by (simp only: append_Nil2) (rule concat_map_singleton_id, rule refl)
  qed simp_all
  then show ?thesis by simp
qed

section \<open>The handshake and the session\<close>

text \<open>
  The greeting works: a server that is not secure and gets the client's test message answers in
  a way the client accepts; a greeting that is anything else is refused, the socket is closed and
  the refusal is an error for the client; a client never accepts a secure server of this build.
\<close>

theorem handshake:
  "(\<exists>w. welcomeClient False (Inr (Some (PPTCLIENT_TESTING_CONNECTION, p))) = Inr w \<and>
      welcome_ret w = 0 \<and> \<not> welcome_closed w \<and>
      client_initConnection (Inr ()) (Inr (Some (welcome_sent w, p'))) = Inr ()) \<and>
   (status \<noteq> PPTCLIENT_TESTING_CONNECTION \<longrightarrow>
     (\<exists>w e. welcomeClient secure (Inr (Some (status, p))) = Inr w \<and> welcome_ret w = - 1 \<and> welcome_closed w \<and>
        client_initConnection (Inr ()) (Inr (Some (welcome_sent w, p'))) = Inl e)) \<and>
   (\<exists>e. client_initConnection (Inr ()) (Inr (Some (PPTSERVER_AUTHENTICATE, p'))) = Inl e)"
proof (intro conjI impI)
  show "\<exists>w. welcomeClient False (Inr (Some (PPTCLIENT_TESTING_CONNECTION, p))) = Inr w \<and>
      welcome_ret w = 0 \<and> \<not> welcome_closed w \<and>
      client_initConnection (Inr ()) (Inr (Some (welcome_sent w, p'))) = Inr ()"
    by (simp add: welcomeClient_def client_initConnection_def Let_def c_str_def PPTSERVER_CONNECTION_OK_def
        PPT_PROTOCOL_UNDEFINED_def PPTSERVER_AUTHENTICATE_def)
  show "\<exists>w e. welcomeClient secure (Inr (Some (status, p))) = Inr w \<and> welcome_ret w = - 1 \<and> welcome_closed w \<and>
        client_initConnection (Inr ()) (Inr (Some (welcome_sent w, p'))) = Inl e"
    if "status \<noteq> PPTCLIENT_TESTING_CONNECTION"
    using that
    by (simp add: welcomeClient_def client_initConnection_def Let_def c_str_def PPTSERVER_CONNECTION_OK_def
        PPT_PROTOCOL_UNDEFINED_def PPTSERVER_AUTHENTICATE_def)
  show "\<exists>e. client_initConnection (Inr ()) (Inr (Some (PPTSERVER_AUTHENTICATE, p'))) = Inl e"
    by (simp add: client_initConnection_def Let_def c_str_def authenticateWithServer_def
        PPT_PROTOCOL_UNDEFINED_def PPTSERVER_AUTHENTICATE_def)
qed

theorem handshake_witness:
  "\<exists>w e. welcomeClient False (Inr (Some (''GET / HTTP/1.0'', []))) = Inr w \<and> welcome_ret w = - 1 \<and> welcome_closed w \<and>
        client_initConnection (Inr ()) (Inr (Some (welcome_sent w, []))) = Inl e"
  using handshake [of "[]" "[]" "''GET / HTTP/1.0''" False]
  by (simp only: PPTCLIENT_TESTING_CONNECTION_def) simp

text \<open>The answers of the server to a list of commands, one after the other.\<close>

fun answers :: "nat \<Rightarrow> ('st \<Rightarrow> string \<Rightarrow> 'st \<times> response) \<Rightarrow> 'st \<Rightarrow> string list \<Rightarrow> string" where
  "answers bufsize run st [] = []"
| "answers bufsize run st (c # cs) =
     (let (st', r) = run st c in answer bufsize r @ answers bufsize run st' cs)"

fun no_fatal :: "('st \<Rightarrow> string \<Rightarrow> 'st \<times> response) \<Rightarrow> 'st \<Rightarrow> string list \<Rightarrow> bool" where
  "no_fatal run st [] = True"
| "no_fatal run st (c # cs) =
     (let (st', r) = run st c in resp_status r \<noteq> BES_INTERNAL_FATAL_ERROR \<and> no_fatal run st' cs)"

definition idle :: "extensions \<Rightarrow> bool" where
  "idle ext = (ext = [] \<or> ext = [(''status'', [])])"

lemma receive_command:
  assumes "nonempty pkts" "concat pkts = ppt_send c [] @ rest" "length c < 16 ^ 7" "0 < bl"
  shows "\<exists>p1. receive_message err bl ext [] pkts = Inr (ext, c, p1) \<and> nonempty p1 \<and> concat p1 = rest"
proof -
  let ?ds = "if c = [] then [] else [c]"
  have "concat pkts = concat (map (\<lambda>d. show_hex 7 (length d) @ ''d'' @ d) ?ds) @ show_hex 7 0 @ ''d'' @ rest"
    using assms(2) by (simp add: ppt_send_def sendChunk_def)
  moreover have "\<forall>d \<in> set ?ds. d \<noteq> [] \<and> length d < 16 ^ 7" using assms(3) by (cases "c = []") simp_all
  ultimately have "\<exists>p1. receive_message err bl ext [] pkts = Inr (ext, [] @ concat ?ds, p1) \<and> nonempty p1 \<and> concat p1 = rest"
    by (rule receive_message_data [OF assms(1) _ _ assms(4)])
  moreover have "[] @ concat ?ds = c" by simp
  ultimately show ?thesis by metis
qed

lemma receive_exit:
  assumes "nonempty pkts" "concat pkts = sendExit @ rest" "0 < bl" "idle ext"
  shows "\<exists>p1. receive_message err bl ext [] pkts = Inr ([(''status'', PPT_EXIT_NOW)], [], p1)"
proof -
  let ?m = "[(''status'', PPT_EXIT_NOW)]"
  have c: "concat pkts = sendExtensions ?m @ show_hex 7 0 @ ''d'' @ sendChunk [] [] @ rest"
    using assms(2) by (simp add: sendExit_def ppt_send_def sendChunk_def)
  have f: "fold (\<lambda>(k, v). m_set k v) ?m ext = ?m" using assms(4) by (auto simp: idle_def)
  have "length (extensions_string ?m) < 16 ^ 7" by (simp add: PPT_EXIT_NOW_def)
  moreover have "\<forall>kv \<in> set ?m. extension_ok kv" by (simp add: extension_ok_def PPT_EXIT_NOW_def)
  ultimately obtain p1 where p1: "receive_message err bl ext [] pkts = receive_message err bl ?m [] p1" "nonempty p1"
      "concat p1 = show_hex 7 0 @ ''d'' @ sendChunk [] [] @ rest"
    using receive_message_extensions [OF assms(1) c _ _ _ assms(3), of err ext "[]"] unfolding f by blast
  from receive_message_end [OF p1(2,3), of err bl ?m "[]"] p1(1) show ?thesis by auto
qed

lemma session_loop:
  assumes "nonempty pkts" "concat pkts = concat (map (\<lambda>c. ppt_send c []) cs) @ sendExit" "0 < bl"
    and "\<forall>c \<in> set cs. length c < 16 ^ 7" "no_fatal run st cs" "idle ext"
  shows "execute err bl bs run st ext pkts out = (Exited CHILD_SUBPROCESS_READY, out @ answers bs run st cs)"
  using assms(1,2,4-)
proof (induction cs arbitrary: pkts st ext out)
  case Nil
  obtain p1 where "receive_message err bl ext [] pkts = Inr ([(''status'', PPT_EXIT_NOW)], [], p1)"
    using receive_exit [OF Nil(1) _ assms(3) Nil(5), of "[]" err] Nil(2) by auto
  then show ?case by (subst execute.simps) (simp add: m_index_def)
next
  case (Cons c cs)
  have c: "concat pkts = ppt_send c [] @ concat (map (\<lambda>c. ppt_send c []) cs) @ sendExit"
    using Cons.prems(2) by simp
  have lc: "length c < 16 ^ 7" using Cons.prems(3) by simp
  obtain p1 where p1: "receive_message err bl ext [] pkts = Inr (ext, c, p1)" "nonempty p1"
      "concat p1 = concat (map (\<lambda>c. ppt_send c []) cs) @ sendExit"
    using receive_command [OF Cons.prems(1) c lc assms(3), of err ext] by blast
  obtain st' r where r: "run st c = (st', r)" by fastforce
  have i: "m_index [] ''status'' ext = ([], [(''status'', [])])"
    using Cons.prems(5) by (auto simp: idle_def m_index_def)
  have nf: "resp_status r \<noteq> BES_INTERNAL_FATAL_ERROR" "no_fatal run st' cs"
    using Cons.prems(4) r by simp_all
  have IH: "execute err bl bs run st' [(''status'', [])] p1 (out @ answer bs r)
      = (Exited CHILD_SUBPROCESS_READY, (out @ answer bs r) @ answers bs run st' cs)"
    by (rule Cons.IH [OF p1(2,3) _ nf(2)]) (use Cons.prems(3) in \<open>auto simp: idle_def\<close>)
  have "execute err bl bs run st ext pkts out = execute err bl bs run st' [(''status'', [])] p1 (out @ answer bs r)"
    using p1(1) i r nf(1) by (subst execute.simps) (simp add: PPT_EXIT_NOW_def)
  then show ?case using IH r by simp
qed

text \<open>
  C1: A session: a client that sends commands and then the exit message has every command executed
  once, in order, and the server process ends as a finished child; what it wrote is exactly the
  answers, one per command. This needs no assumption on how the bytes are cut into packets; no
  command may fail fatally.
\<close>

theorem session_serves_all:
  assumes "nonempty pkts" and "concat pkts = concat (map (\<lambda>c. ppt_send c []) cs) @ sendExit" and "0 < buflen"
    and "\<forall>c \<in> set cs. length c < 16 ^ 7" and "no_fatal run st cs"
  shows "execute err buflen bufsize run st [] pkts [] = (Exited CHILD_SUBPROCESS_READY, answers bufsize run st cs)"
  using session_loop [OF assms, of "[]" err bufsize "[]"] by (simp add: idle_def)

theorem session_serves_all_witness:
  "execute [] 64 10 (\<lambda>n c. (n + 1, \<lparr>resp_status = 0, resp_out = c, resp_error = []\<rparr>)) (0::nat) []
     [concat (map (\<lambda>c. ppt_send c []) [''show version;'', ''show help;'']) @ sendExit] []
   = (Exited CHILD_SUBPROCESS_READY, answers 10 (\<lambda>n c. (n + 1, \<lparr>resp_status = 0, resp_out = c, resp_error = []\<rparr>)) (0::nat)
       [''show version;'', ''show help;''])"
proof (rule session_serves_all)
  show "nonempty [concat (map (\<lambda>c. ppt_send c []) [''show version;'', ''show help;'']) @ sendExit]"
    by (simp add: nonempty_def sendExit_def ppt_send_def sendChunk_def)
qed (simp_all add: BES_INTERNAL_FATAL_ERROR_def)

end
