(* ===== verification/DapArray.thy ===== *)
theory DapArray
  imports Escaping "HOL-Library.Signed_Division"
begin

text \<open>
  \<^verbatim>\<open>libdap/Array.cc\<close>: the dimensions of an array variable, the hyperslab constraint on each of them
  and the number of elements that are selected. A C++ \<^verbatim>\<open>int\<close> is an \<open>int\<close> in the range of 32 bits;
  \<open>wrap32\<close> is applied where an operation can leave it. The element variable is a parameter.
\<close>

definition wrap32 :: "int \<Rightarrow> int" where
  "wrap32 i = (i + 2 ^ 31) mod 2 ^ 32 - 2 ^ 31"

lemma wrap32_id: "- (2 ^ 31) \<le> i \<Longrightarrow> i < 2 ^ 31 \<Longrightarrow> wrap32 i = i"
  by (simp add: wrap32_def)

lemma wrap32_wrap32 [simp]: "wrap32 (wrap32 i) = wrap32 i"
  by (simp add: wrap32_def)

lemma wrap32_mult [simp]: "wrap32 (wrap32 i * j) = wrap32 (i * j)"
proof -
  have "wrap32 i mod 2 ^ 32 = i mod 2 ^ 32"
    by (simp add: wrap32_def mod_diff_left_eq)
  then have "(wrap32 i * j) mod 2 ^ 32 = (i * j) mod 2 ^ 32" by (metis mod_mult_left_eq)
  then have "(wrap32 i * j + 2 ^ 31) mod 2 ^ 32 = (i * j + 2 ^ 31) mod 2 ^ 32"
    by (metis mod_add_left_eq)
  then show ?thesis by (simp add: wrap32_def)
qed

section \<open>The data\<close>

record dimension =
  dim_size :: int
  dim_name :: string
  dim_start :: int
  dim_stop :: int
  dim_stride :: int
  dim_c_size :: int

record 'v array =
  arr_name :: string
  arr_length :: int
  arr_shape :: "dimension list"
  arr_var :: "'v option"
  arr_send_p :: bool

text \<open>What \<open>add_var\<close> is given: null, an array, or any other variable.\<close>

datatype 'v var_arg = Null_var | Array_var "'v array" | Other_var 'v

definition new_array :: "string \<Rightarrow> 'v array" where
  "new_array n = \<lparr>arr_name = n, arr_length = - 1, arr_shape = [], arr_var = None, arr_send_p = False\<rparr>"

section \<open>Operations\<close>

fun length_loop :: "dimension list \<Rightarrow> int \<Rightarrow> int" where
  "length_loop [] len = len"
| "length_loop (d # ds) len = length_loop ds (wrap32 (len * (if 0 < dim_c_size d then dim_c_size d else 1)))"

definition update_length :: "'v array \<Rightarrow> 'v array" where
  "update_length a = a\<lparr>arr_length := length_loop (arr_shape a) 1\<rparr>"

definition full_dim :: "int \<Rightarrow> int \<Rightarrow> string \<Rightarrow> dimension" where
  "full_dim junk sz name =
     \<lparr>dim_size = sz, dim_name = www2id junk name ''%'' [], dim_start = 0, dim_stop = wrap32 (sz - 1),
      dim_stride = 1, dim_c_size = sz\<rparr>"

definition append_dim :: "int \<Rightarrow> int \<Rightarrow> string \<Rightarrow> 'v array \<Rightarrow> 'v array" where
  "append_dim junk sz name a = update_length (a\<lparr>arr_shape := arr_shape a @ [full_dim junk sz name]\<rparr>)"

definition prepend_dim :: "int \<Rightarrow> int \<Rightarrow> string \<Rightarrow> 'v array \<Rightarrow> 'v array" where
  "prepend_dim junk sz name a = update_length (a\<lparr>arr_shape := full_dim junk sz name # arr_shape a\<rparr>)"

definition clear_all_dims :: "'v array \<Rightarrow> 'v array" where
  "clear_all_dims a = a\<lparr>arr_shape := []\<rparr>"

text \<open>An array given to \<open>add_var\<close> is taken apart: its variable, and its dimensions at full size.\<close>

definition add_var :: "int \<Rightarrow> 'v var_arg \<Rightarrow> 'v array \<Rightarrow> 'v array" where
  "add_var junk v a =
     (case v of
        Array_var b \<Rightarrow>
          fold (\<lambda>d a. append_dim junk (dim_size d) (dim_name d) a) (arr_shape b) (a\<lparr>arr_var := arr_var b\<rparr>)
      | Other_var x \<Rightarrow> a\<lparr>arr_var := Some x\<rparr>
      | Null_var \<Rightarrow> a\<lparr>arr_var := None\<rparr>)"

text \<open>
  The loop of \<open>reset_constraint\<close> updates the length after each dimension; an array without
  dimensions keeps the length -1.
\<close>

definition reset_dim :: "dimension \<Rightarrow> dimension" where
  "reset_dim d = d\<lparr>dim_start := 0, dim_stop := wrap32 (dim_size d - 1), dim_stride := 1, dim_c_size := dim_size d\<rparr>"

fun reset_loop :: "nat \<Rightarrow> nat \<Rightarrow> 'v array \<Rightarrow> 'v array" where
  "reset_loop 0 i a = a"
| "reset_loop (Suc n) i a = reset_loop n (Suc i) (update_length (a\<lparr>arr_shape := (arr_shape a)[i := reset_dim (arr_shape a ! i)]\<rparr>))"

definition reset_constraint :: "'v array \<Rightarrow> 'v array" where
  "reset_constraint a = reset_loop (length (arr_shape a)) 0 (a\<lparr>arr_length := - 1\<rparr>)"

definition array_sss :: string where
  "array_sss = ''Invalid constraint parameters: At least one of the start, stride or stop '' @ [lf]
     @ ''specified do not match the array variable.''"

definition add_constraint :: "nat \<Rightarrow> int \<Rightarrow> int \<Rightarrow> int \<Rightarrow> 'v array \<Rightarrow> dap_error + 'v array" where
  "add_constraint i start stride stop a =
     (let d = arr_shape a ! i;
          stop = (if stop = - 1 then wrap32 (dim_size d - 1) else stop)
      in if dim_size d \<le> start \<or> dim_size d \<le> stop \<or> dim_size d < stride \<or> stride \<le> 0
         then Inl (MalformedExpr array_sss)
         else if dim_size d < wrap32 (wrap32 (stop - start) sdiv stride + 1) then Inl (MalformedExpr array_sss)
         else Inr (update_length (a\<lparr>arr_shape := (arr_shape a)[i := d\<lparr>dim_start := start, dim_stop := stop,
                dim_stride := stride, dim_c_size := wrap32 (wrap32 (stop - start) sdiv stride + 1)\<rparr>]\<rparr>)))"

definition dimensions :: "'v array \<Rightarrow> nat" where
  "dimensions a = length (arr_shape a)"

definition dimension_size :: "nat \<Rightarrow> bool \<Rightarrow> 'v array \<Rightarrow> int" where
  "dimension_size i constrained a =
     (if arr_shape a \<noteq> []
      then (if constrained then dim_c_size (arr_shape a ! i) else dim_size (arr_shape a ! i)) else 0)"

definition dimension_start :: "nat \<Rightarrow> 'v array \<Rightarrow> int" where
  "dimension_start i a = (if arr_shape a \<noteq> [] then dim_start (arr_shape a ! i) else 0)"

definition dimension_stop :: "nat \<Rightarrow> 'v array \<Rightarrow> int" where
  "dimension_stop i a = (if arr_shape a \<noteq> [] then dim_stop (arr_shape a ! i) else 0)"

definition dimension_stride :: "nat \<Rightarrow> 'v array \<Rightarrow> int" where
  "dimension_stride i a = (if arr_shape a \<noteq> [] then dim_stride (arr_shape a ! i) else 0)"

definition dimension_name :: "nat \<Rightarrow> 'v array \<Rightarrow> dap_error + string" where
  "dimension_name i a =
     (if arr_shape a = [] then Inl (InternalErr ''*This* array has no dimensions.'')
      else Inr (dim_name (arr_shape a ! i)))"

text \<open>\<open>width\<close> of the element variable is virtual; the product is an \<^verbatim>\<open>unsigned int\<close>.\<close>

definition array_width :: "('v option \<Rightarrow> bool \<Rightarrow> nat) \<Rightarrow> bool \<Rightarrow> 'v array \<Rightarrow> nat" where
  "array_width width constrained a =
     (if constrained then nat ((arr_length a * int (width (arr_var a) True)) mod 2 ^ 32)
      else nat ((fold (\<lambda>d len. wrap32 (len * dim_size d)) (arr_shape a) 1 * int (width (arr_var a) False)) mod 2 ^ 32))"

definition dim_decl :: "bool \<Rightarrow> dimension \<Rightarrow> string" where
  "dim_decl constrained d =
     ''['' @ (if dim_name d \<noteq> [] then id2www (dim_name d) allowable_id @ '' = '' else []) @
     show_int (if constrained then dim_c_size d else dim_size d) @ '']''"

definition array_print_decl :: "('v option \<Rightarrow> string) \<Rightarrow> bool \<Rightarrow> bool \<Rightarrow> 'v array \<Rightarrow> string" where
  "array_print_decl var_decl print_semi constrained a =
     (if constrained \<and> \<not> arr_send_p a then []
      else var_decl (arr_var a) @ concat (map (dim_decl constrained) (arr_shape a)) @
           (if print_semi then '';'' @ [lf] else []))"

section \<open>The number of elements\<close>

definition selected :: "dimension \<Rightarrow> int" where
  "selected d = (if 0 < dim_c_size d then dim_c_size d else 1)"

lemma length_loop_wrap: "length_loop ds (wrap32 l) = wrap32 (l * prod_list (map selected ds))"
  by (induction ds arbitrary: l) (simp_all add: selected_def [symmetric] mult.assoc)

lemma length_loop_one: "length_loop ds 1 = wrap32 (prod_list (map selected ds))"
proof -
  have "wrap32 1 = 1" by (rule wrap32_id) simp_all
  then show ?thesis using length_loop_wrap [of ds 1] by simp
qed

lemma update_length_eq: "arr_length (update_length a) = wrap32 (prod_list (map selected (arr_shape a)))"
  by (simp add: update_length_def length_loop_one)

lemma update_length_shape [simp]: "arr_shape (update_length a) = arr_shape a" "arr_var (update_length a) = arr_var a"
  "arr_name (update_length a) = arr_name a" "arr_send_p (update_length a) = arr_send_p a"
  by (simp_all add: update_length_def)

text \<open>
  A dimension is constrained well when its hyperslab is not empty and inside; an array is well when
  all its dimensions are and its length is the number of elements selected.
\<close>

definition dim_ok :: "dimension \<Rightarrow> bool" where
  "dim_ok d =
     (0 < dim_size d \<and> dim_size d < 2 ^ 31 \<and> 0 \<le> dim_start d \<and> dim_start d \<le> dim_stop d \<and>
      dim_stop d < dim_size d \<and> 0 < dim_stride d \<and> dim_stride d \<le> dim_size d \<and>
      dim_c_size d = (dim_stop d - dim_start d) div dim_stride d + 1)"

definition array_ok :: "'v array \<Rightarrow> bool" where
  "array_ok a =
     ((\<forall>d \<in> set (arr_shape a). dim_ok d) \<and>
      (arr_shape a \<noteq> [] \<longrightarrow> arr_length a = wrap32 (prod_list (map dim_c_size (arr_shape a)))))"

lemma div_le_dividend: "0 \<le> (x::int) \<Longrightarrow> 0 < y \<Longrightarrow> x div y \<le> x"
  using zdiv_mono2 [of x 1 y] by simp

lemma dim_ok_c_size: "dim_ok d \<Longrightarrow> 0 < dim_c_size d \<and> dim_c_size d \<le> dim_size d"
proof -
  assume ok: "dim_ok d"
  let ?n = "dim_stop d - dim_start d"
  have "0 \<le> ?n div dim_stride d" using ok by (intro pos_imp_zdiv_nonneg_iff [THEN iffD2]) (auto simp: dim_ok_def)
  moreover have "?n div dim_stride d \<le> ?n" using ok by (intro div_le_dividend) (auto simp: dim_ok_def)
  ultimately show ?thesis using ok by (auto simp: dim_ok_def)
qed

lemma selected_ok: "\<forall>d \<in> set ds. dim_ok d \<Longrightarrow> map selected ds = map dim_c_size ds"
  using dim_ok_c_size by (fastforce simp: selected_def)

lemma array_ok_update: "\<forall>d \<in> set (arr_shape a). dim_ok d \<Longrightarrow> array_ok (update_length a)"
  by (simp add: array_ok_def update_length_eq selected_ok)

lemma full_dim_ok: "0 < sz \<Longrightarrow> sz < 2 ^ 31 \<Longrightarrow> dim_ok (full_dim junk sz n)"
  by (simp add: dim_ok_def full_dim_def wrap32_id)

lemma array_ok_append: "array_ok a \<Longrightarrow> 0 < sz \<Longrightarrow> sz < 2 ^ 31 \<Longrightarrow> array_ok (append_dim junk sz n a)"
  unfolding append_dim_def by (rule array_ok_update) (auto simp: array_ok_def full_dim_ok)

lemma array_ok_prepend: "array_ok a \<Longrightarrow> 0 < sz \<Longrightarrow> sz < 2 ^ 31 \<Longrightarrow> array_ok (prepend_dim junk sz n a)"
  unfolding prepend_dim_def by (rule array_ok_update) (auto simp: array_ok_def full_dim_ok)

lemma sdiv_pos: "0 \<le> (a::int) \<Longrightarrow> 0 < b \<Longrightarrow> a sdiv b = a div b"
  by (cases "a = 0") (simp_all add: signed_divide_int_def)

text \<open>What \<open>add_constraint\<close> does on a request that runs forward.\<close>

lemma add_constraint_forward:
  assumes "0 \<le> start" "start \<le> stop" "stop < 2 ^ 31" "dim_size (arr_shape a ! i) < 2 ^ 31"
  shows "add_constraint i start stride stop a =
    (if dim_size (arr_shape a ! i) \<le> stop \<or> dim_size (arr_shape a ! i) < stride \<or> stride \<le> 0
     then Inl (MalformedExpr array_sss)
     else Inr (update_length (a\<lparr>arr_shape := (arr_shape a)[i := (arr_shape a ! i)\<lparr>dim_start := start, dim_stop := stop,
                dim_stride := stride, dim_c_size := (stop - start) div stride + 1\<rparr>]\<rparr>)))"
proof (cases "dim_size (arr_shape a ! i) \<le> stop \<or> dim_size (arr_shape a ! i) < stride \<or> stride \<le> 0")
  case True
  then show ?thesis using assms by (auto simp: add_constraint_def Let_def)
next
  case False
  have w: "wrap32 (stop - start) = stop - start" using assms by (intro wrap32_id) auto
  have s: "(stop - start) sdiv stride = (stop - start) div stride" using assms False by (intro sdiv_pos) auto
  have "0 \<le> (stop - start) div stride" using assms False by (intro pos_imp_zdiv_nonneg_iff [THEN iffD2]) auto
  moreover have "(stop - start) div stride \<le> stop - start" using assms False by (intro div_le_dividend) auto
  ultimately have c: "wrap32 ((stop - start) div stride + 1) = (stop - start) div stride + 1"
      "(stop - start) div stride + 1 \<le> dim_size (arr_shape a ! i)"
    using assms False by (auto intro!: wrap32_id)
  show ?thesis using assms False w s c by (simp add: add_constraint_def Let_def)
qed

text \<open>The indices of one dimension that a hyperslab \<open>[start:stride:stop]\<close> selects.\<close>

definition hyperslab :: "int \<Rightarrow> int \<Rightarrow> int \<Rightarrow> int set" where
  "hyperslab start stride stop = {k. start \<le> k \<and> k \<le> stop \<and> stride dvd (k - start)}"

lemma hyperslab_card:
  assumes "0 < stride" "start \<le> stop"
  shows "int (card (hyperslab start stride stop)) = (stop - start) div stride + 1"
proof -
  let ?n = "(stop - start) div stride"
  have n: "0 \<le> ?n" using assms by (intro pos_imp_zdiv_nonneg_iff [THEN iffD2]) auto
  have "hyperslab start stride stop = (\<lambda>m. start + stride * m) ` {0..?n}"
    unfolding hyperslab_def
  proof (intro set_eqI iffI)
    fix k assume "k \<in> {k. start \<le> k \<and> k \<le> stop \<and> stride dvd (k - start)}"
    then obtain m where m: "k - start = stride * m" "start \<le> k" "k \<le> stop" by (auto simp: dvd_def)
    then have "0 \<le> m" using assms(1) by (metis diff_ge_0_iff_ge zero_le_mult_iff not_le)
    moreover have "m \<le> ?n" using m assms(1) by (metis diff_right_mono nonzero_mult_div_cancel_left zdiv_mono1 less_irrefl)
    ultimately show "k \<in> (\<lambda>m. start + stride * m) ` {0..?n}" using m(1) by (intro image_eqI [of _ _ m]) auto
  next
    fix k assume "k \<in> (\<lambda>m. start + stride * m) ` {0..?n}"
    then obtain m where m: "k = start + stride * m" "0 \<le> m" "m \<le> ?n" by (elim imageE) (metis atLeastAtMost_iff)
    have "stride * m \<le> stride * ?n" using m(3) assms(1) by (intro mult_left_mono) auto
    also have "\<dots> \<le> stop - start" using assms(1) by (metis mult.commute pos_mod_sign le_add_same_cancel1
        mult_div_mod_eq)
    finally show "k \<in> {k. start \<le> k \<and> k \<le> stop \<and> stride dvd (k - start)}"
      using m assms(1) by auto
  qed
  moreover have "inj_on (\<lambda>m. start + stride * m) {0..?n}" using assms(1) by (auto simp: inj_on_def)
  ultimately have "card (hyperslab start stride stop) = card {0..?n}"
    by (simp add: card_image)
  then show ?thesis using n by simp
qed

text \<open>
  C34: A hyperslab that runs forward is accepted exactly when it stays inside the dimension and its
  stride is positive and not larger than the dimension. Then the constrained size of the dimension
  is the number of indices the hyperslab selects, all of them are valid, no other dimension changes,
  and an array that was well stays well.
\<close>

theorem add_constraint_selects:
  assumes "array_ok a" and "i < length (arr_shape a)"
    and "0 \<le> start" and "start \<le> stop" and "stop < 2 ^ 31"
  shows "if stop < dim_size (arr_shape a ! i) \<and> 0 < stride \<and> stride \<le> dim_size (arr_shape a ! i)
         then \<exists>a'. add_constraint i start stride stop a = Inr a' \<and> array_ok a' \<and>
                dim_c_size (arr_shape a' ! i) = int (card (hyperslab start stride stop)) \<and>
                (\<forall>k \<in> hyperslab start stride stop. 0 \<le> k \<and> k < dim_size (arr_shape a ! i)) \<and>
                (\<forall>j. j \<noteq> i \<longrightarrow> arr_shape a' ! j = arr_shape a ! j)
         else add_constraint i start stride stop a = Inl (MalformedExpr array_sss)"
proof -
  let ?n = "dim_size (arr_shape a ! i)"
  have d: "dim_ok (arr_shape a ! i)" using assms(1,2) by (simp add: array_ok_def)
  then have n: "0 < ?n" "?n < 2 ^ 31" by (auto simp: dim_ok_def)
  note f = add_constraint_forward [OF assms(3-5), of a i stride]
  show ?thesis
  proof (cases "stop < ?n \<and> 0 < stride \<and> stride \<le> ?n")
    case False
    then show ?thesis using f n by auto
  next
    case True
    let ?d = "(arr_shape a ! i)\<lparr>dim_start := start, dim_stop := stop, dim_stride := stride,
        dim_c_size := (stop - start) div stride + 1\<rparr>"
    let ?a = "update_length (a\<lparr>arr_shape := (arr_shape a)[i := ?d]\<rparr>)"
    have r: "add_constraint i start stride stop a = Inr ?a" using f n True by auto
    have "dim_ok ?d" using d True assms(3,4) by (simp add: dim_ok_def)
    then have "array_ok ?a" using assms(1,2)
      by (intro array_ok_update) (auto simp: array_ok_def dest: set_update_subset_insert [THEN subsetD])
    moreover have "dim_c_size (arr_shape ?a ! i) = int (card (hyperslab start stride stop))"
      using True assms(2,4) hyperslab_card [of stride start stop] by simp
    moreover have "\<forall>k \<in> hyperslab start stride stop. 0 \<le> k \<and> k < ?n"
      using assms(3) True by (auto simp: hyperslab_def)
    moreover have "\<forall>j. j \<noteq> i \<longrightarrow> arr_shape ?a ! j = arr_shape a ! j" by simp
    ultimately show ?thesis unfolding if_P [OF True] using r by blast
  qed
qed

definition ten_by_four :: "nat array" where
  "ten_by_four = append_dim 0 4 ''y'' (append_dim 0 10 ''x'' (new_array ''a''))"

theorem add_constraint_selects_witness:
  "\<exists>a'. add_constraint 0 2 3 8 ten_by_four = Inr a' \<and> array_ok a' \<and>
     dim_c_size (arr_shape a' ! 0) = int (card (hyperslab 2 3 8)) \<and>
     (\<forall>k \<in> hyperslab 2 3 8. 0 \<le> k \<and> k < 10) \<and>
     (\<forall>j. j \<noteq> 0 \<longrightarrow> arr_shape a' ! j = arr_shape ten_by_four ! j)"
proof -
  have ok: "array_ok ten_by_four"
    unfolding ten_by_four_def by (intro array_ok_append) (simp_all add: array_ok_def new_array_def)
  have s: "dim_size (arr_shape ten_by_four ! 0) = 10" "0 < length (arr_shape ten_by_four)"
    by (simp_all add: ten_by_four_def append_dim_def full_dim_def new_array_def)
  from add_constraint_selects [OF ok s(2), of 2 8 3] show ?thesis unfolding s by simp
qed

text \<open>
  A constraint that does not run forward is accepted as well: a negative start is not tested, so
  the selection begins before the array, and a stop before the start gives a dimension of negative
  size, which the length counts as 1.
\<close>

theorem add_constraint_accepts_backward:
  "(\<exists>a'. add_constraint 0 (- 3) 1 5 ten_by_four = Inr a' \<and> dim_start (arr_shape a' ! 0) = - 3 \<and>
      dim_c_size (arr_shape a' ! 0) = 9) \<and>
   (\<exists>a'. add_constraint 0 5 1 2 ten_by_four = Inr a' \<and> dim_c_size (arr_shape a' ! 0) = - 2 \<and> arr_length a' = 4)"
  by (simp add: ten_by_four_def append_dim_def full_dim_def new_array_def add_constraint_def wrap32_def
      update_length_def signed_divide_int_def)

section \<open>Taking a constraint back\<close>

lemma update_twice [simp]: "update_length (update_length a) = update_length a"
  by (simp add: update_length_def)

lemma reset_loop_eq:
  "i + n = length (arr_shape a) \<Longrightarrow> 0 < n \<Longrightarrow>
     reset_loop n i a = update_length (a\<lparr>arr_shape := take i (arr_shape a) @ map reset_dim (drop i (arr_shape a))\<rparr>)"
proof (induction n arbitrary: i a)
  case (Suc n)
  let ?s = "(arr_shape a)[i := reset_dim (arr_shape a ! i)]"
  have i: "i < length (arr_shape a)" using Suc.prems by simp
  have t: "take (Suc i) ?s = take i (arr_shape a) @ [reset_dim (arr_shape a ! i)]" "drop (Suc i) ?s = drop (Suc i) (arr_shape a)"
    using i by (simp_all add: take_Suc_conv_app_nth)
  have d: "drop i (arr_shape a) = arr_shape a ! i # drop (Suc i) (arr_shape a)"
    using i by (simp add: Cons_nth_drop_Suc)
  show ?case
  proof (cases n)
    case 0
    then have "drop (Suc i) (arr_shape a) = []" using Suc.prems by simp
    moreover have "?s = take (Suc i) ?s @ drop (Suc i) ?s" by (rule append_take_drop_id [symmetric])
    ultimately have "?s = take i (arr_shape a) @ map reset_dim (drop i (arr_shape a))" unfolding t d by simp
    then show ?thesis using 0 by simp
  next
    case (Suc m)
    then have "reset_loop n (Suc i) (update_length (a\<lparr>arr_shape := ?s\<rparr>))
        = update_length ((update_length (a\<lparr>arr_shape := ?s\<rparr>))\<lparr>arr_shape := take (Suc i) ?s @ map reset_dim (drop (Suc i) ?s)\<rparr>)"
      using Suc.prems Suc.IH [of "Suc i" "update_length (a\<lparr>arr_shape := ?s\<rparr>)"] by simp
    then show ?thesis unfolding t d by (simp add: update_length_def)
  qed
qed simp

lemma reset_constraint_eq:
  "arr_shape a \<noteq> [] \<Longrightarrow> reset_constraint a = update_length (a\<lparr>arr_shape := map reset_dim (arr_shape a)\<rparr>)"
  using reset_loop_eq [of 0 "length (arr_shape a)" "a\<lparr>arr_length := - 1\<rparr>"]
  by (simp add: reset_constraint_def update_length_def)

fun constrain_all :: "(nat \<times> int \<times> int \<times> int) list \<Rightarrow> 'v array \<Rightarrow> dap_error + 'v array" where
  "constrain_all [] a = Inr a"
| "constrain_all ((i, start, stride, stop) # cs) a = rbind (add_constraint i start stride stop a) (constrain_all cs)"

lemma add_constraint_keeps:
  assumes "add_constraint i start stride stop a = Inr a'"
  shows "map reset_dim (arr_shape a') = map reset_dim (arr_shape a) \<and> arr_name a' = arr_name a \<and>
    arr_var a' = arr_var a \<and> arr_send_p a' = arr_send_p a"
proof -
  obtain d where d: "a' = update_length (a\<lparr>arr_shape := (arr_shape a)[i := d]\<rparr>)" "reset_dim d = reset_dim (arr_shape a ! i)"
    using assms by (auto simp: add_constraint_def Let_def reset_dim_def split: if_splits)
  have "map reset_dim ((arr_shape a)[i := d]) = map reset_dim (arr_shape a)"
  proof (cases "i < length (arr_shape a)")
    case True
    then show ?thesis using d(2) by (simp add: map_update list_update_same_conv)
  next
    case False
    then show ?thesis by (simp add: list_update_beyond)
  qed
  then show ?thesis using d(1) by simp
qed

lemma constrain_all_keeps:
  "constrain_all cs a = Inr a' \<Longrightarrow> map reset_dim (arr_shape a') = map reset_dim (arr_shape a) \<and>
     arr_name a' = arr_name a \<and> arr_var a' = arr_var a \<and> arr_send_p a' = arr_send_p a"
  by (induction cs a rule: constrain_all.induct) (fastforce simp: rbind_Inr_iff dest: add_constraint_keeps)+

text \<open>
  Taking constraints back: whatever sequence of accepted constraints was put on an array,
  \<open>reset_constraint\<close> gives the array back as it was when all its dimensions were at full size.
\<close>

theorem reset_undoes_constraints:
  assumes "constrain_all cs a = Inr a'" and "arr_shape a \<noteq> []"
    and "\<forall>d \<in> set (arr_shape a). reset_dim d = d" and "arr_length (update_length a) = arr_length a"
  shows "reset_constraint a' = a"
proof -
  note k = constrain_all_keeps [OF assms(1)]
  have "map reset_dim (arr_shape a) = arr_shape a" using assms(3) by (simp add: map_idI)
  moreover have "arr_shape a' \<noteq> []" using k assms(2) by auto
  ultimately have "reset_constraint a' = update_length (a'\<lparr>arr_shape := arr_shape a\<rparr>)"
    using reset_constraint_eq [of a'] k by simp
  also have "\<dots> = a" using k assms(4) by (simp add: update_length_def)
  finally show ?thesis .
qed

theorem reset_undoes_constraints_witness:
  "\<exists>a'. constrain_all [(0, 2, 3, 8), (1, 0, 2, - 1)] ten_by_four = Inr a' \<and> reset_constraint a' = ten_by_four"
proof -
  let ?a = "ten_by_four"
  have "\<exists>a'. constrain_all [(0, 2, 3, 8), (1, 0, 2, - 1)] ?a = Inr a'"
    by (simp add: ten_by_four_def append_dim_def full_dim_def new_array_def add_constraint_def wrap32_def
        signed_divide_int_def Let_def)
  then obtain a' where "constrain_all [(0, 2, 3, 8), (1, 0, 2, - 1)] ?a = Inr a'" by blast
  moreover from this have "reset_constraint a' = ?a"
    by (rule reset_undoes_constraints)
      (auto simp: ten_by_four_def append_dim_def full_dim_def new_array_def reset_dim_def wrap32_def update_length_def)
  ultimately show ?thesis by blast
qed

end
