(* ===== verification/BesTokenizer.thy ===== *)
theory BesTokenizer
  imports CppString
begin

text \<open>
  The tokenizer of the command language of the BES (\<^verbatim>\<open>bes/dispatch/BESTokenizer.cc\<close>): the scanner
  that cuts a request into words, quoted strings, commas and semicolons, the cursor the command
  parsers move over the tokens, and the two helpers that take tokens apart. The request is the
  \<^verbatim>\<open>const char *\<close> without its terminator.
\<close>

section \<open>The object\<close>

text \<open>
  \<open>tk_number\<close> is \<^verbatim>\<open>_number_tokens\<close>, which the constructor leaves as it finds it: \<open>junk\<close>.
\<close>

record tokenizer =
  tk_tokens :: "string list"
  tk_counter :: int
  tk_number :: int

definition new_tokenizer :: "int \<Rightarrow> tokenizer" where
  "new_tokenizer junk = \<lparr>tk_tokens = [], tk_counter = - 1, tk_number = junk\<rparr>"

definition tk_parse_error :: "tokenizer \<Rightarrow> string \<Rightarrow> bes_error" where
  "tk_parse_error t s =
     (let error = ''Parse error.'';
          error = (if 0 \<le> tk_counter t
                   then error @ [lf] @ concat (map (\<lambda>w. w @ '' '') (take (nat (tk_counter t + 1)) (tk_tokens t)))
                          @ ''<----HERE IS THE ERROR''
                   else error);
          error = (if s \<noteq> [] then error @ [lf] @ s else error)
      in BESSyntaxUserError error)"

section \<open>The cursor\<close>

text \<open>\<open>None\<close> is the read of the first element of an empty vector.\<close>

definition get_first_token :: "tokenizer \<Rightarrow> string option \<times> tokenizer" where
  "get_first_token t = ((case tk_tokens t of [] \<Rightarrow> None | x # _ \<Rightarrow> Some x), t\<lparr>tk_counter := 0\<rparr>)"

definition incomplete :: string where
  "incomplete = ''incomplete expression!''"

definition get_current_token :: "tokenizer \<Rightarrow> string bes_result" where
  "get_current_token t =
     (if tk_counter t = - 1 then Inl (tk_parse_error t incomplete)
      else if tk_counter t > tk_number t - 1 then Inl (tk_parse_error t incomplete)
      else Inr (tk_tokens t ! nat (tk_counter t)))"

definition get_next_token :: "tokenizer \<Rightarrow> (string \<times> tokenizer) bes_result" where
  "get_next_token t =
     (if tk_counter t = - 1 then Inl (tk_parse_error t incomplete)
      else if tk_counter t \<ge> tk_number t - 1 then Inl (tk_parse_error t incomplete)
      else Inr (tk_tokens t ! nat (tk_counter t + 1), t\<lparr>tk_counter := tk_counter t + 1\<rparr>))"

section \<open>The scanner\<close>

record scanning =
  sc_s :: string
  sc_raw :: bool
  sc_escaped :: bool
  sc_tokens :: "string list"

definition push_token :: "scanning \<Rightarrow> scanning" where
  "push_token z = (if sc_s z \<noteq> [] then z\<lparr>sc_tokens := sc_tokens z @ [sc_s z], sc_s := []\<rparr> else z)"

text \<open>One character of the loop.\<close>

definition scan_char :: "char \<Rightarrow> scanning \<Rightarrow> scanning" where
  "scan_char c z =
     (if \<not> sc_escaped z \<and> c = dquote then
        (let z = (if sc_s z \<noteq> [] then
                    if sc_raw z then z\<lparr>sc_tokens := sc_tokens z @ [sc_s z @ [dquote]], sc_s := []\<rparr>
                    else z\<lparr>sc_tokens := sc_tokens z @ [sc_s z], sc_s := [dquote]\<rparr>
                  else z\<lparr>sc_s := sc_s z @ [dquote]\<rparr>)
         in z\<lparr>sc_raw := \<not> sc_raw z\<rparr>)
      else if sc_raw z then
        if \<not> sc_escaped z \<and> c = bslash then z\<lparr>sc_escaped := True\<rparr>
        else z\<lparr>sc_s := sc_s z @ [c], sc_escaped := False\<rparr>
      else if c = CHR '' '' \<or> c = lf \<or> c = cr then push_token z
      else if c = CHR '','' \<or> c = CHR '';'' then
        (let z = push_token z in z\<lparr>sc_tokens := sc_tokens z @ [[c]]\<rparr>)
      else z\<lparr>sc_s := sc_s z @ [c]\<rparr>)"

definition scan_all :: "string \<Rightarrow> scanning \<Rightarrow> scanning" where
  "scan_all p z = fold scan_char p z"

definition tokenize :: "string \<Rightarrow> tokenizer \<Rightarrow> tokenizer bes_result" where
  "tokenize p t =
     (let z = scan_all p \<lparr>sc_s = [], sc_raw = False, sc_escaped = False, sc_tokens = tk_tokens t\<rparr>;
          toks = sc_tokens (push_token z);
          t' = t\<lparr>tk_tokens := toks, tk_number := int (length toks)\<rparr>
      in if sc_raw z then Inl (tk_parse_error t' (''Unclose quote found.('' @ [dquote] @ '')''))
         else if length toks < 1 then Inl (tk_parse_error t' (''Unknown command: '' @ [squote] @ p @ [squote]))
         else if toks ! (length toks - 1) \<noteq> '';''
         then Inl (tk_parse_error t' ''The request must be terminated by a semicolon (;)'')
         else Inr t')"

section \<open>Taking tokens apart\<close>

definition parse_container_name :: "tokenizer \<Rightarrow> string \<Rightarrow> (string \<times> nat) bes_result" where
  "parse_container_name t s =
     rbind (case rfind_sub s ''.constraint='' of
              Some w \<Rightarrow> Inr (w, 1)
            | None \<Rightarrow> (case rfind_sub s ''.attributes='' of
                         None \<Rightarrow> Inl (tk_parse_error t ''Expected property declaration.'')
                       | Some w \<Rightarrow> Inr (w, 2)))
       (\<lambda>(w, type). let valid = substr s w (length s)
          in if valid \<noteq> ''.constraint='' \<and> valid \<noteq> ''.attributes=''
             then Inl (tk_parse_error t (''Invalid container property '' @ valid @ '' for container ''
                         @ substr s 0 w @ ''. constraint expressions and attribute lists ''
                         @ ''must be wrapped in quotes''))
             else Inr (substr s 0 w, type))"

text \<open>\<^verbatim>\<open>s[0]\<close> of the empty string is the terminator.\<close>

definition remove_quotes :: "tokenizer \<Rightarrow> string \<Rightarrow> string bes_result" where
  "remove_quotes t s =
     (if s = [] \<or> hd s \<noteq> dquote \<or> last s \<noteq> dquote
      then Inl (tk_parse_error t (''item '' @ s @ '' must be enclosed by quotes''))
      else Inr (if length s = 1 then substr_from s 1 else substr s 1 (length s - 2)))"

section \<open>The lexemes of a request\<close>

text \<open>
  The specification: a request is a sequence of lexemes, each followed by blanks. A word holds none
  of the characters the scanner acts upon; a quoted string may hold any character, its quotes and
  backslashes written with a backslash before them.
\<close>

datatype lexeme = Word string | Quoted string | Comma | Semicolon

definition plain_char :: "char \<Rightarrow> bool" where
  "plain_char c \<longleftrightarrow> c \<notin> {dquote, CHR '' '', lf, cr, CHR '','', CHR '';''}"

fun lexeme_ok :: "lexeme \<Rightarrow> bool" where
  "lexeme_ok (Word w) = (w \<noteq> [] \<and> (\<forall>c \<in> set w. plain_char c))"
| "lexeme_ok _ = True"

definition quote_content :: "string \<Rightarrow> string" where
  "quote_content s = concat (map (\<lambda>c. if c = dquote \<or> c = bslash then [bslash, c] else [c]) s)"

fun lexeme_text :: "lexeme \<Rightarrow> string" where
  "lexeme_text (Word w) = w"
| "lexeme_text (Quoted s) = [dquote] @ quote_content s @ [dquote]"
| "lexeme_text Comma = '',''"
| "lexeme_text Semicolon = '';''"

text \<open>The token the parsers see: a quoted string keeps its quotes and loses its backslashes.\<close>

fun lexeme_token :: "lexeme \<Rightarrow> string" where
  "lexeme_token (Word w) = w"
| "lexeme_token (Quoted s) = [dquote] @ s @ [dquote]"
| "lexeme_token Comma = '',''"
| "lexeme_token Semicolon = '';''"

definition gap :: "string \<Rightarrow> bool" where
  "gap g \<longleftrightarrow> g \<noteq> [] \<and> set g \<subseteq> {CHR '' '', lf, cr}"

definition request_text :: "(lexeme \<times> string) list \<Rightarrow> string" where
  "request_text ls = concat (map (\<lambda>(l, g). lexeme_text l @ g) ls)"

lemma scan_all_simps [simp]:
  "scan_all [] z = z" "scan_all (c # p) z = scan_all p (scan_char c z)"
  "scan_all (p @ q) z = scan_all q (scan_all p z)"
  by (simp_all add: scan_all_def)

abbreviation between :: "string list \<Rightarrow> scanning" where
  "between toks \<equiv> \<lparr>sc_s = [], sc_raw = False, sc_escaped = False, sc_tokens = toks\<rparr>"

abbreviation quoting :: "string \<Rightarrow> string list \<Rightarrow> scanning" where
  "quoting s toks \<equiv> \<lparr>sc_s = s, sc_raw = True, sc_escaped = False, sc_tokens = toks\<rparr>"

lemma scan_word:
  "\<forall>c \<in> set w. plain_char c \<Longrightarrow>
     scan_all w \<lparr>sc_s = s, sc_raw = False, sc_escaped = False, sc_tokens = toks\<rparr> =
       \<lparr>sc_s = s @ w, sc_raw = False, sc_escaped = False, sc_tokens = toks\<rparr>"
  by (induction w arbitrary: s) (simp_all add: scan_char_def plain_char_def)

lemma scan_gap: "set g \<subseteq> {CHR '' '', lf, cr} \<Longrightarrow> scan_all g (between toks) = between toks"
  by (induction g) (auto simp: scan_char_def push_token_def)

lemma scan_content: "s \<noteq> [] \<Longrightarrow> scan_all (quote_content c) (quoting s toks) = quoting (s @ c) toks"
  by (induction c arbitrary: s) (auto simp: quote_content_def scan_char_def)

lemma scan_lexeme:
  assumes "lexeme_ok l" and "gap g"
  shows "scan_all (lexeme_text l @ g) (between toks) = between (toks @ [lexeme_token l])"
proof -
  obtain b g' where g: "g = b # g'" "b \<in> {CHR '' '', lf, cr}" "set g' \<subseteq> {CHR '' '', lf, cr}"
    using assms(2) by (cases g) (auto simp: gap_def)
  have q: "scan_char dquote (between toks) = quoting [dquote] toks" by (simp add: scan_char_def)
  have b: "scan_char b (between ts) = between ts" for ts
    using g(2) by (auto simp: scan_char_def push_token_def)
  show ?thesis
  proof (cases l)
    case (Word w)
    then have "w \<noteq> []" "\<forall>c \<in> set w. plain_char c" using assms(1) by auto
    then have "scan_char b (scan_all w (between toks)) = between (toks @ [w])"
      using g(2) by (subst scan_word) (auto simp: scan_char_def push_token_def)
    then show ?thesis using Word g scan_gap by simp
  next
    case (Quoted s)
    have "scan_char dquote (quoting (dquote # s) toks) = between (toks @ [dquote # s @ [dquote]])"
      by (simp add: scan_char_def)
    then show ?thesis using Quoted g(1,3) scan_gap q b scan_content [of "[dquote]" s toks] by simp
  qed (use g scan_gap b in \<open>simp_all add: scan_char_def push_token_def\<close>)
qed

lemma scan_request:
  "\<forall>(l, g) \<in> set ls. lexeme_ok l \<and> gap g \<Longrightarrow>
     scan_all (request_text ls) (between toks) = between (toks @ map (lexeme_token \<circ> fst) ls)"
proof (induction ls arbitrary: toks)
  case (Cons p ls)
  obtain l g where p: "p = (l, g)" by (cases p)
  have "scan_all (request_text (p # ls)) (between toks)
      = scan_all (request_text ls) (scan_all (lexeme_text l @ g) (between toks))"
    by (simp add: request_text_def p)
  also have "\<dots> = between (toks @ map (lexeme_token \<circ> fst) (p # ls))"
    using Cons scan_lexeme [of l g toks] by (simp add: p)
  finally show ?case .
qed (simp add: request_text_def)



section \<open>What every accepted request looks like\<close>

text \<open>The shape of a token: punctuation, a quoted string, or a word.\<close>

definition token_ok :: "string \<Rightarrow> bool" where
  "token_ok w \<longleftrightarrow> w = '','' \<or> w = '';'' \<or> (\<exists>s. w = [dquote] @ s @ [dquote]) \<or>
     (w \<noteq> [] \<and> (\<forall>c \<in> set w. plain_char c))"

definition scan_ok :: "scanning \<Rightarrow> bool" where
  "scan_ok z \<longleftrightarrow> (\<forall>w \<in> set (sc_tokens z). token_ok w) \<and>
     (if sc_raw z then \<exists>s. sc_s z = dquote # s
      else \<not> sc_escaped z \<and> (\<forall>c \<in> set (sc_s z). plain_char c))"

lemma token_okI:
  "w \<noteq> [] \<Longrightarrow> \<forall>c \<in> set w. plain_char c \<Longrightarrow> token_ok w"
  "token_ok ((dquote # s) @ [dquote])" "token_ok [CHR '','']" "token_ok [CHR '';'']"
  by (auto simp: token_ok_def)

lemma scan_ok_push: "scan_ok z \<Longrightarrow> \<not> sc_raw z \<Longrightarrow> scan_ok (push_token z) \<and> sc_s (push_token z) = [] \<and> \<not> sc_raw (push_token z)"
  by (auto simp: scan_ok_def push_token_def intro: token_okI(1))

lemma scan_ok_char:
  assumes "scan_ok z"
  shows "scan_ok (scan_char c z)"
proof (cases "sc_raw z")
  case True
  then obtain s where "sc_s z = dquote # s" using assms by (auto simp: scan_ok_def)
  then show ?thesis using True assms token_okI(2) [of s] by (auto simp: scan_ok_def scan_char_def)
next
  case False
  note p = scan_ok_push [OF assms False]
  have e: "\<not> sc_escaped z" "\<forall>c \<in> set (sc_s z). plain_char c" "\<forall>w \<in> set (sc_tokens z). token_ok w"
    using assms False by (auto simp: scan_ok_def)
  consider "c = dquote" | "c \<in> {CHR '' '', lf, cr}" | "c \<in> {CHR '','', CHR '';''}" | "plain_char c"
    by (auto simp: plain_char_def)
  then show ?thesis
  proof cases
    case 1
    then show ?thesis using e False token_okI(1) [of "sc_s z"] by (auto simp: scan_ok_def scan_char_def)
  next
    case 2
    then have "scan_char c z = push_token z" using False by (auto simp: scan_char_def)
    then show ?thesis using p by simp
  next
    case 3
    then have "scan_char c z = (push_token z)\<lparr>sc_tokens := sc_tokens (push_token z) @ [[c]]\<rparr>"
      using False by (auto simp: scan_char_def Let_def)
    then show ?thesis using p 3 token_okI(3,4) by (auto simp: scan_ok_def)
  next
    case 4
    then have "scan_char c z = z\<lparr>sc_s := sc_s z @ [c]\<rparr>" using False by (auto simp: scan_char_def plain_char_def)
    then show ?thesis using 4 e False by (auto simp: scan_ok_def)
  qed
qed

lemma scan_ok_all: "scan_ok z \<Longrightarrow> scan_ok (scan_all p z)"
  by (induction p arbitrary: z) (simp_all add: scan_ok_char)

text \<open>
  What tokenizing accepts: the last token is a semicolon, the number of tokens is kept, the
  cursor is not placed yet, and every token is a comma, a semicolon, a quoted string, or a word with
  none of the characters that separate tokens; no token is empty.
\<close>

theorem tokenize_accepts:
  assumes "tokenize p (new_tokenizer junk) = Inr t"
  shows "tk_tokens t \<noteq> [] \<and> last (tk_tokens t) = '';'' \<and> tk_number t = int (length (tk_tokens t)) \<and>
    tk_counter t = - 1 \<and> (\<forall>w \<in> set (tk_tokens t). token_ok w \<and> w \<noteq> [])"
proof -
  define z where "z = scan_all p (between [])"
  have ok: "scan_ok z" unfolding z_def by (rule scan_ok_all) (simp add: scan_ok_def)
  have raw: "\<not> sc_raw z" and t: "t = (new_tokenizer junk)\<lparr>tk_tokens := sc_tokens (push_token z),
      tk_number := int (length (sc_tokens (push_token z)))\<rparr>"
    and l: "sc_tokens (push_token z) \<noteq> []" "last (sc_tokens (push_token z)) = '';''"
    using assms by (auto simp: tokenize_def z_def new_tokenizer_def Let_def last_conv_nth split: if_splits)
  have "\<forall>w \<in> set (sc_tokens (push_token z)). token_ok w"
    using scan_ok_push [OF ok raw] by (auto simp: scan_ok_def)
  moreover have "token_ok w \<Longrightarrow> w \<noteq> []" for w by (auto simp: token_ok_def)
  ultimately show ?thesis using l by (auto simp: t new_tokenizer_def)
qed

theorem tokenize_accepts_witness:
  "\<exists>t. tokenize ''show help;'' (new_tokenizer 0) = Inr t \<and> last (tk_tokens t) = '';''"
proof -
  have "\<exists>t. tokenize ''show help;'' (new_tokenizer 0) = Inr t"
    by (simp add: tokenize_def new_tokenizer_def scan_char_def push_token_def Let_def)
  then show ?thesis using tokenize_accepts [of "''show help;''" 0] by blast
qed

text \<open>Quotes that are not closed.\<close>

lemma scan_quotes:
  "bslash \<notin> set p \<Longrightarrow> \<not> sc_escaped z \<Longrightarrow>
     \<not> sc_escaped (scan_all p z) \<and> sc_raw (scan_all p z) = (sc_raw z \<noteq> odd (length (filter (\<lambda>c. c = dquote) p)))"
proof (induction p arbitrary: z)
  case (Cons c p)
  have "\<not> sc_escaped (scan_char c z)" "sc_raw (scan_char c z) = (sc_raw z \<noteq> (c = dquote))"
    using Cons.prems by (auto simp: scan_char_def push_token_def Let_def)
  then show ?case using Cons by auto
qed simp

text \<open>
  A request without backslashes is refused for an unclosed quote exactly when the number of its
  quotes is odd, and the message says so.
\<close>

theorem unclosed_quote:
  assumes "bslash \<notin> set p"
  shows "tokenize p (new_tokenizer junk) =
      Inl (BESSyntaxUserError (''Parse error.'' @ [lf] @ ''Unclose quote found.('' @ [dquote] @ '')''))
    \<longleftrightarrow> odd (length (filter (\<lambda>c. c = dquote) p))"
proof -
  have "sc_raw (scan_all p (between [])) = odd (length (filter (\<lambda>c. c = dquote) p))"
    using scan_quotes [OF assms, of "between []"] by simp
  then show ?thesis by (simp add: tokenize_def new_tokenizer_def tk_parse_error_def Let_def)
qed

theorem unclosed_quote_witness:
  "tokenize [dquote, CHR '';''] (new_tokenizer 0) =
      Inl (BESSyntaxUserError (''Parse error.'' @ [lf] @ ''Unclose quote found.('' @ [dquote] @ '')''))"
  using unclosed_quote [of "[dquote, CHR '';'']" 0] by simp

section \<open>Reading the tokens\<close>

text \<open>The first token, then \<open>k\<close> times the next one: how the command parsers read.\<close>

primrec read_tokens :: "nat \<Rightarrow> tokenizer \<Rightarrow> (string list \<times> tokenizer) bes_result" where
  "read_tokens 0 t = Inr ((case get_first_token t of (None, t') \<Rightarrow> ([], t') | (Some x, t') \<Rightarrow> ([x], t')))"
| "read_tokens (Suc k) t =
     rbind (read_tokens k t) (\<lambda>(xs, t'). rbind (get_next_token t') (\<lambda>(x, t''). Inr (xs @ [x], t'')))"

lemma read_tokens_prefix:
  "tk_number t = int (length (tk_tokens t)) \<Longrightarrow> k < length (tk_tokens t) \<Longrightarrow>
     read_tokens k t = Inr (take (Suc k) (tk_tokens t), t\<lparr>tk_counter := int k\<rparr>)"
proof (induction k)
  case 0
  then show ?case by (cases "tk_tokens t") (simp_all add: get_first_token_def)
next
  case (Suc k)
  have "nat (int k + 1) = Suc k" by simp
  then show ?case using Suc by (simp add: get_next_token_def take_Suc_conv_app_nth)
qed

text \<open>
  The cursor reads the tokens of an accepted request in order, each once, the current token being
  the one read last; a read past the last one is refused with a message that shows all the tokens.
\<close>

theorem tokens_read_in_order:
  assumes "tokenize p (new_tokenizer junk) = Inr t" and "k < length (tk_tokens t)"
  shows "\<exists>t'. read_tokens k t = Inr (take (Suc k) (tk_tokens t), t') \<and>
      get_current_token t' = Inr (tk_tokens t ! k) \<and>
      (Suc k = length (tk_tokens t) \<longrightarrow> get_next_token t' = Inl (BESSyntaxUserError
         (''Parse error.'' @ [lf] @ concat (map (\<lambda>w. w @ '' '') (tk_tokens t)) @ ''<----HERE IS THE ERROR''
            @ [lf] @ incomplete)))"
proof -
  have n: "tk_number t = int (length (tk_tokens t))"
    using assms(1) by (auto simp: tokenize_def Let_def split: if_splits)
  have i: "incomplete \<noteq> []" "nat (int k + 1) = Suc k" by (simp_all add: incomplete_def)
  show ?thesis
    using read_tokens_prefix [OF n assms(2)] assms(2) n i
    by (auto simp: get_current_token_def get_next_token_def tk_parse_error_def Let_def)
qed

theorem tokens_read_in_order_witness:
  "\<exists>t t'. tokenize ''show help;'' (new_tokenizer 0) = Inr t \<and> read_tokens 2 t = Inr ([''show'', ''help'', '';''], t') \<and>
     get_current_token t' = Inr '';''"
proof -
  let ?t = "\<lparr>tk_tokens = [''show'', ''help'', '';''], tk_counter = - 1, tk_number = 3\<rparr>"
  have t: "tokenize ''show help;'' (new_tokenizer 0) = Inr ?t"
    by (simp add: tokenize_def new_tokenizer_def scan_char_def push_token_def Let_def)
  show ?thesis using tokens_read_in_order [OF t, of 2] t by auto
qed

section \<open>Container properties and quotes\<close>

lemma split_at: "drop w s = v \<Longrightarrow> s = take w s @ v"
  by (metis append_take_drop_id)

text \<open>
  A container property is recognised exactly when the token is a container name followed by
  \<^verbatim>\<open>.constraint=\<close> (type 1), or by \<^verbatim>\<open>.attributes=\<close> (type 2) with no \<^verbatim>\<open>.constraint=\<close> in it; the name is
  what stands before it.
\<close>

theorem parse_container_name_iff:
  "parse_container_name t s = Inr (n, type) \<longleftrightarrow>
     (type = 1 \<and> s = n @ ''.constraint='') \<or>
     (type = 2 \<and> s = n @ ''.attributes='' \<and> rfind_sub s ''.constraint='' = None)"
    (is "?l \<longleftrightarrow> ?r")
proof
  assume l: ?l
  show ?r
  proof (cases "rfind_sub s ''.constraint=''")
    case (Some w)
    obtain r where w: "w \<le> length s" "drop w s = ''.constraint='' @ r" using rfind_sub_Some [OF Some] by auto
    have "substr s w (length s) = drop w s" by (simp add: substr_def)
    then have "drop w s = ''.constraint=''" "n = take w s" "type = 1"
      using l Some w by (auto simp: parse_container_name_def substr_def Let_def split: if_splits)
    then show ?thesis using split_at by blast
  next
    case None
    then obtain w where sw: "rfind_sub s ''.attributes='' = Some w"
      using l by (cases "rfind_sub s ''.attributes=''") (auto simp: parse_container_name_def)
    obtain r where w: "w \<le> length s" "drop w s = ''.attributes='' @ r" using rfind_sub_Some [OF sw] by auto
    have "substr s w (length s) = drop w s" by (simp add: substr_def)
    then have "drop w s = ''.attributes=''" "n = take w s" "type = 2"
      using l None sw w by (auto simp: parse_container_name_def substr_def Let_def split: if_splits)
    then show ?thesis using split_at None by blast
  qed
next
  assume r: ?r
  have "rfind_sub (n @ ''.constraint='') ''.constraint='' = Some (length n)"
    "rfind_sub (n @ ''.attributes='') ''.attributes='' = Some (length n)" by (rule rfind_sub_suffix)+
  then show ?l using r by (auto simp: parse_container_name_def substr_def Let_def)
qed

text \<open>
  The quotes of a quoted token come off and give its text back; a token that does not begin and
  end with a quote is refused.
\<close>

theorem remove_quotes_spec:
  "remove_quotes t (lexeme_token (Quoted s)) = Inr s \<and>
   (is_ok (remove_quotes t w) \<longleftrightarrow> w \<noteq> [] \<and> hd w = dquote \<and> last w = dquote)"
  by (simp add: remove_quotes_def substr_def is_ok_def)

end
