(* ===== verification/BesKeys.thy ===== *)
theory BesKeys
  imports BesInfo BesUtil CppMap
begin

text \<open>
  The configuration of the BES (\<^verbatim>\<open>bes/dispatch/BESKeys.cc\<close>): splitting a line into a key and a value,
  the table of keys, the loader with its include files, and the two lookups. The path helpers of
  \<^verbatim>\<open>BESFSFile.cc\<close> and the directory listing of \<^verbatim>\<open>BESFSDir.cc\<close> that the includes need are here as well.
  The file system and the regular expressions are parameters.
\<close>

section \<open>Lines\<close>

definition only_blanks :: "string \<Rightarrow> bool" where
  "only_blanks line \<longleftrightarrow> find_first_not_of line '' '' 0 = None"

text \<open>
  The loop of \<open>break_pair\<close>: \<open>Inr (Some (pos, addto))\<close> when an equals sign was found, \<open>Inr None\<close>
  when there is none, \<open>Inl ()\<close> when a plus sign does not stand right before it.
\<close>

fun pair_loop :: "string \<Rightarrow> nat \<Rightarrow> nat \<Rightarrow> bool \<Rightarrow> unit + (nat \<times> bool) option" where
  "pair_loop [] j pos addto = Inr None"
| "pair_loop (c # b) j pos addto =
     (if c = CHR ''='' then
        if \<not> addto then Inr (Some (j, addto))
        else if pos \<noteq> j - 1 then Inl ()
        else Inr (Some (pos, addto))
      else if c = CHR ''+'' then pair_loop b (Suc j) j True
      else pair_loop b (Suc j) pos addto)"

definition plus_message :: "string \<Rightarrow> string \<Rightarrow> string" where
  "plus_message file b =
     ''BES: Invalid entry '' @ b @ '' in configuration file '' @ file
       @ '' '' @ [squote] @ ''+'' @ [squote] @ '' character found in variable name''
       @ '' or attempting '' @ [squote] @ ''+='' @ [squote] @ '' with space''
       @ '' between the characters.'' @ [lf]"

definition equals_message :: "string \<Rightarrow> string \<Rightarrow> string" where
  "equals_message file b =
     ''BES: Invalid entry '' @ b @ '' in configuration file '' @ file @ '': ''
       @ '' '' @ [squote] @ ''='' @ [squote] @ '' character not found.'' @ [lf]"

definition break_pair :: "string \<Rightarrow> string \<Rightarrow> (string \<times> string \<times> bool) option bes_result" where
  "break_pair file b =
     (if b \<noteq> [] \<and> hd b = CHR ''#'' \<or> only_blanks b then Inr None
      else if length b > 1 then
        (case pair_loop b 0 0 False of
           Inl _ \<Rightarrow> Inl (BESInternalFatalError (plus_message file b))
         | Inr None \<Rightarrow> Inl (BESInternalFatalError (equals_message file b))
         | Inr (Some (pos, addto)) \<Rightarrow>
             Inr (Some (removeLeadingAndTrailingBlanks (substr b 0 pos),
               removeLeadingAndTrailingBlanks (substr b (if addto then pos + 2 else pos + 1) (length b)), addto)))
      else Inr None)"

section \<open>The table\<close>

type_synonym keys = "(string, string list) cpp_map"

definition set_key :: "string \<Rightarrow> string \<Rightarrow> bool \<Rightarrow> keys \<Rightarrow> keys" where
  "set_key key val addto ks =
     (let ks = (case m_find ks key of None \<Rightarrow> m_set key [] ks | Some _ \<Rightarrow> ks);
          ks = (if \<not> addto then m_set key [] ks else ks)
      in if val \<noteq> [] then (let (vals, ks) = m_index [] key ks in m_set key (vals @ [val]) ks) else ks)"

text \<open>\<^verbatim>\<open>set_key(pair)\<close>: when \<open>break_pair\<close> finds nothing the empty key is set to nothing.\<close>

definition set_key_pair :: "string \<Rightarrow> string \<Rightarrow> keys \<Rightarrow> keys bes_result" where
  "set_key_pair file p ks =
     rbind (break_pair file (c_str p)) (\<lambda>r. case r of
         None \<Rightarrow> Inr (set_key [] [] False ks)
       | Some (k, v, addto) \<Rightarrow> Inr (set_key k v addto ks))"

text \<open>The value and whether the key was found; \<open>val\<close> is what the caller's variable held.\<close>

definition get_value :: "string \<Rightarrow> string \<Rightarrow> keys \<Rightarrow> (string \<times> bool) bes_result" where
  "get_value s val ks =
     (case m_find ks s of
        None \<Rightarrow> Inr (val, False)
      | Some vals \<Rightarrow>
          if length vals > 1
          then Inl (BESSyntaxUserError (''Multiple values for the key '' @ s @ '' found, should only be one.''))
          else if length vals = 1 then Inr (vals ! 0, True)
          else Inr ([], True))"

definition get_values :: "string \<Rightarrow> string list \<Rightarrow> keys \<Rightarrow> string list \<times> bool" where
  "get_values s vals ks =
     (case m_find ks s of None \<Rightarrow> (vals, False) | Some vs \<Rightarrow> (vs, True))"

section \<open>Paths and directories\<close>

text \<open>\<^verbatim>\<open>BESFSFile::breakApart\<close>: the directory and the file name.\<close>

definition breakApart :: "string \<Rightarrow> string \<times> string" where
  "breakApart fullPath =
     (case rfind_sub fullPath ''/'' of
        Some pos \<Rightarrow> (substr fullPath 0 pos, substr fullPath (pos + 1) (length fullPath - pos))
      | None \<Rightarrow> (''./'', fullPath))"

text \<open>\<^verbatim>\<open>BESFSFile::breakExtension\<close>: the base name and the extension.\<close>

definition breakExtension :: "string \<Rightarrow> string \<times> string" where
  "breakExtension fileName =
     (case rfind_sub fileName ''.'' of
        Some pos \<Rightarrow> (substr fileName 0 pos, substr fileName (pos + 1) (length fileName - pos))
      | None \<Rightarrow> (fileName, []))"

definition getFullPath :: "string \<times> string \<Rightarrow> string" where
  "getFullPath f = fst f @ ''/'' @ snd f"

text \<open>
  The file system: the contents of a file that can be opened, or the text of the error; the entries
  of a directory in the order \<^verbatim>\<open>readdir\<close> gives them, each with whether \<^verbatim>\<open>stat\<close> says that it is a
  directory; and the match of an expression against a text (the length of the match, or the error
  of an expression that does not compile).
\<close>

record file_system =
  fs_open :: "string \<Rightarrow> open_result"
  fs_dir :: "string \<Rightarrow> (string \<times> bool) list option"
  fs_match :: "string \<Rightarrow> string \<Rightarrow> int bes_result"
  fs_cwd :: string

text \<open>\<^verbatim>\<open>BESFSDir::loadDir\<close>: the directories and the files that the expression matches.\<close>

definition dir_entry :: "file_system \<Rightarrow> string \<Rightarrow> string \<Rightarrow> string \<times> bool \<Rightarrow>
    string list \<times> (string \<times> string) list \<Rightarrow> (string list \<times> (string \<times> string) list) bes_result" where
  "dir_entry fs dirName fileExpr e acc =
     (let (dirEntry, isdir) = e; (dirs, files) = acc
      in if dirEntry \<noteq> ''.'' \<and> dirEntry \<noteq> ''..'' then
           if isdir then Inr (dirs @ [dirName @ ''/'' @ dirEntry], files)
           else if fileExpr \<noteq> [] then
             rbind (fs_match fs fileExpr dirEntry) (\<lambda>match_ret.
               if match_ret = int (length dirEntry) then Inr (dirs, files @ [(dirName, dirEntry)])
               else Inr (dirs, files))
           else Inr (dirs, files @ [(dirName, dirEntry)])
         else Inr (dirs, files))"

definition loadDir :: "file_system \<Rightarrow> string \<Rightarrow> string \<Rightarrow> (string list \<times> (string \<times> string) list) bes_result" where
  "loadDir fs dirName fileExpr =
     (case fs_dir fs dirName of
        None \<Rightarrow> Inl (BESInternalError (''ERROR: failed to open directory '' @ [squote] @ dirName @ [squote]))
      | Some entries \<Rightarrow> each (dir_entry fs dirName fileExpr) entries ([], []))"

section \<open>Loading\<close>

text \<open>
  A load gives the table and the list of the files already included, or an exception; \<open>None\<close> says
  that it does not return. \<open>then_load\<close> is the sequence of two loads.
\<close>

type_synonym load_state = "keys \<times> string list"
type_synonym load_result = "load_state bes_result option"

definition then_load :: "load_result \<Rightarrow> (load_state \<Rightarrow> load_result) \<Rightarrow> load_result" where
  "then_load r f = (case r of None \<Rightarrow> None | Some (Inl e) \<Rightarrow> Some (Inl e) | Some (Inr st) \<Rightarrow> f st)"

fun load_each :: "('a \<Rightarrow> load_state \<Rightarrow> load_result) \<Rightarrow> 'a list \<Rightarrow> load_state \<Rightarrow> load_result" where
  "load_each f [] st = Some (Inr st)"
| "load_each f (x # xs) st = then_load (f x st) (load_each f xs)"

definition include_dir :: "string \<Rightarrow> string \<Rightarrow> string" where
  "include_dir current files =
     (let alldir = fst (breakApart files)
      in if files \<noteq> [] \<and> hd files = CHR ''/'' then alldir
         else let currdir = fst (breakApart current)
           in if (currdir = ''./'' \<or> currdir = ''.'') \<and> (alldir = ''./'' \<or> alldir = ''.'') then ''./''
              else if alldir = ''./'' \<or> alldir = ''.'' then currdir
              else currdir @ ''/'' @ alldir)"

text \<open>The functions below take the loader of one file, \<open>rec\<close>, as an argument.\<close>

definition load_include_file :: "(string \<Rightarrow> load_state \<Rightarrow> load_result) \<Rightarrow> string \<Rightarrow> load_state \<Rightarrow> load_result" where
  "load_include_file rec file st =
     (if file \<notin> set (snd st) then rec file (fst st, snd st @ [file]) else Some (Inr st))"

definition load_include_files ::
  "file_system \<Rightarrow> (string \<Rightarrow> load_state \<Rightarrow> load_result) \<Rightarrow> string \<Rightarrow> string \<Rightarrow> load_state \<Rightarrow> load_result" where
  "load_include_files fs rec current files st =
     (case loadDir fs (include_dir current files) (snd (breakApart files)) of
        Inl e \<Rightarrow> Some (Inl e)
      | Inr (dirs, found) \<Rightarrow> load_each (load_include_file rec) (map getFullPath found) st)"

definition load_line ::
  "file_system \<Rightarrow> (string \<Rightarrow> load_state \<Rightarrow> load_result) \<Rightarrow> string \<Rightarrow> string \<Rightarrow> load_state \<Rightarrow> load_result" where
  "load_line fs rec current buffer st =
     (case break_pair current (c_str buffer) of
        Inl e \<Rightarrow> Some (Inl e)
      | Inr None \<Rightarrow> Some (Inr st)
      | Inr (Some (key, value, addto)) \<Rightarrow>
          if key = ''BES.Include''
          then load_include_files fs rec current value (set_key key value True (fst st), snd st)
          else Some (Inr (set_key key value addto (fst st), snd st)))"

text \<open>
  \<^verbatim>\<open>load_keys\<close>: a line of more than 254 characters sets the fail flag, after which the end of the file
  is never reached.
\<close>

function load_keys ::
  "file_system \<Rightarrow> (string \<Rightarrow> load_state \<Rightarrow> load_result) \<Rightarrow> string \<Rightarrow> string \<Rightarrow> load_state \<Rightarrow> load_result" where
  "load_keys fs rec current contents st =
     (case getline 254 contents of
        Line l r \<Rightarrow> then_load (load_line fs rec current l st) (load_keys fs rec current r)
      | Eof l \<Rightarrow> (if l = [] then Some (Inr st) else load_line fs rec current l st)
      | Fail r \<Rightarrow> None)"
  by pat_completeness auto
termination
  by (relation "measure (\<lambda>(fs, f, n, s, st). length s)") (auto dest: getline_Line)

declare load_keys.simps [simp del]

text \<open>
  \<^verbatim>\<open>initialize_keys\<close>, called by both constructors. The first argument bounds the depth of the
  includes.
\<close>

fun initialize_keys :: "nat \<Rightarrow> file_system \<Rightarrow> string \<Rightarrow> load_state \<Rightarrow> load_result" where
  "initialize_keys 0 fs name st = None"
| "initialize_keys (Suc n) fs name st =
     (case fs_open fs name of
        Not_opened err \<Rightarrow>
          Some (Inl (BESInternalFatalError (''BES: fatal, cannot open BES configuration file '' @ name @ '': ''
            @ err @ ''.'' @ [lf] @ ''The current working directory is '' @ fs_cwd fs @ [lf])))
      | Opened contents \<Rightarrow>
          (case load_keys fs (initialize_keys n fs) name contents st of
             Some (Inl e) \<Rightarrow> Some (Inl (BESInternalFatalError (get_message e)))
           | r \<Rightarrow> r))"

definition new_keys :: "nat \<Rightarrow> file_system \<Rightarrow> string \<Rightarrow> string list \<Rightarrow> load_result" where
  "new_keys n fs name keyList = initialize_keys n fs name ([], keyList)"

section \<open>Facts about lines\<close>

lemma trim_id:
  assumes "s = [] \<or> hd s \<notin> set blanks \<and> last s \<notin> set blanks"
  shows "removeLeadingAndTrailingBlanks s = s"
proof (cases s)
  case (Cons c r)
  then have h: "s ! 0 \<notin> set blanks" "s \<noteq> []" "last s \<notin> set blanks" using assms by auto
  have f: "find_first_not_of s blanks 0 = Some 0"
    using h by (simp add: find_first_not_of_def find_if_from_here)
  obtain u z where u: "s = u @ [z]" using h(2) by (metis append_butlast_last_id)
  then have "find_last_not_of s blanks = Some (length s - 1)"
    using h(3) by (simp add: find_last_not_of_def)
  then show ?thesis using f h(2) by (simp add: removeLeadingAndTrailingBlanks_def substr_def)
qed (simp add: removeLeadingAndTrailingBlanks_def)

lemma pair_loop_none: "CHR ''='' \<notin> set b \<Longrightarrow> pair_loop b j pos addto = Inr None"
  by (induction b arbitrary: j pos addto) auto

lemma pair_loop_plain:
  "CHR ''='' \<notin> set l \<Longrightarrow> CHR ''+'' \<notin> set l \<Longrightarrow> pair_loop (l @ CHR ''='' # v) j pos False = Inr (Some (j + length l, False))"
  by (induction l arbitrary: j) auto

lemma pair_loop_plus:
  "CHR ''='' \<notin> set l \<Longrightarrow> addto \<or> CHR ''+'' \<in> set l \<Longrightarrow> (addto \<longrightarrow> pos < j) \<Longrightarrow>
     pair_loop (l @ CHR ''='' # v) j pos addto =
       (if (if l = [] then pos = j - 1 else last l = CHR ''+'')
        then Inr (Some (j + length l - 1, True)) else Inl ())"
proof (induction l arbitrary: j pos addto)
  case (Cons c l)
  show ?case
  proof (cases "c = CHR ''+''")
    case True
    then show ?thesis using Cons by auto
  next
    case False
    have "addto \<or> CHR ''+'' \<in> set l" using Cons.prems False by auto
    then have "pair_loop (l @ CHR ''='' # v) (Suc j) pos addto =
       (if (if l = [] then pos = j else last l = CHR ''+'')
        then Inr (Some (j + length l, True)) else Inl ())"
      using Cons by auto
    moreover have "l = [] \<Longrightarrow> pos \<noteq> j" using Cons.prems False \<open>addto \<or> CHR ''+'' \<in> set l\<close> by auto
    ultimately show ?thesis using False Cons.prems by auto
  qed
qed auto

lemma blanks_set: "set blanks = {CHR '' '', tab, lf, cr}"
  by (auto simp: blanks_def)

lemma not_only_blanks: "c \<in> set b \<Longrightarrow> c \<noteq> CHR '' '' \<Longrightarrow> \<not> only_blanks b"
  by (auto simp: only_blanks_def find_first_not_of_def find_if_from_None_iff)

text \<open>
  How a line of the configuration is read: a line with an equals sign in it that is no comment
  gives the trimmed text before the first equals sign and the trimmed text after it; when plus
  signs occur before the equals sign the last one must stand right before it, is left out of the key
  and asks for adding to the key; otherwise the line is refused. A line without an equals sign that
  is not blank, not a comment and longer than one character is refused too.
\<close>

theorem break_pair_spec:
  "(CHR ''='' \<notin> set l \<and> l @ v \<noteq> [] \<and> (l \<noteq> [] \<longrightarrow> hd l \<noteq> CHR ''#'') \<longrightarrow>
      break_pair file (l @ CHR ''='' # v) =
        (if CHR ''+'' \<notin> set l
         then Inr (Some (removeLeadingAndTrailingBlanks l, removeLeadingAndTrailingBlanks v, False))
         else if last l = CHR ''+''
         then Inr (Some (removeLeadingAndTrailingBlanks (butlast l), removeLeadingAndTrailingBlanks v, True))
         else Inl (BESInternalFatalError (plus_message file (l @ CHR ''='' # v))))) \<and>
   (CHR ''='' \<notin> set b \<and> 1 < length b \<and> hd b \<noteq> CHR ''#'' \<and> \<not> only_blanks b \<longrightarrow>
      break_pair file b = Inl (BESInternalFatalError (equals_message file b)))"
proof (intro conjI impI)
  assume a: "CHR ''='' \<notin> set l \<and> l @ v \<noteq> [] \<and> (l \<noteq> [] \<longrightarrow> hd l \<noteq> CHR ''#'')"
  let ?b = "l @ CHR ''='' # v"
  have nb: "\<not> only_blanks ?b" by (rule not_only_blanks [of "CHR ''=''"]) auto
  have h: "\<not> (?b \<noteq> [] \<and> hd ?b = CHR ''#'')" using a by (cases l) auto
  have len: "1 < length ?b" using a by (cases l; cases v) auto
  show "break_pair file ?b = (if CHR ''+'' \<notin> set l
         then Inr (Some (removeLeadingAndTrailingBlanks l, removeLeadingAndTrailingBlanks v, False))
         else if last l = CHR ''+''
         then Inr (Some (removeLeadingAndTrailingBlanks (butlast l), removeLeadingAndTrailingBlanks v, True))
         else Inl (BESInternalFatalError (plus_message file ?b)))"
  proof (cases "CHR ''+'' \<in> set l")
    case False
    then show ?thesis using a nb h len pair_loop_plain [of l v 0 0] by (simp add: break_pair_def substr_def)
  next
    case True
    then obtain k c where k: "l = k @ [c]" by (metis append_butlast_last_id empty_iff list.set(1))
    show ?thesis using True a nb h len pair_loop_plus [of l False 0 0 v]
      by (simp add: break_pair_def substr_def k)
  qed
next
  assume "CHR ''='' \<notin> set b \<and> 1 < length b \<and> hd b \<noteq> CHR ''#'' \<and> \<not> only_blanks b"
  then show "break_pair file b = Inl (BESInternalFatalError (equals_message file b))"
    by (auto simp: break_pair_def pair_loop_none)
qed

theorem break_pair_spec_witness:
  "break_pair ''f'' ''a += 3 '' = Inr (Some (''a'', ''3'', True)) \<and>
   break_pair ''f'' ''ab'' = Inl (BESInternalFatalError (equals_message ''f'' ''ab''))"
proof -
  have "removeLeadingAndTrailingBlanks ''a '' = ''a''" "removeLeadingAndTrailingBlanks '' 3 '' = ''3''" by code_simp+
  then show ?thesis
    using break_pair_spec [of "''a +''" "'' 3 ''" "''f''" "''ab''"]
    by (simp add: only_blanks_def find_first_not_of_def find_if_from_def)
qed

section \<open>Facts about the table\<close>

lemma m_index_eq: "m_index d k m = ((case m_find m k of None \<Rightarrow> d | Some v \<Rightarrow> v), (case m_find m k of None \<Rightarrow> m_set k d m | Some _ \<Rightarrow> m))"
  by (auto simp: m_index_def split: option.splits)

lemma set_key_find:
  "m_find (set_key k v addto ks) k' =
     (if k' = k then Some ((if addto then (case m_find ks k of None \<Rightarrow> [] | Some vs \<Rightarrow> vs) else [])
        @ (if v = [] then [] else [v]))
      else m_find ks k')"
  by (auto simp: set_key_def m_index_eq Let_def split: option.splits)

lemma set_key_ok [simp]: "m_ok ks \<Longrightarrow> m_ok (set_key k v addto ks)"
  by (auto simp: set_key_def m_index_eq Let_def split: option.splits)

text \<open>
  Setting a key gives it the value alone, or adds the value at the end of those it has; an empty
  value adds none but makes the key known. No other key is touched. One value can be read back, two
  or more are an error of \<open>get_value\<close>, and \<open>get_values\<close> gives them all in the order they were set.
\<close>

theorem set_key_read_back:
  "get_value k d (set_key k v False ks) = Inr (v, True) \<and>
   get_values k ds (set_key k v False ks) = ((if v = [] then [] else [v]), True) \<and>
   get_values k ds (set_key k v True ks) = (fst (get_values k [] ks) @ (if v = [] then [] else [v]), True) \<and>
   (\<exists>e. get_value k d (set_key k (a # b) True (set_key k (c # v) True ks)) = Inl e) \<and>
   (k' \<noteq> k \<longrightarrow> get_value k' d (set_key k v addto ks) = get_value k' d ks)"
  by (auto simp: get_value_def get_values_def set_key_find split: option.splits)

theorem set_key_read_back_witness:
  "get_value ''b'' d (set_key ''a'' v addto [(''b'', [''1''])]) = Inr (''1'', True)"
  using set_key_read_back [of "''a''" d v "[(''b'', [''1''])]" "[]" undefined "[]" undefined "''b''" addto]
  by (simp add: get_value_def m_find_def)

section \<open>Writing a table and loading it\<close>

text \<open>
  A way to write a table: each key alone, then a line for each of its values. The keys and values
  that lines can hold have no newline, no NUL and no blanks around them; a key has neither an equals
  sign nor a plus sign, does not start a comment, and is not the one that includes files.
\<close>

definition key_lines :: "string \<times> string list \<Rightarrow> string list" where
  "key_lines p = (fst p @ ''='') # map (\<lambda>v. fst p @ ''+='' @ v) (snd p)"

definition config_text :: "keys \<Rightarrow> string" where
  "config_text ks = concat (map (\<lambda>l. l @ [lf]) (concat (map key_lines ks)))"

definition entry_ok :: "string \<Rightarrow> bool" where
  "entry_ok s \<longleftrightarrow> s \<noteq> [] \<and> lf \<notin> set s \<and> nul \<notin> set s \<and> hd s \<notin> set blanks \<and> last s \<notin> set blanks"

definition key_ok :: "string \<Rightarrow> bool" where
  "key_ok k \<longleftrightarrow> entry_ok k \<and> CHR ''='' \<notin> set k \<and> CHR ''+'' \<notin> set k \<and> hd k \<noteq> CHR ''#'' \<and> k \<noteq> ''BES.Include''"

definition config_ok :: "keys \<Rightarrow> bool" where
  "config_ok ks \<longleftrightarrow> m_ok ks \<and>
     (\<forall>(k, vs) \<in> set ks. key_ok k \<and> length k \<le> 253 \<and> (\<forall>v \<in> set vs. entry_ok v \<and> length k + length v \<le> 252))"

lemma load_keys_lines:
  "\<forall>l \<in> set ls. lf \<notin> set l \<and> length l \<le> 254 \<Longrightarrow>
     load_keys fs rec name (concat (map (\<lambda>l. l @ [lf]) ls)) st = load_each (load_line fs rec name) ls st"
proof (induction ls arbitrary: st)
  case (Cons l ls)
  have "getline 254 (concat (map (\<lambda>l. l @ [lf]) (l # ls))) = Line l (concat (map (\<lambda>l. l @ [lf]) ls))"
    using Cons.prems by (simp add: getline_here)
  moreover have "load_keys fs rec name (concat (map (\<lambda>l. l @ [lf]) ls)) = load_each (load_line fs rec name) ls"
    using Cons by (intro ext) simp
  ultimately show ?case by (subst load_keys.simps) simp
qed (subst load_keys.simps, simp)

lemma c_str_id: "nul \<notin> set s \<Longrightarrow> c_str s = s"
  by (auto simp: c_str_def takeWhile_eq_all_conv)

lemma break_key_line:
  assumes "key_ok k"
  shows "break_pair f (k @ ''='') = Inr (Some (k, [], False))"
    and "entry_ok v \<Longrightarrow> break_pair f (k @ ''+='' @ v) = Inr (Some (k, v, True))"
proof -
  have k: "k \<noteq> []" "CHR ''='' \<notin> set k" "CHR ''+'' \<notin> set k" "hd k \<noteq> CHR ''#''" "removeLeadingAndTrailingBlanks k = k"
    using assms by (auto simp: key_ok_def entry_ok_def intro: trim_id)
  have e: "removeLeadingAndTrailingBlanks [] = []" by (simp add: trim_id)
  have nb: "\<not> only_blanks (l @ CHR ''='' # v)" for l v by (rule not_only_blanks [of "CHR ''=''"]) auto
  show "break_pair f (k @ ''='') = Inr (Some (k, [], False))"
    using k e nb [of k "[]"] pair_loop_plain [of k "[]" 0 0] by (auto simp: break_pair_def substr_def)
  assume "entry_ok v"
  then have v: "removeLeadingAndTrailingBlanks v = v" by (auto simp: entry_ok_def intro: trim_id)
  have "pair_loop ((k @ ''+'') @ CHR ''='' # v) 0 0 False = Inr (Some (length k, True))"
    using k by (subst pair_loop_plus) auto
  then show "break_pair f (k @ ''+='' @ v) = Inr (Some (k, v, True))"
    using k v nb [of "k @ ''+''" v] by (simp add: break_pair_def substr_def)
qed

lemma load_key_lines:
  assumes "key_ok k" and "\<forall>v \<in> set vs. entry_ok v" and "m_ok ks"
  shows "load_each (load_line fs rec name) (key_lines (k, vs)) (ks, kl) = Some (Inr (m_set k vs ks, kl))"
proof -
  have k: "nul \<notin> set k" "k \<noteq> ''BES.Include''" using assms(1) by (auto simp: key_ok_def entry_ok_def)
  have one: "load_line fs rec name (k @ ''='') (ks, kl) = Some (Inr (m_set k [] ks, kl))"
  proof -
    have "set_key k [] False ks = m_set k [] ks"
      using assms(3) by (intro m_ok_ext) (auto simp: set_key_find)
    then show ?thesis using k break_key_line(1) [OF assms(1)] by (simp add: load_line_def c_str_id)
  qed
  have more: "\<forall>v \<in> set us. entry_ok v \<Longrightarrow>
      load_each (load_line fs rec name) (map (\<lambda>v. k @ ''+='' @ v) us) (m_set k ws ks, kl) = Some (Inr (m_set k (ws @ us) ks, kl))" for us ws
  proof (induction us arbitrary: ws)
    case (Cons u us)
    then have u: "nul \<notin> set u" "u \<noteq> []" "entry_ok u" by (auto simp: entry_ok_def)
    have "set_key k u True (m_set k ws ks) = m_set k (ws @ [u]) ks"
      using assms(3) u by (intro m_ok_ext) (auto simp: set_key_find)
    then have "load_line fs rec name (k @ ''+='' @ u) (m_set k ws ks, kl) = Some (Inr (m_set k (ws @ [u]) ks, kl))"
      using k u break_key_line(2) [OF assms(1) u(3)] by (simp add: load_line_def c_str_id)
    then show ?case using Cons by (simp add: then_load_def)
  qed simp
  show ?thesis using one more [OF assms(2), of "[]"] by (simp add: key_lines_def then_load_def)
qed

lemma load_each_append: "load_each f (xs @ ys) st = then_load (load_each f xs st) (load_each f ys)"
  by (induction xs arbitrary: st) (auto simp: then_load_def split: option.splits sum.splits)

lemma load_config_lines:
  "\<forall>(k, vs) \<in> set es. key_ok k \<and> (\<forall>v \<in> set vs. entry_ok v) \<Longrightarrow> m_ok ks \<Longrightarrow>
     load_each (load_line fs rec name) (concat (map key_lines es)) (ks, kl)
       = Some (Inr (fold (\<lambda>(k, vs). m_set k vs) es ks, kl))"
proof (induction es arbitrary: ks)
  case (Cons e es)
  obtain k vs where e: "e = (k, vs)" by (cases e)
  then show ?case using Cons load_key_lines [of k vs ks fs rec name kl]
    by (simp add: load_each_append then_load_def)
qed simp

text \<open>
  C32: A table written as lines and loaded again is the same table: every key with its values, in
  their order, and nothing else; no file is included.
\<close>

theorem config_round_trip:
  assumes "config_ok ks" and "fs_open fs name = Opened (config_text ks)"
  shows "new_keys (Suc n) fs name kl = Some (Inr (ks, kl))"
proof -
  have k: "\<forall>(k, vs) \<in> set ks. key_ok k \<and> (\<forall>v \<in> set vs. entry_ok v)" "m_ok ks"
    using assms(1) by (auto simp: config_ok_def)
  have "\<forall>l \<in> set (concat (map key_lines ks)). lf \<notin> set l \<and> length l \<le> 254"
    using assms(1) by (fastforce simp: config_ok_def key_lines_def key_ok_def entry_ok_def)
  then have "load_keys fs (initialize_keys n fs) name (config_text ks) ([], kl) = Some (Inr (ks, kl))"
    unfolding config_text_def using load_config_lines [OF k(1), of "[]" fs "initialize_keys n fs" name kl] fold_set_self [OF k(2)]
    by (simp add: load_keys_lines)
  then show ?thesis using assms(2) by (simp add: new_keys_def)
qed

theorem config_round_trip_witness:
  "new_keys 1 \<lparr>fs_open = (\<lambda>_. Opened (''BES.User='' @ [lf] @ ''BES.User+=user 1'' @ [lf])), fs_dir = (\<lambda>_. None),
      fs_match = (\<lambda>_ _. Inr 0), fs_cwd = ''/''\<rparr> ''f'' [] = Some (Inr ([(''BES.User'', [''user 1''])], []))"
  using config_round_trip [of "[(''BES.User'', [''user 1''])]" _ "''f''" 0 "[]"]
  by (simp add: config_ok_def key_ok_def entry_ok_def blanks_set config_text_def key_lines_def)

section \<open>Loading returns\<close>

text \<open>
  The lines \<open>getline\<close> delivers from a text, whether it comes to the end of the text, and the files
  a text includes.
\<close>

function text_lines :: "string \<Rightarrow> string list" where
  "text_lines s =
     (case getline 254 s of Line l r \<Rightarrow> l # text_lines r | Eof l \<Rightarrow> (if l = [] then [] else [l]) | Fail r \<Rightarrow> [])"
  by pat_completeness auto
termination
  by (relation "measure length") (auto dest: getline_Line)

function ends_well :: "string \<Rightarrow> bool" where
  "ends_well s = (case getline 254 s of Line l r \<Rightarrow> ends_well r | Eof l \<Rightarrow> True | Fail r \<Rightarrow> False)"
  by pat_completeness auto
termination
  by (relation "measure length") (auto dest: getline_Line)

declare text_lines.simps [simp del] ends_well.simps [simp del]

definition included_by_line :: "file_system \<Rightarrow> string \<Rightarrow> string \<Rightarrow> string set" where
  "included_by_line fs current l =
     (case break_pair current (c_str l) of
        Inr (Some (key, value, addto)) \<Rightarrow>
          if key = ''BES.Include''
          then (case loadDir fs (include_dir current value) (snd (breakApart value)) of
                  Inr (dirs, found) \<Rightarrow> set (map getFullPath found) | Inl _ \<Rightarrow> {})
          else {}
      | _ \<Rightarrow> {})"

inductive_set included :: "file_system \<Rightarrow> string \<Rightarrow> string set" for fs :: file_system and root :: string where
  included_root: "root \<in> included fs root"
| included_step: "f \<in> included fs root \<Longrightarrow> fs_open fs f = Opened s \<Longrightarrow> l \<in> set (text_lines s) \<Longrightarrow>
     g \<in> included_by_line fs f l \<Longrightarrow> g \<in> included fs root"

text \<open>A load that returns, and only lengthens the list of the included files.\<close>

definition returns :: "load_state \<Rightarrow> load_result \<Rightarrow> bool" where
  "returns st r \<longleftrightarrow> r \<noteq> None \<and> (\<forall>st'. r = Some (Inr st') \<longrightarrow> set (snd st) \<subseteq> set (snd st'))"

lemma returns_mono: "returns st r \<Longrightarrow> set (snd st0) \<subseteq> set (snd st) \<Longrightarrow> returns st0 r"
  by (cases r) (auto simp: returns_def dest: subsetD)

lemma returns_then:
  assumes "returns st r" and "\<And>st'. set (snd st) \<subseteq> set (snd st') \<Longrightarrow> returns st' (f st')"
  shows "returns st (then_load r f)"
proof -
  obtain x where r: "r = Some x" using assms(1) by (auto simp: returns_def)
  show ?thesis
  proof (cases x)
    case (Inl e)
    then show ?thesis using r by (simp add: then_load_def returns_def)
  next
    case (Inr st')
    then have s: "set (snd st) \<subseteq> set (snd st')" using assms(1) r by (simp add: returns_def)
    show ?thesis using returns_mono [OF assms(2) [OF s] s] r Inr by (simp add: then_load_def)
  qed
qed

lemma returns_each:
  "(\<And>x st'. x \<in> set xs \<Longrightarrow> set (snd st) \<subseteq> set (snd st') \<Longrightarrow> returns st' (f x st')) \<Longrightarrow> returns st (load_each f xs st)"
proof (induction xs arbitrary: st)
  case Nil
  then show ?case by (simp add: returns_def)
next
  case (Cons x xs)
  show ?case unfolding load_each.simps
  proof (rule returns_then)
    show "returns st (f x st)" using Cons.prems by simp
    fix st' :: load_state assume "set (snd st) \<subseteq> set (snd st')"
    then show "returns st' (load_each f xs st')" using Cons.prems by (intro Cons.IH) auto
  qed
qed

text \<open>The loader of an included file returns as long as its path is new.\<close>

definition good_rec :: "(string \<Rightarrow> load_state \<Rightarrow> load_result) \<Rightarrow> string set \<Rightarrow> load_state \<Rightarrow> bool" where
  "good_rec rec P st \<longleftrightarrow> (\<forall>g st'. g \<in> P \<longrightarrow> set (snd st) \<subseteq> set (snd st') \<longrightarrow> g \<notin> set (snd st') \<longrightarrow>
     returns st' (rec g (fst st', snd st' @ [g])))"

lemma good_rec_mono: "good_rec rec P st \<Longrightarrow> set (snd st) \<subseteq> set (snd st') \<Longrightarrow> good_rec rec P st'"
  unfolding good_rec_def by blast

lemma returns_line:
  assumes "included_by_line fs f l \<subseteq> P" and "good_rec rec P st"
  shows "returns st (load_line fs rec f l st)"
proof -
  consider e where "break_pair f (c_str l) = Inl e" | "break_pair f (c_str l) = Inr None"
    | k v a where "break_pair f (c_str l) = Inr (Some (k, v, a))"
    by (metis sum.exhaust option.exhaust prod_cases3)
  then show ?thesis
  proof cases
    case (3 k v a)
    show ?thesis
    proof (cases "k = ''BES.Include''")
      case True
      let ?st = "(set_key k v True (fst st), snd st)"
      have inc: "load_line fs rec f l st = load_include_files fs rec f v ?st" using 3 True by (simp add: load_line_def)
      show ?thesis
      proof (cases "loadDir fs (include_dir f v) (snd (breakApart v))")
        case (Inl e)
        then show ?thesis using inc by (simp add: load_include_files_def returns_def)
      next
        case (Inr df)
        obtain ds fo where df: "df = (ds, fo)" by (cases df)
        have sub: "set (map getFullPath fo) \<subseteq> P" using assms(1) 3 True Inr df by (simp add: included_by_line_def)
        have "returns ?st (load_each (load_include_file rec) (map getFullPath fo) ?st)"
        proof (rule returns_each)
          fix g and st' :: load_state assume "g \<in> set (map getFullPath fo)" "set (snd ?st) \<subseteq> set (snd st')"
          then have "g \<notin> set (snd st') \<Longrightarrow> returns st' (rec g (fst st', snd st' @ [g]))"
            using sub assms(2) unfolding good_rec_def by (metis subsetD snd_conv)
          then show "returns st' (load_include_file rec g st')"
            by (simp add: load_include_file_def returns_def)
        qed
        then show ?thesis using inc Inr df by (simp add: load_include_files_def returns_def)
      qed
    qed (use 3 in \<open>simp add: load_line_def returns_def\<close>)
  qed (simp_all add: load_line_def returns_def)
qed

lemma returns_text:
  "ends_well s \<Longrightarrow> (\<And>l. l \<in> set (text_lines s) \<Longrightarrow> included_by_line fs f l \<subseteq> P) \<Longrightarrow> good_rec rec P st \<Longrightarrow>
     returns st (load_keys fs rec f s st)"
proof (induction "length s" arbitrary: s st rule: less_induct)
  case less
  show ?case
  proof (cases "getline 254 s")
    case (Line l r)
    then have len: "length r < length s" by (auto dest: getline_Line)
    have l: "included_by_line fs f l \<subseteq> P" using less.prems(2) Line by (simp add: text_lines.simps [of s])
    have "returns st (then_load (load_line fs rec f l st) (load_keys fs rec f r))"
    proof (rule returns_then)
      show "returns st (load_line fs rec f l st)" using l less.prems(3) by (rule returns_line)
      fix st' :: load_state assume "set (snd st) \<subseteq> set (snd st')"
      then show "returns st' (load_keys fs rec f r st')"
        using less.prems Line good_rec_mono
        by (intro less.hyps [OF len]) (auto simp: text_lines.simps [of s] ends_well.simps [of s])
    qed
    then show ?thesis using Line by (subst load_keys.simps) simp
  next
    case (Eof l)
    then show ?thesis using less.prems returns_line [of fs f l P rec st]
      by (subst load_keys.simps) (auto simp: text_lines.simps [of s] returns_def)
  next
    case (Fail r)
    then show ?thesis using less.prems by (simp add: ends_well.simps [of s])
  qed
qed

lemma returns_init:
  assumes "finite P" and "\<And>f s. f \<in> P \<Longrightarrow> fs_open fs f = Opened s \<Longrightarrow>
      ends_well s \<and> (\<forall>l \<in> set (text_lines s). included_by_line fs f l \<subseteq> P)"
  shows "f \<in> P \<Longrightarrow> card (P - set (snd st)) < n \<Longrightarrow> returns st (initialize_keys n fs f st)"
proof (induction n arbitrary: f st)
  case (Suc n)
  show ?case
  proof (cases "fs_open fs f")
    case (Opened s)
    have "good_rec (initialize_keys n fs) P st"
      unfolding good_rec_def
    proof (intro allI impI)
      fix g and st' :: load_state assume g: "g \<in> P" "set (snd st) \<subseteq> set (snd st')" "g \<notin> set (snd st')"
      have "P - set (snd st' @ [g]) \<subset> P - set (snd st)" using g by auto
      then have "card (P - set (snd st' @ [g])) < n" using Suc.prems(2) assms(1)
        by (meson finite_Diff psubset_card_mono less_Suc_eq_le less_le_trans)
      then have "returns (fst st', snd st' @ [g]) (initialize_keys n fs g (fst st', snd st' @ [g]))"
        using g by (intro Suc.IH) auto
      then show "returns st' (initialize_keys n fs g (fst st', snd st' @ [g]))" by (auto simp: returns_def)
    qed
    then have "returns st (load_keys fs (initialize_keys n fs) f s st)"
      using assms(2) [OF Suc.prems(1) Opened] by (intro returns_text) auto
    then show ?thesis using Opened by (auto simp: returns_def split: option.splits sum.splits)
  qed (simp add: returns_def)
qed simp

text \<open>
  C33: Loading a configuration returns, with the table or with an exception, when the includes reach
  finitely many paths and none of these files has a line of more than 254 characters: then as many
  nested loads as there are paths and one more are enough.
\<close>

theorem loading_returns:
  assumes "finite (included fs name)"
    and "\<forall>f \<in> included fs name. \<forall>s. fs_open fs f = Opened s \<longrightarrow> ends_well s"
    and "card (included fs name) < n"
  shows "\<exists>r. new_keys n fs name kl = Some r"
proof -
  have "card (included fs name - set (snd ([], kl))) < n"
    using card_mono [OF assms(1), of "included fs name - set kl"] assms(3) by auto
  then have "returns ([], kl) (initialize_keys n fs name ([], kl))"
    using assms(2) by (intro returns_init [OF assms(1)]) (auto intro: included_root included_step)
  then show ?thesis by (auto simp: returns_def new_keys_def)
qed

theorem loading_returns_witness:
  "\<exists>r. new_keys 2 \<lparr>fs_open = (\<lambda>_. Opened ''a=b''), fs_dir = (\<lambda>_. None), fs_match = (\<lambda>_ _. Inr 0), fs_cwd = ''/''\<rparr> ''f'' [] = Some r"
proof -
  let ?fs = "\<lparr>fs_open = (\<lambda>_. Opened ''a=b''), fs_dir = (\<lambda>_. None), fs_match = (\<lambda>_ _. Inr 0), fs_cwd = ''/''\<rparr>"
  have none: "included_by_line ?fs f l = {}" for f l
    by (auto simp: included_by_line_def loadDir_def split: sum.splits option.splits)
  have "g = ''f''" if "g \<in> included ?fs ''f''" for g using that by (induction rule: included.induct) (simp_all only: none empty_iff)
  then have i: "included ?fs ''f'' = {''f''}" by (auto intro: included_root)
  show ?thesis by (rule loading_returns) (simp_all add: i ends_well.simps [of "''a=b''"])
qed

section \<open>Includes that never end\<close>

lemma breakApart_last: "CHR ''/'' \<notin> set f \<Longrightarrow> breakApart (c @ ''/'' @ f) = (c, f)"
proof -
  assume f: "CHR ''/'' \<notin> set f"
  have "rfind_sub (c @ ''/'' @ f) ''/'' = Some (length c)"
    unfolding rfind_sub_def
  proof (rule rscan_sub_skip)
    fix k assume k: "length c < k" "k \<le> length (c @ ''/'' @ f)"
    then obtain m where m: "k = Suc (length c + m)" using less_imp_Suc_add by blast
    have "drop k (c @ ''/'' @ f) = drop m f" by (simp add: m)
    moreover have "CHR ''/'' \<notin> set (drop m f)" using f by (meson in_set_dropD)
    ultimately show "\<not> starts_with ''/'' (drop k (c @ ''/'' @ f))" by (auto simp: starts_with_iff)
  qed (auto simp: starts_with_iff)
  then show ?thesis by (simp add: breakApart_def substr_def)
qed

text \<open>A file system in which every file is the same: it includes itself by way of the directory above.\<close>

definition cyclic_fs :: file_system where
  "cyclic_fs = \<lparr>fs_open = (\<lambda>_. Opened (''BES.Include=../d/a'')), fs_dir = (\<lambda>_. Some [(''a'', False)]),
     fs_match = (\<lambda>_ s. Inr (int (length s))), fs_cwd = ''/''\<rparr>"

lemma cyclic_line:
  "load_line cyclic_fs rec (c @ ''/a'') ''BES.Include=../d/a'' st =
     load_include_file rec (c @ ''/../d/a'') (set_key ''BES.Include'' ''../d/a'' True (fst st), snd st)"
proof -
  have "removeLeadingAndTrailingBlanks ''BES.Include'' = ''BES.Include''"
    "removeLeadingAndTrailingBlanks ''../d/a'' = ''../d/a''" by code_simp+
  then have "break_pair f ''BES.Include=../d/a'' = Inr (Some (''BES.Include'', ''../d/a'', False))" for f
    by (simp add: break_pair_def only_blanks_def find_first_not_of_def find_if_from_def substr_def)
  moreover have "c_str ''BES.Include=../d/a'' = ''BES.Include=../d/a''" by code_simp
  moreover have "breakApart (c @ ''/a'') = (c, ''a'')" "breakApart ''../d/a'' = (''../d'', ''a'')"
    using breakApart_last [of "''a''" c] breakApart_last [of "''a''" "''../d''"] by simp_all
  ultimately show ?thesis
    by (simp add: load_line_def load_include_files_def include_dir_def loadDir_def dir_entry_def cyclic_fs_def
        getFullPath_def Let_def then_load_def split: option.split sum.split)
qed

text \<open>
  The list of the files already included does not stop every cycle: it compares paths as they are
  written, and a file that includes itself by way of another directory is given a longer path each
  time, so that no number of nested loads is enough.
\<close>

theorem include_cycle_not_seen: "new_keys n cyclic_fs ''d/a'' [] = None"
proof -
  have "(\<forall>q \<in> set (snd st). length q \<le> length c + 2) \<Longrightarrow> initialize_keys n cyclic_fs (c @ ''/a'') st = None" for c st
  proof (induction n arbitrary: c st)
    case (Suc n)
    let ?t = "''BES.Include=../d/a''"
    let ?p = "c @ ''/../d/a''"
    have new: "?p \<notin> set (snd st)" using Suc.prems by force
    have "initialize_keys n cyclic_fs ((c @ ''/../d'') @ ''/a'') (m, snd st @ [?p]) = None" for m
      using Suc.prems by (intro Suc.IH) auto
    then have "load_line cyclic_fs (initialize_keys n cyclic_fs) (c @ ''/a'') ?t st = None"
      using new unfolding cyclic_line by (simp add: load_include_file_def)
    moreover have "getline 254 ?t = Eof ?t" by (rule getline_eof) simp_all
    ultimately have "load_keys cyclic_fs (initialize_keys n cyclic_fs) (c @ ''/a'') ?t st = None"
      by (subst load_keys.simps) simp
    moreover have "fs_open cyclic_fs f = Opened ?t" for f by (simp add: cyclic_fs_def)
    ultimately show ?case by simp
  qed simp
  from this [of "([], [])" "''d''"] show ?thesis by (simp add: new_keys_def)
qed

end
