(* ===== verification/BesXml.thy ===== *)
theory BesXml
  imports BesUtil BesInfo
begin

text \<open>
  The XML helpers of the command layer, \<^verbatim>\<open>bes/xmlcommand/BESXMLUtils.cc\<close>. The tree is the one libxml2
  has parsed. A pointer to a child node is the list of the siblings from that child on, so that
  \<open>[]\<close> is the null pointer and \<^verbatim>\<open>node->next\<close> is the tail. The name, the value and the properties
  that the functions write into are arguments and part of the result: what a function does not assign
  keeps the value the caller had.
\<close>

section \<open>The tree\<close>

text \<open>
  An attribute has the content of its first child, \<open>None\<close> when there is no child or no content; a text
  node has a content or none; comments and other nodes have nothing the code looks at.
\<close>

datatype xml_node =
    Element string "(string \<times> string option) list" "xml_node list"
  | Text_node "string option"
  | Other_node

fun is_element :: "xml_node \<Rightarrow> bool" where
  "is_element (Element n p c) = True"
| "is_element _ = False"

fun xml_children :: "xml_node \<Rightarrow> xml_node list" where
  "xml_children (Element n p c) = c"
| "xml_children _ = []"

fun xml_name :: "xml_node \<Rightarrow> string" where
  "xml_name (Element n p c) = n"
| "xml_name _ = []"

section \<open>Properties and values\<close>

definition clean_text :: "string \<Rightarrow> string" where
  "clean_text s = removeLeadingAndTrailingBlanks (bes_xml2id s)"

fun get_props_loop :: "(string \<times> string option) list \<Rightarrow> props \<Rightarrow> props" where
  "get_props_loop [] props = props"
| "get_props_loop ((n, v) # attrs) props =
     get_props_loop attrs
       (m_set (removeLeadingAndTrailingBlanks n) (case v of Some c \<Rightarrow> clean_text c | None \<Rightarrow> []) props)"

fun get_props :: "xml_node \<Rightarrow> props \<Rightarrow> props" where
  "get_props (Element n attrs c) props = get_props_loop attrs props"
| "get_props _ props = props"

text \<open>The first text node among the children gives the value.\<close>

fun get_value_loop :: "xml_node list \<Rightarrow> string \<Rightarrow> string" where
  "get_value_loop [] value = value"
| "get_value_loop (Text_node c # rest) value = (case c of Some s \<Rightarrow> clean_text s | None \<Rightarrow> [])"
| "get_value_loop (_ # rest) value = get_value_loop rest value"

type_synonym node_info = "string \<times> string \<times> props"

fun get_node_info :: "xml_node \<Rightarrow> node_info \<Rightarrow> node_info" where
  "get_node_info node (name, value, props) =
     (removeLeadingAndTrailingBlanks (xml_name node), get_value_loop (xml_children node) value, get_props node props)"

section \<open>Children\<close>

text \<open>The search for the next element, from a node of a list of siblings on.\<close>

fun next_element :: "xml_node list \<Rightarrow> node_info \<Rightarrow> xml_node list \<times> node_info" where
  "next_element [] info = ([], info)"
| "next_element (n # rest) info =
     (if is_element n then (n # rest, get_node_info n info) else next_element rest info)"

definition get_first_child :: "xml_node \<Rightarrow> node_info \<Rightarrow> xml_node list \<times> node_info" where
  "get_first_child node info = next_element (xml_children node) info"

definition get_next_child :: "xml_node list \<Rightarrow> node_info \<Rightarrow> xml_node list \<times> node_info" where
  "get_next_child child_node info = (case child_node of [] \<Rightarrow> ([], info) | _ # rest \<Rightarrow> next_element rest info)"

fun get_child_loop :: "xml_node list \<Rightarrow> string \<Rightarrow> string \<times> props \<Rightarrow> xml_node list \<times> string \<times> props" where
  "get_child_loop [] child_name (value, props) = ([], value, props)"
| "get_child_loop (n # rest) child_name (value, props) =
     (if is_element n \<and> removeLeadingAndTrailingBlanks (xml_name n) = child_name
      then (n # rest, snd (get_node_info n ([], value, props)))
      else get_child_loop rest child_name (value, props))"

definition get_child :: "xml_node \<Rightarrow> string \<Rightarrow> string \<times> props \<Rightarrow> xml_node list \<times> string \<times> props" where
  "get_child node child_name info = get_child_loop (xml_children node) child_name info"

section \<open>Walking over the children\<close>

text \<open>
  The loop that the commands write: from the first child on, with everything cleared before the next
  one is read. The result of \<open>f\<close> is collected.
\<close>

lemma next_element_shorter: "length (fst (next_element ns info)) \<le> length ns"
  by (induction ns info rule: next_element.induct) auto

function walk_children :: "xml_node list \<times> node_info \<Rightarrow> (xml_node \<times> node_info) list" where
  "walk_children (here, info) =
     (case here of [] \<Rightarrow> [] | n # _ \<Rightarrow> (n, info) # walk_children (get_next_child here ([], [], [])))"
  by pat_completeness auto

termination
proof (relation "measure (\<lambda>(here, info). length here)", goal_cases)
  case (2 here info n rest)
  then show ?case using next_element_shorter [of rest "([], [], [])"]
    by (cases "next_element rest ([], [], [])") (auto simp: get_next_child_def)
qed simp

declare walk_children.simps [simp del]

lemma walk_next_element:
  "walk_children (next_element ns ([], [], [])) = map (\<lambda>n. (n, get_node_info n ([], [], []))) (filter is_element ns)"
proof (induction ns)
  case (Cons n ns)
  show ?case
  proof (cases "is_element n")
    case True
    then show ?thesis
      by (simp del: get_node_info.simps add: walk_children.simps [of "n # ns"] get_next_child_def Cons)
  next
    case False
    then show ?thesis using Cons by simp
  qed
qed (simp add: walk_children.simps)

text \<open>
  The walk of the commands over the children of an element, with \<open>GetFirstChild\<close> and
  \<open>GetNextChild\<close>, visits the element children, all of them, in their order and each once, and gives
  for each its own name, value and properties.
\<close>

lemma children_visited:
  "walk_children (get_first_child node ([], [], [])) =
     map (\<lambda>n. (n, get_node_info n ([], [], []))) (filter is_element (xml_children node))"
  by (simp add: get_first_child_def walk_next_element)

end
