(* ===== verification/BesCommand.thy ===== *)
theory BesCommand
  imports BesXml Storage BesKeys
begin

text \<open>
  The commands of a request document, \<^verbatim>\<open>bes/xmlcommand/BESXML*Command.cc\<close>: reading each command from
  its element into the data handler interface of the command, and preparing it before it is executed.
  The registry of commands is \<^verbatim>\<open>BESXMLCommand.cc\<close> with the default commands of
  \<^verbatim>\<open>BESXMLDefaultCommands.cc\<close>.
\<close>

section \<open>Requests and commands\<close>

text \<open>The response handlers of the server core; the ones of other modules have a number.\<close>

datatype handler =
    H_set_context | H_set_container | H_define
  | H_del_container | H_del_containers | H_del_definition | H_del_definitions
  | H_show_context | H_show_containers | H_show_definitions | H_show_services
  | H_show_config | H_show_status | H_show_process | H_show_error
  | H_other nat

text \<open>
  \<^verbatim>\<open>BESDataHandlerInterface\<close> with the members that matter to a whole request, and the response object
  of its handler: a silent information object, a text, or an object of another module.
\<close>

datatype response_obj = Silent | Text text_info | Foreign

record request = dhi +
  response_handler :: "handler option"
  response_object :: "response_obj option"
  error_info :: "text_info option"

datatype kind =
    Set_context | Set_container | Define | Get | Get_dataddx | Show | Catalog | Show_error
  | Delete_container | Delete_containers | Delete_definition | Delete_definitions

record command =
  cmd_kind :: kind
  cmd_dhi :: request
  str_cmd :: string
  def_default_constraint :: string
  def_names :: "string list"
  def_stores :: props
  def_constraints :: props
  def_attributes :: props
  get_definition :: string
  get_space :: string
  ddx_start_id :: string
  ddx_boundary :: string

text \<open>
  What ends an operation early: an exception of the BES, of the allocator or of any other type, a
  call through a null pointer, or a call that calls itself for ever. An operation gives its object as it
  is then, and \<open>None\<close> when it returns.
\<close>

datatype failure = Thrown bes_error | Bad_alloc | Other_exception | Null_call | Endless

type_synonym outcome = "failure option"

abbreviation syntax_error :: "string \<Rightarrow> outcome" where
  "syntax_error s \<equiv> Some (Thrown (BESSyntaxUserError s))"

definition no_container :: bes_container where
  "no_container = \<lparr>symbolic_name = [], real_name = [], container_type = [], constraint = [], attributes = []\<rparr>"

definition new_request :: request where
  "new_request =
     \<lparr>containers = [], containers_iterator = 0, container = None, objects = (\<lambda>_. no_container), action = [],
      action_name = [], executed = False, transmit_protocol = [], dhi_data = [],
      response_handler = None, response_object = None, error_info = None\<rparr>"

text \<open>\<^verbatim>\<open>make_copy\<close>; the output stream is the same for all requests of a document.\<close>

definition make_copy :: "request \<Rightarrow> request \<Rightarrow> request" where
  "make_copy copy_from d = d\<lparr>dhi_data := dhi_data copy_from, transmit_protocol := transmit_protocol copy_from\<rparr>"

definition new_command :: "kind \<Rightarrow> request \<Rightarrow> command" where
  "new_command k base =
     \<lparr>cmd_kind = k, cmd_dhi = make_copy base new_request, str_cmd = [], def_default_constraint = [],
      def_names = [], def_stores = [], def_constraints = [], def_attributes = [], get_definition = [],
      get_space = [], ddx_start_id = [], ddx_boundary = []\<rparr>"

text \<open>
  Reading a map with \<^verbatim>\<open>operator[]\<close>. It also creates an entry with the empty string; no operation here
  tells that from no entry, so the model does not.
\<close>

definition at_key :: "props \<Rightarrow> string \<Rightarrow> string" where
  "at_key m k = (case m_find m k of Some v \<Rightarrow> v | None \<Rightarrow> [])"

definition with_data :: "string \<Rightarrow> string \<Rightarrow> command \<Rightarrow> command" where
  "with_data k v c = c\<lparr>cmd_dhi := (cmd_dhi c)\<lparr>dhi_data := m_set k v (dhi_data (cmd_dhi c))\<rparr>\<rparr>"

definition with_action :: "string \<Rightarrow> command \<Rightarrow> command" where
  "with_action a c = c\<lparr>cmd_dhi := (cmd_dhi c)\<lparr>action := a\<rparr>\<rparr>"

section \<open>The registry of commands\<close>

type_synonym command_list = "(string, kind) cpp_map"

definition add_command :: "string \<Rightarrow> kind \<Rightarrow> command_list \<Rightarrow> command_list" where
  "add_command cmd_str cmd l = m_set cmd_str cmd l"

text \<open>The flag that \<open>del_command\<close> returns is never set.\<close>

definition del_command :: "string \<Rightarrow> command_list \<Rightarrow> bool \<times> command_list" where
  "del_command cmd_str l = (False, (case m_find l cmd_str of Some _ \<Rightarrow> m_erase cmd_str l | None \<Rightarrow> l))"

definition find_command :: "string \<Rightarrow> command_list \<Rightarrow> kind option" where
  "find_command cmd_str l = m_find l cmd_str"

text \<open>\<open>dev\<close> is the macro \<^verbatim>\<open>BES_DEVELOPER\<close>.\<close>

definition add_commands :: "(string \<times> kind) list \<Rightarrow> command_list \<Rightarrow> command_list" where
  "add_commands cs l = fold (\<lambda>(n, k). add_command n k) cs l"

definition del_commands :: "string list \<Rightarrow> command_list \<Rightarrow> command_list" where
  "del_commands ns l = fold (\<lambda>n l. snd (del_command n l)) ns l"

definition commands_initialize :: "bool \<Rightarrow> command_list \<Rightarrow> command_list" where
  "commands_initialize dev l = add_commands
     ([(''showContext'', Show), (''showDefinitions'', Show), (''showContainers'', Show), (''showError'', Show_error),
       (''showHelp'', Show)] @
      (if dev then [(''showProcess'', Show), (''showConfig'', Show)] else []) @
      [(''showVersion'', Show), (''showStatus'', Show), (''showServiceDescriptions'', Show),
       (''setContext'', Set_context), (''setContainer'', Set_container), (''define'', Define), (''get'', Get),
       (''deleteContainer'', Delete_container), (''deleteContainers'', Delete_containers),
       (''deleteDefinition'', Delete_definition), (''deleteDefinitions'', Delete_definitions)]) l"

definition commands_terminate :: "bool \<Rightarrow> command_list \<Rightarrow> command_list" where
  "commands_terminate dev l = del_commands
     ([''get'', ''showContext'', ''showDefinitions'', ''showContainers'', ''showHelp''] @
      (if dev then [''showProcess'', ''showConfig''] else []) @
      [''showVersion'', ''showStatus'', ''setContext'', ''setContainer'', ''define'', ''deleteContainer'',
       ''deleteContainers'', ''deleteDefinition'']) l"

definition dap_commands_initialize :: "command_list \<Rightarrow> command_list" where
  "dap_commands_initialize l =
     add_commands [(''showCatalog'', Catalog), (''showInfo'', Catalog), (''get.dataddx'', Get_dataddx)] l"

definition dap_commands_terminate :: "command_list \<Rightarrow> command_list" where
  "dap_commands_terminate l = del_commands [''showCatalog'', ''showInfo'', ''get.dataddx''] l"

text \<open>\<open>rsl\<close> is \<open>BESResponseHandlerList::find_handler\<close>.\<close>

definition set_response :: "(string \<Rightarrow> handler option) \<Rightarrow> command \<Rightarrow> command \<times> outcome" where
  "set_response rsl c =
     (let h = rsl (action (cmd_dhi c)); c = c\<lparr>cmd_dhi := (cmd_dhi c)\<lparr>response_handler := h\<rparr>\<rparr>
      in if h = None
         then (c, syntax_error (''Command '' @ action (cmd_dhi c) @ '' does not have a registered response handler''))
         else (with_data ''request'' (str_cmd c) c, None))"

section \<open>Small commands\<close>

definition parse_set_context :: "(string \<Rightarrow> handler option) \<Rightarrow> xml_node \<Rightarrow> command \<Rightarrow> command \<times> outcome" where
  "parse_set_context rsl node c =
     (let (act, value, props) = get_node_info node ([], [], [])
      in if act \<noteq> ''setContext'' then (c, syntax_error (''The specified command '' @ act @ '' is not a set context command''))
         else
           (let c = with_action ''set.context'' c; name = at_key props ''name''
            in if name = [] then (c, syntax_error (act @ '' command: name property missing''))
               else if value = [] then (c, syntax_error (act @ '' command: context value missing''))
               else set_response rsl
                 ((with_data ''context_value'' value (with_data ''context_name'' name c))
                    \<lparr>str_cmd := ''set context '' @ name @ '' to '' @ value @ '';''\<rparr>)))"

text \<open>\<open>dump\<close> is \<^verbatim>\<open>xmlNodeDump\<close>: the text of the element that stands in for the real name.\<close>

definition parse_set_container ::
  "(xml_node \<Rightarrow> string option) \<Rightarrow> (string \<Rightarrow> handler option) \<Rightarrow> xml_node \<Rightarrow> command \<Rightarrow> command \<times> outcome" where
  "parse_set_container dump rsl node c =
     (let (act, value, props) = get_node_info node ([], [], [])
      in if act \<noteq> ''setContainer'' then (c, syntax_error (''The specified command '' @ act @ '' is not a set container command''))
         else
           (let real = fst (get_first_child node ([], [], []))
            in if value = [] \<and> real = [] then (c, syntax_error (act @ '' command: container real name missing''))
               else
                 (let name = at_key props ''name''
                  in if name = [] then (c, syntax_error (act @ '' command: name property missing''))
                     else
                       (let c = with_data ''symbolic_name'' name c;
                            storage = (if at_key props ''space'' \<noteq> [] then at_key props ''space'' else ''default'');
                            c = with_data ''store_name'' storage c;
                            ctype = at_key props ''type'';
                            c = with_data ''type'' ctype c;
                            value = (case real of r # _ \<Rightarrow> (case dump r of Some s \<Rightarrow> s | None \<Rightarrow> value) | [] \<Rightarrow> value);
                            c = with_action ''set.container'' (with_data ''real_name'' value c)
                        in set_response rsl
                          (c\<lparr>str_cmd := ''set container in '' @ storage @ '' values '' @ name @ '','' @ value
                              @ (if ctype \<noteq> [] then '','' @ ctype else []) @ '';''\<rparr>)))))"

definition default_space :: "props \<Rightarrow> string" where
  "default_space props = (if at_key props ''space'' = [] then ''default'' else at_key props ''space'')"

definition parse_delete_container :: "(string \<Rightarrow> handler option) \<Rightarrow> xml_node \<Rightarrow> command \<Rightarrow> command \<times> outcome" where
  "parse_delete_container rsl node c =
     (let (name, value, props) = get_node_info node ([], [], [])
      in if name \<noteq> ''deleteContainer'' then (c, syntax_error (''The specified command '' @ name @ '' is not a delete container command''))
         else
           (let container_name = at_key props ''name''
            in if container_name = [] then (c, syntax_error (name @ '' command: Must specify the container to delete''))
               else
                 (let storage = default_space props;
                      c = with_data ''store_name'' storage (with_data ''container_name'' container_name c)
                  in set_response rsl
                    ((with_action ''delete.container'' c)
                       \<lparr>str_cmd := ''delete container '' @ container_name @ '' from '' @ storage @ '';''\<rparr>))))"

definition parse_delete_containers :: "(string \<Rightarrow> handler option) \<Rightarrow> xml_node \<Rightarrow> command \<Rightarrow> command \<times> outcome" where
  "parse_delete_containers rsl node c =
     (let (name, value, props) = get_node_info node ([], [], [])
      in if name \<noteq> ''deleteContainers'' then (c, syntax_error (''The specified command '' @ name @ '' is not a delete container command''))
         else
           (let storage = default_space props
            in set_response rsl
              ((with_action ''delete.containers'' (with_data ''store_name'' storage c))
                 \<lparr>str_cmd := ''delete containers from '' @ storage @ '';''\<rparr>)))"

definition parse_delete_definition :: "(string \<Rightarrow> handler option) \<Rightarrow> xml_node \<Rightarrow> command \<Rightarrow> command \<times> outcome" where
  "parse_delete_definition rsl node c =
     (let (name, value, props) = get_node_info node ([], [], [])
      in if name \<noteq> ''deleteDefinition'' then (c, syntax_error (''The specified command '' @ name @ '' is not a delete definition command''))
         else
           (let def_name = at_key props ''name''
            in if def_name = [] then (c, syntax_error (name @ '' command: Must specify the definition to delete''))
               else
                 (let storage = default_space props;
                      c = with_data ''store_name'' storage (with_data ''def_name'' def_name c)
                  in set_response rsl
                    ((with_action ''delete.definition'' c)
                       \<lparr>str_cmd := ''delete definition '' @ def_name @ '' from '' @ storage @ '';''\<rparr>))))"

definition parse_delete_definitions :: "(string \<Rightarrow> handler option) \<Rightarrow> xml_node \<Rightarrow> command \<Rightarrow> command \<times> outcome" where
  "parse_delete_definitions rsl node c =
     (let (name, value, props) = get_node_info node ([], [], [])
      in if name \<noteq> ''deleteDefinitions'' then (c, syntax_error (''The specified command '' @ name @ '' is not a delete definitions command''))
         else
           (let storage = default_space props
            in set_response rsl
              ((with_action ''delete.definitions'' (with_data ''store_name'' storage c))
                 \<lparr>str_cmd := ''delete definitions from '' @ storage @ '';''\<rparr>)))"

definition parse_show :: "(string \<Rightarrow> handler option) \<Rightarrow> xml_node \<Rightarrow> command \<Rightarrow> command \<times> outcome" where
  "parse_show rsl node c =
     (let (name, value, props) = get_node_info node ([], [], [])
      in if lowercase (substr name 0 4) \<noteq> ''show'' then (c, syntax_error (''The specified command '' @ name @ '' is not a show command''))
         else if length name \<le> 4 then (c, syntax_error (''The specified command '' @ name @ '' is not an allowed show command''))
         else
           (let toadd = lowercase (substr name 4 (length name - 4))
            in set_response rsl ((with_action (''show.'' @ toadd) c)\<lparr>str_cmd := ''show '' @ toadd @ '';''\<rparr>)))"

definition parse_catalog :: "(string \<Rightarrow> handler option) \<Rightarrow> xml_node \<Rightarrow> command \<Rightarrow> command \<times> outcome" where
  "parse_catalog rsl node c =
     (let (name, value, props) = get_node_info node ([], [], [])
      in if name \<noteq> ''showCatalog'' \<and> name \<noteq> ''showInfo''
         then (c, syntax_error (''The specified command '' @ name @ '' is not a show catalog or show info command''))
         else
           (let c = with_action ''show.catalog'' c;
                (what, s) = (if name = ''showCatalog'' then (''show.catalog'', ''show catalog'') else (''show.info'', ''show info''));
                node_name = at_key props ''node'';
                c = with_data ''container'' node_name (with_data ''catalog_or_info'' what c)
            in set_response rsl
              (c\<lparr>str_cmd := s @ (if node_name \<noteq> [] then '' for '' @ node_name else []) @ '';''\<rparr>)))"

definition parse_show_error :: "(string \<Rightarrow> handler option) \<Rightarrow> xml_node \<Rightarrow> command \<Rightarrow> command \<times> outcome" where
  "parse_show_error rsl node c =
     (let (act, value, props) = get_node_info node ([], [], [])
      in if act \<noteq> ''showError'' then (c, syntax_error (''The specified command '' @ act @ '' is not a show error command''))
         else
           (let c = with_action ''show.error'' c; etype = at_key props ''type''
            in if etype = [] then (c, syntax_error (act @ '' command: error type property missing''))
               else set_response rsl ((with_data ''error_type_num'' etype c)\<lparr>str_cmd := ''show error '' @ etype @ '';''\<rparr>)))"

end
