(* ===== verification/BesDefine.thy ===== *)
theory BesDefine
  imports BesCommand
begin

text \<open>
  The commands that use containers and definitions: \<^verbatim>\<open>bes/xmlcommand/BESXMLDefineCommand.cc\<close>,
  \<^verbatim>\<open>BESXMLGetCommand.cc\<close> and \<^verbatim>\<open>BESXMLGetDataDDXCommand.cc\<close>. The state of the server that the
  commands read and the response handlers change is the record \<open>server\<close>: its singletons.
\<close>

record def_store =
  ds_name :: string
  ds_list :: definition_list

record server =
  container_stores :: "volatile_storage node list"
  def_stores_list :: "def_store node list"
  contexts :: context_list
  service_reg :: service_registry
  the_keys :: keys
  keys_file_name :: string

section \<open>Define\<close>

text \<open>
  The children of a container element. The properties of the first child are read into
  \<^verbatim>\<open>child_props\<close>; those of the later children go into \<^verbatim>\<open>props\<close>, which nothing looks at, so
  \<open>child_props\<close> stays the same in all turns.
\<close>

fun container_children ::
  "string \<Rightarrow> string \<Rightarrow> props \<Rightarrow> (xml_node \<times> node_info) list \<Rightarrow> bool \<Rightarrow> bool \<Rightarrow> command \<Rightarrow> command \<times> outcome" where
  "container_children act name child_props [] have_constraint have_attributes c = (c, None)"
| "container_children act name child_props ((node, child_name, child_value, props) # rest) have_constraint have_attributes c =
     (if child_name = ''constraint'' then
        (if child_props \<noteq> [] then (c, syntax_error (act @ '' command: constraint element should not contain properties''))
         else if child_value = [] then (c, syntax_error (act @ '' command: attributes element missing value''))
         else if have_constraint
         then (c, syntax_error (act @ '' command: container element contains multiple constraint elements''))
         else container_children act name child_props rest True have_attributes
                (c\<lparr>def_constraints := m_set name child_value (def_constraints c)\<rparr>))
      else if child_name = ''attributes'' then
        (if child_props \<noteq> [] then (c, syntax_error (act @ '' command: attributes element should not contain properties''))
         else if child_value = [] then (c, syntax_error (act @ '' command: attributes element missing value''))
         else if have_attributes
         then (c, syntax_error (act @ '' command: container element contains multiple attributes elements''))
         else container_children act name child_props rest have_constraint True
                (c\<lparr>def_attributes := m_set name child_value (def_attributes c)\<rparr>))
      else container_children act name child_props rest have_constraint have_attributes c)"

definition handle_container_element :: "string \<Rightarrow> xml_node \<Rightarrow> props \<Rightarrow> command \<Rightarrow> command \<times> outcome" where
  "handle_container_element act node props c =
     (let name = at_key props ''name''
      in if name = [] then (c, syntax_error (act @ '' command: container element missing name prop''))
         else
           (let c = c\<lparr>def_names := def_names c @ [name], def_stores := m_set name (at_key props ''space'') (def_stores c)\<rparr>;
                first = get_first_child node ([], [], [])
            in container_children act name (snd (snd (snd first))) (walk_children first) False False c))"

definition handle_aggregate_element :: "string \<Rightarrow> props \<Rightarrow> command \<Rightarrow> command \<times> outcome" where
  "handle_aggregate_element act props c =
     (let handler = at_key props ''handler''; cmd = at_key props ''cmd''
      in if handler = [] then (c, syntax_error (act @ '' command: must specify aggregation handler''))
         else if cmd = [] then (c, syntax_error (act @ '' command: must specify aggregation cmd''))
         else
           ((with_data ''aggregation_command'' cmd (with_data ''aggregation_handler'' handler c))
              \<lparr>str_cmd := str_cmd c @ '' aggregate using '' @ handler @ '' by '' @ cmd\<rparr>, None))"

fun define_children ::
  "string \<Rightarrow> (xml_node \<times> node_info) list \<Rightarrow> nat \<Rightarrow> command \<Rightarrow> nat \<times> command \<times> outcome" where
  "define_children act [] num_containers c = (num_containers, c, None)"
| "define_children act ((node, child_name, child_value, props) # rest) num_containers c =
     (if child_name = ''constraint''
      then define_children act rest num_containers (c\<lparr>def_default_constraint := child_value\<rparr>)
      else if child_name = ''container'' then
        (let (c, r) = handle_container_element act node props c
         in if r \<noteq> None then (num_containers, c, r) else define_children act rest (num_containers + 1) c)
      else if child_name = ''aggregate'' then
        (let (c, r) = handle_aggregate_element act props c
         in if r \<noteq> None then (num_containers, c, r) else define_children act rest num_containers c)
      else define_children act rest num_containers c)"

text \<open>The text of the command; the pieces of a list are separated by commas.\<close>

fun comma_list :: "bool \<Rightarrow> string list \<Rightarrow> string" where
  "comma_list first [] = []"
| "comma_list first (x # xs) = (if first then [] else '','') @ x @ comma_list False xs"

definition constraint_text :: "props \<Rightarrow> string \<times> string \<Rightarrow> string" where
  "constraint_text attrs_of ci =
     (let attrs = at_key attrs_of (fst ci)
      in fst ci @ ''.constraint='' @ [dquote] @ snd ci @ [dquote]
         @ (if attrs \<noteq> [] then '','' @ fst ci @ ''.attributes='' @ [dquote] @ attrs @ [dquote] else []))"

definition define_text :: "command \<Rightarrow> string" where
  "define_text c =
     str_cmd c @ '' as '' @ comma_list True (def_names c)
     @ (if def_constraints c \<noteq> []
        then '' with '' @ comma_list True (map (constraint_text (def_attributes c)) (def_constraints c)) else [])
     @ '';''"

definition parse_define :: "(string \<Rightarrow> handler option) \<Rightarrow> xml_node \<Rightarrow> command \<Rightarrow> command \<times> outcome" where
  "parse_define rsl node c =
     (let (act, value, props) = get_node_info node ([], [], [])
      in if act \<noteq> ''define'' then (c, syntax_error (''The specified command '' @ act @ '' is not a set context command''))
         else
           (let c = with_action ''define'' c; def_name = at_key props ''name''
            in if def_name = [] then (c, syntax_error (act @ '' command: definition name missing''))
               else
                 (let def_space = at_key props ''space'';
                      c = with_data ''store_name'' def_space (with_data ''def_name'' def_name c);
                      c = c\<lparr>str_cmd := ''define '' @ def_name @ (if def_space \<noteq> [] then '' in '' @ def_space else [])\<rparr>;
                      (num_containers, c, r) = define_children act (walk_children (get_first_child node ([], [], []))) 0 c
                  in if r \<noteq> None then (c, r)
                     else if num_containers < 1
                     then (c, syntax_error (act @ ''The define element must contain at least one container element''))
                     else set_response rsl (c\<lparr>str_cmd := define_text c\<rparr>))))"

text \<open>
  Looking for a container in all stores. The key is read only when no store has it, and reading it
  can throw.
\<close>

definition nice_key :: "server \<Rightarrow> string bes_result" where
  "nice_key s = rbind (get_value ''BES.Container.Persistence'' [] (the_keys s)) (\<lambda>p. Inr (fst p))"

definition look_for_container :: "string \<Rightarrow> server \<Rightarrow> bes_container option bes_result" where
  "look_for_container sym_name s =
     (case nice_key s of
        Inr key \<Rightarrow> csl_look_for (\<lambda>cs n. vs_look_for n cs) key sym_name (container_stores s)
      | Inl e \<Rightarrow> (case pl_look (\<lambda>cs n. vs_look_for n cs) sym_name (container_stores s) of
                   Some c \<Rightarrow> Inr (Some c) | None \<Rightarrow> Inl e))"

definition push_container :: "bes_container \<Rightarrow> request \<Rightarrow> request" where
  "push_container c d =
     d\<lparr>objects := (objects d)(length (containers d) := c), containers := containers d @ [length (containers d)]\<rparr>"

definition find_for_define :: "string \<Rightarrow> string \<Rightarrow> server \<Rightarrow> bes_container option bes_result" where
  "find_for_define st name s =
     (if st \<noteq> []
      then Inr (case csl_find_persistence vs_name st (container_stores s) of
                  Some cs \<Rightarrow> vs_look_for name cs | None \<Rightarrow> None)
      else look_for_container name s)"

text \<open>The container of a name, with the constraint and the attributes that the definition gives it.\<close>

definition defined_as :: "command \<Rightarrow> string \<Rightarrow> bes_container \<Rightarrow> bes_container" where
  "defined_as c name cont =
     (let con = at_key (def_constraints c) name
      in cont\<lparr>constraint := (if con = [] then def_default_constraint c else con),
              attributes := at_key (def_attributes c) name\<rparr>)"

fun prep_define_loop :: "server \<Rightarrow> string list \<Rightarrow> command \<Rightarrow> command \<times> outcome" where
  "prep_define_loop s [] c = (c, None)"
| "prep_define_loop s (name # names) c =
     (case find_for_define (at_key (def_stores c) name) name s of
        Inl e \<Rightarrow> (c, Some (Thrown e))
      | Inr (Some cont) \<Rightarrow>
          prep_define_loop s names (c\<lparr>cmd_dhi := push_container (defined_as c name cont) (cmd_dhi c)\<rparr>)
      | Inr None \<Rightarrow>
          (case nice_key s of
             Inl e \<Rightarrow> (c, Some (Thrown e))
           | Inr key \<Rightarrow> if \<not> csl_isnice key then (c, syntax_error (''Could not find the container '' @ name))
                        else (c, Some Null_call)))"

definition prep_define :: "server \<Rightarrow> command \<Rightarrow> command \<times> outcome" where
  "prep_define s c = prep_define_loop s (def_names c) c"

section \<open>Get\<close>

definition parse_basic_get :: "string \<Rightarrow> string \<Rightarrow> props \<Rightarrow> command \<Rightarrow> command \<times> outcome" where
  "parse_basic_get name type props c =
     (let def = at_key props ''definition'';
          c = c\<lparr>str_cmd := ''get '' @ type, get_definition := def\<rparr>
      in if def = [] then (c, syntax_error (name @ '' command: Must specify definition''))
         else
           (let space = at_key props ''space'';
                returnAs = (if at_key props ''returnAs'' = [] then ''dap2'' else at_key props ''returnAs'');
                c = with_data ''return_command'' returnAs
                      (c\<lparr>get_space := space,
                         str_cmd := str_cmd c @ '' for '' @ def @ (if space \<noteq> [] then '' in '' @ space else [])
                           @ '' return as '' @ returnAs\<rparr>)
            in (with_action (''get.'' @ lowercase type) c, None)))"

text \<open>
  The sub command of a get takes the place of the command: its request, its preparation and its
  output are those of the sub command from then on. \<open>parse_sub\<close> is \<open>parse_request\<close> of the other kinds;
  a sub command that is itself registered as a get would look for the same sub command again.
\<close>

definition parse_get ::
  "command_list \<Rightarrow> (kind \<Rightarrow> xml_node \<Rightarrow> command \<Rightarrow> command \<times> outcome) \<Rightarrow> (string \<Rightarrow> handler option) \<Rightarrow> xml_node \<Rightarrow> command
     \<Rightarrow> command \<times> outcome" where
  "parse_get cmds parse_sub rsl node c =
     (let (name, value, props) = get_node_info node ([], [], [])
      in if name \<noteq> ''get'' then (c, syntax_error (''The specified command '' @ name @ '' is not a get command''))
         else
           (let type = at_key props ''type''
            in if type = [] then (c, syntax_error (name @ '' command: Must specify data product type''))
               else
                 (case find_command (''get.'' @ type) cmds of
                    Some k \<Rightarrow> if k = Get then (c, Some Endless) else parse_sub k node (new_command k (cmd_dhi c))
                  | None \<Rightarrow>
                      (let (c, r) = parse_basic_get name type props c
                       in if r \<noteq> None then (c, r) else set_response rsl (c\<lparr>str_cmd := str_cmd c @ '';''\<rparr>)))))"

text \<open>
  The children of a data DDX request. The value of the child before is not cleared: it stays when the
  next child has no text.
\<close>

function ddx_children ::
  "string \<Rightarrow> xml_node list \<times> node_info \<Rightarrow> nat \<Rightarrow> command \<Rightarrow> command \<times> outcome" where
  "ddx_children name (cnode, cname, cval, cprops) elems c =
     (if cnode = [] \<or> \<not> elems < 2 then (c, None)
      else
        (if cname = ''contentStartId'' \<and> ddx_start_id c \<noteq> []
         then (c, syntax_error (name @ '' command: contentStartId has multiple values''))
         else
           (let (c, elems) =
              (if cname = ''contentStartId''
               then (c\<lparr>ddx_start_id := cval, str_cmd := str_cmd c @ '' contentStartId '' @ cval\<rparr>, elems + 1)
               else (c, elems))
            in if cname = ''mimeBoundary'' \<and> ddx_boundary c \<noteq> []
               then (c, syntax_error (name @ '' command: mimeBoundary has multiple values''))
               else
                 (let (c, elems) =
                    (if cname = ''mimeBoundary''
                     then (c\<lparr>ddx_boundary := cval, str_cmd := str_cmd c @ '' mimeBoundary '' @ cval\<rparr>, elems + 1)
                     else (c, elems))
                  in ddx_children name (get_next_child cnode (cname, cval, [])) elems c))))"
  by pat_completeness auto

termination
  by (relation "measure (\<lambda>(name, p, elems, c). length (fst p))")
    (auto simp: get_next_child_def le_imp_less_Suc next_element_shorter neq_Nil_conv split: list.splits)

declare ddx_children.simps [simp del]

definition parse_get_dataddx :: "(string \<Rightarrow> handler option) \<Rightarrow> xml_node \<Rightarrow> command \<Rightarrow> command \<times> outcome" where
  "parse_get_dataddx rsl node c =
     (let (name, value, props) = get_node_info node ([], [], [])
      in if name \<noteq> ''get'' then (c, syntax_error (''The specified command '' @ name @ '' is not a get command''))
         else
           (let type = at_key props ''type''
            in if type = [] \<or> type \<noteq> ''dataddx'' then (c, syntax_error (name @ '' command: data product must be dataddx''))
               else
                 (let (c, r) = parse_basic_get name type props c
                  in if r \<noteq> None then (c, r)
                     else
                       (let (c, r) = ddx_children name (get_first_child node ([], [], [])) 0 c
                        in if r \<noteq> None then (c, r)
                           else if ddx_start_id c = [] then (c, syntax_error (name @ '' command: contentStartId not specified''))
                           else if ddx_boundary c = [] then (c, syntax_error (name @ '' command: mimeBoundary not specified''))
                           else set_response rsl (c\<lparr>str_cmd := str_cmd c @ '';''\<rparr>)))))"

text \<open>
  Preparing a get: the containers of the definition become those of the request. In the code the request
  points to the containers of the definition; here it has their values.
\<close>

definition find_definition :: "string \<Rightarrow> string \<Rightarrow> server \<Rightarrow> bes_define option" where
  "find_definition space def s =
     (if space \<noteq> []
      then (case dsl_find_persistence ds_name space (def_stores_list s) of
              Some ds \<Rightarrow> def_look_for def (ds_list ds) | None \<Rightarrow> None)
      else dsl_look_for (\<lambda>ds n. def_look_for n (ds_list ds)) def (def_stores_list s))"

definition prep_get :: "server \<Rightarrow> command \<Rightarrow> command \<times> outcome" where
  "prep_get s c =
     (case find_definition (get_space c) (get_definition c) s of
        None \<Rightarrow> (c, syntax_error (''Unable to find definition '' @ get_definition c))
      | Some d \<Rightarrow>
          (with_data ''aggregation_handler'' (agg_handler d) (with_data ''aggregation_command'' (agg_cmd d)
             (c\<lparr>cmd_dhi := fold push_container (def_containers d) (cmd_dhi c)\<rparr>)), None))"

definition prep_get_dataddx :: "server \<Rightarrow> command \<Rightarrow> command \<times> outcome" where
  "prep_get_dataddx s c =
     (let (c, r) = prep_get s c
      in if r \<noteq> None then (c, r)
         else (with_data ''dataddx_boundary'' (ddx_boundary c) (with_data ''dataddx_startid'' (ddx_start_id c) c), None))"

section \<open>All commands\<close>

fun has_response :: "kind \<Rightarrow> bool" where
  "has_response Get = True"
| "has_response Get_dataddx = True"
| "has_response Show = True"
| "has_response Catalog = True"
| "has_response _ = False"

fun parse_simple ::
  "(xml_node \<Rightarrow> string option) \<Rightarrow> (string \<Rightarrow> handler option) \<Rightarrow> kind \<Rightarrow> xml_node \<Rightarrow> command \<Rightarrow> command \<times> outcome" where
  "parse_simple dump rsl Set_context = parse_set_context rsl"
| "parse_simple dump rsl Set_container = parse_set_container dump rsl"
| "parse_simple dump rsl Define = parse_define rsl"
| "parse_simple dump rsl Get_dataddx = parse_get_dataddx rsl"
| "parse_simple dump rsl Show = parse_show rsl"
| "parse_simple dump rsl Catalog = parse_catalog rsl"
| "parse_simple dump rsl Show_error = parse_show_error rsl"
| "parse_simple dump rsl Delete_container = parse_delete_container rsl"
| "parse_simple dump rsl Delete_containers = parse_delete_containers rsl"
| "parse_simple dump rsl Delete_definition = parse_delete_definition rsl"
| "parse_simple dump rsl Delete_definitions = parse_delete_definitions rsl"
| "parse_simple dump rsl Get = (\<lambda>node c. (c, Some Endless))"

definition parse_request ::
  "(xml_node \<Rightarrow> string option) \<Rightarrow> command_list \<Rightarrow> (string \<Rightarrow> handler option) \<Rightarrow> xml_node \<Rightarrow> command \<Rightarrow> command \<times> outcome" where
  "parse_request dump cmds rsl node c =
     (if cmd_kind c = Get then parse_get cmds (parse_simple dump rsl) rsl node c
      else parse_simple dump rsl (cmd_kind c) node c)"

definition prep_request :: "server \<Rightarrow> command \<Rightarrow> command \<times> outcome" where
  "prep_request s c =
     (case cmd_kind c of
        Define \<Rightarrow> prep_define s c
      | Get \<Rightarrow> prep_get s c
      | Get_dataddx \<Rightarrow> prep_get_dataddx s c
      | _ \<Rightarrow> (c, None))"

end
