(* ===== verification/BesHandlers.thy ===== *)
theory BesHandlers
  imports BesDefine
begin

text \<open>
  The response handlers of the server core, \<^verbatim>\<open>bes/dispatch/BES*ResponseHandler.cc\<close>: what each
  does to the singletons and to the request when it is executed, and what it writes when its response is
  transmitted (\<^verbatim>\<open>BESBasicTransmitter.cc\<close>, \<^verbatim>\<open>BESSilentInfo.cc\<close>). The methods of a transmitter are
  \<^verbatim>\<open>BESTransmitter.cc\<close>.
\<close>

section \<open>What the server is linked with\<close>

text \<open>
  The file system, libxml2, the clock, the process number, and what the modules that are loaded have
  registered: handlers, commands, transmitters, builders of informational responses, callbacks,
  reporters, aggregation handlers. A module's handler has a number; executing it may change the
  singletons and the request, transmitting it writes a text.
\<close>

record world =
  w_lstat :: "string \<Rightarrow> stat_result"
  w_stat :: "string \<Rightarrow> stat_result"
  w_dump :: "xml_node \<Rightarrow> string option"
  w_parse :: "string \<Rightarrow> xml_node option + string list"
  w_mime :: string
  w_pid :: int
  w_verbose :: bool
  w_commands :: command_list
  w_handlers :: "handler response_handler_list"
  w_transmitters :: "nat transmitter_list"
  w_builders :: "unit info_list"
  w_aggregators :: "(string, (request \<Rightarrow> request \<times> outcome) option) cpp_map"
  w_init :: "(request \<Rightarrow> bool \<times> request \<times> outcome) list"
  w_ehm :: "(server \<Rightarrow> bes_error \<Rightarrow> request \<Rightarrow> int \<times> bes_error \<times> request) list"
  w_end :: "(request \<Rightarrow> request \<times> outcome) list"
  w_reporters :: "(request \<Rightarrow> request \<times> outcome) reporter_list"
  w_execute :: "nat \<Rightarrow> server \<Rightarrow> request \<Rightarrow> server \<times> request \<times> outcome"
  w_transmit :: "nat \<Rightarrow> request \<Rightarrow> string \<times> outcome"

definition w_find_handler :: "world \<Rightarrow> string \<Rightarrow> handler option" where
  "w_find_handler w n = rsl_find_handler (\<lambda>h n. h) n (w_handlers w)"

abbreviation data_at :: "request \<Rightarrow> string \<Rightarrow> string" where
  "data_at d k \<equiv> at_key (dhi_data d) k"

definition set_data :: "string \<Rightarrow> string \<Rightarrow> request \<Rightarrow> request" where
  "set_data k v d = d\<lparr>dhi_data := m_set k v (dhi_data d)\<rparr>"

type_synonym executed_handler = "server \<times> request \<times> outcome"

section \<open>Containers\<close>

text \<open>An operation on the store that \<open>find_persistence\<close> has found, in place.\<close>

fun pl_put :: "('o \<Rightarrow> string) \<Rightarrow> 'o \<Rightarrow> 'o node list \<Rightarrow> 'o node list" where
  "pl_put get_name o' [] = []"
| "pl_put get_name o' (pl # rest) =
     (if get_name (node_obj pl) = get_name o' then pl\<lparr>node_obj := o'\<rparr> # rest else pl # pl_put get_name o' rest)"

definition put_container_store :: "volatile_storage \<Rightarrow> server \<Rightarrow> server" where
  "put_container_store cs s = s\<lparr>container_stores := pl_put vs_name cs (container_stores s)\<rparr>"

definition put_def_store :: "def_store \<Rightarrow> server \<Rightarrow> server" where
  "put_def_store ds s = s\<lparr>def_stores_list := pl_put ds_name ds (def_stores_list s)\<rparr>"

definition execute_set_container :: "world \<Rightarrow> server \<Rightarrow> request \<Rightarrow> executed_handler" where
  "execute_set_container w s d =
     (let d = d\<lparr>action_name := ''setContainer'', response_object := Some Silent\<rparr>;
          store_name = data_at d ''store_name''; sym = data_at d ''symbolic_name'';
          real = data_at d ''real_name''; type = data_at d ''type''
      in case csl_find_persistence vs_name store_name (container_stores s) of
           Some cp \<Rightarrow>
             (let cp = snd (vs_del_container sym cp)
              in case vs_add_container (w_lstat w) (w_stat w) sym real type cp of
                   Inr cp' \<Rightarrow> (put_container_store cp' s, d, None)
                 | Inl e \<Rightarrow> (put_container_store cp s, d, Some (Thrown e)))
         | None \<Rightarrow>
             (s, d, syntax_error (''Unable to add container '' @ [dquote] @ sym @ [dquote] @ '' to container storage '' @ [dquote]
                @ store_name @ [dquote] @ ''. Store does not exist.'')))"

definition or_volatile :: "string \<Rightarrow> string" where
  "or_volatile store_name = (if store_name = [] then ''default'' else store_name)"

definition execute_del_container :: "server \<Rightarrow> request \<Rightarrow> executed_handler" where
  "execute_del_container s d =
     (let d = d\<lparr>action_name := ''deleteContainer'', response_object := Some Silent\<rparr>;
          name = data_at d ''container_name''
      in if name \<noteq> [] then
           (case csl_find_persistence vs_name (or_volatile (data_at d ''store_name'')) (container_stores s) of
              Some cp \<Rightarrow>
                (let (deleted, cp) = vs_del_container name cp; s = put_container_store cp s
                 in if \<not> deleted
                    then (s, d, syntax_error (''Unable to delete container. The container '' @ [dquote] @ name @ [dquote]
                           @ '' does not exist in container storage '' @ [dquote] @ data_at d ''store_name'' @ [dquote]))
                    else (s, d, None))
            | None \<Rightarrow>
                (s, d, syntax_error (''Container storage '' @ [dquote] @ data_at d ''store_name'' @ [dquote] @ '' does not exist. ''
                   @ ''Unable to delete container '' @ [dquote] @ name @ [dquote])))
         else (s, d, syntax_error ''No container is specified. Unable to complete request.''))"

definition execute_del_containers :: "server \<Rightarrow> request \<Rightarrow> executed_handler" where
  "execute_del_containers s d =
     (let d = d\<lparr>action_name := ''deleteContainers'', response_object := Some Silent\<rparr>
      in case csl_find_persistence vs_name (or_volatile (data_at d ''store_name'')) (container_stores s) of
           Some cp \<Rightarrow>
             (let (deleted, cp) = vs_del_containers cp; s = put_container_store cp s
              in if \<not> deleted
                 then (s, d, syntax_error (''Unable to delete containers from '' @ [dquote] @ data_at d ''store_name'' @ [dquote]
                        @ '' container store''))
                 else (s, d, None))
         | None \<Rightarrow>
             (s, d, syntax_error (''Container storage '' @ [dquote] @ data_at d ''store_name'' @ [dquote] @ '' does not exist. ''
                @ ''Unable to delete containers'')))"

section \<open>Definitions\<close>

text \<open>The loop that copies the containers of the request, from its iterator on.\<close>

definition request_containers :: "request \<Rightarrow> bes_container list" where
  "request_containers d = map (objects d) (containers d)"

text \<open>
  At the end the iterator is past the last container. The definition holds the same containers as the
  request; here it has their values.
\<close>

definition execute_define :: "server \<Rightarrow> request \<Rightarrow> executed_handler" where
  "execute_define s d =
     (let d = d\<lparr>action_name := ''define'', response_object := Some Silent\<rparr>;
          def_name = data_at d ''def_name''; store_name = or_volatile (data_at d ''store_name'')
      in case dsl_find_persistence ds_name store_name (def_stores_list s) of
           Some st \<Rightarrow>
             (let l = snd (del_definition def_name (ds_list st));
                  dd = \<lparr>def_containers = request_containers d, agg_cmd = data_at d ''aggregation_command'',
                        agg_handler = data_at d ''aggregation_handler''\<rparr>;
                  d = d\<lparr>containers_iterator := length (containers d), container := None\<rparr>;
                  d = set_data ''aggregation_handler'' [] (set_data ''aggregation_command'' [] d)
              in (put_def_store (st\<lparr>ds_list := snd (add_definition def_name (Some dd) l)\<rparr>) s, d, None))
         | None \<Rightarrow>
             (s, d, syntax_error (''Uanble to add definition '' @ [dquote] @ def_name @ [dquote] @ '' to '' @ [dquote] @ store_name
                @ [dquote] @ '' store. Store does not exist'')))"

definition execute_del_def :: "server \<Rightarrow> request \<Rightarrow> executed_handler" where
  "execute_del_def s d =
     (let d = d\<lparr>action_name := ''deleteDefinition'', response_object := Some Silent\<rparr>;
          def_name = data_at d ''def_name''; store_name = or_volatile (data_at d ''store_name'')
      in if def_name \<noteq> [] then
           (case dsl_find_persistence ds_name store_name (def_stores_list s) of
              Some st \<Rightarrow>
                (let (deleted, l) = del_definition def_name (ds_list st); s = put_def_store (st\<lparr>ds_list := l\<rparr>) s
                 in if \<not> deleted
                    then (s, d, syntax_error (''Definition '' @ [dquote] @ def_name @ [dquote] @ '' does not exist. Unable to delete.''))
                    else (s, d, None))
            | None \<Rightarrow>
                (s, d, syntax_error (''Definition store '' @ [dquote] @ store_name @ [dquote]
                   @ '' does not exist.  Unable to delete.'')))
         else (s, d, syntax_error ''No definition specified. Unable to complete request.''))"

definition execute_del_defs :: "server \<Rightarrow> request \<Rightarrow> executed_handler" where
  "execute_del_defs s d =
     (let d = d\<lparr>action_name := ''deleteDefinitions'', response_object := Some Silent\<rparr>;
          store_name = or_volatile (data_at d ''store_name'')
      in case dsl_find_persistence ds_name store_name (def_stores_list s) of
           Some st \<Rightarrow>
             (let (deleted, freed, l) = del_definitions (ds_list st); s = put_def_store (st\<lparr>ds_list := l\<rparr>) s
              in if \<not> deleted
                 then (s, d, syntax_error (''Unable to delete all definitions from definition store '' @ [dquote] @ store_name @ [dquote]))
                 else (s, d, None))
         | None \<Rightarrow>
             (s, d, syntax_error (''Definition store '' @ [dquote] @ store_name @ [dquote] @ '' does not exist.  Unable to delete.'')))"

section \<open>The context\<close>

definition execute_set_context :: "server \<Rightarrow> request \<Rightarrow> executed_handler" where
  "execute_set_context s d =
     (let d = d\<lparr>action_name := ''setContext'', response_object := Some Silent\<rparr>;
          name = data_at d ''context_name''
      in if name = [] then (s, d, syntax_error ''No context name was specified in set context command'')
         else (s\<lparr>contexts := set_context name (data_at d ''context_value'') (contexts s)\<rparr>, d, None))"

section \<open>Informational responses\<close>

text \<open>
  \<open>build_info\<close> with the key that is configured; reading the key can throw, and there may be no builder:
  then the pointer that the handlers use is null. The responses are the plain-text ones, the default.
\<close>

definition build_response :: "world \<Rightarrow> server \<Rightarrow> text_info option bes_result" where
  "build_response w s =
     rbind (get_value ''BES.Info.Type'' [] (the_keys s)) (\<lambda>(v, found).
       Inr (build_info (\<lambda>_ _. new_text_info False) (if found then Some v else None) (w_builders w)))"

text \<open>
  What the show handlers have in common: build the response, begin it, fill it in, end it. When filling
  in throws, the handler has the response as it began; nobody looks at it then.
\<close>

definition show_response ::
  "world \<Rightarrow> string \<Rightarrow> string \<Rightarrow> (text_info \<Rightarrow> text_info bes_result) \<Rightarrow> server \<Rightarrow> request \<Rightarrow> executed_handler" where
  "show_response w act_name resp_name fill s d =
     (case build_response w s of
        Inl e \<Rightarrow> (s, d, Some (Thrown e))
      | Inr None \<Rightarrow> (s, d\<lparr>action_name := act_name\<rparr>, Some Null_call)
      | Inr (Some info) \<Rightarrow>
          (let info = begin_response resp_name info; d = d\<lparr>action_name := act_name, response_object := Some (Text info)\<rparr>
           in case fill info of
                Inl e \<Rightarrow> (s, d, Some (Thrown e))
              | Inr info' \<Rightarrow>
                  (let (info', r) = end_response info'; d = d\<lparr>response_object := Some (Text info')\<rparr>
                   in case r of Inl e \<Rightarrow> (s, d, Some (Thrown e)) | Inr _ \<Rightarrow> (s, d, None))))"

definition execute_show_containers :: "world \<Rightarrow> server \<Rightarrow> request \<Rightarrow> executed_handler" where
  "execute_show_containers w s =
     show_response w ''showContainers'' ''showContainers''
       (csl_show_containers vs_name (vs_show_containers (text_ops (w_mime w))) (text_ops (w_mime w)) (container_stores s)) s"

text \<open>The action name is the one of the command that sets a context.\<close>

definition execute_show_context :: "world \<Rightarrow> server \<Rightarrow> request \<Rightarrow> executed_handler" where
  "execute_show_context w s =
     show_response w ''setContext'' ''showContext'' (list_context (text_ops (w_mime w)) (contexts s)) s"

definition execute_show_definitions :: "world \<Rightarrow> server \<Rightarrow> request \<Rightarrow> executed_handler" where
  "execute_show_definitions w s =
     show_response w ''showDefinitions'' ''showDefinitions''
       (dsl_show_definitions ds_name (\<lambda>ds. show_definitions (text_ops (w_mime w)) (ds_list ds)) (text_add_break (w_mime w) 1)
          (text_ops (w_mime w)) (def_stores_list s)) s"

definition execute_show_services :: "world \<Rightarrow> server \<Rightarrow> request \<Rightarrow> executed_handler" where
  "execute_show_services w s =
     show_response w ''showServiceDescriptions'' ''showServiceDescriptions''
       (show_services (text_ops (w_mime w)) (service_reg s)) s"

text \<open>The boot time of the status is the word that \<^verbatim>\<open>BESStatus.cc\<close> assigns.\<close>

definition boot_time :: string where "boot_time = ''foo''"

definition execute_show_status :: "world \<Rightarrow> server \<Rightarrow> request \<Rightarrow> executed_handler" where
  "execute_show_status w s =
     show_response w ''showStatus'' ''showStatus'' (add_tag_op (text_ops (w_mime w)) ''status'' boot_time []) s"

definition execute_show_process :: "world \<Rightarrow> server \<Rightarrow> request \<Rightarrow> executed_handler" where
  "execute_show_process w s =
     show_response w ''showProcess'' ''showProcess''
       (add_tag_op (text_ops (w_mime w)) ''process'' [] (m_set ''pid'' (fastpidconverter (w_pid w) 10) [])) s"

definition show_keys :: "'i info_ops \<Rightarrow> keys \<Rightarrow> 'i \<Rightarrow> 'i bes_result" where
  "show_keys ops ks =
     each (\<lambda>(k, vs) i. rbind (begin_tag_op ops ''key'' (m_set ''name'' k []) i) (\<lambda>i.
       rbind (each (\<lambda>v. add_tag_op ops ''value'' v []) vs i) (end_tag_op ops ''key''))) ks"

definition execute_show_config :: "world \<Rightarrow> server \<Rightarrow> request \<Rightarrow> executed_handler" where
  "execute_show_config w s =
     show_response w ''showConfig'' ''showConfig''
       (\<lambda>i. rbind (add_tag_op (text_ops (w_mime w)) ''file'' (keys_file_name s) [] i)
              (show_keys (text_ops (w_mime w)) (the_keys s))) s"

section \<open>Errors on request\<close>

text \<open>Reading an \<^verbatim>\<open>unsigned int\<close> of 32 bits that was 0 before.\<close>

definition read_uint :: "string \<Rightarrow> nat" where
  "read_uint s =
     (case extract_num 10 s of
        None \<Rightarrow> 0
      | Some (neg, v) \<Rightarrow> if 2 ^ 32 \<le> v then 2 ^ 32 - 1 else if neg then (2 ^ 32 - v) mod 2 ^ 32 else v)"

definition execute_show_error :: "server \<Rightarrow> request \<Rightarrow> executed_handler" where
  "execute_show_error s d =
     (let etype_s = data_at d ''error_type_num''
      in if etype_s = [] then (s, d, syntax_error (action d @ '' error type missing''))
         else
           (let etype = read_uint etype_s
            in (s, d, Some (Thrown
                 (if etype = 0 \<or> 5 < etype then BESSyntaxUserError (action d @ '' invalid error type, should be 1-5'')
                  else if etype = 1 then BESInternalError (action d @ '' Internal Error'')
                  else if etype = 2 then BESInternalFatalError (action d @ '' Internal Fatal Error'')
                  else if etype = 3 then BESSyntaxUserError (action d @ '' Syntax User Error'')
                  else if etype = 4 then BESForbiddenError (action d @ '' Forbidden Error'')
                  else BESNotFoundError (action d @ '' Not Found Error''))))))"

section \<open>All handlers\<close>

fun handler_execute :: "world \<Rightarrow> handler \<Rightarrow> server \<Rightarrow> request \<Rightarrow> executed_handler" where
  "handler_execute w H_set_context = execute_set_context"
| "handler_execute w H_set_container = execute_set_container w"
| "handler_execute w H_define = execute_define"
| "handler_execute w H_del_container = execute_del_container"
| "handler_execute w H_del_containers = execute_del_containers"
| "handler_execute w H_del_definition = execute_del_def"
| "handler_execute w H_del_definitions = execute_del_defs"
| "handler_execute w H_show_context = execute_show_context w"
| "handler_execute w H_show_containers = execute_show_containers w"
| "handler_execute w H_show_definitions = execute_show_definitions w"
| "handler_execute w H_show_services = execute_show_services w"
| "handler_execute w H_show_config = execute_show_config w"
| "handler_execute w H_show_status = execute_show_status w"
| "handler_execute w H_show_process = execute_show_process w"
| "handler_execute w H_show_error = execute_show_error"
| "handler_execute w (H_other n) = w_execute w n"

section \<open>Transmitting\<close>

text \<open>\<open>send_text\<close>: the header of the protocol, when the context asks for it, and the text.\<close>

definition send_text :: "world \<Rightarrow> server \<Rightarrow> text_info \<Rightarrow> string" where
  "send_text w s info =
     (let protocol = fst (get_context ''transmit_protocol'' (contexts s))
      in (if protocol = ''HTTP'' \<and> info_buffered info then w_mime w else []) @ info_print info)"

text \<open>What an object writes: a silent one nothing, one that is no informational response throws.\<close>

fun info_transmit :: "world \<Rightarrow> server \<Rightarrow> response_obj option \<Rightarrow> string \<times> outcome" where
  "info_transmit w s None = ([], None)"
| "info_transmit w s (Some Silent) = ([], None)"
| "info_transmit w s (Some (Text info)) = (send_text w s info, None)"
| "info_transmit w s (Some Foreign) = ([], Some (Thrown (BESInternalError ''cast error'')))"

fun handler_transmit :: "world \<Rightarrow> handler \<Rightarrow> server \<Rightarrow> request \<Rightarrow> string \<times> outcome" where
  "handler_transmit w H_show_error s d =
     ([], Some (Thrown (BESInternalError ''An exception should have been thrown, nothing to transmit'')))"
| "handler_transmit w (H_other n) s d = w_transmit w n d"
| "handler_transmit w h s d = info_transmit w s (response_object d)"

section \<open>The methods of a transmitter\<close>

type_synonym 'p method_list = "(string, 'p option) cpp_map"

definition tr_find_method :: "string \<Rightarrow> 'p method_list \<Rightarrow> 'p option" where
  "tr_find_method method_name l = (case m_find l method_name of Some p \<Rightarrow> p | None \<Rightarrow> None)"

definition tr_add_method :: "string \<Rightarrow> 'p option \<Rightarrow> 'p method_list \<Rightarrow> bool \<times> 'p method_list" where
  "tr_add_method method_name p l =
     (case m_find l method_name of None \<Rightarrow> (True, m_set method_name p l) | Some _ \<Rightarrow> (False, l))"

definition tr_remove_method :: "string \<Rightarrow> 'p method_list \<Rightarrow> bool \<times> 'p method_list" where
  "tr_remove_method method_name l =
     (case m_find l method_name of Some _ \<Rightarrow> (True, m_erase method_name l) | None \<Rightarrow> (False, l))"

definition send_response :: "string \<Rightarrow> ('d \<Rightarrow> 'd bes_result) method_list \<Rightarrow> 'd \<Rightarrow> 'd bes_result" where
  "send_response method_name l d =
     (case tr_find_method method_name l of
        Some p \<Rightarrow> p d
      | None \<Rightarrow> Inl (BESInternalError (''Unable to transmit response, no transmit for '' @ method_name)))"

interpretation methods: registry tr_add_method "\<lambda>n l. snd (tr_remove_method n l)" m_find m_ok
  by unfold_locales (auto simp: tr_add_method_def tr_remove_method_def split: option.splits)

end
