(* ===== verification/BesRequest.thy ===== *)
theory BesRequest
  imports BesHandlers PptServer
begin

text \<open>
  One request document from its text to the answer: \<^verbatim>\<open>bes/dispatch/BESInterface.cc\<close> with
  \<^verbatim>\<open>BESBasicInterface.cc\<close> and \<^verbatim>\<open>bes/xmlcommand/BESXMLInterface.cc\<close> over it, and
  \<^verbatim>\<open>BESExceptionManager.cc\<close>. The functions that the last class overrides are modelled as one call of
  it and of what it calls in its base classes. The output stream of the interface is \<^verbatim>\<open>cout\<close>, as in
  \<^verbatim>\<open>BESServerHandler.cc\<close>.
\<close>

text \<open>
  The pointer to the current request is \<open>None\<close> for the one of the document and the number of a command
  otherwise. The log has the texts without the time; the containers that have been released are listed.
\<close>

record iface =
  if_cur :: "nat option"
  if_base :: request
  if_cmds :: "command list"
  if_transmitter :: "nat option"
  if_server :: server
  if_out :: string
  if_log :: "string list"
  if_released :: "bes_container list"

type_synonym stage = "iface \<Rightarrow> iface \<times> outcome"

text \<open>One stage after the other; an exception skips the rest.\<close>

definition andthen :: "stage \<Rightarrow> stage \<Rightarrow> stage" where
  "andthen f g x = (let (x, r) = f x in if r = None then g x else (x, r))"

definition cur_dhi :: "iface \<Rightarrow> request" where
  "cur_dhi x = (case if_cur x of None \<Rightarrow> if_base x | Some i \<Rightarrow> cmd_dhi (if_cmds x ! i))"

definition set_dhi :: "request \<Rightarrow> iface \<Rightarrow> iface" where
  "set_dhi d x =
     (case if_cur x of
        None \<Rightarrow> x\<lparr>if_base := d\<rparr>
      | Some i \<Rightarrow> x\<lparr>if_cmds := (if_cmds x)[i := (if_cmds x ! i)\<lparr>cmd_dhi := d\<rparr>]\<rparr>)"

definition if_log_line :: "string \<Rightarrow> iface \<Rightarrow> iface" where
  "if_log_line s x = x\<lparr>if_log := if_log x @ [s]\<rparr>"

definition request_tag :: "iface \<Rightarrow> string" where
  "request_tag x =
     data_at (cur_dhi x) ''pid'' @ '' from '' @ data_at (cur_dhi x) ''from'' @ '' ['' @ data_at (cur_dhi x) ''request'' @ '']''"

definition log_verbose :: "world \<Rightarrow> string \<Rightarrow> iface \<Rightarrow> iface" where
  "log_verbose w s x = (if w_verbose w then if_log_line s x else x)"

definition new_interface :: "string \<Rightarrow> server \<Rightarrow> iface" where
  "new_interface xml_doc s =
     \<lparr>if_cur = None, if_base = set_data ''XMLDoc'' xml_doc (set_data ''request'' ''xml document'' new_request),
      if_cmds = [], if_transmitter = None, if_server = s, if_out = [], if_log = [], if_released = []\<rparr>"

section \<open>The exception manager\<close>

definition administrator :: "server \<Rightarrow> string" where
  "administrator s =
     (case get_value ''BES.ServerAdministrator'' [] (the_keys s) of
        Inl _ \<Rightarrow> ''support@opendap.org''
      | Inr (v, found) \<Rightarrow> if v = [] then ''support@opendap.org'' else v)"

text \<open>
  A callback gets the error by reference and may change its type and message even when it does not
  handle it, as \<^verbatim>\<open>BESDapError::handleException\<close> does; it may read the contexts of the server.
\<close>

fun ehm_loop :: "(server \<Rightarrow> bes_error \<Rightarrow> request \<Rightarrow> int \<times> bes_error \<times> request) list \<Rightarrow> server \<Rightarrow> bes_error \<Rightarrow> request \<Rightarrow>
  int \<times> bes_error \<times> request" where
  "ehm_loop [] s e d = (0, e, d)"
| "ehm_loop (p # ps) s e d =
     (let (handled, e, d) = p s e d in if handled \<noteq> 0 then (handled, e, d) else ehm_loop ps s e d)"

text \<open>The result is the status, or what the exception manager itself throws.\<close>

definition handle_exception :: "world \<Rightarrow> bes_error \<Rightarrow> server \<Rightarrow> request \<Rightarrow> request \<times> (failure + int)" where
  "handle_exception w e s d =
     (let (handled, e, d) = ehm_loop (w_ehm w) s e d
      in if handled \<noteq> 0 then (d, Inr handled)
         else
           (case build_response w s of
              Inl e' \<Rightarrow> (d, Inl (Thrown e'))
            | Inr None \<Rightarrow> (d\<lparr>error_info := None\<rparr>, Inl Null_call)
            | Inr (Some info) \<Rightarrow>
                (let info = begin_response (if action_name d = [] then ''BES'' else action_name d) info
                 in case add_exception (text_ops (w_mime w)) e (administrator s) info of
                      Inl e' \<Rightarrow> (d\<lparr>error_info := Some info\<rparr>, Inl (Thrown e'))
                    | Inr info \<Rightarrow>
                        (let (info, r) = end_response info; d = d\<lparr>error_info := Some info\<rparr>
                         in case r of Inl e' \<Rightarrow> (d, Inl (Thrown e')) | Inr _ \<Rightarrow> (d, Inr (get_error_type e))))))"

definition exception_manager :: "world \<Rightarrow> bes_error \<Rightarrow> iface \<Rightarrow> iface \<times> (failure + int)" where
  "exception_manager w e x =
     (let (d, r) = handle_exception w e (if_server x) (cur_dhi x) in (set_dhi d x, r))"

text \<open>The handlers of a try block that gives a status: the three catch clauses.\<close>

definition caught :: "world \<Rightarrow> failure \<Rightarrow> iface \<Rightarrow> iface \<times> (failure + int)" where
  "caught w f x =
     (case f of
        Thrown e \<Rightarrow> exception_manager w e x
      | Bad_alloc \<Rightarrow> exception_manager w (BESInternalFatalError ''BES out of memory'') x
      | Other_exception \<Rightarrow> exception_manager w (BESInternalError ''An undefined exception has been thrown'') x
      | f \<Rightarrow> (x, Inl f))"

section \<open>Initializing\<close>

fun init_loop :: "(request \<Rightarrow> bool \<times> request \<times> outcome) list \<Rightarrow> request \<Rightarrow> bool \<times> request \<times> outcome" where
  "init_loop [] d = (True, d, None)"
| "init_loop (p # ps) d =
     (let (do_continue, d, r) = p d
      in if r \<noteq> None \<or> \<not> do_continue then (do_continue, d, r) else init_loop ps d)"

definition base_initialize :: "world \<Rightarrow> stage" where
  "base_initialize w x =
     (let (do_continue, d, r) = init_loop (w_init w) (cur_dhi x); x = set_dhi d x
      in if r \<noteq> None then (x, r)
         else if \<not> do_continue then (x, Some (Thrown (BESInternalError ''Initialization callback failed, exiting'')))
         else (x, None))"

definition interface_initialize :: "world \<Rightarrow> stage" where
  "interface_initialize w x =
     (let x = x\<lparr>if_transmitter := find_transmitter ''basic'' (w_transmitters w)\<rparr>
      in if if_transmitter x = None then (x, Some (Thrown (BESInternalError ''Unable to find transmitter basic'')))
         else base_initialize w x)"

section \<open>Building the plan\<close>

fun parse_error_text :: "bool \<Rightarrow> string list \<Rightarrow> string" where
  "parse_error_text isfirst [] = []"
| "parse_error_text isfirst (i # is) =
     (if \<not> isfirst \<and> substr i 0 6 = ''Entity'' then [lf] else []) @ i @ parse_error_text False is"

text \<open>One element of the document: its command is built, checked, read, and its transmitter looked for.\<close>

definition build_command :: "world \<Rightarrow> xml_node \<Rightarrow> bool \<Rightarrow> iface \<Rightarrow> bool \<times> iface \<times> outcome" where
  "build_command w node has_resp x =
     (case find_command (xml_name node) (w_commands w) of
        None \<Rightarrow> (has_resp, x, syntax_error (''Unable to find command for '' @ xml_name node))
      | Some k \<Rightarrow>
          (let cmd = new_command k (if_base x); n = length (if_cmds x); x = x\<lparr>if_cmds := if_cmds x @ [cmd]\<rparr>
           in if has_resp \<and> has_response k then (has_resp, x, syntax_error ''Multiple responses not allowed'')
              else
                (let (cmd, r) = parse_request (w_dump w) (w_commands w) (w_find_handler w) node cmd;
                     x = x\<lparr>if_cmds := (if_cmds x)[n := cmd]\<rparr>;
                     returnAs = data_at (cmd_dhi cmd) ''return_command''
                 in if r \<noteq> None then (has_response k, x, r)
                    else if returnAs \<noteq> [] \<and> find_transmitter returnAs (w_transmitters w) = None
                    then (has_response k, x, syntax_error (''Unable to find transmitter '' @ returnAs))
                    else (has_response k, x, None))))"

fun build_loop :: "world \<Rightarrow> xml_node list \<Rightarrow> bool \<Rightarrow> stage" where
  "build_loop w [] has_resp x = (x, None)"
| "build_loop w (node # rest) has_resp x =
     (if is_element node then
        (let (has_resp, x, r) = build_command w node has_resp x
         in if r \<noteq> None then (x, r) else build_loop w rest has_resp x)
      else build_loop w rest has_resp x)"

definition build_document :: "world \<Rightarrow> stage" where
  "build_document w x =
     (case w_parse w (data_at (cur_dhi x) ''XMLDoc'') of
        Inr parseerrors \<Rightarrow>
          (x, syntax_error (''Problem parsing the request xml document:'' @ [lf] @ parse_error_text True parseerrors))
      | Inl None \<Rightarrow> (x, syntax_error ''There is no root element in the xml document'')
      | Inl (Some root) \<Rightarrow>
          (let (root_name, root_val, props) = get_node_info root ([], [], []); reqId = at_key props ''reqID''
           in if root_name \<noteq> ''request''
              then (x, syntax_error (''The root element should be a request element, name is '' @ xml_name root))
              else if root_val \<noteq> [] then (x, syntax_error (''The request element must not contain a value, '' @ root_val))
              else if reqId = [] then (x, syntax_error ''request id value empty'')
              else build_loop w (xml_children root) False (set_dhi (set_data ''reqID'' reqId (cur_dhi x)) x)))"

definition base_build :: "world \<Rightarrow> stage" where
  "base_build w x =
     (let returnAs = data_at (cur_dhi x) ''return_command''
      in if returnAs = [] then (x, None)
         else
           (let x = x\<lparr>if_transmitter := find_transmitter returnAs (w_transmitters w)\<rparr>
            in if if_transmitter x = None then (x, syntax_error (''Unable to find transmitter '' @ returnAs))
               else (x, None)))"

definition build_data_request_plan :: "world \<Rightarrow> stage" where
  "build_data_request_plan w x =
     andthen (build_document w) (base_build w)
       (log_verbose w (data_at (cur_dhi x) ''pid'' @ '' from '' @ data_at (cur_dhi x) ''from'' @ ''] building'') x)"

section \<open>Transmitting\<close>

definition base_transmit_data :: "world \<Rightarrow> stage" where
  "base_transmit_data w x =
     (case error_info (cur_dhi x) of
        Some info \<Rightarrow>
          (if if_transmitter x = None then (x\<lparr>if_out := if_out x @ info_print info\<rparr>, None)
           else ((if_log_line (info_print info) x)\<lparr>if_out := if_out x @ send_text w (if_server x) info\<rparr>, None))
      | None \<Rightarrow>
          (if if_transmitter x = None
           then (x, Some (Thrown (BESInternalError ''Unable to transmit the response, no transmitter'')))
           else
             (case response_handler (cur_dhi x) of
                None \<Rightarrow> (x, None)
              | Some h \<Rightarrow>
                  (let (s, r) = handler_transmit w h (if_server x) (cur_dhi x) in (x\<lparr>if_out := if_out x @ s\<rparr>, r)))))"

definition transmit_data :: "world \<Rightarrow> stage" where
  "transmit_data w x =
     (let returnAs = data_at (cur_dhi x) ''return_command'';
          x = (if returnAs = [] then x else x\<lparr>if_transmitter := find_transmitter returnAs (w_transmitters w)\<rparr>)
      in if returnAs \<noteq> [] \<and> if_transmitter x = None
         then (x, syntax_error (''Unable to find transmitter '' @ returnAs))
         else base_transmit_data w (log_verbose w (request_tag x @ '' transmitting'') x))"

section \<open>Executing the plan\<close>

definition execute_handler :: "world \<Rightarrow> stage" where
  "execute_handler w x =
     (case response_handler (cur_dhi x) of
        None \<Rightarrow>
          (x, Some (Thrown (BESInternalError (''The response handler '' @ [dquote] @ action (cur_dhi x) @ [dquote]
             @ '' does not exist''))))
      | Some h \<Rightarrow>
          (let (s, d, r) = handler_execute w h (if_server x) (cur_dhi x) in (set_dhi d (x\<lparr>if_server := s\<rparr>), r)))"

definition find_aggregator :: "world \<Rightarrow> string \<Rightarrow> (request \<Rightarrow> request \<times> outcome) option" where
  "find_aggregator w name = (case m_find (w_aggregators w) name of Some a \<Rightarrow> a | None \<Rightarrow> None)"

definition invoke_aggregation :: "world \<Rightarrow> stage" where
  "invoke_aggregation w x =
     (let agg = find_aggregator w (data_at (cur_dhi x) ''aggregation_handler'')
      in if data_at (cur_dhi x) ''aggregation_command'' = []
         then (log_verbose w (request_tag x @ '' not aggregating, command empty'') x, None)
         else
           (case agg of
              None \<Rightarrow>
                (log_verbose w (request_tag x @ '' not aggregating, no handler'') x,
                 Some (Thrown (BESInternalError (''The aggregation handler ''
                   @ data_at (cur_dhi x) ''aggregation_handler'' @ ''does not exist''))))
            | Some a \<Rightarrow>
                (let x = log_verbose w (request_tag x @ '' aggregating'') x; (d, r) = a (cur_dhi x)
                 in (set_dhi d x, r))))"

definition execute_command :: "world \<Rightarrow> stage" where
  "execute_command w x =
     andthen (execute_handler w) (andthen (invoke_aggregation w) (transmit_data w))
       (log_verbose w (request_tag x @ '' executing'') x)"

text \<open>A command becomes the current one after it has been prepared.\<close>

definition prepare_command :: "nat \<Rightarrow> stage" where
  "prepare_command i x =
     (let (cmd, r) = prep_request (if_server x) (if_cmds x ! i); x = x\<lparr>if_cmds := (if_cmds x)[i := cmd]\<rparr>
      in if r \<noteq> None then (x, r) else (x\<lparr>if_cur := Some i\<rparr>, None))"

fun execute_loop :: "world \<Rightarrow> nat list \<Rightarrow> stage" where
  "execute_loop w [] x = (x, None)"
| "execute_loop w (i # is) x = andthen (prepare_command i) (andthen (execute_command w) (execute_loop w is)) x"

definition execute_data_request_plan :: "world \<Rightarrow> stage" where
  "execute_data_request_plan w x = execute_loop w [0..<length (if_cmds x)] x"

section \<open>Finishing\<close>

definition log_status :: "world \<Rightarrow> iface \<Rightarrow> iface" where
  "log_status w x =
     fold (\<lambda>i x. let x = x\<lparr>if_cur := Some i\<rparr>
                 in log_verbose w (request_tag x @ '' '' @ (if error_info (cur_dhi x) \<noteq> None then ''failed'' else ''completed'')) x)
       [0..<length (if_cmds x)] x"

fun report_loop :: "(string \<times> (request \<Rightarrow> request \<times> outcome) option) list \<Rightarrow> stage" where
  "report_loop [] x = (x, None)"
| "report_loop ((n, rep) # rs) x =
     (case rep of
        None \<Rightarrow> report_loop rs x
      | Some f \<Rightarrow> (let (d, r) = f (cur_dhi x); x = set_dhi d x in if r \<noteq> None then (x, r) else report_loop rs x))"

fun report_commands :: "world \<Rightarrow> nat list \<Rightarrow> stage" where
  "report_commands w [] x = (x, None)"
| "report_commands w (i # is) x = andthen (report_loop (w_reporters w)) (report_commands w is) (x\<lparr>if_cur := Some i\<rparr>)"

definition report_request :: "world \<Rightarrow> stage" where
  "report_request w x = report_commands w [0..<length (if_cmds x)] x"

fun end_loop :: "(request \<Rightarrow> request \<times> outcome) list \<Rightarrow> stage" where
  "end_loop [] x = (x, None)"
| "end_loop (p # ps) x = (let (d, r) = p (cur_dhi x); x = set_dhi d x in if r \<noteq> None then (x, r) else end_loop ps x)"

text \<open>The containers of the current request, the last one that was looked at, are released.\<close>

definition release_containers :: "iface \<Rightarrow> iface" where
  "release_containers x =
     (let d = cur_dhi x
      in set_dhi (d\<lparr>containers_iterator := length (containers d), container := None\<rparr>)
           (x\<lparr>if_released := if_released x @ request_containers d\<rparr>))"

definition end_request :: "world \<Rightarrow> stage" where
  "end_request w x = (let (x, r) = end_loop (w_end w) x in if r \<noteq> None then (x, r) else (release_containers x, None))"

text \<open>A try block that writes what it catches into the log.\<close>

definition logged :: "string \<Rightarrow> string \<Rightarrow> stage \<Rightarrow> stage" where
  "logged problem unknown f x =
     (case f x of
        (x, None) \<Rightarrow> (x, None)
      | (x, Some (Thrown e)) \<Rightarrow> (if_log_line (problem @ get_message e) x, None)
      | (x, Some Bad_alloc) \<Rightarrow> (if_log_line unknown x, None)
      | (x, Some Other_exception) \<Rightarrow> (if_log_line unknown x, None)
      | (x, r) \<Rightarrow> (x, r))"

definition forget_error :: "iface \<Rightarrow> iface" where
  "forget_error x = set_dhi ((cur_dhi x)\<lparr>error_info := None\<rparr>) x"

definition transmit_error :: "world \<Rightarrow> int \<Rightarrow> iface \<Rightarrow> iface \<times> (failure + int)" where
  "transmit_error w status x =
     (if error_info (cur_dhi x) = None then (x, Inr status)
      else
        (let (x, r) = transmit_data w x
         in case r of None \<Rightarrow> (forget_error x, Inr status) | Some f \<Rightarrow> caught w f x))"

definition print_error :: "iface \<Rightarrow> iface" where
  "print_error x =
     (case error_info (cur_dhi x) of
        None \<Rightarrow> x
      | Some info \<Rightarrow> forget_error (x\<lparr>if_out := if_out x @ info_print info\<rparr>))"

definition finish :: "world \<Rightarrow> int \<Rightarrow> iface \<Rightarrow> iface \<times> (failure + int)" where
  "finish w status x =
     (let (x, r) = transmit_error w status x
      in case r of
           Inl f \<Rightarrow> (x, Inl f)
         | Inr status \<Rightarrow>
             (let (x, r) = andthen (logged ''Problem reporting request: '' ''Unknown problem reporting request'' (report_request w))
                             (logged ''Problem ending request: '' ''Unknown problem ending request'' (end_request w))
                             (log_status w (print_error x))
              in case r of Some f \<Rightarrow> (x, Inl f) | None \<Rightarrow> (x, Inr status)))"

definition finish_with_error :: "world \<Rightarrow> int \<Rightarrow> iface \<Rightarrow> iface \<times> (failure + int)" where
  "finish_with_error w status x =
     (if error_info (cur_dhi x) = None
      then
        (let (x, r) = exception_manager w (BESInternalError ''Finish_with_error called with no error object'') x
         in case r of Inl f \<Rightarrow> (x, Inl f) | Inr status \<Rightarrow> finish w status x)
      else finish w status x)"

section \<open>The request\<close>

definition request_stages :: "world \<Rightarrow> stage" where
  "request_stages w =
     andthen (interface_initialize w)
       (\<lambda>x. andthen (build_data_request_plan w) (execute_data_request_plan w)
              (if_log_line (data_at (cur_dhi x) ''pid'' @ '' from '' @ data_at (cur_dhi x) ''from'' @ '' request received'') x))"

definition execute_request :: "world \<Rightarrow> string \<Rightarrow> iface \<Rightarrow> iface \<times> (failure + int)" where
  "execute_request w from x =
     (let x = set_dhi (set_data ''pid'' (show_int (w_pid w)) (set_data ''from'' from (cur_dhi x))) x;
          (x, r) = request_stages w x
      in case r of
           None \<Rightarrow> finish w 0 (set_dhi ((cur_dhi x)\<lparr>executed := True\<rparr>) x)
         | Some f \<Rightarrow> caught w f x)"

text \<open>\<open>clean\<close>, from the destructor: every command loses its response handler and is deleted.\<close>

definition clean_request :: "request \<Rightarrow> request" where
  "clean_request d = d\<lparr>response_handler := None\<rparr>"

definition interface_clean :: "world \<Rightarrow> iface \<Rightarrow> iface" where
  "interface_clean w x =
     (let x = fold (\<lambda>i x. let x = x\<lparr>if_cur := Some i\<rparr>; x = set_dhi (clean_request (cur_dhi x)) x
                          in log_verbose w (request_tag x @ '' cleaning'') x) [0..<length (if_cmds x)] x
      in x\<lparr>if_cmds := []\<rparr>)"

end
