(* ===== verification/RequestProofs.thy ===== *)
theory RequestProofs
  imports BesRequest
begin

text \<open>
  What holds of whole requests: the commands of a plan act on the server one after the other and on
  nothing else of each other; an error of any stage is answered with its report and its status; no request
  ends the process.
\<close>

section \<open>The pointer to the current request\<close>

definition cur_ok :: "iface \<Rightarrow> bool" where
  "cur_ok x = (case if_cur x of None \<Rightarrow> True | Some i \<Rightarrow> i < length (if_cmds x))"

lemma cur_set_dhi [simp]: "cur_ok x \<Longrightarrow> cur_dhi (set_dhi d x) = d"
  by (auto simp: cur_ok_def cur_dhi_def set_dhi_def split: option.splits)

lemma cur_ok_set_dhi [simp]: "cur_ok (set_dhi d x) = cur_ok x"
  by (auto simp: cur_ok_def set_dhi_def split: option.splits)

lemma set_dhi_fields [simp]:
  "if_cur (set_dhi d x) = if_cur x" "if_transmitter (set_dhi d x) = if_transmitter x"
  "if_server (set_dhi d x) = if_server x" "if_out (set_dhi d x) = if_out x"
  "if_released (set_dhi d x) = if_released x" "length (if_cmds (set_dhi d x)) = length (if_cmds x)"
  "if_log (set_dhi d x) = if_log x"
  by (auto simp: set_dhi_def split: option.splits)

lemma cur_dhi_update [simp]:
  "cur_dhi (x\<lparr>if_transmitter := t\<rparr>) = cur_dhi x" "cur_dhi (x\<lparr>if_server := s\<rparr>) = cur_dhi x"
  "cur_dhi (x\<lparr>if_out := out\<rparr>) = cur_dhi x" "cur_dhi (x\<lparr>if_log := l\<rparr>) = cur_dhi x"
  "cur_dhi (x\<lparr>if_released := rl\<rparr>) = cur_dhi x"
  by (auto simp: cur_dhi_def split: option.splits)

lemma cur_ok_update [simp]:
  "cur_ok (x\<lparr>if_transmitter := t\<rparr>) = cur_ok x" "cur_ok (x\<lparr>if_server := s\<rparr>) = cur_ok x"
  "cur_ok (x\<lparr>if_out := out\<rparr>) = cur_ok x" "cur_ok (x\<lparr>if_log := l\<rparr>) = cur_ok x"
  "cur_ok (x\<lparr>if_released := rl\<rparr>) = cur_ok x"
  by (auto simp: cur_ok_def split: option.splits)

lemma log_line_fields [simp]:
  "if_cur (if_log_line t x) = if_cur x" "if_transmitter (if_log_line t x) = if_transmitter x"
  "if_server (if_log_line t x) = if_server x" "if_out (if_log_line t x) = if_out x"
  "if_released (if_log_line t x) = if_released x" "if_cmds (if_log_line t x) = if_cmds x"
  "cur_dhi (if_log_line t x) = cur_dhi x" "cur_ok (if_log_line t x) = cur_ok x" "if_base (if_log_line t x) = if_base x"
  by (auto simp: if_log_line_def)

lemma log_verbose_fields [simp]:
  "if_cur (log_verbose w t x) = if_cur x" "if_transmitter (log_verbose w t x) = if_transmitter x"
  "if_server (log_verbose w t x) = if_server x" "if_out (log_verbose w t x) = if_out x"
  "if_released (log_verbose w t x) = if_released x" "if_cmds (log_verbose w t x) = if_cmds x"
  "cur_dhi (log_verbose w t x) = cur_dhi x" "cur_ok (log_verbose w t x) = cur_ok x" "if_base (log_verbose w t x) = if_base x"
  by (auto simp: log_verbose_def)

section \<open>The commands of a plan\<close>

text \<open>
  What a command does: it sees the server and the transmitter that is in use, and gives the server, the
  text it writes, the transmitter and how it ended.
\<close>

definition command_transmitter :: "world \<Rightarrow> nat option \<Rightarrow> request \<Rightarrow> nat option" where
  "command_transmitter w tr d =
     (if data_at d ''return_command'' = [] then tr else find_transmitter (data_at d ''return_command'') (w_transmitters w))"

definition command_output :: "world \<Rightarrow> nat option \<Rightarrow> server \<Rightarrow> request \<Rightarrow> string \<times> outcome" where
  "command_output w tr s d =
     (if tr = None \<and> data_at d ''return_command'' \<noteq> []
      then ([], syntax_error (''Unable to find transmitter '' @ data_at d ''return_command''))
      else case (error_info d, tr) of
             (Some info, None) \<Rightarrow> (info_print info, None)
           | (Some info, Some _) \<Rightarrow> (send_text w s info, None)
           | (None, None) \<Rightarrow> ([], Some (Thrown (BESInternalError ''Unable to transmit the response, no transmitter'')))
           | (None, Some _) \<Rightarrow> (case response_handler d of None \<Rightarrow> ([], None) | Some h \<Rightarrow> handler_transmit w h s d))"

definition command_aggregate :: "world \<Rightarrow> request \<Rightarrow> request \<times> outcome" where
  "command_aggregate w d =
     (if data_at d ''aggregation_command'' = [] then (d, None)
      else case find_aggregator w (data_at d ''aggregation_handler'') of
             None \<Rightarrow> (d, Some (Thrown (BESInternalError (''The aggregation handler '' @ data_at d ''aggregation_handler''
                       @ ''does not exist''))))
           | Some a \<Rightarrow> a d)"

definition command_effect :: "world \<Rightarrow> nat option \<Rightarrow> server \<Rightarrow> command \<Rightarrow> server \<times> string \<times> nat option \<times> outcome" where
  "command_effect w tr s c =
     (case prep_request s c of
        (c, Some f) \<Rightarrow> (s, [], tr, Some f)
      | (c, None) \<Rightarrow>
          (case response_handler (cmd_dhi c) of
             None \<Rightarrow> (s, [], tr, Some (Thrown (BESInternalError (''The response handler '' @ [dquote] @ action (cmd_dhi c)
                       @ [dquote] @ '' does not exist''))))
           | Some h \<Rightarrow>
               (case handler_execute w h s (cmd_dhi c) of
                  (s, d, Some f) \<Rightarrow> (s, [], tr, Some f)
                | (s, d, None) \<Rightarrow>
                    (case command_aggregate w d of
                       (d, Some f) \<Rightarrow> (s, [], tr, Some f)
                     | (d, None) \<Rightarrow>
                         (let tr = command_transmitter w tr d; (out, r) = command_output w tr s d in (s, out, tr, r))))))"

fun run_plan :: "world \<Rightarrow> nat option \<Rightarrow> server \<Rightarrow> command list \<Rightarrow> server \<times> string \<times> outcome" where
  "run_plan w tr s [] = (s, [], None)"
| "run_plan w tr s (c # cs) =
     (case command_effect w tr s c of
        (s, out, tr, Some f) \<Rightarrow> (s, out, Some f)
      | (s, out, tr, None) \<Rightarrow> (case run_plan w tr s cs of (s, out', r) \<Rightarrow> (s, out @ out', r)))"

lemma transmit_data_effect:
  "\<exists>y. transmit_data w x = (y, snd (command_output w (command_transmitter w (if_transmitter x) (cur_dhi x)) (if_server x) (cur_dhi x))) \<and>
     if_out y = if_out x @ fst (command_output w (command_transmitter w (if_transmitter x) (cur_dhi x)) (if_server x) (cur_dhi x)) \<and>
     if_server y = if_server x \<and> if_transmitter y = command_transmitter w (if_transmitter x) (cur_dhi x) \<and>
     if_cmds y = if_cmds x \<and> if_cur y = if_cur x \<and> cur_dhi y = cur_dhi x \<and> if_base y = if_base x"
  by (auto simp: transmit_data_def base_transmit_data_def command_output_def command_transmitter_def Let_def
      split: option.splits prod.splits)



text \<open>Everything but the command itself stays.\<close>

definition only_cmd :: "nat \<Rightarrow> iface \<Rightarrow> iface \<Rightarrow> bool" where
  "only_cmd i x y =
     (length (if_cmds y) = length (if_cmds x) \<and> (\<forall>j. j \<noteq> i \<longrightarrow> if_cmds y ! j = if_cmds x ! j) \<and> if_base y = if_base x)"

lemma only_cmd_refl [simp]: "only_cmd i x x"
  by (simp add: only_cmd_def)

lemma only_cmd_trans: "only_cmd i x y \<Longrightarrow> only_cmd i y z \<Longrightarrow> only_cmd i x z"
  by (simp add: only_cmd_def)

lemma only_cmd_set_dhi: "if_cur x = Some i \<Longrightarrow> only_cmd i x (set_dhi d x)"
  by (auto simp: only_cmd_def set_dhi_def)

lemma aggregate_effect:
  assumes "if_cur x = Some i" "cur_ok x"
  shows "\<exists>y. invoke_aggregation w x = (y, snd (command_aggregate w (cur_dhi x))) \<and>
     if_out y = if_out x \<and> if_server y = if_server x \<and> if_transmitter y = if_transmitter x \<and> if_cur y = if_cur x \<and>
     cur_dhi y = fst (command_aggregate w (cur_dhi x)) \<and> cur_ok y \<and> only_cmd i x y"
proof -
  have k: "only_cmd i x (log_verbose w t x)" for t by (simp add: only_cmd_def)
  have l: "only_cmd i x (set_dhi d (log_verbose w t x))" for d t
    using only_cmd_trans [OF k only_cmd_set_dhi] assms(1) by simp
  show ?thesis using assms k l
    by (auto simp: invoke_aggregation_def command_aggregate_def Let_def split: option.splits prod.splits)
qed

lemma transmit_only_cmd: "only_cmd i x (fst (transmit_data w x))"
  using transmit_data_effect [of w x] by (auto simp: only_cmd_def)

lemma prepared_effect:
  assumes "i < length (if_cmds x)"
  shows "\<exists>y out tr r. andthen (prepare_command i) (execute_command w) x = (y, r) \<and>
     command_effect w (if_transmitter x) (if_server x) (if_cmds x ! i) = (if_server y, out, tr, r) \<and>
     if_out y = if_out x @ out \<and> if_transmitter y = tr \<and> only_cmd i x y"
proof -
  obtain c p where c: "prep_request (if_server x) (if_cmds x ! i) = (c, p)" by fastforce
  let ?x = "x\<lparr>if_cmds := (if_cmds x)[i := c]\<rparr>"
  have o: "only_cmd i x ?x" by (simp add: only_cmd_def)
  show ?thesis
  proof (cases p)
    case (Some f)
    then show ?thesis using c o by (simp add: andthen_def prepare_command_def command_effect_def)
  next
    case None
    let ?x1 = "log_verbose w (request_tag (?x\<lparr>if_cur := Some i\<rparr>) @ '' executing'') (?x\<lparr>if_cur := Some i\<rparr>)"
    have d1: "cur_dhi ?x1 = cmd_dhi c" using assms by (simp add: cur_dhi_def)
    have k1: "if_cur ?x1 = Some i" "cur_ok ?x1" "only_cmd i x ?x1"
      using assms o by (simp_all add: cur_ok_def only_cmd_def)
    have s: "andthen (prepare_command i) (execute_command w) x =
        andthen (execute_handler w) (andthen (invoke_aggregation w) (transmit_data w)) ?x1"
      using c None by (simp add: andthen_def prepare_command_def execute_command_def)
    show ?thesis
    proof (cases "response_handler (cmd_dhi c)")
      case None
      then show ?thesis using s c \<open>p = None\<close> d1 k1
        by (simp add: andthen_def execute_handler_def command_effect_def)
    next
      case (Some h)
      obtain s2 d2 r2 where h: "handler_execute w h (if_server x) (cmd_dhi c) = (s2, d2, r2)" by (metis prod_cases3)
      let ?x2 = "set_dhi d2 (?x1\<lparr>if_server := s2\<rparr>)"
      have e2: "execute_handler w ?x1 = (?x2, r2)" using d1 Some h by (simp add: execute_handler_def)
      have k2: "if_cur ?x2 = Some i" "cur_ok ?x2" "cur_dhi ?x2 = d2" using k1 by simp_all
      have k2': "only_cmd i x ?x2"
        by (rule only_cmd_trans [OF k1(3)])
          (rule only_cmd_trans [OF _ only_cmd_set_dhi], simp_all add: only_cmd_def k1(1) del: log_verbose_fields(1))
      show ?thesis
      proof (cases r2)
        case (Some f)
        then show ?thesis using s c \<open>p = None\<close> \<open>response_handler (cmd_dhi c) = Some h\<close> h e2 k2'
          by (simp add: andthen_def command_effect_def)
      next
        case None
        obtain x3 where x3: "invoke_aggregation w ?x2 = (x3, snd (command_aggregate w d2))"
            "if_out x3 = if_out ?x2" "if_server x3 = s2" "if_transmitter x3 = if_transmitter ?x2" "if_cur x3 = Some i"
            "cur_dhi x3 = fst (command_aggregate w d2)" "only_cmd i ?x2 x3"
          using aggregate_effect [OF k2(1,2), of w] k2(1,3) by auto
        have k3: "only_cmd i x x3" by (rule only_cmd_trans [OF k2' x3(7)])
        obtain d3 r3 where a: "command_aggregate w d2 = (d3, r3)" by fastforce
        show ?thesis
        proof (cases r3)
          case (Some f)
          then show ?thesis
            using s c \<open>p = None\<close> \<open>response_handler (cmd_dhi c) = Some h\<close> h e2 \<open>r2 = None\<close> x3 a k3
            by (simp add: andthen_def command_effect_def)
        next
          case None
          have "only_cmd i x (fst (transmit_data w x3))" by (rule only_cmd_trans [OF k3 transmit_only_cmd])
          then show ?thesis
            using s c \<open>p = None\<close> \<open>response_handler (cmd_dhi c) = Some h\<close> h e2 \<open>r2 = None\<close> x3 a None
              transmit_data_effect [of w x3]
            by (auto simp: andthen_def command_effect_def Let_def split: prod.splits)
        qed
      qed
    qed
  qed
qed

lemma andthen_assoc: "andthen f (andthen g h) x = andthen (andthen f g) h x"
  by (simp add: andthen_def split: prod.splits)

lemma loop_effect:
  assumes "distinct is" "\<forall>i \<in> set is. i < length (if_cmds x)"
  shows "\<exists>y out r. execute_loop w is x = (y, r) \<and>
     run_plan w (if_transmitter x) (if_server x) (map ((!) (if_cmds x)) is) = (if_server y, out, r) \<and>
     if_out y = if_out x @ out"
  using assms
proof (induction "is" arbitrary: x)
  case (Cons i "is")
  obtain y out tr r where y: "andthen (prepare_command i) (execute_command w) x = (y, r)"
      "command_effect w (if_transmitter x) (if_server x) (if_cmds x ! i) = (if_server y, out, tr, r)"
      "if_out y = if_out x @ out" "if_transmitter y = tr" "only_cmd i x y"
    using prepared_effect [of i x w] Cons.prems by auto
  have e: "execute_loop w (i # is) x = (if r = None then execute_loop w is y else (y, r))"
    by (simp add: andthen_assoc) (simp add: andthen_def [of "andthen _ _"] y(1))
  have m: "map ((!) (if_cmds y)) is = map ((!) (if_cmds x)) is"
    using y(5) Cons.prems(1) by (auto simp: only_cmd_def)
  show ?case
  proof (cases r)
    case None
    have "\<forall>i \<in> set is. i < length (if_cmds y)" using Cons.prems(2) y(5) by (simp add: only_cmd_def)
    from Cons.IH [OF _ this] Cons.prems(1) m y e None show ?thesis by auto
  next
    case (Some f)
    then show ?thesis using y e by auto
  qed
qed simp

text \<open>
  C7: The commands of a request act on the server one after the other: executing the plan gives the
  server, the output and the end that running the commands in sequence gives, each from the server the one
  before has left, and the first failure ends the request. No command sees the request of another.
\<close>

theorem plan_refines:
  "\<exists>y out r. execute_data_request_plan w x = (y, r) \<and>
     run_plan w (if_transmitter x) (if_server x) (if_cmds x) = (if_server y, out, r) \<and> if_out y = if_out x @ out"
  using loop_effect [of "[0..<length (if_cmds x)]" x w] by (simp add: execute_data_request_plan_def map_nth)

end
