(* ===== verification/BesModules.thy ===== *)
theory BesModules
  imports BesHandlers
begin

text \<open>
  What the core registers when it is loaded and removes when it is unloaded:
  \<^verbatim>\<open>bes/dispatch/BESDefaultModule.cc\<close>. The builders of HTML and XML responses are left out: the
  responses of the model are plain text.
\<close>

text \<open>The handlers for help, version and streams are numbers here: they call the modules' methods.\<close>

definition default_handlers :: "bool \<Rightarrow> (string \<times> handler) list" where
  "default_handlers dev =
     [(''show.help'', H_other 0)] @
     (if dev then [(''show.process'', H_show_process), (''show.config'', H_show_config)] else []) @
     [(''show.version'', H_other 1), (''show.status'', H_show_status), (''show.servicedescriptions'', H_show_services),
      (''get.stream'', H_other 2), (''set.container'', H_set_container), (''show.containers'', H_show_containers),
      (''delete.container'', H_del_container), (''delete.containers'', H_del_containers),
      (''define'', H_define), (''show.definitions'', H_show_definitions), (''delete.definition'', H_del_definition),
      (''delete.definitions'', H_del_definitions), (''set.context'', H_set_context), (''show.context'', H_show_context),
      (''show.error'', H_show_error)]"

definition add_handlers :: "(string \<times> handler) list \<Rightarrow> handler response_handler_list \<Rightarrow> handler response_handler_list" where
  "add_handlers hs l = fold (\<lambda>(n, h) l. snd (rsl_add_handler n (Some h) l)) hs l"

definition remove_handlers :: "string list \<Rightarrow> handler response_handler_list \<Rightarrow> handler response_handler_list" where
  "remove_handlers ns l = fold (\<lambda>n l. snd (rsl_remove_handler n l)) ns l"

definition key_of :: "keys \<Rightarrow> string \<Rightarrow> string option" where
  "key_of ks k = (case get_value k [] ks of Inr (v, True) \<Rightarrow> Some v | _ \<Rightarrow> None)"

text \<open>\<open>junk\<close> is the uninitialised flag of the container store; its constructor can throw.\<close>

definition default_module_initialize :: "bool \<Rightarrow> bool \<Rightarrow> world \<times> server \<Rightarrow> (world \<times> server) bes_result" where
  "default_module_initialize dev junk ws =
     (case ws of (w, s) \<Rightarrow>
        rbind (new_volatile junk (key_of (the_keys s)) ''default'') (\<lambda>cs.
          Inr (w\<lparr>w_handlers := add_handlers (default_handlers dev) (w_handlers w),
                 w_transmitters := snd (add_transmitter ''basic'' (Some 0) (w_transmitters w)),
                 w_builders := snd (add_info_builder ''txt'' (Some ()) (w_builders w))\<rparr>,
               s\<lparr>container_stores := snd (csl_add_persistence vs_name cs (container_stores s)),
                 def_stores_list := snd (dsl_add_persistence ds_name \<lparr>ds_name = ''default'', ds_list = []\<rparr> (def_stores_list s))\<rparr>)))"

definition default_module_terminate :: "bool \<Rightarrow> world \<times> server \<Rightarrow> world \<times> server" where
  "default_module_terminate dev ws =
     (case ws of (w, s) \<Rightarrow>
        (w\<lparr>w_handlers := remove_handlers
             ((if dev then [''show.process'', ''show.config''] else []) @
              [''show.version'', ''show.status'', ''show.servicedescriptions'', ''get.stream'', ''set.container'',
               ''show.containers'', ''delete.container'', ''delete.containers'', ''define'', ''show.definitions'',
               ''delete.definition'', ''delete.definitions'', ''set.context'', ''show.context'', ''show.error'']) (w_handlers w),
           w_transmitters := snd (snd (del_transmitter ''basic'' (w_transmitters w))),
           w_builders := snd (rem_info_builder ''txt'' (w_builders w))\<rparr>,
         s\<lparr>container_stores := snd (csl_deref_persistence vs_name ''default'' (container_stores s)),
           def_stores_list := snd (dsl_deref_persistence ds_name ''default'' (def_stores_list s))\<rparr>))"

text \<open>A process with nothing loaded, on a file system where every node is a file.\<close>

definition empty_world :: "(string \<Rightarrow> xml_node option + string list) \<Rightarrow> world" where
  "empty_world parse =
     \<lparr>w_lstat = (\<lambda>_. Node False), w_stat = (\<lambda>_. Node False), w_dump = (\<lambda>_. None), w_parse = parse, w_mime = ''MIME'',
      w_pid = 7, w_verbose = False, w_commands = [], w_handlers = [], w_transmitters = [], w_builders = [],
      w_aggregators = [], w_init = [], w_ehm = [], w_end = [], w_reporters = [],
      w_execute = (\<lambda>n s d. (s, d, None)), w_transmit = (\<lambda>n d. ([], None))\<rparr>"

definition empty_server :: "keys \<Rightarrow> server" where
  "empty_server ks =
     \<lparr>container_stores = [], def_stores_list = [], contexts = [], service_reg = no_services, the_keys = ks,
      keys_file_name = ''bes.conf''\<rparr>"

text \<open>The core alone, with a root directory; all commands are registered.\<close>

definition root_keys :: keys where
  "root_keys = [(''BES.Data.RootDirectory'', [''/data''])]"

definition core :: "(string \<Rightarrow> xml_node option + string list) \<Rightarrow> world \<times> server" where
  "core parse =
     (case default_module_initialize False False (empty_world parse, empty_server root_keys) of
        Inr (w, s) \<Rightarrow> (w\<lparr>w_commands := dap_commands_initialize (commands_initialize False [])\<rparr>, s)
      | Inl e \<Rightarrow> (empty_world parse, empty_server root_keys))"

lemma core_simp:
  "core parse =
     ((empty_world parse)\<lparr>w_commands := dap_commands_initialize (commands_initialize False []),
        w_handlers := add_handlers (default_handlers False) [],
        w_transmitters := [(''basic'', Some 0)], w_builders := [(''txt'', Some ())]\<rparr>,
      (empty_server root_keys)\<lparr>
        container_stores := [\<lparr>node_obj = \<lparr>vs_name = ''default'', vs_root_dir = ''/data'', vs_follow_sym_links = False,
           vs_container_list = []\<rparr>, node_reference = 1\<rparr>],
        def_stores_list := [\<lparr>node_obj = \<lparr>ds_name = ''default'', ds_list = []\<rparr>, node_reference = 1\<rparr>]\<rparr>)"
  by (simp add: core_def default_module_initialize_def empty_world_def empty_server_def root_keys_def new_volatile_def
      key_of_def get_value_def m_find_def add_transmitter_def find_transmitter_def add_info_builder_def
      csl_add_persistence_def dsl_add_persistence_def)

lemma find_del_commands: "m_find (del_commands ns l) n = (if n \<in> set ns then None else m_find l n)"
  by (induction ns arbitrary: l) (auto simp: del_commands_def del_command_def split: option.split)

lemma find_add_commands:
  assumes "m_ok l"
  shows "m_find (add_commands cs l) n = (case map_of (rev cs) n of Some k \<Rightarrow> Some k | None \<Rightarrow> m_find l n)"
  using assms
  by (induction cs arbitrary: l) (auto simp: add_commands_def add_command_def split: option.split)

lemma m_ok_add_commands [simp]: "m_ok l \<Longrightarrow> m_ok (add_commands cs l)"
  by (induction cs arbitrary: l) (auto simp: add_commands_def add_command_def)

lemma find_add_handlers:
  assumes "m_ok l"
  shows "m_find (add_handlers hs l) n =
    (case m_find l n of Some h \<Rightarrow> Some h | None \<Rightarrow> map_option Some (map_of hs n))"
  using assms
proof (induction hs arbitrary: l)
  case (Cons p hs)
  obtain k h where p: "p = (k, h)" by fastforce
  have "m_ok (snd (rsl_add_handler k (Some h) l))" by (rule rsl.inv_add [OF Cons.prems])
  from Cons.IH [OF this] show ?case
    by (simp add: add_handlers_def p rsl.look_add [OF Cons.prems] split: option.split)
qed (simp add: add_handlers_def split: option.split)

lemma find_remove_handlers:
  "m_find (remove_handlers ns l) n = (if n \<in> set ns then None else m_find l n)"
  by (induction ns arbitrary: l) (auto simp: remove_handlers_def rsl_remove_handler_def split: option.split)

text \<open>
  Loading and unloading the core and the commands takes back all registrations but four: the handler
  of the help, and the commands for errors, for service descriptions and for the deletion of all
  definitions stay registered when their code is gone.
\<close>

theorem unloading_leaves:
  "\<exists>ws. default_module_initialize dev junk (w\<lparr>w_handlers := []\<rparr>, s\<lparr>the_keys := root_keys\<rparr>) = Inr ws \<and>
    m_find (w_handlers (fst (default_module_terminate dev ws))) n = (if n = ''show.help'' then Some (Some (H_other 0)) else None) \<and>
    m_find (commands_terminate dev (dap_commands_terminate (dap_commands_initialize (commands_initialize dev [])))) n =
      (if n = ''showError'' then Some Show_error else if n = ''showServiceDescriptions'' then Some Show
       else if n = ''deleteDefinitions'' then Some Delete_definitions else None)"
proof -
  have v: "new_volatile junk (key_of root_keys) n =
      Inr \<lparr>vs_name = n, vs_root_dir = ''/data'', vs_follow_sym_links = junk, vs_container_list = []\<rparr>" for n
    by (simp add: new_volatile_def key_of_def root_keys_def get_value_def m_find_def)
  obtain w' s' where i: "default_module_initialize dev junk (w\<lparr>w_handlers := []\<rparr>, s\<lparr>the_keys := root_keys\<rparr>) = Inr (w', s')"
      "w_handlers w' = add_handlers (default_handlers dev) []"
    using v by (simp add: default_module_initialize_def)
  have h: "m_find (w_handlers (fst (default_module_terminate dev (w', s')))) n =
      (if n = ''show.help'' then Some (Some (H_other 0)) else None)"
    by (cases dev) (simp_all add: default_module_terminate_def i(2) find_remove_handlers find_add_handlers default_handlers_def)
  have "m_find (commands_terminate dev (dap_commands_terminate (dap_commands_initialize (commands_initialize dev [])))) n =
      (if n = ''showError'' then Some Show_error else if n = ''showServiceDescriptions'' then Some Show
       else if n = ''deleteDefinitions'' then Some Delete_definitions else None)"
    by (cases dev) (simp_all add: commands_terminate_def dap_commands_terminate_def dap_commands_initialize_def
        commands_initialize_def find_del_commands find_add_commands)
  with i(1) h show ?thesis by (intro exI [of _ "(w', s')"]) simp
qed

end
