(* ===== verification/RequestAnswers.thy ===== *)
theory RequestAnswers
  imports RequestProofs BesModules
begin

text \<open>
  Every request is answered: reading a command fails only for its syntax, no stage of a request calls a
  null pointer, and what is thrown becomes a status and a report (\<^verbatim>\<open>BESInterface.cc\<close>,
  \<^verbatim>\<open>BESExceptionManager.cc\<close>).
\<close>

section \<open>Reading fails only for the syntax\<close>

definition syntax_only :: "outcome \<Rightarrow> bool" where
  "syntax_only r = (case r of None \<Rightarrow> True | Some (Thrown (BESSyntaxUserError m)) \<Rightarrow> True | _ \<Rightarrow> False)"

lemma syntax_only_simps [simp]: "syntax_only None" "syntax_only (syntax_error m)"
  by (simp_all add: syntax_only_def)

lemma syntax_only_set_response [simp]: "syntax_only (snd (set_response rsl c))"
  by (simp add: set_response_def Let_def)

lemma syntax_only_container_children:
  "syntax_only (snd (container_children act name cp ch hc ha c))"
  by (induction act name cp ch hc ha c rule: container_children.induct) auto

lemma syntax_only_container_element [simp]: "syntax_only (snd (handle_container_element act node props c))"
  by (simp add: handle_container_element_def Let_def syntax_only_container_children)

lemma syntax_only_aggregate_element [simp]: "syntax_only (snd (handle_aggregate_element act props c))"
  by (simp add: handle_aggregate_element_def Let_def)

lemma syntax_only_define_children: "syntax_only (snd (snd (define_children act ch n c)))"
proof (induction act ch n c rule: define_children.induct)
  case (2 act node child_name child_value props rest n c)
  obtain c1 r1 where 1: "handle_container_element act node props c = (c1, r1)" by fastforce
  obtain c2 r2 where 2: "handle_aggregate_element act props c = (c2, r2)" by fastforce
  show ?case using "2.IH" 1 2 syntax_only_container_element [of act node props c] syntax_only_aggregate_element [of act props c]
    by auto
qed simp

lemma syntax_only_define: "syntax_only (snd (parse_define rsl node c))"
proof -
  have d: "define_children a ch n k = (n', k', r) \<Longrightarrow> syntax_only r" for a ch n k n' k' r
    using syntax_only_define_children [of a ch n k] by simp
  show ?thesis by (auto simp: parse_define_def Let_def simp del: get_node_info.simps split: prod.splits dest: d)
qed

lemma syntax_only_basic_get: "parse_basic_get name type props c = (c', r) \<Longrightarrow> syntax_only r"
  by (auto simp: parse_basic_get_def Let_def split: if_splits)

lemma syntax_only_ddx_children: "syntax_only (snd (ddx_children name p elems c))"
proof (induction "length (fst p)" arbitrary: p elems c rule: less_induct)
  case less
  obtain cnode cname cval cprops where p: "p = (cnode, cname, cval, cprops)" by (metis prod_cases4)
  show ?case
  proof (cases cnode)
    case Nil
    then show ?thesis by (subst p, subst ddx_children.simps) simp
  next
    case (Cons n rest)
    have "length (fst (get_next_child cnode (cname, cval, []))) < length (fst p)"
      using Cons p next_element_shorter [of rest] by (simp add: get_next_child_def le_imp_less_Suc)
    note IH = less [OF this]
    show ?thesis by (subst p, subst ddx_children.simps) (use IH in \<open>auto simp: Let_def\<close>)
  qed
qed

lemma syntax_only_dataddx: "syntax_only (snd (parse_get_dataddx rsl node c))"
proof -
  have d: "ddx_children n p e k = (k', r) \<Longrightarrow> syntax_only r" for n p e k k' r
    using syntax_only_ddx_children [of n p e k] by simp
  show ?thesis
    by (auto simp: parse_get_dataddx_def Let_def simp del: get_node_info.simps split: prod.splits
        dest: d syntax_only_basic_get)
qed

lemma syntax_only_simple:
  assumes "k \<noteq> Get"
  shows "syntax_only (snd (parse_simple dump rsl k node c))"
  using assms
  by (cases k)
    (auto simp: parse_set_context_def parse_set_container_def parse_show_def parse_catalog_def parse_show_error_def
      parse_delete_container_def parse_delete_containers_def parse_delete_definition_def parse_delete_definitions_def
      syntax_only_define syntax_only_dataddx Let_def simp del: get_node_info.simps split: prod.splits list.splits option.splits)

lemma syntax_only_parse:
  assumes "\<forall>t. find_command (''get.'' @ t) cmds \<noteq> Some Get"
  shows "syntax_only (snd (parse_request dump cmds rsl node c))"
proof (cases "cmd_kind c = Get")
  case True
  have "find_command (''get.'' @ t) cmds = Some k \<Longrightarrow> k \<noteq> Get" for t k using assms by auto
  with True show ?thesis
    by (auto simp: parse_request_def parse_get_def Let_def simp del: get_node_info.simps
        split: prod.splits option.splits dest: syntax_only_basic_get intro: syntax_only_simple)
next
  case False
  then show ?thesis by (simp add: parse_request_def syntax_only_simple)
qed


section \<open>Stages that keep a condition\<close>

text \<open>A stage keeps \<open>P\<close> and ends only in ways that satisfy \<open>Q\<close>.\<close>

definition stage_ok :: "(iface \<Rightarrow> bool) \<Rightarrow> (outcome \<Rightarrow> bool) \<Rightarrow> stage \<Rightarrow> bool" where
  "stage_ok P Q f = (\<forall>x. P x \<longrightarrow> P (fst (f x)) \<and> Q (snd (f x)))"

lemma stage_okI: "(\<And>x. P x \<Longrightarrow> P (fst (f x)) \<and> Q (snd (f x))) \<Longrightarrow> stage_ok P Q f"
  by (simp add: stage_ok_def)

lemma stage_okD: "stage_ok P Q f \<Longrightarrow> P x \<Longrightarrow> f x = (y, r) \<Longrightarrow> P y \<and> Q r"
  by (metis fst_conv snd_conv stage_ok_def)

lemma stage_ok_andthen:
  assumes "stage_ok P Q f" "stage_ok P Q g"
  shows "stage_ok P Q (andthen f g)"
proof (rule stage_okI)
  fix x assume x: "P x"
  obtain y r where f: "f x = (y, r)" by fastforce
  note y = stage_okD [OF assms(1) x f]
  obtain z q where g: "g y = (z, q)" by fastforce
  from stage_okD [OF assms(2) conjunct1 [OF y] g] y f g
  show "P (fst (andthen f g x)) \<and> Q (snd (andthen f g x))" by (simp add: andthen_def)
qed

text \<open>
  The conditions of a process that goes on: no null pointer is called and nothing calls itself for ever;
  the modules do the same and leave the configuration alone; the configuration names a builder of
  responses and is not the one that is called nice.
\<close>

definition harmless :: "outcome \<Rightarrow> bool" where
  "harmless r = (r \<noteq> Some Null_call \<and> r \<noteq> Some Endless)"

definition configured :: "world \<Rightarrow> keys \<Rightarrow> bool" where
  "configured w ks =
     ((case get_value ''BES.Info.Type'' [] ks of
         Inl e \<Rightarrow> False
       | Inr (v, found) \<Rightarrow> build_info (\<lambda>_ _. ()) (if found then Some v else None) (w_builders w) \<noteq> None) \<and>
      (case get_value ''BES.Container.Persistence'' [] ks of Inl e \<Rightarrow> True | Inr (v, found) \<Rightarrow> \<not> csl_isnice v) \<and>
      list_all (\<lambda>(n, k). k = Get \<longrightarrow> \<not> starts_with ''get.'' n) (w_commands w))"

definition modules_behave :: "world \<Rightarrow> bool" where
  "modules_behave w =
     ((\<forall>p \<in> set (w_init w). \<forall>d. harmless (snd (snd (p d)))) \<and> (\<forall>p \<in> set (w_end w). \<forall>d. harmless (snd (p d))) \<and>
      (\<forall>n f d. m_find (w_reporters w) n = Some (Some f) \<longrightarrow> harmless (snd (f d))) \<and>
      (\<forall>n a d. m_find (w_aggregators w) n = Some (Some a) \<longrightarrow> harmless (snd (a d))) \<and>
      (\<forall>n s d. harmless (snd (snd (w_execute w n s d))) \<and> the_keys (fst (w_execute w n s d)) = the_keys s) \<and>
      (\<forall>n d. harmless (snd (w_transmit w n d))) \<and> m_ok (w_reporters w))"

lemma harmless_simps [simp]:
  "harmless None" "harmless (Some (Thrown e))" "harmless (Some Bad_alloc)" "harmless (Some Other_exception)"
  by (simp_all add: harmless_def)

lemma syntax_only_harmless: "syntax_only r \<Longrightarrow> harmless r"
  by (auto simp: syntax_only_def harmless_def)

definition going :: "keys \<Rightarrow> iface \<Rightarrow> bool" where
  "going ks x = (cur_ok x \<and> the_keys (if_server x) = ks)"

lemma going_update [simp]:
  "going ks (x\<lparr>if_transmitter := t\<rparr>) = going ks x" "going ks (x\<lparr>if_out := out\<rparr>) = going ks x"
  "going ks (x\<lparr>if_log := l\<rparr>) = going ks x" "going ks (x\<lparr>if_released := rl\<rparr>) = going ks x"
  "going ks (set_dhi d x) = going ks x" "going ks (if_log_line u x) = going ks x"
  "going ks (log_verbose w u x) = going ks x"
  by (simp_all add: going_def)

lemma build_info_const:
  "build_info (\<lambda>_ _. i) k (l :: unit info_list) = map_option (\<lambda>_. i) (build_info (\<lambda>_ _. ()) k l)"
  by (simp add: build_info_def Let_def split: option.split)

lemma build_response_configured:
  assumes "configured w (the_keys s)"
  shows "build_response w s = Inr (Some (new_text_info False))"
proof (cases "get_value ''BES.Info.Type'' [] (the_keys s)")
  case (Inl e)
  then show ?thesis using assms by (simp add: configured_def)
next
  case (Inr p)
  obtain v found where p: "p = (v, found)" by fastforce
  have b: "build_info (\<lambda>_ _. ()) (if found then Some v else None) (w_builders w) \<noteq> None"
    using assms Inr p unfolding configured_def by simp
  have "build_response w s = Inr (build_info (\<lambda>_ _. new_text_info False) (if found then Some v else None) (w_builders w))"
    using Inr p by (simp add: build_response_def)
  with b show ?thesis by (subst (asm) build_info_const) auto
qed

lemma find_command_configured:
  assumes "configured w ks"
  shows "find_command (''get.'' @ t) (w_commands w) \<noteq> Some Get"
proof
  assume "find_command (''get.'' @ t) (w_commands w) = Some Get"
  then have "(''get.'' @ t, Get) \<in> set (w_commands w)" by (auto simp: find_command_def m_find_def dest: map_of_SomeD)
  moreover have "starts_with ''get.'' (''get.'' @ t)" by (rule starts_with_append)
  ultimately show False using assms by (auto simp: configured_def list_all_iff)
qed

text \<open>The handlers of the core.\<close>

lemma show_response_going:
  assumes "configured w (the_keys s)"
  shows "harmless (snd (snd (show_response w a n fill s d))) \<and> fst (show_response w a n fill s d) = s"
  by (auto simp: show_response_def build_response_configured [OF assms] Let_def end_response_def split: sum.splits)

lemma core_keys:
  "the_keys (fst (execute_set_context s d)) = the_keys s" "harmless (snd (snd (execute_set_context s d)))"
  "the_keys (fst (execute_set_container w s d)) = the_keys s" "harmless (snd (snd (execute_set_container w s d)))"
  "the_keys (fst (execute_define s d)) = the_keys s" "harmless (snd (snd (execute_define s d)))"
  "the_keys (fst (execute_del_container s d)) = the_keys s" "harmless (snd (snd (execute_del_container s d)))"
  "the_keys (fst (execute_del_containers s d)) = the_keys s" "harmless (snd (snd (execute_del_containers s d)))"
  "the_keys (fst (execute_del_def s d)) = the_keys s" "harmless (snd (snd (execute_del_def s d)))"
  "the_keys (fst (execute_del_defs s d)) = the_keys s" "harmless (snd (snd (execute_del_defs s d)))"
  "the_keys (fst (execute_show_error s d)) = the_keys s" "harmless (snd (snd (execute_show_error s d)))"
  by (simp_all add: execute_set_context_def execute_set_container_def execute_define_def execute_del_container_def
      execute_del_containers_def execute_del_def_def execute_del_defs_def execute_show_error_def
      put_container_store_def put_def_store_def Let_def split: option.splits sum.splits prod.splits)

lemma handler_going:
  assumes "configured w (the_keys s)" "modules_behave w" "handler_execute w h s d = (s', d', r)"
  shows "harmless r \<and> the_keys s' = the_keys s"
proof -
  have "harmless (snd (snd (handler_execute w h s d))) \<and> the_keys (fst (handler_execute w h s d)) = the_keys s"
    using show_response_going [OF assms(1)] assms(2)
    by (cases h) (simp_all add: core_keys execute_show_containers_def execute_show_context_def execute_show_definitions_def
        execute_show_services_def execute_show_status_def execute_show_process_def execute_show_config_def modules_behave_def)
  then show ?thesis using assms(3) by simp
qed

lemma info_transmit_going: "harmless (snd (info_transmit w s r))"
  by (induction w s r rule: info_transmit.induct) simp_all

lemma transmit_going: "modules_behave w \<Longrightarrow> harmless (snd (handler_transmit w h s d))"
  by (cases h) (simp_all add: modules_behave_def info_transmit_going)

section \<open>No stage ends the process\<close>

abbreviation goes_on :: "keys \<Rightarrow> stage \<Rightarrow> bool" where
  "goes_on ks \<equiv> stage_ok (going ks) harmless"

lemma goes_onI: "(\<And>x y r. going ks x \<Longrightarrow> f x = (y, r) \<Longrightarrow> going ks y \<and> harmless r) \<Longrightarrow> goes_on ks f"
  by (metis prod.collapse stage_okI)

lemma goes_on_before: "goes_on ks f \<Longrightarrow> (\<And>x. going ks x \<Longrightarrow> going ks (g x)) \<Longrightarrow> goes_on ks (\<lambda>x. f (g x))"
  by (simp add: stage_ok_def)

lemma init_loop_harmless:
  "\<forall>p \<in> set ps. \<forall>d. harmless (snd (snd (p d))) \<Longrightarrow> init_loop ps d = (b, d', r) \<Longrightarrow> harmless r"
proof (induction ps d arbitrary: b d' r rule: init_loop.induct)
  case (2 p ps d)
  obtain b1 d1 r1 where p: "p d = (b1, d1, r1)" by (metis prod_cases3)
  with 2 have "harmless r1" by (metis list.set_intros(1) snd_conv)
  with 2 p show ?case by (auto split: if_splits)
qed simp

lemma initialize_going: "modules_behave w \<Longrightarrow> goes_on ks (interface_initialize w)"
  by (rule goes_onI)
    (auto simp: interface_initialize_def base_initialize_def modules_behave_def Let_def split: if_splits prod.splits
      dest: init_loop_harmless)

lemma going_add_cmd: "going ks x \<Longrightarrow> going ks (x\<lparr>if_cmds := if_cmds x @ cs\<rparr>)"
  by (auto simp: going_def cur_ok_def split: option.splits)

lemma going_put_cmd: "going ks (x\<lparr>if_cmds := (if_cmds x)[i := c]\<rparr>) = going ks x"
  by (simp add: going_def cur_ok_def split: option.splits)

lemma build_command_going:
  assumes "configured w ks" "going ks x" "build_command w node b x = (b', y, r)"
  shows "going ks y \<and> harmless r"
proof (cases "find_command (xml_name node) (w_commands w)")
  case None
  then show ?thesis using assms(2,3) by (auto simp: build_command_def)
next
  case (Some k)
  let ?x = "x\<lparr>if_cmds := if_cmds x @ [new_command k (if_base x)]\<rparr>"
  obtain cmd q where p: "parse_request (w_dump w) (w_commands w) (w_find_handler w) node (new_command k (if_base x)) = (cmd, q)"
    by fastforce
  have "syntax_only q"
    using syntax_only_parse [of "w_commands w" "w_dump w" "w_find_handler w" node "new_command k (if_base x)"]
      find_command_configured [OF assms(1)] p by simp
  then have q: "harmless q" by (rule syntax_only_harmless)
  have "going ks (?x\<lparr>if_cmds := (if_cmds ?x)[length (if_cmds x) := cmd]\<rparr>)"
    by (subst going_put_cmd) (rule going_add_cmd [OF assms(2)])
  then show ?thesis using assms(3) Some p q going_add_cmd [OF assms(2)]
    by (auto simp: build_command_def Let_def split: if_splits)
qed

lemma build_loop_going: "configured w ks \<Longrightarrow> goes_on ks (build_loop w nodes b)"
proof (rule goes_onI)
  fix x y r assume "configured w ks" "going ks x" "build_loop w nodes b x = (y, r)"
  then show "going ks y \<and> harmless r"
  proof (induction w nodes b x rule: build_loop.induct)
    case (2 w node rest b x)
    obtain b1 x1 r1 where c: "build_command w node b x = (b1, x1, r1)" by (metis prod_cases3)
    from build_command_going [OF 2(3,4) c] 2 c show ?case by (auto split: if_splits)
  qed simp
qed

lemma build_going:
  assumes "configured w ks"
  shows "goes_on ks (build_data_request_plan w)"
proof -
  have d: "goes_on ks (build_document w)"
  proof (rule goes_onI)
    fix x y r assume x: "going ks x" "build_document w x = (y, r)"
    have "build_loop w n b (set_dhi d x) = (y, r) \<Longrightarrow> going ks y \<and> harmless r" for n b d
      using stage_okD [OF build_loop_going [OF assms], of "set_dhi d x"] x(1) by simp
    then show "going ks y \<and> harmless r" using x
      by (auto simp: build_document_def Let_def simp del: get_node_info.simps split: sum.splits option.splits prod.splits if_splits)
  qed
  have b: "goes_on ks (base_build w)" by (rule goes_onI) (auto simp: base_build_def Let_def split: if_splits)
  show ?thesis unfolding build_data_request_plan_def
    by (rule stage_okI) (use stage_ok_andthen [OF d b] in \<open>simp add: stage_ok_def\<close>)
qed

lemma not_nice: "configured w (the_keys s) \<Longrightarrow> nice_key s = Inr key \<Longrightarrow> \<not> csl_isnice key"
  by (auto simp: configured_def nice_key_def rbind_Inr_iff split: sum.splits)

lemma prep_define_loop_harmless:
  assumes "configured w (the_keys s)"
  shows "harmless (snd (prep_define_loop s ns c))"
proof (induction ns arbitrary: c)
  case (Cons n ns)
  then show ?case using not_nice [OF assms] by (auto split: sum.split option.split)
qed simp

lemma prep_harmless: "configured w (the_keys s) \<Longrightarrow> harmless (snd (prep_request s c))"
  by (simp add: prep_request_def prep_define_def prep_get_dataddx_def prep_get_def Let_def prep_define_loop_harmless
      split: kind.split option.split)

lemma prepare_going:
  assumes "configured w ks" "going ks x" "i < length (if_cmds x)" "prepare_command i x = (y, r)"
  shows "going ks y \<and> harmless r \<and> length (if_cmds y) = length (if_cmds x)"
proof -
  obtain c q where p: "prep_request (if_server x) (if_cmds x ! i) = (c, q)" by fastforce
  have "harmless q" using prep_harmless [of w "if_server x" "if_cmds x ! i"] assms(1,2) p by (simp add: going_def)
  then show ?thesis using assms p
    by (auto simp: prepare_command_def going_put_cmd Let_def split: if_splits) (simp add: going_def cur_ok_def)
qed

lemma transmit_stage_going:
  assumes "modules_behave w"
  shows "goes_on ks (transmit_data w)"
proof (rule goes_onI)
  fix x y r assume "going ks x" "transmit_data w x = (y, r)"
  moreover have "handler_transmit w h s d = (t, q) \<Longrightarrow> harmless q" for h s d t q
    using transmit_going [OF assms, of h s d] by simp
  ultimately show "going ks y \<and> harmless r"
    by (auto simp: transmit_data_def base_transmit_data_def Let_def split: if_splits option.splits prod.splits)
qed

lemma execute_handler_going:
  assumes "configured w ks" "modules_behave w"
  shows "goes_on ks (execute_handler w)"
proof (rule goes_onI)
  fix x y r assume x: "going ks x" "execute_handler w x = (y, r)"
  have c: "configured w (the_keys (if_server x))" using assms(1) x(1) by (simp add: going_def)
  show "going ks y \<and> harmless r"
  proof (cases "response_handler (cur_dhi x)")
    case None
    then show ?thesis using x by (auto simp: execute_handler_def)
  next
    case (Some h)
    obtain s d q where h: "handler_execute w h (if_server x) (cur_dhi x) = (s, d, q)" by (metis prod_cases3)
    with handler_going [OF c assms(2) h] x Some show ?thesis by (auto simp: execute_handler_def going_def)
  qed
qed

lemma aggregate_going: "modules_behave w \<Longrightarrow> goes_on ks (invoke_aggregation w)"
proof (rule goes_onI)
  fix x y r assume "modules_behave w" "going ks x" "invoke_aggregation w x = (y, r)"
  moreover have "find_aggregator w n = Some a \<Longrightarrow> a d = (d', q) \<Longrightarrow> modules_behave w \<Longrightarrow> harmless q" for n a d d' q
    by (auto simp: find_aggregator_def modules_behave_def split: option.splits) (metis snd_conv)
  ultimately show "going ks y \<and> harmless r"
    by (auto simp: invoke_aggregation_def Let_def split: if_splits option.splits prod.splits)
qed

lemma execute_command_going:
  assumes "configured w ks" "modules_behave w"
  shows "goes_on ks (execute_command w)"
  unfolding execute_command_def
  by (rule goes_on_before [where f = "andthen _ _"])
    (auto intro!: stage_ok_andthen execute_handler_going aggregate_going transmit_stage_going assms)

lemma execute_command_length: "length (if_cmds (fst (execute_command w x))) = length (if_cmds x)"
proof -
  have h: "length (if_cmds (fst (execute_handler w x))) = length (if_cmds x)" for x
    by (simp add: execute_handler_def split: option.split prod.split)
  have a: "length (if_cmds (fst (invoke_aggregation w x))) = length (if_cmds x)" for x
    by (simp add: invoke_aggregation_def Let_def split: option.split prod.split)
  have t: "if_cmds (fst (transmit_data w x)) = if_cmds x" for x
    using transmit_data_effect [of w x] by auto
  have f: "length (if_cmds (fst (andthen f g x))) = length (if_cmds x)"
    if "\<And>x. length (if_cmds (fst (f x))) = length (if_cmds x)" "\<And>x. length (if_cmds (fst (g x))) = length (if_cmds x)" for f g x
  proof -
    obtain y r where fx: "f x = (y, r)" by fastforce
    with that(1) [of x] that(2) [of y] show ?thesis by (simp add: andthen_def)
  qed
  show ?thesis unfolding execute_command_def
    by (subst f) (auto intro!: f simp: h a t)
qed

lemma execute_loop_going:
  assumes "configured w ks" "modules_behave w" "going ks x" "\<forall>i \<in> set is. i < length (if_cmds x)"
    "execute_loop w is x = (y, r)"
  shows "going ks y \<and> harmless r"
  using assms(3-)
proof (induction "is" arbitrary: x y r)
  case (Cons i "is")
  obtain x1 r1 where p: "prepare_command i x = (x1, r1)" by fastforce
  note k1 = prepare_going [OF assms(1) Cons.prems(1) _ p]
  show ?case
  proof (cases r1)
    case (Some f)
    then show ?thesis using k1 Cons.prems p by (auto simp: andthen_def)
  next
    case None
    obtain x2 r2 where e: "execute_command w x1 = (x2, r2)" by fastforce
    have k2: "going ks x2 \<and> harmless r2"
      using stage_okD [OF execute_command_going [OF assms(1,2)] _ e] k1 Cons.prems(2) by simp
    have l: "length (if_cmds x2) = length (if_cmds x)"
      using execute_command_length [of w x1] e k1 Cons.prems(2) by simp
    show ?thesis
    proof (cases r2)
      case (Some f)
      then show ?thesis using Cons.prems(3) p None e k2 by (auto simp: andthen_def)
    next
      case N: None
      have "execute_loop w is x2 = (y, r)" using Cons.prems(3) p None e N by (simp add: andthen_def)
      from Cons.IH [OF _ _ this] k2 l Cons.prems(2) show ?thesis by simp
    qed
  qed
qed simp

lemma stages_going:
  assumes "configured w ks" "modules_behave w"
  shows "goes_on ks (request_stages w)"
proof -
  have "goes_on ks (execute_data_request_plan w)"
  proof (rule goes_onI)
    fix x y r assume "going ks x" "execute_data_request_plan w x = (y, r)"
    then show "going ks y \<and> harmless r"
      using execute_loop_going [OF assms, of x "[0..<length (if_cmds x)]" y r] by (simp add: execute_data_request_plan_def)
  qed
  then have "goes_on ks (andthen (build_data_request_plan w) (execute_data_request_plan w))"
    by (rule stage_ok_andthen [OF build_going [OF assms(1)]])
  from stage_ok_andthen [OF initialize_going [OF assms(2)] goes_on_before [OF this]]
  show ?thesis unfolding request_stages_def by simp
qed

section \<open>The exception manager answers\<close>

text \<open>The text of the report of an error.\<close>

definition error_report :: "bes_error \<Rightarrow> string \<Rightarrow> string" where
  "error_report e admin =
     ''BESError'' @ [lf] @
     ''    Type: '' @ show_int (get_error_type e) @ [lf] @
     ''    Message: '' @ get_message e @ [lf] @
     ''    Administrator: '' @ admin @ [lf]"

definition reported :: "bes_error \<Rightarrow> string \<Rightarrow> text_info \<Rightarrow> bool" where
  "reported e admin info = (info_buffered info \<and> info_strm info = error_report e admin)"

lemma add_exception_report:
  "\<exists>i. add_exception (text_ops m) e admin (begin_response n (new_text_info False)) = Inr i \<and> reported e admin i \<and> info_tags i = []"
  by (simp add: add_exception_def text_ops_def text_begin_tag_def text_add_tag_def text_add_data_def text_end_tag_def
      pop_tag_def push_tag_def base_add_data_def begin_response_def new_text_info_def reported_def error_report_def Let_def)

lemma handle_exception_report:
  assumes "build_response w s = Inr (Some (new_text_info False))" "ehm_loop (w_ehm w) s e d = (0, e', d')"
  shows "\<exists>i. handle_exception w e s d = (d'\<lparr>error_info := Some i\<rparr>, Inr (get_error_type e')) \<and> reported e' (administrator s) i"
proof -
  obtain i where i: "add_exception (text_ops (w_mime w)) e' (administrator s)
      (begin_response (if action_name d' = [] then ''BES'' else action_name d') (new_text_info False)) = Inr i"
      "reported e' (administrator s) i" "info_tags i = []"
    using add_exception_report by blast
  then show ?thesis using assms
    by (intro exI [of _ "i\<lparr>info_response_started := False\<rparr>"])
      (simp add: handle_exception_def end_response_def reported_def Let_def)
qed

lemma handle_exception_status:
  assumes "build_response w s = Inr (Some (new_text_info False))"
  shows "\<exists>status. snd (handle_exception w e s d) = Inr status"
proof -
  obtain h e' d' where h: "ehm_loop (w_ehm w) s e d = (h, e', d')" using prod_cases3 by blast
  obtain i where i: "add_exception (text_ops (w_mime w)) e' (administrator s)
      (begin_response (if action_name d' = [] then ''BES'' else action_name d') (new_text_info False)) = Inr i"
      "info_tags i = []"
    using add_exception_report by blast
  then show ?thesis using assms h by (simp add: handle_exception_def end_response_def Let_def)
qed

definition status_given :: "keys \<Rightarrow> iface \<times> (failure + int) \<Rightarrow> bool" where
  "status_given ks p = (going ks (fst p) \<and> (\<exists>status. snd p = Inr status))"

lemma exception_manager_going: "configured w ks \<Longrightarrow> going ks x \<Longrightarrow> status_given ks (exception_manager w e x)"
  using handle_exception_status [OF build_response_configured, of w "if_server x" e "cur_dhi x"]
  by (auto simp: exception_manager_def status_given_def going_def split: prod.splits)

lemma caught_going: "configured w ks \<Longrightarrow> going ks x \<Longrightarrow> harmless (Some f) \<Longrightarrow> status_given ks (caught w f x)"
  by (cases f) (simp_all add: caught_def exception_manager_going harmless_def)

lemma report_loop_harmless:
  assumes "\<And>n f d. (n, Some f) \<in> set rs \<Longrightarrow> harmless (snd (f d))"
  shows "goes_on ks (report_loop rs)"
proof (rule goes_onI)
  fix x y r assume "going ks x" "report_loop rs x = (y, r)"
  then show "going ks y \<and> harmless r"
    using assms
  proof (induction rs arbitrary: x)
    case (Cons p rs)
    obtain n rep where p: "p = (n, rep)" by fastforce
    show ?case
    proof (cases rep)
      case None
      with Cons.prems p show ?thesis by (intro Cons.IH [of x]) auto
    next
      case (Some f)
      obtain d q where f: "f (cur_dhi x) = (d, q)" by fastforce
      with Cons.prems(3) [of n f "cur_dhi x"] Some p have q: "harmless q" by simp
      show ?thesis
      proof (cases q)
        case None
        with Cons.prems p Some f show ?thesis by (intro Cons.IH [of "set_dhi d x"]) auto
      next
        case (Some g)
        with Cons.prems p \<open>rep = Some f\<close> f q show ?thesis by auto
      qed
    qed
  qed simp
qed

lemma report_loop_length: "length (if_cmds (fst (report_loop rs x))) = length (if_cmds x)"
  by (induction rs arbitrary: x) (auto simp: Let_def split: option.split prod.split)

lemma report_going:
  assumes "modules_behave w" "going ks x" "\<forall>i \<in> set is. i < length (if_cmds x)" "report_commands w is x = (y, r)"
  shows "going ks y \<and> harmless r"
  using assms(2-)
proof (induction "is" arbitrary: x y r)
  case (Cons i "is")
  have m: "goes_on ks (report_loop (w_reporters w))"
  proof (rule report_loop_harmless)
    fix n f d assume "(n, Some f) \<in> set (w_reporters w)"
    then have "m_find (w_reporters w) n = Some (Some f)" using assms(1) by (simp add: modules_behave_def m_find_Some_iff)
    then show "harmless (snd (f d))" using assms(1) by (simp add: modules_behave_def)
  qed
  obtain x1 r1 where r: "report_loop (w_reporters w) (x\<lparr>if_cur := Some i\<rparr>) = (x1, r1)" by fastforce
  have g: "going ks (x\<lparr>if_cur := Some i\<rparr>)" using Cons.prems by (simp add: going_def cur_ok_def)
  note k = stage_okD [OF m g r]
  have l: "length (if_cmds x1) = length (if_cmds x)" using report_loop_length [of "w_reporters w" "x\<lparr>if_cur := Some i\<rparr>"] r by simp
  show ?case
  proof (cases r1)
    case None
    then have "report_commands w is x1 = (y, r)" using Cons.prems(3) r by (simp add: andthen_def)
    from Cons.IH [OF _ _ this] k l Cons.prems(2) show ?thesis by simp
  next
    case (Some f)
    then show ?thesis using Cons.prems(3) r k by (auto simp: andthen_def)
  qed
qed simp

lemma end_loop_going: "\<forall>p \<in> set ps. \<forall>d. harmless (snd (p d)) \<Longrightarrow> going ks x \<Longrightarrow> end_loop ps x = (y, r) \<Longrightarrow> going ks y \<and> harmless r"
proof (induction ps x rule: end_loop.induct)
  case (2 p ps x)
  obtain d q where p: "p (cur_dhi x) = (d, q)" by fastforce
  with 2(2) have "harmless q" by (metis list.set_intros(1) snd_conv)
  with 2 p show ?case by (auto simp: Let_def split: if_splits)
qed simp

lemma end_going: "modules_behave w \<Longrightarrow> goes_on ks (end_request w)"
proof (rule goes_onI)
  fix x y r assume "modules_behave w" "going ks x" "end_request w x = (y, r)"
  moreover obtain x1 q where e: "end_loop (w_end w) x = (x1, q)" by fastforce
  ultimately show "going ks y \<and> harmless r" using end_loop_going [of "w_end w" ks x x1 q]
    by (auto simp: end_request_def release_containers_def modules_behave_def Let_def split: if_splits)
qed

lemma logged_going:
  assumes "goes_on ks f" "going ks x"
  shows "going ks (fst (logged p u f x)) \<and> snd (logged p u f x) = None"
proof -
  obtain y r where f: "f x = (y, r)" by fastforce
  from stage_okD [OF assms f] show ?thesis using f
    by (cases r) (auto simp: logged_def harmless_def split: failure.splits)
qed

lemma log_status_going: "going ks x \<Longrightarrow> going ks (log_status w x)"
proof -
  have "\<forall>i \<in> set is. i < length (if_cmds x) \<Longrightarrow> going ks x \<Longrightarrow>
    going ks (fold (\<lambda>i x. let x = x\<lparr>if_cur := Some i\<rparr>
       in log_verbose w (request_tag x @ '' '' @ (if error_info (cur_dhi x) \<noteq> None then ''failed'' else ''completed'')) x) is x)" for "is"
  proof (induction "is" arbitrary: x)
    case (Cons i "is")
    then show ?case by (simp add: Let_def) (auto simp: going_def cur_ok_def intro!: Cons.IH)
  qed simp
  then show "going ks x \<Longrightarrow> going ks (log_status w x)" by (simp add: log_status_def)
qed

lemma print_error_going: "going ks x \<Longrightarrow> going ks (print_error x)"
  by (auto simp: print_error_def forget_error_def split: option.split)

lemma finish_going:
  assumes "configured w ks" "modules_behave w" "going ks x"
  shows "status_given ks (finish w status x)"
proof -
  have t: "status_given ks (transmit_error w status x)"
  proof (cases "error_info (cur_dhi x) = None")
    case True
    then show ?thesis using assms(3) by (simp add: transmit_error_def status_given_def)
  next
    case False
    obtain y r where y: "transmit_data w x = (y, r)" by fastforce
    note k = stage_okD [OF transmit_stage_going [OF assms(2)] assms(3) y]
    show ?thesis
    proof (cases r)
      case None
      then show ?thesis using y k False by (auto simp: transmit_error_def status_given_def forget_error_def)
    next
      case (Some f)
      then show ?thesis using y k False caught_going [OF assms(1)] by (auto simp: transmit_error_def)
    qed
  qed
  then obtain y st where y: "transmit_error w status x = (y, Inr st)" "going ks y"
    by (cases "transmit_error w status x") (auto simp: status_given_def)
  let ?l = "log_status w (print_error y)"
  have l: "going ks ?l" using y(2) by (intro log_status_going print_error_going)
  have r: "goes_on ks (report_request w)"
  proof (rule goes_onI)
    fix x y r assume "going ks x" "report_request w x = (y, r)"
    then show "going ks y \<and> harmless r"
      using report_going [OF assms(2), of ks x "[0..<length (if_cmds x)]" y r] by (simp add: report_request_def)
  qed
  obtain z where z: "logged ''Problem reporting request: '' ''Unknown problem reporting request'' (report_request w) ?l = (z, None)"
      "going ks z" using logged_going [OF r l] by (metis prod.collapse)
  obtain u where u: "logged ''Problem ending request: '' ''Unknown problem ending request'' (end_request w) z = (u, None)"
      "going ks u" using logged_going [OF end_going [OF assms(2)] z(2)] by (metis prod.collapse)
  show ?thesis using y z u by (simp add: finish_def andthen_def status_given_def)
qed


section \<open>The core\<close>

lemma set_m_set: "set (m_set k v m) \<subseteq> insert (k, v) (set m)"
  by (induction m rule: m_set.induct) auto

lemma all_add_commands: "list_all P cs \<Longrightarrow> list_all P l \<Longrightarrow> list_all P (add_commands cs l)"
proof (induction cs arbitrary: l)
  case (Cons p cs)
  obtain n k where p: "p = (n, k)" by fastforce
  have "list_all P (m_set n k l)" using Cons.prems set_m_set [of n k l] by (auto simp: list_all_iff p)
  with Cons show ?case by (simp add: add_commands_def add_command_def p)
qed (simp add: add_commands_def)

lemma core_no_sub_get: "list_all (\<lambda>(n, k). k = Get \<longrightarrow> \<not> starts_with ''get.'' n) (w_commands (fst (core p)))"
proof -
  have "w_commands (fst (core p)) = dap_commands_initialize (commands_initialize False [])"
    by (simp add: core_simp)
  then show ?thesis unfolding dap_commands_initialize_def commands_initialize_def
    by (simp only:) (intro all_add_commands, simp_all)
qed

lemma core_configured: "configured (fst (core p)) (the_keys (snd (core p)))"
  unfolding configured_def
  by (intro conjI core_no_sub_get)
    (simp_all add: core_simp empty_server_def root_keys_def get_value_def m_find_def build_info_def csl_isnice_def)

lemma core_behaves: "modules_behave (fst (core p))"
  by (simp add: core_simp modules_behave_def empty_world_def m_find_def)

section \<open>Every request is answered\<close>

text \<open>The interface as the request starts.\<close>

definition started :: "world \<Rightarrow> string \<Rightarrow> string \<Rightarrow> server \<Rightarrow> iface" where
  "started w from doc s =
     (let x = new_interface doc s in set_dhi (set_data ''pid'' (show_int (w_pid w)) (set_data ''from'' from (cur_dhi x))) x)"

lemma started_going: "going (the_keys s) (started w from doc s)"
  by (simp add: started_def new_interface_def going_def cur_ok_def set_dhi_def)

lemma execute_request_started:
  "execute_request w from (new_interface doc s) =
     (case request_stages w (started w from doc s) of
        (x, None) \<Rightarrow> finish w 0 (set_dhi ((cur_dhi x)\<lparr>executed := True\<rparr>) x)
      | (x, Some f) \<Rightarrow> caught w f x)"
  by (simp add: execute_request_def started_def Let_def split: prod.split option.split)

lemma execute_request_going:
  assumes "configured w (the_keys s)" "modules_behave w"
  shows "status_given (the_keys s) (execute_request w from (new_interface doc s))"
proof -
  obtain x r where x: "request_stages w (started w from doc s) = (x, r)" by fastforce
  from stage_okD [OF stages_going [OF assms] started_going x]
  show ?thesis using x finish_going [OF assms] caught_going [OF assms(1)]
    by (cases r) (auto simp: execute_request_started)
qed

text \<open>
  C4: No request ends the process: whatever the text of the document and whatever the state of the
  stores, executing it gives a status, and so does finishing it with an error. The configuration names
  a builder of responses and is not the one called nice, and the modules that are loaded do not crash
  either; neither of the two is a condition on the request.
\<close>

theorem requests_never_crash:
  assumes "configured w (the_keys s)" "modules_behave w"
  shows "\<exists>x status y status'. execute_request w from (new_interface doc s) = (x, Inr status) \<and>
    finish_with_error w status x = (y, Inr status')"
proof -
  obtain x status where x: "execute_request w from (new_interface doc s) = (x, Inr status)" "going (the_keys s) x"
    using execute_request_going [OF assms, of "from" doc]
    by (cases "execute_request w from (new_interface doc s)") (auto simp: status_given_def)
  have "status_given (the_keys s) (finish_with_error w status x)"
  proof (cases "error_info (cur_dhi x) = None")
    case True
    obtain y st where "exception_manager w (BESInternalError ''Finish_with_error called with no error object'') x = (y, Inr st)"
        "going (the_keys s) y"
      using exception_manager_going [OF assms(1) x(2)] by (metis prod.collapse status_given_def)
    then show ?thesis using True finish_going [OF assms] by (simp add: finish_with_error_def)
  next
    case False
    then show ?thesis using finish_going [OF assms x(2)] by (auto simp: finish_with_error_def)
  qed
  then show ?thesis using x(1) by (metis prod.collapse status_given_def)
qed

theorem requests_never_crash_witness:
  "\<exists>x status y status'.
    execute_request (fst (core (\<lambda>d. Inr [d]))) ''me'' (new_interface ''<request'' (snd (core (\<lambda>d. Inr [d])))) = (x, Inr status) \<and>
    finish_with_error (fst (core (\<lambda>d. Inr [d]))) status x = (y, Inr status')"
  by (rule requests_never_crash [OF core_configured core_behaves])

section \<open>Errors are reported\<close>

lemma log_status_out: "if_out (log_status w x) = if_out x"
proof -
  have "if_out (fold (\<lambda>i x. let x = x\<lparr>if_cur := Some i\<rparr>
       in log_verbose w (request_tag x @ '' '' @ (if error_info (cur_dhi x) \<noteq> None then ''failed'' else ''completed'')) x) is x)
     = if_out x" for "is"
    by (induction "is" arbitrary: x) (simp_all add: Let_def)
  then show ?thesis by (simp add: log_status_def)
qed

lemma report_loop_out: "if_out (fst (report_loop rs x)) = if_out x"
  by (induction rs arbitrary: x) (auto simp: Let_def split: option.split prod.split)

lemma report_commands_out: "if_out (fst (report_commands w is x)) = if_out x"
proof (induction "is" arbitrary: x)
  case (Cons i "is")
  obtain y r where "report_loop (w_reporters w) (x\<lparr>if_cur := Some i\<rparr>) = (y, r)" by fastforce
  with Cons report_loop_out [of "w_reporters w" "x\<lparr>if_cur := Some i\<rparr>"] show ?case by (simp add: andthen_def)
qed simp

lemma end_loop_out: "if_out (fst (end_loop ps x)) = if_out x"
  by (induction ps arbitrary: x) (auto simp: Let_def split: prod.split)

lemma end_request_out: "if_out (fst (end_request w x)) = if_out x"
  using end_loop_out [of "w_end w" x] by (auto simp: end_request_def release_containers_def Let_def split: prod.split)

lemma logged_out: "(\<And>x. if_out (fst (f x)) = if_out x) \<Longrightarrow> if_out (fst (logged p u f x)) = if_out x"
  by (auto simp: logged_def split: prod.split option.split failure.split) (metis fst_conv)+

lemma finish_out:
  assumes "transmit_error w status x = (y, Inr st)" "error_info (cur_dhi y) = None"
  shows "if_out (fst (finish w status x)) = if_out y"
proof -
  obtain z r where z: "logged ''Problem reporting request: '' ''Unknown problem reporting request'' (report_request w)
      (log_status w (print_error y)) = (z, r)" by fastforce
  have "if_out z = if_out y"
    using logged_out [of "report_request w" "''Problem reporting request: ''" "''Unknown problem reporting request''"
        "log_status w (print_error y)"] z assms(2)
    by (simp add: report_request_def report_commands_out log_status_out print_error_def)
  moreover obtain u q where u: "logged ''Problem ending request: '' ''Unknown problem ending request'' (end_request w) z = (u, q)"
    by fastforce
  moreover have "if_out u = if_out z"
    using logged_out [of "end_request w" "''Problem ending request: ''" "''Unknown problem ending request''" z] end_request_out u by simp
  ultimately show ?thesis using assms(1) z
    by (cases r) (simp_all add: finish_def andthen_def split: option.split)
qed

definition text_header :: "world \<Rightarrow> server \<Rightarrow> string" where
  "text_header w s = (if fst (get_context ''transmit_protocol'' (contexts s)) = ''HTTP'' then w_mime w else [])"

text \<open>What finishing a request with a report does.\<close>

lemma finish_reported:
  assumes "configured w ks" "modules_behave w" "going ks x"
    and "command_transmitter w (if_transmitter x) d = Some t"
  shows "\<exists>z. finish_with_error w st (set_dhi (d\<lparr>error_info := Some i\<rparr>) x) = (z, Inr st) \<and>
    if_out z = if_out x @ send_text w (if_server x) i"
proof -
  let ?y = "set_dhi (d\<lparr>error_info := Some i\<rparr>) x"
  have c: "cur_ok x" using assms(3) by (simp add: going_def)
  have d: "cur_dhi ?y = d\<lparr>error_info := Some i\<rparr>" using c by simp
  obtain u where u: "transmit_error w st ?y = (u, Inr st)" "error_info (cur_dhi u) = None"
      "if_out u = if_out x @ send_text w (if_server x) i"
  proof -
    obtain v where v: "transmit_data w ?y = (v, None)" "if_out v = if_out x @ send_text w (if_server x) i"
        "cur_dhi v = cur_dhi ?y" "if_cmds v = if_cmds ?y" "if_cur v = if_cur ?y"
      using transmit_data_effect [of w ?y] d assms(4) by (auto simp: command_output_def command_transmitter_def split: if_splits)
    have "cur_ok v" using v(4,5) c by (simp add: cur_ok_def split: option.splits)
    then show ?thesis using v d by (intro that [of "forget_error v"]) (simp_all add: transmit_error_def forget_error_def)
  qed
  have f: "finish_with_error w st ?y = finish w st ?y" using d by (simp add: finish_with_error_def)
  have "status_given ks (finish w st ?y)" using finish_going [OF assms(1,2)] assms(3) by simp
  moreover have "snd (finish w st ?y) = Inr st' \<Longrightarrow> st' = st" for st'
    using u(1) by (auto simp: finish_def split: prod.splits option.splits)
  ultimately have "snd (finish w st ?y) = Inr st" by (auto simp: status_given_def)
  moreover have "if_out (fst (finish w st ?y)) = if_out x @ send_text w (if_server x) i"
    using finish_out [OF u(1,2)] u(3) by simp
  ultimately show ?thesis using f by (metis prod.collapse)
qed

text \<open>
  C5: Error behaviour of a request: when a stage throws an error of the server, the exception callbacks of
  the modules see it first, in the order of their registration; they may change the error and the
  request. When one handles it, its result is the status, and finishing the request sends the report
  that it left. Otherwise the status is the code of the error as the callbacks left it; finishing the
  request then gives the same status and writes, after what was written before, the report with the
  code, the message and the administrator, with the protocol's header when the context asks for
  HTTP. The conditions: the server is configured and its modules behave, the callbacks do not throw
  themselves, and a transmitter is found for the request that the callbacks leave (without one, the
  finishing has an error of its own, which \<open>requests_never_crash\<close> covers).
\<close>

theorem error_answered:
  assumes "configured w (the_keys s)" "modules_behave w"
    and "request_stages w (started w from doc s) = (x, Some (Thrown e))"
    and "ehm_loop (w_ehm w) (if_server x) e (cur_dhi x) = (h, e', d')"
    and "command_transmitter w (if_transmitter x) d' = Some t"
  shows "\<exists>y. execute_request w from (new_interface doc s) = (y, Inr (if h \<noteq> 0 then h else get_error_type e')) \<and>
    if_out y = if_out x \<and>
    (if h = 0
     then \<exists>z. finish_with_error w (get_error_type e') y = (z, Inr (get_error_type e')) \<and>
       if_out z = if_out x @ text_header w (if_server x) @ error_report e' (administrator (if_server x))
     else \<forall>i. error_info d' = Some i \<longrightarrow>
       (\<exists>z. finish_with_error w h y = (z, Inr h) \<and> if_out z = if_out x @ send_text w (if_server x) i))"
proof -
  have g: "going (the_keys s) x" using stage_okD [OF stages_going [OF assms(1,2)] started_going assms(3)] by simp
  then have c: "configured w (the_keys (if_server x))" using assms(1) by (simp add: going_def)
  note fin = finish_reported [OF assms(1,2) g assms(5)]
  show ?thesis
  proof (cases "h = 0")
    case True
    then obtain i where i: "handle_exception w e (if_server x) (cur_dhi x) = (d'\<lparr>error_info := Some i\<rparr>, Inr (get_error_type e'))"
        "reported e' (administrator (if_server x)) i"
      using handle_exception_report [OF build_response_configured [OF c]] assms(4) by blast
    have "execute_request w from (new_interface doc s) = (set_dhi (d'\<lparr>error_info := Some i\<rparr>) x, Inr (get_error_type e'))"
      using assms(3) i(1) by (simp add: execute_request_started caught_def exception_manager_def)
    moreover have "send_text w (if_server x) i = text_header w (if_server x) @ error_report e' (administrator (if_server x))"
      using i(2) by (simp add: send_text_def text_header_def info_print_def reported_def Let_def)
    ultimately show ?thesis using True fin [of "get_error_type e'" i] by simp
  next
    case False
    then have "execute_request w from (new_interface doc s) = (set_dhi d' x, Inr h)"
      using assms(3,4) by (simp add: execute_request_started caught_def exception_manager_def handle_exception_def)
    moreover have "\<exists>z. finish_with_error w h (set_dhi d' x) = (z, Inr h) \<and> if_out z = if_out x @ send_text w (if_server x) i"
      if "error_info d' = Some i" for i
    proof -
      from that have "d'\<lparr>error_info := Some i\<rparr> = d'" by simp
      then show ?thesis using fin [of h i] by (simp only:)
    qed
    ultimately show ?thesis using False by auto
  qed
qed

text \<open>The answer to a document that cannot be parsed, with a callback that changes the error without handling it.\<close>

definition hides_details :: "server \<Rightarrow> bes_error \<Rightarrow> request \<Rightarrow> int \<times> bes_error \<times> request" where
  "hides_details s e d = (0, BESForbiddenError ''refused'', d)"

definition guarded_core :: world where
  "guarded_core = (fst (core (\<lambda>d. Inr [d])))\<lparr>w_ehm := [hides_details]\<rparr>"

lemma guarded_core_ok: "configured guarded_core (the_keys (snd (core (\<lambda>d. Inr [d]))))" "modules_behave guarded_core"
  using core_configured [of "\<lambda>d. Inr [d]"] core_behaves [of "\<lambda>d. Inr [d]"]
  by (simp_all add: guarded_core_def configured_def modules_behave_def cong: sum.case_cong prod.case_cong)

theorem error_answered_witness:
  "\<exists>y z. execute_request guarded_core ''me'' (new_interface ''<request'' (snd (core (\<lambda>d. Inr [d])))) = (y, Inr 4) \<and>
    finish_with_error guarded_core 4 y = (z, Inr 4) \<and>
    if_out z = ''BESError'' @ [lf] @ ''    Type: 4'' @ [lf] @ ''    Message: refused'' @ [lf] @
      ''    Administrator: support@opendap.org'' @ [lf]"
proof -
  let ?w = guarded_core and ?s = "snd (core (\<lambda>d. Inr [d]))"
  let ?e = "BESSyntaxUserError (''Problem parsing the request xml document:'' @ [lf] @ ''<request'')"
  obtain x where x: "request_stages ?w (started ?w ''me'' ''<request'' ?s) = (x, Some (Thrown ?e))"
      "if_out x = []" "if_transmitter x = Some 0" "data_at (cur_dhi x) ''return_command'' = []" "if_server x = ?s"
    by (simp add: guarded_core_def request_stages_def andthen_def interface_initialize_def base_initialize_def
        build_data_request_plan_def build_document_def started_def new_interface_def core_simp empty_world_def
        empty_server_def find_transmitter_def m_find_def if_log_line_def log_verbose_def cur_dhi_def set_dhi_def
        set_data_def new_request_def at_key_def)
  then have t: "command_transmitter ?w (if_transmitter x) (cur_dhi x) = Some 0" by (simp add: command_transmitter_def)
  have c: "ehm_loop (w_ehm ?w) (if_server x) ?e (cur_dhi x) = (0, BESForbiddenError ''refused'', cur_dhi x)"
    by (simp add: guarded_core_def hides_details_def)
  have "administrator ?s = ''support@opendap.org''"
    by (simp add: core_simp empty_server_def root_keys_def administrator_def get_value_def m_find_def)
  moreover have "text_header ?w ?s = []" by (simp add: text_header_def core_simp empty_server_def get_context_def m_find_def)
  moreover have "show_int 4 = ''4''" by code_simp
  moreover note error_answered [OF guarded_core_ok x(1) c t] x(2,5)
  ultimately show ?thesis by (simp only: error_report_def get_error_type.simps get_message.simps) auto
qed

end
