(* ===== verification/RequestStores.thy ===== *)
theory RequestStores
  imports RequestAnswers
begin

text \<open>
  The commands on containers and definitions, end to end: what a client reads back after it has set a
  container or made a definition.
\<close>

section \<open>Operations on a store of a list\<close>

lemma pl_find_name: "pl_find get_name n l = Some o' \<Longrightarrow> get_name o' = n"
  by (induction get_name n l rule: pl_find.induct) (auto split: if_splits)

lemma pl_find_put:
  "pl_find get_name n (pl_put get_name o' l) =
     (if n = get_name o' \<and> pl_find get_name n l \<noteq> None then Some o' else pl_find get_name n l)"
  by (induction l) auto

definition container_in :: "string \<Rightarrow> string \<Rightarrow> server \<Rightarrow> bes_container option" where
  "container_in st n s =
     (case csl_find_persistence vs_name st (container_stores s) of Some cs \<Rightarrow> vs_look_for n cs | None \<Rightarrow> None)"

lemma container_in_put:
  "container_in st n (put_container_store cs s) =
     (if st = vs_name cs \<and> csl_find_persistence vs_name st (container_stores s) \<noteq> None then vs_look_for n cs
      else container_in st n s)"
  by (auto simp: container_in_def put_container_store_def csl_find_persistence_def pl_find_put)

lemma vs_del_name [simp]: "vs_name (snd (vs_del_container n cs)) = vs_name cs"
  by (simp add: vs_del_container_def split: option.split)

lemma vs_look_del:
  "m_ok (vs_container_list cs) \<Longrightarrow>
    vs_look_for n (snd (vs_del_container k cs)) = (if n = k then None else vs_look_for n cs)"
  by (auto simp: vs_del_container_def vs_look_for_def split: option.split)

lemma vs_look_add:
  assumes "m_ok (vs_container_list cs)" "vs_add_container lstat stat k real type cs = Inr cs'"
  shows "vs_name cs' = vs_name cs \<and> vs_root_dir cs' = vs_root_dir cs \<and>
    vs_look_for n cs' = (if n = k then Some \<lparr>symbolic_name = k, real_name = vs_root_dir cs @ ''/'' @ real,
       container_type = type, constraint = [], attributes = []\<rparr> else vs_look_for n cs)"
  using vs_add_container_cases [OF assms(2)] assms(1) by (auto simp: vs_look_for_def)

section \<open>Setting a container\<close>

text \<open>What the stores hold after a container is set.\<close>

lemma set_container_looks:
  assumes "csl_find_persistence vs_name (data_at d ''store_name'') (container_stores s) = Some cs"
    and "m_ok (vs_container_list cs)" and "execute_set_container w s d = (s', d', r)"
  shows "(case r of
      None \<Rightarrow> container_in (data_at d ''store_name'') (data_at d ''symbolic_name'') s' =
          Some \<lparr>symbolic_name = data_at d ''symbolic_name'', real_name = vs_root_dir cs @ ''/'' @ data_at d ''real_name'',
                container_type = data_at d ''type'', constraint = [], attributes = []\<rparr> \<and>
        check_path (w_lstat w) (w_stat w) (data_at d ''real_name'') (vs_root_dir cs) (vs_follow_sym_links cs) = Inr ()
    | Some f \<Rightarrow> container_in (data_at d ''store_name'') (data_at d ''symbolic_name'') s' = None) \<and>
    (st \<noteq> data_at d ''store_name'' \<or> n \<noteq> data_at d ''symbolic_name'' \<longrightarrow> container_in st n s' = container_in st n s)"
proof -
  let ?st = "data_at d ''store_name''" and ?sym = "data_at d ''symbolic_name''"
  let ?cp = "snd (vs_del_container ?sym cs)"
  let ?add = "vs_add_container (w_lstat w) (w_stat w) ?sym (data_at d ''real_name'') (data_at d ''type'') ?cp"
  have name: "vs_name cs = ?st" using assms(1) pl_find_name [of vs_name] by (simp add: csl_find_persistence_def)
  have ok: "m_ok (vs_container_list ?cp)" using assms(2) by (auto simp: vs_del_container_def split: option.split)
  have root: "vs_root_dir ?cp = vs_root_dir cs \<and> vs_follow_sym_links ?cp = vs_follow_sym_links cs"
    by (simp add: vs_del_container_def split: option.split)
  have old: "container_in st n s = (if st = ?st then vs_look_for n cs else container_in st n s)" for st n
    using assms(1) by (simp add: container_in_def)
  have "(case r of
      None \<Rightarrow> container_in ?st ?sym s' =
          Some \<lparr>symbolic_name = ?sym, real_name = vs_root_dir cs @ ''/'' @ data_at d ''real_name'',
                container_type = data_at d ''type'', constraint = [], attributes = []\<rparr> \<and>
        check_path (w_lstat w) (w_stat w) (data_at d ''real_name'') (vs_root_dir cs) (vs_follow_sym_links cs) = Inr ()
    | Some f \<Rightarrow> container_in ?st ?sym s' = None)"
    using assms(1,3) vs_look_add [OF ok] vs_add_container_cases [of _ _ _ _ _ ?cp] root name
    by (cases ?add) (auto simp: execute_set_container_def Let_def container_in_put vs_look_del [OF assms(2)])
  moreover have "container_in st n s' = container_in st n s" if "st \<noteq> ?st \<or> n \<noteq> ?sym"
    using that assms(1,3) vs_look_add [OF ok] name old [of st n]
    by (cases ?add) (auto simp: execute_set_container_def Let_def container_in_put vs_look_del [OF assms(2)])
  ultimately show ?thesis by simp
qed

text \<open>
  C10: Setting a container replaces the container of that name in the named store: on success a look-up
  finds the real name below the root directory, with the type and no constraint, and access to the path was
  granted; on failure the old container is gone too. Every other container of every store, and all the
  rest of the server (the stores of definitions, the contexts, the services and the keys), stay as
  they are.
\<close>

theorem set_container_effect:
  assumes "csl_find_persistence vs_name (data_at d ''store_name'') (container_stores s) = Some cs"
    and "m_ok (vs_container_list cs)" and "execute_set_container w s d = (s', d', r)"
  shows "(case r of
      None \<Rightarrow> container_in (data_at d ''store_name'') (data_at d ''symbolic_name'') s' =
          Some \<lparr>symbolic_name = data_at d ''symbolic_name'', real_name = vs_root_dir cs @ ''/'' @ data_at d ''real_name'',
                container_type = data_at d ''type'', constraint = [], attributes = []\<rparr> \<and>
        check_path (w_lstat w) (w_stat w) (data_at d ''real_name'') (vs_root_dir cs) (vs_follow_sym_links cs) = Inr ()
    | Some f \<Rightarrow> container_in (data_at d ''store_name'') (data_at d ''symbolic_name'') s' = None) \<and>
    (st \<noteq> data_at d ''store_name'' \<or> n \<noteq> data_at d ''symbolic_name'' \<longrightarrow> container_in st n s' = container_in st n s) \<and>
    s'\<lparr>container_stores := container_stores s\<rparr> = s"
proof -
  have "s'\<lparr>container_stores := container_stores s\<rparr> = s"
    using assms(1,3) by (auto simp: execute_set_container_def put_container_store_def Let_def split: sum.splits)
  then show ?thesis using set_container_looks [OF assms] by simp
qed

text \<open>Two requests that set a container, in the default store of the core.\<close>

definition demo_set :: "string \<Rightarrow> string \<Rightarrow> request" where
  "demo_set nm real = new_request\<lparr>dhi_data := [(''real_name'', real), (''store_name'', ''default''), (''symbolic_name'', nm),
     (''type'', ''nc'')]\<rparr>"

definition demo_container :: "string \<Rightarrow> string \<Rightarrow> bes_container" where
  "demo_container nm real =
     \<lparr>symbolic_name = nm, real_name = ''/data/'' @ real, container_type = ''nc'', constraint = [], attributes = []\<rparr>"

abbreviation demo_core :: "world \<times> server" where
  "demo_core \<equiv> core (\<lambda>d. Inr [d])"

definition demo_server :: server where
  "demo_server = fst (execute_set_container (fst demo_core)
     (fst (execute_set_container (fst demo_core) (snd demo_core) (demo_set ''c'' ''a.nc''))) (demo_set ''e'' ''b.nc''))"

lemma demo_data [simp]:
  "data_at (demo_set nm real) ''store_name'' = ''default''" "data_at (demo_set nm real) ''symbolic_name'' = nm"
  "data_at (demo_set nm real) ''real_name'' = real" "data_at (demo_set nm real) ''type'' = ''nc''"
  by (simp_all add: demo_set_def at_key_def m_find_def)

lemma demo_server:
  "container_stores demo_server =
     [\<lparr>node_obj = \<lparr>vs_name = ''default'', vs_root_dir = ''/data'', vs_follow_sym_links = False,
        vs_container_list = [(''c'', demo_container ''c'' ''a.nc''), (''e'', demo_container ''e'' ''b.nc'')]\<rparr>, node_reference = 1\<rparr>]"
  "def_stores_list demo_server = [\<lparr>node_obj = \<lparr>ds_name = ''default'', ds_list = []\<rparr>, node_reference = 1\<rparr>]"
  by code_simp+

lemma demo_store: "csl_find_persistence vs_name ''default'' (container_stores (snd (core p))) =
    Some \<lparr>vs_name = ''default'', vs_root_dir = ''/data'', vs_follow_sym_links = False, vs_container_list = []\<rparr>"
  by (simp add: core_simp csl_find_persistence_def)

lemma demo_set_ok: "snd (snd (execute_set_container (fst demo_core) (snd demo_core) (demo_set ''c'' ''a.nc''))) = None"
  by code_simp

theorem set_container_effect_witness:
  "\<exists>s' d'. execute_set_container (fst demo_core) (snd demo_core) (demo_set ''c'' ''a.nc'') = (s', d', None) \<and>
    container_in ''default'' ''c'' s' = Some (demo_container ''c'' ''a.nc'') \<and>
    contexts s' = contexts (snd demo_core) \<and> def_stores_list s' = def_stores_list (snd demo_core)"
proof -
  obtain s' d' where e: "execute_set_container (fst demo_core) (snd demo_core) (demo_set ''c'' ''a.nc'') = (s', d', None)"
    using demo_set_ok by (metis prod.collapse)
  have u: "u = t \<Longrightarrow> contexts u = contexts t \<and> def_stores_list u = def_stores_list t" for u t :: server by simp
  from set_container_effect [OF _ _ e, of "\<lparr>vs_name = ''default'', vs_root_dir = ''/data'', vs_follow_sym_links = False,
      vs_container_list = []\<rparr>"] demo_store
  have "container_in ''default'' ''c'' s' = Some (demo_container ''c'' ''a.nc'')"
      "s'\<lparr>container_stores := container_stores (snd demo_core)\<rparr> = snd demo_core"
    by (simp_all add: demo_container_def)
  with e u [of "s'\<lparr>container_stores := container_stores (snd demo_core)\<rparr>"] show ?thesis by auto
qed

section \<open>Making a definition and using it\<close>

definition fresh_request :: "request \<Rightarrow> bool" where
  "fresh_request d = (\<forall>a \<in> set (containers d). a < length (containers d))"

lemma request_containers_push:
  assumes "fresh_request d"
  shows "fresh_request (push_container c d) \<and> request_containers (push_container c d) = request_containers d @ [c]"
  using assms by (auto simp: fresh_request_def push_container_def request_containers_def)

lemma request_containers_fold:
  "fresh_request d \<Longrightarrow> fresh_request (fold push_container cs d) \<and>
    request_containers (fold push_container cs d) = request_containers d @ cs"
proof (induction cs arbitrary: d)
  case (Cons c cs)
  from Cons.IH [of "push_container c d"] request_containers_push [OF Cons.prems, of c] show ?case by simp
qed simp

lemma push_container_data [simp]: "dhi_data (fold push_container cs d) = dhi_data d"
  by (induction cs arbitrary: d) (simp_all add: push_container_def)

text \<open>
  What a define command says of a container, from the lists that its parsing filled: the constraint written
  for the container, the default constraint when there is none or it is empty, and the attributes
  written for the container. The names and the type come from the store.
\<close>

definition said_constraint :: "command \<Rightarrow> string \<Rightarrow> string" where
  "said_constraint c n =
     (case m_find (def_constraints c) n of
        Some (ch # u) \<Rightarrow> ch # u
      | _ \<Rightarrow> def_default_constraint c)"

definition said_attributes :: "command \<Rightarrow> string \<Rightarrow> string" where
  "said_attributes c n = (case m_find (def_attributes c) n of Some u \<Rightarrow> u | None \<Rightarrow> [])"

definition found_as :: "server \<Rightarrow> command \<Rightarrow> string \<Rightarrow> bes_container \<Rightarrow> bool" where
  "found_as s c n x =
     (\<exists>cont. find_for_define (at_key (def_stores c) n) n s = Inr (Some cont) \<and>
        symbolic_name x = symbolic_name cont \<and> real_name x = real_name cont \<and> container_type x = container_type cont \<and>
        constraint x = said_constraint c n \<and> attributes x = said_attributes c n)"

lemma found_as_defined_as:
  "found_as s c n x \<longleftrightarrow>
     (case find_for_define (at_key (def_stores c) n) n s of Inr (Some cont) \<Rightarrow> x = defined_as c n cont | _ \<Rightarrow> False)"
  by (auto simp: found_as_def defined_as_def said_constraint_def said_attributes_def at_key_def Let_def
      intro: bes_container.equality split: sum.split option.split list.split)

lemma defined_as_dhi [simp]: "defined_as (c\<lparr>cmd_dhi := d\<rparr>) = defined_as c"
  by (simp add: defined_as_def fun_eq_iff Let_def)

lemma prep_define_containers:
  assumes "prep_define_loop s ns c = (c', None)"
  shows "\<exists>cs. c' = c\<lparr>cmd_dhi := fold push_container cs (cmd_dhi c)\<rparr> \<and> list_all2 (found_as s c) ns cs"
  using assms
proof (induction ns arbitrary: c)
  case (Cons n ns)
  obtain cont where f: "find_for_define (at_key (def_stores c) n) n s = Inr (Some cont)"
      "prep_define_loop s ns (c\<lparr>cmd_dhi := push_container (defined_as c n cont) (cmd_dhi c)\<rparr>) = (c', None)"
    using Cons.prems by (auto split: sum.splits option.splits if_splits)
  from Cons.IH [OF f(2)] obtain cs where cs: "c' = c\<lparr>cmd_dhi := fold push_container (defined_as c n cont # cs) (cmd_dhi c)\<rparr>"
      "list_all2 (found_as s (c\<lparr>cmd_dhi := push_container (defined_as c n cont) (cmd_dhi c)\<rparr>)) ns cs"
    by auto
  have "found_as s (c\<lparr>cmd_dhi := push_container (defined_as c n cont) (cmd_dhi c)\<rparr>) = found_as s c"
    by (simp add: found_as_defined_as fun_eq_iff split: sum.split option.split)
  moreover have "found_as s c n (defined_as c n cont)" using f(1) by (simp add: found_as_defined_as)
  ultimately show ?case using cs by (intro exI [of _ "defined_as c n cont # cs"]) auto
qed (auto intro: exI [of _ "[]"])

definition leaves_definitions :: "handler \<Rightarrow> bool" where
  "leaves_definitions h = (h \<in> {H_set_container, H_del_container, H_del_containers, H_set_context})"

lemma leaves_definitions_step:
  "leaves_definitions h \<Longrightarrow> def_stores_list (fst (handler_execute w h s d)) = def_stores_list s"
  by (auto simp: leaves_definitions_def execute_set_container_def execute_del_container_def execute_del_containers_def
      execute_set_context_def put_container_store_def Let_def split: option.split sum.split prod.split)

definition later :: "world \<Rightarrow> (handler \<times> request) list \<Rightarrow> server \<Rightarrow> server" where
  "later w hs s = fold (\<lambda>(h, d) s. fst (handler_execute w h s d)) hs s"

lemma later_definitions:
  "list_all (\<lambda>(h, d). leaves_definitions h) hs \<Longrightarrow> def_stores_list (later w hs s) = def_stores_list s"
  by (induction hs arbitrary: s) (auto simp: later_def leaves_definitions_step)

lemma del_definition_ok: "m_ok l \<Longrightarrow> m_ok (snd (del_definition n l)) \<and> def_look_for n (snd (del_definition n l)) = None"
  by (auto simp: del_definition_def def_look_for_def split: option.split)

text \<open>
  C6: A definition is used as it was made: a get of the name in the same store has, in the order of the
  define command, the containers that the define found, each with its names and type from the store, the
  constraint that the command wrote for it (the default constraint when it wrote none or an empty one)
  and the attributes that the command wrote for it, and the aggregation of the command, whatever
  containers are set or deleted and whatever context is set in between.
\<close>

theorem define_then_get:
  assumes "prep_define s c = (c', None)" "containers (cmd_dhi c) = []"
    and "dsl_find_persistence ds_name (or_volatile (data_at (cmd_dhi c) ''store_name'')) (def_stores_list s) = Some ds"
    and "m_ok (ds_list ds)" "execute_define s (cmd_dhi c') = (s', d', r)"
    and "list_all (\<lambda>(h, d). leaves_definitions h) hs"
    and "get_definition g = data_at (cmd_dhi c) ''def_name''" "get_space g = or_volatile (data_at (cmd_dhi c) ''store_name'')"
    and "containers (cmd_dhi g) = []"
  shows "r = None \<and> (\<exists>g'. prep_get (later w hs s') g = (g', None) \<and>
      list_all2 (found_as s c) (def_names c) (request_containers (cmd_dhi g')) \<and>
      data_at (cmd_dhi g') ''aggregation_command'' = data_at (cmd_dhi c) ''aggregation_command'' \<and>
      data_at (cmd_dhi g') ''aggregation_handler'' = data_at (cmd_dhi c) ''aggregation_handler'')"
proof -
  let ?st = "or_volatile (data_at (cmd_dhi c) ''store_name'')" and ?n = "data_at (cmd_dhi c) ''def_name''"
  obtain cs where cs: "c' = c\<lparr>cmd_dhi := fold push_container cs (cmd_dhi c)\<rparr>" "list_all2 (found_as s c) (def_names c) cs"
    using prep_define_containers assms(1) unfolding prep_define_def by blast
  have "fresh_request (cmd_dhi c)" using assms(2) by (simp add: fresh_request_def)
  then have k: "request_containers (cmd_dhi c') = cs"
    using request_containers_fold [of "cmd_dhi c" cs] assms(2) cs(1) by (simp add: request_containers_def)
  let ?dd = "\<lparr>def_containers = cs, agg_cmd = data_at (cmd_dhi c) ''aggregation_command'',
     agg_handler = data_at (cmd_dhi c) ''aggregation_handler''\<rparr>"
  let ?l = "snd (add_definition ?n (Some ?dd) (snd (del_definition ?n (ds_list ds))))"
  have name: "ds_name ds = ?st" using assms(3) pl_find_name [of ds_name] by (simp add: dsl_find_persistence_def)
  have e: "r = None" "s' = put_def_store (ds\<lparr>ds_list := ?l\<rparr>) s"
    using assms(3,5) cs(1) k by (auto simp: execute_define_def Let_def request_containers_def set_data_def)
  have "?st \<noteq> []" by (simp add: or_volatile_def)
  moreover have "def_look_for ?n ?l = Some ?dd"
    using del_definition_ok [OF assms(4)] defs.look_add [where s = "snd (del_definition ?n (ds_list ds))" and n = ?n and h = ?dd and k = ?n] by simp
  moreover have "pl_find ds_name ?st (def_stores_list (later w hs s')) = Some (ds\<lparr>ds_list := ?l\<rparr>)"
    using later_definitions [OF assms(6)] e(2) assms(3) name
    by (simp add: put_def_store_def pl_find_put dsl_find_persistence_def)
  ultimately have f: "find_definition (get_space g) (get_definition g) (later w hs s') = Some ?dd"
    using assms(7,8) by (simp add: find_definition_def dsl_find_persistence_def)
  have "fresh_request (cmd_dhi g)" using assms(9) by (simp add: fresh_request_def)
  then have "request_containers (fold push_container cs (cmd_dhi g)) = cs"
    using request_containers_fold [of "cmd_dhi g" cs] assms(9) by (simp add: request_containers_def)
  then show ?thesis using e(1) f cs(2)
    by (simp add: prep_get_def with_data_def request_containers_def at_key_def)
qed

text \<open>
  A definition of both containers: the first with its own constraint and attributes, the second with the default
  constraint; and a get of it after all containers of the store are deleted.
\<close>

definition demo_define :: command where
  "demo_define = (new_command Define new_request)\<lparr>
     cmd_dhi := new_request\<lparr>dhi_data := [(''def_name'', ''d''), (''store_name'', [])]\<rparr>,
     def_names := [''c'', ''e''], def_stores := [(''c'', ''default''), (''e'', ''default'')],
     def_default_constraint := ''v'', def_constraints := [(''c'', ''u[0:1:3]'')], def_attributes := [(''c'', ''u.units'')]\<rparr>"

definition demo_get :: command where
  "demo_get = (new_command Get new_request)\<lparr>get_definition := ''d'', get_space := ''default''\<rparr>"

definition demo_delete :: request where
  "demo_delete = new_request\<lparr>dhi_data := [(''store_name'', ''default'')]\<rparr>"

lemma demo_found:
  "find_for_define ''default'' ''c'' demo_server = Inr (Some (demo_container ''c'' ''a.nc''))"
  "find_for_define ''default'' ''e'' demo_server = Inr (Some (demo_container ''e'' ''b.nc''))"
  by (simp_all add: find_for_define_def demo_server csl_find_persistence_def vs_look_for_def m_find_def)

lemma demo_define_fields:
  "data_at (cmd_dhi demo_define) ''store_name'' = []" "data_at (cmd_dhi demo_define) ''def_name'' = ''d''"
  "containers (cmd_dhi demo_define) = []" "def_names demo_define = [''c'', ''e'']"
  "at_key (def_stores demo_define) ''c'' = ''default''" "at_key (def_stores demo_define) ''e'' = ''default''"
  "said_constraint demo_define ''c'' = ''u[0:1:3]''" "said_constraint demo_define ''e'' = ''v''"
  "said_attributes demo_define ''c'' = ''u.units''" "said_attributes demo_define ''e'' = []"
  by (simp_all add: demo_define_def at_key_def m_find_def new_request_def said_constraint_def said_attributes_def)

theorem define_then_get_witness:
  "\<exists>g'. prep_get (later (fst demo_core) [(H_del_containers, demo_delete)]
      (fst (execute_define demo_server (cmd_dhi (fst (prep_define demo_server demo_define)))))) demo_get = (g', None) \<and>
    request_containers (cmd_dhi g') =
      [demo_container ''c'' ''a.nc''\<lparr>constraint := ''u[0:1:3]'', attributes := ''u.units''\<rparr>,
       demo_container ''e'' ''b.nc''\<lparr>constraint := ''v''\<rparr>]"
proof -
  let ?c = "demo_define" and ?s = demo_server
  obtain c' where c: "prep_define ?s ?c = (c', None)"
    using demo_found demo_define_fields by (auto simp: prep_define_def)
  obtain s' d' r where e: "execute_define ?s (cmd_dhi c') = (s', d', r)" by (metis prod_cases3)
  have g: "get_definition demo_get = ''d''" "get_space demo_get = ''default''" "containers (cmd_dhi demo_get) = []"
    by (simp_all add: demo_get_def new_command_def new_request_def make_copy_def)
  from define_then_get [OF c demo_define_fields(3) _ _ e, where hs = "[(H_del_containers, demo_delete)]" and g = demo_get
      and w = "fst demo_core" and ds = "\<lparr>ds_name = ''default'', ds_list = []\<rparr>"]
  obtain g' where "prep_get (later (fst demo_core) [(H_del_containers, demo_delete)] s') demo_get = (g', None)"
      "list_all2 (found_as ?s ?c) [''c'', ''e''] (request_containers (cmd_dhi g'))"
    using demo_define_fields demo_server g by (auto simp: or_volatile_def dsl_find_persistence_def leaves_definitions_def)
  moreover have "found_as ?s ?c ''c'' x \<longleftrightarrow> x = demo_container ''c'' ''a.nc''\<lparr>constraint := ''u[0:1:3]'', attributes := ''u.units''\<rparr>"
      "found_as ?s ?c ''e'' x \<longleftrightarrow> x = demo_container ''e'' ''b.nc''\<lparr>constraint := ''v''\<rparr>" for x
    by (auto simp: found_as_def demo_define_fields demo_found demo_container_def intro: bes_container.equality)
  ultimately show ?thesis using c e by (auto simp: list_all2_Cons1)
qed

section \<open>Errors on request\<close>

lemma extract_show_int: "extract_num 10 (show_int z) = Some (z < 0, nat \<bar>z\<bar>)"
proof (cases "z < 0")
  case False
  then show ?thesis
    using extract_num_digits [OF show_base_nonempty show_base_digits, of 10 "[]" "nat z"]
    by (simp add: show_int_def digits_value_show_base)
next
  case True
  have t: "takeWhile (is_digit_in 10) (show_base 10 n) = show_base 10 n" for n
    using show_base_digits [of 10 n] by (simp add: takeWhile_eq_all_conv)
  have "skip_ws (show_int z) = show_int z" using True by (simp add: show_int_def skip_ws_def is_space_def)
  then show ?thesis using True
    by (simp add: show_int_def extract_num_def split_sign_def strip_0x_def t digits_value_show_base)
qed

lemma read_show_int: "int (read_uint (show_int z)) = (if \<bar>z\<bar> < 2 ^ 32 then z mod 2 ^ 32 else 2 ^ 32 - 1)"
proof -
  have r: "read_uint (show_int z) =
      (if 2 ^ 32 \<le> nat \<bar>z\<bar> then 2 ^ 32 - 1 else if z < 0 then (2 ^ 32 - nat \<bar>z\<bar>) mod 2 ^ 32 else nat \<bar>z\<bar>)"
    by (simp add: read_uint_def extract_show_int)
  consider "2 ^ 32 \<le> \<bar>z\<bar>" | "\<bar>z\<bar> < 2 ^ 32" "0 \<le> z" | "\<bar>z\<bar> < 2 ^ 32" "z < 0" by linarith
  then show ?thesis
  proof cases
    case 3
    then have "(2 ^ 32 - nat \<bar>z\<bar>) mod 2 ^ 32 = 2 ^ 32 - nat \<bar>z\<bar>" by simp
    moreover have "z mod 2 ^ 32 = (z + 2 ^ 32) mod 2 ^ 32" by simp
    moreover have "(z + 2 ^ 32) mod 2 ^ 32 = z + 2 ^ 32" using 3 by (intro mod_pos_pos_trivial) auto
    ultimately show ?thesis using 3 by (auto simp: r)
  qed (auto simp: r)
qed

text \<open>
  C40: The error that a client asks for: a number written in decimal gives the error with this code
  if it is one of the five codes, and a syntax error otherwise. It is read as an unsigned integer of 32
  bits: a negative number counts modulo two to the 32, so that some of them also name an error.
\<close>

theorem show_error_codes:
  "\<exists>e. execute_show_error s (set_data ''error_type_num'' (show_int z) d) =
       (s, set_data ''error_type_num'' (show_int z) d, Some (Thrown e)) \<and>
     get_error_type e = (let u = (if \<bar>z\<bar> < 2 ^ 32 then z mod 2 ^ 32 else 2 ^ 32 - 1) in if 1 \<le> u \<and> u \<le> 5 then u else 3)"
proof -
  let ?n = "read_uint (show_int z)"
  have ne: "show_int z \<noteq> []" by (simp add: show_int_def)
  have a: "data_at (set_data ''error_type_num'' (show_int z) d) ''error_type_num'' = show_int z"
    by (simp add: set_data_def at_key_def m_find_set)
  have u: "(if \<bar>z\<bar> < 2 ^ 32 then z mod 2 ^ 32 else 2 ^ 32 - 1) = int ?n" by (rule read_show_int [symmetric])
  show ?thesis unfolding u by (auto simp: execute_show_error_def a ne Let_def)
qed

end
