(* ===== verification/CmdTranslation.thy ===== *)
theory CmdTranslation
  imports BesTokenizer BesXml
begin

text \<open>
  The command line client's translation of the command language into a request document,
  \<^verbatim>\<open>bes/cmdln/CmdTranslation.cc\<close>. The text writer of libxml2 is modelled by the elements that are
  written with it: every translator reads its command to the end before it starts an element, so that a
  command that is refused writes nothing. The flag that a show command was seen is left out.
\<close>

section \<open>Reading tokens\<close>

type_synonym 'a reading = "tokenizer \<Rightarrow> ('a \<times> tokenizer) bes_result"

definition refuse :: "string \<Rightarrow> 'a reading" where
  "refuse s t = Inl (tk_parse_error t s)"

definition next_quoted :: "string reading" where
  "next_quoted t = rbind (get_next_token t) (\<lambda>(q, t). rbind (remove_quotes t q) (\<lambda>s. Inr (s, t)))"

definition remaining :: "tokenizer \<Rightarrow> nat" where
  "remaining t = nat (tk_number t - 1 - tk_counter t)"

text \<open>The tokens stay, and the cursor does not go back.\<close>

definition ahead :: "tokenizer \<Rightarrow> tokenizer \<Rightarrow> bool" where
  "ahead t t' = (tk_tokens t' = tk_tokens t \<and> tk_number t' = tk_number t \<and> tk_counter t \<le> tk_counter t')"

lemma next_token_ahead: "get_next_token t = Inr (x, t') \<Longrightarrow> ahead t t' \<and> remaining t' < remaining t"
  by (auto simp: get_next_token_def ahead_def remaining_def split: if_splits)

lemma next_quoted_ahead: "next_quoted t = Inr (x, t') \<Longrightarrow> ahead t t' \<and> remaining t' < remaining t"
  by (auto simp: next_quoted_def rbind_Inr_iff dest!: next_token_ahead)

lemma ahead_refl [simp]: "ahead t t"
  by (simp add: ahead_def)

lemma ahead_trans [trans]: "ahead t u \<Longrightarrow> ahead u v \<Longrightarrow> ahead t v"
  by (simp add: ahead_def)

lemma ahead_remaining: "ahead t t' \<Longrightarrow> remaining t' \<le> remaining t"
  by (auto simp: ahead_def remaining_def intro: nat_mono)

section \<open>The commands\<close>

definition toupper :: "char \<Rightarrow> char" where
  "toupper c = (let n = of_char c :: nat in if 97 \<le> n \<and> n \<le> 122 then char_of (n - 32) else c)"

fun capital :: "string \<Rightarrow> string" where
  "capital [] = []"
| "capital (c # s) = toupper c # s"

definition attr_if :: "string \<Rightarrow> string \<Rightarrow> (string \<times> string option) list" where
  "attr_if n v = (if v \<noteq> [] then [(n, Some v)] else [])"

definition element_if :: "string \<Rightarrow> string \<Rightarrow> xml_node list" where
  "element_if n v = (if v \<noteq> [] then [Element n [] [Text_node (Some v)]] else [])"

definition translate_show_error :: "xml_node reading" where
  "translate_show_error t =
     rbind (get_current_token t) (\<lambda>show_what.
     if show_what = [] \<or> show_what \<noteq> ''error'' then refuse ''show command must be error'' t
     else rbind (get_next_token t) (\<lambda>(etype, t).
     if etype = '';'' then refuse (''show '' @ show_what @ '' command must inlude the error type to show'') t
     else rbind (get_next_token t) (\<lambda>(semi, t).
     if semi \<noteq> '';'' then refuse (''show '' @ show_what @ '' commands must end with a semicolon'') t
     else Inr (Element (''show'' @ capital show_what) [(''type'', Some etype)] [], t))))"

definition translate_catalog :: "xml_node reading" where
  "translate_catalog t =
     rbind (get_current_token t) (\<lambda>show_what.
     if show_what = [] \<or> (show_what \<noteq> ''info'' \<and> show_what \<noteq> ''catalog'')
     then refuse ''show command must be info or catalog'' t
     else rbind (get_next_token t) (\<lambda>(token, t).
     rbind (if token = ''for''
            then rbind (get_next_token t) (\<lambda>(node, t).
                 if node = '';'' then refuse ''show catalog command expecting node'' t
                 else rbind (remove_quotes t node) (\<lambda>node.
                      rbind (get_next_token t) (\<lambda>(token, t). Inr ((node, token), t))))
            else Inr (([], token), t)) (\<lambda>((node, token), t).
     if token \<noteq> '';'' then refuse ''show command must be terminated by a semicolon'' t
     else Inr (Element (''show'' @ capital show_what) (attr_if ''node'' node) [], t))))"

definition translate_context :: "xml_node reading" where
  "translate_context t =
     rbind (get_next_token t) (\<lambda>(name, t).
     if name = '';'' then refuse ''missing context name'' t
     else rbind (get_next_token t) (\<lambda>(to, t).
     if to \<noteq> ''to'' then refuse (''missing word '' @ [dquote] @ ''to'' @ [dquote] @ '' in set context'') t
     else rbind (get_next_token t) (\<lambda>(value, t).
     if value = '';'' then refuse ''missing context value'' t
     else rbind (get_next_token t) (\<lambda>(semi, t).
     if semi \<noteq> '';'' then refuse ''set context command must end with semicolon'' t
     else Inr (Element ''setContext'' [(''name'', Some name)] [Text_node (Some value)], t)))))"

definition translate_container :: "xml_node reading" where
  "translate_container t =
     rbind (get_next_token t) (\<lambda>(token, t).
     rbind (if token = ''in''
            then rbind (get_next_token t) (\<lambda>(space, t).
                 if space = ''values'' \<or> space = '';'' then refuse ''expecting name of container storage'' t
                 else rbind (get_next_token t) (\<lambda>(token, t). Inr ((space, token), t)))
            else Inr (([], token), t)) (\<lambda>((space, token), t).
     if token \<noteq> ''values'' then refuse ''missing values for set container'' t
     else rbind (get_next_token t) (\<lambda>(name, t).
     if name = '';'' \<or> name = '','' then refuse ''expecting name of the container'' t
     else rbind (get_next_token t) (\<lambda>(token, t).
     if token \<noteq> '','' then refuse ''missing comma in set container after name'' t
     else rbind (get_next_token t) (\<lambda>(value, t).
     if value = '','' \<or> value = '';'' then refuse ''expecting location of the container'' t
     else rbind (get_next_token t) (\<lambda>(token, t).
     rbind (if token = '',''
            then rbind (get_next_token t) (\<lambda>(type, t).
                 if type = '';'' then refuse ''expecting container type'' t
                 else rbind (get_next_token t) (\<lambda>(token, t). Inr ((type, token), t)))
            else Inr (([], token), t)) (\<lambda>((type, token), t).
     if token \<noteq> '';'' then refuse ''set container command must end with semicolon'' t
     else Inr (Element ''setContainer'' ([(''name'', Some name)] @ attr_if ''space'' space @ attr_if ''type'' type)
                 [Text_node (Some value)], t))))))))"

text \<open>The containers of a define command, up to the token after the last of them.\<close>

function container_names :: "tokenizer \<Rightarrow> ((string list \<times> string) \<times> tokenizer) bes_result" where
  "container_names t =
     rbind (get_next_token t) (\<lambda>(name, t).
     rbind (get_next_token t) (\<lambda>(token, t).
     if token = '','' then rbind (container_names t) (\<lambda>((names, token), t). Inr ((name # names, token), t))
     else Inr (([name], token), t)))"
  by pat_completeness auto

termination
  by (relation "measure remaining")
    (auto dest!: next_token_ahead [THEN conjunct2] intro: less_trans)

declare container_names.simps [simp del]

type_synonym properties = "string \<times> props \<times> props"

text \<open>
  The loop over the constraints and attributes. A default constraint does not read the token after its
  value, so that the next turn sees the same word again.
\<close>

function with_loop :: "props \<Rightarrow> string \<Rightarrow> properties \<Rightarrow> tokenizer \<Rightarrow> ((string \<times> properties) \<times> tokenizer) bes_result" where
  "with_loop clist token (dflt, constraints, attrs) t =
     (if token = ''aggregate'' \<or> token = '';'' then Inr ((token, dflt, constraints, attrs), t)
      else if token = ''constraint''
      then rbind (next_quoted t) (\<lambda>(s, t). with_loop clist token (s, constraints, attrs) t)
      else rbind (parse_container_name t token) (\<lambda>(c, type).
        if (case m_find clist c of Some v \<Rightarrow> v | None \<Rightarrow> []) \<noteq> c then refuse ''contstraint container does not exist'' t
        else if type \<noteq> 1 \<and> type \<noteq> 2 then refuse ''unknown constraint type'' t
        else rbind (next_quoted t) (\<lambda>(s, t).
             rbind (get_next_token t) (\<lambda>(token, t).
             rbind (if token = '','' then get_next_token t else Inr (token, t)) (\<lambda>(token, t).
             with_loop clist token
               (if type = 1 then (dflt, m_set c s constraints, attrs) else (dflt, constraints, m_set c s attrs)) t)))))"
  by pat_completeness auto

termination
  by (relation "measure (\<lambda>(clist, token, ps, t). remaining t)")
    (auto split: if_splits dest!: next_token_ahead next_quoted_ahead)

declare with_loop.simps [simp del]

text \<open>The constraints and attributes of a definition; the map \<^verbatim>\<open>clist\<close> has each name as its own value.\<close>

definition read_properties :: "string list \<Rightarrow> string \<Rightarrow> tokenizer \<Rightarrow> ((string \<times> properties) \<times> tokenizer) bes_result" where
  "read_properties names token t =
     (if token = ''with''
      then rbind (get_next_token t) (\<lambda>(token, t).
           with_loop (fold (\<lambda>n m. m_set n n m) names []) token ([], [], []) t)
      else Inr ((token, [], [], []), t))"

definition read_aggregate :: "string \<Rightarrow> tokenizer \<Rightarrow> ((string \<times> string \<times> string) \<times> tokenizer) bes_result" where
  "read_aggregate token t =
     (if token \<noteq> ''aggregate'' then Inr ((token, [], []), t)
      else rbind (get_next_token t) (\<lambda>(token, t).
        rbind (if token = ''by''
               then rbind (next_quoted t) (\<lambda>(cmd, t).
                    rbind (get_next_token t) (\<lambda>(token, t).
                    if token \<noteq> ''using'' then refuse (''aggregation expecting keyword '' @ [dquote] @ ''using'' @ [dquote]) t
                    else rbind (get_next_token t) (\<lambda>(handler, t). Inr ((handler, cmd), t))))
               else if token = ''using''
               then rbind (get_next_token t) (\<lambda>(handler, t).
                    rbind (get_next_token t) (\<lambda>(token, t).
                    if token \<noteq> ''by'' then refuse (''aggregation expecting keyword '' @ [dquote] @ ''by'' @ [dquote]) t
                    else rbind (next_quoted t) (\<lambda>(cmd, t). Inr ((handler, cmd), t))))
               else refuse (''aggregation expecting keyword '' @ [dquote] @ ''by'' @ [dquote] @ '' or '' @ [dquote] @ ''using''
                      @ [dquote]) t) (\<lambda>((handler, cmd), t).
        rbind (get_next_token t) (\<lambda>(token, t). Inr ((token, handler, cmd), t)))))"

definition container_element :: "props \<Rightarrow> props \<Rightarrow> string \<Rightarrow> xml_node" where
  "container_element constraints attrs name =
     Element ''container'' [(''name'', Some name)]
       (element_if ''constraint'' (case m_find constraints name of Some v \<Rightarrow> v | None \<Rightarrow> []) @
        element_if ''attributes'' (case m_find attrs name of Some v \<Rightarrow> v | None \<Rightarrow> []))"

definition define_element ::
  "string \<Rightarrow> string \<Rightarrow> string list \<Rightarrow> properties \<Rightarrow> string \<Rightarrow> string \<Rightarrow> xml_node" where
  "define_element name space containers ps agg_handler agg_cmd =
     (case ps of (dflt, constraints, attrs) \<Rightarrow>
        Element ''define'' ([(''name'', Some name)] @ attr_if ''space'' space)
          (element_if ''constraint'' dflt @ map (container_element constraints attrs) containers @
           (if agg_cmd \<noteq> [] then [Element ''aggregate'' (attr_if ''handler'' agg_handler @ [(''cmd'', Some agg_cmd)]) []] else [])))"

definition translate_define :: "xml_node reading" where
  "translate_define t =
     rbind (get_next_token t) (\<lambda>(name, t).
     rbind (get_next_token t) (\<lambda>(token, t).
     rbind (if token = ''in''
            then rbind (get_next_token t) (\<lambda>(space, t). rbind (get_next_token t) (\<lambda>(token, t). Inr ((space, token), t)))
            else Inr (([], token), t)) (\<lambda>((space, token), t).
     if token \<noteq> ''as'' then refuse ''Looking for keyword as in define command'' t
     else rbind (container_names t) (\<lambda>((names, token), t).
     rbind (read_properties names token t) (\<lambda>((token, ps), t).
     rbind (read_aggregate token t) (\<lambda>((token, agg_handler, agg_cmd), t).
     if token \<noteq> '';'' then refuse ''define command must end with semicolon'' t
     else Inr (define_element name space names ps agg_handler agg_cmd, t)))))))"

function get_loop ::
  "string \<Rightarrow> string \<times> string \<times> string \<times> string \<Rightarrow> tokenizer \<Rightarrow> ((string \<times> string \<times> string \<times> string) \<times> tokenizer) bes_result" where
  "get_loop token (returnAs, url, starting, bounding) t =
     (if token = ''return'' then
        rbind (get_next_token t) (\<lambda>(token, t).
        if token \<noteq> ''as'' then refuse (''get command expecting keyword '' @ [dquote] @ ''as'' @ [dquote] @ '' for return'') t
        else rbind (get_next_token t) (\<lambda>(returnAs, t).
             rbind (get_next_token t) (\<lambda>(token, t). get_loop token (returnAs, url, starting, bounding) t)))
      else if token = ''using'' then
        rbind (get_next_token t) (\<lambda>(url, t).
        rbind (get_next_token t) (\<lambda>(token, t). get_loop token (returnAs, url, starting, bounding) t))
      else if token = ''contentStartId'' then
        rbind (get_next_token t) (\<lambda>(starting, t).
        rbind (get_next_token t) (\<lambda>(token, t). get_loop token (returnAs, url, starting, bounding) t))
      else if token = ''mimeBoundary'' then
        rbind (get_next_token t) (\<lambda>(bounding, t).
        rbind (get_next_token t) (\<lambda>(token, t). get_loop token (returnAs, url, starting, bounding) t))
      else if token = '';'' then Inr ((returnAs, url, starting, bounding), t)
      else refuse ''unexpected token in get command'' t)"
  by pat_completeness auto

termination
  by (relation "measure (\<lambda>(token, ps, t). remaining t)")
    (auto dest!: next_token_ahead)

declare get_loop.simps [simp del]

definition translate_get :: "xml_node reading" where
  "translate_get t =
     rbind (get_next_token t) (\<lambda>(get_what, t).
     rbind (get_next_token t) (\<lambda>(token, t).
     if token \<noteq> ''for'' then refuse (''get command expecting keyword '' @ [dquote] @ ''for'' @ [dquote]) t
     else rbind (get_next_token t) (\<lambda>(def_name, t).
     rbind (get_next_token t) (\<lambda>(token, t).
     rbind (get_loop token ([], [], [], []) t) (\<lambda>((returnAs, url, starting, bounding), t).
     Inr (Element ''get''
            ([(''type'', Some get_what), (''definition'', Some def_name)] @ attr_if ''url'' url @ attr_if ''returnAs'' returnAs)
            (element_if ''contentStartId'' starting @ element_if ''mimeBoundary'' bounding), t))))))"

section \<open>Dispatch\<close>

text \<open>
  The values of the map of translators are the functions above, by name; an absent name is the null
  pointer. A translator gives the element it has written, or \<open>None\<close> when it returns false.
\<close>

datatype translator =
    Translate_show | Translate_catalog | Translate_show_error | Translate_set | Translate_context
  | Translate_container | Translate_define | Translate_delete | Translate_get

type_synonym translator_map = "(string, translator) cpp_map"
type_synonym translating = "xml_node option reading"

definition written :: "xml_node reading \<Rightarrow> translating" where
  "written f t = rbind (f t) (\<lambda>(x, t). Inr (Some x, t))"

definition translations_initialize :: "translator_map \<Rightarrow> translator_map" where
  "translations_initialize m =
     fold (\<lambda>(n, f). m_set n f)
       [(''show'', Translate_show), (''show.catalog'', Translate_catalog), (''show.info'', Translate_catalog),
        (''show.error'', Translate_show_error), (''set'', Translate_set), (''set.context'', Translate_context),
        (''set.container'', Translate_container), (''define'', Translate_define), (''delete'', Translate_delete),
        (''get'', Translate_get)] m"

definition add_translation :: "string \<Rightarrow> translator \<Rightarrow> translator_map \<Rightarrow> translator_map" where
  "add_translation name f m = m_set name f m"

definition remove_translation :: "string \<Rightarrow> translator_map \<Rightarrow> translator_map" where
  "remove_translation name m = (case m_find m name of Some f \<Rightarrow> m_erase name m | None \<Rightarrow> m)"

definition translate_show :: "(translator \<Rightarrow> translating) \<Rightarrow> translator_map \<Rightarrow> translating" where
  "translate_show call m t =
     rbind (get_next_token t) (\<lambda>(show_what, t).
     if show_what = [] then refuse ''show command must be followed by target'' t
     else case m_find m (''show.'' @ show_what) of
       Some p \<Rightarrow> call p t
     | None \<Rightarrow> rbind (get_next_token t) (\<lambda>(semi, t).
         if semi \<noteq> '';'' then refuse (''show '' @ show_what @ '' commands must end with a semicolon'') t
         else Inr (Some (Element (''show'' @ capital show_what) [] []), t)))"

definition translate_set :: "(translator \<Rightarrow> translating) \<Rightarrow> translator_map \<Rightarrow> translating" where
  "translate_set call m t =
     rbind (get_next_token t) (\<lambda>(set_what, t).
     if set_what = [] then refuse ''set command must be followed by target'' t
     else case m_find m (''set.'' @ set_what) of
       Some p \<Rightarrow> call p t
     | None \<Rightarrow> Inr (None, t))"

definition translate_delete :: "(translator \<Rightarrow> translating) \<Rightarrow> translator_map \<Rightarrow> translating" where
  "translate_delete call m t =
     rbind (get_next_token t) (\<lambda>(del_what, t).
     case m_find m (''delete.'' @ del_what) of
       Some p \<Rightarrow> call p t
     | None \<Rightarrow>
         rbind (if del_what = ''container'' \<or> del_what = ''definition'' then Inr True
                else if del_what = ''containers'' \<or> del_what = ''definitions'' then Inr False
                else Inl (tk_parse_error t ''unknown delete command'')) (\<lambda>single.
         rbind (if single then get_next_token t else Inr ([], t)) (\<lambda>(name, t).
         rbind (get_next_token t) (\<lambda>(token, t).
         rbind (if token = ''from''
                then rbind (get_next_token t) (\<lambda>(space, t). rbind (get_next_token t) (\<lambda>(token, t). Inr ((space, token), t)))
                else Inr (([], token), t)) (\<lambda>((space, token), t).
         if token \<noteq> '';'' then refuse ''delete command expected to end with semicolon'' t
         else Inr (Some (Element (''delete'' @ capital del_what) (attr_if ''name'' name @ attr_if ''space'' space) []), t))))))"

text \<open>The translators that look up another one read a token first.\<close>

lemma call_cong [fundef_cong]:
  assumes "m = m'" "t = t'" "\<And>p u. remaining u < remaining t' \<Longrightarrow> call p u = call' p u"
  shows "translate_show call m t = translate_show call' m' t'"
    and "translate_set call m t = translate_set call' m' t'"
    and "translate_delete call m t = translate_delete call' m' t'"
  using assms
  by (auto simp: translate_show_def translate_set_def translate_delete_def
      intro!: rbind_cong split: option.split dest: next_token_ahead)

function call_translator :: "translator_map \<Rightarrow> translator \<Rightarrow> translating" where
  "call_translator m p t =
     (case p of
        Translate_show \<Rightarrow> translate_show (call_translator m) m t
      | Translate_set \<Rightarrow> translate_set (call_translator m) m t
      | Translate_delete \<Rightarrow> translate_delete (call_translator m) m t
      | Translate_catalog \<Rightarrow> written translate_catalog t
      | Translate_show_error \<Rightarrow> written translate_show_error t
      | Translate_context \<Rightarrow> written translate_context t
      | Translate_container \<Rightarrow> written translate_container t
      | Translate_define \<Rightarrow> written translate_define t
      | Translate_get \<Rightarrow> written translate_get t)"
  by pat_completeness auto

termination
  by (relation "measure (\<lambda>(m, p, t). remaining t)") auto

declare call_translator.simps [simp del]

section \<open>No translator goes back\<close>

lemmas reading_defs = refuse_def translate_show_error_def translate_catalog_def translate_context_def
  translate_container_def translate_define_def translate_get_def written_def read_aggregate_def

lemma container_names_ahead: "container_names t = Inr (x, t') \<Longrightarrow> ahead t t'"
proof (induction t arbitrary: x t' rule: container_names.induct)
  case (1 t)
  from 1(2) obtain n t1 w t2 where r: "get_next_token t = Inr (n, t1)" "get_next_token t1 = Inr (w, t2)"
    and c: "if w = '','' then \<exists>y. container_names t2 = Inr (y, t') else t' = t2"
    by (subst (asm) container_names.simps) (auto simp: rbind_Inr_iff split: if_splits)
  have "ahead t t2" using r by (meson ahead_trans next_token_ahead)
  moreover have "ahead t2 t'" using c 1(1) [OF r(1) refl r(2) refl] by (auto split: if_splits)
  ultimately show ?case by (rule ahead_trans)
qed

text \<open>Reading on by at least one token.\<close>

definition further :: "tokenizer \<Rightarrow> tokenizer \<Rightarrow> bool" where
  "further t u = (ahead t u \<and> remaining u < remaining t)"

lemma further_ahead: "further t u \<Longrightarrow> ahead t u"
  by (simp add: further_def)

lemma further_trans: "further t u \<Longrightarrow> further u v \<Longrightarrow> further t v"
  by (auto simp: further_def intro: ahead_trans)

lemma read_further:
  "get_next_token t = Inr (x, u) \<Longrightarrow> further t u"
  "next_quoted t = Inr (x, u) \<Longrightarrow> further t u"
  by (simp_all add: further_def next_token_ahead next_quoted_ahead)

lemma with_loop_ahead: "with_loop clist token ps t = Inr (x, t') \<Longrightarrow> ahead t t'"
proof (induction "remaining t" arbitrary: token ps t rule: less_induct)
  case less
  obtain d cs as where ps: "ps = (d, cs, as)" by (cases ps)
  have *: "ahead t t'" if "further t u" "with_loop clist w qs u = Inr (x, t')" for u w qs
    using less(1) [of u w qs] that by (auto simp: further_def intro: ahead_trans)
  show ?case using less(2) unfolding ps
    by (subst (asm) with_loop.simps)
      (auto simp: rbind_Inr_iff refuse_def split: if_splits dest!: read_further; blast intro: * further_trans)
qed

lemma get_loop_ahead: "get_loop token ps t = Inr (x, t') \<Longrightarrow> ahead t t'"
proof (induction "remaining t" arbitrary: token ps t rule: less_induct)
  case less
  obtain a b c d where ps: "ps = (a, b, c, d)" by (cases ps)
  have *: "ahead t t'" if "further t u" "get_loop w qs u = Inr (x, t')" for u w qs
    using less(1) [of u w qs] that by (auto simp: further_def intro: ahead_trans)
  show ?case using less(2) unfolding ps
    by (subst (asm) get_loop.simps)
      (auto simp: rbind_Inr_iff refuse_def split: if_splits dest!: read_further; blast intro: * further_trans)
qed

lemma ahead_steps:
  "further t u \<Longrightarrow> ahead u v \<Longrightarrow> ahead t v"
  by (meson ahead_trans further_ahead)

lemma read_aggregate_ahead: "read_aggregate token t = Inr (x, t') \<Longrightarrow> ahead t t'"
  by (auto simp: read_aggregate_def rbind_Inr_iff refuse_def split: if_splits dest!: read_further)
    (blast intro: further_trans further_ahead)+

lemma read_properties_ahead: "read_properties names token t = Inr (x, t') \<Longrightarrow> ahead t t'"
  by (auto simp: read_properties_def rbind_Inr_iff split: if_splits dest!: read_further with_loop_ahead intro: ahead_steps)

lemma translators_ahead:
  "translate_show_error t = Inr (x, t') \<Longrightarrow> ahead t t'"
  "translate_catalog t = Inr (x, t') \<Longrightarrow> ahead t t'"
  "translate_context t = Inr (x, t') \<Longrightarrow> ahead t t'"
  "translate_container t = Inr (x, t') \<Longrightarrow> ahead t t'"
  by (auto simp: reading_defs rbind_Inr_iff split: if_splits dest!: read_further;
      blast intro: further_trans further_ahead)+

lemma translate_get_ahead: "translate_get t = Inr (x, t') \<Longrightarrow> ahead t t'"
  by (auto simp: translate_get_def refuse_def rbind_Inr_iff split: if_splits dest!: read_further get_loop_ahead;
      blast intro: further_trans ahead_steps)

lemma translate_define_ahead: "translate_define t = Inr (x, t') \<Longrightarrow> ahead t t'"
  by (auto simp: translate_define_def refuse_def rbind_Inr_iff split: if_splits
      dest!: read_further container_names_ahead read_properties_ahead read_aggregate_ahead;
      meson further_trans ahead_steps ahead_trans)

lemma show_set_ahead:
  assumes "\<And>q u. further t u \<Longrightarrow> call q u = Inr (x, t') \<Longrightarrow> ahead t t'"
  shows "translate_show call m t = Inr (x, t') \<Longrightarrow> ahead t t'"
    and "translate_set call m t = Inr (x, t') \<Longrightarrow> ahead t t'"
  by (auto simp: translate_show_def translate_set_def refuse_def rbind_Inr_iff
      split: if_splits option.splits dest!: read_further intro: assms further_trans further_ahead)

lemma delete_ahead:
  assumes "\<And>q u. further t u \<Longrightarrow> call q u = Inr (x, t') \<Longrightarrow> ahead t t'"
    and "translate_delete call m t = Inr (x, t')"
  shows "ahead t t'"
proof -
  obtain w t1 where w: "get_next_token t = Inr (w, t1)" using assms(2) by (auto simp: translate_delete_def rbind_Inr_iff)
  note f = read_further(1) [OF w]
  show ?thesis
  proof (cases "m_find m (''delete.'' @ w)")
    case None
    then have "ahead t1 t'" using assms(2) w
      by (auto simp: translate_delete_def refuse_def rbind_Inr_iff split: if_splits dest!: read_further
          intro: further_trans further_ahead ahead_trans)
    then show ?thesis using f ahead_steps by blast
  next
    case (Some q)
    then show ?thesis using assms w f by (auto simp: translate_delete_def)
  qed
qed

lemma written_ahead:
  "(\<And>y. f t = Inr (y, t') \<Longrightarrow> ahead t t') \<Longrightarrow> written f t = Inr (x, t') \<Longrightarrow> ahead t t'"
  by (auto simp: written_def rbind_Inr_iff)

lemma call_ahead: "call_translator m p t = Inr (x, t') \<Longrightarrow> ahead t t'"
proof (induction "remaining t" arbitrary: p t rule: less_induct)
  case less
  have *: "ahead t t'" if "further t u" "call_translator m q u = Inr (x, t')" for u q
    using less(1) [of u q] that by (auto simp: further_def intro: ahead_trans)
  note d = show_set_ahead [of t "call_translator m" x t' m] delete_ahead [of t "call_translator m" x t' m]
  note w = written_ahead [OF translators_ahead(1)] written_ahead [OF translators_ahead(2)] written_ahead [OF translators_ahead(3)]
    written_ahead [OF translators_ahead(4)] written_ahead [OF translate_get_ahead] written_ahead [OF translate_define_ahead]
  show ?case using less(2) * d w by (subst (asm) call_translator.simps) (cases p; simp)
qed

section \<open>The document\<close>

function do_translate :: "translator_map \<Rightarrow> tokenizer \<Rightarrow> xml_node list option bes_result" where
  "do_translate m t =
     rbind (get_current_token t) (\<lambda>token.
     case m_find m token of
       None \<Rightarrow> Inr None
     | Some p \<Rightarrow> (case call_translator m p t of
           Inl (BESSyntaxUserError e) \<Rightarrow> Inr None
         | Inl e \<Rightarrow> Inl e
         | Inr (None, t) \<Rightarrow> Inr None
         | Inr (Some x, t) \<Rightarrow> (case get_next_token t of
               Inl (BESSyntaxUserError e) \<Rightarrow> Inr (Some [x])
             | Inl e \<Rightarrow> Inl e
             | Inr (token, t) \<Rightarrow> if token = [] then Inr (Some [x])
                 else rbind (do_translate m t) (\<lambda>r. Inr (case r of None \<Rightarrow> None | Some xs \<Rightarrow> Some (x # xs))))))"
  by pat_completeness auto

termination
  by (relation "measure (\<lambda>(m, t). remaining t)")
    (auto dest!: call_ahead next_token_ahead ahead_remaining)

declare do_translate.simps [simp del]

text \<open>The empty string, which says that there is no document, is \<open>None\<close>.\<close>

definition translate :: "translator_map \<Rightarrow> int \<Rightarrow> string \<Rightarrow> xml_node option bes_result" where
  "translate m junk commands =
     (case tokenize commands (new_tokenizer junk) of
        Inl (BESSyntaxUserError e) \<Rightarrow> Inr None
      | Inl e \<Rightarrow> Inl e
      | Inr t \<Rightarrow> (case get_first_token t of
            (None, t) \<Rightarrow> Inr None
          | (Some token, t) \<Rightarrow> if token = [] then Inr None
              else rbind (do_translate m t) (\<lambda>r.
                Inr (case r of None \<Rightarrow> None
                     | Some xs \<Rightarrow> Some (Element ''request'' [(''reqID'', Some ''some_unique_value'')] xs)))))"

end
