(* ===== verification/RequestParsing.thy ===== *)
theory RequestParsing
  imports RequestAnswers
begin

text \<open>
  Reading commands from their elements: a define command is read as it was written, and which documents
  are refused for asking for two responses.
\<close>

section \<open>Writing a define command\<close>

text \<open>A container has a name, a store, a constraint and attributes; what is empty is not written.\<close>

type_synonym container_spec = "string \<times> string \<times> string \<times> string"

definition attribute :: "string \<Rightarrow> string \<Rightarrow> (string \<times> string option) list" where
  "attribute n v = (if v = [] then [] else [(n, Some v)])"

definition text_element :: "string \<Rightarrow> string \<Rightarrow> xml_node list" where
  "text_element n v = (if v = [] then [] else [Element n [] [Text_node (Some v)]])"

fun container_xml :: "container_spec \<Rightarrow> xml_node" where
  "container_xml (name, space, con, attrs) =
     Element ''container'' (attribute ''name'' name @ attribute ''space'' space)
       (text_element ''constraint'' con @ text_element ''attributes'' attrs)"

definition define_xml :: "string \<Rightarrow> string \<Rightarrow> string \<Rightarrow> container_spec list \<Rightarrow> xml_node" where
  "define_xml name space dflt cs =
     Element ''define'' (attribute ''name'' name @ attribute ''space'' space)
       (text_element ''constraint'' dflt @ map container_xml cs)"

definition clean :: "string \<Rightarrow> bool" where
  "clean s = (clean_text s = s)"

fun clean_spec :: "container_spec \<Rightarrow> bool" where
  "clean_spec (name, space, con, attrs) = (name \<noteq> [] \<and> clean name \<and> clean space \<and> clean con \<and> clean attrs)"

section \<open>Reading it\<close>

lemma plain_names [simp]:
  "removeLeadingAndTrailingBlanks ''define'' = ''define''" "removeLeadingAndTrailingBlanks ''container'' = ''container''"
  "removeLeadingAndTrailingBlanks ''constraint'' = ''constraint''" "removeLeadingAndTrailingBlanks ''attributes'' = ''attributes''"
  "removeLeadingAndTrailingBlanks ''name'' = ''name''" "removeLeadingAndTrailingBlanks ''space'' = ''space''"
  by code_simp+

lemma clean_Nil: "clean_text [] = []"
  by code_simp

lemma at_key_attributes:
  assumes "clean name" "clean space"
  shows "at_key (get_props_loop (attribute ''name'' name @ attribute ''space'' space) []) ''name'' = name"
    "at_key (get_props_loop (attribute ''name'' name @ attribute ''space'' space) []) ''space'' = space"
  using assms by (auto simp: attribute_def at_key_def clean_def m_find_def)

fun add_spec :: "container_spec \<Rightarrow> command \<Rightarrow> command" where
  "add_spec (name, space, con, attrs) c =
     c\<lparr>def_names := def_names c @ [name], def_stores := m_set name space (def_stores c),
       def_constraints := (if con = [] then def_constraints c else m_set name con (def_constraints c)),
       def_attributes := (if attrs = [] then def_attributes c else m_set name attrs (def_attributes c))\<rparr>"

lemma text_element_children:
  assumes "clean con" "clean attrs"
  shows "walk_children (get_first_child (Element n p (text_element ''constraint'' con @ text_element ''attributes'' attrs)) ([], [], [])) =
    (if con = [] then [] else [(Element ''constraint'' [] [Text_node (Some con)], ''constraint'', con, [])]) @
    (if attrs = [] then [] else [(Element ''attributes'' [] [Text_node (Some attrs)], ''attributes'', attrs, [])])"
  using assms by (simp add: children_visited text_element_def clean_def)

lemma read_container:
  assumes "clean_spec sp"
  shows "handle_container_element act (container_xml sp) (snd (snd (get_node_info (container_xml sp) ([], [], [])))) c = (add_spec sp c, None)"
proof -
  obtain name space con attrs where sp: "sp = (name, space, con, attrs)" by (metis prod_cases4)
  have k: "name \<noteq> []" "clean name" "clean space" "clean con" "clean attrs" using assms by (simp_all add: sp)
  have f: "snd (snd (snd (get_first_child (container_xml sp) ([], [], [])))) = []"
    by (simp add: sp get_first_child_def text_element_def)
  show ?thesis using k(1) at_key_attributes [OF k(2,3)] f text_element_children [OF k(4,5)]
    by (simp add: handle_container_element_def sp Let_def)
qed

lemma read_containers:
  "list_all clean_spec cs \<Longrightarrow>
    define_children act (map (\<lambda>n. (n, get_node_info n ([], [], []))) (map container_xml cs)) k c =
      (k + length cs, fold add_spec cs c, None)"
proof (induction cs arbitrary: k c)
  case (Cons sp cs)
  obtain name space con attrs where sp: "sp = (name, space, con, attrs)" by (metis prod_cases4)
  obtain v p where i: "get_node_info (container_xml sp) ([], [], []) = (''container'', v, p)" by (simp add: sp)
  have r: "handle_container_element act (container_xml sp) p c = (add_spec sp c, None)"
    using read_container [of sp act c] Cons.prems i by simp
  show ?case using Cons.IH [of "k + 1" "add_spec sp c"] Cons.prems
    by (simp add: i r del: get_node_info.simps container_xml.simps add_spec.simps map_map)
qed simp

lemma fold_add_spec_names: "def_names (fold add_spec cs c) = def_names c @ map fst cs"
  by (induction cs arbitrary: c) auto

lemma fold_add_spec_dhi [simp]:
  "cmd_dhi (fold add_spec cs c) = cmd_dhi c" "def_default_constraint (fold add_spec cs c) = def_default_constraint c"
  "str_cmd (fold add_spec cs c) = str_cmd c"
  by (induction cs arbitrary: c) auto

lemma at_key_set [simp]: "at_key (m_set k v m) n = (if n = k then v else at_key m n)"
  by (simp add: at_key_def)

lemma fold_add_spec_other:
  "n \<notin> fst ` set cs \<Longrightarrow> at_key (def_stores (fold add_spec cs c)) n = at_key (def_stores c) n \<and>
    at_key (def_constraints (fold add_spec cs c)) n = at_key (def_constraints c) n \<and>
    at_key (def_attributes (fold add_spec cs c)) n = at_key (def_attributes c) n"
  by (induction cs arbitrary: c) auto

lemma fold_add_spec_read:
  assumes "distinct (map fst cs)" "(n, space, con, attrs) \<in> set cs"
    and "\<And>k. at_key (def_constraints c) k = [] \<and> at_key (def_attributes c) k = []"
  shows "at_key (def_stores (fold add_spec cs c)) n = space \<and> at_key (def_constraints (fold add_spec cs c)) n = con \<and>
    at_key (def_attributes (fold add_spec cs c)) n = attrs"
proof -
  obtain cs1 cs2 where cs: "cs = cs1 @ (n, space, con, attrs) # cs2" using assms(2) by (meson split_list)
  have "n \<notin> fst ` set cs1" "n \<notin> fst ` set cs2" using assms(1) by (simp_all add: cs)
  then show ?thesis using fold_add_spec_other [of n cs1 c] fold_add_spec_other [of n cs2] assms(3) by (simp add: cs)
qed

text \<open>
  A define command is read as it was written: the command has the names of its containers in
  order, and for each of them the store, the constraint and the attributes of its element, the default
  constraint, and the name and the store of the definition; it is accepted when the handler of
  definitions is registered. The strings have no blanks around them and no entities, and the names of the
  containers differ.
\<close>

lemma read_define:
  assumes "clean name" "name \<noteq> []" "clean space" "clean dflt" "list_all clean_spec cs" "cs \<noteq> []"
    and "distinct (map fst cs)" "rsl ''define'' = Some h"
  shows "\<exists>c. parse_define rsl (define_xml name space dflt cs) (new_command Define base) = (c, None) \<and>
    def_names c = map fst cs \<and> def_default_constraint c = dflt \<and>
    (\<forall>(n, sp, con, attrs) \<in> set cs. at_key (def_stores c) n = sp \<and> at_key (def_constraints c) n = con \<and>
       at_key (def_attributes c) n = attrs) \<and>
    data_at (cmd_dhi c) ''def_name'' = name \<and> data_at (cmd_dhi c) ''store_name'' = space \<and>
    response_handler (cmd_dhi c) = Some h"
proof -
  let ?x = "define_xml name space dflt cs"
  have i: "get_node_info ?x ([], [], []) = (''define'', get_value_loop (xml_children ?x) [],
      get_props_loop (attribute ''name'' name @ attribute ''space'' space) [])"
    by (simp add: define_xml_def)
  have w: "walk_children (get_first_child ?x ([], [], [])) =
      (if dflt = [] then [] else [(Element ''constraint'' [] [Text_node (Some dflt)], ''constraint'', dflt, [])]) @
      map (\<lambda>n. (n, get_node_info n ([], [], []))) (map container_xml cs)"
  proof -
    have "filter is_element (map container_xml cs) = map container_xml cs"
      by (induction cs) auto
    then show ?thesis using assms(4)
      by (simp add: children_visited define_xml_def text_element_def clean_def del: map_map)
  qed
  have d: "define_children a (walk_children (get_first_child ?x ([], [], []))) 0 c =
      (length cs, fold add_spec cs (c\<lparr>def_default_constraint := (if dflt = [] then def_default_constraint c else dflt)\<rparr>), None)" for a c
    unfolding w using read_containers [OF assms(5), of a 0] by (simp del: map_map)
  let ?c = "\<lambda>c. fold add_spec cs (c\<lparr>def_default_constraint := (if dflt = [] then def_default_constraint c else dflt)\<rparr>)"
  define c1 where "c1 = (with_data ''store_name'' space (with_data ''def_name'' name (with_action ''define'' (new_command Define base))))
     \<lparr>str_cmd := ''define '' @ name @ (if space \<noteq> [] then '' in '' @ space else [])\<rparr>"
  have p0: "parse_define rsl ?x (new_command Define base) = set_response rsl (?c c1\<lparr>str_cmd := define_text (?c c1)\<rparr>)"
    using assms(2,6)
    by (simp add: parse_define_def i d at_key_attributes [OF assms(1,3)] c1_def Let_def del: get_node_info.simps)
  have p: "def_names c1 = []" "def_constraints c1 = []" "def_attributes c1 = []" "def_default_constraint c1 = []"
      "data_at (cmd_dhi c1) ''def_name'' = name" "data_at (cmd_dhi c1) ''store_name'' = space"
      "action (cmd_dhi c1) = ''define''"
    by (simp_all add: c1_def with_data_def with_action_def new_command_def)
  have e: "at_key [] k = []" for k by (simp add: at_key_def m_find_def)
  have f: "(n, sp, con, attrs) \<in> set cs \<Longrightarrow> at_key (def_stores (?c c1)) n = sp \<and> at_key (def_constraints (?c c1)) n = con \<and>
      at_key (def_attributes (?c c1)) n = attrs" for n sp con attrs
    by (rule fold_add_spec_read [OF assms(7)]) (simp_all add: p e)
  obtain c2 where c2: "set_response rsl (?c c1\<lparr>str_cmd := define_text (?c c1)\<rparr>) = (c2, None)"
      "def_names c2 = def_names (?c c1)" "def_default_constraint c2 = def_default_constraint (?c c1)" "def_stores c2 = def_stores (?c c1)"
      "def_constraints c2 = def_constraints (?c c1)" "def_attributes c2 = def_attributes (?c c1)"
      "data_at (cmd_dhi c2) ''def_name'' = name" "data_at (cmd_dhi c2) ''store_name'' = space" "response_handler (cmd_dhi c2) = Some h"
    using assms(8) p by (simp add: set_response_def with_data_def Let_def)
  show ?thesis using p0 p c2 f fold_add_spec_names by (intro exI [of _ c2]) auto
qed

section \<open>Two responses\<close>

definition show_status_xml :: xml_node where
  "show_status_xml = Element ''showStatus'' [] []"

definition set_context_xml :: xml_node where
  "set_context_xml = Element ''setContext'' [(''name'', Some ''x'')] [Text_node (Some ''y'')]"

lemma core_find_command:
  "find_command ''showStatus'' (w_commands (fst (core p))) = Some Show"
  "find_command ''setContext'' (w_commands (fst (core p))) = Some Set_context"
  by (simp_all add: core_simp dap_commands_initialize_def commands_initialize_def find_command_def find_add_commands)

lemma core_find_handler:
  "w_find_handler (fst (core p)) ''show.status'' = Some H_show_status"
  "w_find_handler (fst (core p)) ''set.context'' = Some H_set_context"
  by (simp_all add: core_simp w_find_handler_def rsl_find_handler_def find_add_handlers default_handlers_def)

lemma read_show_status:
  "\<exists>c'. parse_request dump cmds (w_find_handler (fst (core p))) show_status_xml (new_command Show base) = (c', None) \<and>
    dhi_data (cmd_dhi c') = m_set ''request'' ''show status;'' (dhi_data base) \<and> cmd_kind c' = Show"
proof -
  have s: "removeLeadingAndTrailingBlanks ''showStatus'' = ''showStatus''" "lowercase (substr ''showStatus'' 0 4) = ''show''"
      "lowercase (substr ''showStatus'' 4 (Suc (Suc (Suc (Suc (Suc (Suc 0))))))) = ''status''" "lowercase (substr ''showStatus'' 4 6) = ''status''"
    by code_simp+
  show ?thesis
    by (simp add: parse_request_def new_command_def parse_show_def show_status_xml_def s set_response_def core_find_handler
        with_action_def with_data_def make_copy_def Let_def)
qed

lemma read_set_context:
  "\<exists>c'. parse_request dump cmds (w_find_handler (fst (core p))) set_context_xml (new_command Set_context base) = (c', None) \<and>
    at_key (dhi_data (cmd_dhi c')) ''return_command'' = at_key (dhi_data base) ''return_command'' \<and> cmd_kind c' = Set_context"
proof -
  have s: "removeLeadingAndTrailingBlanks ''setContext'' = ''setContext''" "removeLeadingAndTrailingBlanks ''name'' = ''name''"
      "clean_text ''x'' = ''x''" "clean_text ''y'' = ''y''"
    by code_simp+
  show ?thesis
    by (simp add: parse_request_def new_command_def parse_set_context_def set_context_xml_def s set_response_def core_find_handler
        with_action_def with_data_def make_copy_def at_key_def m_find_def Let_def m_find_set [unfolded m_find_def])
qed

lemma build_show:
  assumes "at_key (dhi_data (if_base x)) ''return_command'' = []"
  shows "\<exists>c. build_command (fst (core p)) show_status_xml False x = (True, x\<lparr>if_cmds := if_cmds x @ [c]\<rparr>, None) \<and> cmd_kind c = Show"
    and "snd (snd (build_command (fst (core p)) show_status_xml True x)) = syntax_error ''Multiple responses not allowed''"
proof -
  have n: "xml_name show_status_xml = ''showStatus''" by (simp add: show_status_xml_def)
  obtain c where c: "parse_request (w_dump (fst (core p))) (w_commands (fst (core p))) (w_find_handler (fst (core p))) show_status_xml
      (new_command Show (if_base x)) = (c, None)" "dhi_data (cmd_dhi c) = m_set ''request'' ''show status;'' (dhi_data (if_base x))"
      "cmd_kind c = Show"
    using read_show_status by blast
  then show "\<exists>c. build_command (fst (core p)) show_status_xml False x = (True, x\<lparr>if_cmds := if_cmds x @ [c]\<rparr>, None) \<and> cmd_kind c = Show"
    using assms by (intro exI [of _ c]) (simp add: build_command_def n core_find_command at_key_def Let_def)
  show "snd (snd (build_command (fst (core p)) show_status_xml True x)) = syntax_error ''Multiple responses not allowed''"
    by (simp add: build_command_def n core_find_command)
qed

lemma build_set_context:
  assumes "at_key (dhi_data (if_base x)) ''return_command'' = []"
  shows "\<exists>c. build_command (fst (core p)) set_context_xml b x = (False, x\<lparr>if_cmds := if_cmds x @ [c]\<rparr>, None) \<and> cmd_kind c = Set_context"
proof -
  have n: "xml_name set_context_xml = ''setContext''" by (simp add: set_context_xml_def)
  obtain c where c: "parse_request (w_dump (fst (core p))) (w_commands (fst (core p))) (w_find_handler (fst (core p))) set_context_xml
      (new_command Set_context (if_base x)) = (c, None)"
      "at_key (dhi_data (cmd_dhi c)) ''return_command'' = at_key (dhi_data (if_base x)) ''return_command''" "cmd_kind c = Set_context"
    using read_set_context by blast
  then show ?thesis using assms by (intro exI [of _ c]) (simp add: build_command_def n core_find_command Let_def)
qed

text \<open>
  The check for two responses in one document: two commands with a response, one right after the
  other, are refused with its message; with a command without response between them they are accepted, since
  the flag is overwritten by the last command.
\<close>

theorem two_responses:
  "let w = fst (core p); x = new_interface doc s
   in snd (build_loop w [show_status_xml, show_status_xml] False x) = syntax_error ''Multiple responses not allowed'' \<and>
      (\<exists>y. build_loop w [show_status_xml, set_context_xml, show_status_xml] False x = (y, None) \<and>
         map cmd_kind (if_cmds y) = [Show, Set_context, Show])"
proof -
  have b: "at_key (dhi_data (if_base (new_interface doc s))) ''return_command'' = []"
    by (simp add: new_interface_def set_data_def new_request_def at_key_def m_find_def)
  have e: "is_element show_status_xml" "is_element set_context_xml" by (simp_all add: show_status_xml_def set_context_xml_def)
  let ?x = "new_interface doc s"
  obtain c1 where c1: "build_command (fst (core p)) show_status_xml False ?x = (True, ?x\<lparr>if_cmds := if_cmds ?x @ [c1]\<rparr>, None)"
      "cmd_kind c1 = Show" using build_show(1) [OF b] by blast
  let ?y = "?x\<lparr>if_cmds := if_cmds ?x @ [c1]\<rparr>"
  have bY: "at_key (dhi_data (if_base ?y)) ''return_command'' = []" using b by simp
  obtain c2 where c2: "build_command (fst (core p)) set_context_xml True ?y = (False, ?y\<lparr>if_cmds := if_cmds ?y @ [c2]\<rparr>, None)"
      "cmd_kind c2 = Set_context" using build_set_context [OF bY] by blast
  let ?z = "?y\<lparr>if_cmds := if_cmds ?y @ [c2]\<rparr>"
  have bZ: "at_key (dhi_data (if_base ?z)) ''return_command'' = []" using b by simp
  obtain c3 where c3: "build_command (fst (core p)) show_status_xml False ?z = (True, ?z\<lparr>if_cmds := if_cmds ?z @ [c3]\<rparr>, None)"
      "cmd_kind c3 = Show" using build_show(1) [OF bZ] by blast
  have "if_cmds ?x = []" by (simp add: new_interface_def)
  then show ?thesis using c1 c2 c3 build_show(2) [OF bY, of p] e by (auto simp: Let_def split: prod.split)
qed

end
