(* ===== verification/ClientCommands.thy ===== *)
theory ClientCommands
  imports CmdTranslation RequestParsing
begin

text \<open>
  What the translation of the command language gives: the commands of a client written as text become the
  elements the server reads them from, in the same order, and a define command reaches the server as it
  was typed. A default constraint cannot be typed.
\<close>

section \<open>The commands of a client\<close>

text \<open>
  The specification: a command with its parts; a part that is left out is empty. A property of a
  definition has the name of a container, whether it is a constraint, and its text.
\<close>

type_synonym property = "string \<times> bool \<times> string"

datatype client_command =
    Cl_show string
  | Cl_catalog string string
  | Cl_show_error string
  | Cl_context string string
  | Cl_container string string string string
  | Cl_define string string "string list" "property list" string string
  | Cl_delete_one string string string
  | Cl_delete_all string string
  | Cl_get string string string string string string

fun property_lexemes :: "property \<Rightarrow> lexeme list" where
  "property_lexemes (n, con, v) = [Word (n @ (if con then ''.constraint='' else ''.attributes='')), Quoted v]"

fun separated :: "lexeme list list \<Rightarrow> lexeme list" where
  "separated [] = []"
| "separated [x] = x"
| "separated (x # xs) = x @ Comma # separated xs"

definition optional :: "string \<Rightarrow> string \<Rightarrow> lexeme list" where
  "optional k v = (if v = [] then [] else [Word k, Word v])"

fun command_lexemes :: "client_command \<Rightarrow> lexeme list" where
  "command_lexemes (Cl_show what) = [Word ''show'', Word what, Semicolon]"
| "command_lexemes (Cl_catalog what node) =
     [Word ''show'', Word what] @ (if node = [] then [] else [Word ''for'', Quoted node]) @ [Semicolon]"
| "command_lexemes (Cl_show_error code) = [Word ''show'', Word ''error'', Word code, Semicolon]"
| "command_lexemes (Cl_context name value) = [Word ''set'', Word ''context'', Word name, Word ''to'', Word value, Semicolon]"
| "command_lexemes (Cl_container space name value type) =
     [Word ''set'', Word ''container''] @ optional ''in'' space @ [Word ''values'', Word name, Comma, Word value] @
     (if type = [] then [] else [Comma, Word type]) @ [Semicolon]"
| "command_lexemes (Cl_define name space names props ahandler acmd) =
     [Word ''define'', Word name] @ optional ''in'' space @ [Word ''as''] @ separated (map (\<lambda>n. [Word n]) names) @
     (if props = [] then [] else Word ''with'' # separated (map property_lexemes props)) @
     (if acmd = [] then [] else [Word ''aggregate'', Word ''using'', Word ahandler, Word ''by'', Quoted acmd]) @ [Semicolon]"
| "command_lexemes (Cl_delete_one what name space) =
     [Word ''delete'', Word what, Word name] @ optional ''from'' space @ [Semicolon]"
| "command_lexemes (Cl_delete_all what space) = [Word ''delete'', Word what] @ optional ''from'' space @ [Semicolon]"
| "command_lexemes (Cl_get what name returnAs url start bound) =
     [Word ''get'', Word what, Word ''for'', Word name] @
     (if returnAs = [] then [] else [Word ''return'', Word ''as'', Word returnAs]) @
     optional ''using'' url @ optional ''contentStartId'' start @ optional ''mimeBoundary'' bound @ [Semicolon]"

text \<open>The properties of one kind, the last one of a container standing.\<close>

definition properties_of :: "bool \<Rightarrow> property list \<Rightarrow> props" where
  "properties_of con ps = fold (\<lambda>(n, c, v) m. if c = con then m_set n v m else m) ps []"

fun command_element :: "client_command \<Rightarrow> xml_node" where
  "command_element (Cl_show what) = Element (''show'' @ capital what) [] []"
| "command_element (Cl_catalog what node) = Element (''show'' @ capital what) (attr_if ''node'' node) []"
| "command_element (Cl_show_error code) = Element ''showError'' [(''type'', Some code)] []"
| "command_element (Cl_context name value) = Element ''setContext'' [(''name'', Some name)] [Text_node (Some value)]"
| "command_element (Cl_container space name value type) =
     Element ''setContainer'' ((''name'', Some name) # attr_if ''space'' space @ attr_if ''type'' type) [Text_node (Some value)]"
| "command_element (Cl_define name space names props ahandler acmd) =
     define_element name space names ([], properties_of True props, properties_of False props) ahandler acmd"
| "command_element (Cl_delete_one what name space) =
     Element (''delete'' @ capital what) (attr_if ''name'' name @ attr_if ''space'' space) []"
| "command_element (Cl_delete_all what space) = Element (''delete'' @ capital what) (attr_if ''space'' space) []"
| "command_element (Cl_get what name returnAs url start bound) =
     Element ''get'' ([(''type'', Some what), (''definition'', Some name)] @ attr_if ''url'' url @ attr_if ''returnAs'' returnAs)
       (element_if ''contentStartId'' start @ element_if ''mimeBoundary'' bound)"

definition word :: "string \<Rightarrow> bool" where
  "word w = (w \<noteq> [] \<and> list_all plain_char w)"

definition word_or_none :: "string \<Rightarrow> bool" where
  "word_or_none w = list_all plain_char w"

fun property_ok :: "string list \<Rightarrow> property \<Rightarrow> bool" where
  "property_ok names (n, con, v) =
     (n \<in> set names \<and> (con \<or> rfind_sub (n @ ''.attributes='') ''.constraint='' = None))"

fun command_ok :: "client_command \<Rightarrow> bool" where
  "command_ok (Cl_show what) = (word what \<and> what \<notin> {''catalog'', ''info'', ''error''})"
| "command_ok (Cl_catalog what node) = (what \<in> {''catalog'', ''info''})"
| "command_ok (Cl_show_error code) = word code"
| "command_ok (Cl_context name value) = (word name \<and> word value)"
| "command_ok (Cl_container space name value type) =
     (word_or_none space \<and> space \<noteq> ''values'' \<and> word name \<and> word value \<and> word_or_none type)"
| "command_ok (Cl_define name space names props ahandler acmd) =
     (word name \<and> word_or_none space \<and> names \<noteq> [] \<and> list_all word names \<and> list_all (property_ok names) props \<and>
      (acmd = [] \<or> word ahandler))"
| "command_ok (Cl_delete_one what name space) =
     (what \<in> {''container'', ''definition''} \<and> word name \<and> word_or_none space)"
| "command_ok (Cl_delete_all what space) = (what \<in> {''containers'', ''definitions''} \<and> word_or_none space)"
| "command_ok (Cl_get what name returnAs url start bound) =
     (word what \<and> word name \<and> list_all word_or_none [returnAs, url, start, bound])"

section \<open>Reading over a list of tokens\<close>

text \<open>The cursor on the last token of a list, with others to come.\<close>

definition at_tokens :: "string list \<Rightarrow> string list \<Rightarrow> tokenizer" where
  "at_tokens pre rest =
     \<lparr>tk_tokens = pre @ rest, tk_counter = int (length pre) - 1, tk_number = int (length pre + length rest)\<rparr>"

lemma next_at [simp]: "pre \<noteq> [] \<Longrightarrow> get_next_token (at_tokens pre (w # rest)) = Inr (w, at_tokens (pre @ [w]) rest)"
  by (simp add: get_next_token_def at_tokens_def nat_diff_distrib)

lemma next_at_end [simp]: "pre \<noteq> [] \<Longrightarrow> \<exists>m. get_next_token (at_tokens pre []) = Inl (BESSyntaxUserError m)"
  by (simp add: get_next_token_def at_tokens_def tk_parse_error_def Let_def)

lemma current_at [simp]: "pre \<noteq> [] \<Longrightarrow> get_current_token (at_tokens pre rest) = Inr (last pre)"
  by (cases pre rule: rev_cases) (simp_all add: get_current_token_def at_tokens_def nth_append)

lemma next_quoted_at [simp]:
  "pre \<noteq> [] \<Longrightarrow> next_quoted (at_tokens pre ((dquote # s @ [dquote]) # rest)) = Inr (s, at_tokens (pre @ [dquote # s @ [dquote]]) rest)"
  using remove_quotes_spec [of _ s] by (simp add: next_quoted_def)

lemma remove_quotes_token [simp]: "remove_quotes t (dquote # s @ [dquote]) = Inr s"
  using remove_quotes_spec [of t s] by simp

abbreviation tokens :: "lexeme list \<Rightarrow> string list" where
  "tokens \<equiv> map lexeme_token"

lemma wordD:
  assumes "word w"
  shows "w \<noteq> []" "w \<noteq> '';''" "w \<noteq> '',''"
  using assms by (auto simp: word_def plain_char_def)

lemma container_names_at:
  assumes "pre \<noteq> []" "names \<noteq> []" "w \<noteq> '',''"
  shows "container_names (at_tokens pre (tokens (separated (map (\<lambda>n. [Word n]) names)) @ w # rest)) =
    Inr ((names, w), at_tokens (pre @ tokens (separated (map (\<lambda>n. [Word n]) names)) @ [w]) rest)"
  using assms
proof (induction names arbitrary: pre)
  case (Cons n names)
  show ?case
  proof (cases names)
    case Nil
    then show ?thesis using Cons.prems by (subst container_names.simps) simp
  next
    case (Cons n' ns)
    then show ?thesis using Cons.prems Cons.IH [of "pre @ [n, '','']"] by (subst container_names.simps) simp
  qed
qed simp

fun add_property :: "property \<Rightarrow> props \<times> props \<Rightarrow> props \<times> props" where
  "add_property (n, con, v) (cs, as) = (if con then (m_set n v cs, as) else (cs, m_set n v as))"

lemma add_properties: "fold add_property ps (cs, as) =
    (fold (\<lambda>(n, c, v) m. if c = True then m_set n v m else m) ps cs,
     fold (\<lambda>(n, c, v) m. if c = False then m_set n v m else m) ps as)"
  by (induction ps arbitrary: cs as) auto

lemma properties_added: "fold add_property ps ([], []) = (properties_of True ps, properties_of False ps)"
  by (simp add: properties_of_def add_properties)

lemma property_word:
  assumes "property_ok names (n, con, v)"
  defines "w \<equiv> n @ (if con then ''.constraint='' else ''.attributes='')"
  shows "w \<noteq> ''aggregate'' \<and> w \<noteq> '';'' \<and> w \<noteq> ''constraint''"
    and "parse_container_name t w = Inr (n, if con then 1 else 2)"
proof -
  have "last w = CHR ''=''" by (simp add: w_def)
  then show "w \<noteq> ''aggregate'' \<and> w \<noteq> '';'' \<and> w \<noteq> ''constraint''" by auto
  show "parse_container_name t w = Inr (n, if con then 1 else 2)"
    using assms(1) by (auto simp: parse_container_name_iff w_def)
qed

lemma with_loop_end: "e \<in> {''aggregate'', '';''} \<Longrightarrow> with_loop clist e (d, cs, as) t = Inr ((e, d, cs, as), t)"
  by (subst with_loop.simps) auto

lemma with_loop_at:
  assumes "\<And>n. n \<in> set names \<Longrightarrow> m_find clist n = Some n" "list_all (property_ok names) ps" "e \<in> {''aggregate'', '';''}"
    and "w # ts = tokens (separated (map property_lexemes ps)) @ e # rest"
  shows "with_loop clist w (d, cs, as) (at_tokens (pre @ [w]) ts) =
    Inr ((e, d, fold add_property ps (cs, as)), at_tokens (pre @ tokens (separated (map property_lexemes ps)) @ [e]) rest)"
  using assms(2-)
proof (induction ps arbitrary: pre w ts cs as)
  case Nil
  then show ?case by (subst with_loop.simps) auto
next
  case (Cons p ps)
  obtain n con v where p: "p = (n, con, v)" by (cases p)
  have ok: "property_ok names (n, con, v)" using Cons.prems by (simp add: p)
  have n: "m_find clist n = Some n" using ok assms(1) by simp
  have e: "e \<noteq> '',''" using Cons.prems(2) by auto
  have w: "w = n @ (if con then ''.constraint='' else ''.attributes='')"
    using Cons.prems(3) by (cases ps) (auto simp: p)
  note pw = property_word [OF ok, folded w]
  let ?q = "dquote # v @ [dquote]"
  show ?case
  proof (cases ps)
    case Nil
    then have ts: "ts = ?q # e # rest" using Cons.prems(3) by (auto simp: p)
    have "with_loop clist w (d, cs, as) (at_tokens (pre @ [w]) ts) =
        with_loop clist e (d, add_property p (cs, as)) (at_tokens (pre @ [w, ?q, e]) rest)"
      using pw n e by (subst with_loop.simps) (simp add: ts p)
    also have "\<dots> = Inr ((e, d, add_property p (cs, as)), at_tokens (pre @ [w, ?q, e]) rest)"
      using with_loop_end [OF Cons.prems(2)] by (cases "add_property p (cs, as)") simp
    finally show ?thesis by (simp add: Nil p w)
  next
    case (Cons p' ps')
    obtain w' ts' where w': "w' # ts' = tokens (separated (map property_lexemes ps)) @ e # rest"
      by (cases "tokens (separated (map property_lexemes ps)) @ e # rest") auto
    then have ts: "ts = ?q # '','' # w' # ts'" using Cons.prems(3) Cons by (auto simp: p)
    obtain cs' as' where a: "add_property p (cs, as) = (cs', as')" by (cases "add_property p (cs, as)")
    have "with_loop clist w (d, cs, as) (at_tokens (pre @ [w]) ts) =
        with_loop clist w' (d, cs', as') (at_tokens ((pre @ [w, ?q, '','']) @ [w']) ts')"
      using pw n a by (subst with_loop.simps) (auto simp add: ts p split: if_splits)
    also have "\<dots> = Inr ((e, d, fold add_property ps (cs', as')),
        at_tokens ((pre @ [w, ?q, '','']) @ tokens (separated (map property_lexemes ps)) @ [e]) rest)"
      using Cons.prems(1,2) w' by (intro Cons.IH) auto
    finally show ?thesis using a by (simp add: Cons p w)
  qed
qed

lemma own_names: "n \<in> set names \<Longrightarrow> m_find (fold (\<lambda>n m. m_set n n m) names m) n = Some n"
proof (induction names arbitrary: m rule: rev_induct)
  case (snoc x names)
  then show ?case by (cases "n = x") auto
qed simp

section \<open>Each command\<close>

text \<open>The tokens of a command after its first word.\<close>

definition later_tokens :: "client_command \<Rightarrow> string list" where
  "later_tokens c = tl (tokens (command_lexemes c))"

definition command_word :: "client_command \<Rightarrow> string" where
  "command_word c = hd (tokens (command_lexemes c))"

fun command_translator :: "client_command \<Rightarrow> translator" where
  "command_translator (Cl_define _ _ _ _ _ _) = Translate_define"
| "command_translator (Cl_get _ _ _ _ _ _) = Translate_get"
| "command_translator (Cl_delete_one _ _ _) = Translate_delete"
| "command_translator (Cl_delete_all _ _) = Translate_delete"
| "command_translator (Cl_context _ _) = Translate_set"
| "command_translator (Cl_container _ _ _ _) = Translate_set"
| "command_translator _ = Translate_show"

abbreviation initial_map :: translator_map where
  "initial_map \<equiv> translations_initialize []"

lemma initial_find:
  "m_find initial_map n =
     map_of [(''show'', Translate_show), (''show.catalog'', Translate_catalog), (''show.info'', Translate_catalog),
        (''show.error'', Translate_show_error), (''set'', Translate_set), (''set.context'', Translate_context),
        (''set.container'', Translate_container), (''define'', Translate_define), (''delete'', Translate_delete),
        (''get'', Translate_get)] n"
  by (simp add: translations_initialize_def del: m_set.simps)

lemma find_command_word: "m_find initial_map (command_word c) = Some (command_translator c)"
  by (cases c) (simp_all add: initial_find command_word_def)

text \<open>A translator reads the tokens of its command and gives its element.\<close>

definition translates :: "client_command \<Rightarrow> bool" where
  "translates c = (\<forall>pre rest.
     call_translator initial_map (command_translator c) (at_tokens (pre @ [command_word c]) (later_tokens c @ rest)) =
     Inr (Some (command_element c), at_tokens (pre @ command_word c # later_tokens c) rest))"

lemmas command_simps = translates_def later_tokens_def command_word_def call_translator.simps translate_show_def
  translate_set_def translate_delete_def initial_find written_def optional_def attr_if_def element_if_def

lemma translates_show: "command_ok (Cl_show what) \<Longrightarrow> translates (Cl_show what)"
  by (simp add: command_simps wordD)

lemma translates_catalog: "command_ok (Cl_catalog what node) \<Longrightarrow> translates (Cl_catalog what node)"
  by (cases "node = []") (auto simp add: command_simps translate_catalog_def)

lemma capital_error: "capital ''error'' = ''Error''"
  by code_simp

lemma translates_show_error: "command_ok (Cl_show_error code) \<Longrightarrow> translates (Cl_show_error code)"
  by (simp add: command_simps translate_show_error_def wordD capital_error del: capital.simps)

lemma translates_context: "command_ok (Cl_context name value) \<Longrightarrow> translates (Cl_context name value)"
  by (simp add: command_simps translate_context_def wordD)

lemma translates_container:
  "command_ok (Cl_container space name value type) \<Longrightarrow> translates (Cl_container space name value type)"
  by (cases "space = []"; cases "type = []") (auto simp add: command_simps translate_container_def wordD word_or_none_def plain_char_def)

lemma translates_delete_one: "command_ok (Cl_delete_one what name space) \<Longrightarrow> translates (Cl_delete_one what name space)"
  by (cases "space = []") (auto simp add: command_simps wordD)

lemma translates_delete_all: "command_ok (Cl_delete_all what space) \<Longrightarrow> translates (Cl_delete_all what space)"
  by (cases "space = []") (auto simp add: command_simps)

lemma get_loop_steps:
  "pre \<noteq> [] \<Longrightarrow> get_loop ''return'' (r, u, s, b) (at_tokens pre (''as'' # v # w # rest)) =
     get_loop w (v, u, s, b) (at_tokens (pre @ [''as'', v, w]) rest)"
  "pre \<noteq> [] \<Longrightarrow> get_loop ''using'' (r, u, s, b) (at_tokens pre (v # w # rest)) = get_loop w (r, v, s, b) (at_tokens (pre @ [v, w]) rest)"
  "pre \<noteq> [] \<Longrightarrow> get_loop ''contentStartId'' (r, u, s, b) (at_tokens pre (v # w # rest)) = get_loop w (r, u, v, b) (at_tokens (pre @ [v, w]) rest)"
  "pre \<noteq> [] \<Longrightarrow> get_loop ''mimeBoundary'' (r, u, s, b) (at_tokens pre (v # w # rest)) = get_loop w (r, u, s, v) (at_tokens (pre @ [v, w]) rest)"
  "get_loop '';'' (r, u, s, b) t = Inr ((r, u, s, b), t)"
  by (subst get_loop.simps, simp)+

lemma translates_get:
  "command_ok (Cl_get what name returnAs url start bound) \<Longrightarrow> translates (Cl_get what name returnAs url start bound)"
  by (cases "returnAs = []"; cases "url = []"; cases "start = []"; cases "bound = []")
    (simp_all add: command_simps translate_get_def get_loop_steps)

text \<open>The three parts at the end of a define command, each with the token after it.\<close>

definition with_part :: "property list \<Rightarrow> lexeme list" where
  "with_part props = (if props = [] then [] else Word ''with'' # separated (map property_lexemes props))"

definition aggregate_part :: "string \<Rightarrow> string \<Rightarrow> lexeme list" where
  "aggregate_part ahandler acmd =
     (if acmd = [] then [] else [Word ''aggregate'', Word ''using'', Word ahandler, Word ''by'', Quoted acmd])"

lemma with_part_at:
  assumes "pre \<noteq> []" "list_all (property_ok names) props" "e \<in> {''aggregate'', '';''}"
    and "w # ts = tokens (with_part props) @ e # rest"
  shows "read_properties names w (at_tokens (pre @ [w]) ts) =
    Inr ((e, [], properties_of True props, properties_of False props), at_tokens (pre @ tokens (with_part props) @ [e]) rest)"
proof (cases props)
  case Nil
  then show ?thesis using assms(3,4) by (auto simp: with_part_def properties_of_def read_properties_def)
next
  case (Cons p ps)
  obtain w' ts' where w': "w' # ts' = tokens (separated (map property_lexemes props)) @ e # rest"
    by (cases "tokens (separated (map property_lexemes props)) @ e # rest") auto
  have w: "w = ''with''" "ts = w' # ts'" using assms(4) Cons w' by (auto simp: with_part_def)
  have n: "n \<in> set names \<Longrightarrow> m_find (fold (\<lambda>n m. m_set n n m) names []) n = Some n" for n by (rule own_names)
  have "props \<noteq> []" using Cons by simp
  then show ?thesis
    using with_loop_at [OF n assms(2,3) w', of "[]" "[]" "[]" "pre @ [''with'']"]
    by (simp add: w with_part_def properties_added read_properties_def)
qed

lemma aggregate_part_at:
  assumes "pre \<noteq> []" and "w # ts = tokens (aggregate_part ahandler acmd) @ '';'' # rest"
  shows "read_aggregate w (at_tokens (pre @ [w]) ts) =
    Inr (('';'', if acmd = [] then [] else ahandler, acmd), at_tokens (pre @ tokens (aggregate_part ahandler acmd) @ ['';'']) rest)"
  using assms by (cases "acmd = []") (auto simp: read_aggregate_def aggregate_part_def)

lemma translates_define:
  assumes "command_ok (Cl_define name space names props ahandler acmd)"
  shows "translates (Cl_define name space names props ahandler acmd)"
  unfolding translates_def
proof (intro allI)
  fix pre rest
  let ?c = "Cl_define name space names props ahandler acmd"
  let ?ns = "tokens (separated (map (\<lambda>n. [Word n]) names))"
  obtain e ts2 where e: "e # ts2 = tokens (aggregate_part ahandler acmd) @ '';'' # rest" "e \<in> {''aggregate'', '';''}"
    by (cases "acmd = []") (auto simp: aggregate_part_def)
  obtain w ts1 where w: "w # ts1 = tokens (with_part props) @ e # ts2" "w \<noteq> '',''"
    using e(2) by (cases "props = []") (auto simp: with_part_def)
  define q where "q = pre @ [''define'', name] @ tokens (optional ''in'' space) @ [''as'']"
  have q: "q \<noteq> []" by (simp add: q_def)
  have l: "later_tokens ?c @ rest = name # tokens (optional ''in'' space) @ ''as'' # ?ns @ w # ts1"
    using w(1) e(1) by (simp add: later_tokens_def with_part_def aggregate_part_def)
  have c: "container_names (at_tokens q (?ns @ w # ts1)) = Inr ((names, w), at_tokens (q @ ?ns @ [w]) ts1)"
    using container_names_at [OF q _ w(2)] assms by simp
  have ne: "q @ xs \<noteq> []" for xs using q by simp
  have props: "list_all (property_ok names) props" using assms by simp
  note wp = with_part_at [of "q @ ?ns" names props, OF ne props e(2) w(1), unfolded append_assoc]
  note ap = aggregate_part_at [of "q @ ?ns @ tokens (with_part props)", OF ne e(1), unfolded append_assoc]
  have r: "translate_define (at_tokens (pre @ [''define'']) (name # tokens (optional ''in'' space) @ ''as'' # ?ns @ w # ts1)) =
    Inr (define_element name space names ([], properties_of True props, properties_of False props) (if acmd = [] then [] else ahandler) acmd,
      at_tokens (q @ ?ns @ tokens (with_part props) @ tokens (aggregate_part ahandler acmd) @ ['';'']) rest)"
  proof (cases "space = []")
    case True
    then have "q = pre @ [''define'', name, ''as'']" by (simp add: q_def optional_def)
    then show ?thesis using True c wp ap by (simp add: translate_define_def optional_def)
  next
    case False
    then have "q = pre @ [''define'', name, ''in'', space, ''as'']" by (simp add: q_def optional_def)
    then show ?thesis using False c wp ap by (simp add: translate_define_def optional_def)
  qed
  have d: "define_element name space names ps (if acmd = [] then [] else ahandler) acmd = define_element name space names ps ahandler acmd" for ps
    by (simp add: define_element_def)
  show "call_translator initial_map (command_translator ?c) (at_tokens (pre @ [command_word ?c]) (later_tokens ?c @ rest)) =
     Inr (Some (command_element ?c), at_tokens (pre @ command_word ?c # later_tokens ?c) rest)"
    using r by (simp add: l d call_translator.simps written_def command_word_def)
      (simp add: later_tokens_def q_def with_part_def aggregate_part_def)
qed

lemma translates: "command_ok c \<Longrightarrow> translates c"
  by (cases c) (simp_all only: translates_show translates_catalog translates_show_error translates_context translates_container
      translates_define translates_delete_one translates_delete_all translates_get)

lemma translates_at:
  assumes "command_ok c"
  shows "call_translator initial_map (command_translator c) (at_tokens (pre @ [command_word c]) (later_tokens c @ rest)) =
      Inr (Some (command_element c), at_tokens (pre @ command_word c # later_tokens c) rest)"
    and "call_translator initial_map (command_translator c) (at_tokens (pre @ [command_word c]) (later_tokens c)) =
      Inr (Some (command_element c), at_tokens (pre @ command_word c # later_tokens c) [])"
  using translates [OF assms] unfolding translates_def by (blast, metis append_Nil2)

section \<open>A text of commands\<close>

lemma command_tokens: "tokens (command_lexemes c) = command_word c # later_tokens c"
  by (cases c) (simp_all add: command_word_def later_tokens_def)

lemma command_word_nonempty: "command_word c \<noteq> []"
  by (cases c) (simp_all add: command_word_def)

lemma do_translate_at:
  "list_all command_ok (c # cs) \<Longrightarrow>
     do_translate initial_map (at_tokens (pre @ [command_word c]) (later_tokens c @ concat (map (tokens \<circ> command_lexemes) cs))) =
       Inr (Some (map command_element (c # cs)))"
proof (induction cs arbitrary: pre c)
  case Nil
  obtain m where m: "get_next_token (at_tokens (pre @ command_word c # later_tokens c) []) = Inl (BESSyntaxUserError m)"
    using next_at_end by blast
  show ?case using Nil m
    by (subst do_translate.simps) (simp add: find_command_word translates_at)
next
  case (Cons c' cs)
  show ?case using Cons.prems Cons.IH [of c' "pre @ command_word c # later_tokens c"]
    by (subst do_translate.simps) (simp add: find_command_word translates_at command_tokens command_word_nonempty o_def)
qed

text \<open>Any blanks may stand after the lexemes, one at least.\<close>

definition commands_text :: "client_command list \<Rightarrow> string list \<Rightarrow> string" where
  "commands_text cs gaps = request_text (zip (concat (map command_lexemes cs)) gaps)"

lemma lexeme_ok_Word: "lexeme_ok (Word w) = word w"
  by (simp add: word_def list_all_iff)

lemma word_or_none: "word_or_none w \<longleftrightarrow> w = [] \<or> word w"
  by (auto simp: word_def word_or_none_def)

lemma keywords_ok:
  "word ''show''" "word ''for''" "word ''error''" "word ''set''" "word ''context''" "word ''to''"
  "word ''container''" "word ''in''" "word ''values''" "word ''define''" "word ''as''" "word ''with''"
  "word ''aggregate''" "word ''using''" "word ''by''" "word ''delete''" "word ''from''" "word ''get''"
  "word ''return''" "word ''contentStartId''" "word ''mimeBoundary''" "word ''catalog''" "word ''info''"
  "word ''containers''" "word ''definition''" "word ''definitions''"
  by code_simp+

lemma lexeme_ok_separated: "(\<forall>x \<in> set (separated xs). lexeme_ok x) = (\<forall>ys \<in> set xs. \<forall>x \<in> set ys. lexeme_ok x)"
  by (induction xs rule: separated.induct) auto

lemma lexeme_ok_property:
  assumes "list_all word names" "property_ok names p"
  shows "\<forall>x \<in> set (property_lexemes p). lexeme_ok x"
proof -
  obtain n c v where p: "p = (n, c, v)" by (cases p)
  have "word n" using assms by (auto simp: p list_all_iff)
  then show ?thesis by (auto simp: p word_def plain_char_def list_all_iff)
qed

lemmas lexemes_simps = lexeme_ok_Word word_or_none keywords_ok optional_def list_all_iff

lemma lexemes_ok_define:
  assumes "command_ok (Cl_define name space names props ahandler acmd)"
  shows "\<forall>x \<in> set (command_lexemes (Cl_define name space names props ahandler acmd)). lexeme_ok x"
proof -
  have "\<forall>ys \<in> set (map property_lexemes props). \<forall>x \<in> set ys. lexeme_ok x"
    using assms lexeme_ok_property [of names] by (auto simp: list_all_iff simp del: property_ok.simps property_lexemes.simps)
  then have "\<forall>x \<in> set (separated (map property_lexemes props)). lexeme_ok x" by (simp only: lexeme_ok_separated)
  moreover have "\<forall>x \<in> set (separated (map (\<lambda>n. [Word n]) names)). lexeme_ok x"
    using assms unfolding lexeme_ok_separated by (simp add: list_all_iff lexeme_ok_Word del: lexeme_ok.simps(1))
  ultimately show ?thesis using assms
    by (auto simp: lexemes_simps simp del: lexeme_ok.simps(1))
qed

lemma lexemes_ok: "command_ok c \<Longrightarrow> \<forall>x \<in> set (command_lexemes c). lexeme_ok x"
proof (cases c)
  case Cl_define
  then show "command_ok c \<Longrightarrow> ?thesis" using lexemes_ok_define by blast
qed (auto simp: lexemes_simps simp del: lexeme_ok.simps(1))

lemma lexemes_end: "command_ok c \<Longrightarrow> command_lexemes c \<noteq> [] \<and> last (command_lexemes c) = Semicolon"
  by (cases c) auto

lemma tokenize_lexemes:
  assumes "\<forall>(l, g) \<in> set ls. lexeme_ok l \<and> gap g" and "ls \<noteq> []" "fst (last ls) = Semicolon"
  shows "tokenize (request_text ls) (new_tokenizer junk) =
    Inr \<lparr>tk_tokens = tokens (map fst ls), tk_counter = - 1, tk_number = int (length ls)\<rparr>"
proof -
  have s: "scan_all (request_text ls) (between []) = between (tokens (map fst ls))"
    using scan_request [OF assms(1), of "[]"] by simp
  have "tokens (map fst ls) ! (length ls - 1) = '';''"
    using assms(2,3) by (simp add: last_conv_nth nth_map del: map_map)
  then show ?thesis using s assms(2) by (simp add: tokenize_def new_tokenizer_def push_token_def Let_def Suc_le_eq)
qed

lemma lexemes_joined:
  "list_all command_ok cs \<Longrightarrow> cs \<noteq> [] \<Longrightarrow>
     concat (map command_lexemes cs) \<noteq> [] \<and> last (concat (map command_lexemes cs)) = Semicolon"
proof (induction cs)
  case (Cons c cs)
  note e = lexemes_end [of c]
  show ?case
  proof (cases "cs = []")
    case False
    then have "concat (map command_lexemes cs) \<noteq> []" "last (concat (map command_lexemes cs)) = Semicolon" using Cons by auto
    then show ?thesis by (simp add: last_append del: concat_eq_Nil_conv)
  qed (use e Cons.prems in simp)
qed simp

lemma zip_ok:
  "length gs = length ls \<Longrightarrow> \<forall>x \<in> set ls. lexeme_ok x \<Longrightarrow> \<forall>g \<in> set gs. gap g \<Longrightarrow>
     \<forall>(l, g) \<in> set (zip ls gs). lexeme_ok l \<and> gap g"
  by (auto dest: set_zip_leftD set_zip_rightD)

lemma translate_commands:
  assumes "list_all command_ok cs" "cs \<noteq> []"
    and "length gaps = length (concat (map command_lexemes cs))" "\<forall>g \<in> set gaps. gap g"
  shows "translate (translations_initialize []) junk (commands_text cs gaps) =
    Inr (Some (Element ''request'' [(''reqID'', Some ''some_unique_value'')] (map command_element cs)))"
proof -
  obtain c cs' where cs: "cs = c # cs'" using assms(2) by (cases cs) auto
  let ?ls = "concat (map command_lexemes cs)"
  have ok: "\<forall>x \<in> set ?ls. lexeme_ok x" using assms(1) lexemes_ok by (auto simp: list_all_iff)
  have l: "?ls \<noteq> []" "last ?ls = Semicolon"
    using lexemes_joined [OF assms(1,2)] by simp_all
  have f: "map fst (zip ?ls gaps) = ?ls" using assms(3) by simp
  have z: "zip ?ls gaps \<noteq> []" "fst (last (zip ?ls gaps)) = Semicolon" "length (zip ?ls gaps) = length ?ls"
  proof -
    show "length (zip ?ls gaps) = length ?ls" using assms(3) by simp
    then show n: "zip ?ls gaps \<noteq> []" using l(1) by (metis length_0_conv)
    have "fst (last (zip ?ls gaps)) = last ?ls" using n f by (metis last_map)
    then show "fst (last (zip ?ls gaps)) = Semicolon" using l(2) by simp
  qed
  have t: "tokenize (commands_text cs gaps) (new_tokenizer junk) =
      Inr \<lparr>tk_tokens = tokens ?ls, tk_counter = - 1, tk_number = int (length ?ls)\<rparr>"
    using tokenize_lexemes [OF zip_ok [OF assms(3) ok assms(4)] z(1,2)] z(3) f by (simp add: commands_text_def)
  have k: "tokens ?ls = [command_word c] @ later_tokens c @ concat (map (tokens \<circ> command_lexemes) cs')"
    by (simp add: cs command_tokens map_concat o_def)
  have n: "length ?ls = Suc (length (later_tokens c @ concat (map (tokens \<circ> command_lexemes) cs')))"
    using arg_cong [OF k, of length] by simp
  have "do_translate initial_map \<lparr>tk_tokens = tokens ?ls, tk_counter = 0, tk_number = int (length ?ls)\<rparr> = Inr (Some (map command_element cs))"
    using do_translate_at [of c cs' "[]"] assms(1) by (simp add: cs [symmetric] k n at_tokens_def)
  then show ?thesis
    by (simp add: translate_def t get_first_token_def k command_word_nonempty del: length_concat)
qed

text \<open>
  C9: A text of commands, with any blanks between its words, becomes the request document that has one
  element for each command, in order, written the way the server reads it: showing, setting contexts and
  containers, defining with constraints, attributes and an aggregation, deleting, and getting.
\<close>

theorem commands_translated:
  assumes "list_all command_ok cs" "cs \<noteq> []"
    and "length gaps = length (concat (map command_lexemes cs))" "\<forall>g \<in> set gaps. gap g"
  shows "translate (translations_initialize []) junk (commands_text cs gaps) =
    Inr (Some (Element ''request'' [(''reqID'', Some ''some_unique_value'')] (map command_element cs)))"
  by (rule translate_commands [OF assms])

theorem commands_translated_witness:
  "translate (translations_initialize []) 7
     (''set context x to y ; define d as a , b with a.constraint= '' @ [dquote] @ ''u[0:3]'' @ [dquote] @ '' ; get dods for d ; '') =
   Inr (Some (Element ''request'' [(''reqID'', Some ''some_unique_value'')]
     [Element ''setContext'' [(''name'', Some ''x'')] [Text_node (Some ''y'')],
      Element ''define'' [(''name'', Some ''d'')]
        [Element ''container'' [(''name'', Some ''a'')] [Element ''constraint'' [] [Text_node (Some ''u[0:3]'')]],
         Element ''container'' [(''name'', Some ''b'')] []],
      Element ''get'' [(''type'', Some ''dods''), (''definition'', Some ''d'')] []]))"
proof -
  let ?cs = "[Cl_context ''x'' ''y'', Cl_define ''d'' [] [''a'', ''b''] [(''a'', True, ''u[0:3]'')] [] [], Cl_get ''dods'' ''d'' [] [] [] []]"
  let ?gaps = "replicate 21 '' ''"
  have ok: "list_all command_ok ?cs" "?cs \<noteq> []" "length ?gaps = length (concat (map command_lexemes ?cs))" "\<forall>g \<in> set ?gaps. gap g"
    by code_simp+
  have e: "map command_element ?cs =
     [Element ''setContext'' [(''name'', Some ''x'')] [Text_node (Some ''y'')],
      Element ''define'' [(''name'', Some ''d'')]
        [Element ''container'' [(''name'', Some ''a'')] [Element ''constraint'' [] [Text_node (Some ''u[0:3]'')]],
         Element ''container'' [(''name'', Some ''b'')] []],
      Element ''get'' [(''type'', Some ''dods''), (''definition'', Some ''d'')] []]"
    by code_simp
  have t: "commands_text ?cs ?gaps =
     ''set context x to y ; define d as a , b with a.constraint= '' @ [dquote] @ ''u[0:3]'' @ [dquote] @ '' ; get dods for d ; ''"
    by code_simp
  show ?thesis using commands_translated [OF ok, of 7] unfolding e t .
qed

text \<open>
  A default constraint cannot be typed: the loop over the properties of a definition never ends well
  once it has met the word \<^verbatim>\<open>constraint\<close>, whatever follows, since it reads the value and looks at the same word
  again.
\<close>

theorem default_constraint_refused: "\<not> is_ok (with_loop clist ''constraint'' ps t)"
proof (induction "remaining t" arbitrary: ps t rule: less_induct)
  case less
  obtain d cs as where ps: "ps = (d, cs, as)" by (cases ps)
  show ?case
  proof (cases "next_quoted t")
    case (Inr r)
    obtain s u where r: "r = (s, u)" by (cases r)
    have "\<not> is_ok (with_loop clist ''constraint'' (s, cs, as) u)"
      using Inr less [of u] by (simp add: r next_quoted_ahead)
    then show ?thesis using Inr unfolding ps by (subst with_loop.simps) (simp add: r)
  qed (unfold ps, subst with_loop.simps, simp add: is_ok_def)
qed

section \<open>A definition as typed and as read\<close>

fun spec_properties :: "container_spec \<Rightarrow> property list" where
  "spec_properties (n, space, con, attrs) =
     (if con = [] then [] else [(n, True, con)]) @ (if attrs = [] then [] else [(n, False, attrs)])"

definition typed_define :: "string \<Rightarrow> string \<Rightarrow> container_spec list \<Rightarrow> client_command" where
  "typed_define name space cs = Cl_define name space (map fst cs) (concat (map spec_properties cs)) [] []"

definition put_property :: "bool \<Rightarrow> property \<Rightarrow> props \<Rightarrow> props" where
  "put_property con = (\<lambda>(n, c, v) m. if c = con then m_set n v m else m)"

lemma put_other: "n \<notin> fst ` set ps \<Longrightarrow> m_find (fold (put_property con) ps m) n = m_find m n"
  by (induction ps arbitrary: m) (auto simp: put_property_def)

lemma put_spec:
  "m_find (fold (put_property b) (spec_properties (n, sp, con, attrs)) m) n =
     (if (if b then con else attrs) = [] then m_find m n else Some (if b then con else attrs))"
  by (auto simp: put_property_def)

lemma spec_names: "fst ` set (concat (map spec_properties cs)) \<subseteq> fst ` set cs"
  by (auto split: if_splits) force+

lemma properties_found:
  assumes "distinct (map fst cs)" "(n, sp, con, attrs) \<in> set cs"
  shows "m_find (properties_of True (concat (map spec_properties cs))) n = (if con = [] then None else Some con)"
    and "m_find (properties_of False (concat (map spec_properties cs))) n = (if attrs = [] then None else Some attrs)"
proof -
  obtain cs1 cs2 where cs: "cs = cs1 @ (n, sp, con, attrs) # cs2" using assms(2) by (meson split_list)
  have "n \<notin> fst ` set cs1" "n \<notin> fst ` set cs2" using assms(1) by (simp_all add: cs)
  then have *: "n \<notin> fst ` set (concat (map spec_properties cs1))" "n \<notin> fst ` set (concat (map spec_properties cs2))"
    using spec_names by blast+
  show "m_find (properties_of True (concat (map spec_properties cs))) n = (if con = [] then None else Some con)"
    "m_find (properties_of False (concat (map spec_properties cs))) n = (if attrs = [] then None else Some attrs)"
    unfolding properties_of_def put_property_def [symmetric] cs map_append concat_append fold_append o_apply list.map concat.simps
      put_other [OF *(2)] put_spec put_other [OF *(1)]
    by (simp_all add: m_find_def)
qed

lemma typed_element:
  assumes "distinct (map fst cs)" "list_all (\<lambda>(n, sp, con, attrs). sp = []) cs" "list_all clean_spec cs" "name \<noteq> []"
  shows "command_element (typed_define name space cs) = define_xml name space [] cs"
proof -
  have "map (container_element (properties_of True (concat (map spec_properties cs))) (properties_of False (concat (map spec_properties cs))))
      (map fst cs) = map container_xml cs"
    unfolding map_map
  proof (rule map_cong [OF refl])
    fix p assume p: "p \<in> set cs"
    obtain n sp con attrs where e: "p = (n, sp, con, attrs)" by (metis prod_cases4)
    have "sp = []" "n \<noteq> []" using assms(2,3) p by (auto simp: list_all_iff e)
    then show "(container_element (properties_of True (concat (map spec_properties cs)))
        (properties_of False (concat (map spec_properties cs))) \<circ> fst) p = container_xml p"
      using properties_found [OF assms(1) p [unfolded e]]
      by (simp add: e container_element_def element_if_def text_element_def attribute_def)
  qed
  then show ?thesis using assms(4)
    by (simp add: typed_define_def define_element_def define_xml_def attribute_def attr_if_def element_if_def text_element_def)
qed

text \<open>
  C8: A define command reaches the server as it was typed: the text of the command is translated into a
  document with one element, and the command that the server parses from it has the name and the store of
  the definition, the containers in order, and for each container its constraint and its attributes. The
  names differ, and the strings have no blanks around them and no entities.
\<close>

theorem define_typed_and_read:
  assumes "command_ok (typed_define name space cs)"
    and "length gaps = length (command_lexemes (typed_define name space cs))" "\<forall>g \<in> set gaps. gap g"
    and "clean name" "clean space" "list_all clean_spec cs" "list_all (\<lambda>(n, sp, con, attrs). sp = []) cs"
    and "distinct (map fst cs)" "rsl ''define'' = Some h"
  shows "\<exists>x c. translate (translations_initialize []) junk (commands_text [typed_define name space cs] gaps) =
      Inr (Some (Element ''request'' [(''reqID'', Some ''some_unique_value'')] [x])) \<and>
    parse_define rsl x (new_command Define base) = (c, None) \<and> def_names c = map fst cs \<and>
    (\<forall>(n, sp, con, attrs) \<in> set cs. at_key (def_constraints c) n = con \<and> at_key (def_attributes c) n = attrs) \<and>
    data_at (cmd_dhi c) ''def_name'' = name \<and> data_at (cmd_dhi c) ''store_name'' = space \<and>
    response_handler (cmd_dhi c) = Some h"
proof -
  have n: "name \<noteq> []" "cs \<noteq> []" using assms(1) by (auto simp: typed_define_def word_def)
  note t = translate_commands [of "[typed_define name space cs]" gaps junk]
  have d: "clean []" by (simp add: clean_def clean_Nil)
  from read_define [OF assms(4) n(1) assms(5) d assms(6) n(2) assms(8), of rsl h base, OF assms(9)]
  obtain c where c: "parse_define rsl (define_xml name space [] cs) (new_command Define base) = (c, None)" "def_names c = map fst cs"
    "\<forall>(n, sp, con, attrs) \<in> set cs. at_key (def_stores c) n = sp \<and> at_key (def_constraints c) n = con \<and> at_key (def_attributes c) n = attrs"
    "data_at (cmd_dhi c) ''def_name'' = name" "data_at (cmd_dhi c) ''store_name'' = space" "response_handler (cmd_dhi c) = Some h"
    by blast
  show ?thesis
    using t assms(1-3) c typed_element [OF assms(8,7,6) n(1), of space]
    by (intro exI [of _ "define_xml name space [] cs"] exI [of _ c]) auto
qed

theorem define_typed_and_read_witness:
  "\<exists>x c. translate (translations_initialize []) 0
      (''define d as a , b with a.constraint= '' @ [dquote] @ ''u[0:3]'' @ [dquote] @ '' ; '') =
      Inr (Some (Element ''request'' [(''reqID'', Some ''some_unique_value'')] [x])) \<and>
    parse_define (\<lambda>n. if n = ''define'' then Some H_define else None) x (new_command Define new_request) = (c, None) \<and>
    def_names c = [''a'', ''b''] \<and> at_key (def_constraints c) ''a'' = ''u[0:3]''"
proof -
  let ?cs = "[(''a'', [], ''u[0:3]'', []), (''b'', [], [], [])]" and ?gaps = "replicate 10 '' ''"
  have ok: "command_ok (typed_define ''d'' [] ?cs)" "length ?gaps = length (command_lexemes (typed_define ''d'' [] ?cs))"
    "\<forall>g \<in> set ?gaps. gap g" "clean ''d''" "clean []" "list_all clean_spec ?cs"
    "list_all (\<lambda>(n, sp, con, attrs). sp = []) ?cs" "distinct (map fst ?cs)"
    by code_simp+
  have t: "commands_text [typed_define ''d'' [] ?cs] ?gaps =
      ''define d as a , b with a.constraint= '' @ [dquote] @ ''u[0:3]'' @ [dquote] @ '' ; ''"
    by code_simp
  from define_typed_and_read [OF ok, of "\<lambda>n. if n = ''define'' then Some H_define else None" H_define 0 new_request]
  show ?thesis unfolding t by auto
qed

end
