(* ===== verification/AttrTable.thy ===== *)
theory AttrTable
  imports Escaping BesUtil
begin

text \<open>
  Attribute tables, \<^verbatim>\<open>libdap/AttrTable.cc\<close> and \<^verbatim>\<open>AttrTable.h\<close>: trees of named attributes whose containers
  are tables again, with aliases that share the container or the values of another attribute. The
  sharing makes an explicit store necessary: tables and vectors of values have addresses. An iterator is
  the address of a table and a position.
\<close>

section \<open>Names and types\<close>

lemma find_sub_parts:
  assumes "find_sub s t 0 = Some j"
  shows "\<exists>u v. s = u @ t @ v \<and> length u = j"
proof -
  obtain v where "drop j s = t @ v" using find_sub_SomeD(3) [OF assms] by (auto simp: starts_with_iff)
  then show ?thesis using find_sub_SomeD(2) [OF assms]
    by (metis append_take_drop_id add_leE length_take min.absorb2)
qed

text \<open>Both loops search from the beginning again after each replacement.\<close>

function remove_space_encoding :: "string \<Rightarrow> string" where
  "remove_space_encoding s =
     (case find_sub s ''%20'' 0 of Some pos \<Rightarrow> remove_space_encoding (str_replace s pos 3 '' '') | None \<Rightarrow> s)"
  by pat_completeness auto

termination
  by (relation "measure length") (auto dest!: find_sub_parts simp: str_replace_def)

declare remove_space_encoding.simps [simp del]

function add_space_encoding :: "string \<Rightarrow> string" where
  "add_space_encoding s =
     (case find_sub s '' '' 0 of Some pos \<Rightarrow> add_space_encoding (str_replace s pos 1 ''%20'') | None \<Rightarrow> s)"
  by pat_completeness auto

termination
  by (relation "measure (\<lambda>s. length (filter (\<lambda>c. c = CHR '' '') s))")
    (auto dest!: find_sub_parts simp: str_replace_def)

declare add_space_encoding.simps [simp del]

datatype attr_type =
    Attr_unknown | Attr_container | Attr_byte | Attr_int16 | Attr_uint16 | Attr_int32 | Attr_uint32
  | Attr_float32 | Attr_float64 | Attr_string | Attr_url | Attr_other_xml

fun AttrType_to_String :: "attr_type \<Rightarrow> string" where
  "AttrType_to_String Attr_container = ''Container''"
| "AttrType_to_String Attr_byte = ''Byte''"
| "AttrType_to_String Attr_int16 = ''Int16''"
| "AttrType_to_String Attr_uint16 = ''UInt16''"
| "AttrType_to_String Attr_int32 = ''Int32''"
| "AttrType_to_String Attr_uint32 = ''UInt32''"
| "AttrType_to_String Attr_float32 = ''Float32''"
| "AttrType_to_String Attr_float64 = ''Float64''"
| "AttrType_to_String Attr_string = ''String''"
| "AttrType_to_String Attr_url = ''Url''"
| "AttrType_to_String Attr_other_xml = ''OtherXML''"
| "AttrType_to_String Attr_unknown = ''''"

definition String_to_AttrType :: "string \<Rightarrow> attr_type" where
  "String_to_AttrType s =
     (let s2 = map tolower s in
      if s2 = ''container'' then Attr_container else if s2 = ''byte'' then Attr_byte
      else if s2 = ''int16'' then Attr_int16 else if s2 = ''uint16'' then Attr_uint16
      else if s2 = ''int32'' then Attr_int32 else if s2 = ''uint32'' then Attr_uint32
      else if s2 = ''float32'' then Attr_float32 else if s2 = ''float64'' then Attr_float64
      else if s2 = ''string'' then Attr_string else if s2 = ''url'' then Attr_url
      else if s2 = ''otherxml'' then Attr_other_xml else Attr_unknown)"

section \<open>The store\<close>

text \<open>
  The pointer to the other kind of content is null. The flag of a table and of an entry says whether the
  attribute is global.
\<close>

record entry =
  e_name :: string
  e_type :: attr_type
  e_is_alias :: bool
  e_aliased_to :: string
  e_is_global :: bool
  e_attributes :: "nat option"
  e_attr :: "nat option"

record attr_table =
  d_name :: string
  d_parent :: "nat option"
  attr_map :: "entry list"
  d_is_global_attribute :: bool

text \<open>Addresses are given out once.\<close>

record at_heap =
  h_tables :: "nat \<Rightarrow> attr_table option"
  h_values :: "nat \<Rightarrow> string list option"
  h_next :: nat

definition empty_heap :: at_heap where
  "empty_heap = \<lparr>h_tables = (\<lambda>_. None), h_values = (\<lambda>_. None), h_next = 0\<rparr>"

text \<open>\<open>Fault\<close> is a read through a null or a dangling pointer, or an assertion that does not hold.\<close>

datatype at_error = Throws dap_error | Fault

type_synonym 'a at_result = "at_error + 'a"

definition table_at :: "at_heap \<Rightarrow> nat \<Rightarrow> attr_table at_result" where
  "table_at h a = (case h_tables h a of Some t \<Rightarrow> Inr t | None \<Rightarrow> Inl Fault)"

definition values_at :: "at_heap \<Rightarrow> nat option \<Rightarrow> string list at_result" where
  "values_at h p = (case p of None \<Rightarrow> Inl Fault | Some v \<Rightarrow> (case h_values h v of Some x \<Rightarrow> Inr x | None \<Rightarrow> Inl Fault))"

definition put_table :: "nat \<Rightarrow> attr_table \<Rightarrow> at_heap \<Rightarrow> at_heap" where
  "put_table a t h = h\<lparr>h_tables := (h_tables h)(a \<mapsto> t)\<rparr>"

definition put_values :: "nat \<Rightarrow> string list \<Rightarrow> at_heap \<Rightarrow> at_heap" where
  "put_values v xs h = h\<lparr>h_values := (h_values h)(v \<mapsto> xs)\<rparr>"

definition new_values :: "string list \<Rightarrow> at_heap \<Rightarrow> nat \<times> at_heap" where
  "new_values xs h = (h_next h, (put_values (h_next h) xs h)\<lparr>h_next := h_next h + 1\<rparr>)"

definition blank_table :: attr_table where
  "blank_table = \<lparr>d_name = '''', d_parent = None, attr_map = [], d_is_global_attribute = True\<rparr>"

definition new_AttrTable :: "at_heap \<Rightarrow> nat \<times> at_heap" where
  "new_AttrTable h = (h_next h, (put_table (h_next h) blank_table h)\<lparr>h_next := h_next h + 1\<rparr>)"

text \<open>The constructor of an entry.\<close>

definition blank_entry :: entry where
  "blank_entry = \<lparr>e_name = '''', e_type = Attr_unknown, e_is_alias = False, e_aliased_to = '''', e_is_global = True,
     e_attributes = None, e_attr = None\<rparr>"

definition push_entry :: "nat \<Rightarrow> entry \<Rightarrow> at_heap \<Rightarrow> at_heap at_result" where
  "push_entry a e h = rbind (table_at h a) (\<lambda>t. Inr (put_table a (t\<lparr>attr_map := attr_map t @ [e]\<rparr>) h))"

text \<open>
  A recursion that may run for ever has no result then; otherwise it has an error or a value. One
  after the other:
\<close>

definition obind :: "('e + 'a) option \<Rightarrow> ('a \<Rightarrow> ('e + 'b) option) \<Rightarrow> ('e + 'b) option" where
  "obind r f = Option.bind r (\<lambda>s. case s of Inl x \<Rightarrow> Some (Inl x) | Inr a \<Rightarrow> f a)"

lemma obind_simps [simp]: "obind None f = None" "obind (Some (Inl x)) f = Some (Inl x)" "obind (Some (Inr a)) f = f a"
  by (simp_all add: obind_def)

lemma obind_mono [partial_function_mono]:
  assumes "mono_option B" "\<And>a. mono_option (\<lambda>f. C a f)"
  shows "mono_option (\<lambda>f. obind (B f) (\<lambda>a. C a f))"
proof -
  have "mono_option (\<lambda>f. case s of Inl x \<Rightarrow> Some (Inl x) | Inr a \<Rightarrow> C a f)" for s
    using assms(2) by (cases s) (auto intro: option.const_mono)
  then show ?thesis unfolding obind_def by (rule bind_mono [OF assms(1)])
qed

section \<open>Searching\<close>

text \<open>The position of the first entry of that name, or the end.\<close>

fun simple_find_from :: "string \<Rightarrow> entry list \<Rightarrow> nat" where
  "simple_find_from target [] = 0"
| "simple_find_from target (e # es) = (if target = e_name e then 0 else Suc (simple_find_from target es))"

definition simple_find :: "attr_table \<Rightarrow> string \<Rightarrow> nat option" where
  "simple_find t target =
     (let i = simple_find_from target (attr_map t) in if i < length (attr_map t) then Some i else None)"

definition is_container :: "entry \<Rightarrow> bool" where
  "is_container e = (e_type e = Attr_container)"

fun container_named :: "string \<Rightarrow> entry list \<Rightarrow> nat option option" where
  "container_named target [] = None"
| "container_named target (e # es) =
     (if is_container e \<and> target = e_name e then Some (e_attributes e) else container_named target es)"

text \<open>The pointer that is returned; null is \<open>None\<close>.\<close>

definition simple_find_container :: "at_heap \<Rightarrow> nat \<Rightarrow> string \<Rightarrow> nat option at_result" where
  "simple_find_container h a target =
     rbind (table_at h a) (\<lambda>t. if d_name t = target then Inr (Some a)
       else Inr (case container_named target (attr_map t) of Some p \<Rightarrow> p | None \<Rightarrow> None))"

function find_container :: "at_heap \<Rightarrow> nat \<Rightarrow> string \<Rightarrow> nat option at_result" where
  "find_container h a target =
     (case find_char target (CHR ''.'') 0 of
        Some dotpos \<Rightarrow>
          rbind (simple_find_container h a (substr target 0 dotpos)) (\<lambda>p.
          case p of Some at \<Rightarrow> find_container h at (substr_from target (dotpos + 1)) | None \<Rightarrow> Inr None)
      | None \<Rightarrow> simple_find_container h a target)"
  by pat_completeness auto

termination
  by (relation "measure (\<lambda>(h, a, target). length target)")
    (auto simp: find_char_def substr_from_def dest: find_if_from_SomeD)

declare find_container.simps [simp del]

text \<open>
  The recursive search over the entries of the table \<open>a\<close> from position \<open>i\<close> on. It may run for ever: then
  there is no result. The result is the table and the position, or null.
\<close>

partial_function (option) find_from ::
  "at_heap \<Rightarrow> string \<Rightarrow> nat \<Rightarrow> nat \<Rightarrow> entry list \<Rightarrow> (nat \<times> nat) option at_result option" where
  "find_from h target a i es =
     (case es of
        [] \<Rightarrow> Some (Inr None)
      | e # rest \<Rightarrow>
          if target = e_name e then Some (Inr (Some (a, i)))
          else if e_type e = Attr_container then
            (case e_attributes e of
               None \<Rightarrow> Some (Inl Fault)
             | Some c \<Rightarrow> (case h_tables h c of
                   None \<Rightarrow> Some (Inl Fault)
                 | Some t \<Rightarrow> obind (find_from h target c 0 (attr_map t)) (\<lambda>r.
                     case r of Some p \<Rightarrow> Some (Inr (Some p)) | None \<Rightarrow> find_from h target a (i + 1) rest)))
          else find_from h target a (i + 1) rest)"

definition recurrsive_find :: "at_heap \<Rightarrow> nat \<Rightarrow> string \<Rightarrow> (nat \<times> nat) option at_result option" where
  "recurrsive_find h a target =
     (case h_tables h a of None \<Rightarrow> Some (Inl Fault) | Some t \<Rightarrow> find_from h target a 0 (attr_map t))"

text \<open>A position at the end counts as not found; the callers look at both results.\<close>

definition at_find :: "at_heap \<Rightarrow> nat \<Rightarrow> string \<Rightarrow> (nat \<times> nat) option at_result option" where
  "at_find h a target =
     (case rfind_sub target ''.'' of
        Some dotpos \<Rightarrow>
          Some (rbind (find_container h a (substr target 0 dotpos)) (\<lambda>p.
            case p of
              Some c \<Rightarrow> rbind (table_at h c) (\<lambda>t. Inr (case simple_find t (substr_from target (dotpos + 1)) of
                            Some i \<Rightarrow> Some (c, i) | None \<Rightarrow> None))
            | None \<Rightarrow> Inr None))
      | None \<Rightarrow> recurrsive_find h a target)"

section \<open>Building\<close>

text \<open>The message of an exception quotes the name between a back quote and an apostrophe.\<close>

definition quoted_name :: "string \<Rightarrow> string" where
  "quoted_name name = [CHR 0x60] @ name @ [squote]"

definition set_name :: "nat \<Rightarrow> string \<Rightarrow> at_heap \<Rightarrow> at_heap at_result" where
  "set_name a n h = rbind (table_at h a) (\<lambda>t. Inr (put_table a (t\<lparr>d_name := remove_space_encoding n\<rparr>) h))"

text \<open>Both versions of \<^verbatim>\<open>append_attr\<close>: one value, or a vector of them. The result is the number of values.\<close>

definition append_values :: "nat \<Rightarrow> string \<Rightarrow> string \<Rightarrow> string list \<Rightarrow> at_heap \<Rightarrow> (nat \<times> at_heap) at_result" where
  "append_values a name type values h =
     rbind (table_at h a) (\<lambda>t.
     let lname = remove_space_encoding name in
     case simple_find t lname of
       Some i \<Rightarrow>
         (let e = attr_map t ! i in
          if e_type e \<noteq> String_to_AttrType type
          then Inl (Throws (Error (''An attribute called '' @ quoted_name name @ '' already exists but is of a different type'')))
          else if AttrType_to_String (e_type e) = ''Container''
          then Inl (Throws (Error (''An attribute called '' @ quoted_name name @ '' already exists but is a container.'')))
          else rbind (values_at h (e_attr e)) (\<lambda>vs.
               Inr (length vs + length values, put_values (the (e_attr e)) (vs @ values) h)))
     | None \<Rightarrow>
         (let (v, h) = new_values values h
          in rbind (push_entry a (blank_entry\<lparr>e_name := lname, e_type := String_to_AttrType type, e_attr := Some v\<rparr>) h)
               (\<lambda>h. Inr (length values, h))))"

definition append_attr :: "nat \<Rightarrow> string \<Rightarrow> string \<Rightarrow> string \<Rightarrow> at_heap \<Rightarrow> (nat \<times> at_heap) at_result" where
  "append_attr a name type v h = append_values a name type [v] h"

text \<open>The test for an entry of that name is made with the name as it came, not with the decoded one.\<close>

definition append_container :: "nat \<Rightarrow> nat \<Rightarrow> string \<Rightarrow> at_heap \<Rightarrow> (nat \<times> at_heap) at_result" where
  "append_container a at name h =
     rbind (table_at h a) (\<lambda>t.
     let lname = remove_space_encoding name in
     if simple_find t name \<noteq> None
     then Inl (Throws (Error (''There already exists a container called '' @ quoted_name name @ '' in this attribute table. (1)'')))
     else rbind (set_name at lname h) (\<lambda>h.
          rbind (push_entry a (blank_entry\<lparr>e_name := lname, e_type := Attr_container, e_attributes := Some at\<rparr>) h) (\<lambda>h.
          rbind (table_at h at) (\<lambda>t. Inr (at, put_table at (t\<lparr>d_parent := Some a\<rparr>) h)))))"

text \<open>With a new table, which is deleted again when the name is taken.\<close>

definition append_new_container :: "nat \<Rightarrow> string \<Rightarrow> at_heap \<Rightarrow> (nat \<times> at_heap) at_result" where
  "append_new_container a name h = (let (at, h) = new_AttrTable h in append_container a at name h)"

definition add_container_alias :: "nat \<Rightarrow> string \<Rightarrow> nat \<Rightarrow> at_heap \<Rightarrow> at_heap at_result" where
  "add_container_alias a name src h =
     rbind (table_at h a) (\<lambda>t.
     let lname = remove_space_encoding name in
     if simple_find t lname \<noteq> None
     then Inl (Throws (Error (''There already exists a container called '' @ [CHR 0x60] @ name @ ''in this attribute table. (2)'')))
     else rbind (table_at h src) (\<lambda>s.
          push_entry a (blank_entry\<lparr>e_name := lname, e_is_alias := True, e_aliased_to := d_name s, e_type := Attr_container,
            e_attributes := Some src\<rparr>) h))"

text \<open>
  The source of an alias is searched in the whole object, then in the table itself. Without an answer of
  the search there is no answer here.
\<close>

definition find_source :: "nat \<Rightarrow> nat \<Rightarrow> string \<Rightarrow> at_heap \<Rightarrow> (nat \<times> nat) option at_result option" where
  "find_source a das lsource h =
     obind (at_find h das lsource) (\<lambda>r. case r of None \<Rightarrow> at_find h a lsource | Some p \<Rightarrow> Some (Inr (Some p)))"

definition make_value_alias :: "nat \<Rightarrow> nat \<Rightarrow> string \<Rightarrow> string \<Rightarrow> (nat \<times> nat) option \<Rightarrow> at_heap \<Rightarrow> at_heap at_result" where
  "make_value_alias a das name source found h =
     (case found of
        None \<Rightarrow> Inl (Throws (Error (''Could not find the attribute '' @ quoted_name source @ '' in the attribute object.'')))
      | Some (at, i) \<Rightarrow>
          rbind (table_at h at) (\<lambda>s.
          let src = attr_map s ! i; lname = remove_space_encoding name in
          if \<not> is_container src \<and> a = das
          then Inl (Throws (Error (''A value cannot be aliased to the top level of the DAS;'' @ [lf] @
                 ''Only containers may be present at that level of the DAS.'')))
          else rbind (table_at h a) (\<lambda>t.
               if simple_find t lname \<noteq> None
               then Inl (Throws (Error (''There already exists a container called '' @ [CHR 0x60] @ name @ ''in this attribute table. (3)'')))
               else push_entry a (blank_entry\<lparr>e_name := lname, e_is_alias := True,
                      e_aliased_to := remove_space_encoding source, e_type := e_type src,
                      e_attributes := (if is_container src then e_attributes src else None),
                      e_attr := (if is_container src then None else e_attr src)\<rparr>) h)))"

definition add_value_alias :: "nat \<Rightarrow> nat \<Rightarrow> string \<Rightarrow> string \<Rightarrow> at_heap \<Rightarrow> at_heap at_result option" where
  "add_value_alias a das name source h =
     obind (find_source a das (remove_space_encoding source) h) (\<lambda>found. Some (make_value_alias a das name source found h))"

section \<open>Reading\<close>

definition get_type :: "attr_table \<Rightarrow> string \<Rightarrow> string" where
  "get_type t name = (case simple_find t name of Some i \<Rightarrow> AttrType_to_String (e_type (attr_map t ! i)) | None \<Rightarrow> '''')"

definition get_attr_type :: "attr_table \<Rightarrow> string \<Rightarrow> attr_type" where
  "get_attr_type t name = (case simple_find t name of Some i \<Rightarrow> e_type (attr_map t ! i) | None \<Rightarrow> Attr_unknown)"

definition entry_num :: "at_heap \<Rightarrow> entry \<Rightarrow> nat at_result" where
  "entry_num h e =
     (if is_container e
      then (case e_attributes e of Some c \<Rightarrow> rbind (table_at h c) (\<lambda>t. Inr (length (attr_map t))) | None \<Rightarrow> Inl Fault)
      else rbind (values_at h (e_attr e)) (\<lambda>vs. Inr (length vs)))"

definition get_attr_num :: "at_heap \<Rightarrow> attr_table \<Rightarrow> string \<Rightarrow> nat at_result" where
  "get_attr_num h t name = (case simple_find t name of Some i \<Rightarrow> entry_num h (attr_map t ! i) | None \<Rightarrow> Inr 0)"

definition entry_attr :: "at_heap \<Rightarrow> entry \<Rightarrow> nat \<Rightarrow> string at_result" where
  "entry_attr h e i =
     (if is_container e then Inr ''None''
      else rbind (values_at h (e_attr e)) (\<lambda>vs. if i < length vs then Inr (vs ! i) else Inl Fault))"

definition get_attr :: "at_heap \<Rightarrow> attr_table \<Rightarrow> string \<Rightarrow> nat \<Rightarrow> string at_result" where
  "get_attr h t name k = (case simple_find t name of Some i \<Rightarrow> entry_attr h (attr_map t ! i) k | None \<Rightarrow> Inr '''')"

text \<open>A pointer to the vector: what the caller reads there.\<close>

definition get_attr_vector :: "at_heap \<Rightarrow> attr_table \<Rightarrow> string \<Rightarrow> string list option at_result" where
  "get_attr_vector h t name =
     (case simple_find t name of
        Some i \<Rightarrow> (let e = attr_map t ! i
                   in if is_container e then Inr None else rbind (values_at h (e_attr e)) (\<lambda>vs. Inr (Some vs)))
      | None \<Rightarrow> Inr None)"

definition entry_is_global :: "at_heap \<Rightarrow> entry \<Rightarrow> bool at_result" where
  "entry_is_global h e =
     (if is_container e
      then (case e_attributes e of Some c \<Rightarrow> rbind (table_at h c) (\<lambda>t. Inr (d_is_global_attribute t)) | None \<Rightarrow> Inl Fault)
      else Inr (e_is_global e))"

definition set_is_global :: "nat \<Rightarrow> nat \<Rightarrow> bool \<Rightarrow> at_heap \<Rightarrow> at_heap at_result" where
  "set_is_global a i ga h =
     rbind (table_at h a) (\<lambda>t.
     let e = attr_map t ! i in
     if is_container e
     then (case e_attributes e of
             Some c \<Rightarrow> rbind (table_at h c) (\<lambda>s. Inr (put_table c (s\<lparr>d_is_global_attribute := ga\<rparr>) h))
           | None \<Rightarrow> Inl Fault)
     else Inr (put_table a (t\<lparr>attr_map := (attr_map t)[i := e\<lparr>e_is_global := ga\<rparr>]\<rparr>) h))"

section \<open>Deleting\<close>

text \<open>
  The destructor of the entries of a list, one after the other; the tables and vectors that they own go
  back to the store. An alias owns nothing.
\<close>

definition free_table :: "nat \<Rightarrow> at_heap \<Rightarrow> at_heap" where
  "free_table a h = h\<lparr>h_tables := (h_tables h)(a := None)\<rparr>"

definition free_values :: "nat \<Rightarrow> at_heap \<Rightarrow> at_heap" where
  "free_values v h = h\<lparr>h_values := (h_values h)(v := None)\<rparr>"

partial_function (option) delete_entries :: "entry list \<Rightarrow> at_heap \<Rightarrow> at_heap at_result option" where
  "delete_entries es h =
     (case es of
        [] \<Rightarrow> Some (Inr h)
      | e # rest \<Rightarrow>
          if e_is_alias e then delete_entries rest h
          else if e_type e = Attr_container then
            (case e_attributes e of
               None \<Rightarrow> delete_entries rest h
             | Some c \<Rightarrow> (case h_tables h c of
                   None \<Rightarrow> Some (Inl Fault)
                 | Some t \<Rightarrow> obind (delete_entries (attr_map t) h) (\<lambda>h. delete_entries rest (free_table c h))))
          else (case e_attr e of
               None \<Rightarrow> delete_entries rest h
             | Some v \<Rightarrow> (case h_values h v of
                   None \<Rightarrow> Some (Inl Fault)
                 | Some vs \<Rightarrow> delete_entries rest (free_values v h))))"

definition erase :: "nat \<Rightarrow> at_heap \<Rightarrow> at_heap at_result option" where
  "erase a h =
     (case h_tables h a of
        None \<Rightarrow> Some (Inl Fault)
      | Some t \<Rightarrow> obind (delete_entries (attr_map t) h) (\<lambda>h.
          Some (Inr (put_table a (t\<lparr>attr_map := [], d_name := ''''\<rparr>) h))))"

text \<open>
  An entry leaves the list before it is deleted. Of a single value, the position must be one of the
  vector.
\<close>

definition del_entry :: "nat \<Rightarrow> nat \<Rightarrow> attr_table \<Rightarrow> at_heap \<Rightarrow> at_heap" where
  "del_entry a i t h = put_table a (t\<lparr>attr_map := take i (attr_map t) @ drop (i + 1) (attr_map t)\<rparr>) h"

definition del_attr :: "nat \<Rightarrow> string \<Rightarrow> int \<Rightarrow> at_heap \<Rightarrow> at_heap at_result option" where
  "del_attr a name k h =
     (case h_tables h a of
        None \<Rightarrow> Some (Inl Fault)
      | Some t \<Rightarrow>
          (case simple_find t (remove_space_encoding name) of
             None \<Rightarrow> Some (Inr h)
           | Some i \<Rightarrow>
               (let e = attr_map t ! i in
                if k = - 1 then delete_entries [e] (del_entry a i t h)
                else if e_type e = Attr_container then Some (Inr h)
                else Some (rbind (values_at h (e_attr e)) (\<lambda>vs.
                     if 0 \<le> k \<and> k < int (length vs)
                     then Inr (put_values (the (e_attr e)) (take (nat k) vs @ drop (nat k + 1) vs) h)
                     else Inl Fault)))))"

text \<open>The table of a container leaves its parent and is not deleted.\<close>

definition del_attr_table :: "nat \<Rightarrow> nat \<Rightarrow> at_heap \<Rightarrow> at_heap at_result" where
  "del_attr_table a i h =
     rbind (table_at h a) (\<lambda>t.
     let e = attr_map t ! i in
     if e_type e \<noteq> Attr_container then Inr h
     else rbind (case e_attributes e of
                   Some c \<Rightarrow> rbind (table_at h c) (\<lambda>s. Inr (put_table c (s\<lparr>d_parent := None\<rparr>) h))
                 | None \<Rightarrow> Inr h) (\<lambda>h.
          rbind (table_at h a) (\<lambda>t. Inr (del_entry a i t h))))"

section \<open>Copying\<close>

text \<open>
  The copy of an entry: a container and a vector are copied, an alias keeps its pointer. Of an entry of
  unknown type neither pointer is set: \<open>junk\<close>; the pointer that nothing reads for its type is null here. The copy belongs to the table \<open>p\<close>; the table of a
  container, also of an alias, gets \<open>p\<close> as its parent.
\<close>

definition adopt :: "nat \<Rightarrow> entry \<Rightarrow> at_heap \<Rightarrow> at_heap at_result" where
  "adopt p e h =
     (if e_type e = Attr_container
      then (case e_attributes e of
              Some c \<Rightarrow> rbind (table_at h c) (\<lambda>s. Inr (put_table c (s\<lparr>d_parent := Some p\<rparr>) h))
            | None \<Rightarrow> Inl Fault)
      else Inr h)"

definition copy_values :: "entry \<Rightarrow> at_heap \<Rightarrow> (entry \<times> at_heap) at_result" where
  "copy_values e h = rbind (values_at h (e_attr e)) (\<lambda>vs. let (v, h) = new_values vs h in Inr (e\<lparr>e_attributes := None, e_attr := Some v\<rparr>, h))"

text \<open>A new table with the name and the flag of another, and no entries yet.\<close>

definition start_copy :: "attr_table \<Rightarrow> at_heap \<Rightarrow> at_heap" where
  "start_copy t h =
     (put_table (h_next h) (blank_table\<lparr>d_name := d_name t, d_is_global_attribute := d_is_global_attribute t\<rparr>) h)
       \<lparr>h_next := h_next h + 1\<rparr>"

partial_function (option) clone_entries ::
  "nat option \<Rightarrow> nat \<Rightarrow> entry list \<Rightarrow> at_heap \<Rightarrow> at_heap at_result option" where
  "clone_entries junk p es h =
     (case es of
        [] \<Rightarrow> Some (Inr h)
      | e # rest \<Rightarrow>
          obind
            (if e_type e = Attr_unknown then Some (Inr (e\<lparr>e_attributes := junk, e_attr := junk\<rparr>, h))
             else if e_type e = Attr_container then
               if e_is_alias e then Some (Inr (e\<lparr>e_attr := None\<rparr>, h))
               else (case e_attributes e of
                  None \<Rightarrow> Some (Inl Fault)
                | Some c \<Rightarrow> (case h_tables h c of
                      None \<Rightarrow> Some (Inl Fault)
                    | Some t \<Rightarrow> obind (clone_entries junk (h_next h) (attr_map t) (start_copy t h)) (\<lambda>h'.
                        Some (Inr (e\<lparr>e_attributes := Some (h_next h), e_attr := None\<rparr>, h')))))
             else if e_is_alias e then Some (Inr (e\<lparr>e_attributes := None\<rparr>, h))
             else Some (copy_values e h))
            (\<lambda>(e, h). obind (Some (rbind (push_entry p e h) (adopt p e))) (\<lambda>h. clone_entries junk p rest h)))"

text \<open>The copy constructor.\<close>

definition copy_AttrTable :: "nat option \<Rightarrow> nat \<Rightarrow> at_heap \<Rightarrow> (nat \<times> at_heap) at_result option" where
  "copy_AttrTable junk a h =
     (case h_tables h a of
        None \<Rightarrow> Some (Inl Fault)
      | Some t \<Rightarrow>
          obind (clone_entries junk (h_next h) (attr_map t) (start_copy t h)) (\<lambda>h'. Some (Inr (h_next h, h'))))"

section \<open>Printing\<close>

definition is_quoted :: "string \<Rightarrow> bool" where
  "is_quoted s = (s \<noteq> [] \<and> hd s = dquote \<and> last s = dquote)"

definition write_string_attribute_for_das :: "string \<Rightarrow> string \<Rightarrow> string" where
  "write_string_attribute_for_das v term = (if is_quoted v then v @ term else [dquote] @ v @ [dquote] @ term)"

definition write_xml_attribute_for_das :: "string \<Rightarrow> string \<Rightarrow> string" where
  "write_xml_attribute_for_das v term =
     (if is_quoted v then escape_double_quotes v @ term else [dquote] @ escape_double_quotes v @ [dquote] @ term)"

definition write_value :: "attr_type \<Rightarrow> string \<Rightarrow> string \<Rightarrow> string" where
  "write_value ty v term =
     (if ty = Attr_string then write_string_attribute_for_das v term
      else if ty = Attr_other_xml then write_xml_attribute_for_das v term
      else v @ term)"

text \<open>All values but the last are followed by a comma; an empty vector has no last element.\<close>

fun write_values :: "attr_type \<Rightarrow> string list \<Rightarrow> string option" where
  "write_values ty [] = None"
| "write_values ty [v] = Some (write_value ty v ('';'' @ [lf]))"
| "write_values ty (v # vs) = (case write_values ty vs of Some s \<Rightarrow> Some (write_value ty v '', '' @ s) | None \<Rightarrow> None)"

definition print_values :: "at_heap \<Rightarrow> string \<Rightarrow> entry \<Rightarrow> string at_result" where
  "print_values h pad e =
     rbind (values_at h (e_attr e)) (\<lambda>vs.
     case write_values (e_type e) vs of
       Some s \<Rightarrow> Inr (pad @ AttrType_to_String (e_type e) @ '' '' @ add_space_encoding (e_name e) @ '' '' @ s)
     | None \<Rightarrow> Inl Fault)"

definition alias_line :: "string \<Rightarrow> entry \<Rightarrow> string" where
  "alias_line pad e = pad @ ''Alias '' @ add_space_encoding (e_name e) @ '' '' @ add_space_encoding (e_aliased_to e) @ '';'' @ [lf]"

definition container_text :: "string \<Rightarrow> entry \<Rightarrow> string \<Rightarrow> string" where
  "container_text pad e s = pad @ add_space_encoding (e_name e) @ '' {'' @ [lf] @ s @ pad @ ''}'' @ [lf]"

text \<open>The entries of a table, each on its own lines.\<close>

partial_function (option) print_entries :: "at_heap \<Rightarrow> bool \<Rightarrow> entry list \<Rightarrow> string \<Rightarrow> string at_result option" where
  "print_entries h dereference es pad =
     (case es of
        [] \<Rightarrow> Some (Inr '''')
      | e # rest \<Rightarrow>
          obind
            (if e_is_alias e \<and> \<not> dereference then Some (Inr (alias_line pad e))
             else if e_type e = Attr_container then
               (case e_attributes e of
                  None \<Rightarrow> Some (Inl Fault)
                | Some c \<Rightarrow> (case h_tables h c of
                      None \<Rightarrow> Some (Inl Fault)
                    | Some t \<Rightarrow> obind (print_entries h dereference (attr_map t) (pad @ ''    '')) (\<lambda>s.
                        Some (Inr (container_text pad e s)))))
             else Some (print_values h pad e))
            (\<lambda>s. obind (print_entries h dereference rest pad) (\<lambda>s'. Some (Inr (s @ s')))))"

definition print_table :: "at_heap \<Rightarrow> nat \<Rightarrow> string \<Rightarrow> bool \<Rightarrow> string at_result option" where
  "print_table h a pad dereference =
     (case h_tables h a of None \<Rightarrow> Some (Inl Fault) | Some t \<Rightarrow> print_entries h dereference (attr_map t) pad)"

text \<open>What the XML writer is given: elements with attributes, text, and text written as it is.\<close>

datatype xml_out = Out_element string "(string \<times> string) list" "xml_out list" | Out_text string | Out_raw string

definition xml_values :: "at_heap \<Rightarrow> entry \<Rightarrow> xml_out at_result" where
  "xml_values h e =
     rbind (values_at h (e_attr e)) (\<lambda>vs.
     if e_type e = Attr_other_xml \<and> length vs \<noteq> 1
     then Inl (Throws (Error ''OtherXML attributes cannot be vector-valued.''))
     else Inr (Out_element ''Attribute'' [(''name'', e_name e), (''type'', AttrType_to_String (e_type e))]
            (if e_type e = Attr_other_xml then [Out_raw (vs ! 0)] else map (\<lambda>v. Out_element ''value'' [] [Out_text v]) vs)))"

partial_function (option) print_xml_entries :: "at_heap \<Rightarrow> entry list \<Rightarrow> xml_out list at_result option" where
  "print_xml_entries h es =
     (case es of
        [] \<Rightarrow> Some (Inr [])
      | e # rest \<Rightarrow>
          obind
            (if e_is_alias e then Some (Inr (Out_element ''Alias'' [(''name'', e_name e), (''Attribute'', e_aliased_to e)] []))
             else if e_type e = Attr_container then
               (case e_attributes e of
                  None \<Rightarrow> Some (Inl Fault)
                | Some c \<Rightarrow> (case h_tables h c of
                      None \<Rightarrow> Some (Inl Fault)
                    | Some t \<Rightarrow> obind (print_xml_entries h (attr_map t)) (\<lambda>xs.
                        Some (Inr (Out_element ''Attribute'' [(''name'', e_name e), (''type'', AttrType_to_String (e_type e))] xs)))))
             else Some (xml_values h e))
            (\<lambda>x. obind (print_xml_entries h rest) (\<lambda>xs. Some (Inr (x # xs)))))"

end
