(* ===== verification/AttrSafety.thy ===== *)
theory AttrSafety
  imports AttrTable
begin

text \<open>
  Which attribute tables follow good pointers only: the tables that are built by the operations that add
  attributes, containers, aliases and copies never meet a null or dangling pointer, whatever is searched or
  printed.
\<close>

lemma rbind_assoc: "rbind (rbind r f) g = rbind r (\<lambda>x. rbind (f x) g)"
  by (cases r) auto

section \<open>Searching a table\<close>

lemma simple_find_from_le: "simple_find_from n es \<le> length es"
  by (induction es) auto

lemma simple_find_from_hit:
  "simple_find_from n es < length es \<Longrightarrow> e_name (es ! simple_find_from n es) = n"
  by (induction es) auto

lemma simple_find_Some:
  assumes "simple_find t n = Some i"
  shows "i < length (attr_map t)" "e_name (attr_map t ! i) = n" "attr_map t ! i \<in> set (attr_map t)"
  using assms simple_find_from_hit [of n "attr_map t"] by (auto simp: simple_find_def Let_def split: if_splits)

lemma simple_find_None: "simple_find t n = None \<longleftrightarrow> n \<notin> e_name ` set (attr_map t)"
proof -
  have "simple_find_from n es < length es \<longleftrightarrow> n \<in> e_name ` set es" for es
    by (induction es) auto
  then show ?thesis by (auto simp: simple_find_def Let_def)
qed

section \<open>Good stores\<close>

definition entry_ok :: "at_heap \<Rightarrow> entry \<Rightarrow> bool" where
  "entry_ok h e =
     (e_type e \<noteq> Attr_unknown \<and> (if e_type e = Attr_container then (case e_attributes e of Some c \<Rightarrow> h_tables h c \<noteq> None | None \<Rightarrow> False)
      else (case e_attr e of Some v \<Rightarrow> (case h_values h v of Some vs \<Rightarrow> vs \<noteq> [] | None \<Rightarrow> False) | None \<Rightarrow> False)))"

definition table_ok :: "at_heap \<Rightarrow> attr_table \<Rightarrow> bool" where
  "table_ok h t = (\<forall>e \<in> set (attr_map t). entry_ok h e)"

definition heap_ok :: "at_heap \<Rightarrow> bool" where
  "heap_ok h \<longleftrightarrow> (\<forall>a t. h_tables h a = Some t \<longrightarrow> table_ok h t \<and> a < h_next h) \<and>
     (\<forall>v vs. h_values h v = Some vs \<longrightarrow> v < h_next h)"

text \<open>The store may grow: tables stay tables, and vectors stay vectors with a value at least.\<close>

definition grows :: "at_heap \<Rightarrow> at_heap \<Rightarrow> bool" where
  "grows h h' \<longleftrightarrow> (\<forall>a. h_tables h a \<noteq> None \<longrightarrow> h_tables h' a \<noteq> None) \<and>
     (\<forall>v vs. h_values h v = Some vs \<longrightarrow> (\<exists>vs'. h_values h' v = Some vs' \<and> (vs \<noteq> [] \<longrightarrow> vs' \<noteq> [])))"

lemma entry_ok_grows: "grows h h' \<Longrightarrow> entry_ok h e \<Longrightarrow> entry_ok h' e"
  by (auto simp: grows_def entry_ok_def split: if_splits option.splits) fastforce+

lemma table_ok_grows: "grows h h' \<Longrightarrow> table_ok h t \<Longrightarrow> table_ok h' t"
  by (auto simp: table_ok_def entry_ok_grows)

lemma heap_okD: "heap_ok h \<Longrightarrow> h_tables h a = Some t \<Longrightarrow> table_ok h t"
  "heap_ok h \<Longrightarrow> h_tables h a = Some t \<Longrightarrow> a < h_next h"
  "heap_ok h \<Longrightarrow> h_values h v = Some vs \<Longrightarrow> v < h_next h"
  by (auto simp: heap_ok_def)

lemma heap_ok_entry: "heap_ok h \<Longrightarrow> h_tables h a = Some t \<Longrightarrow> e \<in> set (attr_map t) \<Longrightarrow> entry_ok h e"
  by (auto simp: heap_ok_def table_ok_def)

lemma grows_refl [simp]: "grows h h"
  by (simp add: grows_def)

lemma grows_put_table: "h_tables h a \<noteq> None \<Longrightarrow> grows h (put_table a t h)"
  by (auto simp: grows_def put_table_def)

lemma heap_ok_put_table:
  assumes "heap_ok h" "h_tables h a = Some t0" "table_ok h t"
  shows "heap_ok (put_table a t h)"
proof -
  have g: "grows h (put_table a t h)" using assms(2) by (simp add: grows_put_table)
  show ?thesis using assms table_ok_grows [OF g] by (auto simp: heap_ok_def put_table_def)
qed

lemma heap_ok_new_values:
  assumes "heap_ok h" "vs \<noteq> []" "new_values vs h = (v, h')"
  shows "heap_ok h' \<and> grows h h' \<and> h_values h' v = Some vs \<and> h_tables h' = h_tables h"
proof -
  have h': "v = h_next h" "h' = (put_values v vs h)\<lparr>h_next := v + 1\<rparr>" using assms(3) by (auto simp: new_values_def)
  have g: "grows h h'" using assms heap_okD(3) [OF assms(1)] by (auto simp: grows_def h' put_values_def)
  have "table_ok h t \<Longrightarrow> table_ok h' t" for t using g by (rule table_ok_grows)
  then have "heap_ok h'" using assms(1) by (auto simp: heap_ok_def h' put_values_def less_Suc_eq)
  then show ?thesis using g by (simp add: h' put_values_def)
qed

lemma heap_ok_new_table:
  assumes "heap_ok h" "new_AttrTable h = (a, h')"
  shows "heap_ok h' \<and> grows h h' \<and> h_tables h' a = Some blank_table \<and> h_tables h a = None"
proof -
  have h': "a = h_next h" "h' = (put_table a blank_table h)\<lparr>h_next := a + 1\<rparr>" using assms(2) by (auto simp: new_AttrTable_def)
  have n: "h_tables h a = None" using heap_okD(2) [OF assms(1), of a] by (cases "h_tables h a") (auto simp: h')
  have g: "grows h h'" using n by (auto simp: grows_def h' put_table_def)
  have "table_ok h t \<Longrightarrow> table_ok h' t" for t using g by (rule table_ok_grows)
  moreover have "table_ok h' blank_table" by (simp add: table_ok_def blank_table_def)
  ultimately have "heap_ok h'" using assms(1) by (auto simp: heap_ok_def h' put_table_def less_Suc_eq)
  then show ?thesis using g n by (simp add: h' put_table_def)
qed

lemma push_entry_ok:
  assumes "heap_ok h" "h_tables h a = Some t" "entry_ok h e"
  shows "\<exists>h'. push_entry a e h = Inr h' \<and> heap_ok h' \<and> grows h h' \<and> h_tables h' a = Some (t\<lparr>attr_map := attr_map t @ [e]\<rparr>) \<and>
    (\<forall>b. b \<noteq> a \<longrightarrow> h_tables h' b = h_tables h b) \<and> h_values h' = h_values h \<and> h_next h' = h_next h"
proof -
  have "table_ok h (t\<lparr>attr_map := attr_map t @ [e]\<rparr>)" using heap_okD(1) [OF assms(1,2)] assms(3) by (auto simp: table_ok_def)
  then show ?thesis using assms heap_ok_put_table [OF assms(1,2)] grows_put_table [of h a]
    by (simp add: push_entry_def table_at_def) (simp add: put_table_def)
qed

lemma grows_trans: "grows h h' \<Longrightarrow> grows h' h'' \<Longrightarrow> grows h h''"
  unfolding grows_def by meson

section \<open>Searching good stores\<close>

definition good_position :: "at_heap \<Rightarrow> string \<Rightarrow> (nat \<times> nat) option at_result \<Rightarrow> bool" where
  "good_position h target r =
     (case r of
        Inl _ \<Rightarrow> False
      | Inr None \<Rightarrow> True
      | Inr (Some (b, j)) \<Rightarrow> (case h_tables h b of None \<Rightarrow> False
          | Some s \<Rightarrow> j < length (attr_map s) \<and> e_name (attr_map s ! j) = target))"

lemma obind_Some:
  "obind r f = Some y \<longleftrightarrow> (\<exists>x. r = Some (Inl x) \<and> y = Inl x) \<or> (\<exists>a. r = Some (Inr a) \<and> f a = Some y)"
  by (auto simp: obind_def split: sum.splits Option.bind_splits)

lemma entry_ok_container: "entry_ok h e \<Longrightarrow> e_type e = Attr_container \<Longrightarrow> \<exists>c t. e_attributes e = Some c \<and> h_tables h c = Some t"
  by (auto simp: entry_ok_def split: option.splits)

lemma entry_ok_values:
  "entry_ok h e \<Longrightarrow> e_type e \<noteq> Attr_container \<Longrightarrow> \<exists>v vs. e_attr e = Some v \<and> h_values h v = Some vs \<and> vs \<noteq> [] \<and> values_at h (e_attr e) = Inr vs"
  by (auto simp: entry_ok_def values_at_def split: option.splits)

lemma find_from_good_all:
  assumes "find_from h target a i es = Some r"
  shows "\<forall>t pre. heap_ok h \<longrightarrow> h_tables h a = Some t \<longrightarrow> attr_map t = pre @ es \<longrightarrow> length pre = i \<longrightarrow> good_position h target r"
proof (rule find_from.raw_induct [OF _ assms], goal_cases)
  case (1 rec h target a i es r)
  show ?case
  proof (intro allI impI)
    fix t pre
    assume k: "heap_ok h" "h_tables h a = Some t" "attr_map t = pre @ es" "length pre = i"
    show "good_position h target r"
    proof (cases es)
      case Nil
      then show ?thesis using 1(2) by (auto simp: good_position_def)
    next
      case (Cons e rest)
      have e: "entry_ok h e" using heap_ok_entry [OF k(1,2)] k(3) Cons by simp
      have go: "rec h target a (i + 1) rest = Some r \<Longrightarrow> good_position h target r"
        using 1(1) [rule_format, of h target a "i + 1" rest r t "pre @ [e]"] k Cons by simp
      have sub: "rec h target c 0 (attr_map s) = Some q \<Longrightarrow> h_tables h c = Some s \<Longrightarrow> good_position h target q" for c s q
        using 1(1) [of h target c 0 "attr_map s" q] k(1) by simp
      consider "target = e_name e" | "target \<noteq> e_name e" "e_type e = Attr_container" | "target \<noteq> e_name e" "e_type e \<noteq> Attr_container"
        by blast
      then show ?thesis
      proof cases
        case 1
        then show ?thesis using \<open>_ = Some r\<close> Cons k by (auto simp: good_position_def)
      next
        case 2
        obtain c s where c: "e_attributes e = Some c" "h_tables h c = Some s" using entry_ok_container [OF e 2(2)] by blast
        then have "obind (rec h target c 0 (attr_map s)) (\<lambda>q. case q of Some p \<Rightarrow> Some (Inr (Some p)) | None \<Rightarrow> rec h target a (i + 1) rest) = Some r"
          using \<open>_ = Some r\<close> Cons 2 by (simp cong: option.case_cong)
        then show ?thesis using go sub [OF _ c(2)] by (auto simp: obind_Some split: option.splits)
      next
        case 3
        then show ?thesis using \<open>_ = Some r\<close> Cons go by simp
      qed
    qed
  qed
qed

lemma find_from_good:
  "find_from h target a 0 (attr_map t) = Some r \<Longrightarrow> heap_ok h \<Longrightarrow> h_tables h a = Some t \<Longrightarrow> good_position h target r"
  using find_from_good_all [rule_format, of h target a 0 "attr_map t" r t "[]"] by simp

lemma container_named_ok:
  "\<forall>e \<in> set es. entry_ok h e \<Longrightarrow> container_named n es = Some p \<Longrightarrow> \<exists>c. p = Some c \<and> h_tables h c \<noteq> None"
  by (induction es) (auto simp: is_container_def split: if_splits dest: entry_ok_container)

definition good_table :: "at_heap \<Rightarrow> nat option at_result \<Rightarrow> bool" where
  "good_table h r = (case r of Inl _ \<Rightarrow> False | Inr None \<Rightarrow> True | Inr (Some c) \<Rightarrow> h_tables h c \<noteq> None)"

lemma simple_find_container_good:
  assumes "heap_ok h" "h_tables h a \<noteq> None"
  shows "good_table h (simple_find_container h a n)"
proof -
  obtain t where t: "h_tables h a = Some t" using assms(2) by auto
  have "\<forall>e \<in> set (attr_map t). entry_ok h e" using heap_ok_entry [OF assms(1) t] by blast
  then show ?thesis using container_named_ok [of "attr_map t" h n] t
    by (auto simp: good_table_def simple_find_container_def table_at_def split: option.splits)
qed

lemma find_container_good: "heap_ok h \<Longrightarrow> h_tables h a \<noteq> None \<Longrightarrow> good_table h (find_container h a n)"
proof (induction h a n rule: find_container.induct)
  case (1 h a n)
  note s = simple_find_container_good [OF 1(2,3)]
  show ?case
  proof (cases "find_char n (CHR ''.'') 0")
    case None
    then show ?thesis using s by (subst find_container.simps) simp
  next
    case (Some d)
    then show ?thesis using s [of "substr n 0 d"] 1(1) [OF Some _ _ 1(2)]
      by (subst find_container.simps) (auto simp: good_table_def split: sum.splits option.splits)
  qed
qed

lemma at_find_good:
  assumes "heap_ok h" "h_tables h a \<noteq> None" "at_find h a target = Some r"
  shows "good_position h (case rfind_sub target ''.'' of Some d \<Rightarrow> substr_from target (d + 1) | None \<Rightarrow> target) r"
proof -
  obtain t where t: "h_tables h a = Some t" using assms(2) by auto
  show ?thesis
  proof (cases "rfind_sub target ''.''")
    case None
    then show ?thesis using assms(1,3) t find_from_good [of h target a t r]
      by (auto simp: at_find_def recurrsive_find_def)
  next
    case (Some d)
    have "good_table h (find_container h a (substr target 0 d))" by (rule find_container_good [OF assms(1,2)])
    then show ?thesis using assms(3) Some simple_find_Some
      by (auto simp: at_find_def good_table_def good_position_def table_at_def split: sum.splits option.splits)
  qed
qed

section \<open>Building good stores\<close>

text \<open>Attributes of a type that holds values.\<close>

definition value_type :: "string \<Rightarrow> bool" where
  "value_type type = (String_to_AttrType type \<notin> {Attr_unknown, Attr_container})"

text \<open>A step is safe when it raises an exception of the library or leaves a good store that has grown.\<close>

definition safe :: "at_heap \<Rightarrow> at_heap at_result \<Rightarrow> bool" where
  "safe h r = (case r of Inl x \<Rightarrow> x \<noteq> Fault | Inr h' \<Rightarrow> heap_ok h' \<and> grows h h')"

lemma safe_simps [simp]: "safe h (Inl x) = (x \<noteq> Fault)" "safe h (Inr h') = (heap_ok h' \<and> grows h h')"
  by (simp_all add: safe_def)

lemma safe_rbind: "(\<And>h'. r = Inr h' \<Longrightarrow> heap_ok h' \<Longrightarrow> grows h h' \<Longrightarrow> safe h (f h')) \<Longrightarrow> safe h r \<Longrightarrow> safe h (rbind r f)"
  by (cases r) auto

lemma safe_grows: "grows h h' \<Longrightarrow> safe h' r \<Longrightarrow> safe h r"
  by (cases r) (auto intro: grows_trans)

lemma set_name_safe: "heap_ok h \<Longrightarrow> h_tables h a \<noteq> None \<Longrightarrow> safe h (set_name a n h)"
  using heap_okD(1) [of h a] by (auto simp: set_name_def table_at_def intro!: heap_ok_put_table grows_put_table simp: table_ok_def)

lemma push_safe: "heap_ok h \<Longrightarrow> h_tables h a \<noteq> None \<Longrightarrow> entry_ok h e \<Longrightarrow> safe h (push_entry a e h)"
  using push_entry_ok by fastforce

lemma heap_ok_put_values:
  assumes "heap_ok h" "h_values h v = Some ws" "vs \<noteq> []"
  shows "heap_ok (put_values v vs h) \<and> grows h (put_values v vs h)"
proof -
  have g: "grows h (put_values v vs h)" using assms by (auto simp: grows_def put_values_def)
  show ?thesis using assms table_ok_grows [OF g] g by (auto simp: heap_ok_def put_values_def)
qed

lemma type_name_container: "AttrType_to_String ty = ''Container'' \<longleftrightarrow> ty = Attr_container"
  by (cases ty) simp_all

lemma append_values_safe:
  assumes "heap_ok h" "h_tables h a \<noteq> None" "value_type type" "vs \<noteq> []"
  shows "safe h (rbind (append_values a name type vs h) (\<lambda>(k, h). Inr h))"
proof -
  obtain t where t: "h_tables h a = Some t" using assms(2) by auto
  show ?thesis
  proof (cases "simple_find t (remove_space_encoding name)")
    case (Some i)
    have e: "entry_ok h (attr_map t ! i)" using heap_ok_entry [OF assms(1) t simple_find_Some(3) [OF Some]] .
    show ?thesis
    proof (cases "e_type (attr_map t ! i) = String_to_AttrType type")
      case True
      then have "e_type (attr_map t ! i) \<noteq> Attr_container" using assms(3) by (auto simp: value_type_def)
      from entry_ok_values [OF e this] heap_ok_put_values [OF assms(1)] assms(4) show ?thesis using Some t
        by (auto simp: append_values_def table_at_def Let_def type_name_container)
    qed (use Some t in \<open>simp add: append_values_def table_at_def\<close>)
  next
    case None
    obtain v h1 where n: "new_values vs h = (v, h1)" by fastforce
    note h1 = heap_ok_new_values [OF assms(1,4) n]
    let ?e = "blank_entry\<lparr>e_name := remove_space_encoding name, e_type := String_to_AttrType type, e_attr := Some v\<rparr>"
    have "entry_ok h1 ?e" using h1 assms(3,4) by (auto simp: entry_ok_def value_type_def)
    then have "safe h1 (push_entry a ?e h1)" using h1 t by (intro push_safe) auto
    then have "safe h (push_entry a ?e h1)" using h1 safe_grows by blast
    then have "safe h (rbind (push_entry a ?e h1) Inr)" by (intro safe_rbind) auto
    then show ?thesis using None t n by (simp add: append_values_def table_at_def rbind_assoc)
  qed
qed

lemma grows_table: "grows h h' \<Longrightarrow> h_tables h a \<noteq> None \<Longrightarrow> h_tables h' a \<noteq> None"
  by (auto simp: grows_def)

lemma put_parent_safe:
  assumes "heap_ok h" "h_tables h c \<noteq> None"
  shows "safe h (rbind (table_at h c) (\<lambda>s. Inr (put_table c (s\<lparr>d_parent := p\<rparr>) h)))"
  using assms heap_okD(1) [of h c]
  by (auto simp: table_at_def intro!: heap_ok_put_table grows_put_table simp: table_ok_def)

lemma container_entry_ok:
  "h_tables h c \<noteq> None \<Longrightarrow> e_type e = Attr_container \<Longrightarrow> e_attributes e = Some c \<Longrightarrow> entry_ok h e"
  by (simp add: entry_ok_def)

lemma append_container_safe:
  assumes "heap_ok h" "h_tables h a \<noteq> None" "h_tables h c \<noteq> None"
  shows "safe h (rbind (append_container a c name h) (\<lambda>(k, h). Inr h))"
proof -
  obtain t where t: "h_tables h a = Some t" using assms(2) by auto
  let ?n = "remove_space_encoding name"
  let ?e = "blank_entry\<lparr>e_name := ?n, e_type := Attr_container, e_attributes := Some c\<rparr>"
  let ?p = "\<lambda>h. rbind (table_at h c) (\<lambda>t. Inr (put_table c (t\<lparr>d_parent := Some a\<rparr>) h))"
  have "safe h (rbind (set_name c ?n h) (\<lambda>h. rbind (push_entry a ?e h) ?p))"
  proof (rule safe_rbind [OF _ set_name_safe [OF assms(1,3)]])
    fix h1 assume h1: "heap_ok h1" "grows h h1"
    have a1: "h_tables h1 a \<noteq> None" "h_tables h1 c \<noteq> None" using grows_table [OF h1(2)] assms by blast+
    have e: "entry_ok h1 ?e" using a1(2) by (intro container_entry_ok) auto
    have "safe h1 (rbind (push_entry a ?e h1) ?p)"
    proof (rule safe_rbind [OF _ push_safe [OF h1(1) a1(1) e]])
      fix h2 assume h2: "heap_ok h2" "grows h1 h2"
      show "safe h1 (?p h2)" by (rule safe_grows [OF h2(2) put_parent_safe [OF h2(1) grows_table [OF h2(2) a1(2)]]])
    qed
    then show "safe h (rbind (push_entry a ?e h1) ?p)" using safe_grows [OF h1(2)] by blast
  qed
  moreover have "table_at h a = Inr t" using t by (simp add: table_at_def)
  ultimately show ?thesis by (simp add: append_container_def Let_def rbind_assoc)
qed

lemma append_new_container_safe:
  assumes "heap_ok h" "h_tables h a \<noteq> None"
  shows "safe h (rbind (append_new_container a name h) (\<lambda>(k, h). Inr h))"
proof -
  obtain c h1 where n: "new_AttrTable h = (c, h1)" by fastforce
  note h1 = heap_ok_new_table [OF assms(1) n]
  have "safe h1 (rbind (append_container a c name h1) (\<lambda>(k, h). Inr h))"
    using h1 assms(2) grows_table by (intro append_container_safe) auto
  then have "safe h (rbind (append_container a c name h1) (\<lambda>(k, h). Inr h))" using h1 safe_grows by blast
  then show ?thesis by (simp add: append_new_container_def n)
qed

lemma add_container_alias_safe:
  assumes "heap_ok h" "h_tables h a \<noteq> None" "h_tables h src \<noteq> None"
  shows "safe h (add_container_alias a name src h)"
  using assms push_safe [OF assms(1,2) container_entry_ok [OF assms(3)]]
  by (auto simp: add_container_alias_def table_at_def Let_def)

lemma make_value_alias_safe:
  assumes "heap_ok h" "h_tables h a \<noteq> None" "good_position h target (Inr found)"
  shows "safe h (make_value_alias a das name source found h)"
proof (cases found)
  case None
  then show ?thesis by (simp add: make_value_alias_def)
next
  case (Some p)
  obtain b i where p: "p = (b, i)" by (cases p)
  obtain s where s: "h_tables h b = Some s" "i < length (attr_map s)"
    using assms(3) Some p by (auto simp: good_position_def split: option.splits)
  obtain t where t: "h_tables h a = Some t" using assms(2) by auto
  let ?src = "attr_map s ! i"
  have e: "entry_ok h ?src" using heap_ok_entry [OF assms(1) s(1)] s(2) by simp
  let ?e = "blank_entry\<lparr>e_name := remove_space_encoding name, e_is_alias := True, e_aliased_to := remove_space_encoding source,
      e_type := e_type ?src, e_attributes := (if is_container ?src then e_attributes ?src else None),
      e_attr := (if is_container ?src then None else e_attr ?src)\<rparr>"
  have "entry_ok h ?e" using e by (auto simp: entry_ok_def is_container_def)
  from push_safe [OF assms(1,2) this] show ?thesis
    using s t by (cases "is_container ?src") (simp_all add: make_value_alias_def Some p table_at_def Let_def)
qed

section \<open>Copying good stores\<close>

lemma start_copy_ok:
  assumes "heap_ok h"
  shows "heap_ok (start_copy t h) \<and> grows h (start_copy t h) \<and> h_tables (start_copy t h) (h_next h) \<noteq> None"
proof -
  have n: "h_tables h (h_next h) = None" using heap_okD(2) [OF assms, of "h_next h"] by (cases "h_tables h (h_next h)") auto
  have g: "grows h (start_copy t h)" using n by (auto simp: grows_def start_copy_def put_table_def)
  have "table_ok h s \<Longrightarrow> table_ok (start_copy t h) s" for s using g by (rule table_ok_grows)
  moreover have "table_ok (start_copy t h) (blank_table\<lparr>d_name := d_name t, d_is_global_attribute := d_is_global_attribute t\<rparr>)"
    by (simp add: table_ok_def blank_table_def)
  ultimately have "heap_ok (start_copy t h)"
    using assms by (auto simp: heap_ok_def start_copy_def put_table_def less_Suc_eq)
  then show ?thesis using g by (simp add: start_copy_def put_table_def)
qed

lemma finish_copy_safe:
  assumes "heap_ok h" "h_tables h p \<noteq> None" "entry_ok h e"
  shows "safe h (rbind (push_entry p e h) (adopt p e))"
proof (rule safe_rbind [OF _ push_safe [OF assms]])
  fix h1 assume h1: "heap_ok h1" "grows h h1"
  show "safe h (adopt p e h1)"
  proof (cases "e_type e = Attr_container")
    case True
    then obtain c where c: "e_attributes e = Some c" "h_tables h c \<noteq> None" using entry_ok_container [OF assms(3)] by auto
    have "safe h1 (adopt p e h1)" using True c(1) put_parent_safe [OF h1(1) grows_table [OF h1(2) c(2)]] by (simp add: adopt_def)
    then show ?thesis using h1(2) safe_grows by blast
  qed (use h1 in \<open>simp add: adopt_def\<close>)
qed

lemma copy_values_safe:
  assumes "heap_ok h" "entry_ok h e" "e_type e \<noteq> Attr_container"
  shows "\<exists>e' h'. copy_values e h = Inr (e', h') \<and> heap_ok h' \<and> grows h h' \<and> entry_ok h' e'"
proof -
  obtain vs where vs: "vs \<noteq> []" "values_at h (e_attr e) = Inr vs" using entry_ok_values [OF assms(2,3)] by blast
  obtain v h1 where n: "new_values vs h = (v, h1)" by fastforce
  note h1 = heap_ok_new_values [OF assms(1) vs(1) n]
  have "entry_ok h1 (e\<lparr>e_attributes := None, e_attr := Some v\<rparr>)" using h1 vs(1) assms(2,3) by (auto simp: entry_ok_def)
  then show ?thesis using h1 vs n by (simp add: copy_values_def)
qed

text \<open>A table that is copied: what the copy of its entries leaves is good.\<close>

lemma clone_entries_safe:
  assumes "clone_entries junk p es h = Some r"
  shows "heap_ok h \<longrightarrow> h_tables h p \<noteq> None \<longrightarrow> (\<forall>e \<in> set es. entry_ok h e) \<longrightarrow> safe h r"
proof (rule clone_entries.raw_induct [OF _ assms], goal_cases)
  case (1 rec junk p es h r)
  show ?case
  proof (intro impI)
    assume k: "heap_ok h" "h_tables h p \<noteq> None" "\<forall>e \<in> set es. entry_ok h e"
    show "safe h r"
    proof (cases es)
      case Nil
      then show ?thesis using 1(2) k(1) by auto
    next
      case (Cons e rest)
      have e: "entry_ok h e" using k(3) Cons by simp
      have go: "obind (Some (rbind (push_entry p e' h') (adopt p e'))) (\<lambda>h. rec junk p rest h) = Some r \<Longrightarrow> safe h r"
        if "heap_ok h'" "grows h h'" "entry_ok h' e'" for e' h'
      proof -
        assume o: "obind (Some (rbind (push_entry p e' h') (adopt p e'))) (\<lambda>h. rec junk p rest h) = Some r"
        have f: "safe h' (rbind (push_entry p e' h') (adopt p e'))"
          using that k(2) grows_table by (intro finish_copy_safe) auto
        show ?thesis
        proof (cases "rbind (push_entry p e' h') (adopt p e')")
          case (Inl x)
          then have "r = Inl x" "x \<noteq> Fault" using o f by (simp, simp only: safe_simps not_False_eq_True)
          then show ?thesis by simp
        next
          case (Inr h2)
          then have h2: "heap_ok h2" "grows h h2" using f that(2) grows_trans by auto
          have "safe h2 r" using o Inr 1(1) [of junk p rest h2 r] h2 k(2,3) Cons entry_ok_grows grows_table by auto
          then show ?thesis using h2(2) safe_grows by blast
        qed
      qed
      note body = 1(2) [unfolded Cons list.case]
      have u: "e_type e \<noteq> Attr_unknown" using e by (simp add: entry_ok_def)
      consider "e_type e = Attr_container" "e_is_alias e" | "e_type e = Attr_container" "\<not> e_is_alias e"
        | "e_type e \<noteq> Attr_container" "e_is_alias e" | "e_type e \<noteq> Attr_container" "\<not> e_is_alias e"
        by blast
      then show ?thesis
      proof cases
        assume c: "e_type e = Attr_container" "e_is_alias e"
        show ?thesis using go [OF k(1) grows_refl, of "e\<lparr>e_attr := None\<rparr>"] body c e by (simp add: entry_ok_def)
      next
        assume c: "e_type e = Attr_container" "\<not> e_is_alias e"
        obtain a t where a: "e_attributes e = Some a" "h_tables h a = Some t" using entry_ok_container [OF e c(1)] by blast
        let ?h = "start_copy t h"
        note sc = start_copy_ok [OF k(1), of t]
        have sub: "safe ?h q" if "rec junk (h_next h) (attr_map t) ?h = Some q" for q
          using 1(1) [OF that] sc heap_ok_entry [OF k(1) a(2)] entry_ok_grows by blast
        show ?thesis
        proof (cases "rec junk (h_next h) (attr_map t) ?h")
          case None
          then show ?thesis using body c a u by simp
        next
          case (Some q)
          show ?thesis
          proof (cases q)
            case (Inl x)
            then show ?thesis using body c a u Some sub by auto
          next
            case (Inr h')
            then have h': "heap_ok h'" "grows ?h h'" using sub Some by auto
            let ?e = "e\<lparr>e_attributes := Some (h_next h), e_attr := None\<rparr>"
            have "entry_ok h' ?e" using grows_table [OF h'(2)] sc c(1) by (intro container_entry_ok) auto
            moreover have "grows h h'" using sc h'(2) grows_trans by blast
            ultimately show ?thesis using go [OF h'(1), of ?e] body c a u Some Inr by simp
          qed
        qed
      next
        assume c: "e_type e \<noteq> Attr_container" "e_is_alias e"
        show ?thesis using go [OF k(1) grows_refl, of "e\<lparr>e_attributes := None\<rparr>"] body c e u by (simp add: entry_ok_def)
      next
        assume c: "e_type e \<noteq> Attr_container" "\<not> e_is_alias e"
        obtain e' h' where v: "copy_values e h = Inr (e', h')" "heap_ok h'" "grows h h'" "entry_ok h' e'"
          using copy_values_safe [OF k(1) e c(1)] by blast
        show ?thesis using go [OF v(2-4)] body c u v(1) by simp
      qed
    qed
  qed
qed

section \<open>Printing good stores\<close>

lemma write_values_some: "vs \<noteq> [] \<Longrightarrow> \<exists>s. write_values ty vs = Some s"
  by (induction ty vs rule: write_values.induct) auto

lemma print_values_good: "entry_ok h e \<Longrightarrow> e_type e \<noteq> Attr_container \<Longrightarrow> is_ok (print_values h pad e)"
  using entry_ok_values [of h e] write_values_some [of _ "e_type e"] by (fastforce simp: print_values_def)

lemma print_entries_good:
  assumes "print_entries h dereference es pad = Some r"
  shows "heap_ok h \<longrightarrow> (\<forall>e \<in> set es. entry_ok h e) \<longrightarrow> is_ok r"
proof (rule print_entries.raw_induct [OF _ assms], goal_cases)
  case (1 rec h dereference es pad r)
  show ?case
  proof (intro impI)
    assume k: "heap_ok h" "\<forall>e \<in> set es. entry_ok h e"
    show "is_ok r"
    proof (cases es)
      case Nil
      then show ?thesis using 1(2) by auto
    next
      case (Cons e rest)
      have e: "entry_ok h e" using k(2) Cons by simp
      have go: "is_ok q" if "rec h dereference rest pad = Some q" for q using 1(1) [OF that] k Cons by simp
      have sub: "rec h dereference (attr_map t) pad' \<noteq> Some (Inl x)" if "h_tables h c = Some t" for x t c pad'
        using 1(1) [of h dereference "attr_map t" pad' "Inl x"] k(1) heap_ok_entry [OF k(1) that] by auto
      have last: "is_ok r" if "obind (rec h dereference rest pad) (\<lambda>s'. Some (Inr (s @ s'))) = Some r" for s
        using that go by (auto simp: obind_Some)
      show ?thesis
      proof (cases "e_type e = Attr_container")
        case True
        then obtain c t where "e_attributes e = Some c" "h_tables h c = Some t" using entry_ok_container [OF e] by blast
        then show ?thesis using 1(2) Cons True last sub by (auto simp: obind_Some split: if_splits)
      next
        case False
        then obtain s where "print_values h pad e = Inr s" using print_values_good [OF e False, of pad] by (cases "print_values h pad e") auto
        then show ?thesis using 1(2) Cons False last by (auto simp: obind_Some split: if_splits)
      qed
    qed
  qed
qed

section \<open>Every program over attribute tables\<close>

text \<open>The operations that add to the tables, each on the addresses of tables that exist.\<close>

datatype at_op =
    New_table
  | Set_name nat string
  | Append_attr nat string string "string list"
  | Append_container nat string
  | Attach_container nat nat string
  | Alias_container nat string nat
  | Alias_value nat nat string string
  | Copy_table nat
  | Set_global nat nat bool

fun at_step :: "nat option \<Rightarrow> at_op \<Rightarrow> at_heap \<Rightarrow> at_heap at_result option" where
  "at_step junk New_table h = Some (Inr (snd (new_AttrTable h)))"
| "at_step junk (Set_name a n) h = Some (set_name a n h)"
| "at_step junk (Append_attr a n ty vs) h = Some (rbind (append_values a n ty vs h) (\<lambda>(k, h). Inr h))"
| "at_step junk (Append_container a n) h = Some (rbind (append_new_container a n h) (\<lambda>(k, h). Inr h))"
| "at_step junk (Attach_container a c n) h = Some (rbind (append_container a c n h) (\<lambda>(k, h). Inr h))"
| "at_step junk (Alias_container a n src) h = Some (add_container_alias a n src h)"
| "at_step junk (Alias_value a das n src) h = add_value_alias a das n src h"
| "at_step junk (Copy_table a) h = obind (copy_AttrTable junk a h) (\<lambda>(k, h). Some (Inr h))"
| "at_step junk (Set_global a i ga) h = Some (set_is_global a i ga h)"

text \<open>
  The conditions: the tables exist, a position is that of an entry, and values are appended under a type that
  holds values, at least one at a time. The library itself refuses neither the type \<^verbatim>\<open>Container\<close>
  nor an unknown one; what the first does is shown with the theorem below.
\<close>

fun op_ok :: "at_heap \<Rightarrow> at_op \<Rightarrow> bool" where
  "op_ok h New_table = True"
| "op_ok h (Set_name a n) = (h_tables h a \<noteq> None)"
| "op_ok h (Append_attr a n ty vs) = (h_tables h a \<noteq> None \<and> value_type ty \<and> vs \<noteq> [])"
| "op_ok h (Append_container a n) = (h_tables h a \<noteq> None)"
| "op_ok h (Attach_container a c n) = (h_tables h a \<noteq> None \<and> h_tables h c \<noteq> None)"
| "op_ok h (Alias_container a n src) = (h_tables h a \<noteq> None \<and> h_tables h src \<noteq> None)"
| "op_ok h (Alias_value a das n src) = (h_tables h a \<noteq> None \<and> h_tables h das \<noteq> None)"
| "op_ok h (Copy_table a) = (h_tables h a \<noteq> None)"
| "op_ok h (Set_global a i ga) = (case h_tables h a of Some t \<Rightarrow> i < length (attr_map t) | None \<Rightarrow> False)"

inductive at_reach :: "nat option \<Rightarrow> at_heap \<Rightarrow> bool" for junk where
  at_start: "at_reach junk empty_heap"
| at_next: "at_reach junk h \<Longrightarrow> op_ok h op \<Longrightarrow> at_step junk op h = Some (Inr h') \<Longrightarrow> at_reach junk h'"

lemma add_value_alias_safe:
  assumes "heap_ok h" "h_tables h a \<noteq> None" "h_tables h das \<noteq> None" "add_value_alias a das name source h = Some r"
  shows "safe h r"
proof -
  obtain f where f: "find_source a das (remove_space_encoding source) h = Some f"
    "obind (Some f) (\<lambda>found. Some (make_value_alias a das name source found h)) = Some r"
    using assms(4) by (cases "find_source a das (remove_space_encoding source) h") (auto simp: add_value_alias_def)
  have "\<exists>n. good_position h n f"
    using f(1) at_find_good [OF assms(1,3)] at_find_good [OF assms(1,2)]
    by (auto simp: find_source_def obind_Some split: option.splits) blast+
  then show ?thesis using f(2) make_value_alias_safe [OF assms(1,2)] by (cases f) (auto simp: good_position_def)
qed

lemma copy_safe:
  assumes "heap_ok h" "h_tables h a \<noteq> None" "copy_AttrTable junk a h = Some r"
  shows "safe h (rbind r (\<lambda>(k, h). Inr h))"
proof -
  obtain t where t: "h_tables h a = Some t" using assms(2) by auto
  note sc = start_copy_ok [OF assms(1), of t]
  obtain q where q: "clone_entries junk (h_next h) (attr_map t) (start_copy t h) = Some q"
      "obind (Some q) (\<lambda>h'. Some (Inr (h_next h, h'))) = Some r"
    using assms(3) t by (cases "clone_entries junk (h_next h) (attr_map t) (start_copy t h)") (auto simp: copy_AttrTable_def)
  have "safe (start_copy t h) q"
    using clone_entries_safe [OF q(1)] sc heap_ok_entry [OF assms(1) t] entry_ok_grows by blast
  then have "safe h q" using sc safe_grows by blast
  then show ?thesis using q(2) by (cases q) auto
qed

lemma set_is_global_safe:
  assumes "heap_ok h" "h_tables h a = Some t" "i < length (attr_map t)"
  shows "safe h (set_is_global a i ga h)"
proof -
  let ?e = "attr_map t ! i"
  have e: "entry_ok h ?e" using heap_ok_entry [OF assms(1,2)] assms(3) by simp
  show ?thesis
  proof (cases "e_type ?e = Attr_container")
    case True
    obtain c s where c: "e_attributes ?e = Some c" "h_tables h c = Some s" using entry_ok_container [OF e True] by blast
    have "table_ok h (s\<lparr>d_is_global_attribute := ga\<rparr>)" using heap_okD(1) [OF assms(1) c(2)] by (simp add: table_ok_def)
    then show ?thesis using True c assms(2) heap_ok_put_table [OF assms(1) c(2)] grows_put_table [of h c]
      by (simp add: set_is_global_def table_at_def is_container_def Let_def)
  next
    case False
    have "entry_ok h (?e\<lparr>e_is_global := ga\<rparr>)" using e by (simp add: entry_ok_def)
    then have "table_ok h (t\<lparr>attr_map := (attr_map t)[i := ?e\<lparr>e_is_global := ga\<rparr>]\<rparr>)"
      using heap_okD(1) [OF assms(1,2)] set_update_subset_insert [of "attr_map t" i] by (auto simp: table_ok_def)
    then show ?thesis using False assms(2) heap_ok_put_table [OF assms(1,2)] grows_put_table [of h a]
      by (simp add: set_is_global_def table_at_def is_container_def Let_def)
  qed
qed

lemma entry_reads_good:
  assumes "heap_ok h" "entry_ok h e"
  shows "is_container e \<or> (\<exists>vs. values_at h (e_attr e) = Inr vs)" "entry_num h e \<noteq> Inl Fault"
    "entry_num h e = Inr m \<Longrightarrow> k < m \<Longrightarrow> entry_attr h e k \<noteq> Inl Fault"
proof -
  have c: "is_container e \<Longrightarrow> \<exists>c s. e_attributes e = Some c \<and> h_tables h c = Some s"
    using entry_ok_container [OF assms(2)] by (auto simp: is_container_def)
  have v: "\<not> is_container e \<Longrightarrow> \<exists>vs. values_at h (e_attr e) = Inr vs"
    using entry_ok_values [OF assms(2)] by (auto simp: is_container_def)
  show "is_container e \<or> (\<exists>vs. values_at h (e_attr e) = Inr vs)" using v by blast
  show "entry_num h e \<noteq> Inl Fault" using c v by (auto simp: entry_num_def table_at_def)
  show "entry_num h e = Inr m \<Longrightarrow> k < m \<Longrightarrow> entry_attr h e k \<noteq> Inl Fault"
    using v by (auto simp: entry_num_def entry_attr_def)
qed

lemma reads_good:
  assumes "heap_ok h" "h_tables h a = Some t"
  shows "get_attr_vector h t n \<noteq> Inl Fault" "get_attr_num h t n \<noteq> Inl Fault"
    "get_attr_num h t n = Inr m \<Longrightarrow> k < m \<Longrightarrow> get_attr h t n k \<noteq> Inl Fault"
proof -
  have e: "entry_ok h (attr_map t ! i)" if "simple_find t n = Some i" for i
    using heap_ok_entry [OF assms] simple_find_Some(3) [OF that] .
  note g = entry_reads_good [OF assms(1) e]
  show "get_attr_vector h t n \<noteq> Inl Fault"
    using g(1) by (cases "simple_find t n") (auto simp: get_attr_vector_def Let_def)
  show "get_attr_num h t n \<noteq> Inl Fault"
    using g(2) by (cases "simple_find t n") (auto simp: get_attr_num_def)
  show "get_attr_num h t n = Inr m \<Longrightarrow> k < m \<Longrightarrow> get_attr h t n k \<noteq> Inl Fault"
    using g(3) by (cases "simple_find t n") (auto simp: get_attr_num_def get_attr_def)
qed

lemma step_safe:
  assumes "heap_ok h" "op_ok h op" "at_step junk op h = Some r"
  shows "safe h r"
proof (cases op)
  case New_table
  then show ?thesis using assms heap_ok_new_table [OF assms(1), of "fst (new_AttrTable h)" "snd (new_AttrTable h)"] by auto
next
  case (Copy_table a)
  then obtain q where q: "copy_AttrTable junk a h = Some q" "obind (Some q) (\<lambda>(k, h). Some (Inr h)) = Some r"
    using assms(3) by (cases "copy_AttrTable junk a h") auto
  have "safe h (rbind q (\<lambda>(k, h). Inr h))" using copy_safe [OF assms(1) _ q(1)] assms(2) Copy_table by simp
  then show ?thesis using q(2) by (cases q) auto
next
  case (Alias_value a das n src)
  then have "h_tables h a \<noteq> None" "h_tables h das \<noteq> None" "add_value_alias a das n src h = Some r" using assms by simp_all
  then show ?thesis by (rule add_value_alias_safe [OF assms(1)])
next
  case (Append_attr a n ty vs)
  then show ?thesis using assms append_values_safe [OF assms(1)] by auto
next
  case (Set_global a i ga)
  then show ?thesis using assms set_is_global_safe [OF assms(1)] by (auto split: option.splits)
next
  case (Set_name a n)
  then show ?thesis using assms set_name_safe [OF assms(1)] by auto
next
  case (Append_container a n)
  then show ?thesis using assms append_new_container_safe [OF assms(1)] by auto
next
  case (Attach_container a c n)
  then show ?thesis using assms append_container_safe [OF assms(1)] by auto
next
  case (Alias_container a n src)
  then show ?thesis using assms add_container_alias_safe [OF assms(1)] by auto
qed

lemma reach_ok: "at_reach junk h \<Longrightarrow> heap_ok h"
proof (induction rule: at_reach.induct)
  case at_start
  show ?case by (simp add: heap_ok_def empty_heap_def)
next
  case (at_next h op h')
  then show ?case using step_safe [of h op junk "Inr h'"] by simp
qed

text \<open>Several steps.\<close>

fun at_steps :: "nat option \<Rightarrow> at_op list \<Rightarrow> at_heap \<Rightarrow> at_heap at_result option" where
  "at_steps junk [] h = Some (Inr h)"
| "at_steps junk (op # ops) h = obind (at_step junk op h) (at_steps junk ops)"

text \<open>An attribute that is appended with the type of a container has no table.\<close>

definition false_container :: "at_op list" where
  "false_container = [New_table, Append_attr 0 ''a'' ''Container'' [''v'']]"

lemma false_container_faults:
  "\<exists>h'. at_steps junk false_container empty_heap = Some (Inr h') \<and> at_find h' 0 ''y'' = Some (Inl Fault)"
proof -
  let ?e = "blank_entry\<lparr>e_name := ''a'', e_type := Attr_container, e_attr := Some 1\<rparr>"
  let ?h = "\<lparr>h_tables = [0 \<mapsto> blank_table\<lparr>attr_map := [?e]\<rparr>], h_values = [1 \<mapsto> [''v'']], h_next = 2\<rparr>"
  have n: "remove_space_encoding ''a'' = ''a''" "String_to_AttrType ''Container'' = Attr_container"
      "rfind_sub ''y'' ''.'' = None"
    by code_simp+
  have "at_steps junk false_container empty_heap = Some (Inr ?h)"
    by (simp add: false_container_def new_AttrTable_def append_values_def table_at_def push_entry_def put_table_def empty_heap_def
        blank_table_def simple_find_def new_values_def put_values_def n Let_def)
  moreover have "at_find ?h 0 ''y'' = Some (Inl Fault)"
    by (simp add: at_find_def recurrsive_find_def n) (subst find_from.simps, simp add: blank_entry_def)
  ultimately show ?thesis by blast
qed

text \<open>
  C26: No null or dangling pointer is followed: in whatever order tables are made, named and copied, attributes with
  values, containers and aliases are added to tables that exist, and attributes are made global or not, no step
  reads through a bad pointer, and neither does any search, print or read of a value of the tables that come
  about. The attributes have a type that holds values and at least one value: the library also takes
  the type Container, and the last part shows that then a search follows a null pointer.
\<close>

theorem attributes_type_safe:
  assumes "at_reach junk h"
  shows "(op_ok h op \<longrightarrow> at_step junk op h \<noteq> Some (Inl Fault)) \<and>
    (h_tables h a \<noteq> None \<longrightarrow> at_find h a target \<noteq> Some (Inl Fault) \<and>
       print_table h a pad dereference \<noteq> Some (Inl Fault)) \<and>
    (\<forall>t. h_tables h a = Some t \<longrightarrow> get_attr_vector h t n \<noteq> Inl Fault \<and> get_attr_num h t n \<noteq> Inl Fault \<and>
       (\<forall>m k. get_attr_num h t n = Inr m \<longrightarrow> k < m \<longrightarrow> get_attr h t n k \<noteq> Inl Fault)) \<and>
    (\<exists>h'. at_steps junk false_container empty_heap = Some (Inr h') \<and> at_find h' 0 ''y'' = Some (Inl Fault))"
proof -
  note ok = reach_ok [OF assms]
  have "at_step junk op h \<noteq> Some (Inl Fault)" if "op_ok h op"
    using step_safe [OF ok that, of junk "Inl Fault"] by auto
  moreover have "at_find h a target \<noteq> Some (Inl Fault)" if "h_tables h a \<noteq> None"
    using at_find_good [OF ok that, of target "Inl Fault"] by (auto simp: good_position_def)
  moreover have "print_table h a pad dereference \<noteq> Some (Inl Fault)" if ne: "h_tables h a \<noteq> None"
  proof -
    obtain t where t: "h_tables h a = Some t" using ne by auto
    show ?thesis using print_entries_good [of h dereference "attr_map t" pad "Inl Fault"] ok heap_ok_entry [OF ok t]
      by (auto simp: print_table_def t)
  qed
  moreover note reads_good [OF ok] false_container_faults [of junk]
  ultimately show ?thesis by blast
qed

text \<open>A table with a container, an attribute in it, and an alias of the container in itself.\<close>

definition demo_ops :: "at_op list" where
  "demo_ops = [New_table, Append_container 0 ''a'', Append_attr 1 ''x'' ''Int32'' [''1''], Alias_container 1 ''b'' 1]"

fun steps_ok :: "nat option \<Rightarrow> at_op list \<Rightarrow> at_heap \<Rightarrow> bool" where
  "steps_ok junk [] h = True"
| "steps_ok junk (op # ops) h = (op_ok h op \<and> (case at_step junk op h of Some (Inr h') \<Rightarrow> steps_ok junk ops h' | _ \<Rightarrow> True))"

lemma steps_reach:
  "at_reach junk h \<Longrightarrow> steps_ok junk ops h \<Longrightarrow> at_steps junk ops h = Some (Inr h') \<Longrightarrow> at_reach junk h'"
proof (induction ops arbitrary: h)
  case (Cons op ops)
  obtain h1 where h1: "at_step junk op h = Some (Inr h1)" "at_steps junk ops h1 = Some (Inr h')"
    using Cons.prems(3) by (auto simp: obind_Some)
  have "at_reach junk h1" using Cons.prems(1,2) h1 by (auto intro: at_next)
  then show ?case using Cons h1 by simp
qed simp

definition demo_heap :: at_heap where
  "demo_heap = (case at_steps None demo_ops empty_heap of Some (Inr h) \<Rightarrow> h | _ \<Rightarrow> empty_heap)"

lemma demo_runs: "(case at_steps None demo_ops empty_heap of Some (Inr h) \<Rightarrow> steps_ok None demo_ops empty_heap | _ \<Rightarrow> False)"
  by code_simp

lemma demo_run:
  "at_reach None demo_heap"
  "h_tables demo_heap 0 = Some \<lparr>d_name = '''', d_parent = None, attr_map =
     [blank_entry\<lparr>e_name := ''a'', e_type := Attr_container, e_attributes := Some 1\<rparr>], d_is_global_attribute = True\<rparr>"
  "h_tables demo_heap 1 = Some \<lparr>d_name = ''a'', d_parent = Some 0, attr_map =
     [blank_entry\<lparr>e_name := ''x'', e_type := Attr_int32, e_attr := Some 2\<rparr>,
      blank_entry\<lparr>e_name := ''b'', e_is_alias := True, e_aliased_to := ''a'', e_type := Attr_container, e_attributes := Some 1\<rparr>],
     d_is_global_attribute = True\<rparr>"
proof -
  show "at_reach None demo_heap" using demo_runs steps_reach [OF at_start]
    by (auto simp: demo_heap_def split: option.splits sum.splits)
qed code_simp+

theorem attributes_type_safe_witness:
  "at_find demo_heap 0 ''y'' \<noteq> Some (Inl Fault) \<and> print_table demo_heap 0 '''' False \<noteq> Some (Inl Fault) \<and>
   get_attr_vector demo_heap (the (h_tables demo_heap 1)) ''x'' \<noteq> Inl Fault"
proof -
  show ?thesis
    using attributes_type_safe [OF demo_run(1), of New_table 0 "''y''" "''''" False] demo_run(2)
      attributes_type_safe [OF demo_run(1), of New_table 1 _ _ _ "''x''"] demo_run(3) by auto
qed

end
