(* ===== verification/AttrTrees.thy ===== *)
theory AttrTrees
  imports AttrSafety
begin

text \<open>
  Attribute tables without aliases are trees: the search is a search of the tree in preorder, printing
  prints the tree, and a copy is a deep copy. With an alias that makes a cycle the search for a name that
  is not there never returns.
\<close>

section \<open>Trees of attributes\<close>

text \<open>
  A leaf has name, type, flag and values; a branch has the name and flag of its entry, the name and
  flag of its table, and its attributes.
\<close>

datatype attr_tree =
    Leaf string attr_type bool "string list"
  | Branch string bool string bool "attr_tree list"

fun tree_name :: "attr_tree \<Rightarrow> string" where
  "tree_name (Leaf n ty g vs) = n"
| "tree_name (Branch n g m tg ts) = n"

inductive holds :: "at_heap \<Rightarrow> entry list \<Rightarrow> attr_tree list \<Rightarrow> bool" for h where
  holds_nil: "holds h [] []"
| holds_leaf: "\<not> e_is_alias e \<Longrightarrow> e_type e \<noteq> Attr_container \<Longrightarrow> e_type e \<noteq> Attr_unknown \<Longrightarrow> e_attr e = Some v \<Longrightarrow>
    h_values h v = Some vs \<Longrightarrow> holds h es ts \<Longrightarrow>
    holds h (e # es) (Leaf (e_name e) (e_type e) (e_is_global e) vs # ts)"
| holds_branch: "\<not> e_is_alias e \<Longrightarrow> e_type e = Attr_container \<Longrightarrow> e_attributes e = Some c \<Longrightarrow> h_tables h c = Some t \<Longrightarrow>
    holds h (attr_map t) sub \<Longrightarrow> holds h es ts \<Longrightarrow>
    holds h (e # es) (Branch (e_name e) (e_is_global e) (d_name t) (d_is_global_attribute t) sub # ts)"

inductive_simps holds_Nil: "holds h [] ts"
inductive_simps holds_Cons: "holds h (e # es) ts"

fun tree_lookup :: "string \<Rightarrow> attr_tree list \<Rightarrow> attr_tree option" where
  "tree_lookup n [] = None"
| "tree_lookup n (Leaf m ty g vs # ts) = (if n = m then Some (Leaf m ty g vs) else tree_lookup n ts)"
| "tree_lookup n (Branch m g k tg sub # ts) =
     (if n = m then Some (Branch m g k tg sub)
      else case tree_lookup n sub of Some x \<Rightarrow> Some x | None \<Rightarrow> tree_lookup n ts)"

section \<open>The search is the search of the tree\<close>

definition position_holds :: "at_heap \<Rightarrow> (nat \<times> nat) option at_result option \<Rightarrow> attr_tree option \<Rightarrow> bool" where
  "position_holds h r x =
     (case x of
        None \<Rightarrow> r = Some (Inr None)
      | Some y \<Rightarrow> (\<exists>b j s. r = Some (Inr (Some (b, j))) \<and> h_tables h b = Some s \<and> j < length (attr_map s) \<and>
          holds h [attr_map s ! j] [y]))"

lemma find_from_holds:
  "holds h es ts \<Longrightarrow> h_tables h a = Some t \<Longrightarrow> attr_map t = pre @ es \<Longrightarrow>
     position_holds h (find_from h n a (length pre) es) (tree_lookup n ts)"
proof (induction arbitrary: a t pre rule: holds.induct)
  case holds_nil
  then show ?case by (subst find_from.simps) (simp add: position_holds_def)
next
  case (holds_leaf e v vs es ts)
  show ?case
  proof (cases "n = e_name e")
    case True
    have "holds h [e] [Leaf (e_name e) (e_type e) (e_is_global e) vs]"
      using holds_leaf(1-5) by (intro holds.intros)
    then show ?thesis using True holds_leaf(8,9) by (subst find_from.simps) (auto simp: position_holds_def)
  next
    case False
    then show ?thesis using holds_leaf(2) holds_leaf(7) [OF holds_leaf(8), of "pre @ [e]"] holds_leaf(9)
      by (subst find_from.simps) simp
  qed
next
  case (holds_branch e c s sub es ts)
  show ?case
  proof (cases "n = e_name e")
    case True
    have "holds h [e] [Branch (e_name e) (e_is_global e) (d_name s) (d_is_global_attribute s) sub]"
      using holds_branch(1-5) by (intro holds.intros)
    then show ?thesis using True holds_branch(9,10) by (subst find_from.simps) (auto simp: position_holds_def)
  next
    case False
    have s: "position_holds h (find_from h n c 0 (attr_map s)) (tree_lookup n sub)"
      using holds_branch(7) [OF holds_branch(4), of "[]"] by simp
    have r: "position_holds h (find_from h n a (length pre + 1) es) (tree_lookup n ts)"
      using holds_branch(8) [OF holds_branch(9), of "pre @ [e]"] holds_branch(10) by simp
    show ?thesis using False holds_branch(2-4) s r
      by (subst find_from.simps) (auto simp: position_holds_def split: option.splits)
  qed
qed

section \<open>Printing prints the tree\<close>

fun tree_print :: "string \<Rightarrow> attr_tree list \<Rightarrow> string" where
  "tree_print pad [] = ''''"
| "tree_print pad (Leaf n ty g vs # ts) =
     pad @ AttrType_to_String ty @ '' '' @ add_space_encoding n @ '' '' @
     concat (map (\<lambda>v. write_value ty v '', '') (butlast vs)) @ write_value ty (last vs) ('';'' @ [lf]) @ tree_print pad ts"
| "tree_print pad (Branch n g m tg sub # ts) =
     pad @ add_space_encoding n @ '' {'' @ [lf] @ tree_print (pad @ ''    '') sub @ pad @ ''}'' @ [lf] @ tree_print pad ts"

fun tree_full :: "attr_tree list \<Rightarrow> bool" where
  "tree_full [] = True"
| "tree_full (Leaf n ty g vs # ts) = (vs \<noteq> [] \<and> tree_full ts)"
| "tree_full (Branch n g m tg sub # ts) = (tree_full sub \<and> tree_full ts)"

lemma write_values_concat:
  "vs \<noteq> [] \<Longrightarrow> write_values ty vs = Some (concat (map (\<lambda>v. write_value ty v '', '') (butlast vs)) @ write_value ty (last vs) ('';'' @ [lf]))"
  by (induction ty vs rule: write_values.induct) auto

lemma print_entries_holds:
  "holds h es ts \<Longrightarrow> tree_full ts \<Longrightarrow> print_entries h d es pad = Some (Inr (tree_print pad ts))"
proof (induction arbitrary: pad rule: holds.induct)
  case holds_nil
  then show ?case by (subst print_entries.simps) simp
next
  case (holds_leaf e v vs es ts)
  then show ?case
    by (subst print_entries.simps) (simp add: print_values_def values_at_def write_values_concat)
next
  case (holds_branch e c s sub es ts)
  then show ?case by (subst print_entries.simps) (simp add: container_text_def)
qed

section \<open>A copy is a deep copy\<close>

text \<open>Two stores agree on a range of addresses when they hold the same there but for the parents of tables.\<close>

definition but_parent :: "attr_table option \<Rightarrow> attr_table option" where
  "but_parent x = map_option (\<lambda>t. t\<lparr>d_parent := None\<rparr>) x"

definition agree :: "nat \<Rightarrow> nat \<Rightarrow> at_heap \<Rightarrow> at_heap \<Rightarrow> bool" where
  "agree m n h h' \<longleftrightarrow> (\<forall>a. m \<le> a \<and> a < n \<longrightarrow> but_parent (h_tables h a) = but_parent (h_tables h' a) \<and> h_values h a = h_values h' a)"

lemma but_parent_Some:
  "but_parent (Some t) = but_parent x \<Longrightarrow> \<exists>t'. x = Some t' \<and> d_name t' = d_name t \<and> attr_map t' = attr_map t \<and>
     d_is_global_attribute t' = d_is_global_attribute t"
  by (cases x) (auto simp: but_parent_def dest: arg_cong [of _ _ d_name] arg_cong [of _ _ attr_map] arg_cong [of _ _ d_is_global_attribute])

lemma agree_sub: "agree m n h h' \<Longrightarrow> m \<le> m' \<Longrightarrow> n' \<le> n \<Longrightarrow> agree m' n' h h'"
  by (auto simp: agree_def)

lemma agree_trans: "agree m n h h' \<Longrightarrow> agree m n h' h'' \<Longrightarrow> agree m n h h''"
  by (auto simp: agree_def)

text \<open>What a list of entries shows in every store that agrees on a range.\<close>

definition shown_by :: "nat \<Rightarrow> nat \<Rightarrow> at_heap \<Rightarrow> entry list \<Rightarrow> attr_tree list \<Rightarrow> bool" where
  "shown_by m n h es ts \<longleftrightarrow> (\<forall>h'. agree m n h h' \<longrightarrow> holds h' es ts)"

definition old_kept :: "nat \<Rightarrow> at_heap \<Rightarrow> at_heap \<Rightarrow> bool" where
  "old_kept p h h' \<longleftrightarrow> h_next h \<le> h_next h' \<and> (\<forall>a < h_next h. h_values h' a = h_values h a \<and> (a \<noteq> p \<longrightarrow> h_tables h' a = h_tables h a))"

definition fresh_ok :: "at_heap \<Rightarrow> bool" where
  "fresh_ok h \<longleftrightarrow> (\<forall>a. h_next h \<le> a \<longrightarrow> h_tables h a = None \<and> h_values h a = None)"

text \<open>The entries \<open>es\<close> of the store \<open>h0\<close> are copied into the table \<open>p\<close> when the store has grown to \<open>h\<close>.\<close>

definition clones :: "nat option \<Rightarrow> at_heap \<Rightarrow> entry list \<Rightarrow> attr_tree list \<Rightarrow> bool" where
  "clones junk h0 es ts \<longleftrightarrow> (\<forall>h p tp. fresh_ok h \<longrightarrow> h_tables h p = Some tp \<longrightarrow> h_next h0 \<le> p \<longrightarrow> h_next h0 \<le> h_next h \<longrightarrow>
     old_kept p h0 h \<longrightarrow>
     (\<exists>h' es'. clone_entries junk p es h = Some (Inr h') \<and> fresh_ok h' \<and> old_kept p h h' \<and>
        h_tables h' p = Some (tp\<lparr>attr_map := attr_map tp @ es'\<rparr>) \<and> shown_by (h_next h) (h_next h') h' es' ts))"

lemma old_kept_trans: "old_kept p h h' \<Longrightarrow> old_kept p h' h'' \<Longrightarrow> old_kept p h h''"
  by (auto simp: old_kept_def)

lemma clones_leaf:
  assumes e: "\<not> e_is_alias e" "e_type e \<noteq> Attr_container" "e_type e \<noteq> Attr_unknown" "e_attr e = Some v" "h_values h0 v = Some vs"
    and f0: "fresh_ok h0" and IH: "clones junk h0 es ts"
  shows "clones junk h0 (e # es) (Leaf (e_name e) (e_type e) (e_is_global e) vs # ts)"
  unfolding clones_def
proof (intro allI impI)
  fix h p tp
  assume k: "fresh_ok h" "h_tables h p = Some tp" "h_next h0 \<le> p" "h_next h0 \<le> h_next h" "old_kept p h0 h"
  have v: "v < h_next h0" using f0 e(5) by (auto simp: fresh_ok_def) (metis not_le option.distinct(1))
  have p: "p < h_next h" using k(1,2) by (auto simp: fresh_ok_def) (metis not_le option.distinct(1))
  let ?w = "h_next h"
  let ?e = "e\<lparr>e_attributes := None, e_attr := Some ?w\<rparr>"
  let ?tp = "tp\<lparr>attr_map := attr_map tp @ [?e]\<rparr>"
  define h1 where "h1 = put_table p ?tp ((put_values ?w vs h)\<lparr>h_next := ?w + 1\<rparr>)"
  have vs: "values_at h (Some v) = Inr vs" using e(4,5) v k(5) by (simp add: values_at_def old_kept_def)
  have h1: "fresh_ok h1" "h_tables h1 p = Some ?tp" "h_next h1 = ?w + 1" "old_kept p h h1" "h_values h1 ?w = Some vs"
    using k(1) p by (auto simp: h1_def fresh_ok_def old_kept_def put_table_def put_values_def)
  obtain h' es' where c: "clone_entries junk p es h1 = Some (Inr h')" "fresh_ok h'" "old_kept p h1 h'"
      "h_tables h' p = Some (?tp\<lparr>attr_map := attr_map ?tp @ es'\<rparr>)" "shown_by (h_next h1) (h_next h') h' es' ts"
    using IH [unfolded clones_def, rule_format, OF h1(1,2) k(3)] k(4) old_kept_trans [OF k(5) h1(4)] h1(3) by auto
  have "clone_entries junk p (e # es) h = Some (Inr h')"
    using e c(1) k(2) by (subst clone_entries.simps)
      (simp add: copy_values_def vs new_values_def push_entry_def table_at_def put_values_def adopt_def h1_def put_table_def)
  moreover have "shown_by (h_next h) (h_next h') h' (?e # es') (Leaf (e_name e) (e_type e) (e_is_global e) vs # ts)"
    unfolding shown_by_def
  proof (intro allI impI)
    fix h2 assume a: "agree (h_next h) (h_next h') h' h2"
    have w: "h_values h' ?w = Some vs" "?w < h_next h'" using c(3) h1(3,5) by (auto simp: old_kept_def)
    have "holds h2 es' ts" using c(5) agree_sub [OF a] h1(3) by (auto simp: shown_by_def)
    moreover have "h_values h2 ?w = Some vs" using a w by (auto simp: agree_def)
    ultimately show "holds h2 (?e # es') (Leaf (e_name e) (e_type e) (e_is_global e) vs # ts)"
      using holds_leaf [of ?e ?w h2 vs es' ts] e by simp
  qed
  ultimately show "\<exists>h' es'. clone_entries junk p (e # es) h = Some (Inr h') \<and> fresh_ok h' \<and> old_kept p h h' \<and>
        h_tables h' p = Some (tp\<lparr>attr_map := attr_map tp @ es'\<rparr>) \<and>
        shown_by (h_next h) (h_next h') h' es' (Leaf (e_name e) (e_type e) (e_is_global e) vs # ts)"
    using c old_kept_trans [OF h1(4) c(3)] by (intro exI [of _ h'] exI [of _ "?e # es'"]) simp
qed

lemma clones_branch:
  assumes e: "\<not> e_is_alias e" "e_type e = Attr_container" "e_attributes e = Some c" "h_tables h0 c = Some t"
    and f0: "fresh_ok h0" and IH1: "clones junk h0 (attr_map t) sub" and IH2: "clones junk h0 es ts"
  shows "clones junk h0 (e # es) (Branch (e_name e) (e_is_global e) (d_name t) (d_is_global_attribute t) sub # ts)"
  unfolding clones_def
proof (intro allI impI)
  let ?b = "Branch (e_name e) (e_is_global e) (d_name t) (d_is_global_attribute t) sub"
  fix h p tp
  assume k: "fresh_ok h" "h_tables h p = Some tp" "h_next h0 \<le> p" "h_next h0 \<le> h_next h" "old_kept p h0 h"
  have c: "c < h_next h0" using f0 e(4) by (auto simp: fresh_ok_def) (metis not_le option.distinct(1))
  have p: "p < h_next h" using k(1,2) by (auto simp: fresh_ok_def) (metis not_le option.distinct(1))
  let ?q = "h_next h"
  define h1 where "h1 = start_copy t h"
  let ?tq = "blank_table\<lparr>d_name := d_name t, d_is_global_attribute := d_is_global_attribute t\<rparr>"
  have h1: "fresh_ok h1" "h_tables h1 ?q = Some ?tq" "h_next h1 = ?q + 1" "old_kept ?q h0 h1" "old_kept p h h1" "h_tables h1 p = Some tp"
    using k p by (auto simp: h1_def start_copy_def fresh_ok_def put_table_def old_kept_def)
  obtain h2 es1 where c1: "clone_entries junk ?q (attr_map t) h1 = Some (Inr h2)" "fresh_ok h2" "old_kept ?q h1 h2"
      "h_tables h2 ?q = Some (?tq\<lparr>attr_map := attr_map ?tq @ es1\<rparr>)" "shown_by (h_next h1) (h_next h2) h2 es1 sub"
    using IH1 [unfolded clones_def, rule_format, OF h1(1,2) k(4) _ h1(4)] k(4) h1(3) by auto
  let ?e = "e\<lparr>e_attributes := Some ?q, e_attr := None\<rparr>"
  let ?tp = "tp\<lparr>attr_map := attr_map tp @ [?e]\<rparr>"
  let ?tq2 = "?tq\<lparr>attr_map := es1, d_parent := Some p\<rparr>"
  define h4 where "h4 = put_table ?q ?tq2 (put_table p ?tp h2)"
  have n: "?q < h_next h2" "p \<noteq> ?q" "h_tables h2 p = Some tp" using c1(3) h1(3,6) p by (auto simp: old_kept_def)
  have h4: "fresh_ok h4" "h_tables h4 p = Some ?tp" "h_next h4 = h_next h2" "h_tables h4 ?q = Some ?tq2"
    using c1(2) n p by (auto simp: h4_def fresh_ok_def put_table_def)
  have k4: "old_kept p h h4" using h1(5) c1(3) n h1(3) by (auto simp: h4_def old_kept_def put_table_def)
  obtain h' es' where c2: "clone_entries junk p es h4 = Some (Inr h')" "fresh_ok h'" "old_kept p h4 h'"
      "h_tables h' p = Some (?tp\<lparr>attr_map := attr_map ?tp @ es'\<rparr>)" "shown_by (h_next h4) (h_next h') h' es' ts"
    using IH2 [unfolded clones_def, rule_format, OF h4(1,2) k(3) _ old_kept_trans [OF k(5) k4]] k(4) k4
    by (auto simp: old_kept_def)
  have "clone_entries junk p (e # es) h = Some (Inr h')"
  proof -
    have "h_tables h c = Some t" using k(3,5) c e(4) by (auto simp: old_kept_def)
    moreover have "rbind (push_entry p ?e h2) (adopt p ?e) = Inr h4"
      using n c1(4) e(2) by (simp add: push_entry_def table_at_def adopt_def h4_def put_table_def blank_table_def)
    ultimately show ?thesis using e c1(1) c2(1) by (subst clone_entries.simps) (simp add: h1_def)
  qed
  moreover have "shown_by (h_next h) (h_next h') h' (?e # es') (?b # ts)"
    unfolding shown_by_def
  proof (intro allI impI)
    fix h5 assume a: "agree (h_next h) (h_next h') h' h5"
    have m: "h_next h2 \<le> h_next h'" using c2(3) h4(3) by (simp add: old_kept_def)
    have "h_tables h' ?q = Some ?tq2" using c2(3) h4(3,4) n by (auto simp: old_kept_def)
    moreover have "but_parent (h_tables h' ?q) = but_parent (h_tables h5 ?q)" using a n(1) m unfolding agree_def by (meson le_refl less_le_trans)
    ultimately have "but_parent (Some ?tq2) = but_parent (h_tables h5 ?q)" by simp
    from but_parent_Some [OF this] obtain t5 where t5: "h_tables h5 ?q = Some t5" "d_name t5 = d_name t" "attr_map t5 = es1"
        "d_is_global_attribute t5 = d_is_global_attribute t"
      by auto
    have "agree (h_next h1) (h_next h2) h2 h4" using h1(3) n p by (auto simp: agree_def h4_def put_table_def)
    moreover have "agree (h_next h1) (h_next h2) h4 h'" using c2(3) h4(3) h1(3) p by (auto simp: agree_def old_kept_def)
    moreover have "agree (h_next h1) (h_next h2) h' h5" using agree_sub [OF a] m h1(3) by simp
    ultimately have "holds h5 es1 sub" using c1(5) agree_trans unfolding shown_by_def by blast
    moreover have "holds h5 es' ts"
      using c2(5) agree_sub [OF a, of "h_next h4" "h_next h'"] h4(3) n(1) by (auto simp: shown_by_def)
    ultimately show "holds h5 (?e # es') (?b # ts)"
      using holds_branch [of ?e ?q h5 t5 sub es' ts] t5 e by simp
  qed
  ultimately show "\<exists>h' es'. clone_entries junk p (e # es) h = Some (Inr h') \<and> fresh_ok h' \<and> old_kept p h h' \<and>
        h_tables h' p = Some (tp\<lparr>attr_map := attr_map tp @ es'\<rparr>) \<and> shown_by (h_next h) (h_next h') h' es' (?b # ts)"
    using c2 old_kept_trans [OF k4 c2(3)] by (intro exI [of _ h'] exI [of _ "?e # es'"]) simp
qed

lemma clones_all: "holds h es ts \<Longrightarrow> fresh_ok h \<Longrightarrow> clones junk h es ts"
proof (induction rule: holds.induct)
  case holds_nil
  have "shown_by n n h' [] []" for n h' by (simp add: shown_by_def holds.intros)
  then show ?case unfolding clones_def
    by (subst clone_entries.simps) (auto simp: old_kept_def intro!: exI [of _ "[]"])
next
  case (holds_leaf e v vs es ts)
  show ?case by (rule clones_leaf [OF holds_leaf(1-5,8) holds_leaf(7) [OF holds_leaf(8)]])
next
  case (holds_branch e c t sub es ts)
  show ?case by (rule clones_branch [OF holds_branch(1-4,9) holds_branch(7,8) [OF holds_branch(9)]])
qed

section \<open>Tables that are built as trees\<close>

fun plain_op :: "at_op \<Rightarrow> bool" where
  "plain_op New_table = True"
| "plain_op (Set_name a n) = True"
| "plain_op (Append_attr a n ty vs) = True"
| "plain_op (Append_container a n) = True"
| "plain_op (Set_global a i ga) = True"
| "plain_op _ = False"

inductive tree_reach :: "at_heap \<Rightarrow> bool" where
  tree_start: "tree_reach empty_heap"
| tree_next: "tree_reach h \<Longrightarrow> op_ok h op \<Longrightarrow> plain_op op \<Longrightarrow> at_step None op h = Some (Inr h') \<Longrightarrow> tree_reach h'"

lemma tree_at_reach: "tree_reach h \<Longrightarrow> at_reach None h"
  by (induction rule: tree_reach.induct) (auto intro: at_reach.intros)

text \<open>No aliases, and the table of a container has a higher address.\<close>

definition descends :: "nat \<Rightarrow> entry \<Rightarrow> bool" where
  "descends a e \<longleftrightarrow> \<not> e_is_alias e \<and> (e_type e = Attr_container \<longrightarrow> (\<forall>c. e_attributes e = Some c \<longrightarrow> a < c))"

definition treelike :: "at_heap \<Rightarrow> bool" where
  "treelike h \<longleftrightarrow> (\<forall>a t. h_tables h a = Some t \<longrightarrow> (\<forall>e \<in> set (attr_map t). descends a e))"

lemma treelike_put:
  "treelike h \<Longrightarrow> (\<forall>e \<in> set (attr_map t). descends a e) \<Longrightarrow> treelike (put_table a t h)"
  by (auto simp: treelike_def put_table_def)

lemma treelike_push:
  "treelike h \<Longrightarrow> descends a e \<Longrightarrow> push_entry a e h = Inr h' \<Longrightarrow> treelike h'"
  by (auto simp: push_entry_def table_at_def split: option.splits intro!: treelike_put) (auto simp: treelike_def)

lemma treelike_set_name: "treelike h \<Longrightarrow> set_name a n h = Inr h' \<Longrightarrow> treelike h' \<and> h_next h' = h_next h"
  by (auto simp: set_name_def table_at_def split: option.splits intro!: treelike_put)
    (auto simp: treelike_def put_table_def)

lemma treelike_append_values:
  assumes "treelike h" "value_type ty" "append_values a n ty vs h = Inr (k, h')"
  shows "treelike h'"
proof -
  obtain t where t: "h_tables h a = Some t" using assms(3) by (auto simp: append_values_def table_at_def split: option.splits)
  show ?thesis
  proof (cases "simple_find t (remove_space_encoding n)")
    case None
    obtain v h1 where v: "new_values vs h = (v, h1)" by fastforce
    then have "treelike h1" using assms(1) by (auto simp: treelike_def new_values_def put_values_def)
    then show ?thesis using assms(2,3) t None v
      by (auto simp: append_values_def table_at_def rbind_Inr_iff value_type_def descends_def blank_entry_def intro!: treelike_push [of h1 a])
  next
    case (Some i)
    then show ?thesis using assms(1,3) t
      by (auto simp: append_values_def table_at_def Let_def rbind_Inr_iff treelike_def put_values_def split: if_splits)
  qed
qed

lemma treelike_new: "treelike h \<Longrightarrow> treelike (snd (new_AttrTable h))"
  by (auto simp: treelike_def new_AttrTable_def put_table_def blank_table_def split: if_splits)

lemma treelike_append_container:
  assumes "treelike h" "heap_ok h" "h_tables h a \<noteq> None" "append_new_container a n h = Inr (k, h')"
  shows "treelike h'"
proof -
  obtain c h1 where c: "new_AttrTable h = (c, h1)" by fastforce
  have a: "a < c" using assms(2,3) c heap_okD(2) by (auto simp: new_AttrTable_def)
  have h1: "treelike h1" using treelike_new [OF assms(1)] c by simp
  let ?n = "remove_space_encoding n"
  let ?e = "blank_entry\<lparr>e_name := ?n, e_type := Attr_container, e_attributes := Some c\<rparr>"
  obtain t h2 h3 s where s: "set_name c ?n h1 = Inr h2" "push_entry a ?e h2 = Inr h3" "table_at h3 c = Inr s"
      "h' = put_table c (s\<lparr>d_parent := Some a\<rparr>) h3"
    using assms(4) c by (auto simp: append_new_container_def append_container_def rbind_Inr_iff Let_def split: if_splits)
  have "descends a ?e" using a by (simp add: descends_def blank_entry_def)
  then have h3: "treelike h3" using treelike_push [OF _ _ s(2)] treelike_set_name [OF h1 s(1)] by blast
  moreover have "h_tables h3 c = Some s" using s(3) by (auto simp: table_at_def split: option.splits)
  ultimately show ?thesis unfolding s(4) by (intro treelike_put) (auto simp: treelike_def)
qed

lemma treelike_set_is_global:
  assumes "treelike h" "op_ok h (Set_global a i ga)" "set_is_global a i ga h = Inr h'"
  shows "treelike h'"
proof -
  obtain t where t: "h_tables h a = Some t" "i < length (attr_map t)" using assms(2) by (auto split: option.splits)
  have "\<forall>e \<in> set ((attr_map t)[i := (attr_map t ! i)\<lparr>e_is_global := ga\<rparr>]). descends a e"
    using assms(1) t set_update_subset_insert [of "attr_map t" i] nth_mem [OF t(2)] by (fastforce simp: treelike_def descends_def)
  moreover have "\<forall>e \<in> set (attr_map s). descends c e" if "h_tables h c = Some s" for c s using assms(1) that by (auto simp: treelike_def)
  ultimately show ?thesis using assms(1,3) t(1)
    by (auto simp: set_is_global_def table_at_def Let_def rbind_Inr_iff split: if_splits option.splits intro!: treelike_put)
qed

lemma tree_reach_treelike: "tree_reach h \<Longrightarrow> treelike h"
proof (induction rule: tree_reach.induct)
  case tree_start
  show ?case by (simp add: treelike_def empty_heap_def)
next
  case (tree_next h op h')
  have ok: "heap_ok h" using tree_next(1) tree_at_reach reach_ok by blast
  show ?case using tree_next ok
    by (cases op) (auto simp: rbind_Inr_iff treelike_new
        dest: treelike_append_values treelike_append_container treelike_set_name treelike_set_is_global)
qed

lemma treelike_holds:
  assumes "heap_ok h" "treelike h" "h_tables h a = Some t"
  shows "\<exists>ts. holds h (attr_map t) ts \<and> tree_full ts"
  using assms(3)
proof (induction "h_next h - a" arbitrary: a t rule: less_induct)
  case less
  have "\<forall>e \<in> set es. entry_ok h e \<and> descends a e \<Longrightarrow> \<exists>ts. holds h es ts \<and> tree_full ts" for es
  proof (induction es)
    case Nil
    then show ?case using holds_nil tree_full.simps(1) by blast
  next
    case (Cons e es)
    then obtain ts where ts: "holds h es ts" "tree_full ts" by auto
    have e: "entry_ok h e" "\<not> e_is_alias e" using Cons.prems by (auto simp: descends_def)
    show ?case
    proof (cases "e_type e = Attr_container")
      case True
      obtain c s where c: "e_attributes e = Some c" "h_tables h c = Some s" using entry_ok_container [OF e(1) True] by blast
      have "a < c" using Cons.prems True c(1) by (auto simp: descends_def)
      then have "h_next h - c < h_next h - a" using heap_okD(2) [OF assms(1) c(2)] by simp
      then obtain sub where "holds h (attr_map s) sub" "tree_full sub" using less(1) c(2) by blast
      then show ?thesis using holds_branch [OF e(2) True c _ ts(1)] ts(2) by (metis tree_full.simps(3))
    next
      case False
      obtain v vs where v: "e_attr e = Some v" "h_values h v = Some vs" "vs \<noteq> []" using entry_ok_values [OF e(1) False] by blast
      have "e_type e \<noteq> Attr_unknown" using e(1) by (simp add: entry_ok_def)
      then show ?thesis using holds_leaf [OF e(2) False _ v(1,2) ts(1)] ts(2) v(3) by (metis tree_full.simps(2))
    qed
  qed
  then show ?case using heap_ok_entry [OF assms(1) less(2)] assms(2) less(2) by (auto simp: treelike_def)
qed

text \<open>
  C27: In tables that are built as trees every search ends and finds what a preorder search of the tree of
  attributes finds, and every print ends and is the print of the tree. Built as trees means: by making
  tables, naming them, appending attributes of a type that holds values (not of the type Container,
  which makes a container without a table) and making new containers in them, and by making attributes
  global; without aliases, copies, and existing tables put into tables, so that none is in itself.
\<close>

theorem attribute_search:
  assumes "tree_reach h" "h_tables h a = Some t"
  shows "\<exists>ts. holds h (attr_map t) ts \<and>
    position_holds h (recurrsive_find h a n) (tree_lookup n ts) \<and>
    print_table h a pad dereference = Some (Inr (tree_print pad ts))"
proof -
  have ok: "heap_ok h" using tree_at_reach [OF assms(1)] by (rule reach_ok)
  obtain ts where ts: "holds h (attr_map t) ts" "tree_full ts"
    using treelike_holds [OF ok tree_reach_treelike [OF assms(1)] assms(2)] by blast
  have "position_holds h (find_from h n a (length ([] :: entry list)) (attr_map t)) (tree_lookup n ts)"
    by (rule find_from_holds [OF ts(1) assms(2)]) simp
  then show ?thesis using ts print_entries_holds [OF ts] assms(2)
    by (intro exI [of _ ts]) (simp add: recurrsive_find_def print_table_def)
qed

definition tree_demo :: at_heap where
  "tree_demo = (case at_steps None [New_table, Append_container 0 ''a'', Append_attr 1 ''x'' ''Int32'' [''1'', ''2'']] empty_heap of
     Some (Inr h) \<Rightarrow> h | _ \<Rightarrow> empty_heap)"

lemma tree_steps_reach:
  "tree_reach h \<Longrightarrow> list_all plain_op ops \<Longrightarrow> steps_ok None ops h \<Longrightarrow> at_steps None ops h = Some (Inr h') \<Longrightarrow> tree_reach h'"
proof (induction ops arbitrary: h)
  case (Cons op ops)
  obtain h1 where h1: "at_step None op h = Some (Inr h1)" "at_steps None ops h1 = Some (Inr h')"
    using Cons.prems(4) by (auto simp: obind_Some)
  have "tree_reach h1" using Cons.prems h1 by (auto intro: tree_next)
  then show ?case using Cons h1 by simp
qed simp

lemma tree_demo_runs:
  "case at_steps None [New_table, Append_container 0 ''a'', Append_attr 1 ''x'' ''Int32'' [''1'', ''2'']] empty_heap of
     Some (Inr h) \<Rightarrow> steps_ok None [New_table, Append_container 0 ''a'', Append_attr 1 ''x'' ''Int32'' [''1'', ''2'']] empty_heap | _ \<Rightarrow> False"
  "h_tables tree_demo 0 = Some \<lparr>d_name = '''', d_parent = None, attr_map =
     [blank_entry\<lparr>e_name := ''a'', e_type := Attr_container, e_attributes := Some 1\<rparr>], d_is_global_attribute = True\<rparr>"
  "h_tables tree_demo 1 = Some \<lparr>d_name = ''a'', d_parent = Some 0, attr_map =
     [blank_entry\<lparr>e_name := ''x'', e_type := Attr_int32, e_attr := Some 2\<rparr>], d_is_global_attribute = True\<rparr>"
  "h_values tree_demo 2 = Some [''1'', ''2'']"
  by code_simp+

lemma tree_demo_reach: "tree_reach tree_demo"
proof -
  have p: "list_all plain_op [New_table, Append_container 0 ''a'', Append_attr 1 ''x'' ''Int32'' [''1'', ''2'']]" by simp
  show ?thesis using tree_demo_runs(1) tree_steps_reach [OF tree_start p]
    by (auto simp: tree_demo_def split: option.splits sum.splits)
qed

lemma tree_demo_holds:
  "holds tree_demo (attr_map (the (h_tables tree_demo 0))) ts \<longleftrightarrow> ts = [Branch ''a'' True ''a'' True [Leaf ''x'' Attr_int32 True [''1'', ''2'']]]"
  by (auto simp: tree_demo_runs(2) tree_demo_runs(3) [simplified] tree_demo_runs(4) [simplified] blank_entry_def holds_Nil holds_Cons)

theorem attribute_search_witness:
  "print_table tree_demo 0 '''' False = Some (Inr (''a {'' @ [lf] @ ''    Int32 x 1, 2;'' @ [lf] @ ''}'' @ [lf])) \<and>
   position_holds tree_demo (recurrsive_find tree_demo 0 ''x'') (Some (Leaf ''x'' Attr_int32 True [''1'', ''2'']))"
proof -
  have p: "tree_print '''' [Branch ''a'' True ''a'' True [Leaf ''x'' Attr_int32 True [''1'', ''2'']]] =
      ''a {'' @ [lf] @ ''    Int32 x 1, 2;'' @ [lf] @ ''}'' @ [lf]"
    by code_simp
  show ?thesis using attribute_search [OF tree_demo_reach tree_demo_runs(2), of "''x''" "''''" False] tree_demo_holds p
    by (auto simp: tree_demo_runs(2))
qed

text \<open>
  C28: A copy of a tree of attributes without aliases is a deep copy: it ends, nothing of the original changes, and the
  copy shows the same tree, whatever happens to the original afterwards. With aliases none of this
  holds: a copy keeps the pointers of aliases, changes the parent of the table of an aliased
  container, and may never end.
\<close>

theorem copy_is_deep:
  assumes "heap_ok h" "h_tables h a = Some t" "holds h (attr_map t) ts" "fresh_ok h"
  shows "\<exists>h' t'. copy_AttrTable junk a h = Some (Inr (h_next h, h')) \<and> h_tables h' (h_next h) = Some t' \<and>
    d_name t' = d_name t \<and> d_parent t' = None \<and> holds h' (attr_map t') ts \<and>
    (\<forall>b < h_next h. h_tables h' b = h_tables h b \<and> h_values h' b = h_values h b) \<and>
    (\<forall>h''. (\<forall>b. h_next h \<le> b \<longrightarrow> h_tables h'' b = h_tables h' b \<and> h_values h'' b = h_values h' b) \<longrightarrow> holds h'' (attr_map t') ts)"
proof -
  let ?q = "h_next h"
  define h1 where "h1 = start_copy t h"
  let ?tq = "blank_table\<lparr>d_name := d_name t, d_is_global_attribute := d_is_global_attribute t\<rparr>"
  have h1: "fresh_ok h1" "h_tables h1 ?q = Some ?tq" "h_next h1 = ?q + 1" "old_kept ?q h h1"
    using assms(4) by (auto simp: h1_def start_copy_def fresh_ok_def put_table_def old_kept_def)
  obtain h' es' where c: "clone_entries junk ?q (attr_map t) h1 = Some (Inr h')" "old_kept ?q h1 h'"
      "h_tables h' ?q = Some (?tq\<lparr>attr_map := attr_map ?tq @ es'\<rparr>)" "shown_by (h_next h1) (h_next h') h' es' ts"
    using clones_all [OF assms(3,4), of junk, unfolded clones_def, rule_format, OF h1(1,2) _ _ h1(4)] h1(3) by auto
  have later: "holds h'' es' ts" if "\<forall>b. ?q \<le> b \<longrightarrow> h_tables h'' b = h_tables h' b \<and> h_values h'' b = h_values h' b" for h''
  proof -
    have "agree (h_next h1) (h_next h') h' h''" using that h1(3) by (auto simp: agree_def)
    then show ?thesis using c(4) by (simp add: shown_by_def)
  qed
  let ?t = "?tq\<lparr>attr_map := attr_map ?tq @ es'\<rparr>"
  have "copy_AttrTable junk a h = Some (Inr (?q, h'))"
    using assms(2) c(1) by (simp add: copy_AttrTable_def h1_def)
  moreover have "d_name ?t = d_name t \<and> d_parent ?t = None \<and> attr_map ?t = es'" by (simp add: blank_table_def)
  moreover have "\<forall>b < ?q. h_tables h' b = h_tables h b \<and> h_values h' b = h_values h b"
    using c(2) h1(3,4) by (auto simp: old_kept_def)
  ultimately show ?thesis using c(3) later by (intro exI [of _ h'] exI [of _ ?t]) auto
qed

theorem copy_is_deep_witness:
  "\<exists>h' t'. copy_AttrTable None 0 tree_demo = Some (Inr (3, h')) \<and> h_tables h' 3 = Some t' \<and>
     holds h' (attr_map t') [Branch ''a'' True ''a'' True [Leaf ''x'' Attr_int32 True [''1'', ''2'']]] \<and>
     h_tables h' 1 = h_tables tree_demo 1"
proof -
  have ok: "heap_ok tree_demo" using tree_at_reach [OF tree_demo_reach] by (rule reach_ok)
  have f: "fresh_ok tree_demo"
    using heap_okD(2,3) [OF ok] unfolding fresh_ok_def by (metis not_le option.exhaust)
  have n: "h_next tree_demo = 3" by code_simp
  note c = copy_is_deep [OF ok tree_demo_runs(2) _ f, of "[Branch ''a'' True ''a'' True [Leaf ''x'' Attr_int32 True [''1'', ''2'']]]" None]
  show ?thesis using c tree_demo_holds tree_demo_runs(2) unfolding n by fastforce
qed

end
