(* ===== verification/AttrAliases.thy ===== *)
theory AttrAliases
  imports AttrSafety
begin

text \<open>
  What appending an attribute does to every table, aliases included; names with blanks; and aliases that
  make the recursive search run for ever.
\<close>

section \<open>A search that never returns\<close>

definition child :: "at_heap \<Rightarrow> entry \<Rightarrow> nat \<Rightarrow> bool" where
  "child h e c \<longleftrightarrow> e_type e = Attr_container \<and> e_attributes e = Some c"

text \<open>A set of tables that a search for \<open>n\<close> does not leave and where the name does not occur.\<close>

definition closed_without :: "at_heap \<Rightarrow> string \<Rightarrow> nat set \<Rightarrow> bool" where
  "closed_without h n R \<longleftrightarrow> (\<forall>a \<in> R. \<exists>t. h_tables h a = Some t \<and> (\<forall>e \<in> set (attr_map t). e_name e \<noteq> n \<and>
     (e_type e = Attr_container \<longrightarrow> (\<exists>c \<in> R. e_attributes e = Some c))))"

text \<open>Each table of the set has a container in the set.\<close>

definition goes_round :: "at_heap \<Rightarrow> nat set \<Rightarrow> bool" where
  "goes_round h S \<longleftrightarrow> (\<forall>a \<in> S. \<exists>t. h_tables h a = Some t \<and> (\<exists>e \<in> set (attr_map t). \<exists>c \<in> S. child h e c))"

lemma find_from_leaves:
  assumes "find_from h n a i es = Some r"
  shows "closed_without h n R \<longrightarrow> goes_round h S \<longrightarrow>
    (\<forall>e \<in> set es. e_name e \<noteq> n \<and> (e_type e = Attr_container \<longrightarrow> (\<exists>c \<in> R. e_attributes e = Some c))) \<longrightarrow>
    r = Inr None \<and> (\<forall>e \<in> set es. \<forall>c \<in> S. \<not> child h e c)"
proof (rule find_from.raw_induct [OF _ assms], goal_cases)
  case (1 rec h n a i es r)
  show ?case
  proof (intro impI)
    assume k: "closed_without h n R" "goes_round h S"
      "\<forall>e \<in> set es. e_name e \<noteq> n \<and> (e_type e = Attr_container \<longrightarrow> (\<exists>c \<in> R. e_attributes e = Some c))"
    show "r = Inr None \<and> (\<forall>e \<in> set es. \<forall>c \<in> S. \<not> child h e c)"
    proof (cases es)
      case Nil
      then show ?thesis using 1(2) by auto
    next
      case (Cons e rest)
      have go: "q = Inr None \<and> (\<forall>e \<in> set rest. \<forall>c \<in> S. \<not> child h e c)" if "rec h n a (i + 1) rest = Some q" for q
        using 1(1) [OF that] k Cons by simp
      show ?thesis
      proof (cases "e_type e = Attr_container")
        case True
        then obtain c where c: "c \<in> R" "e_attributes e = Some c" using k(3) Cons by auto
        then obtain t where t: "h_tables h c = Some t" "\<forall>e \<in> set (attr_map t). e_name e \<noteq> n \<and>
            (e_type e = Attr_container \<longrightarrow> (\<exists>c \<in> R. e_attributes e = Some c))"
          using k(1) by (auto simp: closed_without_def)
        have sub: "q = Inr None \<and> c \<notin> S" if "rec h n c 0 (attr_map t) = Some q" for q
          using 1(1) [OF that] k(1,2) t unfolding goes_round_def by fastforce
        have o: "obind (rec h n c 0 (attr_map t)) (\<lambda>q. case q of None \<Rightarrow> rec h n a (i + 1) rest | Some p \<Rightarrow> Some (Inr (Some p))) = Some r"
          using 1(2) Cons True c t k(3) by (auto cong: option.case_cong)
        then show ?thesis using sub go Cons True c
          by (fastforce simp: obind_Some child_def split: option.splits)
      next
        case False
        then have "rec h n a (i + 1) rest = Some r" using 1(2) Cons k(3) by auto
        from go [OF this] show ?thesis using Cons False by (auto simp: child_def)
      qed
    qed
  qed
qed

text \<open>
  C29: The recursive search never returns when the name is not there and aliases lead round in a circle: from
  every table of a set that has a container in the set again, as an alias of an enclosing container makes
  it, there is no result.
\<close>

theorem search_never_returns:
  assumes "closed_without h n R" "goes_round h S" "a \<in> S" "a \<in> R"
  shows "recurrsive_find h a n = None"
proof -
  obtain t where t: "h_tables h a = Some t" "\<forall>e \<in> set (attr_map t). e_name e \<noteq> n \<and>
      (e_type e = Attr_container \<longrightarrow> (\<exists>c \<in> R. e_attributes e = Some c))"
    using assms(1,4) by (auto simp: closed_without_def)
  have "\<exists>e \<in> set (attr_map t). \<exists>c \<in> S. child h e c" using assms(2,3) t(1) by (fastforce simp: goes_round_def)
  then have "find_from h n a 0 (attr_map t) \<noteq> Some r" for r
    using find_from_leaves [of h n a 0 "attr_map t" r R S] assms(1,2) t(2) by blast
  then have "find_from h n a 0 (attr_map t) = None" by (cases "find_from h n a 0 (attr_map t)") auto
  then show ?thesis using t(1) by (simp add: recurrsive_find_def)
qed

theorem search_never_returns_witness:
  "at_reach None demo_heap \<and> recurrsive_find demo_heap 0 ''y'' = None"
proof -
  have c: "closed_without demo_heap ''y'' {0, 1}"
    by (simp add: closed_without_def demo_run(2) demo_run(3) [simplified] blank_entry_def)
  have g: "goes_round demo_heap {0, 1}"
    by (simp add: goes_round_def child_def demo_run(2) demo_run(3) [simplified] blank_entry_def)
  show ?thesis using search_never_returns [OF c g] demo_run(1) by simp
qed

section \<open>Appending and reading\<close>

lemma entry_read:
  "entry_ok h e \<Longrightarrow> e_type e \<noteq> Attr_container \<Longrightarrow> values_at (put_values v ws h) (e_attr e) =
     (if e_attr e = Some v then Inr ws else values_at h (e_attr e))"
  by (auto simp: entry_ok_def values_at_def put_values_def split: option.splits)



section \<open>Names with blanks\<close>

definition space_code :: "char \<Rightarrow> string" where
  "space_code c = (if c = CHR '' '' then ''%20'' else [c])"

lemma find_sub_first:
  assumes "t \<noteq> []" "\<And>k. k < length u \<Longrightarrow> \<not> starts_with t (drop k u @ t @ v)"
  shows "find_sub (u @ t @ v) t 0 = Some (length u)"
proof -
  have "find_sub ([] @ u @ t @ v) t (length ([] :: 'a list)) = find_sub ([] @ u @ t @ v) t (length ([] :: 'a list) + length u)"
    by (rule find_sub_skip_list) (use assms(2) in simp)
  moreover have "find_sub (u @ t @ v) t (length u) = Some (length u)"
    using assms(1) by (intro find_sub_here) (auto simp: starts_with_iff)
  ultimately show ?thesis by simp
qed

lemma find_sub_none: "find_sub s t 0 = None \<Longrightarrow> k < length s \<Longrightarrow> \<not> starts_with t (drop k s)"
proof
  assume n: "find_sub s t 0 = None" "k < length s" "starts_with t (drop k s)"
  define j where "j = (LEAST k. k < length s \<and> starts_with t (drop k s))"
  have j: "j < length s" "starts_with t (drop j s)" using LeastI [of "\<lambda>k. k < length s \<and> starts_with t (drop k s)" k] n by (auto simp: j_def)
  have "\<not> starts_with t (drop i (take j s) @ drop j s)" if "i < j" for i
    using not_less_Least [of i "\<lambda>k. k < length s \<and> starts_with t (drop k s)"] that j
    by (auto simp: j_def [symmetric] drop_take) (metis append_take_drop_id diff_is_0_eq drop_append drop_take le_eq_less_or_eq length_take min.absorb2 nat_less_le self_append_conv2 take0 order.strict_trans)
  then have "find_sub ([] @ take j s @ drop j s) t (length ([] :: 'a list)) = find_sub ([] @ take j s @ drop j s) t (length ([] :: 'a list) + length (take j s))"
    using j(1) by (intro find_sub_skip_list) auto
  then show False using n(1) find_sub_here [OF j(2,1)] j(1) by simp
qed

lemma add_space_encoding_eq: "add_space_encoding s = concat (map space_code s)"
proof (induction s rule: add_space_encoding.induct)
  case (1 s)
  show ?case
  proof (cases "find_sub s '' '' 0")
    case None
    have "CHR '' '' \<notin> set s"
    proof
      assume "CHR '' '' \<in> set s"
      then obtain u v where s: "s = u @ CHR '' '' # v" "CHR '' '' \<notin> set u" by (meson split_list_first)
      have "\<not> starts_with '' '' (drop k u @ '' '' @ v)" if "k < length u" for k
        using s(2) that by (auto simp: Cons_nth_drop_Suc [symmetric])
      from find_sub_first [OF _ this] show False using None s(1) by simp
    qed
    then have "concat (map space_code s) = s" by (induction s) (auto simp: space_code_def)
    then show ?thesis using None by (subst add_space_encoding.simps) simp
  next
    case (Some j)
    obtain u v where s: "s = u @ '' '' @ v" "length u = j" using find_sub_parts [OF Some] by blast
    have "add_space_encoding s = concat (map space_code (str_replace s j 1 ''%20''))"
      using 1 [OF Some] Some by (subst add_space_encoding.simps) simp
    moreover have "space_code (CHR '' '') = ''%20''" "map space_code ''%20'' = [''%'', ''2'', ''0'']" by (simp_all add: space_code_def)
    ultimately show ?thesis using s by (simp add: str_replace_def)
  qed
qed

lemma no_code_at:
  assumes "\<not> starts_with ''%20'' (w @ '' '' @ x)" "w \<noteq> []"
  shows "\<not> starts_with ''%20'' (w @ ''%20'' @ y)"
proof
  assume s: "starts_with ''%20'' (w @ ''%20'' @ y)"
  obtain a w1 where w: "w = a # w1" using assms(2) by (cases w) auto
  show False
  proof (cases w1)
    case Nil
    then show ?thesis using s w by simp
  next
    case (Cons b w2)
    then show ?thesis using s w assms(1) by (cases w2) auto
  qed
qed

lemma remove_spaces:
  "\<forall>k. \<not> starts_with ''%20'' (drop k (p @ v)) \<Longrightarrow> remove_space_encoding (p @ concat (map space_code v)) = p @ v"
proof (induction "length v" arbitrary: p v rule: less_induct)
  case less
  show ?case
  proof (cases "CHR '' '' \<in> set v")
    case False
    then have "concat (map space_code v) = v" by (induction v) (auto simp: space_code_def)
    moreover have "find_sub (p @ v) ''%20'' 0 = None"
      using less(2) find_sub_SomeD(3) [of "p @ v" "''%20''" 0] by (cases "find_sub (p @ v) ''%20'' 0") auto
    ultimately show ?thesis by (subst remove_space_encoding.simps) simp
  next
    case True
    then obtain u w where v: "v = u @ CHR '' '' # w" "CHR '' '' \<notin> set u" by (meson split_list_first)
    have u: "concat (map space_code u) = u" using v(2) by (induction u) (auto simp: space_code_def)
    have e: "p @ concat (map space_code v) = (p @ u) @ ''%20'' @ concat (map space_code w)"
      using u by (simp add: v(1) space_code_def [of "CHR '' ''"])
    have "\<not> starts_with ''%20'' (drop k (p @ u) @ ''%20'' @ concat (map space_code w))" if "k < length (p @ u)" for k
    proof (rule no_code_at)
      have "drop k (p @ v) = drop k (p @ u) @ '' '' @ w" using that by (simp add: v(1))
      then show "\<not> starts_with ''%20'' (drop k (p @ u) @ '' '' @ w)" using less(2) by metis
      show "drop k (p @ u) \<noteq> []" using that by (metis drop_eq_Nil not_le)
    qed
    then have f: "find_sub (p @ concat (map space_code v)) ''%20'' 0 = Some (length (p @ u))"
      unfolding e by (intro find_sub_first) auto
    have r: "str_replace (p @ concat (map space_code v)) (length (p @ u)) 3 '' '' = (p @ u @ '' '') @ concat (map space_code w)"
      unfolding e by (simp add: str_replace_def)
    have "remove_space_encoding ((p @ u @ '' '') @ concat (map space_code w)) = (p @ u @ '' '') @ w"
      using less(2) by (intro less(1)) (simp_all add: v(1))
    then show ?thesis using f r by (subst remove_space_encoding.simps) (simp add: v(1))
  qed
qed

text \<open>
  The name of an attribute survives printing: encoding the blanks of a name and decoding them again gives the name
  back, when the name does not hold the code of a blank already.
\<close>

theorem space_encoding_round_trip:
  assumes "find_sub s ''%20'' 0 = None"
  shows "remove_space_encoding (add_space_encoding s) = s \<and> CHR '' '' \<notin> set (add_space_encoding s)"
proof -
  have "\<not> starts_with ''%20'' (drop k s)" for k
    using find_sub_none [OF assms, of k] by (cases "k < length s") auto
  then show ?thesis using remove_spaces [of "[]" s] by (auto simp: add_space_encoding_eq space_code_def split: if_splits)
qed

theorem space_encoding_round_trip_witness:
  "remove_space_encoding (add_space_encoding '' a  b%'') = '' a  b%''"
  using space_encoding_round_trip [of "'' a  b%''"] by (simp add: find_sub_def)

end
