(* ===== verification/HttpDates.thy ===== *)
theory HttpDates
  imports CppStream
begin

text \<open>
  The dates of the HTTP cache (\<^verbatim>\<open>libdap/util_mit.cc\<close>): \<^verbatim>\<open>parse_time\<close> reads the formats of HTTP, \<^verbatim>\<open>date_time_str\<close>
  writes the preferred one. A C string is the list of characters before its end; reading past the end is
  the result \<open>None\<close>. Of the C library the source uses \<^verbatim>\<open>strtol\<close> (64 bits), \<^verbatim>\<open>gmtime\<close>, \<^verbatim>\<open>timegm\<close> and \<^verbatim>\<open>strftime\<close>;
  the present time is an argument.
\<close>

section \<open>The C library\<close>

definition to_int32 :: "int \<Rightarrow> int" where
  "to_int32 i = (i + 2 ^ 31) mod 2 ^ 32 - 2 ^ 31"

definition saturate64 :: "int \<Rightarrow> int" where
  "saturate64 i = max (- (2 ^ 63)) (min (2 ^ 63 - 1) i)"

text \<open>The number and where it ends; with no digit the end is the beginning.\<close>

definition strtol :: "string \<Rightarrow> int \<times> string" where
  "strtol s =
     (let (neg, r) = split_sign (skip_ws s);
          ds = takeWhile (is_digit_in 10) r;
          v = int (digits_value 10 ds)
      in if ds = [] then (0, s) else (saturate64 (if neg then - v else v), drop (length ds) r))"

definition is_alpha :: "char \<Rightarrow> bool" where
  "is_alpha c = (let n = of_char c :: nat in 65 \<le> n \<and> n \<le> 90 \<or> 97 \<le> n \<and> n \<le> 122)"

definition tolower :: "char \<Rightarrow> char" where
  "tolower c = (let n = of_char c :: nat in if 65 \<le> n \<and> n \<le> 90 then char_of (n + 32) else c)"

definition leap :: "int \<Rightarrow> bool" where
  "leap y = (y mod 4 = 0 \<and> (y mod 100 \<noteq> 0 \<or> y mod 400 = 0))"

definition year_days :: "int \<Rightarrow> int" where
  "year_days y = (if leap y then 366 else 365)"

definition month_lengths :: "int \<Rightarrow> int list" where
  "month_lengths y = [31, if leap y then 29 else 28, 31, 30, 31, 30, 31, 31, 30, 31, 30, 31]"

text \<open>The days from 1970 to the first day of the year.\<close>

definition days_to_year :: "int \<Rightarrow> int" where
  "days_to_year y = 365 * (y - 1970) + (y - 1) div 4 - (y - 1) div 100 + (y - 1) div 400 - 477"

record tm =
  tm_sec :: int
  tm_min :: int
  tm_hour :: int
  tm_mday :: int
  tm_mon :: int
  tm_year :: int

definition timegm :: "tm \<Rightarrow> int" where
  "timegm t =
     (let y = tm_year t + 1900
      in 86400 * (days_to_year y + sum_list (take (nat (tm_mon t)) (month_lengths y)) + tm_mday t - 1)
         + 3600 * tm_hour t + 60 * tm_min t + tm_sec t)"

function year_of :: "int \<Rightarrow> int \<Rightarrow> int \<times> int" where
  "year_of y d = (if d < year_days y then (y, d) else year_of (y + 1) (d - year_days y))"
  by pat_completeness auto
termination
  by (relation "measure (\<lambda>(y, d). nat d)") (auto simp: year_days_def split: if_splits)

declare year_of.simps [simp del]

fun month_of :: "int list \<Rightarrow> int \<Rightarrow> int \<times> int" where
  "month_of [] d = (0, d)"
| "month_of (n # ns) d = (if d < n then (0, d) else (case month_of ns (d - n) of (m, r) \<Rightarrow> (m + 1, r)))"

text \<open>The calendar repeats every 400 years, which are 146097 days.\<close>

definition gmtime :: "int \<Rightarrow> tm" where
  "gmtime t =
     (let days = t div 86400; s = t mod 86400;
          (y, d) = year_of (1970 + 400 * (days div 146097)) (days mod 146097);
          (m, r) = month_of (month_lengths y) d
      in \<lparr>tm_sec = s mod 60, tm_min = s div 60 mod 60, tm_hour = s div 3600, tm_mday = r + 1, tm_mon = m,
          tm_year = y - 1900\<rparr>)"

definition week_day :: "int \<Rightarrow> nat" where
  "week_day t = nat ((4 + t div 86400) mod 7)"

section \<open>The source\<close>

definition months :: "string list" where
  "months = [''Jan'', ''Feb'', ''Mar'', ''Apr'', ''May'', ''Jun'', ''Jul'', ''Aug'', ''Sep'', ''Oct'', ''Nov'', ''Dec'']"

definition wkdays :: "string list" where
  "wkdays = [''Sun'', ''Mon'', ''Tue'', ''Wed'', ''Thu'', ''Fri'', ''Sat'']"

text \<open>Zero when the first \<open>n\<close> characters agree but for their case, or when both strings end there.\<close>

fun strncasecomp :: "string \<Rightarrow> string \<Rightarrow> nat \<Rightarrow> int" where
  "strncasecomp a b 0 = 0"
| "strncasecomp [] [] (Suc n) = 0"
| "strncasecomp (c # a) [] (Suc n) = of_char c"
| "strncasecomp [] (d # b) (Suc n) = - of_char d"
| "strncasecomp (c # a) (d # b) (Suc n) =
     (let diff = of_char (tolower c) - of_char (tolower d) in if diff \<noteq> 0 then diff else strncasecomp a b n)"

text \<open>It skips to a letter, also past the end; a word that is no month counts as January.\<close>

definition make_month :: "string \<Rightarrow> (int \<times> string) option" where
  "make_month s =
     (case dropWhile (\<lambda>c. \<not> is_alpha c) s of
        [] \<Rightarrow> None
      | p \<Rightarrow> if length p < 3 then None
             else Some (case scan (\<lambda>m. strncasecomp m p 3 = 0) months 0 of Some i \<Rightarrow> int i | None \<Rightarrow> 0, drop 3 p))"

text \<open>\<^verbatim>\<open>++s\<close>.\<close>

definition next_char :: "string \<Rightarrow> string option" where
  "next_char s = (case s of [] \<Rightarrow> None | _ # r \<Rightarrow> Some r)"

definition read_clock :: "string \<Rightarrow> (int \<times> int \<times> int \<times> string) option" where
  "read_clock s =
     (let (h, s) = strtol s
      in Option.bind (next_char s) (\<lambda>s. let (m, s) = strtol s
      in Option.bind (next_char s) (\<lambda>s. let (sec, s) = strtol s
      in Some (to_int32 h, to_int32 m, to_int32 sec, s))))"

definition check_tm :: "tm \<Rightarrow> bool" where
  "check_tm t \<longleftrightarrow>
     \<not> (tm_sec t < 0 \<or> tm_sec t > 59 \<or> tm_min t < 0 \<or> tm_min t > 59 \<or> tm_hour t < 0 \<or> tm_hour t > 23 \<or>
        tm_mday t < 1 \<or> tm_mday t > 31 \<or> tm_mon t < 0 \<or> tm_mon t > 11 \<or> tm_year t < 70 \<or> tm_year t > 120)"

definition checked_time :: "tm \<Rightarrow> int" where
  "checked_time t = (if check_tm t then timegm t else 0)"

definition rfc850_date :: "string \<Rightarrow> int option" where
  "rfc850_date s =
     (if length s < 18 then Some 0
      else let (d, s) = strtol s
      in Option.bind (make_month s) (\<lambda>(mon, s).
         Option.bind (next_char s) (\<lambda>s. let (y, s) = strtol s
      in Option.bind (read_clock s) (\<lambda>(h, mi, sec, s).
         Some (checked_time \<lparr>tm_sec = sec, tm_min = mi, tm_hour = h, tm_mday = to_int32 d, tm_mon = mon, tm_year = to_int32 y\<rparr>)))))"

definition rfc1123_date :: "string \<Rightarrow> int option" where
  "rfc1123_date s =
     (if length s < 20 then Some 0
      else let (d, s) = strtol s
      in Option.bind (make_month s) (\<lambda>(mon, s). let (y, s) = strtol s
      in Option.bind (read_clock s) (\<lambda>(h, mi, sec, s).
         Some (checked_time \<lparr>tm_sec = sec, tm_min = mi, tm_hour = h, tm_mday = to_int32 d, tm_mon = mon, tm_year = to_int32 (y - 1900)\<rparr>))))"

definition iso_date :: "string \<Rightarrow> int option" where
  "iso_date str =
     (let s = dropWhile (\<lambda>c. c = CHR '' '') str
      in if length s < 21 then Some 0
      else let (y, s) = strtol s
      in Option.bind (next_char s) (\<lambda>s. let (mon, s) = strtol s
      in Option.bind (next_char s) (\<lambda>s. let (d, s) = strtol s
      in Option.bind (next_char s) (\<lambda>s.
         Option.bind (read_clock s) (\<lambda>(h, mi, sec, s).
         Some (checked_time \<lparr>tm_sec = sec, tm_min = mi, tm_hour = h, tm_mday = to_int32 d, tm_mon = to_int32 mon, tm_year = to_int32 (y - 1900)\<rparr>))))))"

definition asctime_date :: "string \<Rightarrow> int option" where
  "asctime_date str =
     (let s = dropWhile (\<lambda>c. c = CHR '' '') str
      in if length s < 24 then Some 0
      else Option.bind (make_month s) (\<lambda>(mon, s). let (d, s) = strtol s
      in Option.bind (read_clock s) (\<lambda>(h, mi, sec, s). let (y, s) = strtol s
      in Some (checked_time \<lparr>tm_sec = sec, tm_min = mi, tm_hour = h, tm_mday = to_int32 d, tm_mon = mon, tm_year = to_int32 (y - 1900)\<rparr>))))"

definition parse_time :: "int \<Rightarrow> string \<Rightarrow> bool \<Rightarrow> int option" where
  "parse_time now str expand =
     (case find_char str (CHR '','') 0 of
        Some i \<Rightarrow>
          (let s = dropWhile (\<lambda>c. c = CHR '' '') (drop (i + 1) str)
           in if CHR ''-'' \<in> set s then rfc850_date s else rfc1123_date s)
      | None \<Rightarrow>
          if str \<noteq> [] \<and> is_digit_in 10 (hd str) then
            (if CHR ''T'' \<in> set str then iso_date str
             else Some (if expand then now + fst (strtol str) else fst (strtol str)))
          else asctime_date str)"

text \<open>\<^verbatim>\<open>"%a, %d %b %Y %H:%M:%S GMT"\<close>.\<close>

definition two_digits :: "int \<Rightarrow> string" where
  "two_digits n = pad_left 2 (CHR ''0'') (show_int n)"

definition date_time_str :: "int \<Rightarrow> string" where
  "date_time_str calendar =
     (let g = gmtime calendar
      in wkdays ! week_day calendar @ '', '' @ two_digits (tm_mday g) @ '' '' @ months ! nat (tm_mon g) @ '' '' @
         show_int (tm_year g + 1900) @ '' '' @ two_digits (tm_hour g) @ '':'' @ two_digits (tm_min g) @ '':'' @
         two_digits (tm_sec g) @ '' GMT'')"

section \<open>The calendar\<close>

lemma div_pred:
  assumes "0 < (k::int)"
  shows "y div k - (y - 1) div k = (if y mod k = 0 then 1 else 0)"
proof (cases "y mod k = 0")
  case True
  have "(y - 1) div k = y div k - 1"
    using True assms mult_div_mod_eq [of k y] by (intro int_div_pos_eq [where r = "k - 1"]) (auto simp: algebra_simps)
  then show ?thesis using True by simp
next
  case False
  have "(y - 1) div k = y div k"
    using False assms mult_div_mod_eq [of k y] pos_mod_sign [of k y] pos_mod_bound [of k y]
    by (intro int_div_pos_eq [where r = "y mod k - 1"]) (auto simp: algebra_simps int_one_le_iff_zero_less less_le)
  then show ?thesis using False by simp
qed

lemma days_to_next_year: "days_to_year (y + 1) = days_to_year y + year_days y"
proof -
  have m: "y mod 400 = 0 \<longrightarrow> y mod 100 = 0" "y mod 100 = 0 \<longrightarrow> y mod 4 = 0"
    using dvd_trans [of 100 400 y] dvd_trans [of 4 100 y] by (simp_all add: mod_eq_0_iff_dvd)
  have l: "365 * (y + 1 - 1970) + a - b + c - 477 - (365 * (y - 1970) + a' - b' + c' - 477) = 365 + (a - a') - (b - b') + (c - c')"
    for a b c a' b' c' :: int by simp
  have p: "365 + (if p then 1 else 0) - (if q then 1 else 0) + (if r then 1 else 0) = (if p \<and> (\<not> q \<or> r) then 366 else 365 :: int)"
    if "r \<longrightarrow> q" "q \<longrightarrow> p" for p q r using that by (cases p; cases q; cases r; simp only: simp_thms if_True if_False; simp)
  have "days_to_year (y + 1) - days_to_year y = 365 + (y div 4 - (y - 1) div 4) - (y div 100 - (y - 1) div 100) + (y div 400 - (y - 1) div 400)"
    unfolding days_to_year_def add_diff_cancel_right' by (rule l)
  also have "\<dots> = 365 + (if y mod 4 = 0 then 1 else 0) - (if y mod 100 = 0 then 1 else 0) + (if y mod 400 = 0 then 1 else 0)"
    by (subst div_pred, simp)+ (rule refl)
  also have "\<dots> = year_days y"
    unfolding year_days_def leap_def by (rule p [OF m])
  finally show ?thesis by simp
qed

lemma year_of_spec: "0 \<le> d \<Longrightarrow> year_of y d = (z, r) \<Longrightarrow> days_to_year z + r = days_to_year y + d \<and> 0 \<le> r \<and> r < year_days z \<and> y \<le> z"
proof (induction y d rule: year_of.induct)
  case (1 y d)
  then show ?case by (subst (asm) year_of.simps) (auto simp: days_to_next_year split: if_splits)
qed

lemma days_to_year_400: "days_to_year (1970 + 400 * k) = 146097 * k"
proof -
  have "(1969 + 400 * k) div 4 = 492 + 100 * k" "(1969 + 400 * k) div 100 = 19 + 4 * k" "(1969 + 400 * k) div 400 = 4 + k"
    by (simp_all add: int_div_pos_eq [where r = 1] int_div_pos_eq [where r = 69] int_div_pos_eq [where r = 369])
  then show ?thesis by (simp add: days_to_year_def)
qed

lemma month_of_spec:
  "0 \<le> d \<Longrightarrow> d < sum_list ns \<Longrightarrow> month_of ns d = (m, r) \<Longrightarrow>
   0 \<le> m \<and> nat m < length ns \<and> sum_list (take (nat m) ns) + r = d \<and> 0 \<le> r \<and> r < ns ! nat m"
proof (induction ns d arbitrary: m rule: month_of.induct)
  case (2 n ns d)
  show ?case
  proof (cases "d < n")
    case False
    then obtain k where k: "month_of ns (d - n) = (k, r)" "m = k + 1" using 2(4) by (auto split: prod.splits)
    have "0 \<le> k \<and> nat k < length ns \<and> sum_list (take (nat k) ns) + r = d - n \<and> 0 \<le> r \<and> r < ns ! nat k"
      using False 2(2,3) k by (intro 2(1)) auto
    moreover have "nat (k + 1) = Suc (nat k)" if "0 \<le> k" using that by simp
    ultimately show ?thesis using k(2) by simp
  qed (use 2 in auto)
qed simp

lemma month_lengths_sum: "sum_list (month_lengths y) = year_days y"
  by (simp add: month_lengths_def year_days_def)

lemma month_lengths_nth: "m < 12 \<Longrightarrow> month_lengths y ! m \<le> 31"
  by (auto simp: month_lengths_def numeral_eq_Suc less_Suc_eq)

text \<open>Breaking a time down and putting it together again.\<close>

definition clock_ok :: "tm \<Rightarrow> bool" where
  "clock_ok g \<longleftrightarrow> 0 \<le> tm_sec g \<and> tm_sec g \<le> 59 \<and> 0 \<le> tm_min g \<and> tm_min g \<le> 59 \<and> 0 \<le> tm_hour g \<and> tm_hour g \<le> 23"

lemma timegm_gmtime:
  "timegm (gmtime t) = t" "clock_ok (gmtime t)" "1 \<le> tm_mday (gmtime t)" "tm_mday (gmtime t) \<le> 31"
  "0 \<le> tm_mon (gmtime t)" "tm_mon (gmtime t) \<le> 11"
  "days_to_year (tm_year (gmtime t) + 1900) \<le> t div 86400" "t div 86400 < days_to_year (tm_year (gmtime t) + 1900 + 1)"
proof -
  define days where "days = t div 86400"
  define s where "s = t mod 86400"
  obtain y d where y: "year_of (1970 + 400 * (days div 146097)) (days mod 146097) = (y, d)" by (cases "year_of (1970 + 400 * (days div 146097)) (days mod 146097)")
  obtain m r where m: "month_of (month_lengths y) d = (m, r)" by (cases "month_of (month_lengths y) d")
  have g: "gmtime t = \<lparr>tm_sec = s mod 60, tm_min = s div 60 mod 60, tm_hour = s div 3600, tm_mday = r + 1, tm_mon = m, tm_year = y - 1900\<rparr>"
    unfolding gmtime_def Let_def by (fold days_def s_def) (simp add: y m)
  have ys: "days_to_year y + d = days" "0 \<le> d" "d < year_days y"
    using year_of_spec [OF _ y] by (auto simp: days_to_year_400 mult_div_mod_eq)
  have ms: "0 \<le> m" "nat m < 12" "sum_list (take (nat m) (month_lengths y)) + r = d" "0 \<le> r" "r < month_lengths y ! nat m"
    using month_of_spec [OF ys(2) _ m] ys(3) by (auto simp: month_lengths_sum) (simp add: month_lengths_def)
  have s: "0 \<le> s" "s < 86400" "t = 86400 * days + s" by (auto simp: s_def days_def)
  have clock: "3600 * (s div 3600) + 60 * (s div 60 mod 60) + s mod 60 = s"
  proof -
    have "s div 3600 = s div 60 div 60" using zdiv_zmult2_eq [of 60 s 60] by simp
    then show ?thesis using mult_div_mod_eq [of 60 "s div 60"] mult_div_mod_eq [of 60 s] by linarith
  qed
  show "timegm (gmtime t) = t"
    unfolding g timegm_def Let_def using ms(3) clock ys(1) s(3) by (simp add: algebra_simps)
  have "s div 3600 \<le> 23" "0 \<le> s div 3600"
    using zdiv_mono1 [of s 86399 3600] s by (auto simp: pos_imp_zdiv_nonneg_iff)
  then show "clock_ok (gmtime t)" unfolding g clock_ok_def by auto
  show "1 \<le> tm_mday (gmtime t)" "0 \<le> tm_mon (gmtime t)" "tm_mon (gmtime t) \<le> 11"
    using ms(1,2,4) unfolding g by auto
  show "tm_mday (gmtime t) \<le> 31" using ms(2,5) month_lengths_nth [of "nat m" y] unfolding g by simp
  show "days_to_year (tm_year (gmtime t) + 1900) \<le> t div 86400" "t div 86400 < days_to_year (tm_year (gmtime t) + 1900 + 1)"
    using ys days_to_next_year [of y] unfolding g days_def by auto
qed

lemma days_to_year_mono: "y \<le> z \<Longrightarrow> days_to_year y \<le> days_to_year z"
proof (induction z rule: int_ge_induct)
  case (step z)
  then show ?case by (simp add: days_to_next_year year_days_def split: if_splits)
qed simp

lemma gmtime_year:
  "tm_year (gmtime t) + 1900 < y \<longleftrightarrow> t div 86400 < days_to_year y"
proof
  assume "tm_year (gmtime t) + 1900 < y"
  then have "days_to_year (tm_year (gmtime t) + 1900 + 1) \<le> days_to_year y" by (intro days_to_year_mono) simp
  then show "t div 86400 < days_to_year y" using timegm_gmtime(8) [of t] by simp
next
  assume a: "t div 86400 < days_to_year y"
  show "tm_year (gmtime t) + 1900 < y"
  proof (rule ccontr)
    assume "\<not> ?thesis"
    then have "days_to_year y \<le> days_to_year (tm_year (gmtime t) + 1900)" by (intro days_to_year_mono) simp
    then show False using timegm_gmtime(7) [of t] a by simp
  qed
qed

section \<open>Reading what was written\<close>

lemma digits_10:
  assumes "is_digit_in 10 c"
  shows "\<not> is_space c" "c \<noteq> CHR ''-''" "c \<noteq> CHR ''+''" "c \<noteq> CHR '' ''" "c \<noteq> CHR ''T''" "c \<noteq> CHR '',''"
  using assms by (auto simp: is_digit_in_def digit_val_def is_space_def Let_def split: if_splits option.splits)

lemma strtol_digits:
  assumes "\<forall>c \<in> set ws. is_space c" "ds \<noteq> []" "\<forall>c \<in> set ds. is_digit_in 10 c" "digits_value 10 ds < 2 ^ 63"
    "rest = [] \<or> \<not> is_digit_in 10 (hd rest)"
  shows "strtol (ws @ ds @ rest) = (int (digits_value 10 ds), rest)"
proof -
  obtain d ds' where ds: "ds = d # ds'" using assms(2) by (cases ds) auto
  then have d: "\<not> is_space d" "d \<noteq> CHR ''-''" "d \<noteq> CHR ''+''" using digits_10 [of d] assms(3) by auto
  have "dropWhile is_space (ws @ ds @ rest) = ds @ rest"
    using assms(1) d(1) by (subst dropWhile_append2) (auto simp: ds)
  then have "split_sign (skip_ws (ws @ ds @ rest)) = (False, ds @ rest)"
    using d by (simp add: skip_ws_def split_sign_def ds)
  moreover have "takeWhile (is_digit_in 10) (ds @ rest) = ds"
    using assms(3,5) by (cases rest) (auto simp: takeWhile_append2)
  ultimately show ?thesis
    using assms(2,4) by (simp add: strtol_def Let_def saturate64_def)
qed

lemma show_int_digits: "0 \<le> n \<Longrightarrow> (\<forall>c \<in> set (show_int n). is_digit_in 10 c) \<and> show_int n \<noteq> [] \<and> digits_value 10 (show_int n) = nat n"
  using show_base_digits [of 10 "nat n"] by (simp add: show_int_def digits_value_show_base)

lemma two_digits: "0 \<le> n \<Longrightarrow> (\<forall>c \<in> set (two_digits n). is_digit_in 10 c) \<and> two_digits n \<noteq> [] \<and> 2 \<le> length (two_digits n) \<and> digits_value 10 (two_digits n) = nat n"
  using show_int_digits [of n] by (auto simp: two_digits_def digits_value_pad length_pad_left) (auto simp: pad_left_def is_digit_in_def digit_val_def)

lemma read_clock_written:
  assumes "clock_ok g"
  shows "read_clock ('' '' @ two_digits (tm_hour g) @ '':'' @ two_digits (tm_min g) @ '':'' @ two_digits (tm_sec g) @ '' GMT'')
    = Some (tm_hour g, tm_min g, tm_sec g, '' GMT'')"
proof -
  have nd: "\<not> is_digit_in 10 (CHR '':'')" "\<not> is_digit_in 10 (CHR '' '')" "is_space (CHR '' '')"
    by (simp_all add: is_digit_in_def digit_val_def is_space_def)
  have st: "strtol (ws @ two_digits n @ rest) = (n, rest)"
    if "0 \<le> n" "n \<le> 59" "\<forall>c \<in> set ws. is_space c" "rest \<noteq> [] \<and> \<not> is_digit_in 10 (hd rest)" for ws n rest
    using that two_digits [of n] strtol_digits [of ws "two_digits n" rest] by simp
  have i: "to_int32 n = n" if "0 \<le> n" "n \<le> 59" for n using that by (simp add: to_int32_def)
  show ?thesis
    using assms st [of "tm_hour g" "'' ''" "'':'' @ two_digits (tm_min g) @ '':'' @ two_digits (tm_sec g) @ '' GMT''"]
      st [of "tm_min g" "[]" "'':'' @ two_digits (tm_sec g) @ '' GMT''"] st [of "tm_sec g" "[]" "'' GMT''"]
    by (simp add: read_clock_def next_char_def clock_ok_def nd i)
qed

lemma month_words:
  assumes "m < 12"
  shows "m \<in> {0, 1, 2, 3, 4, 5, 6, 7, 8, 9, 10, 11}" "length (months ! m) = 3" "CHR ''-'' \<notin> set (months ! m)"
proof -
  show m: "m \<in> {0, 1, 2, 3, 4, 5, 6, 7, 8, 9, 10, 11}" using assms unfolding insert_iff empty_iff by presburger
  show "length (months ! m) = 3" "CHR ''-'' \<notin> set (months ! m)"
    using m by (elim insertE emptyE; simp add: months_def)+
qed

lemma make_month_written:
  assumes "m < 12"
  shows "make_month ('' '' @ months ! m @ rest) = Some (int m, rest)"
  using month_words(1) [OF assms] by (elim insertE emptyE) (simp_all add: make_month_def months_def is_alpha_def tolower_def numeral_3_eq_3)

text \<open>
  C20: The dates of the cache survive being written and read, but only up to the year 2020: later dates are read as 0,
  the first second of 1970.
\<close>

theorem dates_round_trip:
  assumes "0 \<le> t" "t < 253402300800"
  shows "parse_time now (date_time_str t) expand = Some (if t < 1609459200 then t else 0)"
proof -
  define g where "g = gmtime t"
  define k where "k = week_day t"
  define clock where "clock = '' '' @ two_digits (tm_hour g) @ '':'' @ two_digits (tm_min g) @ '':'' @ two_digits (tm_sec g) @ '' GMT''"
  define day where "day = '' '' @ two_digits (tm_mday g) @ '' '' @ months ! nat (tm_mon g) @ '' '' @ show_int (tm_year g + 1900) @ clock"
  note b = timegm_gmtime [of t, folded g_def]
  have d: "date_time_str t = wkdays ! k @ '','' @ day" by (simp add: date_time_str_def g_def k_def day_def clock_def Let_def)
  have y: "70 \<le> tm_year g" "tm_year g < 8100" "tm_year g \<le> 120 \<longleftrightarrow> t < 1609459200"
  proof -
    have e: "days_to_year 1970 = 0" "days_to_year 10000 = 2932897" "days_to_year 2021 = 18628" by (simp_all add: days_to_year_def)
    show "70 \<le> tm_year g" using gmtime_year [of t 1970] assms e by (simp add: g_def not_less [symmetric] pos_imp_zdiv_neg_iff)
    show "tm_year g < 8100" using gmtime_year [of t 10000] assms e by (simp add: g_def)
    show "tm_year g \<le> 120 \<longleftrightarrow> t < 1609459200" using gmtime_year [of t 2021] e by (simp add: g_def) linarith
  qed
  note td = two_digits [of "tm_mday g"] show_int_digits [of "tm_year g + 1900"]
  have w: "find_char (wkdays ! k @ '','' @ day) (CHR '','') 0 = Some 3 \<and> length (wkdays ! k) = 3"
  proof -
    have "k < 7" by (simp add: k_def week_day_def nat_less_iff)
    then have "k \<in> {0, 1, 2, 3, 4, 5, 6}" by auto
    then show ?thesis by (elim insertE emptyE) (simp_all add: wkdays_def find_char_def find_if_from_def)
  qed
  have s: "dropWhile (\<lambda>c. c = CHR '' '') day = drop 1 day"
  proof -
    obtain a r where "two_digits (tm_mday g) = a # r" "is_digit_in 10 a" using td(1) b(3) by (cases "two_digits (tm_mday g)") auto
    then show ?thesis using digits_10 [of a] by (simp add: day_def)
  qed
  have c: "read_clock clock = Some (tm_hour g, tm_min g, tm_sec g, '' GMT'')"
    unfolding clock_def by (rule read_clock_written [OF b(2)])
  have nc: "CHR ''-'' \<notin> set day"
  proof -
    have "CHR ''-'' \<notin> set (months ! nat (tm_mon g))" using b(5,6) by (intro month_words) simp
    moreover have "CHR ''-'' \<notin> set (two_digits n)" if "0 \<le> n" for n using two_digits [OF that] digits_10 by blast
    moreover have "CHR ''-'' \<notin> set (show_int (tm_year g + 1900))" using td(2) y(1) digits_10(2) [of "CHR ''-''"] by (cases "0 \<le> tm_year g + 1900") auto
    ultimately show ?thesis using b(2,3) by (simp add: day_def clock_def clock_ok_def)
  qed
  have nd: "\<not> is_digit_in 10 (CHR '' '')" "is_space (CHR '' '')" by (simp_all add: is_digit_in_def digit_val_def is_space_def)
  have mon: "nat (tm_mon g) < 12" using b(5,6) by simp
  have l: "\<not> length (drop 1 day) < 20"
    using two_digits [of "tm_mday g"] two_digits [of "tm_hour g"] two_digits [of "tm_min g"] two_digits [of "tm_sec g"] b(2,3)
      month_words(2) [OF mon] by (simp add: day_def clock_def clock_ok_def)
  define r where "r = '' '' @ months ! nat (tm_mon g) @ '' '' @ show_int (tm_year g + 1900) @ clock"
  have "strtol ([] @ two_digits (tm_mday g) @ r) = (tm_mday g, r)"
    using td(1) b(3,4) nd by (subst strtol_digits) (auto simp: r_def)
  then have day1: "strtol (drop 1 day) = (tm_mday g, r)" by (simp add: day_def r_def)
  have month: "make_month r = Some (tm_mon g, '' '' @ show_int (tm_year g + 1900) @ clock)"
    using make_month_written [OF mon] b(5) by (simp add: r_def)
  have year: "strtol ('' '' @ show_int (tm_year g + 1900) @ clock) = (tm_year g + 1900, clock)"
    using td(2) y nd by (subst strtol_digits) (auto simp: clock_def)
  have t32: "to_int32 n = n" if "0 \<le> n" "n < 10000" for n using that by (simp add: to_int32_def)
  have "parse_time now (date_time_str t) expand = rfc1123_date (drop 1 day)"
    using w s in_set_dropD [of "CHR ''-''" 1 day] nc by (auto simp: d parse_time_def Let_def)
  also have "\<dots> = Some (checked_time g)"
    using l day1 month year c y b(3,4) by (cases g) (simp add: rfc1123_date_def t32)
  also have "checked_time g = (if t < 1609459200 then t else 0)"
    using b(1-6) y by (simp add: checked_time_def check_tm_def clock_ok_def not_le [symmetric] del: not_le)
  finally show ?thesis .
qed

theorem dates_round_trip_witness:
  "parse_time 7 (date_time_str 784111777) True = Some 784111777 \<and> parse_time 7 (date_time_str 1700000000) True = Some 0"
  using dates_round_trip [of 784111777 7 True] dates_round_trip [of 1700000000 7 True] by simp

text \<open>
  The third format of HTTP, \<^verbatim>\<open>Wed Jun  9 01:29:59 1993 GMT\<close>, is never read: the day of the week is taken for the
  month and the month for the day. A date of \<^verbatim>\<open>max-age\<close> or \<^verbatim>\<open>Age\<close> that comes with its name is of this format.
\<close>

lemma asctime_dates_rejected:
  assumes "k < 7" "is_alpha c" "CHR '','' \<notin> set rest"
  shows "parse_time now (wkdays ! k @ '' '' @ c # rest) expand = Some 0"
proof -
  have k: "k \<in> {0, 1, 2, 3, 4, 5, 6}" using assms(1) by auto
  have c: "\<not> is_digit_in 10 c" "\<not> is_space c" "c \<noteq> CHR ''-''" "c \<noteq> CHR ''+''" "c \<noteq> CHR '','' \<and> c \<noteq> CHR '' ''"
    using assms(2) by (auto simp: is_alpha_def is_digit_in_def digit_val_def is_space_def Let_def split: if_splits)
  have "CHR '','' \<notin> set (wkdays ! k @ '' '' @ c # rest)"
    using k assms(3) c(5) by (elim insertE emptyE) (auto simp: wkdays_def)
  then have "find_char (wkdays ! k @ '' '' @ c # rest) (CHR '','') 0 = None"
    by (auto simp: find_char_def find_if_from_None_iff)
  moreover have "make_month (wkdays ! k @ '' '' @ c # rest) = Some (0, '' '' @ c # rest)"
    using k by (elim insertE emptyE) (simp_all add: make_month_def months_def wkdays_def is_alpha_def tolower_def numeral_3_eq_3)
  moreover have "\<exists>a r. wkdays ! k = a # r \<and> \<not> is_digit_in 10 a \<and> a \<noteq> CHR '' ''"
    using k by (elim insertE emptyE) (simp_all add: wkdays_def is_digit_in_def digit_val_def)
  moreover have "strtol (c # rest) = (0, c # rest)" "strtol ('' '' @ c # rest) = (0, '' '' @ c # rest)"
    using c by (simp_all add: strtol_def skip_ws_def split_sign_def is_space_def)
  moreover obtain v r where "strtol rest = (v, r)" by (cases "strtol rest")
  moreover obtain y r' where "strtol r = (y, r')" by (cases "strtol r")
  moreover have "checked_time \<lparr>tm_sec = a, tm_min = b, tm_hour = h, tm_mday = 0, tm_mon = m, tm_year = y\<rparr> = 0" for a b h m y
    by (simp add: checked_time_def check_tm_def)
  ultimately show ?thesis
    by (auto simp: parse_time_def asctime_date_def read_clock_def next_char_def to_int32_def Let_def)
qed

end
