(* ===== verification/CacheTable.thy ===== *)
theory CacheTable
  imports HttpDates CppMap "HOL-Library.Word" "HOL-Library.Signed_Division"
begin

text \<open>
  The table of the HTTP cache (\<^verbatim>\<open>libdap/HTTPCacheTable.cc\<close>, \<^verbatim>\<open>HTTPCacheTable.h\<close>). Entries are objects on a
  heap: the table and the map of the open files share pointers to them. A slot of the table is null or a
  vector of pointers, which may be null while they are removed. The two mutexes of an entry are flags.
  Sizes have the width of the source: 64 bits for \<^verbatim>\<open>unsigned long\<close>, 32 for \<^verbatim>\<open>unsigned int\<close>. The files on the
  disk are a map from names to contents; what the operating system answers is the record \<open>env\<close>.
\<close>

section \<open>State\<close>

record cache_entry =
  ce_url :: string
  ce_hash :: int
  ce_hits :: int
  ce_cachename :: string
  ce_etag :: string
  ce_lm :: int
  ce_expires :: int
  ce_date :: int
  ce_age :: int
  ce_max_age :: int
  ce_size :: "64 word"
  ce_range :: bool
  ce_freshness_lifetime :: int
  ce_response_time :: int
  ce_corrected_initial_age :: int
  ce_must_revalidate :: bool
  ce_no_cache :: bool
  ce_readers :: int
  ce_read_lock :: bool
  ce_write_lock :: bool

text \<open>
  The memory and the files; the table; the cache over it, whose operations are in \<open>HttpCache\<close>. A
  \<^verbatim>\<open>FILE *\<close> is a number; \<open>h_open\<close> has what can be read from it.
\<close>

record http_cache =
  h_entries :: "nat \<Rightarrow> cache_entry option"
  h_next :: nat
  h_files :: "string \<Rightarrow> string option"
  h_dirs :: "string list"
  h_open :: "nat \<Rightarrow> string option"
  h_next_file :: nat
  t_cache_table :: "nat \<Rightarrow> nat option list option"
  t_cache_root :: string
  t_cache_index :: string
  t_block_size :: "32 word"
  t_current_size :: "64 word"
  t_new_entries :: int
  t_locked_entries :: "(nat, nat option) cpp_map"
  d_cache_root :: string
  d_locked_open_file :: bool
  d_cache_enabled :: bool
  d_expire_ignored :: bool
  d_always_validate :: bool
  d_total_size :: "64 word"
  d_folder_size :: "64 word"
  d_gc_buffer :: "64 word"
  d_max_entry_size :: "64 word"
  d_default_expiration :: int
  d_cache_control :: "string list"
  d_max_age :: int
  d_max_stale :: int
  d_min_fresh :: int
  d_cache_mutex :: bool
  d_open_files :: "string list"

text \<open>
  The operating system at the time of a call: the clock, whether a file can be opened and written,
  whether a directory can be made, the block size that \<^verbatim>\<open>stat\<close> reports, and the name \<^verbatim>\<open>mkstemp\<close> finds for a
  template, given without its six characters, among the files there are.
\<close>

record env =
  now :: int
  can_open :: "string \<Rightarrow> bool"
  can_write :: "string \<Rightarrow> bool"
  mkdir_ok :: "string \<Rightarrow> bool"
  st_blksize :: "string \<Rightarrow> 32 word option"
  mkstemp :: "(string \<Rightarrow> string option) \<Rightarrow> string \<Rightarrow> string option"

text \<open>
  A call returns, throws, waits for a mutex that this thread holds, follows a bad pointer or unlocks a
  free mutex, or loops for ever. The state that it leaves matters in every case.
\<close>

datatype stop = Raised dap_error | Blocked | Undefined | Endless

type_synonym 'a op = "http_cache \<Rightarrow> (stop + 'a) \<times> http_cache"

definition ret :: "'a \<Rightarrow> 'a op" where
  "ret a s = (Inr a, s)"

definition stops :: "stop \<Rightarrow> 'a op" where
  "stops e s = (Inl e, s)"

definition raise :: "dap_error \<Rightarrow> 'a op" where
  "raise e = stops (Raised e)"

definition bind :: "'a op \<Rightarrow> ('a \<Rightarrow> 'b op) \<Rightarrow> 'b op" where
  "bind m f s = (case m s of (Inl e, s') \<Rightarrow> (Inl e, s') | (Inr a, s') \<Rightarrow> f a s')"

definition upd :: "(http_cache \<Rightarrow> http_cache) \<Rightarrow> unit op" where
  "upd f s = (Inr (), f s)"

text \<open>\<^verbatim>\<open>catch (...) { h; throw; }\<close>: only exceptions are caught.\<close>

definition catch_rethrow :: "'a op \<Rightarrow> unit op \<Rightarrow> 'a op" where
  "catch_rethrow m h s =
     (case m s of
        (Inl (Raised e), s') \<Rightarrow> bind h (\<lambda>_. raise e) s'
      | r \<Rightarrow> r)"

definition the_entry :: "nat \<Rightarrow> cache_entry op" where
  "the_entry e s = (case h_entries s e of None \<Rightarrow> (Inl Undefined, s) | Some x \<Rightarrow> (Inr x, s))"

definition put_entry :: "nat \<Rightarrow> cache_entry \<Rightarrow> unit op" where
  "put_entry e x = upd (\<lambda>s. s\<lparr>h_entries := (h_entries s)(e \<mapsto> x)\<rparr>)"

definition free_entry :: "nat \<Rightarrow> unit op" where
  "free_entry e = upd (\<lambda>s. s\<lparr>h_entries := (h_entries s)(e := None)\<rparr>)"

definition remove_file :: "string \<Rightarrow> unit op" where
  "remove_file f = upd (\<lambda>s. s\<lparr>h_files := (h_files s)(f := None)\<rparr>)"

section \<open>The entry and its locks\<close>

definition CACHE_TABLE_SIZE :: nat where
  "CACHE_TABLE_SIZE = 1499"

definition get_hash :: "string \<Rightarrow> nat" where
  "get_hash url = foldl (\<lambda>hash c. (hash * 3 + of_char c) mod CACHE_TABLE_SIZE) 0 (c_str url)"

definition blank_entry :: cache_entry where
  "blank_entry =
     \<lparr>ce_url = [], ce_hash = - 1, ce_hits = 0, ce_cachename = [], ce_etag = [], ce_lm = - 1, ce_expires = - 1,
      ce_date = - 1, ce_age = - 1, ce_max_age = - 1, ce_size = 0, ce_range = False, ce_freshness_lifetime = 0,
      ce_response_time = 0, ce_corrected_initial_age = 0, ce_must_revalidate = False, ce_no_cache = False,
      ce_readers = 0, ce_read_lock = False, ce_write_lock = False\<rparr>"

definition entry_for :: "string \<Rightarrow> cache_entry" where
  "entry_for u = blank_entry\<lparr>ce_url := u, ce_hash := int (get_hash u)\<rparr>"

definition new_entry :: "cache_entry \<Rightarrow> nat op" where
  "new_entry x s = (Inr (h_next s), s\<lparr>h_entries := (h_entries s)(h_next s \<mapsto> x), h_next := h_next s + 1\<rparr>)"

text \<open>
  \<open>ce_read_lock\<close> is \<^verbatim>\<open>d_response_lock\<close>, which the first reader or a writer holds; \<open>ce_write_lock\<close> is
  \<^verbatim>\<open>d_response_write_lock\<close>.
\<close>

definition lock_read_response :: "nat \<Rightarrow> unit op" where
  "lock_read_response e = bind (the_entry e) (\<lambda>x.
     if \<not> ce_read_lock x then put_entry e (x\<lparr>ce_read_lock := True, ce_readers := ce_readers x + 1\<rparr>)
     else if ce_write_lock x then stops Blocked
     else put_entry e (x\<lparr>ce_readers := ce_readers x + 1\<rparr>))"

definition unlock_read_response :: "nat \<Rightarrow> unit op" where
  "unlock_read_response e = bind (the_entry e) (\<lambda>x.
     let x = x\<lparr>ce_readers := ce_readers x - 1\<rparr>
     in if ce_readers x \<noteq> 0 then put_entry e x
        else if ce_read_lock x then put_entry e (x\<lparr>ce_read_lock := False\<rparr>)
        else bind (put_entry e x) (\<lambda>_. stops Undefined))"

definition lock_write_response :: "nat \<Rightarrow> unit op" where
  "lock_write_response e = bind (the_entry e) (\<lambda>x.
     if ce_read_lock x then stops Blocked
     else bind (put_entry e (x\<lparr>ce_read_lock := True\<rparr>)) (\<lambda>_.
          if ce_write_lock x then stops Blocked
          else put_entry e (x\<lparr>ce_read_lock := True, ce_write_lock := True\<rparr>)))"

definition unlock_write_response :: "nat \<Rightarrow> unit op" where
  "unlock_write_response e = bind (the_entry e) (\<lambda>x.
     if \<not> ce_write_lock x then stops Undefined
     else bind (put_entry e (x\<lparr>ce_write_lock := False\<rparr>)) (\<lambda>_.
          if \<not> ce_read_lock x then stops Undefined
          else put_entry e (x\<lparr>ce_write_lock := False, ce_read_lock := False\<rparr>)))"

section \<open>Adding and finding entries\<close>

text \<open>
  The size is converted to an \<^verbatim>\<open>int\<close> and computed with the unsigned block size. When it is added to the
  total the result is taken as an \<^verbatim>\<open>int\<close>, when it is subtracted as an \<^verbatim>\<open>unsigned int\<close>.
\<close>

definition entry_disk_space :: "64 word \<Rightarrow> 32 word \<Rightarrow> 32 word" where
  "entry_disk_space sz block_size = ((ucast sz + block_size) div block_size) * block_size"

definition add_entry_to_cache_table :: "nat \<Rightarrow> unit op" where
  "add_entry_to_cache_table e = bind (the_entry e) (\<lambda>x s.
     let hash = ce_hash x
     in if hash > int CACHE_TABLE_SIZE - 1 \<or> hash < 0 then raise (InternalErr ''Hash value too large!'') s
        else let k = nat hash;
                 s = s\<lparr>t_cache_table := (t_cache_table s)(k \<mapsto>
                   (case t_cache_table s k of None \<Rightarrow> [Some e] | Some ps \<Rightarrow> ps @ [Some e]))\<rparr>
             in if t_block_size s = 0 then (Inl Undefined, s)
                else (Inr (), s\<lparr>t_current_size := t_current_size s + scast (entry_disk_space (ce_size x) (t_block_size s)),
                               t_new_entries := t_new_entries s + 1\<rparr>))"

fun entry_with_url :: "http_cache \<Rightarrow> string \<Rightarrow> nat option list \<Rightarrow> stop + nat option" where
  "entry_with_url s url [] = Inr None"
| "entry_with_url s url (None # ps) = entry_with_url s url ps"
| "entry_with_url s url (Some e # ps) =
     (case h_entries s e of
        None \<Rightarrow> Inl Undefined
      | Some x \<Rightarrow> if ce_url x = url then Inr (Some e) else entry_with_url s url ps)"

definition find_entry :: "nat \<Rightarrow> string \<Rightarrow> nat option op" where
  "find_entry hash url s =
     (case t_cache_table s hash of
        None \<Rightarrow> (Inr None, s)
      | Some ps \<Rightarrow> (entry_with_url s url ps, s))"

definition get_locked_entry_from_cache_table :: "string \<Rightarrow> nat option op" where
  "get_locked_entry_from_cache_table url = bind (find_entry (get_hash url) url) (\<lambda>r.
     case r of None \<Rightarrow> ret None | Some e \<Rightarrow> bind (lock_read_response e) (\<lambda>_. ret (Some e)))"

definition get_write_locked_entry_from_cache_table :: "string \<Rightarrow> nat option op" where
  "get_write_locked_entry_from_cache_table url = bind (find_entry (get_hash url) url) (\<lambda>r.
     case r of None \<Rightarrow> ret None | Some e \<Rightarrow> bind (lock_write_response e) (\<lambda>_. ret (Some e)))"

section \<open>Removing entries\<close>

definition CACHE_META :: string where
  "CACHE_META = ''.meta''"

definition remove_cache_entry :: "nat \<Rightarrow> unit op" where
  "remove_cache_entry e = bind (the_entry e) (\<lambda>x.
     if ce_readers x \<noteq> 0 then raise (InternalErr ''Tried to delete a cache entry that is in use.'')
     else bind (remove_file (ce_cachename x)) (\<lambda>_.
          bind (remove_file (ce_cachename x @ CACHE_META)) (\<lambda>_ s.
          if t_block_size s = 0 then (Inl Undefined, s)
          else let eds = ucast (entry_disk_space (ce_size x) (t_block_size s))
               in (Inr (), s\<lparr>t_current_size := (if eds > t_current_size s then 0 else t_current_size s - eds)\<rparr>))))"

text \<open>
  \<^verbatim>\<open>for_each\<close> over a slot with a functor that may delete the entry and set the pointer to null; then the null
  pointers are erased. When the functor throws, the slot stays as it is by then.
\<close>

fun for_each_entry :: "(nat \<Rightarrow> bool op) \<Rightarrow> nat option list \<Rightarrow> http_cache \<Rightarrow> (stop + unit) \<times> nat option list \<times> http_cache" where
  "for_each_entry f [] s = (Inr (), [], s)"
| "for_each_entry f (None # ps) s = (case for_each_entry f ps s of (r, qs, s) \<Rightarrow> (r, None # qs, s))"
| "for_each_entry f (Some e # ps) s =
     (case f e s of
        (Inl x, s) \<Rightarrow> (Inl x, Some e # ps, s)
      | (Inr gone, s) \<Rightarrow> (case for_each_entry f ps s of (r, qs, s) \<Rightarrow> (r, (if gone then None else Some e) # qs, s)))"

definition sweep_slot :: "(nat \<Rightarrow> bool op) \<Rightarrow> nat \<Rightarrow> unit op" where
  "sweep_slot f k s =
     (case t_cache_table s k of
        None \<Rightarrow> (Inr (), s)
      | Some ps \<Rightarrow>
          (case for_each_entry f ps s of
             (Inl x, qs, s) \<Rightarrow> (Inl x, s\<lparr>t_cache_table := (t_cache_table s)(k \<mapsto> qs)\<rparr>)
           | (Inr _, qs, s) \<Rightarrow> (Inr (), s\<lparr>t_cache_table := (t_cache_table s)(k \<mapsto> filter (\<lambda>p. p \<noteq> None) qs)\<rparr>)))"

fun sweep_slots :: "(nat \<Rightarrow> bool op) \<Rightarrow> nat list \<Rightarrow> unit op" where
  "sweep_slots f [] = ret ()"
| "sweep_slots f (k # ks) = bind (sweep_slot f k) (\<lambda>_. sweep_slots f ks)"

definition delete_if :: "(cache_entry \<Rightarrow> bool) \<Rightarrow> nat \<Rightarrow> bool op" where
  "delete_if P e = bind (the_entry e) (\<lambda>x.
     if P x then bind (remove_cache_entry e) (\<lambda>_. bind (free_entry e) (\<lambda>_. ret True)) else ret False)"

definition is_expired :: "int \<Rightarrow> cache_entry \<Rightarrow> bool" where
  "is_expired t x \<longleftrightarrow> ce_readers x = 0 \<and> ce_freshness_lifetime x < ce_corrected_initial_age x + (t - ce_response_time x)"

definition delete_expired_entries :: "env \<Rightarrow> int \<Rightarrow> unit op" where
  "delete_expired_entries v t =
     sweep_slots (delete_if (is_expired (if t = 0 then now v else t))) [0..<CACHE_TABLE_SIZE]"

definition has_few_hits :: "int \<Rightarrow> cache_entry \<Rightarrow> bool" where
  "has_few_hits hits x \<longleftrightarrow> ce_readers x = 0 \<and> ce_hits x \<le> hits"

definition delete_by_hits :: "int \<Rightarrow> unit op" where
  "delete_by_hits hits = sweep_slots (delete_if (has_few_hits hits)) [0..<CACHE_TABLE_SIZE]"

definition is_too_big :: "32 word \<Rightarrow> cache_entry \<Rightarrow> bool" where
  "is_too_big sz x \<longleftrightarrow> ce_readers x = 0 \<and> ce_size x > ucast sz"

definition delete_by_size :: "32 word \<Rightarrow> unit op" where
  "delete_by_size sz = sweep_slots (delete_if (is_too_big sz)) [0..<CACHE_TABLE_SIZE]"

text \<open>The entry of a URL is locked for writing before it is removed: this waits for its readers.\<close>

definition delete_url :: "string \<Rightarrow> nat \<Rightarrow> bool op" where
  "delete_url url e = bind (the_entry e) (\<lambda>x.
     if ce_url x = url
     then bind (lock_write_response e) (\<lambda>_. bind (remove_cache_entry e) (\<lambda>_.
          bind (unlock_write_response e) (\<lambda>_. bind (free_entry e) (\<lambda>_. ret True))))
     else ret False)"

definition remove_entry_from_cache_table :: "string \<Rightarrow> unit op" where
  "remove_entry_from_cache_table url = sweep_slot (delete_url url) (get_hash url)"

definition cache_index_delete :: "bool op" where
  "cache_index_delete s =
     (Inr (h_files s (t_cache_index s) \<noteq> None),
      s\<lparr>t_new_entries := 0, h_files := (h_files s)(t_cache_index s := None)\<rparr>)"

definition delete_all_entries :: "unit op" where
  "delete_all_entries =
     bind (sweep_slots (delete_if (\<lambda>_. True)) [0..<CACHE_TABLE_SIZE]) (\<lambda>_. bind cache_index_delete (\<lambda>_. ret ()))"

section \<open>Files for the responses\<close>

definition create_hash_directory :: "env \<Rightarrow> int \<Rightarrow> string op" where
  "create_hash_directory v hash s =
     (let p = t_cache_root s @ show_int hash
      in if p \<in> set (h_dirs s) \<or> h_files s p \<noteq> None then (Inr p, s)
         else if mkdir_ok v p then (Inr p, s\<lparr>h_dirs := p # h_dirs s\<rparr>)
         else raise (Error (''Could not create cache slot to hold response! Check the write permissions on your disk cache directory. Cache root: ''
                @ t_cache_root s @ ''.'')) s)"

definition create_location :: "env \<Rightarrow> nat \<Rightarrow> unit op" where
  "create_location v e = bind (the_entry e) (\<lambda>x. bind (create_hash_directory v (ce_hash x)) (\<lambda>hash_dir s.
     case mkstemp v (h_files s) (hash_dir @ ''/dods'') of
       None \<Rightarrow> raise (Error ''The HTTP Cache could not create a file to hold the response; it will not be cached.'') s
     | Some templat \<Rightarrow>
         put_entry e (x\<lparr>ce_cachename := templat\<rparr>) (s\<lparr>h_files := (h_files s)(templat \<mapsto> [])\<rparr>)))"

section \<open>Times and headers\<close>

definition NO_LM_EXPIRATION :: int where
  "NO_LM_EXPIRATION = 24 * 3600"

definition LM_EXPIRATION :: "int \<Rightarrow> int" where
  "LM_EXPIRATION t = min (48 * 3600) (to_int32 (t sdiv 10))"

definition calculate_time :: "env \<Rightarrow> nat \<Rightarrow> int \<Rightarrow> int \<Rightarrow> unit op" where
  "calculate_time v e default_expiration request_time = bind (the_entry e) (\<lambda>x.
     let response_time = now v;
         apparent_age = max 0 (to_int32 (response_time - ce_date x));
         corrected_received_age = max apparent_age (ce_age x);
         response_delay = response_time - request_time;
         freshness_lifetime =
           (if ce_max_age x < 0
            then (if ce_expires x < 0
                  then (if ce_lm x < 0 then default_expiration else LM_EXPIRATION (ce_date x - ce_lm x))
                  else ce_expires x - ce_date x)
            else ce_max_age x)
     in put_entry e (x\<lparr>ce_response_time := response_time,
                       ce_corrected_initial_age := corrected_received_age + response_delay,
                       ce_freshness_lifetime := max 0 (to_int32 freshness_lifetime)\<rparr>))"

text \<open>\<^verbatim>\<open>strtoul(s, 0, 0)\<close>: the prefix says the base; too large saturates, a sign negates.\<close>

definition strtoul :: "string \<Rightarrow> 64 word" where
  "strtoul s =
     (let (neg, r) = split_sign (skip_ws s);
          n = (if 2 \<le> length r \<and> r ! 0 = CHR ''0'' \<and> (r ! 1 = CHR ''x'' \<or> r ! 1 = CHR ''X'')
               then digits_value 16 (takeWhile (is_digit_in 16) (drop 2 r))
               else if r \<noteq> [] \<and> r ! 0 = CHR ''0'' then digits_value 8 (takeWhile (is_digit_in 8) r)
               else digits_value 10 (takeWhile (is_digit_in 10) r))
      in if 2 ^ 64 \<le> n then - 1 else if neg then - of_nat n else of_nat n)"

definition header_name :: "string \<Rightarrow> string" where
  "header_name h = (case find_char h (CHR '':'') 0 of None \<Rightarrow> h | Some i \<Rightarrow> substr h 0 i)"

text \<open>\<^verbatim>\<open>substr(find(": ") + 2)\<close>: \<^verbatim>\<open>npos + 2\<close> is 1. Where the header has a colon the substring is inside.\<close>

definition header_value :: "string \<Rightarrow> string" where
  "header_value h = (case find_sub h '': '' 0 of None \<Rightarrow> substr_from h 1 | Some i \<Rightarrow> substr_from h (i + 2))"

definition read_time :: "env \<Rightarrow> string \<Rightarrow> stop + int" where
  "read_time v value = (case parse_time (now v) (c_str value) True of None \<Rightarrow> Inl Undefined | Some t \<Rightarrow> Inr t)"

text \<open>
  One header. \<^verbatim>\<open>value.find("=" + 1)\<close> adds one to the pointer to a literal and so searches the empty string,
  which is at the beginning: the whole value is read as a time.
\<close>

definition parse_header :: "env \<Rightarrow> 64 word \<Rightarrow> string \<Rightarrow> cache_entry \<Rightarrow> stop + cache_entry" where
  "parse_header v max_entry_size h x =
     (if h = [] then Inr x
      else if find_char h (CHR '':'') 0 = None then Inr x
      else
        let header = header_name h; value = header_value h
        in if header = ''ETag'' then Inr (x\<lparr>ce_etag := value\<rparr>)
           else if header = ''Last-Modified'' then rbind (read_time v value) (\<lambda>t. Inr (x\<lparr>ce_lm := t\<rparr>))
           else if header = ''Expires'' then rbind (read_time v value) (\<lambda>t. Inr (x\<lparr>ce_expires := t\<rparr>))
           else if header = ''Date'' then rbind (read_time v value) (\<lambda>t. Inr (x\<lparr>ce_date := t\<rparr>))
           else if header = ''Age'' then rbind (read_time v value) (\<lambda>t. Inr (x\<lparr>ce_age := t\<rparr>))
           else if header = ''Content-Length'' then
             Inr (if strtoul (c_str value) > max_entry_size then x\<lparr>ce_no_cache := True\<rparr> else x)
           else if header = ''Cache-Control'' then
             (if value = ''no-cache'' \<or> value = ''no-store'' then Inr (x\<lparr>ce_no_cache := True\<rparr>)
              else if value = ''must-revalidate'' then Inr (x\<lparr>ce_must_revalidate := True\<rparr>)
              else case find_sub value ''max-age'' 0 of
                     None \<Rightarrow> Inr x
                   | Some _ \<Rightarrow> (case find_sub value '''' 0 of
                         None \<Rightarrow> Inl Undefined
                       | Some i \<Rightarrow> rbind (read_time v (substr_from value i)) (\<lambda>t. Inr (x\<lparr>ce_max_age := t\<rparr>))))
           else Inr x)"

definition parse_headers :: "env \<Rightarrow> nat \<Rightarrow> 64 word \<Rightarrow> string list \<Rightarrow> unit op" where
  "parse_headers v e max_entry_size headers = bind (the_entry e) (\<lambda>x.
     case each (parse_header v max_entry_size) headers x of
       Inl r \<Rightarrow> stops r
     | Inr y \<Rightarrow> put_entry e y)"

section \<open>Responses that are being read\<close>

definition bind_entry_to_data :: "nat \<Rightarrow> nat \<Rightarrow> unit op" where
  "bind_entry_to_data e body = bind (the_entry e) (\<lambda>x.
     bind (put_entry e (x\<lparr>ce_hits := ce_hits x + 1\<rparr>)) (\<lambda>_.
     upd (\<lambda>s. s\<lparr>t_locked_entries := m_set body (Some e) (t_locked_entries s)\<rparr>)))"

text \<open>Looking for a file that is not there puts a null pointer into the map.\<close>

definition uncouple_entry_from_data :: "nat \<Rightarrow> unit op" where
  "uncouple_entry_from_data body s =
     (case m_index None body (t_locked_entries s) of
        (None, l) \<Rightarrow> (Inl (Raised (InternalErr ''There is no cache entry for the response given.'')), s\<lparr>t_locked_entries := l\<rparr>)
      | (Some e, l) \<Rightarrow>
          bind (unlock_read_response e) (\<lambda>_. bind (the_entry e) (\<lambda>x.
            if ce_readers x < 0 then raise (InternalErr ''An unlocked entry was released'') else ret ()))
            (s\<lparr>t_locked_entries := m_erase body l\<rparr>))"

definition is_locked_read_responses :: "http_cache \<Rightarrow> bool" where
  "is_locked_read_responses s \<longleftrightarrow> t_locked_entries s \<noteq> []"

section \<open>The index\<close>

definition CACHE_EMPTY_ETAG :: string where
  "CACHE_EMPTY_ETAG = ''@cache@''"

text \<open>\<^verbatim>\<open>fgets\<close> with a buffer of 1024 characters, until the end of the file.\<close>

definition fgets_length :: "string \<Rightarrow> nat" where
  "fgets_length s = min 1023 (case find_char s lf 0 of None \<Rightarrow> length s | Some i \<Rightarrow> i + 1)"

function fgets_lines :: "string \<Rightarrow> string list" where
  "fgets_lines s = (if s = [] then [] else take (fgets_length s) s # fgets_lines (drop (fgets_length s) s))"
  by pat_completeness auto
termination
  by (relation "measure length") (auto simp: fgets_length_def split: option.splits)

declare fgets_lines.simps [simp del]

text \<open>
  Extraction from an \<^verbatim>\<open>istringstream\<close>: what is left and whether the stream is good. With nothing left the
  variable keeps its value, here \<open>None\<close>.
\<close>

type_synonym istream = "string \<times> bool"

definition ext_word :: "istream \<Rightarrow> string option \<times> istream" where
  "ext_word st =
     (let (s, good) = st; r = skip_ws s
      in if \<not> good \<or> r = [] then (None, r, False)
         else (Some (takeWhile (\<lambda>c. \<not> is_space c) r), dropWhile (\<lambda>c. \<not> is_space c) r, True))"

definition ext_number :: "istream \<Rightarrow> (bool \<times> nat) option \<times> istream" where
  "ext_number st =
     (let (s, good) = st; r = skip_ws s
      in if \<not> good \<or> r = [] then (None, r, False)
         else let (neg, q) = split_sign r; ds = takeWhile (is_digit_in 10) q
              in (Some (neg, digits_value 10 ds), drop (length ds) q, ds \<noteq> []))"

definition ext_signed :: "nat \<Rightarrow> istream \<Rightarrow> int option \<times> istream" where
  "ext_signed w st =
     (case ext_number st of
        (None, st) \<Rightarrow> (None, st)
      | (Some (neg, n), r, good) \<Rightarrow>
          let i = (if neg then - int n else int n)
          in if i < - (2 ^ (w - 1)) then (Some (- (2 ^ (w - 1))), r, False)
             else if 2 ^ (w - 1) \<le> i then (Some (2 ^ (w - 1) - 1), r, False)
             else (Some i, r, good))"

definition ext_ulong :: "istream \<Rightarrow> 64 word option \<times> istream" where
  "ext_ulong st =
     (case ext_number st of
        (None, st) \<Rightarrow> (None, st)
      | (Some (neg, n), r, good) \<Rightarrow>
          if 2 ^ 64 \<le> n then (Some (- 1), r, False) else (Some (if neg then - of_nat n else of_nat n), r, good))"

definition ext_bool :: "istream \<Rightarrow> bool option \<times> istream" where
  "ext_bool st =
     (case ext_signed 64 st of
        (None, st) \<Rightarrow> (None, st)
      | (Some i, r, good) \<Rightarrow> (Some (i \<noteq> 0), r, good \<and> (i = 0 \<or> i = 1)))"

definition or_else :: "'a option \<Rightarrow> 'a \<Rightarrow> 'a" where
  "or_else r d = (case r of None \<Rightarrow> d | Some v \<Rightarrow> v)"

definition cache_index_parse_line :: "string \<Rightarrow> cache_entry" where
  "cache_index_parse_line line =
     (let (url, st) = ext_word (c_str line, True);
          (cachename, st) = ext_word st;
          (etag, st) = ext_word st;
          (lm, st) = ext_signed 64 st;
          (expires, st) = ext_signed 64 st;
          (sz, st) = ext_ulong st;
          (range, st) = ext_bool st;
          (hash, st) = ext_signed 32 st;
          (hits, st) = ext_signed 32 st;
          (freshness_lifetime, st) = ext_signed 64 st;
          (response_time, st) = ext_signed 64 st;
          (corrected_initial_age, st) = ext_signed 64 st;
          (must_revalidate, st) = ext_bool st
      in blank_entry\<lparr>ce_url := or_else url [], ce_cachename := or_else cachename [],
           ce_etag := (if etag = Some CACHE_EMPTY_ETAG then [] else or_else etag []),
           ce_lm := or_else lm (- 1), ce_expires := or_else expires (- 1), ce_size := or_else sz 0,
           ce_range := or_else range False, ce_hash := or_else hash (- 1), ce_hits := or_else hits 0,
           ce_freshness_lifetime := or_else freshness_lifetime 0, ce_response_time := or_else response_time 0,
           ce_corrected_initial_age := or_else corrected_initial_age 0,
           ce_must_revalidate := or_else must_revalidate False\<rparr>)"

fun read_lines :: "string list \<Rightarrow> unit op" where
  "read_lines [] = ret ()"
| "read_lines (l # ls) =
     bind (new_entry (cache_index_parse_line l)) (\<lambda>e. bind (add_entry_to_cache_table e) (\<lambda>_. read_lines ls))"

definition cache_index_read :: "env \<Rightarrow> bool op" where
  "cache_index_read v s =
     (case h_files s (t_cache_index s) of
        Some text \<Rightarrow>
          if can_open v (t_cache_index s)
          then bind (read_lines (fgets_lines text)) (\<lambda>_. bind (upd (\<lambda>s. s\<lparr>t_new_entries := 0\<rparr>)) (\<lambda>_. ret True)) s
          else (Inr False, s)
      | None \<Rightarrow> (Inr False, s))"

text \<open>\<^verbatim>\<open>"%s %s %s %ld %ld %ld %c %d %d %ld %ld %ld %c\r\n"\<close>; the size is printed with its sign.\<close>

definition index_line :: "cache_entry \<Rightarrow> string" where
  "index_line x =
     c_str (ce_url x) @ '' '' @ c_str (ce_cachename x) @ '' '' @
     (if ce_etag x = [] then CACHE_EMPTY_ETAG else c_str (ce_etag x)) @ '' '' @
     show_int (ce_lm x) @ '' '' @ show_int (ce_expires x) @ '' '' @ show_int (sint (ce_size x)) @ '' '' @
     (if ce_range x then ''1'' else ''0'') @ '' '' @ show_int (ce_hash x) @ '' '' @ show_int (ce_hits x) @ '' '' @
     show_int (ce_freshness_lifetime x) @ '' '' @ show_int (ce_response_time x) @ '' '' @
     show_int (ce_corrected_initial_age x) @ '' '' @ (if ce_must_revalidate x then ''1'' else ''0'') @ [cr, lf]"

definition slot_pointers :: "http_cache \<Rightarrow> nat option list" where
  "slot_pointers s = concat (map (\<lambda>k. case t_cache_table s k of None \<Rightarrow> [] | Some ps \<Rightarrow> ps) [0..<CACHE_TABLE_SIZE])"

fun write_entries :: "nat option list \<Rightarrow> string \<Rightarrow> http_cache \<Rightarrow> stop + string" where
  "write_entries [] text s = Inr text"
| "write_entries (None # ps) text s = write_entries ps text s"
| "write_entries (Some e # ps) text s =
     (case h_entries s e of None \<Rightarrow> Inl Undefined | Some x \<Rightarrow> write_entries ps (text @ index_line x) s)"

definition cache_index_write :: "env \<Rightarrow> unit op" where
  "cache_index_write v s =
     (let f = t_cache_index s
      in if \<not> can_open v f then raise (Error (''Cache Index. Can't open `'' @ f @ [squote] @ '' for writing'')) s
         else case write_entries (slot_pointers s) [] s of
                Inl r \<Rightarrow> (Inl r, s)
              | Inr text \<Rightarrow>
                  if text \<noteq> [] \<and> \<not> can_write v f
                  then raise (Error (''Cache Index. Error writing cache index'' @ [lf])) (s\<lparr>h_files := (h_files s)(f \<mapsto> [])\<rparr>)
                  else (Inr (), s\<lparr>h_files := (h_files s)(f \<mapsto> text), t_new_entries := 0\<rparr>))"

text \<open>The constructor.\<close>

definition new_table :: "env \<Rightarrow> string \<Rightarrow> 32 word \<Rightarrow> unit op" where
  "new_table v cache_root block_size =
     bind (upd (\<lambda>s. s\<lparr>t_cache_root := cache_root, t_block_size := block_size, t_current_size := 0, t_new_entries := 0,
                    t_cache_index := cache_root @ ''.index'', t_cache_table := (\<lambda>_. None), t_locked_entries := []\<rparr>)) (\<lambda>_.
     bind (cache_index_read v) (\<lambda>_. ret ()))"

end
