(* ===== verification/HttpCache.thy ===== *)
theory HttpCache
  imports CacheTable
begin

text \<open>
  The HTTP cache (\<^verbatim>\<open>libdap/HTTPCache.cc\<close>) over its table: storing and updating responses, asking whether they
  are fresh, reading and releasing them, garbage collection, the settings, the files of a response and the
  lock of the cache directory. The singleton with its signal handlers and exit hook is left out. A call
  that would wait for a mutex held by its own thread stops as \<open>Blocked\<close>, with the interface still locked.
\<close>

section \<open>The interface mutex and garbage collection\<close>

definition lock_cache_interface :: "unit op" where
  "lock_cache_interface s = (if d_cache_mutex s then (Inl Blocked, s) else (Inr (), s\<lparr>d_cache_mutex := True\<rparr>))"

definition unlock_cache_interface :: "unit op" where
  "unlock_cache_interface s = (if d_cache_mutex s then (Inr (), s\<lparr>d_cache_mutex := False\<rparr>) else (Inl Undefined, s))"

definition MEGA :: "64 word" where
  "MEGA = 0x100000"

definition stopGC :: "http_cache \<Rightarrow> bool" where
  "stopGC s \<longleftrightarrow> t_current_size s + d_folder_size s < d_total_size s - d_gc_buffer s"

definition startGC :: "http_cache \<Rightarrow> bool" where
  "startGC s \<longleftrightarrow> t_current_size s + d_folder_size s > d_total_size s"

definition expired_gc :: "env \<Rightarrow> unit op" where
  "expired_gc v s = (if \<not> d_expire_ignored s then delete_expired_entries v 0 s else (Inr (), s))"

text \<open>The size is cut to the width of the parameter.\<close>

definition too_big_gc :: "unit op" where
  "too_big_gc s = (if startGC s then delete_by_size (ucast (d_max_entry_size s)) s else (Inr (), s))"

text \<open>
  The loop of \<^verbatim>\<open>hits_gc\<close>: with every round the entries of one more hit go. When the entries that are left are in
  use it goes on for ever; then there is no result.
\<close>

partial_function (option) hits_loop :: "int \<Rightarrow> http_cache \<Rightarrow> ((stop + unit) \<times> http_cache) option" where
  "hits_loop hits s =
     (if stopGC s then Some (Inr (), s)
      else (case delete_by_hits hits s of
              (Inl x, s) \<Rightarrow> Some (Inl x, s)
            | (Inr _, s) \<Rightarrow> hits_loop (hits + 1) s))"

declare hits_loop.simps [code]

definition hits_gc :: "unit op" where
  "hits_gc s =
     (if startGC s then (case hits_loop 0 s of Some r \<Rightarrow> r | None \<Rightarrow> (Inl Endless, s)) else (Inr (), s))"

definition perform_garbage_collection :: "env \<Rightarrow> unit op" where
  "perform_garbage_collection v = bind (expired_gc v) (\<lambda>_. bind too_big_gc (\<lambda>_. hits_gc))"

definition collect_if_needed :: "env \<Rightarrow> unit op" where
  "collect_if_needed v s = (if startGC s then perform_garbage_collection v s else (Inr (), s))"

section \<open>The directory of the cache\<close>

text \<open>The prefixes of the path that end before a separator after the first character, each made if it is not there.\<close>

lemma find_char_bounds: "find_char s c i = Some j \<Longrightarrow> i \<le> j \<and> j < length s"
  unfolding find_char_def using find_if_from_SomeD(1,2) by blast

function create_cache_root_from :: "env \<Rightarrow> string \<Rightarrow> nat \<Rightarrow> unit op" where
  "create_cache_root_from v root cur s =
     (case find_char root (CHR ''/'') cur of
        None \<Rightarrow> (Inr (), s)
      | Some i \<Rightarrow>
          let dir = substr root 0 i
          in if dir \<in> set (h_dirs s) \<or> h_files s dir \<noteq> None then create_cache_root_from v root (i + 1) s
             else if mkdir_ok v dir then create_cache_root_from v root (i + 1) (s\<lparr>h_dirs := dir # h_dirs s\<rparr>)
             else raise (Error (''Could not create the directory for the cache. Failed when building path at '' @ dir @ ''.'')) s)"
  by pat_completeness auto
termination
  by (relation "measure (\<lambda>(v, root, cur, s). Suc (length root) - cur)")
    (auto dest!: find_char_bounds)

declare create_cache_root_from.simps [simp del]

definition create_cache_root :: "env \<Rightarrow> string \<Rightarrow> unit op" where
  "create_cache_root v root = create_cache_root_from v root 1"

definition set_cache_root :: "string \<Rightarrow> unit op" where
  "set_cache_root root =
     upd (\<lambda>s. s\<lparr>d_cache_root :=
       (if root \<noteq> [] then (if last root \<noteq> CHR ''/'' then root @ ''/'' else root) else ''/tmp/'' @ ''dods-cache/'')\<rparr>)"

definition get_single_user_lock :: "env \<Rightarrow> bool \<Rightarrow> bool op" where
  "get_single_user_lock v force s =
     (if d_locked_open_file s then (Inr False, s)
      else case create_cache_root v (d_cache_root s) s of
        (Inl (Raised _), s) \<Rightarrow> (Inr False, s)
      | (Inl x, s) \<Rightarrow> (Inl x, s)
      | (Inr _, s) \<Rightarrow>
          let lock = d_cache_root s @ ''.lock'';
              there = (h_files s lock \<noteq> None \<and> can_open v lock)
          in if there \<and> \<not> force then (Inr False, s)
             else let s = (if there then s\<lparr>h_files := (h_files s)(lock := None)\<rparr> else s)
                  in if \<not> can_open v lock then (Inr False, s)
                     else (Inr True, s\<lparr>h_files := (h_files s)(lock \<mapsto> []), d_locked_open_file := True\<rparr>))"

definition release_single_user_lock :: "unit op" where
  "release_single_user_lock =
     upd (\<lambda>s. s\<lparr>d_locked_open_file := False, h_files := (h_files s)(d_cache_root s @ ''.lock'' := None)\<rparr>)"

text \<open>The constructor; the sizes of the folder and of the buffer are in megabytes there, not in bytes.\<close>

definition CACHE_TOTAL_SIZE :: "64 word" where
  "CACHE_TOTAL_SIZE = 20"

definition new_cache :: "env \<Rightarrow> string \<Rightarrow> bool \<Rightarrow> unit op" where
  "new_cache v cache_root force =
     bind (upd (\<lambda>s. s\<lparr>d_locked_open_file := False, d_cache_enabled := False, d_expire_ignored := False, d_always_validate := False,
             d_total_size := CACHE_TOTAL_SIZE * MEGA, d_folder_size := CACHE_TOTAL_SIZE div 10,
             d_gc_buffer := CACHE_TOTAL_SIZE div 10, d_max_entry_size := 3 * MEGA,
             d_default_expiration := NO_LM_EXPIRATION, d_max_age := - 1, d_max_stale := - 1, d_min_fresh := - 1,
             d_cache_control := [], d_open_files := [], d_cache_root := [], d_cache_mutex := False\<rparr>)) (\<lambda>_.
     bind (set_cache_root cache_root) (\<lambda>_.
     bind (get_single_user_lock v force) (\<lambda>ok.
       if \<not> ok then raise (Error ''Could not get single user lock for the cache'')
       else case st_blksize v cache_root of
              None \<Rightarrow> raise (Error ''Could not set file system block size.'')
            | Some block_size \<Rightarrow>
                bind (\<lambda>s. new_table v (d_cache_root s) block_size s) (\<lambda>_. upd (\<lambda>s. s\<lparr>d_cache_enabled := True\<rparr>)))))"

text \<open>The destructor; an error of the collection or of the index is swallowed.\<close>

definition delete_cache :: "env \<Rightarrow> unit op" where
  "delete_cache v s =
     (case bind (collect_if_needed v) (\<lambda>_. cache_index_write v) s of
        (Inl (Raised _), s) \<Rightarrow> release_single_user_lock s
      | (Inl x, s) \<Rightarrow> (Inl x, s)
      | (Inr _, s) \<Rightarrow> release_single_user_lock s)"

section \<open>Settings\<close>

definition locked_upd :: "(http_cache \<Rightarrow> http_cache) \<Rightarrow> unit op" where
  "locked_upd f = bind lock_cache_interface (\<lambda>_. bind (upd f) (\<lambda>_. unlock_cache_interface))"

definition set_cache_enabled :: "bool \<Rightarrow> unit op" where
  "set_cache_enabled mode = locked_upd (\<lambda>s. s\<lparr>d_cache_enabled := mode\<rparr>)"

definition set_expire_ignored :: "bool \<Rightarrow> unit op" where
  "set_expire_ignored mode = locked_upd (\<lambda>s. s\<lparr>d_expire_ignored := mode\<rparr>)"

definition set_default_expiration :: "int \<Rightarrow> unit op" where
  "set_default_expiration exp_time = locked_upd (\<lambda>s. s\<lparr>d_default_expiration := exp_time\<rparr>)"

definition set_always_validate :: "bool \<Rightarrow> unit op" where
  "set_always_validate validate = upd (\<lambda>s. s\<lparr>d_always_validate := validate\<rparr>)"

text \<open>After the settings have changed: \<open>start\<close> says that the new limit is below the old one.\<close>

definition shrink_cache :: "env \<Rightarrow> bool \<Rightarrow> unit op" where
  "shrink_cache v smaller s =
     (if smaller \<and> startGC s then bind (perform_garbage_collection v) (\<lambda>_. cache_index_write v) s else (Inr (), s))"

text \<open>The multiplication wraps around.\<close>

definition set_max_size :: "env \<Rightarrow> 64 word \<Rightarrow> unit op" where
  "set_max_size v sz =
     bind lock_cache_interface (\<lambda>_.
     bind (catch_rethrow
       (\<lambda>s. let new_size = (if sz < 5 then 5 * MEGA else sz * MEGA)
            in shrink_cache v (new_size < d_total_size s)
                 (s\<lparr>d_total_size := new_size, d_folder_size := new_size div 10, d_gc_buffer := new_size div 10\<rparr>))
       unlock_cache_interface) (\<lambda>_. unlock_cache_interface))"

definition get_max_size :: "http_cache \<Rightarrow> 64 word" where
  "get_max_size s = d_total_size s div MEGA"

definition set_max_entry_size :: "env \<Rightarrow> 64 word \<Rightarrow> unit op" where
  "set_max_entry_size v sz =
     bind lock_cache_interface (\<lambda>_.
     bind (catch_rethrow
       (\<lambda>s. let new_size = sz * MEGA
            in if new_size > 0 \<and> new_size < d_total_size s - d_folder_size s
               then shrink_cache v (new_size < d_max_entry_size s) (s\<lparr>d_max_entry_size := new_size\<rparr>)
               else (Inr (), s))
       unlock_cache_interface) (\<lambda>_. unlock_cache_interface))"

definition get_max_entry_size :: "http_cache \<Rightarrow> 64 word" where
  "get_max_entry_size s = d_max_entry_size s div MEGA"

text \<open>One cache control header; \<^verbatim>\<open>"=" + 1\<close> is the empty string again. An empty header has no
  \<^verbatim>\<open>substr(1)\<close>: the library throws.\<close>

definition whole_time :: "env \<Rightarrow> string \<Rightarrow> stop + int" where
  "whole_time v value =
     (case find_sub value '''' 0 of None \<Rightarrow> Inl Undefined | Some i \<Rightarrow> read_time v (substr_from value i))"

definition use_cache_control :: "env \<Rightarrow> string \<Rightarrow> http_cache \<Rightarrow> stop + http_cache" where
  "use_cache_control v h s =
     (if h = [] then Inl (Raised (Error ''basic_string::substr''))
      else let header = header_name h; value = header_value h
      in if header \<noteq> ''Cache-Control'' then Inl (Raised (InternalErr ''Expected cache control header not found.''))
         else if value = ''no-cache'' \<or> value = ''no-store'' then Inr (s\<lparr>d_cache_enabled := False\<rparr>)
         else if find_sub value ''max-age'' 0 \<noteq> None then rbind (whole_time v value) (\<lambda>t. Inr (s\<lparr>d_max_age := t\<rparr>))
         else if value = ''max-stale'' then Inr (s\<lparr>d_max_stale := 0\<rparr>)
         else if find_sub value ''max-stale'' 0 \<noteq> None then rbind (whole_time v value) (\<lambda>t. Inr (s\<lparr>d_max_stale := t\<rparr>))
         else if find_sub value ''min-fresh'' 0 \<noteq> None then rbind (whole_time v value) (\<lambda>t. Inr (s\<lparr>d_min_fresh := t\<rparr>))
         else Inr s)"

fun use_cache_controls :: "env \<Rightarrow> string list \<Rightarrow> unit op" where
  "use_cache_controls v [] s = (Inr (), s)"
| "use_cache_controls v (h # hs) s =
     (case use_cache_control v h s of Inl x \<Rightarrow> (Inl x, s) | Inr s \<Rightarrow> use_cache_controls v hs s)"

definition set_cache_control :: "env \<Rightarrow> string list \<Rightarrow> unit op" where
  "set_cache_control v cc =
     bind lock_cache_interface (\<lambda>_.
     bind (catch_rethrow (bind (upd (\<lambda>s. s\<lparr>d_cache_control := cc\<rparr>)) (\<lambda>_. use_cache_controls v cc)) unlock_cache_interface)
       (\<lambda>_. unlock_cache_interface))"

section \<open>The files of a response\<close>

definition is_hop_by_hop_header :: "string \<Rightarrow> bool" where
  "is_hop_by_hop_header header \<longleftrightarrow>
     find_sub header ''Connection'' 0 \<noteq> None \<or> find_sub header ''Keep-Alive'' 0 \<noteq> None \<or>
     find_sub header ''Proxy-Authenticate'' 0 \<noteq> None \<or> find_sub header ''Proxy-Authorization'' 0 \<noteq> None \<or>
     find_sub header ''Transfer-Encoding'' 0 \<noteq> None \<or> find_sub header ''Upgrade'' 0 \<noteq> None"

text \<open>Writing nothing, \<^verbatim>\<open>fwrite\<close> of an empty header, counts as a failure.\<close>

fun write_headers :: "bool \<Rightarrow> string list \<Rightarrow> string \<Rightarrow> (dap_error + unit) \<times> string" where
  "write_headers ok [] text = (Inr (), text)"
| "write_headers ok (h # hs) text =
     (if is_hop_by_hop_header h then write_headers ok hs text
      else if h = [] \<or> \<not> ok then (Inl (InternalErr (''could not write header: '' @ [squote] @ h @ [squote] @ '' '' @ ''0'')), text)
      else write_headers ok hs (text @ h @ [lf]))"

definition write_metadata :: "env \<Rightarrow> string \<Rightarrow> string list \<Rightarrow> unit op" where
  "write_metadata v cachename headers s =
     (let fname = cachename @ CACHE_META; s = s\<lparr>d_open_files := d_open_files s @ [fname]\<rparr>
      in if \<not> can_open v fname then raise (InternalErr ''Could not open named cache entry file.'') s
         else case write_headers (can_write v fname) headers [] of
                (Inl e, text) \<Rightarrow> raise e (s\<lparr>h_files := (h_files s)(fname \<mapsto> text)\<rparr>)
              | (Inr _, text) \<Rightarrow>
                  (Inr (), s\<lparr>h_files := (h_files s)(fname \<mapsto> text), d_open_files := butlast (d_open_files s)\<rparr>))"

text \<open>
  A line loses its last character, which is the newline unless the line was too long for the buffer. A
  line that begins with a NUL character writes before the buffer.
\<close>

definition header_of_line :: "string \<Rightarrow> stop + string" where
  "header_of_line l = (if c_str l = [] then Inl Undefined else Inr (butlast (c_str l)))"

fun headers_of_lines :: "string list \<Rightarrow> stop + string list" where
  "headers_of_lines [] = Inr []"
| "headers_of_lines (l # ls) = rbind (header_of_line l) (\<lambda>h. rbind (headers_of_lines ls) (\<lambda>hs. Inr (h # hs)))"

definition read_metadata :: "env \<Rightarrow> string \<Rightarrow> string list op" where
  "read_metadata v cachename s =
     (case h_files s (cachename @ CACHE_META) of
        Some text \<Rightarrow>
          if can_open v (cachename @ CACHE_META) then (headers_of_lines (fgets_lines text), s)
          else raise (InternalErr ''Could not open named cache entry meta data file.'') s
      | None \<Rightarrow> raise (InternalErr ''Could not open named cache entry meta data file.'') s)"

text \<open>
  The body is what can be read from the source, and a flag that reading it ends with an error. The result
  is an \<^verbatim>\<open>int\<close>.
\<close>

definition write_body :: "env \<Rightarrow> string \<Rightarrow> string \<times> bool \<Rightarrow> int op" where
  "write_body v cachename src s =
     (let s = s\<lparr>d_open_files := d_open_files s @ [cachename]\<rparr>; (body, src_error) = src
      in if \<not> can_open v cachename then raise (InternalErr ''Could not open named cache entry file.'') s
         else if src_error \<or> body \<noteq> [] \<and> \<not> can_write v cachename
         then raise (InternalErr ''I/O error transferring data to the cache.'') (s\<lparr>h_files := (h_files s)(cachename := None)\<rparr>)
         else (Inr (to_int32 (int (length body))),
               s\<lparr>h_files := (h_files s)(cachename \<mapsto> body), d_open_files := butlast (d_open_files s)\<rparr>))"

definition open_body :: "env \<Rightarrow> string \<Rightarrow> nat op" where
  "open_body v cachename s =
     (case h_files s cachename of
        Some text \<Rightarrow>
          if can_open v cachename
          then (Inr (h_next_file s), s\<lparr>h_open := (h_open s)(h_next_file s \<mapsto> text), h_next_file := h_next_file s + 1\<rparr>)
          else raise (InternalErr ''Could not open cache file.'') s
      | None \<Rightarrow> raise (InternalErr ''Could not open cache file.'') s)"

definition fclose :: "nat \<Rightarrow> unit op" where
  "fclose f = upd (\<lambda>s. s\<lparr>h_open := (h_open s)(f := None)\<rparr>)"

section \<open>Storing and updating responses\<close>

definition is_http_url :: "string \<Rightarrow> bool" where
  "is_http_url url \<longleftrightarrow> find_sub url ''http:'' 0 \<noteq> None \<or> find_sub url ''https:'' 0 \<noteq> None"

text \<open>
  Storing one response, as far as the entry is in the table; \<open>False\<close> when it must not be cached. The
  clause for \<^verbatim>\<open>ResponseTooBigErr\<close> is left out: nothing throws it.
\<close>

definition store_response :: "env \<Rightarrow> string \<Rightarrow> int \<Rightarrow> string list \<Rightarrow> string \<times> bool \<Rightarrow> bool op" where
  "store_response v url request_time headers body =
     bind (remove_entry_from_cache_table url) (\<lambda>_.
     bind (new_entry (entry_for url)) (\<lambda>e.
     bind (lock_write_response e) (\<lambda>_.
     bind (\<lambda>s. parse_headers v e (d_max_entry_size s) headers s) (\<lambda>_.
     bind (the_entry e) (\<lambda>x.
       if ce_no_cache x
       then bind (unlock_write_response e) (\<lambda>_. bind (free_entry e) (\<lambda>_. ret False))
       else bind (\<lambda>s. calculate_time v e (d_default_expiration s) request_time s) (\<lambda>_.
            bind (create_location v e) (\<lambda>_.
            bind (the_entry e) (\<lambda>x.
            bind (write_body v (ce_cachename x) body) (\<lambda>n.
            bind (put_entry e (x\<lparr>ce_size := word_of_int n\<rparr>)) (\<lambda>_.
            bind (write_metadata v (ce_cachename x) headers) (\<lambda>_.
            bind (add_entry_to_cache_table e) (\<lambda>_.
            bind (unlock_write_response e) (\<lambda>_. ret True)))))))))))))"

definition dump_index :: "env \<Rightarrow> unit op" where
  "dump_index v s =
     (if t_new_entries s > 10 then bind (collect_if_needed v) (\<lambda>_. cache_index_write v) s else (Inr (), s))"

definition cache_response :: "env \<Rightarrow> string \<Rightarrow> int \<Rightarrow> string list \<Rightarrow> string \<times> bool \<Rightarrow> bool op" where
  "cache_response v url request_time headers body =
     bind lock_cache_interface (\<lambda>_.
       if \<not> is_http_url url then bind unlock_cache_interface (\<lambda>_. ret False)
       else bind (catch_rethrow
              (bind (store_response v url request_time headers body) (\<lambda>stored.
                 if stored then bind (dump_index v) (\<lambda>_. ret True) else ret False))
              unlock_cache_interface) (\<lambda>stored. bind unlock_cache_interface (\<lambda>_. ret stored)))"

definition no_entry_message :: "string \<Rightarrow> dap_error" where
  "no_entry_message url = Error (''There is no cache entry for the URL: '' @ url)"

definition get_conditional_request_headers :: "string \<Rightarrow> string list op" where
  "get_conditional_request_headers url =
     bind lock_cache_interface (\<lambda>_.
     bind (catch_rethrow
       (bind (get_locked_entry_from_cache_table url) (\<lambda>r.
          case r of None \<Rightarrow> raise (no_entry_message url) | Some e \<Rightarrow> ret e))
       unlock_cache_interface) (\<lambda>e.
     bind (the_entry e) (\<lambda>x.
     bind (unlock_read_response e) (\<lambda>_.
     bind unlock_cache_interface (\<lambda>_.
     ret ((if ce_etag x \<noteq> [] then [''If-None-Match: '' @ ce_etag x] else []) @
          (if ce_lm x > 0 then [''If-Modified-Since: '' @ date_time_str (ce_lm x)]
           else if ce_max_age x > 0 then [''If-Modified-Since: '' @ date_time_str (ce_max_age x)]
           else if ce_expires x > 0 then [''If-Modified-Since: '' @ date_time_str (ce_expires x)]
           else [])))))))"

text \<open>A set of headers ordered by their names; a header whose name is there is not inserted.\<close>

fun insert_header :: "string \<Rightarrow> string list \<Rightarrow> string list" where
  "insert_header h [] = [h]"
| "insert_header h (g # gs) =
     (if header_name h < header_name g then h # g # gs
      else if header_name g < header_name h then g # insert_header h gs
      else g # gs)"

definition merge_headers :: "string list \<Rightarrow> string list \<Rightarrow> string list" where
  "merge_headers new old = rev (fold insert_header (new @ old) [])"

text \<open>
  After an exception the entry, which is locked for writing, is unlocked as if it were locked for reading.
  The exceptions are those after the entry was found.
\<close>

definition update_response :: "env \<Rightarrow> string \<Rightarrow> int \<Rightarrow> string list \<Rightarrow> unit op" where
  "update_response v url request_time headers =
     bind lock_cache_interface (\<lambda>_.
     bind (catch_rethrow
       (bind (get_write_locked_entry_from_cache_table url) (\<lambda>r.
          case r of None \<Rightarrow> raise (no_entry_message url) | Some e \<Rightarrow> ret e))
       unlock_cache_interface) (\<lambda>e.
     bind (catch_rethrow
       (bind (\<lambda>s. parse_headers v e (d_max_entry_size s) headers s) (\<lambda>_.
        bind (\<lambda>s. calculate_time v e (d_default_expiration s) request_time s) (\<lambda>_.
        bind (the_entry e) (\<lambda>x.
        bind (read_metadata v (ce_cachename x)) (\<lambda>old_headers.
        write_metadata v (ce_cachename x) (merge_headers headers old_headers))))))
       (bind (unlock_read_response e) (\<lambda>_. unlock_cache_interface))) (\<lambda>_.
     bind (unlock_write_response e) (\<lambda>_. unlock_cache_interface))))"

section \<open>Using responses\<close>

text \<open>Whether a response may be used without asking the server, from the times of its entry.\<close>

definition entry_is_fresh :: "int \<Rightarrow> http_cache \<Rightarrow> cache_entry \<Rightarrow> bool" where
  "entry_is_fresh t s x =
     (let resident_time = t - ce_response_time x;
          current_age = ce_corrected_initial_age x + resident_time
      in if ce_must_revalidate x then False
         else if d_max_age s \<ge> 0 \<and> current_age > d_max_age s then False
         else if d_min_fresh s \<ge> 0 \<and> ce_freshness_lifetime x < current_age + d_min_fresh s then False
         else ce_freshness_lifetime x + (if d_max_stale s \<ge> 0 then d_max_stale s else 0) > current_age)"

definition is_url_valid :: "env \<Rightarrow> string \<Rightarrow> bool op" where
  "is_url_valid v url =
     bind lock_cache_interface (\<lambda>_ s.
       if d_always_validate s then bind unlock_cache_interface (\<lambda>_. ret False) s
       else bind (catch_rethrow
              (bind (get_locked_entry_from_cache_table url) (\<lambda>r.
                 case r of None \<Rightarrow> raise (no_entry_message url) | Some e \<Rightarrow> ret e))
              unlock_cache_interface) (\<lambda>e.
            bind (the_entry e) (\<lambda>x.
            bind (unlock_read_response e) (\<lambda>_.
            bind unlock_cache_interface (\<lambda>_. ret (entry_is_fresh (now v) s x))))) s)"

definition is_url_in_cache :: "string \<Rightarrow> bool op" where
  "is_url_in_cache url =
     bind (get_locked_entry_from_cache_table url) (\<lambda>r.
       case r of None \<Rightarrow> ret False | Some e \<Rightarrow> bind (unlock_read_response e) (\<lambda>_. ret True))"

text \<open>
  The open body, the headers and the name of the file. The read lock of the entry stays until the body is
  released; when the files cannot be read it stays for ever.
\<close>

definition get_cached_response :: "env \<Rightarrow> string \<Rightarrow> (nat \<times> string list \<times> string) option op" where
  "get_cached_response v url =
     bind lock_cache_interface (\<lambda>_.
     bind (get_locked_entry_from_cache_table url) (\<lambda>r.
       case r of
         None \<Rightarrow> bind unlock_cache_interface (\<lambda>_. ret None)
       | Some e \<Rightarrow>
           bind (catch_rethrow
             (bind (the_entry e) (\<lambda>x.
              bind (read_metadata v (ce_cachename x)) (\<lambda>headers.
              bind (open_body v (ce_cachename x)) (\<lambda>body.
              bind (bind_entry_to_data e body) (\<lambda>_. ret (Some (body, headers, ce_cachename x)))))))
             unlock_cache_interface) (\<lambda>r. bind unlock_cache_interface (\<lambda>_. ret r))))"

definition release_cached_response :: "nat \<Rightarrow> unit op" where
  "release_cached_response body =
     bind lock_cache_interface (\<lambda>_.
     bind (catch_rethrow (uncouple_entry_from_data body) unlock_cache_interface) (\<lambda>_. unlock_cache_interface))"

definition purge_cache :: "unit op" where
  "purge_cache =
     bind lock_cache_interface (\<lambda>_.
     bind (catch_rethrow
       (\<lambda>s. if is_locked_read_responses s then raise (Error ''Attempt to purge the cache with entries in use.'') s
            else delete_all_entries s)
       unlock_cache_interface) (\<lambda>_. unlock_cache_interface))"

end
