(* ===== verification/CacheProofs.thy ===== *)
theory CacheProofs
  imports HttpCache
begin

text \<open>
  The HTTP cache keeps its books: every operation that returns keeps the table, its total size, the locks
  and the files of the entries consistent. The deletions of entries share the contract \<open>entry_sweep\<close>.
\<close>

section \<open>Sequences\<close>

lemma bind_Inr_iff: "bind m f s = (Inr b, t) \<longleftrightarrow> (\<exists>a u. m s = (Inr a, u) \<and> f a u = (Inr b, t))"
  by (auto simp: bind_def split: prod.splits sum.splits)

lemma bind_result: "m s = (Inr a, u) \<Longrightarrow> bind m f s = f a u"
  by (simp add: bind_def)

lemma bind_stops: "m s = (Inl r, u) \<Longrightarrow> bind m f s = (Inl r, u)"
  by (simp add: bind_def)

lemma the_entry_Some: "h_entries s e = Some x \<Longrightarrow> the_entry e s = (Inr x, s)"
  by (simp add: the_entry_def)

lemma the_entry_iff: "the_entry e s = (Inr x, t) \<longleftrightarrow> h_entries s e = Some x \<and> t = s"
  by (auto simp: the_entry_def split: option.splits)

lemma catch_Inr_iff: "catch_rethrow m h s = (Inr b, t) \<longleftrightarrow> m s = (Inr b, t)"
  by (auto simp: catch_rethrow_def bind_def raise_def stops_def split: prod.splits sum.splits stop.splits)

named_theorems steps \<open>steps of the operations that succeed\<close>

lemmas [steps] = bind_Inr_iff the_entry_iff catch_Inr_iff
lemmas op_defs = ret_def raise_def stops_def upd_def put_entry_def free_entry_def remove_file_def

section \<open>The entries of the table\<close>

definition live :: "http_cache \<Rightarrow> nat set" where
  "live s = {e. \<exists>k ps. t_cache_table s k = Some ps \<and> Some e \<in> set ps}"

definition space :: "http_cache \<Rightarrow> nat \<Rightarrow> nat" where
  "space s e = unat (entry_disk_space (ce_size (the (h_entries s e))) (t_block_size s))"

definition name_of :: "http_cache \<Rightarrow> nat \<Rightarrow> string" where
  "name_of s e = ce_cachename (the (h_entries s e))"

definition unlocked :: "cache_entry \<Rightarrow> bool" where
  "unlocked x \<longleftrightarrow> ce_readers x = 0 \<and> \<not> ce_read_lock x \<and> \<not> ce_write_lock x"

text \<open>What deleting the entries \<open>E\<close> does before, and after, their pointers are erased.\<close>

definition forget_set :: "nat set \<Rightarrow> http_cache \<Rightarrow> http_cache" where
  "forget_set E s =
     s\<lparr>h_entries := (\<lambda>e. if e \<in> E then None else h_entries s e),
       h_files := (\<lambda>n. if \<exists>e\<in>E. n = name_of s e \<or> n = name_of s e @ CACHE_META then None else h_files s n),
       t_current_size := t_current_size s - of_nat (sum (space s) E)\<rparr>"

definition drop_set :: "nat set \<Rightarrow> http_cache \<Rightarrow> http_cache" where
  "drop_set E s = (forget_set E s)\<lparr>t_cache_table := (\<lambda>k. map_option (filter (\<lambda>p. p \<notin> Some ` E)) (t_cache_table s k))\<rparr>"

lemma forget_set_empty [simp]: "forget_set {} s = s"
  by (simp add: forget_set_def)

lemma forget_set_sel [simp]:
  "h_entries (forget_set E s) e = (if e \<in> E then None else h_entries s e)"
  "t_block_size (forget_set E s) = t_block_size s" "t_cache_table (forget_set E s) = t_cache_table s"
  "t_current_size (forget_set E s) = t_current_size s - of_nat (sum (space s) E)"
  "h_files (forget_set E s) n = (if \<exists>e\<in>E. n = name_of s e \<or> n = name_of s e @ CACHE_META then None else h_files s n)"
  by (simp_all add: forget_set_def)

lemma drop_set_sel [simp]:
  "h_entries (drop_set E s) e = (if e \<in> E then None else h_entries s e)" "h_next (drop_set E s) = h_next s"
  "h_files (drop_set E s) n = (if \<exists>e\<in>E. n = name_of s e \<or> n = name_of s e @ CACHE_META then None else h_files s n)"
  "h_dirs (drop_set E s) = h_dirs s" "h_open (drop_set E s) = h_open s" "h_next_file (drop_set E s) = h_next_file s"
  "t_cache_table (drop_set E s) k = map_option (filter (\<lambda>p. p \<notin> Some ` E)) (t_cache_table s k)"
  "t_cache_root (drop_set E s) = t_cache_root s" "t_cache_index (drop_set E s) = t_cache_index s"
  "t_block_size (drop_set E s) = t_block_size s"
  "t_current_size (drop_set E s) = t_current_size s - of_nat (sum (space s) E)"
  "t_new_entries (drop_set E s) = t_new_entries s" "t_locked_entries (drop_set E s) = t_locked_entries s"
  "d_cache_mutex (drop_set E s) = d_cache_mutex s" "d_total_size (drop_set E s) = d_total_size s"
  "d_folder_size (drop_set E s) = d_folder_size s" "d_gc_buffer (drop_set E s) = d_gc_buffer s"
  "d_max_entry_size (drop_set E s) = d_max_entry_size s" "d_open_files (drop_set E s) = d_open_files s"
  "d_default_expiration (drop_set E s) = d_default_expiration s"
  by (simp_all add: drop_set_def forget_set_def)

lemma live_drop_set [simp]: "live (drop_set E s) = live s - E"
proof -
  have "e \<in> live (drop_set E s) \<longleftrightarrow> e \<in> live s \<and> e \<notin> E" for e
  proof
    assume "e \<in> live (drop_set E s)"
    then obtain k ps where "t_cache_table s k = Some ps" "Some e \<in> set ps" "Some e \<notin> Some ` E" by (auto simp: live_def)
    then show "e \<in> live s \<and> e \<notin> E" by (auto simp: live_def)
  next
    assume "e \<in> live s \<and> e \<notin> E"
    then obtain k ps where "t_cache_table s k = Some ps" "Some e \<in> set ps" "e \<notin> E" by (auto simp: live_def)
    then have "t_cache_table (drop_set E s) k = Some (filter (\<lambda>p. p \<notin> Some ` E) ps) \<and> Some e \<in> set (filter (\<lambda>p. p \<notin> Some ` E) ps)" by auto
    then show "e \<in> live (drop_set E s)" unfolding live_def by blast
  qed
  then show ?thesis by blast
qed

lemma name_space_outside:
  "e \<notin> E \<Longrightarrow> name_of (drop_set E s) e = name_of s e \<and> space (drop_set E s) e = space s e"
  "e \<notin> E \<Longrightarrow> name_of (forget_set E s) e = name_of s e \<and> space (forget_set E s) e = space s e"
  by (simp_all add: name_of_def space_def)

lemma space_outside: "e \<notin> E \<Longrightarrow> space (forget_set E s) e = space s e"
  by (simp add: space_def)

lemma forget_forget:
  assumes "finite E" "finite F" "E \<inter> F = {}"
  shows "forget_set F (forget_set E s) = forget_set (E \<union> F) s"
proof -
  have "sum (space (forget_set E s)) F = sum (space s) F"
    using assms(3) by (intro sum.cong refl) (metis disjoint_iff name_space_outside(2))
  moreover have "(\<exists>e\<in>F. n = name_of (forget_set E s) e \<or> n = name_of (forget_set E s) e @ CACHE_META) \<longleftrightarrow>
      (\<exists>e\<in>F. n = name_of s e \<or> n = name_of s e @ CACHE_META)" for n
    using assms(3) name_space_outside(2) by (metis disjoint_iff)
  moreover have "sum (space s) (E \<union> F) = sum (space s) E + sum (space s) F" using assms by (simp add: sum.union_disjoint)
  ultimately show ?thesis
    by (intro http_cache.equality) (auto simp: fun_eq_iff, simp_all add: forget_set_def)
qed

lemma drop_drop:
  assumes "finite E" "finite F" "E \<inter> F = {}"
  shows "drop_set F (drop_set E s) = drop_set (E \<union> F) s"
proof -
  have "drop_set F (drop_set E s) = (forget_set F (forget_set E s))\<lparr>t_cache_table := t_cache_table (drop_set (E \<union> F) s)\<rparr>"
  proof -
    have "space (drop_set E s) = space (forget_set E s)" "name_of (drop_set E s) = name_of (forget_set E s)"
      by (simp_all add: space_def name_of_def fun_eq_iff)
    then show ?thesis
      by (intro http_cache.equality)
        (auto simp: fun_eq_iff option.map_comp o_def image_Un intro!: map_option_cong, simp_all add: drop_set_def forget_set_def)
  qed
  then show ?thesis using assms by (simp add: forget_forget drop_set_def)
qed

lemma unat_sub_nat: "n \<le> unat (a :: 64 word) \<Longrightarrow> unat (a - of_nat n) = unat a - n"
proof -
  assume a: "n \<le> unat a"
  moreover have "unat a < 2 ^ LENGTH(64)" by (rule unsigned_less)
  ultimately have "n < 2 ^ 64" by simp
  then have "unat (of_nat n :: 64 word) = n" by (simp add: unsigned_of_nat take_bit_nat_eq_self)
  then show ?thesis using a by (simp add: unat_sub word_le_nat_alt)
qed

lemma unat_ucast64 [simp]: "unat (ucast w :: 64 word) = unat (w :: 32 word)"
  by transfer simp

lemma scast_small:
  assumes "unat (w :: 32 word) < 2 ^ 31"
  shows "(scast w :: 64 word) = ucast w"
proof -
  have "uint w = int (unat w)" by simp
  moreover have "int (unat w) < int (2 ^ 31)" using assms by (simp only: of_nat_less_iff)
  ultimately have "uint w < 2 ^ 31" by simp
  then have "sint w = uint w" by (subst sint_uint, subst signed_take_bit_int_eq_self) (simp_all add: order_trans [of _ 0])
  then show ?thesis by (simp add: scast_eq)
qed

section \<open>Deleting entries that satisfy a predicate\<close>

text \<open>
  The contract of the functors that delete entries: nothing happens to an entry that does not satisfy the
  predicate; one that does, and is unlocked, is deleted.
\<close>

locale entry_sweep =
  fixes f :: "nat \<Rightarrow> bool op" and P :: "cache_entry \<Rightarrow> bool"
  assumes keeps: "h_entries s e = Some x \<Longrightarrow> \<not> P x \<Longrightarrow> f e s = (Inr False, s)"
    and deletes: "h_entries s e = Some x \<Longrightarrow> P x \<Longrightarrow> unlocked x \<Longrightarrow> t_block_size s \<noteq> 0 \<Longrightarrow>
      space s e \<le> unat (t_current_size s) \<Longrightarrow> f e s = (Inr True, forget_set {e} s)"
begin

definition chosen :: "http_cache \<Rightarrow> nat option list \<Rightarrow> nat set" where
  "chosen s ps = {e. Some e \<in> set ps \<and> (\<exists>x. h_entries s e = Some x \<and> P x)}"

lemma chosen_finite [simp]: "finite (chosen s ps)"
proof -
  have "chosen s ps \<subseteq> the ` set ps" by (force simp: chosen_def)
  then show ?thesis by (rule finite_subset) simp
qed

lemma for_each_deletes:
  assumes "distinct ps" "None \<notin> set ps" "t_block_size s \<noteq> 0" "sum (space s) (chosen s ps) \<le> unat (t_current_size s)"
    and "\<forall>e. Some e \<in> set ps \<longrightarrow> (\<exists>x. h_entries s e = Some x \<and> (P x \<longrightarrow> unlocked x))"
  shows "\<exists>qs. for_each_entry f ps s = (Inr (), qs, forget_set (chosen s ps) s) \<and>
    filter (\<lambda>p. p \<noteq> None) qs = filter (\<lambda>p. p \<notin> Some ` chosen s ps) ps"
  using assms
proof (induction ps arbitrary: s)
  case Nil
  then show ?case by (simp add: chosen_def)
next
  case (Cons p ps)
  then obtain e x where e: "p = Some e" "h_entries s e = Some x" "P x \<longrightarrow> unlocked x" by (cases p) auto
  show ?case
  proof (cases "P x")
    case False
    have c: "chosen s (Some e # ps) = chosen s ps" using e False by (auto simp: chosen_def)
    obtain qs where "for_each_entry f ps s = (Inr (), qs, forget_set (chosen s ps) s)"
      "filter (\<lambda>p. p \<noteq> None) qs = filter (\<lambda>p. p \<notin> Some ` chosen s ps) ps"
      using Cons.IH [of s] Cons.prems c e(1) by auto
    moreover have "e \<notin> chosen s ps" using e False by (auto simp: chosen_def)
    ultimately show ?thesis using e keeps [OF e(2) False] by (auto simp: c)
  next
    case True
    define t where "t = forget_set {e} s"
    have ne: "Some e \<notin> set ps" using Cons.prems(1) e(1) by simp
    then have d: "e \<notin> chosen s ps" by (auto simp: chosen_def)
    have c: "chosen s (p # ps) = insert e (chosen s ps)" using e True by (auto simp: chosen_def)
    have ct: "chosen t ps = chosen s ps" using ne by (auto simp: chosen_def t_def split: if_splits)
    have sp: "sum (space s) (insert e (chosen s ps)) = space s e + sum (space s) (chosen s ps)" using d by simp
    have "sum (space t) (chosen s ps) = sum (space s) (chosen s ps)"
      unfolding t_def using d by (intro sum.cong refl space_outside) auto
    then have st: "sum (space t) (chosen t ps) = sum (space s) (chosen s ps)" by (simp only: ct)
    have "unat (t_current_size t) = unat (t_current_size s) - space s e"
      using Cons.prems(4) sp c unat_sub_nat [of "space s e" "t_current_size s"] by (simp add: t_def)
    then have "sum (space t) (chosen t ps) \<le> unat (t_current_size t)" using Cons.prems(4) sp c st by simp
    moreover have "\<exists>y. h_entries t e' = Some y \<and> (P y \<longrightarrow> unlocked y)" if "Some e' \<in> set ps" for e'
      using that ne Cons.prems(5) by (auto simp: t_def)
    ultimately obtain qs where q: "for_each_entry f ps t = (Inr (), qs, forget_set (chosen t ps) t)"
      "filter (\<lambda>p. p \<noteq> None) qs = filter (\<lambda>p. p \<notin> Some ` chosen t ps) ps"
      using Cons.IH [of t] Cons.prems(1-3) by (auto simp: t_def)
    have "forget_set (chosen s ps) t = forget_set (chosen s (p # ps)) s"
      unfolding c t_def using d by (subst forget_forget) auto
    then have "forget_set (chosen t ps) t = forget_set (chosen s (p # ps)) s" by (simp only: ct)
    moreover have "f e s = (Inr True, t)"
      unfolding t_def using e True Cons.prems(3,4) sp c by (intro deletes) auto
    moreover have "filter (\<lambda>q. q \<notin> Some ` chosen s ps) ps = filter (\<lambda>q. q \<notin> Some ` chosen s (p # ps)) ps"
      unfolding c using ne by (intro filter_cong) auto
    moreover have "e \<in> chosen s (Some e # ps)" using e True by (auto simp: chosen_def)
    ultimately show ?thesis using q e(1) by (auto simp: ct)
  qed
qed

lemma sweep_slot_drops:
  assumes "distinct ps" "None \<notin> set ps" "t_block_size s \<noteq> 0" "sum (space s) (chosen s ps) \<le> unat (t_current_size s)"
    and "\<forall>e. Some e \<in> set ps \<longrightarrow> (\<exists>x. h_entries s e = Some x \<and> (P x \<longrightarrow> unlocked x))"
    and "t_cache_table s k = Some ps" "\<forall>j qs. j \<noteq> k \<longrightarrow> t_cache_table s j = Some qs \<longrightarrow> set qs \<inter> set ps = {}"
  shows "sweep_slot f k s = (Inr (), drop_set (chosen s ps) s)"
proof -
  obtain qs where q: "for_each_entry f ps s = (Inr (), qs, forget_set (chosen s ps) s)"
    "filter (\<lambda>p. p \<noteq> None) qs = filter (\<lambda>p. p \<notin> Some ` chosen s ps) ps"
    using for_each_deletes [OF assms(1-5)] by blast
  have other: "filter (\<lambda>p. p \<notin> Some ` chosen s ps) rs = rs" if "t_cache_table s j = Some rs" "j \<noteq> k" for j rs
    using assms(7) that by (intro filter_True) (auto simp: chosen_def)
  have "(t_cache_table s)(k \<mapsto> filter (\<lambda>p. p \<notin> Some ` chosen s ps) ps)
      = (\<lambda>k. map_option (filter (\<lambda>p. p \<notin> Some ` chosen s ps)) (t_cache_table s k))"
  proof
    fix j
    show "((t_cache_table s)(k \<mapsto> filter (\<lambda>p. p \<notin> Some ` chosen s ps) ps)) j
        = map_option (filter (\<lambda>p. p \<notin> Some ` chosen s ps)) (t_cache_table s j)"
      using assms(6) other by (cases "t_cache_table s j") auto
  qed
  then show ?thesis using q assms(6) by (simp add: sweep_slot_def drop_set_def)
qed

end

section \<open>The books\<close>

text \<open>
  The table: slots within the bounds, pointers that are distinct and not null, each entry in the slot of its
  URL, no URL twice, and the total size is that of the entries. The bound on the size of an entry is
  that of the type \<^verbatim>\<open>int\<close>.
\<close>

definition table_ok :: "http_cache \<Rightarrow> bool" where
  "table_ok s \<longleftrightarrow>
     t_block_size s \<noteq> 0 \<and>
     (\<forall>k ps. t_cache_table s k = Some ps \<longrightarrow> k < CACHE_TABLE_SIZE \<and> distinct ps \<and> None \<notin> set ps \<and>
        (\<forall>e. Some e \<in> set ps \<longrightarrow> e < h_next s \<and> (\<exists>x. h_entries s e = Some x \<and> get_hash (ce_url x) = k \<and> ce_hash x = int k))) \<and>
     (\<forall>e\<in>live s. \<forall>e'\<in>live s. ce_url (the (h_entries s e)) = ce_url (the (h_entries s e')) \<longrightarrow> e = e') \<and>
     unat (t_current_size s) = sum (space s) (live s) \<and> (\<forall>e\<in>live s. space s e < 2 ^ 31)"

definition reads :: "http_cache \<Rightarrow> nat \<Rightarrow> nat set" where
  "reads s e = {f. m_find (t_locked_entries s) f = Some (Some e)}"

text \<open>The locks: an entry has as many readers as open bodies, and is locked when it has one; it is never locked for writing between calls.\<close>

definition locks_ok :: "http_cache \<Rightarrow> bool" where
  "locks_ok s \<longleftrightarrow>
     m_ok (t_locked_entries s) \<and>
     (\<forall>f p. m_find (t_locked_entries s) f = Some p \<longrightarrow> f < h_next_file s \<and> h_open s f \<noteq> None \<and> (\<exists>e\<in>live s. p = Some e)) \<and>
     (\<forall>e\<in>live s. \<forall>x. h_entries s e = Some x \<longrightarrow>
        ce_readers x = int (card (reads s e)) \<and> (ce_read_lock x \<longleftrightarrow> ce_readers x \<noteq> 0) \<and> \<not> ce_write_lock x)"

text \<open>The files: the body and the headers of every entry are there, under names that \<^verbatim>\<open>mkstemp\<close> made.\<close>

definition made_name :: "string \<Rightarrow> bool" where
  "made_name n \<longleftrightarrow> 6 \<le> length n \<and> CHR ''.'' \<notin> set (drop (length n - 6) n)"

definition files_ok :: "http_cache \<Rightarrow> bool" where
  "files_ok s \<longleftrightarrow>
     (\<forall>e\<in>live s. made_name (name_of s e) \<and> h_files s (name_of s e) \<noteq> None \<and> h_files s (name_of s e @ CACHE_META) \<noteq> None) \<and>
     (\<forall>e\<in>live s. \<forall>e'\<in>live s. name_of s e = name_of s e' \<longrightarrow> e = e')"

definition cache_inv :: "http_cache \<Rightarrow> bool" where
  "cache_inv s \<longleftrightarrow> table_ok s \<and> locks_ok s \<and> files_ok s"

lemma made_name_meta: "made_name n \<Longrightarrow> n \<noteq> m @ CACHE_META"
  by (auto simp: made_name_def CACHE_META_def)

lemma slot_ok:
  assumes "table_ok s" "t_cache_table s k = Some ps"
  shows "k < CACHE_TABLE_SIZE" "distinct ps" "None \<notin> set ps"
    "Some e \<in> set ps \<Longrightarrow> e < h_next s"
    "Some e \<in> set ps \<Longrightarrow> \<exists>x. h_entries s e = Some x \<and> get_hash (ce_url x) = k \<and> ce_hash x = int k"
  using assms unfolding table_ok_def by blast+

lemma table_facts:
  assumes "table_ok s"
  shows "t_block_size s \<noteq> 0" "unat (t_current_size s) = sum (space s) (live s)" "e \<in> live s \<Longrightarrow> space s e < 2 ^ 31"
    "e \<in> live s \<Longrightarrow> e' \<in> live s \<Longrightarrow> ce_url (the (h_entries s e)) = ce_url (the (h_entries s e')) \<Longrightarrow> e = e'"
  using assms unfolding table_ok_def by blast+

lemma locks_facts:
  assumes "locks_ok s"
  shows "m_ok (t_locked_entries s)"
    "m_find (t_locked_entries s) f = Some p \<Longrightarrow> f < h_next_file s"
    "m_find (t_locked_entries s) f = Some p \<Longrightarrow> h_open s f \<noteq> None"
    "m_find (t_locked_entries s) f = Some p \<Longrightarrow> \<exists>e\<in>live s. p = Some e"
    "e \<in> live s \<Longrightarrow> h_entries s e = Some x \<Longrightarrow> ce_readers x = int (card (reads s e))"
    "e \<in> live s \<Longrightarrow> h_entries s e = Some x \<Longrightarrow> ce_read_lock x \<longleftrightarrow> ce_readers x \<noteq> 0"
    "e \<in> live s \<Longrightarrow> h_entries s e = Some x \<Longrightarrow> \<not> ce_write_lock x"
  using assms unfolding locks_ok_def by blast+

lemma locks_okI:
  assumes "m_ok (t_locked_entries s)"
    "\<And>f p. m_find (t_locked_entries s) f = Some p \<Longrightarrow> f < h_next_file s \<and> h_open s f \<noteq> None \<and> (\<exists>e\<in>live s. p = Some e)"
    "\<And>e x. e \<in> live s \<Longrightarrow> h_entries s e = Some x \<Longrightarrow>
      ce_readers x = int (card (reads s e)) \<and> (ce_read_lock x \<longleftrightarrow> ce_readers x \<noteq> 0) \<and> \<not> ce_write_lock x"
  shows "locks_ok s"
  using assms unfolding locks_ok_def by blast

lemma files_okI:
  assumes "\<And>e. e \<in> live s \<Longrightarrow> made_name (name_of s e) \<and> h_files s (name_of s e) \<noteq> None \<and> h_files s (name_of s e @ CACHE_META) \<noteq> None"
    "\<And>e e'. e \<in> live s \<Longrightarrow> e' \<in> live s \<Longrightarrow> name_of s e = name_of s e' \<Longrightarrow> e = e'"
  shows "files_ok s"
  using assms unfolding files_ok_def by blast

lemma files_facts:
  assumes "files_ok s"
  shows "e \<in> live s \<Longrightarrow> made_name (name_of s e)" "e \<in> live s \<Longrightarrow> h_files s (name_of s e) \<noteq> None"
    "e \<in> live s \<Longrightarrow> h_files s (name_of s e @ CACHE_META) \<noteq> None"
    "e \<in> live s \<Longrightarrow> e' \<in> live s \<Longrightarrow> name_of s e = name_of s e' \<Longrightarrow> e = e'"
  using assms unfolding files_ok_def by blast+

lemma live_finite:
  assumes "table_ok s"
  shows "finite (live s)"
proof -
  have "live s \<subseteq> (\<Union>k\<in>{..<CACHE_TABLE_SIZE}. {e. Some e \<in> (case t_cache_table s k of None \<Rightarrow> {} | Some ps \<Rightarrow> set ps)})"
  proof
    fix e assume "e \<in> live s"
    then obtain k ps where k: "t_cache_table s k = Some ps" "Some e \<in> set ps" by (auto simp: live_def)
    with slot_ok(1) [OF assms k(1)] show "e \<in> (\<Union>k\<in>{..<CACHE_TABLE_SIZE}. {e. Some e \<in> (case t_cache_table s k of None \<Rightarrow> {} | Some ps \<Rightarrow> set ps)})" by force
  qed
  moreover have "finite {e. Some e \<in> (case t_cache_table s k of None \<Rightarrow> {} | Some ps \<Rightarrow> set ps)}" for k
  proof (cases "t_cache_table s k")
    case (Some ps)
    have "{e. Some e \<in> set ps} \<subseteq> the ` set ps" by force
    then show ?thesis using Some by (simp add: finite_subset)
  qed simp
  ultimately show ?thesis by (meson finite_UN_I finite_lessThan finite_subset)
qed

lemma live_entry:
  assumes "table_ok s" "e \<in> live s"
  obtains x where "h_entries s e = Some x" "ce_hash x = int (get_hash (ce_url x))" "get_hash (ce_url x) < CACHE_TABLE_SIZE"
    "e < h_next s"
proof -
  obtain k ps where k: "t_cache_table s k = Some ps" "Some e \<in> set ps" using assms(2) by (auto simp: live_def)
  from slot_ok [OF assms(1) this(1)] this(2) that show thesis by blast
qed

lemma locks_unlocked:
  assumes "locks_ok s" "e \<in> live s" "h_entries s e = Some x" "ce_readers x = 0"
  shows "unlocked x"
  using locks_facts [OF assms(1)] assms(2-4) by (auto simp: unlocked_def)

text \<open>Deleting unlocked entries keeps the books.\<close>

lemma drop_set_inv:
  assumes "cache_inv s" "E \<subseteq> live s" "\<forall>e\<in>E. reads s e = {}"
  shows "cache_inv (drop_set E s)"
proof -
  have t: "table_ok s" and l: "locks_ok s" and f: "files_ok s" using assms(1) by (auto simp: cache_inv_def)
  have fin: "finite (live s)" "finite E" using live_finite [OF t] assms(2) finite_subset by auto
  have sp: "space (drop_set E s) e = space s e" "name_of (drop_set E s) e = name_of s e" if "e \<notin> E" for e
    using name_space_outside(1) [OF that] by auto
  have size: "sum (space s) (live s) = sum (space s) (live s - E) + sum (space s) E"
    using fin assms(2) by (simp add: sum.subset_diff)
  have "sum (space (drop_set E s)) (live s - E) = sum (space s) (live s - E)" by (intro sum.cong refl) (simp add: sp)
  then have cur: "unat (t_current_size (drop_set E s)) = sum (space (drop_set E s)) (live (drop_set E s))"
    using t size unat_sub_nat [of "sum (space s) E" "t_current_size s"] by (simp add: table_ok_def)
  have "table_ok (drop_set E s)"
    using t cur unfolding table_ok_def by (auto simp: sp)
  moreover have "locks_ok (drop_set E s)"
  proof (rule locks_okI)
    show "m_ok (t_locked_entries (drop_set E s))" using locks_facts(1) [OF l] by simp
  next
    fix g p assume "m_find (t_locked_entries (drop_set E s)) g = Some p"
    then have g: "m_find (t_locked_entries s) g = Some p" by simp
    then obtain e where e: "e \<in> live s" "p = Some e" using locks_facts(4) [OF l] by blast
    then have "g \<in> reads s e" using g by (simp add: reads_def)
    then have "e \<notin> E" using assms(3) by blast
    then show "g < h_next_file (drop_set E s) \<and> h_open (drop_set E s) g \<noteq> None \<and> (\<exists>e\<in>live (drop_set E s). p = Some e)"
      using e locks_facts(2,3) [OF l g] by simp
  next
    fix e x assume "e \<in> live (drop_set E s)" "h_entries (drop_set E s) e = Some x"
    moreover have "reads (drop_set E s) e = reads s e" by (simp add: reads_def)
    ultimately show "ce_readers x = int (card (reads (drop_set E s) e)) \<and> (ce_read_lock x \<longleftrightarrow> ce_readers x \<noteq> 0) \<and> \<not> ce_write_lock x"
      using locks_facts(5-7) [OF l, of e x] by simp
  qed
  moreover have "files_ok (drop_set E s)"
  proof (rule files_okI)
    fix e assume e: "e \<in> live (drop_set E s)"
    have "name_of s e \<noteq> name_of s g \<and> name_of s e \<noteq> name_of s g @ CACHE_META \<and> name_of s e @ CACHE_META \<noteq> name_of s g" if "g \<in> E" for g
      using that e assms(2) files_facts [OF f] made_name_meta by (metis Diff_iff live_drop_set subsetD)
    then show "made_name (name_of (drop_set E s) e) \<and> h_files (drop_set E s) (name_of (drop_set E s) e) \<noteq> None \<and>
        h_files (drop_set E s) (name_of (drop_set E s) e @ CACHE_META) \<noteq> None"
      using e files_facts(1-3) [OF f, of e] by (auto simp: sp)
  next
    fix e e' assume "e \<in> live (drop_set E s)" "e' \<in> live (drop_set E s)" "name_of (drop_set E s) e = name_of (drop_set E s) e'"
    then show "e = e'" using files_facts(4) [OF f, of e e'] by (simp add: sp)
  qed
  ultimately show ?thesis by (simp add: cache_inv_def)
qed

lemma reads_finite [simp]: "finite (reads s e)"
proof -
  have "reads s e \<subseteq> fst ` set (t_locked_entries s)" by (force simp: reads_def m_find_def dest: map_of_SomeD)
  then show ?thesis by (rule finite_subset) simp
qed

lemma unlocked_no_reads:
  assumes "locks_ok s" "e \<in> live s" "h_entries s e = Some x" "ce_readers x = 0"
  shows "reads s e = {}"
  using locks_facts(5) [OF assms(1-3)] assms(4) by simp

lemma slot_live: "t_cache_table s k = Some ps \<Longrightarrow> Some e \<in> set ps \<Longrightarrow> e \<in> live s"
  by (auto simp: live_def)

lemma slots_disjoint:
  assumes "table_ok s" "t_cache_table s k = Some ps" "t_cache_table s j = Some qs" "j \<noteq> k"
  shows "set qs \<inter> set ps = {}"
proof (rule ccontr)
  assume "set qs \<inter> set ps \<noteq> {}"
  then obtain p where "p \<in> set qs" "p \<in> set ps" by blast
  moreover from this have "p \<noteq> None" using slot_ok(3) [OF assms(1,2)] by metis
  moreover from this obtain e where "p = Some e" by blast
  ultimately show False using slot_ok(5) [OF assms(1,2), of e] slot_ok(5) [OF assms(1,3), of e] assms(4) by auto
qed

context entry_sweep
begin

definition victims :: "http_cache \<Rightarrow> nat list \<Rightarrow> nat set" where
  "victims s ks = {e. \<exists>k\<in>set ks. \<exists>ps. t_cache_table s k = Some ps \<and> e \<in> chosen s ps}"

lemma sweep_slots_drops:
  assumes "cache_inv s" "distinct ks"
    and "\<forall>e\<in>live s. P (the (h_entries s e)) \<longrightarrow> unlocked (the (h_entries s e))"
  shows "sweep_slots f ks s = (Inr (), drop_set (victims s ks) s)"
  using assms
proof (induction ks arbitrary: s)
  case Nil
  have "(\<lambda>k. map_option (filter (\<lambda>p. True)) (t_cache_table s k)) = t_cache_table s"
    by (auto simp: fun_eq_iff map_option_case split: option.splits)
  then show ?case by (simp add: victims_def ret_def drop_set_def)
next
  case (Cons k ks)
  have t: "table_ok s" using Cons.prems by (simp add: cache_inv_def)
  have size: "sum (space s) E \<le> unat (t_current_size s)" if "E \<subseteq> live s" for E
  proof -
    have "sum (space s) E \<le> sum (space s) (live s)" using live_finite [OF t] that by (intro sum_mono2) auto
    then show ?thesis using t by (simp add: table_ok_def)
  qed
  show ?case
  proof (cases "t_cache_table s k")
    case None
    then have "victims s (k # ks) = victims s ks" by (auto simp: victims_def)
    moreover have "sweep_slot f k s = (Inr (), s)" using None by (simp add: sweep_slot_def)
    ultimately show ?thesis using Cons by (simp add: bind_def)
  next
    case (Some ps)
    define C where "C = chosen s ps"
    have CL: "C \<subseteq> live s" using slot_live [OF Some] by (auto simp: C_def chosen_def)
    have sl: "distinct ps" "None \<notin> set ps" "\<forall>e. Some e \<in> set ps \<longrightarrow> (\<exists>x. h_entries s e = Some x \<and> (P x \<longrightarrow> unlocked x))"
      using slot_ok [OF t Some] Cons.prems(3) slot_live [OF Some] by fastforce+
    have one: "sweep_slot f k s = (Inr (), drop_set C s)"
      unfolding C_def
      using table_facts(1) [OF t] sl size CL slots_disjoint [OF t Some] Some by (intro sweep_slot_drops) (auto simp: table_ok_def C_def)
    have "reads s e = {}" if e: "e \<in> C" for e
    proof -
      obtain x where x: "h_entries s e = Some x" "P x" using e by (auto simp: C_def chosen_def)
      then have "unlocked x" using Cons.prems(3) CL e by force
      then show ?thesis using unlocked_no_reads [of s e x] x CL e Cons.prems(1) by (auto simp: cache_inv_def unlocked_def)
    qed
    then have inv: "cache_inv (drop_set C s)" using drop_set_inv [OF Cons.prems(1) CL] by blast
    have "\<forall>e\<in>live (drop_set C s). P (the (h_entries (drop_set C s) e)) \<longrightarrow> unlocked (the (h_entries (drop_set C s) e))"
      using Cons.prems(3) by simp
    then have rest: "sweep_slots f ks (drop_set C s) = (Inr (), drop_set (victims (drop_set C s) ks) (drop_set C s))"
      using Cons.IH inv Cons.prems(2) by simp
    have outside: "e \<notin> C" if "t_cache_table s j = Some qs" "j \<noteq> k" "Some e \<in> set qs" for e j qs
      using slots_disjoint [OF t Some that(1,2)] that(3) by (auto simp: C_def chosen_def)
    have keep: "chosen (drop_set C s) (filter (\<lambda>p. p \<notin> Some ` C) qs) = chosen s qs" if "t_cache_table s j = Some qs" "j \<noteq> k" for j qs
      using outside [OF that] by (auto simp: chosen_def)
    have v: "victims (drop_set C s) ks = victims s ks"
    proof -
      have "(\<exists>qs. t_cache_table (drop_set C s) j = Some qs \<and> e \<in> chosen (drop_set C s) qs) \<longleftrightarrow>
          (\<exists>qs. t_cache_table s j = Some qs \<and> e \<in> chosen s qs)" if "j \<noteq> k" for j e
        using keep that by (cases "t_cache_table s j") auto
      moreover have "j \<noteq> k" if "j \<in> set ks" for j using that Cons.prems(2) by auto
      ultimately show ?thesis unfolding victims_def by blast
    qed
    have vs: "victims s (k # ks) = C \<union> victims s ks" using Some by (auto simp: victims_def C_def)
    have VL: "victims s ks \<subseteq> live s" using slot_live by (auto simp: victims_def chosen_def)
    have "C \<inter> victims s ks = {}"
    proof -
      have "j \<noteq> k" if "j \<in> set ks" for j using that Cons.prems(2) by auto
      then show ?thesis using outside by (fastforce simp: victims_def chosen_def)
    qed
    then have "drop_set (victims s ks) (drop_set C s) = drop_set (victims s (k # ks)) s"
      unfolding vs using live_finite [OF t] CL VL finite_subset by (intro drop_drop) auto
    then show ?thesis using one rest v by (simp add: bind_def)
  qed
qed

text \<open>The whole table: the entries that satisfy the predicate go, and the books stay consistent.\<close>

lemma sweep_table:
  assumes "cache_inv s" "\<forall>e\<in>live s. P (the (h_entries s e)) \<longrightarrow> unlocked (the (h_entries s e))"
  defines "E \<equiv> {e \<in> live s. P (the (h_entries s e))}"
  shows "sweep_slots f [0..<CACHE_TABLE_SIZE] s = (Inr (), drop_set E s) \<and> cache_inv (drop_set E s)"
proof -
  have t: "table_ok s" and l: "locks_ok s" using assms(1) by (auto simp: cache_inv_def)
  have "victims s [0..<CACHE_TABLE_SIZE] = E"
  proof (intro set_eqI iffI)
    fix e assume "e \<in> victims s [0..<CACHE_TABLE_SIZE]"
    then show "e \<in> E" using slot_live by (fastforce simp: victims_def chosen_def E_def)
  next
    fix e assume e: "e \<in> E"
    then obtain k ps where k: "t_cache_table s k = Some ps" "Some e \<in> set ps" by (auto simp: live_def E_def)
    moreover have "k < CACHE_TABLE_SIZE" using slot_ok(1) [OF t k(1)] .
    moreover have "\<exists>x. h_entries s e = Some x \<and> P x" using slot_ok(5) [OF t k] e by (auto simp: E_def)
    ultimately show "e \<in> victims s [0..<CACHE_TABLE_SIZE]" by (force simp: victims_def chosen_def)
  qed
  then have "sweep_slots f [0..<CACHE_TABLE_SIZE] s = (Inr (), drop_set E s)"
    using sweep_slots_drops [OF assms(1) _ assms(2)] by simp
  moreover have "reads s e = {}" if "e \<in> E" for e
  proof -
    have "e \<in> live s" using that by (simp add: E_def)
    then obtain x where "h_entries s e = Some x" using live_entry [OF t] by blast
    then show ?thesis using unlocked_no_reads [OF l, of e x] that assms(2) by (force simp: E_def unlocked_def)
  qed
  then have "cache_inv (drop_set E s)" by (intro drop_set_inv [OF assms(1)]) (auto simp: E_def)
  ultimately show ?thesis by blast
qed

end

section \<open>The functors satisfy the contract\<close>

lemma remove_one:
  assumes "h_entries s e = Some x" "t_block_size s \<noteq> 0" "space s e \<le> unat (t_current_size s)" "ce_readers x = 0"
  shows "remove_cache_entry e s = (Inr (), (forget_set {e} s)\<lparr>h_entries := h_entries s\<rparr>)"
proof -
  have "unat (ucast (entry_disk_space (ce_size x) (t_block_size s)) :: 64 word) = space s e"
    using assms(1) by (simp add: space_def)
  moreover have "(ucast (entry_disk_space (ce_size x) (t_block_size s)) :: 64 word) = of_nat (space s e)"
    using assms(1) by (simp add: space_def of_nat_unat)
  ultimately show ?thesis
    using assms by (auto simp: remove_cache_entry_def bind_def the_entry_def op_defs forget_set_def name_of_def word_less_nat_alt fun_eq_iff)
qed

lemma forget_one:
  assumes "h_entries s e = Some x" "t_block_size s \<noteq> 0" "space s e \<le> unat (t_current_size s)" "ce_readers x = 0"
  shows "bind (remove_cache_entry e) (\<lambda>_. bind (free_entry e) (\<lambda>_. ret True)) s = (Inr True, forget_set {e} s)"
  by (auto simp: bind_def remove_one [OF assms] op_defs forget_set_def fun_eq_iff)

lemma delete_if_sweep: "entry_sweep (delete_if Q) Q"
proof
  show "delete_if Q e s = (Inr False, s)" if "h_entries s e = Some x" "\<not> Q x" for s e x
    using that by (simp add: delete_if_def bind_def the_entry_def ret_def)
  show "delete_if Q e s = (Inr True, forget_set {e} s)"
    if "h_entries s e = Some x" "Q x" "unlocked x" "t_block_size s \<noteq> 0" "space s e \<le> unat (t_current_size s)" for s e x
    using that forget_one by (simp add: delete_if_def bind_def the_entry_def unlocked_def)
qed

interpretation deletion: entry_sweep "delete_if Q" Q for Q
  by (rule delete_if_sweep)

lemma delete_url_sweep: "entry_sweep (delete_url url) (\<lambda>x. ce_url x = url)"
proof
  show "delete_url url e s = (Inr False, s)" if "h_entries s e = Some x" "\<not> ce_url x = url" for s e x
    using that by (simp add: delete_url_def bind_def the_entry_def ret_def)
  show "delete_url url e s = (Inr True, forget_set {e} s)"
    if "h_entries s e = Some x" "ce_url x = url" "unlocked x" "t_block_size s \<noteq> 0" "space s e \<le> unat (t_current_size s)" for s e x
  proof -
    define y where "y = x\<lparr>ce_read_lock := True, ce_write_lock := True\<rparr>"
    define t where "t = s\<lparr>h_entries := (h_entries s)(e \<mapsto> y)\<rparr>"
    have "lock_write_response e s = (Inr (), t)"
      using that(1,3) by (simp add: lock_write_response_def bind_def the_entry_def op_defs unlocked_def t_def y_def)
    moreover have "remove_cache_entry e t = (Inr (), (forget_set {e} s)\<lparr>h_entries := (h_entries s)(e \<mapsto> y)\<rparr>)"
      using that remove_one [of t e y] by (simp add: t_def y_def space_def unlocked_def forget_set_def name_of_def cong: if_cong)
    ultimately show ?thesis
      using that(1,2) by (simp add: delete_url_def bind_def the_entry_def unlock_write_response_def op_defs y_def forget_set_def fun_eq_iff cong: if_cong)
  qed
qed

interpretation url_deletion: entry_sweep "delete_url url" "\<lambda>x. ce_url x = url" for url
  by (rule delete_url_sweep)

end
