(* ===== verification/CacheOps.thy ===== *)
theory CacheOps
  imports CacheProofs
begin

text \<open>
  What the operations of the HTTP cache do to a cache whose books are in order: finding and removing an
  entry, storing a response, collecting garbage, reading, releasing and updating.
\<close>

lemma drop_set_empty: "drop_set {} s = s"
proof -
  have "(\<lambda>k. map_option (filter (\<lambda>p. True)) (t_cache_table s k)) = t_cache_table s"
    by (auto simp: fun_eq_iff map_option_case split: option.splits)
  then show ?thesis by (simp add: drop_set_def)
qed

section \<open>Finding and removing an entry\<close>

definition holds_url :: "http_cache \<Rightarrow> string \<Rightarrow> nat \<Rightarrow> cache_entry \<Rightarrow> bool" where
  "holds_url s url e x \<longleftrightarrow> e \<in> live s \<and> h_entries s e = Some x \<and> ce_url x = url"

lemma holds_unique:
  assumes "table_ok s" "holds_url s url e x" "holds_url s url e' x'"
  shows "e = e' \<and> x = x'"
  using assms table_facts(4) [of s e e'] by (auto simp: holds_url_def)

lemma entry_with_url_finds:
  assumes "\<forall>e. Some e \<in> set ps \<longrightarrow> h_entries s e \<noteq> None"
  shows "\<exists>r. entry_with_url s url ps = Inr r \<and>
    (case r of
       None \<Rightarrow> \<forall>e. Some e \<in> set ps \<longrightarrow> ce_url (the (h_entries s e)) \<noteq> url
     | Some e \<Rightarrow> Some e \<in> set ps \<and> ce_url (the (h_entries s e)) = url)"
  using assms
proof (induction s url ps rule: entry_with_url.induct)
  case (3 s url e ps)
  then obtain x where x: "h_entries s e = Some x" by auto
  show ?case
  proof (cases "ce_url x = url")
    case False
    then obtain r where "entry_with_url s url ps = Inr r" "(case r of
         None \<Rightarrow> \<forall>e. Some e \<in> set ps \<longrightarrow> ce_url (the (h_entries s e)) \<noteq> url
       | Some e \<Rightarrow> Some e \<in> set ps \<and> ce_url (the (h_entries s e)) = url)" using 3 x by auto
    then show ?thesis using x False by (auto split: option.splits)
  qed (simp add: x)
qed (auto split: option.splits)

lemma find_entry_some:
  assumes "table_ok s" "holds_url s url e x"
  shows "find_entry (get_hash url) url s = (Inr (Some e), s)"
proof -
  obtain k ps where k: "t_cache_table s k = Some ps" "Some e \<in> set ps" using assms(2) by (auto simp: holds_url_def live_def)
  then have h: "get_hash url = k" using slot_ok(5) [OF assms(1) k] assms(2) by (auto simp: holds_url_def)
  obtain r where r: "entry_with_url s url ps = Inr r" "case r of
       None \<Rightarrow> \<forall>e. Some e \<in> set ps \<longrightarrow> ce_url (the (h_entries s e)) \<noteq> url
     | Some e \<Rightarrow> Some e \<in> set ps \<and> ce_url (the (h_entries s e)) = url"
    using entry_with_url_finds [of ps s url] slot_ok(5) [OF assms(1) k(1)] by blast
  then obtain e' where e': "r = Some e'" "Some e' \<in> set ps" "ce_url (the (h_entries s e')) = url"
    using k(2) assms(2) by (cases r) (auto simp: holds_url_def)
  then have "e' = e"
    using table_facts(4) [OF assms(1), of e' e] slot_live [OF k(1)] assms(2) by (auto simp: holds_url_def)
  then show ?thesis using r(1) e'(1) k(1) h by (simp add: find_entry_def)
qed

lemma find_entry_none:
  assumes "table_ok s" "\<And>e x. \<not> holds_url s url e x"
  shows "find_entry (get_hash url) url s = (Inr None, s)"
proof (cases "t_cache_table s (get_hash url)")
  case (Some ps)
  obtain r where r: "entry_with_url s url ps = Inr r" "case r of
       None \<Rightarrow> \<forall>e. Some e \<in> set ps \<longrightarrow> ce_url (the (h_entries s e)) \<noteq> url
     | Some e \<Rightarrow> Some e \<in> set ps \<and> ce_url (the (h_entries s e)) = url"
    using entry_with_url_finds [of ps s url] slot_ok(5) [OF assms(1) Some] by blast
  have "r = None"
  proof (cases r)
    case (Some e)
    then have e: "Some e \<in> set ps" "ce_url (the (h_entries s e)) = url" using r(2) by auto
    obtain x where "h_entries s e = Some x" using slot_ok(5) [OF assms(1) \<open>t_cache_table s (get_hash url) = Some ps\<close> e(1)] by blast
    then have "holds_url s url e x" using e slot_live [OF \<open>t_cache_table s (get_hash url) = Some ps\<close> e(1)] by (simp add: holds_url_def)
    then show ?thesis using assms(2) by blast
  qed simp
  then show ?thesis using r(1) Some by (simp add: find_entry_def)
qed (simp add: find_entry_def)

text \<open>The entry that is removed before a response is stored.\<close>

definition gone :: "http_cache \<Rightarrow> string \<Rightarrow> nat set" where
  "gone s url = {e \<in> live s. ce_url (the (h_entries s e)) = url}"

lemma for_each_blocked:
  assumes "Some e \<in> set ps" "h_entries s e = Some x" "ce_url x = url" "ce_read_lock x" "None \<notin> set ps" "distinct ps"
    "\<forall>e'. Some e' \<in> set ps \<longrightarrow> e' \<noteq> e \<longrightarrow> (\<exists>y. h_entries s e' = Some y \<and> ce_url y \<noteq> url)"
  shows "for_each_entry (delete_url url) ps s = (Inl Blocked, ps, s)"
  using assms
proof (induction ps)
  case (Cons p ps)
  then obtain d where d: "p = Some d" by (cases p) auto
  show ?case
  proof (cases "d = e")
    case True
    then have "delete_url url d s = (Inl Blocked, s)"
      using Cons.prems(2-4) by (simp add: delete_url_def bind_def the_entry_def lock_write_response_def stops_def)
    then show ?thesis by (simp add: d)
  next
    case False
    then obtain y where "h_entries s d = Some y" "ce_url y \<noteq> url" using Cons.prems(7) d by auto
    then have "delete_url url d s = (Inr False, s)" by (simp add: delete_url_def bind_def the_entry_def ret_def)
    moreover have "for_each_entry (delete_url url) ps s = (Inl Blocked, ps, s)"
      using Cons d False by auto
    ultimately show ?thesis by (simp add: d)
  qed
qed simp

lemma remove_entry_blocked:
  assumes "cache_inv s" "holds_url s url e x" "ce_readers x \<noteq> 0"
  shows "remove_entry_from_cache_table url s = (Inl Blocked, s)"
proof -
  have t: "table_ok s" and l: "locks_ok s" using assms(1) by (auto simp: cache_inv_def)
  have e: "e \<in> live s" "h_entries s e = Some x" "ce_url x = url" using assms(2) by (auto simp: holds_url_def)
  obtain k ps where k: "t_cache_table s k = Some ps" "Some e \<in> set ps" using e by (auto simp: live_def)
  have h: "get_hash url = k" using slot_ok(5) [OF t k] e by auto
  have "\<exists>y. h_entries s e' = Some y \<and> ce_url y \<noteq> url" if "Some e' \<in> set ps" "e' \<noteq> e" for e'
    using slot_ok(5) [OF t k(1) that(1)] table_facts(4) [OF t, of e' e] slot_live [OF k(1) that(1)] that(2) e by auto
  then have "for_each_entry (delete_url url) ps s = (Inl Blocked, ps, s)"
    using k(2) e locks_facts(6) [OF l e(1,2)] assms(3) slot_ok(2,3) [OF t k(1)] by (intro for_each_blocked) auto
  then show ?thesis using k(1) h by (simp add: remove_entry_from_cache_table_def sweep_slot_def fun_upd_idem)
qed

lemma remove_entry_done:
  assumes "cache_inv s" "\<And>e x. holds_url s url e x \<Longrightarrow> ce_readers x = 0"
  shows "remove_entry_from_cache_table url s = (Inr (), drop_set (gone s url) s)" "cache_inv (drop_set (gone s url) s)"
proof -
  have t: "table_ok s" and l: "locks_ok s" using assms(1) by (auto simp: cache_inv_def)
  have free: "reads s e = {} \<and> (\<exists>x. h_entries s e = Some x \<and> unlocked x)" if "e \<in> gone s url" for e
  proof -
    have e: "e \<in> live s" using that by (simp add: gone_def)
    then obtain x where x: "h_entries s e = Some x" using live_entry [OF t] by blast
    then have "ce_readers x = 0" using assms(2) [of e x] that by (simp add: gone_def holds_url_def)
    then show ?thesis using unlocked_no_reads [OF l e x] locks_unlocked [OF l e x] x by blast
  qed
  show "cache_inv (drop_set (gone s url) s)"
    using free by (intro drop_set_inv [OF assms(1)]) (auto simp: gone_def)
  show "remove_entry_from_cache_table url s = (Inr (), drop_set (gone s url) s)"
  proof (cases "t_cache_table s (get_hash url)")
    case None
    have "gone s url = {}"
    proof (rule ccontr)
      assume "gone s url \<noteq> {}"
      then obtain e where e: "e \<in> gone s url" by blast
      then obtain k ps where k: "t_cache_table s k = Some ps" "Some e \<in> set ps" by (auto simp: gone_def live_def)
      then have "get_hash url = k" using slot_ok(5) [OF t k] e by (auto simp: gone_def)
      then show False using None k(1) by simp
    qed
    then show ?thesis using None by (simp add: remove_entry_from_cache_table_def sweep_slot_def drop_set_empty)
  next
    case (Some ps)
    have c: "url_deletion.chosen url s ps = gone s url"
    proof (intro set_eqI iffI)
      fix e assume "e \<in> url_deletion.chosen url s ps"
      then show "e \<in> gone s url" using slot_live [OF Some] by (auto simp: url_deletion.chosen_def gone_def)
    next
      fix e assume e: "e \<in> gone s url"
      then obtain k qs where k: "t_cache_table s k = Some qs" "Some e \<in> set qs" by (auto simp: gone_def live_def)
      then have "get_hash url = k" using slot_ok(5) [OF t k] e by (auto simp: gone_def)
      then have "Some e \<in> set ps" using Some k by simp
      moreover obtain x where "h_entries s e = Some x" using slot_ok(5) [OF t k] by blast
      ultimately show "e \<in> url_deletion.chosen url s ps" using e by (simp add: url_deletion.chosen_def gone_def)
    qed
    have "sum (space s) (gone s url) \<le> sum (space s) (live s)"
      using live_finite [OF t] by (intro sum_mono2) (auto simp: gone_def)
    then have "sum (space s) (gone s url) \<le> unat (t_current_size s)" using table_facts(2) [OF t] by simp
    then have size: "sum (space s) (url_deletion.chosen url s ps) \<le> unat (t_current_size s)" by (simp only: c)
    have ok: "\<forall>e. Some e \<in> set ps \<longrightarrow> (\<exists>x. h_entries s e = Some x \<and> (ce_url x = url \<longrightarrow> unlocked x))"
    proof (intro allI impI)
      fix e assume e: "Some e \<in> set ps"
      then obtain x where x: "h_entries s e = Some x" using slot_ok(5) [OF t Some] by blast
      then have "ce_url x = url \<longrightarrow> unlocked x" using free [of e] slot_live [OF Some e] by (auto simp: gone_def)
      then show "\<exists>x. h_entries s e = Some x \<and> (ce_url x = url \<longrightarrow> unlocked x)" using x by blast
    qed
    have dis: "\<forall>j qs. j \<noteq> get_hash url \<longrightarrow> t_cache_table s j = Some qs \<longrightarrow> set qs \<inter> set ps = {}"
      using slots_disjoint [OF t Some] by blast
    have "sweep_slot (delete_url url) (get_hash url) s = (Inr (), drop_set (url_deletion.chosen url s ps) s)"
      by (rule url_deletion.sweep_slot_drops [OF slot_ok(2,3) [OF t Some] table_facts(1) [OF t] size ok Some dis])
    then show ?thesis unfolding remove_entry_from_cache_table_def c .
  qed
qed

section \<open>What else may change\<close>

definition same_key :: "cache_entry \<Rightarrow> cache_entry \<Rightarrow> bool" where
  "same_key x y \<longleftrightarrow>
     ce_url y = ce_url x \<and> ce_hash y = ce_hash x \<and> ce_cachename y = ce_cachename x \<and> ce_size y = ce_size x \<and>
     ce_readers y = ce_readers x \<and> ce_read_lock y = ce_read_lock x \<and> ce_write_lock y = ce_write_lock x"

lemma same_key_refl [simp]: "same_key x x"
  by (simp add: same_key_def)

lemma same_key_trans: "same_key x y \<Longrightarrow> same_key y z \<Longrightarrow> same_key x z"
  by (simp add: same_key_def)

text \<open>The books do not depend on what the headers and times of the entries are, nor on other files.\<close>

lemma cache_inv_cong:
  assumes "cache_inv s" "t_cache_table t = t_cache_table s" "t_block_size t = t_block_size s" "t_current_size t = t_current_size s"
    "t_locked_entries t = t_locked_entries s" "h_next s \<le> h_next t" "h_next_file s \<le> h_next_file t"
    and opened: "\<And>f. h_open s f \<noteq> None \<Longrightarrow> m_find (t_locked_entries s) f \<noteq> None \<Longrightarrow> h_open t f \<noteq> None"
    and same: "\<And>e x. e \<in> live s \<Longrightarrow> h_entries s e = Some x \<Longrightarrow> \<exists>y. h_entries t e = Some y \<and> same_key x y"
    and there: "\<And>e. e \<in> live s \<Longrightarrow> h_files t (name_of s e) \<noteq> None \<and> h_files t (name_of s e @ CACHE_META) \<noteq> None"
  shows "cache_inv t"
proof -
  have tb: "table_ok s" and l: "locks_ok s" and f: "files_ok s" using assms(1) by (auto simp: cache_inv_def)
  have lv: "live t = live s" using assms(2) by (simp add: live_def)
  have rd: "reads t = reads s" using assms(5) by (simp add: reads_def fun_eq_iff)
  have ent: "\<exists>x y. h_entries s e = Some x \<and> h_entries t e = Some y \<and> same_key x y" if "e \<in> live s" for e
    using live_entry [OF tb that] same [OF that] by metis
  have nm: "name_of t e = name_of s e \<and> space t e = space s e \<and> ce_url (the (h_entries t e)) = ce_url (the (h_entries s e))" if "e \<in> live s" for e
    using ent [OF that] assms(3) by (auto simp: name_of_def space_def same_key_def)
  have "sum (space t) (live t) = sum (space s) (live s)" unfolding lv using nm by (intro sum.cong refl) blast
  then have size: "unat (t_current_size t) = sum (space t) (live t)" using table_facts(2) [OF tb] assms(4) by simp
  have slot: "k < CACHE_TABLE_SIZE \<and> distinct ps \<and> None \<notin> set ps \<and>
      (\<forall>e. Some e \<in> set ps \<longrightarrow> e < h_next t \<and> (\<exists>x. h_entries t e = Some x \<and> get_hash (ce_url x) = k \<and> ce_hash x = int k))"
    if "t_cache_table t k = Some ps" for k ps
  proof -
    have k: "t_cache_table s k = Some ps" using that assms(2) by simp
    have "e < h_next t \<and> (\<exists>x. h_entries t e = Some x \<and> get_hash (ce_url x) = k \<and> ce_hash x = int k)" if e: "Some e \<in> set ps" for e
      using slot_ok(4,5) [OF tb k e] ent [OF slot_live [OF k e]] assms(6) by (auto simp: same_key_def)
    then show ?thesis using slot_ok(1-3) [OF tb k] by blast
  qed
  have "table_ok t"
    unfolding table_ok_def lv
  proof (intro conjI)
    show "t_block_size t \<noteq> 0" using table_facts(1) [OF tb] assms(3) by simp
    show "\<forall>k ps. t_cache_table t k = Some ps \<longrightarrow> k < CACHE_TABLE_SIZE \<and> distinct ps \<and> None \<notin> set ps \<and>
        (\<forall>e. Some e \<in> set ps \<longrightarrow> e < h_next t \<and> (\<exists>x. h_entries t e = Some x \<and> get_hash (ce_url x) = k \<and> ce_hash x = int k))"
      using slot by blast
    show "\<forall>e\<in>live s. \<forall>e'\<in>live s. ce_url (the (h_entries t e)) = ce_url (the (h_entries t e')) \<longrightarrow> e = e'"
      using table_facts(4) [OF tb] nm by metis
    show "unat (t_current_size t) = sum (space t) (live s)" using size lv by simp
    show "\<forall>e\<in>live s. space t e < 2 ^ 31" using table_facts(3) [OF tb] nm by metis
  qed
  moreover have "locks_ok t"
  proof (rule locks_okI)
    show "m_ok (t_locked_entries t)" using locks_facts(1) [OF l] assms(5) by simp
    show "g < h_next_file t \<and> h_open t g \<noteq> None \<and> (\<exists>e\<in>live t. p = Some e)" if "m_find (t_locked_entries t) g = Some p" for g p
      using locks_facts(2-4) [OF l, of g p] that assms(5,7) opened [of g] lv by auto
    show "ce_readers y = int (card (reads t e)) \<and> (ce_read_lock y \<longleftrightarrow> ce_readers y \<noteq> 0) \<and> \<not> ce_write_lock y"
      if e: "e \<in> live t" "h_entries t e = Some y" for e y
    proof -
      obtain x where "h_entries s e = Some x" "same_key x y" "e \<in> live s" using ent [of e] e lv by auto
      then show ?thesis using locks_facts(5-7) [OF l, of e x] rd by (auto simp: same_key_def)
    qed
  qed
  moreover have "files_ok t"
  proof (rule files_okI)
    fix e assume "e \<in> live t"
    then show "made_name (name_of t e) \<and> h_files t (name_of t e) \<noteq> None \<and> h_files t (name_of t e @ CACHE_META) \<noteq> None"
      using files_facts(1) [OF f, of e] there [of e] nm [of e] lv by auto
  next
    fix e e' assume "e \<in> live t" "e' \<in> live t" "name_of t e = name_of t e'"
    then show "e = e'" using files_facts(4) [OF f, of e e'] nm [of e] nm [of e'] lv by simp
  qed
  ultimately show ?thesis by (simp add: cache_inv_def)
qed

section \<open>Collecting garbage\<close>

text \<open>Deleting some of the entries that nobody reads.\<close>

definition pruned :: "http_cache \<Rightarrow> http_cache \<Rightarrow> bool" where
  "pruned s t \<longleftrightarrow> (\<exists>E. E \<subseteq> live s \<and> (\<forall>e\<in>E. reads s e = {}) \<and> t = drop_set E s)"

lemma pruned_refl: "pruned s s"
  using drop_set_empty [of s] by (force simp: pruned_def)

lemma pruned_inv: "cache_inv s \<Longrightarrow> pruned s t \<Longrightarrow> cache_inv t"
  using drop_set_inv by (auto simp: pruned_def)

lemma pruned_trans:
  assumes "cache_inv s" "pruned s t" "pruned t u"
  shows "pruned s u"
proof -
  obtain E F where E: "E \<subseteq> live s" "\<forall>e\<in>E. reads s e = {}" "t = drop_set E s"
    and F: "F \<subseteq> live t" "\<forall>e\<in>F. reads t e = {}" "u = drop_set F t"
    using assms(2,3) by (auto simp: pruned_def)
  have fin: "finite (live s)" using live_finite assms(1) by (simp add: cache_inv_def)
  have "u = drop_set (E \<union> F) s"
    unfolding F(3) E(3) using E(1) F(1) fin E(3) by (intro drop_drop) (auto intro: finite_subset)
  moreover have "reads t = reads s" by (simp add: E(3) reads_def fun_eq_iff)
  ultimately show ?thesis using E F by (auto simp: pruned_def intro!: exI [of _ "E \<union> F"])
qed

lemma pruned_sel:
  assumes "pruned s t"
  shows "d_total_size t = d_total_size s" "d_folder_size t = d_folder_size s" "d_gc_buffer t = d_gc_buffer s"
    "t_locked_entries t = t_locked_entries s" "h_open t = h_open s" "d_cache_mutex t = d_cache_mutex s"
    "t_cache_index t = t_cache_index s" "live t \<subseteq> live s"
  using assms by (auto simp: pruned_def)

text \<open>A deletion that spares the entries in use prunes the cache.\<close>

lemma sweep_prunes:
  assumes "cache_inv s" "\<And>x. P x \<Longrightarrow> ce_readers x = 0"
  shows "sweep_slots (delete_if P) [0..<CACHE_TABLE_SIZE] s = (Inr (), drop_set {e \<in> live s. P (the (h_entries s e))} s)"
    "pruned s (drop_set {e \<in> live s. P (the (h_entries s e))} s)"
proof -
  have t: "table_ok s" and l: "locks_ok s" using assms(1) by (auto simp: cache_inv_def)
  have free: "unlocked (the (h_entries s e)) \<and> reads s e = {}" if e: "e \<in> live s" "P (the (h_entries s e))" for e
  proof -
    obtain x where x: "h_entries s e = Some x" using live_entry [OF t e(1)] by blast
    then show ?thesis using locks_unlocked [OF l e(1) x] unlocked_no_reads [OF l e(1) x] assms(2) [of x] e(2) by simp
  qed
  then show "sweep_slots (delete_if P) [0..<CACHE_TABLE_SIZE] s = (Inr (), drop_set {e \<in> live s. P (the (h_entries s e))} s)"
    using deletion.sweep_table [OF assms(1)] by blast
  show "pruned s (drop_set {e \<in> live s. P (the (h_entries s e))} s)"
    unfolding pruned_def using free by (intro exI [of _ "{e \<in> live s. P (the (h_entries s e))}"] conjI refl) auto
qed

lemma expired_gc_prunes:
  assumes "cache_inv s"
  shows "\<exists>t. expired_gc v s = (Inr (), t) \<and> pruned s t"
  using sweep_prunes [OF assms, of "is_expired (now v)"] pruned_refl
  by (cases "d_expire_ignored s") (auto simp: expired_gc_def delete_expired_entries_def is_expired_def)

lemma too_big_gc_prunes:
  assumes "cache_inv s"
  shows "\<exists>t. too_big_gc s = (Inr (), t) \<and> pruned s t"
  using sweep_prunes [OF assms, of "is_too_big (ucast (d_max_entry_size s))"] pruned_refl
  by (cases "startGC s") (auto simp: too_big_gc_def delete_by_size_def is_too_big_def)

lemma delete_by_hits_prunes:
  assumes "cache_inv s"
  shows "delete_by_hits h s = (Inr (), drop_set {e \<in> live s. has_few_hits h (the (h_entries s e))} s)"
    "pruned s (drop_set {e \<in> live s. has_few_hits h (the (h_entries s e))} s)"
  using sweep_prunes [OF assms, of "has_few_hits h"] by (auto simp: delete_by_hits_def has_few_hits_def)

lemma hits_loop_prunes:
  assumes "hits_loop h s = Some y"
  shows "cache_inv s \<longrightarrow> fst y = Inr () \<and> pruned s (snd y) \<and> stopGC (snd y)"
proof (rule hits_loop.raw_induct [OF _ assms], goal_cases)
  case (1 loop h s y)
  show ?case
  proof
    assume inv: "cache_inv s"
    note d = delete_by_hits_prunes [OF inv, of h]
    show "fst y = Inr () \<and> pruned s (snd y) \<and> stopGC (snd y)"
    proof (cases "stopGC s")
      case True
      then show ?thesis using 1(2) pruned_refl by auto
    next
      case False
      then have "loop (h + 1) (drop_set {e \<in> live s. has_few_hits h (the (h_entries s e))} s) = Some y" using 1(2) d(1) by simp
      from 1(1) [OF this] pruned_inv [OF inv d(2)] pruned_trans [OF inv d(2)] show ?thesis by blast
    qed
  qed
qed

lemma perform_gc_prunes:
  assumes "cache_inv s"
  shows "\<exists>t. pruned s t \<and> (perform_garbage_collection v s = (Inr (), t) \<and> (startGC s \<longrightarrow> \<not> startGC t \<or> stopGC t) \<or> perform_garbage_collection v s = (Inl Endless, t))"
proof -
  obtain t1 where t1: "expired_gc v s = (Inr (), t1)" "pruned s t1" using expired_gc_prunes [OF assms] by blast
  note i1 = pruned_inv [OF assms t1(2)]
  obtain t2 where t2: "too_big_gc t1 = (Inr (), t2)" "pruned t1 t2" using too_big_gc_prunes [OF i1] by blast
  note p2 = pruned_trans [OF assms t1(2) t2(2)] and i2 = pruned_inv [OF i1 t2(2)]
  have e: "perform_garbage_collection v s = hits_gc t2" by (simp add: perform_garbage_collection_def bind_def t1 t2)
  show ?thesis
  proof (cases "startGC t2")
    case False
    then have "hits_gc t2 = (Inr (), t2)" by (simp add: hits_gc_def)
    then show ?thesis using e p2 False by auto
  next
    case True
    show ?thesis
    proof (cases "hits_loop 0 t2")
      case None
      then have "hits_gc t2 = (Inl Endless, t2)" using True by (simp add: hits_gc_def)
      then show ?thesis using e p2 by auto
    next
      case (Some y)
      then have y: "fst y = Inr ()" "pruned t2 (snd y)" "stopGC (snd y)" using hits_loop_prunes i2 by blast+
      then have "hits_gc t2 = (Inr (), snd y)" using True Some by (simp add: hits_gc_def) (metis prod.collapse)
      then show ?thesis using e pruned_trans [OF assms p2 y(2)] y(3) by auto
    qed
  qed
qed

lemma collect_prunes:
  assumes "cache_inv s"
  shows "\<exists>t. pruned s t \<and> (collect_if_needed v s = (Inr (), t) \<or> collect_if_needed v s = (Inl Endless, t))"
  using perform_gc_prunes [OF assms, of v] pruned_refl [of s] by (auto simp: collect_if_needed_def)

section \<open>Storing a response\<close>

lemma parse_header_same:
  assumes "parse_header v m h x = Inr y"
  shows "same_key x y \<and> ce_hits y = ce_hits x"
  using assms unfolding parse_header_def Let_def
  by (simp split: if_splits option.splits) (auto simp: same_key_def rbind_Inr_iff)

lemma parse_headers_same:
  "each (parse_header v m) hs x = Inr y \<Longrightarrow> same_key x y \<and> ce_hits y = ce_hits x"
proof (induction hs arbitrary: x)
  case (Cons h hs)
  then obtain z where "parse_header v m h x = Inr z" "each (parse_header v m) hs z = Inr y" by (auto simp: rbind_Inr_iff)
  then show ?case using parse_header_same [of v m h x z] Cons.IH [of z] same_key_trans by auto
qed simp

lemma parse_headers_Inr:
  "parse_headers v e m hs s = (Inr (), t) \<longleftrightarrow>
    (\<exists>x y. h_entries s e = Some x \<and> each (parse_header v m) hs x = Inr y \<and> t = s\<lparr>h_entries := (h_entries s)(e \<mapsto> y)\<rparr>)"
  by (cases "h_entries s e"; cases "each (parse_header v m) hs (the (h_entries s e))")
    (auto simp: parse_headers_def bind_def the_entry_def op_defs)

definition timed :: "env \<Rightarrow> int \<Rightarrow> int \<Rightarrow> cache_entry \<Rightarrow> cache_entry" where
  "timed v d rt x =
     x\<lparr>ce_response_time := now v,
       ce_corrected_initial_age := max (max 0 (to_int32 (now v - ce_date x))) (ce_age x) + (now v - rt),
       ce_freshness_lifetime := max 0 (to_int32
         (if ce_max_age x < 0
          then (if ce_expires x < 0 then (if ce_lm x < 0 then d else LM_EXPIRATION (ce_date x - ce_lm x))
                else ce_expires x - ce_date x)
          else ce_max_age x))\<rparr>"

lemma calculate_time_Inr:
  "calculate_time v e d rt s = (Inr (), t) \<longleftrightarrow>
    (\<exists>x. h_entries s e = Some x \<and> t = s\<lparr>h_entries := (h_entries s)(e \<mapsto> timed v d rt x)\<rparr>)"
proof (cases "h_entries s e")
  case None
  then show ?thesis by (simp add: calculate_time_def bind_def the_entry_def)
next
  case (Some x)
  have "calculate_time v e d rt s = put_entry e (timed v d rt x) s"
    unfolding calculate_time_def bind_result [where m = "the_entry e" and s = s, OF the_entry_Some [OF Some]] Let_def timed_def by (rule refl)
  then show ?thesis using Some by (auto simp: put_entry_def upd_def)
qed

lemma timed_same: "same_key x (timed v d rt x) \<and> ce_hits (timed v d rt x) = ce_hits x \<and> ce_no_cache (timed v d rt x) = ce_no_cache x"
  by (simp add: timed_def same_key_def)

lemma create_location_Inr:
  assumes "create_location v e s = (Inr (), t)"
  shows "\<exists>x ds n. h_entries s e = Some x \<and> mkstemp v (h_files s) (t_cache_root s @ show_int (ce_hash x) @ ''/dods'') = Some n \<and>
    t = s\<lparr>h_dirs := ds, h_files := (h_files s)(n \<mapsto> []), h_entries := (h_entries s)(e \<mapsto> x\<lparr>ce_cachename := n\<rparr>)\<rparr>"
proof -
  obtain x d s1 where x: "h_entries s e = Some x" "create_hash_directory v (ce_hash x) s = (Inr d, s1)"
    and t: "(case mkstemp v (h_files s1) (d @ ''/dods'') of
       None \<Rightarrow> raise (Error ''The HTTP Cache could not create a file to hold the response; it will not be cached.'') s1
     | Some templat \<Rightarrow> put_entry e (x\<lparr>ce_cachename := templat\<rparr>) (s1\<lparr>h_files := (h_files s1)(templat \<mapsto> [])\<rparr>)) = (Inr (), t)"
    using assms by (auto simp: create_location_def bind_Inr_iff the_entry_iff)
  have d: "d = t_cache_root s @ show_int (ce_hash x)" "s1 = s\<lparr>h_dirs := h_dirs s1\<rparr>"
    using x(2) by (auto simp: create_hash_directory_def op_defs Let_def split: if_splits)
  have s: "h_files s1 = h_files s" "h_entries s1 = h_entries s" using arg_cong [OF d(2), of h_files] arg_cong [OF d(2), of h_entries] by simp_all
  obtain n where n: "mkstemp v (h_files s) (d @ ''/dods'') = Some n"
    "t = s1\<lparr>h_files := (h_files s)(n \<mapsto> []), h_entries := (h_entries s)(e \<mapsto> x\<lparr>ce_cachename := n\<rparr>)\<rparr>"
    using t s by (auto simp: op_defs split: option.splits)
  have "t = s\<lparr>h_dirs := h_dirs s1, h_files := (h_files s)(n \<mapsto> []), h_entries := (h_entries s)(e \<mapsto> x\<lparr>ce_cachename := n\<rparr>)\<rparr>"
    unfolding n(2) by (subst d(2)) (rule refl)
  moreover have "mkstemp v (h_files s) (t_cache_root s @ show_int (ce_hash x) @ ''/dods'') = Some n" using n(1) d(1) by simp
  ultimately show ?thesis using x(1) by blast
qed

lemma write_body_Inr:
  "write_body v n src s = (Inr i, t) \<longleftrightarrow>
     can_open v n \<and> \<not> (snd src \<or> fst src \<noteq> [] \<and> \<not> can_write v n) \<and> i = to_int32 (int (length (fst src))) \<and>
     t = s\<lparr>h_files := (h_files s)(n \<mapsto> fst src)\<rparr>"
  by (auto simp: write_body_def op_defs Let_def split: prod.splits)

lemma write_metadata_Inr:
  "write_metadata v n hs s = (Inr u, t) \<longleftrightarrow>
     (\<exists>text. can_open v (n @ CACHE_META) \<and> write_headers (can_write v (n @ CACHE_META)) hs [] = (Inr (), text) \<and>
       t = s\<lparr>h_files := (h_files s)(n @ CACHE_META \<mapsto> text)\<rparr>)"
  by (auto simp: write_metadata_def op_defs Let_def split: prod.splits sum.splits)

text \<open>The cache after a response was stored: the old entry of the URL is gone, and there is a new one with its files.\<close>

definition stored :: "env \<Rightarrow> string \<Rightarrow> string list \<Rightarrow> string \<Rightarrow> http_cache \<Rightarrow> http_cache \<Rightarrow> bool" where
  "stored v url headers body s t \<longleftrightarrow>
     (\<exists>s1 e x n text ds ps.
        s1 = drop_set (gone s url) s \<and> e = h_next s \<and>
        mkstemp v (h_files s1) (t_cache_root s @ show_int (int (get_hash url)) @ ''/dods'') = Some n \<and>
        write_headers (can_write v (n @ CACHE_META)) headers [] = (Inr (), text) \<and>
        ce_url x = url \<and> ce_hash x = int (get_hash url) \<and> ce_cachename x = n \<and>
        ce_size x = word_of_int (to_int32 (int (length body))) \<and> unlocked x \<and>
        ps = (case t_cache_table s1 (get_hash url) of None \<Rightarrow> [] | Some ps \<Rightarrow> ps) \<and>
        t = s1\<lparr>h_next := e + 1, h_dirs := ds,
               h_files := (h_files s1)(n \<mapsto> body, n @ CACHE_META \<mapsto> text),
               t_cache_table := (t_cache_table s1)(get_hash url \<mapsto> ps @ [Some e]),
               t_current_size := t_current_size s1 + scast (entry_disk_space (ce_size x) (t_block_size s1)),
               t_new_entries := t_new_entries s1 + 1, h_entries := (h_entries s1)(e \<mapsto> x)\<rparr>)"

lemma add_entry_Inr:
  assumes "add_entry_to_cache_table e s = (Inr (), t)" "h_entries s e = Some x" "ce_hash x = int k"
  shows "t = s\<lparr>t_cache_table := (t_cache_table s)(k \<mapsto> (case t_cache_table s k of None \<Rightarrow> [] | Some ps \<Rightarrow> ps) @ [Some e]),
    t_current_size := t_current_size s + scast (entry_disk_space (ce_size x) (t_block_size s)), t_new_entries := t_new_entries s + 1\<rparr>"
  using assms by (auto simp: add_entry_to_cache_table_def bind_Inr_iff the_entry_iff op_defs Let_def split: if_splits option.splits)

lemma put_bind: "bind (put_entry e x) f s = f () (s\<lparr>h_entries := (h_entries s)(e \<mapsto> x)\<rparr>)"
  by (simp add: bind_def put_entry_def upd_def)

lemma files_entries_swap: "s\<lparr>h_files := F, h_entries := E\<rparr> = s\<lparr>h_entries := E, h_files := F\<rparr>"
  by (rule http_cache.equality) simp_all

lemma store_response_Inr:
  assumes inv: "cache_inv s" and r: "store_response v url rt headers body s = (Inr b, t)"
  shows "(\<forall>e x. holds_url s url e x \<longrightarrow> ce_readers x = 0) \<and>
    (if b then stored v url headers (fst body) s t
     else t = (drop_set (gone s url) s)\<lparr>h_entries := (h_entries (drop_set (gone s url) s))(h_next s := None), h_next := h_next s + 1\<rparr>)"
proof
  show free: "\<forall>e x. holds_url s url e x \<longrightarrow> ce_readers x = 0"
  proof (intro allI impI)
    fix e x assume h: "holds_url s url e x"
    show "ce_readers x = 0"
    proof (rule ccontr)
      assume "ce_readers x \<noteq> 0"
      then show False using r remove_entry_blocked [OF inv h] by (simp add: store_response_def bind_stops)
    qed
  qed
  define s1 where "s1 = drop_set (gone s url) s"
  define e where "e = h_next s"
  have s1: "remove_entry_from_cache_table url s = (Inr (), s1)" "h_next s1 = e"
    using remove_entry_done [OF inv] free by (auto simp: s1_def e_def)
  define s2 where "s2 = s1\<lparr>h_next := e + 1, h_entries := (h_entries s1)(e \<mapsto> (entry_for url)\<lparr>ce_read_lock := True, ce_write_lock := True\<rparr>)\<rparr>"
  have s2: "bind (new_entry (entry_for url)) (\<lambda>e. bind (lock_write_response e) (f e)) s1 = f e () s2" for f :: "nat \<Rightarrow> unit \<Rightarrow> bool op"
    using s1(2) by (simp add: bind_def new_entry_def lock_write_response_def the_entry_def op_defs s2_def entry_for_def blank_entry_def)
  have r2: "bind (\<lambda>s. parse_headers v e (d_max_entry_size s) headers s) (\<lambda>_.
     bind (the_entry e) (\<lambda>x.
       if ce_no_cache x
       then bind (unlock_write_response e) (\<lambda>_. bind (free_entry e) (\<lambda>_. ret False))
       else bind (\<lambda>s. calculate_time v e (d_default_expiration s) rt s) (\<lambda>_.
            bind (create_location v e) (\<lambda>_.
            bind (the_entry e) (\<lambda>x.
            bind (write_body v (ce_cachename x) body) (\<lambda>n.
            bind (put_entry e (x\<lparr>ce_size := word_of_int n\<rparr>)) (\<lambda>_.
            bind (write_metadata v (ce_cachename x) headers) (\<lambda>_.
            bind (add_entry_to_cache_table e) (\<lambda>_.
            bind (unlock_write_response e) (\<lambda>_. ret True)))))))))) s2 = (Inr b, t)"
    using r unfolding store_response_def bind_result [where m = "remove_entry_from_cache_table url" and s = s, OF s1(1)] s2 .
  obtain y where y: "each (parse_header v (d_max_entry_size s2)) headers ((entry_for url)\<lparr>ce_read_lock := True, ce_write_lock := True\<rparr>) = Inr y"
    and r3: "(if ce_no_cache y
       then bind (unlock_write_response e) (\<lambda>_. bind (free_entry e) (\<lambda>_. ret False))
       else bind (\<lambda>s. calculate_time v e (d_default_expiration s) rt s) (\<lambda>_.
            bind (create_location v e) (\<lambda>_.
            bind (the_entry e) (\<lambda>x.
            bind (write_body v (ce_cachename x) body) (\<lambda>n.
            bind (put_entry e (x\<lparr>ce_size := word_of_int n\<rparr>)) (\<lambda>_.
            bind (write_metadata v (ce_cachename x) headers) (\<lambda>_.
            bind (add_entry_to_cache_table e) (\<lambda>_.
            bind (unlock_write_response e) (\<lambda>_. ret True))))))))) (s2\<lparr>h_entries := (h_entries s2)(e \<mapsto> y)\<rparr>) = (Inr b, t)"
    using r2 by (auto simp: bind_Inr_iff [of "\<lambda>s. parse_headers v e (d_max_entry_size s) headers s"] parse_headers_Inr s2_def
        bind_result [OF the_entry_Some])
  have k: "same_key ((entry_for url)\<lparr>ce_read_lock := True, ce_write_lock := True\<rparr>) y" using parse_headers_same [OF y] by blast
  show "if b then stored v url headers (fst body) s t
     else t = (drop_set (gone s url) s)\<lparr>h_entries := (h_entries (drop_set (gone s url) s))(h_next s := None), h_next := h_next s + 1\<rparr>"
  proof (cases "ce_no_cache y")
    case True
    define s3 where "s3 = s2\<lparr>h_entries := (h_entries s2)(e \<mapsto> y)\<rparr>"
    have "bind (unlock_write_response e) (\<lambda>_. bind (free_entry e) (\<lambda>_. ret False)) s3
        = (Inr False, s3\<lparr>h_entries := (h_entries s3)(e := None)\<rparr>)"
      using k by (simp add: bind_def unlock_write_response_def the_entry_def op_defs s3_def same_key_def)
    then have "b = False \<and> t = s3\<lparr>h_entries := (h_entries s3)(e := None)\<rparr>" using r3 True by (simp add: s3_def)
    then show ?thesis by (simp add: s3_def s2_def s1_def e_def http_cache.equality)
  next
    case False
    define y1 where "y1 = timed v (d_default_expiration s) rt y"
    define s3 where "s3 = s2\<lparr>h_entries := (h_entries s2)(e \<mapsto> y1)\<rparr>"
    have r4: "bind (create_location v e) (\<lambda>_.
            bind (the_entry e) (\<lambda>x.
            bind (write_body v (ce_cachename x) body) (\<lambda>n.
            bind (put_entry e (x\<lparr>ce_size := word_of_int n\<rparr>)) (\<lambda>_.
            bind (write_metadata v (ce_cachename x) headers) (\<lambda>_.
            bind (add_entry_to_cache_table e) (\<lambda>_.
            bind (unlock_write_response e) (\<lambda>_. ret True))))))) s3 = (Inr b, t)"
      using r3 False
      by (auto simp: bind_Inr_iff [of "\<lambda>s. calculate_time v e (d_default_expiration s) rt s"] calculate_time_Inr s3_def y1_def s2_def s1_def)
    obtain ds n where n: "mkstemp v (h_files s3) (t_cache_root s3 @ show_int (ce_hash y1) @ ''/dods'') = Some n"
      and r5: "bind (the_entry e) (\<lambda>x.
            bind (write_body v (ce_cachename x) body) (\<lambda>n.
            bind (put_entry e (x\<lparr>ce_size := word_of_int n\<rparr>)) (\<lambda>_.
            bind (write_metadata v (ce_cachename x) headers) (\<lambda>_.
            bind (add_entry_to_cache_table e) (\<lambda>_.
            bind (unlock_write_response e) (\<lambda>_. ret True))))))
        (s3\<lparr>h_dirs := ds, h_files := (h_files s3)(n \<mapsto> []), h_entries := (h_entries s3)(e \<mapsto> y1\<lparr>ce_cachename := n\<rparr>)\<rparr>) = (Inr b, t)"
      using r4 by (auto simp: bind_Inr_iff [of "create_location v e"] s3_def dest!: create_location_Inr)
    define y2 where "y2 = y1\<lparr>ce_cachename := n, ce_size := word_of_int (to_int32 (int (length (fst body))))\<rparr>"
    define rest where "rest = (\<lambda>_ :: unit. bind (add_entry_to_cache_table e) (\<lambda>_. bind (unlock_write_response e) (\<lambda>_. ret True)))"
    define s4 where "s4 = s3\<lparr>h_dirs := ds, h_files := (h_files s3)(n \<mapsto> []), h_entries := (h_entries s3)(e \<mapsto> y1\<lparr>ce_cachename := n\<rparr>)\<rparr>"
    have "bind (write_body v n body) (\<lambda>i. bind (put_entry e (y1\<lparr>ce_cachename := n, ce_size := word_of_int i\<rparr>)) (\<lambda>_.
        bind (write_metadata v n headers) rest)) s4 = (Inr b, t)"
      using r5 unfolding s4_def [symmetric] by (auto simp: bind_Inr_iff [of "the_entry e"] the_entry_iff rest_def s4_def)
    then have "bind (put_entry e y2) (\<lambda>_. bind (write_metadata v n headers) rest) (s4\<lparr>h_files := (h_files s4)(n \<mapsto> fst body)\<rparr>) = (Inr b, t)"
      by (auto simp: bind_Inr_iff [of "write_body v n body"] write_body_Inr y2_def)
    then have "bind (write_metadata v n headers) rest (s4\<lparr>h_entries := (h_entries s4)(e \<mapsto> y2), h_files := (h_files s4)(n \<mapsto> fst body)\<rparr>) = (Inr b, t)"
      by (simp add: put_bind files_entries_swap)
    then obtain cs where cs: "write_headers (can_write v (n @ CACHE_META)) headers [] = (Inr (), cs)"
      and "rest () (s4\<lparr>h_entries := (h_entries s4)(e \<mapsto> y2), h_files := (h_files s4)(n \<mapsto> fst body, n @ CACHE_META \<mapsto> cs)\<rparr>) = (Inr b, t)"
      by (auto simp: bind_Inr_iff [of "write_metadata v n headers"] write_metadata_Inr)
    moreover have "s4\<lparr>h_entries := (h_entries s4)(e \<mapsto> y2), h_files := (h_files s4)(n \<mapsto> fst body, n @ CACHE_META \<mapsto> cs)\<rparr>
        = s3\<lparr>h_dirs := ds, h_files := (h_files s3)(n \<mapsto> fst body, n @ CACHE_META \<mapsto> cs), h_entries := (h_entries s3)(e \<mapsto> y2)\<rparr>"
      by (intro http_cache.equality) (simp_all add: s4_def)
    ultimately have r6: "rest () (s3\<lparr>h_dirs := ds, h_files := (h_files s3)(n \<mapsto> fst body, n @ CACHE_META \<mapsto> cs), h_entries := (h_entries s3)(e \<mapsto> y2)\<rparr>) = (Inr b, t)"
      by simp
    have hy: "ce_hash y2 = int (get_hash url)" "ce_url y2 = url" "ce_write_lock y2" "ce_read_lock y2" "ce_readers y2 = 0"
      using k timed_same [of y v "d_default_expiration s" rt] by (auto simp: y2_def y1_def same_key_def entry_for_def blank_entry_def)
    obtain u where u: "add_entry_to_cache_table e (s3\<lparr>h_dirs := ds, h_files := (h_files s3)(n \<mapsto> fst body, n @ CACHE_META \<mapsto> cs),
        h_entries := (h_entries s3)(e \<mapsto> y2)\<rparr>) = (Inr (), u)" "bind (unlock_write_response e) (\<lambda>_. ret True) u = (Inr b, t)"
      using r6 unfolding rest_def by (auto simp: bind_Inr_iff [of "add_entry_to_cache_table e"])
    have "h_entries u e = Some y2" using add_entry_Inr [OF u(1) _ hy(1)] by simp
    then have t: "b = True" "t = u\<lparr>h_entries := (h_entries u)(e \<mapsto> y2\<lparr>ce_write_lock := False, ce_read_lock := False\<rparr>)\<rparr>"
      using u(2) hy by (auto simp: bind_def unlock_write_response_def the_entry_def op_defs)
    have hs3: "ce_hash y1 = int (get_hash url)" using hy(1) by (simp add: y2_def)
    show ?thesis
      unfolding t(1) stored_def if_True
      using add_entry_Inr [OF u(1) _ hy(1)] hy n cs
      by (intro exI [of _ "y2\<lparr>ce_write_lock := False, ce_read_lock := False\<rparr>"] exI conjI)
        (rule refl | simp add: t(2) s3_def s2_def s1_def e_def y2_def unlocked_def hs3 http_cache.equality)+
  qed
qed

text \<open>What \<^verbatim>\<open>mkstemp\<close> promises: a new name, the template with six letters or digits for its last characters.\<close>

definition mkstemp_ok :: "env \<Rightarrow> bool" where
  "mkstemp_ok v \<longleftrightarrow>
     (\<forall>fs p n. mkstemp v fs p = Some n \<longrightarrow> fs n = None \<and> (\<exists>cs. n = p @ cs \<and> length cs = 6 \<and> CHR ''.'' \<notin> set cs))"

text \<open>The size of a body and its disk space fit their types.\<close>

definition body_space :: "http_cache \<Rightarrow> string \<Rightarrow> nat" where
  "body_space s body = unat (entry_disk_space (word_of_int (to_int32 (int (length body)))) (t_block_size s))"

definition fits :: "http_cache \<Rightarrow> string \<Rightarrow> bool" where
  "fits s body \<longleftrightarrow> body_space s body < 2 ^ 31 \<and> unat (t_current_size s) + body_space s body < 2 ^ 64"

lemma table_okI:
  assumes "t_block_size s \<noteq> 0"
    and "\<And>k ps. t_cache_table s k = Some ps \<Longrightarrow> k < CACHE_TABLE_SIZE \<and> distinct ps \<and> None \<notin> set ps"
    and "\<And>k ps e. t_cache_table s k = Some ps \<Longrightarrow> Some e \<in> set ps \<Longrightarrow>
      e < h_next s \<and> (\<exists>x. h_entries s e = Some x \<and> get_hash (ce_url x) = k \<and> ce_hash x = int k)"
    and "\<And>e e'. e \<in> live s \<Longrightarrow> e' \<in> live s \<Longrightarrow> ce_url (the (h_entries s e)) = ce_url (the (h_entries s e')) \<Longrightarrow> e = e'"
    and "unat (t_current_size s) = sum (space s) (live s)" "\<And>e. e \<in> live s \<Longrightarrow> space s e < 2 ^ 31"
  shows "table_ok s"
  using assms unfolding table_ok_def by blast

lemma get_hash_less: "get_hash url < CACHE_TABLE_SIZE"
proof -
  have "foldl (\<lambda>hash c. (hash * 3 + of_char c) mod CACHE_TABLE_SIZE) a cs < CACHE_TABLE_SIZE" if "a < CACHE_TABLE_SIZE" for a and cs :: string
    using that by (induction cs arbitrary: a) (auto simp: CACHE_TABLE_SIZE_def)
  then show ?thesis by (simp add: get_hash_def CACHE_TABLE_SIZE_def)
qed

lemma stored_inv:
  assumes inv: "cache_inv s" and st: "stored v url headers body s t" and "mkstemp_ok v" "fits s body"
    and free: "\<forall>e x. holds_url s url e x \<longrightarrow> ce_readers x = 0"
  shows "cache_inv t" "live t = insert (h_next s) (live s - gone s url)"
proof -
  define s1 where "s1 = drop_set (gone s url) s"
  define e where "e = h_next s"
  have i1: "cache_inv s1" unfolding s1_def using remove_entry_done(2) [OF inv] free by blast
  then have tb: "table_ok s1" and l: "locks_ok s1" and f: "files_ok s1" by (auto simp: cache_inv_def)
  obtain x n cs ds where n: "mkstemp v (h_files s1) (t_cache_root s @ show_int (int (get_hash url)) @ ''/dods'') = Some n"
    and x: "ce_url x = url" "ce_hash x = int (get_hash url)" "ce_cachename x = n" "ce_size x = word_of_int (to_int32 (int (length body)))" "unlocked x"
    and t: "t = s1\<lparr>h_next := e + 1, h_dirs := ds, h_files := (h_files s1)(n \<mapsto> body, n @ CACHE_META \<mapsto> cs),
      t_cache_table := (t_cache_table s1)(get_hash url \<mapsto> (case t_cache_table s1 (get_hash url) of None \<Rightarrow> [] | Some ps \<Rightarrow> ps) @ [Some e]),
      t_current_size := t_current_size s1 + scast (entry_disk_space (ce_size x) (t_block_size s1)),
      t_new_entries := t_new_entries s1 + 1, h_entries := (h_entries s1)(e \<mapsto> x)\<rparr>"
    using st unfolding stored_def by (auto simp: s1_def e_def)
  have new: "e \<notin> live s1" using live_entry [OF tb, of e] by (auto simp: s1_def e_def)
  have lt: "live t = insert e (live s1)"
  proof (intro set_eqI iffI)
    fix d assume "d \<in> live t"
    then show "d \<in> insert e (live s1)" by (auto simp: live_def t split: if_splits option.splits)
  next
    fix d assume "d \<in> insert e (live s1)"
    then show "d \<in> live t"
    proof
      assume "d = e"
      then show ?thesis unfolding live_def t by (intro CollectI exI [of _ "get_hash url"]) auto
    next
      assume "d \<in> live s1"
      then obtain k ps where "t_cache_table s1 k = Some ps" "Some d \<in> set ps" by (auto simp: live_def)
      then show ?thesis unfolding live_def t by (intro CollectI exI [of _ k]) auto
    qed
  qed
  then show "live t = insert (h_next s) (live s - gone s url)" by (simp add: s1_def e_def)
  have old: "h_entries t d = h_entries s1 d \<and> name_of t d = name_of s1 d \<and> space t d = space s1 d" if "d \<in> live s1" for d
    using that new by (auto simp: t name_of_def space_def)
  have me: "h_entries t e = Some x" "name_of t e = n" "space t e = body_space s body"
    by (simp_all add: t name_of_def space_def body_space_def x s1_def)
  have fit: "body_space s body < 2 ^ 31" "unat (t_current_size s1) + body_space s body < 2 ^ 64"
  proof -
    show "body_space s body < 2 ^ 31" using assms(4) by (simp add: fits_def)
    have tbs: "table_ok s" using inv by (simp add: cache_inv_def)
    have "unat (t_current_size s1) = sum (space s1) (live s1)" using table_facts(2) [OF tb] .
    also have "\<dots> = sum (space s) (live s - gone s url)"
      unfolding s1_def by (simp, intro sum.cong refl) (simp add: name_space_outside)
    also have "\<dots> \<le> sum (space s) (live s)" using live_finite [OF tbs] by (intro sum_mono2) auto
    also have "\<dots> = unat (t_current_size s)" using table_facts(2) [OF tbs] by simp
    finally show "unat (t_current_size s1) + body_space s body < 2 ^ 64" using assms(4) by (simp add: fits_def)
  qed
  have "unat (t_current_size t) = unat (t_current_size s1) + body_space s body"
  proof -
    have "(scast (entry_disk_space (ce_size x) (t_block_size s1)) :: 64 word) = ucast (entry_disk_space (ce_size x) (t_block_size s1))"
      using fit(1) by (intro scast_small) (simp add: body_space_def x(4) s1_def)
    then show ?thesis using fit(2) by (simp add: t unat_plus_if' body_space_def x(4)) (simp add: s1_def)
  qed
  also have "\<dots> = sum (space s1) (live s1) + body_space s body" using table_facts(2) [OF tb] by simp
  also have "sum (space s1) (live s1) = sum (space t) (live s1)" using old by (intro sum.cong refl) auto
  also have "\<dots> + body_space s body = sum (space t) (live t)" using live_finite [OF tb] new me(3) by (simp add: lt)
  finally have size: "unat (t_current_size t) = sum (space t) (live t)" .
  have url: "ce_url (the (h_entries s1 d)) \<noteq> url" if "d \<in> live s1" for d
    using that by (auto simp: s1_def gone_def)
  have "table_ok t"
  proof (rule table_okI)
    show "t_block_size t \<noteq> 0" using table_facts(1) [OF tb] by (simp add: t)
    show "unat (t_current_size t) = sum (space t) (live t)" by (rule size)
    show "space t d < 2 ^ 31" if "d \<in> live t" for d
      using that old table_facts(3) [OF tb, of d] me(3) fit(1) by (auto simp: lt)
    show "d = d'" if "d \<in> live t" "d' \<in> live t" "ce_url (the (h_entries t d)) = ce_url (the (h_entries t d'))" for d d'
    proof (cases "d = e \<or> d' = e")
      case True
      have at: "ce_url (the (h_entries t z)) = url \<longleftrightarrow> z = e" if z: "z \<in> live t" for z
      proof (cases "z = e")
        case False
        then show ?thesis using z old [of z] url [of z] by (simp add: lt)
      qed (use me(1) x(1) in simp)
      show ?thesis using True at [OF that(1)] at [OF that(2)] that(3) by metis
    next
      case False
      then have "d \<in> live s1" "d' \<in> live s1" using that lt by auto
      then show ?thesis using table_facts(4) [OF tb, of d d'] that(3) old by simp
    qed
    fix k ps assume k: "t_cache_table t k = Some ps"
    have "k = get_hash url \<and> (\<exists>qs. ps = qs @ [Some e] \<and> (qs = [] \<or> t_cache_table s1 k = Some qs)) \<or> k \<noteq> get_hash url \<and> t_cache_table s1 k = Some ps"
      using k by (auto simp: t split: if_splits option.splits)
    then obtain qs where qs: "ps = qs \<or> ps = qs @ [Some e] \<and> k = get_hash url" "qs = [] \<or> t_cache_table s1 k = Some qs" by blast
    have "Some e \<notin> set qs" using new qs(2) slot_live by fastforce
    then show "k < CACHE_TABLE_SIZE \<and> distinct ps \<and> None \<notin> set ps"
      using qs slot_ok(1-3) [OF tb, of k qs] get_hash_less [of url] k by (auto simp: t split: if_splits)
    fix d assume d: "Some d \<in> set ps"
    show "d < h_next t \<and> (\<exists>y. h_entries t d = Some y \<and> get_hash (ce_url y) = k \<and> ce_hash y = int k)"
    proof (cases "Some d \<in> set qs")
      case True
      then have ts: "t_cache_table s1 k = Some qs" using qs(2) by auto
      then show ?thesis using slot_ok(4,5) [OF tb ts True] old [OF slot_live [OF ts True]] by (auto simp: t s1_def e_def)
    next
      case False
      then have "d = e" "k = get_hash url" using d qs(1) by auto
      then show ?thesis using me(1) x(1,2) by (simp add: t)
    qed
  qed
  moreover have "locks_ok t"
  proof (rule locks_okI)
    show "m_ok (t_locked_entries t)" using locks_facts(1) [OF l] by (simp add: t)
    show "g < h_next_file t \<and> h_open t g \<noteq> None \<and> (\<exists>d\<in>live t. p = Some d)" if "m_find (t_locked_entries t) g = Some p" for g p
    proof -
      have o: "h_next_file t = h_next_file s1" "h_open t = h_open s1" "t_locked_entries t = t_locked_entries s1" by (simp_all add: t)
      show ?thesis using locks_facts(2-4) [OF l, of g p] that unfolding o lt by blast
    qed
    fix d y assume d: "d \<in> live t" "h_entries t d = Some y"
    have rd: "reads t d = reads s1 d" by (simp add: t reads_def)
    show "ce_readers y = int (card (reads t d)) \<and> (ce_read_lock y \<longleftrightarrow> ce_readers y \<noteq> 0) \<and> \<not> ce_write_lock y"
    proof (cases "d = e")
      case True
      have "reads s1 e = {}" using locks_facts(4) [OF l, of _ "Some e"] new by (auto simp: reads_def)
      then show ?thesis using True d(2) me(1) x(5) rd by (simp add: unlocked_def)
    next
      case False
      then show ?thesis using locks_facts(5-7) [OF l, of d y] d rd old [of d] by (auto simp: lt)
    qed
  qed
  moreover have "files_ok t"
  proof -
    obtain six where six: "h_files s1 n = None" "n = (t_cache_root s @ show_int (int (get_hash url)) @ ''/dods'') @ six" "length six = 6" "CHR ''.'' \<notin> set six"
      using assms(3) n unfolding mkstemp_ok_def by blast
    have made: "made_name n" unfolding six(2) made_name_def using six(3,4) by simp
    have other: "name_of s1 d \<noteq> n" if "d \<in> live s1" for d using files_facts(2) [OF f that] six(1) by auto
    show ?thesis
    proof (rule files_okI)
      fix d assume d: "d \<in> live t"
      show "made_name (name_of t d) \<and> h_files t (name_of t d) \<noteq> None \<and> h_files t (name_of t d @ CACHE_META) \<noteq> None"
      proof (cases "d = e")
        case True
        then show ?thesis using made me(2) by (simp add: t)
      next
        case False
        then have ds1: "d \<in> live s1" using d lt by simp
        have keep: "h_files t p \<noteq> None" if "h_files s1 p \<noteq> None" for p using that by (simp add: t)
        have nm: "name_of t d = name_of s1 d" using old [OF ds1] by simp
        show ?thesis unfolding nm using files_facts(1-3) [OF f ds1] keep by blast
      qed
    next
      fix d d' assume "d \<in> live t" "d' \<in> live t" "name_of t d = name_of t d'"
      then show "d = d'" using files_facts(4) [OF f, of d d'] old other me(2) by (auto simp: lt) metis+
    qed
  qed
  ultimately show "cache_inv t" by (simp add: cache_inv_def)
qed

end
