(* ===== verification/CacheSteps.thy ===== *)
theory CacheSteps
  imports CacheOps
begin

text \<open>
  The operations of the HTTP cache one by one: what a lookup under the locks does, which steps keep the
  books and the responses that are being read, and the runs of a cache from its constructor on.
\<close>

section \<open>Locks\<close>

lemma lock_Inr: "lock_cache_interface s = (Inr u, t) \<longleftrightarrow> \<not> d_cache_mutex s \<and> t = s\<lparr>d_cache_mutex := True\<rparr>"
  by (auto simp: lock_cache_interface_def)

lemma unlock_Inr: "unlock_cache_interface s = (Inr u, t) \<longleftrightarrow> d_cache_mutex s \<and> t = s\<lparr>d_cache_mutex := False\<rparr>"
  by (auto simp: unlock_cache_interface_def)

lemma ret_Inr: "ret a s = (Inr b, t) \<longleftrightarrow> b = a \<and> t = s"
  by (auto simp: ret_def)

lemma raise_Inr: "raise e s \<noteq> (Inr b, t)" "stops r s \<noteq> (Inr b, t)"
  by (auto simp: raise_def stops_def)

lemma upd_Inr: "upd f s = (Inr u, t) \<longleftrightarrow> t = f s"
  by (auto simp: upd_def)

lemmas run_iffs = bind_Inr_iff lock_Inr unlock_Inr ret_Inr raise_Inr upd_Inr catch_Inr_iff the_entry_iff

text \<open>A call between the lock and the unlock of the interface.\<close>

lemma interface_Inr:
  "bind lock_cache_interface (\<lambda>_. bind (catch_rethrow m h) (\<lambda>r. bind unlock_cache_interface (\<lambda>_. ret (f r)))) s = (Inr b, t) \<longleftrightarrow>
     (\<exists>r u. \<not> d_cache_mutex s \<and> m (s\<lparr>d_cache_mutex := True\<rparr>) = (Inr r, u) \<and> d_cache_mutex u \<and> t = u\<lparr>d_cache_mutex := False\<rparr> \<and> b = f r)"
  "bind lock_cache_interface (\<lambda>_. bind (catch_rethrow m h) (\<lambda>_. unlock_cache_interface)) s = (Inr c, t) \<longleftrightarrow>
     (\<exists>r u. \<not> d_cache_mutex s \<and> m (s\<lparr>d_cache_mutex := True\<rparr>) = (Inr r, u) \<and> d_cache_mutex u \<and> t = u\<lparr>d_cache_mutex := False\<rparr>)"
  by (auto simp: run_iffs)

definition reader_added :: "cache_entry \<Rightarrow> cache_entry" where
  "reader_added x = x\<lparr>ce_read_lock := True, ce_readers := ce_readers x + 1\<rparr>"

lemma lock_read_ok:
  assumes "h_entries s e = Some x" "\<not> ce_write_lock x"
  shows "lock_read_response e s = (Inr (), s\<lparr>h_entries := (h_entries s)(e \<mapsto> reader_added x)\<rparr>)"
proof (cases "ce_read_lock x")
  case True
  then have "x\<lparr>ce_readers := ce_readers x + 1\<rparr> = reader_added x" by (simp add: reader_added_def)
  then show ?thesis using assms True by (simp add: lock_read_response_def bind_def the_entry_def op_defs)
qed (use assms in \<open>simp add: lock_read_response_def bind_def the_entry_def op_defs reader_added_def\<close>)

lemma unlock_read_ok:
  assumes "h_entries s e = Some (reader_added x)" "ce_read_lock x \<longleftrightarrow> ce_readers x \<noteq> 0"
  shows "unlock_read_response e s = (Inr (), s\<lparr>h_entries := (h_entries s)(e \<mapsto> x)\<rparr>)"
proof (cases "ce_readers x = 0")
  case True
  have "(reader_added x)\<lparr>ce_readers := 0, ce_read_lock := False\<rparr> = x" using True assms(2)
    by (intro cache_entry.equality) (simp_all add: reader_added_def)
  then show ?thesis using assms True
    by (simp add: unlock_read_response_def bind_def the_entry_def op_defs Let_def) (simp add: reader_added_def)
next
  case False
  have eq: "x\<lparr>ce_read_lock := True\<rparr> = x" using False assms(2)
    by (intro cache_entry.equality) simp_all
  show ?thesis using assms False
    by (simp add: unlock_read_response_def bind_def the_entry_def op_defs Let_def) (simp add: reader_added_def eq)
qed

lemma get_locked_ok:
  assumes "cache_inv s" "holds_url s url e x"
  shows "get_locked_entry_from_cache_table url s = (Inr (Some e), s\<lparr>h_entries := (h_entries s)(e \<mapsto> reader_added x)\<rparr>)"
proof -
  have t: "table_ok s" and l: "locks_ok s" using assms(1) by (auto simp: cache_inv_def)
  have e: "e \<in> live s" "h_entries s e = Some x" using assms(2) by (auto simp: holds_url_def)
  show ?thesis
    using find_entry_some [OF t assms(2)] lock_read_ok [OF e(2)] locks_facts(7) [OF l e]
    by (simp add: get_locked_entry_from_cache_table_def bind_def ret_def)
qed

lemma get_locked_none:
  assumes "cache_inv s" "\<And>e x. \<not> holds_url s url e x"
  shows "get_locked_entry_from_cache_table url s = (Inr None, s)"
  using find_entry_none [OF _ assms(2)] assms(1)
  by (simp add: get_locked_entry_from_cache_table_def bind_def ret_def cache_inv_def)

lemma entry_back: "h_entries s e = Some x \<Longrightarrow> s\<lparr>h_entries := (h_entries s)(e \<mapsto> x)\<rparr> = s"
  by (intro http_cache.equality) auto

text \<open>The interface mutex is not among what the books say.\<close>

lemma mutex_free [simp]:
  "live (s\<lparr>d_cache_mutex := b\<rparr>) = live s" "holds_url (s\<lparr>d_cache_mutex := b\<rparr>) = holds_url s" "gone (s\<lparr>d_cache_mutex := b\<rparr>) = gone s"
  "reads (s\<lparr>d_cache_mutex := b\<rparr>) = reads s" "name_of (s\<lparr>d_cache_mutex := b\<rparr>) = name_of s" "space (s\<lparr>d_cache_mutex := b\<rparr>) = space s"
  "fits (s\<lparr>d_cache_mutex := b\<rparr>) = fits s"
  by (auto simp: live_def holds_url_def gone_def reads_def name_of_def space_def fits_def body_space_def fun_eq_iff)

lemma mutex_inv [simp]: "cache_inv (s\<lparr>d_cache_mutex := b\<rparr>) = cache_inv s"
  by (simp add: cache_inv_def table_ok_def locks_ok_def files_ok_def)

section \<open>Steps that keep the books\<close>

text \<open>The bodies that stay bound in a step: all those that are not in \<open>F\<close>.\<close>

definition keeps :: "nat set \<Rightarrow> http_cache \<Rightarrow> http_cache \<Rightarrow> bool" where
  "keeps F s t \<longleftrightarrow>
     (\<forall>f e. f \<notin> F \<longrightarrow> m_find (t_locked_entries s) f = Some (Some e) \<longrightarrow>
        m_find (t_locked_entries t) f = Some (Some e) \<and> name_of t e = name_of s e \<and>
        ce_url (the (h_entries t e)) = ce_url (the (h_entries s e)) \<and> h_files t (name_of s e) = h_files s (name_of s e))"

definition good :: "nat set \<Rightarrow> http_cache \<Rightarrow> http_cache \<Rightarrow> bool" where
  "good F s t \<longleftrightarrow> cache_inv t \<and> t_cache_index t = t_cache_index s \<and> t_cache_root t = t_cache_root s \<and> keeps F s t"

lemma goodI:
  assumes "cache_inv t" "t_cache_index t = t_cache_index s" "t_cache_root t = t_cache_root s"
    "\<And>f e. f \<notin> F \<Longrightarrow> m_find (t_locked_entries s) f = Some (Some e) \<Longrightarrow>
      m_find (t_locked_entries t) f = Some (Some e) \<and> name_of t e = name_of s e \<and>
      ce_url (the (h_entries t e)) = ce_url (the (h_entries s e)) \<and> h_files t (name_of s e) = h_files s (name_of s e)"
  shows "good F s t"
  using assms unfolding good_def keeps_def by blast

lemma good_refl: "cache_inv s \<Longrightarrow> good F s s"
  by (simp add: good_def keeps_def)

lemma good_trans: "good F s t \<Longrightarrow> good F t u \<Longrightarrow> good F s u"
  unfolding good_def keeps_def by metis

lemma good_mono: "good {} s t \<Longrightarrow> good F s t"
  unfolding good_def keeps_def by blast

lemma good_mutex [simp]: "good F (s\<lparr>d_cache_mutex := b\<rparr>) t = good F s t" "good F s (t\<lparr>d_cache_mutex := b\<rparr>) = good F s t"
  by (simp_all add: good_def keeps_def)

text \<open>A locked body belongs to an entry of the table that is in use.\<close>

lemma locked_body:
  assumes "cache_inv s" "m_find (t_locked_entries s) f = Some (Some e)"
  obtains x where "e \<in> live s" "f \<in> reads s e" "h_entries s e = Some x" "ce_readers x \<noteq> 0" "made_name (name_of s e)"
    "h_files s (name_of s e) \<noteq> None"
proof -
  have t: "table_ok s" and l: "locks_ok s" and f: "files_ok s" using assms(1) by (auto simp: cache_inv_def)
  have e: "e \<in> live s" using locks_facts(4) [OF l assms(2)] by auto
  have r: "f \<in> reads s e" using assms(2) by (simp add: reads_def)
  obtain x where x: "h_entries s e = Some x" using live_entry [OF t e] by blast
  have "card (reads s e) \<noteq> 0" using r by auto
  then have "ce_readers x \<noteq> 0" using locks_facts(5) [OF l e x] by simp
  with e r x show thesis using that files_facts(1,2) [OF f e] by blast
qed

lemma drop_set_good:
  assumes "cache_inv s" "E \<subseteq> live s" "\<forall>e\<in>E. reads s e = {}"
  shows "good {} s (drop_set E s)"
proof (rule goodI)
  show "cache_inv (drop_set E s)" using drop_set_inv [OF assms] .
  fix f e assume b: "m_find (t_locked_entries s) f = Some (Some e)"
  obtain x where e: "e \<in> live s" "f \<in> reads s e" "made_name (name_of s e)" using locked_body [OF assms(1) b] by blast
  have n: "e \<notin> E" using e(2) assms(3) by auto
  have fs: "files_ok s" using assms(1) by (simp add: cache_inv_def)
  have "name_of s e \<noteq> name_of s d \<and> name_of s e \<noteq> name_of s d @ CACHE_META" if "d \<in> E" for d
    using files_facts(4) [OF fs e(1), of d] that n assms(2) made_name_meta [OF e(3)] by blast
  then show "m_find (t_locked_entries (drop_set E s)) f = Some (Some e) \<and> name_of (drop_set E s) e = name_of s e \<and>
      ce_url (the (h_entries (drop_set E s) e)) = ce_url (the (h_entries s e)) \<and> h_files (drop_set E s) (name_of s e) = h_files s (name_of s e)"
    using b n name_space_outside(1) [OF n] by auto
qed simp_all

lemma pruned_good: "cache_inv s \<Longrightarrow> pruned s t \<Longrightarrow> good {} s t"
  using drop_set_good by (auto simp: pruned_def)

lemma quiet_good:
  assumes "cache_inv s" "t_cache_table t = t_cache_table s" "t_block_size t = t_block_size s" "t_current_size t = t_current_size s"
    "t_locked_entries t = t_locked_entries s" "h_next s \<le> h_next t" "h_next_file s \<le> h_next_file t" "h_open t = h_open s"
    "t_cache_index t = t_cache_index s" "t_cache_root t = t_cache_root s"
    and same: "\<And>e x. e \<in> live s \<Longrightarrow> h_entries s e = Some x \<Longrightarrow> \<exists>y. h_entries t e = Some y \<and> same_key x y"
    and files: "\<And>e. e \<in> live s \<Longrightarrow> made_name (name_of s e) \<Longrightarrow> h_files t (name_of s e) = h_files s (name_of s e) \<and> h_files t (name_of s e @ CACHE_META) \<noteq> None"
  shows "good {} s t"
proof (rule goodI)
  have f: "files_ok s" using assms(1) by (simp add: cache_inv_def)
  have kept: "h_files t (name_of s e) = h_files s (name_of s e) \<and> h_files t (name_of s e @ CACHE_META) \<noteq> None \<and> h_files s (name_of s e) \<noteq> None"
    if "e \<in> live s" for e
    using files [OF that] files_facts(1,2) [OF f that] by blast
  show "cache_inv t" by (rule cache_inv_cong [OF assms(1-7)]) (use assms(8) same kept in auto)
  fix g e assume g: "m_find (t_locked_entries s) g = Some (Some e)"
  obtain x where e: "e \<in> live s" "h_entries s e = Some x" using locked_body [OF assms(1) g] by blast
  obtain y where y: "h_entries t e = Some y" "same_key x y" using same [OF e] by blast
  have "name_of t e = name_of s e \<and> ce_url (the (h_entries t e)) = ce_url (the (h_entries s e))"
    using e y by (simp add: name_of_def same_key_def)
  then show "m_find (t_locked_entries t) g = Some (Some e) \<and> name_of t e = name_of s e \<and>
      ce_url (the (h_entries t e)) = ce_url (the (h_entries s e)) \<and> h_files t (name_of s e) = h_files s (name_of s e)"
    using g assms(5) kept [OF e(1)] by simp
qed (use assms in auto)

definition index_named :: "http_cache \<Rightarrow> bool" where
  "index_named s \<longleftrightarrow> t_cache_index s = t_cache_root s @ ''.index''"

lemma index_no_response:
  assumes "index_named s" "made_name n"
  shows "n \<noteq> t_cache_index s" "n @ CACHE_META \<noteq> t_cache_index s"
proof -
  show "n \<noteq> t_cache_index s" using assms by (auto simp: made_name_def index_named_def)
  have "rev (n @ CACHE_META) ! 1 \<noteq> rev (t_cache_root s @ ''.index'') ! 1" by (simp add: CACHE_META_def)
  then show "n @ CACHE_META \<noteq> t_cache_index s" using assms(1) by (metis index_named_def)
qed

lemma index_write_good:
  assumes "cache_inv s" "index_named s" "cache_index_write v s = (Inr u, t)"
  shows "good {} s t"
proof -
  obtain c where t: "t = s\<lparr>h_files := (h_files s)(t_cache_index s \<mapsto> c), t_new_entries := 0\<rparr>"
    using assms(3) by (auto simp: cache_index_write_def Let_def raise_Inr split: if_splits sum.splits)
  show ?thesis
    unfolding t using index_no_response [OF assms(2)] files_facts(3) [of s] assms(1)
    by (intro quiet_good assms(1)) (auto simp: cache_inv_def)
qed

lemma shrink_good:
  assumes "cache_inv s" "index_named s" "bind (perform_garbage_collection v) (\<lambda>_. cache_index_write v) s = (Inr u, t)"
  shows "good {} s t"
proof -
  obtain a where a: "perform_garbage_collection v s = (Inr (), a)" "cache_index_write v a = (Inr u, t)"
    using assms(3) by (auto simp: bind_Inr_iff)
  have p: "pruned s a" using perform_gc_prunes [OF assms(1), of v] a(1) by auto
  note g = pruned_good [OF assms(1) p]
  have "index_named a" "cache_inv a" using g assms(2) by (auto simp: good_def index_named_def)
  then show ?thesis using good_trans [OF g index_write_good [OF _ _ a(2)]] by blast
qed

lemma dump_good:
  assumes "cache_inv s" "index_named s" "dump_index v s = (Inr u, t)"
  shows "good {} s t"
proof (cases "t_new_entries s > 10")
  case True
  then obtain a where a: "collect_if_needed v s = (Inr (), a)" "cache_index_write v a = (Inr u, t)"
    using assms(3) by (auto simp: dump_index_def bind_Inr_iff)
  have p: "pruned s a" using collect_prunes [OF assms(1), of v] a(1) by auto
  note g = pruned_good [OF assms(1) p]
  have "index_named a" "cache_inv a" using g assms(2) by (auto simp: good_def index_named_def)
  then show ?thesis using good_trans [OF g index_write_good [OF _ _ a(2)]] by blast
next
  case False
  then show ?thesis using assms good_refl by (auto simp: dump_index_def)
qed

lemma shrink_cache_good:
  assumes "cache_inv s" "index_named s" "shrink_cache v b s = (Inr u, t)"
  shows "good {} s t"
  using assms shrink_good good_refl by (auto simp: shrink_cache_def split: if_splits)

lemma gone_unread:
  assumes "cache_inv s" "\<forall>e x. holds_url s url e x \<longrightarrow> ce_readers x = 0"
  shows "gone s url \<subseteq> live s" "\<forall>e\<in>gone s url. reads s e = {}"
proof -
  show "gone s url \<subseteq> live s" by (auto simp: gone_def)
  show "\<forall>e\<in>gone s url. reads s e = {}"
  proof
    fix e assume e: "e \<in> gone s url"
    then have l: "e \<in> live s" by (simp add: gone_def)
    obtain x where x: "h_entries s e = Some x" using live_entry [OF _ l] assms(1) by (auto simp: cache_inv_def)
    then have "ce_readers x = 0" using assms(2) e l by (simp add: gone_def holds_url_def)
    then show "reads s e = {}" using unlocked_no_reads [OF _ l x] assms(1) by (simp add: cache_inv_def)
  qed
qed

lemma stored_good:
  assumes inv: "cache_inv s" and st: "stored v url headers body s t" and "mkstemp_ok v" "fits s body"
    and free: "\<forall>e x. holds_url s url e x \<longrightarrow> ce_readers x = 0"
  shows "good {} s t"
proof -
  define s1 where "s1 = drop_set (gone s url) s"
  have g: "good {} s s1" unfolding s1_def using drop_set_good [OF inv gone_unread [OF inv free]] .
  then have i1: "cache_inv s1" by (simp add: good_def)
  obtain n x ds T c where n: "mkstemp v (h_files s1) (t_cache_root s @ show_int (int (get_hash url)) @ ''/dods'') = Some n"
    and t: "h_files t = (h_files s1)(n \<mapsto> body, n @ CACHE_META \<mapsto> c)" "h_entries t = (h_entries s1)(h_next s \<mapsto> x)"
      "t_locked_entries t = t_locked_entries s1" "t_cache_index t = t_cache_index s1" "t_cache_root t = t_cache_root s1"
    using st unfolding stored_def s1_def by auto
  have free_n: "h_files s1 n = None" using assms(3) n unfolding mkstemp_ok_def by blast
  have "good {} s1 t"
  proof (rule goodI)
    show "cache_inv t" using stored_inv(1) [OF assms] .
    fix f e assume b: "m_find (t_locked_entries s1) f = Some (Some e)"
    then obtain y where y: "e \<in> live s1" "made_name (name_of s1 e)" "h_files s1 (name_of s1 e) \<noteq> None"
      using locked_body [OF i1 b] by blast
    have "e < h_next s1" using live_entry [OF _ y(1)] i1 by (auto simp: cache_inv_def)
    then have "e \<noteq> h_next s" by (simp add: s1_def)
    moreover have "name_of s1 e \<noteq> n" "name_of s1 e \<noteq> n @ CACHE_META" using y free_n made_name_meta [OF y(2)] by auto
    ultimately show "m_find (t_locked_entries t) f = Some (Some e) \<and> name_of t e = name_of s1 e \<and>
        ce_url (the (h_entries t e)) = ce_url (the (h_entries s1 e)) \<and> h_files t (name_of s1 e) = h_files s1 (name_of s1 e)"
      using b by (simp add: t name_of_def)
  qed (simp_all add: t)
  then show ?thesis using good_trans [OF g] by blast
qed

lemma store_good:
  assumes "cache_inv s" "store_response v url rt headers body s = (Inr b, t)" "mkstemp_ok v" "fits s (fst body)"
  shows "good {} s t"
proof -
  note r = store_response_Inr [OF assms(1,2)]
  show ?thesis
  proof (cases b)
    case True
    then show ?thesis using stored_good [OF assms(1) _ assms(3,4)] r by auto
  next
    case False
    define s1 where "s1 = drop_set (gone s url) s"
    have g: "good {} s s1" unfolding s1_def using drop_set_good [OF assms(1) gone_unread [OF assms(1)]] r by blast
    then have i1: "cache_inv s1" by (simp add: good_def)
    have t: "t = s1\<lparr>h_entries := (h_entries s1)(h_next s := None), h_next := h_next s + 1\<rparr>" using r False by (simp add: s1_def)
    have "good {} s1 t"
    proof (rule quiet_good [OF i1])
      show "\<exists>y. h_entries t e = Some y \<and> same_key x y" if "e \<in> live s1" "h_entries s1 e = Some x" for e x
      proof -
        have "e < h_next s1" using live_entry [OF _ that(1)] i1 by (auto simp: cache_inv_def)
        then show ?thesis using that(2) by (simp add: t s1_def)
      qed
      show "h_files t (name_of s1 e) = h_files s1 (name_of s1 e) \<and> h_files t (name_of s1 e @ CACHE_META) \<noteq> None" if "e \<in> live s1" for e
        using files_facts(3) [OF _ that] i1 by (auto simp: t cache_inv_def)
    qed (simp_all add: t, simp_all add: s1_def)
    then show ?thesis using good_trans [OF g] by blast
  qed
qed

lemma cache_response_good:
  assumes "cache_inv s" "index_named s" "cache_response v url rt headers body s = (Inr b, t)" "mkstemp_ok v" "fits s (fst body)"
  shows "good {} s t"
proof (cases "is_http_url url")
  case False
  then show ?thesis using assms(1,3) good_refl by (auto simp: cache_response_def run_iffs)
next
  case True
  define s0 where "s0 = s\<lparr>d_cache_mutex := True\<rparr>"
  obtain a c u where a: "store_response v url rt headers body s0 = (Inr a, c)" "if a then dump_index v c = (Inr (), u) else u = c"
    and t: "t = u\<lparr>d_cache_mutex := False\<rparr>"
    using assms(3) True by (auto simp: cache_response_def run_iffs s0_def split: if_splits)
  have g: "good {} s0 c" using store_good [OF _ a(1) assms(4)] assms(1,5) by (simp add: s0_def)
  then have "cache_inv c" "index_named c" using assms(2) by (auto simp: good_def index_named_def s0_def)
  then have "good {} c u" using dump_good [of c v "()" u] a(2) good_refl by (auto split: if_splits)
  then show ?thesis using good_trans [OF g] by (simp add: s0_def t)
qed

text \<open>An update changes the headers in one file and what was read from them in the entry.\<close>

lemma get_write_locked_Inr:
  assumes "cache_inv s" "get_write_locked_entry_from_cache_table url s = (Inr (Some e), t)"
  shows "\<exists>x. holds_url s url e x \<and> unlocked x \<and> t = s\<lparr>h_entries := (h_entries s)(e \<mapsto> x\<lparr>ce_read_lock := True, ce_write_lock := True\<rparr>)\<rparr>"
proof -
  have tb: "table_ok s" using assms(1) by (simp add: cache_inv_def)
  have f: "find_entry (get_hash url) url s = (Inr (Some e), s)" "lock_write_response e s = (Inr (), t)"
    using assms(2) by (auto simp: get_write_locked_entry_from_cache_table_def run_iffs find_entry_def split: option.splits)
  obtain x where x: "holds_url s url e x"
    using f(1) find_entry_none [OF tb, of url] find_entry_some [OF tb, of url] by fastforce
  then have e: "e \<in> live s" "h_entries s e = Some x" by (auto simp: holds_url_def)
  have w: "\<not> ce_read_lock x" "\<not> ce_write_lock x" "t = s\<lparr>h_entries := (h_entries s)(e \<mapsto> x\<lparr>ce_read_lock := True, ce_write_lock := True\<rparr>)\<rparr>"
    using f(2) e by (auto simp: lock_write_response_def bind_def the_entry_def op_defs split: if_splits)
  then show ?thesis using x locks_facts(6) [OF _ e] assms(1) by (auto simp: unlocked_def cache_inv_def)
qed

lemma read_metadata_Inr: "read_metadata v n s = (Inr hs, t) \<longleftrightarrow>
    t = s \<and> can_open v (n @ CACHE_META) \<and> (\<exists>c. h_files s (n @ CACHE_META) = Some c \<and> headers_of_lines (fgets_lines c) = Inr hs)"
  by (auto simp: read_metadata_def raise_Inr split: option.splits)

lemma update_response_Inr:
  assumes "cache_inv s" "update_response v url rt headers s = (Inr b, t)"
  shows "\<exists>e x y old c. holds_url s url e x \<and> unlocked x \<and> same_key x y \<and> ce_hits y = ce_hits x \<and>
    read_metadata v (ce_cachename x) s = (Inr old, s) \<and> can_open v (ce_cachename x @ CACHE_META) \<and>
    write_headers (can_write v (ce_cachename x @ CACHE_META)) (merge_headers headers old) [] = (Inr (), c) \<and>
    t = s\<lparr>h_files := (h_files s)(ce_cachename x @ CACHE_META \<mapsto> c), h_entries := (h_entries s)(e \<mapsto> y), d_cache_mutex := False\<rparr>"
proof -
  define s0 where "s0 = s\<lparr>d_cache_mutex := True\<rparr>"
  have i0: "cache_inv s0" using assms(1) by (simp add: s0_def)
  obtain e s1 s2 m old s3 s4 where
      g: "get_write_locked_entry_from_cache_table url s0 = (Inr (Some e), s1)"
    and p: "parse_headers v e (d_max_entry_size s1) headers s1 = (Inr (), s2)"
    and c: "calculate_time v e (d_default_expiration s2) rt s2 = (Inr (), s3)"
    and x3: "h_entries s3 e = Some m"
    and r: "read_metadata v (ce_cachename m) s3 = (Inr old, s3)"
    and w: "write_metadata v (ce_cachename m) (merge_headers headers old) s3 = (Inr (), s4)"
    and u: "bind (unlock_write_response e) (\<lambda>_. unlock_cache_interface) s4 = (Inr b, t)"
    using assms(2) unfolding update_response_def s0_def
    by (auto simp: lock_Inr bind_Inr_iff catch_Inr_iff the_entry_iff raise_Inr ret_Inr read_metadata_Inr split: option.splits)
  obtain x where x: "holds_url s url e x" "unlocked x" "s1 = s0\<lparr>h_entries := (h_entries s)(e \<mapsto> x\<lparr>ce_read_lock := True, ce_write_lock := True\<rparr>)\<rparr>"
    using get_write_locked_Inr [OF i0 g] by (auto simp: s0_def)
  obtain y where y: "same_key (x\<lparr>ce_read_lock := True, ce_write_lock := True\<rparr>) y" "ce_hits y = ce_hits x" "s2 = s0\<lparr>h_entries := (h_entries s)(e \<mapsto> y)\<rparr>"
    using p parse_headers_same [of v "d_max_entry_size s1" headers] by (fastforce simp: parse_headers_Inr x(3))
  define z where "z = timed v (d_default_expiration s2) rt y"
  have z: "same_key (x\<lparr>ce_read_lock := True, ce_write_lock := True\<rparr>) z" "ce_hits z = ce_hits x"
    using y timed_same [of y v "d_default_expiration s2" rt] same_key_trans by (auto simp: z_def)
  have s3: "s3 = s0\<lparr>h_entries := (h_entries s)(e \<mapsto> z)\<rparr>" using c by (auto simp: calculate_time_Inr y(3) z_def)
  have m: "m = z" using x3 by (simp add: s3)
  have nm: "ce_cachename z = ce_cachename x" using z(1) by (simp add: same_key_def)
  obtain cs where cs: "can_open v (ce_cachename x @ CACHE_META)"
      "write_headers (can_write v (ce_cachename x @ CACHE_META)) (merge_headers headers old) [] = (Inr (), cs)"
      "s4 = s3\<lparr>h_files := (h_files s)(ce_cachename x @ CACHE_META \<mapsto> cs)\<rparr>"
    using w unfolding m nm by (auto simp: write_metadata_Inr s3 s0_def)
  have "h_entries s4 e = Some z" "ce_write_lock z" "ce_read_lock z" using z(1) by (simp_all add: cs(3) s3 same_key_def)
  then have "t = s4\<lparr>h_entries := (h_entries s4)(e \<mapsto> z\<lparr>ce_write_lock := False, ce_read_lock := False\<rparr>), d_cache_mutex := False\<rparr>"
    using u by (auto simp: bind_Inr_iff unlock_Inr unlock_write_response_def the_entry_iff op_defs bind_def the_entry_def)
  then have t: "t = s\<lparr>h_files := (h_files s)(ce_cachename x @ CACHE_META \<mapsto> cs),
      h_entries := (h_entries s)(e \<mapsto> z\<lparr>ce_write_lock := False, ce_read_lock := False\<rparr>), d_cache_mutex := False\<rparr>"
    by (simp add: cs(3) s3 s0_def)
  have "same_key x (z\<lparr>ce_write_lock := False, ce_read_lock := False\<rparr>)" using z(1) x(2) by (simp add: same_key_def unlocked_def)
  moreover have "ce_hits (z\<lparr>ce_write_lock := False, ce_read_lock := False\<rparr>) = ce_hits x" using z(2) by simp
  moreover have "read_metadata v (ce_cachename x) s = (Inr old, s)" using r unfolding m nm by (auto simp: read_metadata_Inr s3 s0_def)
  ultimately show ?thesis using x(1,2) cs(1,2) t by blast
qed

lemma holds_files:
  assumes "cache_inv s" "holds_url s url e x"
  shows "e \<in> live s" "h_entries s e = Some x" "made_name (ce_cachename x)" "name_of s e = ce_cachename x" "ce_url x = url"
    "h_files s (ce_cachename x) \<noteq> None" "h_files s (ce_cachename x @ CACHE_META) \<noteq> None"
proof -
  show e: "e \<in> live s" "h_entries s e = Some x" "name_of s e = ce_cachename x" "ce_url x = url"
    using assms(2) by (auto simp: holds_url_def name_of_def)
  have f: "files_ok s" using assms(1) by (simp add: cache_inv_def)
  show "made_name (ce_cachename x)" "h_files s (ce_cachename x) \<noteq> None" "h_files s (ce_cachename x @ CACHE_META) \<noteq> None"
    using files_facts(1-3) [OF f e(1)] e(3) by auto
qed

lemma update_response_good:
  assumes "cache_inv s" "update_response v url rt headers s = (Inr b, t)"
  shows "good {} s t"
proof -
  obtain e x y c where x: "holds_url s url e x" "same_key x y"
    and t: "t = s\<lparr>h_files := (h_files s)(ce_cachename x @ CACHE_META \<mapsto> c), h_entries := (h_entries s)(e \<mapsto> y), d_cache_mutex := False\<rparr>"
    using update_response_Inr [OF assms] by blast
  show ?thesis
  proof (rule quiet_good [OF assms(1)])
    show "\<exists>z. h_entries t d = Some z \<and> same_key w z" if "d \<in> live s" "h_entries s d = Some w" for d w
      using that x holds_files(2) [OF assms(1) x(1)] by (auto simp: t)
    show "h_files t (name_of s d) = h_files s (name_of s d) \<and> h_files t (name_of s d @ CACHE_META) \<noteq> None"
      if "d \<in> live s" "made_name (name_of s d)" for d
      using made_name_meta [OF that(2)] files_facts(3) [OF _ that(1)] assms(1) by (auto simp: t cache_inv_def)
  qed (simp_all add: t)
qed

section \<open>Reading and releasing\<close>

definition opened :: "http_cache \<Rightarrow> nat \<Rightarrow> cache_entry \<Rightarrow> string \<Rightarrow> http_cache" where
  "opened s e x body =
     s\<lparr>h_entries := (h_entries s)(e \<mapsto> (reader_added x)\<lparr>ce_hits := ce_hits x + 1\<rparr>),
       h_open := (h_open s)(h_next_file s \<mapsto> body), h_next_file := h_next_file s + 1,
       t_locked_entries := m_set (h_next_file s) (Some e) (t_locked_entries s)\<rparr>"

lemma get_cached_ok:
  assumes "cache_inv s" "\<not> d_cache_mutex s" "holds_url s url e x" "read_metadata v (ce_cachename x) s = (Inr hs, s)"
    "can_open v (ce_cachename x)" "h_files s (ce_cachename x) = Some body"
  shows "get_cached_response v url s = (Inr (Some (h_next_file s, hs, ce_cachename x)), opened s e x body)"
proof -
  define s0 where "s0 = s\<lparr>d_cache_mutex := True\<rparr>"
  define s1 where "s1 = s0\<lparr>h_entries := (h_entries s)(e \<mapsto> reader_added x)\<rparr>"
  have g: "get_locked_entry_from_cache_table url s0 = (Inr (Some e), s1)"
    using get_locked_ok [of s0 url e x] assms(1,3) by (simp add: s0_def s1_def)
  have r: "read_metadata v (ce_cachename x) s1 = (Inr hs, s1)" using assms(4) by (auto simp: read_metadata_Inr s1_def s0_def)
  have n: "ce_cachename (reader_added x) = ce_cachename x" "ce_hits (reader_added x) = ce_hits x" by (simp_all add: reader_added_def)
  have "opened s0 e x body = (opened s e x body)\<lparr>d_cache_mutex := True\<rparr>"
    by (intro http_cache.equality) (simp_all add: opened_def s0_def)
  moreover have "(opened s e x body)\<lparr>d_cache_mutex := False\<rparr> = opened s e x body"
    using assms(2) by (intro http_cache.equality) (simp_all add: opened_def)
  moreover have "s1\<lparr>h_open := (h_open s)(h_next_file s \<mapsto> body), h_next_file := Suc (h_next_file s),
      h_entries := (h_entries s)(e \<mapsto> (reader_added x)\<lparr>ce_hits := ce_hits x + 1\<rparr>),
      t_locked_entries := m_set (h_next_file s) (Some e) (t_locked_entries s)\<rparr> = opened s0 e x body"
    by (intro http_cache.equality) (simp_all add: opened_def s1_def s0_def)
  ultimately show ?thesis
    unfolding get_cached_response_def
    using assms(2,5,6) g r n
    by (simp add: bind_def lock_cache_interface_def s0_def [symmetric] catch_rethrow_def the_entry_def s1_def [symmetric])
      (simp add: bind_def the_entry_def s1_def s0_def open_body_def bind_entry_to_data_def op_defs unlock_cache_interface_def)
qed

lemma get_cached_Inr:
  assumes "cache_inv s" "get_cached_response v url s = (Inr r, t)"
  shows "t = s \<and> r = None \<or> (\<exists>e x hs body. holds_url s url e x \<and> h_files s (ce_cachename x) = Some body \<and>
    read_metadata v (ce_cachename x) s = (Inr hs, s) \<and> can_open v (ce_cachename x) \<and>
    r = Some (h_next_file s, hs, ce_cachename x) \<and> t = opened s e x body)"
proof -
  define s0 where "s0 = s\<lparr>d_cache_mutex := True\<rparr>"
  have m: "\<not> d_cache_mutex s" using assms(2) by (auto simp: get_cached_response_def run_iffs)
  show ?thesis
  proof (cases "\<exists>e x. holds_url s url e x")
    case False
    then have "get_locked_entry_from_cache_table url s0 = (Inr None, s0)" using get_locked_none [of s0 url] assms(1) by (simp add: s0_def)
    then have "t = s \<and> r = None"
      using assms(2) m by (auto simp: get_cached_response_def run_iffs s0_def http_cache.equality)
    then show ?thesis ..
  next
    case True
    then obtain e x where x: "holds_url s url e x" by blast
    have g: "get_locked_entry_from_cache_table url s0 = (Inr (Some e), s0\<lparr>h_entries := (h_entries s)(e \<mapsto> reader_added x)\<rparr>)"
      using get_locked_ok [of s0 url e x] assms(1) x by (simp add: s0_def)
    obtain hs c where r: "read_metadata v (ce_cachename x) s = (Inr hs, s)"
      and o: "h_files s (ce_cachename x) = Some c" "can_open v (ce_cachename x)"
      using assms(2) m g unfolding get_cached_response_def
      by (auto simp: bind_Inr_iff lock_Inr catch_Inr_iff s0_def the_entry_iff read_metadata_Inr reader_added_def open_body_def raise_Inr split: option.splits if_splits)
    show ?thesis using get_cached_ok [OF assms(1) m x r o(2,1)] assms(2) x r o by auto
  qed
qed

lemma opened_good:
  assumes inv: "cache_inv s" and x: "holds_url s url e x"
  shows "good {} s (opened s e x body)"
proof -
  have tb: "table_ok s" and l: "locks_ok s" and f: "files_ok s" using inv by (auto simp: cache_inv_def)
  note h = holds_files [OF inv x]
  define t where "t = opened s e x body"
  define y where "y = (reader_added x)\<lparr>ce_hits := ce_hits x + 1\<rparr>"
  define g where "g = h_next_file s"
  have lv: "live t = live s" by (simp add: live_def t_def opened_def)
  have ent: "h_entries t = (h_entries s)(e \<mapsto> y)" by (simp add: t_def opened_def y_def)
  have yx: "ce_url y = ce_url x" "ce_hash y = ce_hash x" "ce_cachename y = ce_cachename x" "ce_size y = ce_size x"
    by (simp_all add: y_def reader_added_def)
  have nm: "name_of t d = name_of s d \<and> space t d = space s d \<and> ce_url (the (h_entries t d)) = ce_url (the (h_entries s d))" for d
    using h(2) yx by (simp add: name_of_def space_def ent) (simp add: t_def opened_def)
  have fresh: "m_find (t_locked_entries s) g = None" using locks_facts(2) [OF l, of g] by (cases "m_find (t_locked_entries s) g") (auto simp: g_def)
  have lk: "m_find (t_locked_entries t) k = (if k = g then Some (Some e) else m_find (t_locked_entries s) k)" for k
    by (simp add: t_def opened_def g_def)
  have rd: "reads t d = (if d = e then insert g (reads s d) else reads s d)" for d using fresh by (auto simp: reads_def lk)
  have g: "g \<notin> reads s e" using fresh by (simp add: reads_def)
  have "table_ok t"
  proof (rule table_okI)
    show "t_block_size t \<noteq> 0" using table_facts(1) [OF tb] by (simp add: t_def opened_def)
    have "sum (space t) (live t) = sum (space s) (live s)" using nm lv by (intro sum.cong) auto
    then show "unat (t_current_size t) = sum (space t) (live t)" using table_facts(2) [OF tb] by (simp add: t_def opened_def)
    show "d = d'" if "d \<in> live t" "d' \<in> live t" "ce_url (the (h_entries t d)) = ce_url (the (h_entries t d'))" for d d'
      using table_facts(4) [OF tb, of d d'] that nm lv by simp
    show "space t d < 2 ^ 31" if "d \<in> live t" for d using table_facts(3) [OF tb, of d] that nm lv by simp
    fix k ps assume "t_cache_table t k = Some ps"
    then have k: "t_cache_table s k = Some ps" by (simp add: t_def opened_def)
    show "k < CACHE_TABLE_SIZE \<and> distinct ps \<and> None \<notin> set ps" using slot_ok(1-3) [OF tb k] by blast
    show "d < h_next t \<and> (\<exists>z. h_entries t d = Some z \<and> get_hash (ce_url z) = k \<and> ce_hash z = int k)" if "Some d \<in> set ps" for d
      using slot_ok(4,5) [OF tb k that] h(2) yx by (auto simp: ent) (auto simp: t_def opened_def)
  qed
  moreover have "locks_ok t"
  proof (rule locks_okI)
    show "m_ok (t_locked_entries t)" using locks_facts(1) [OF l] by (simp add: t_def opened_def)
    show "k < h_next_file t \<and> h_open t k \<noteq> None \<and> (\<exists>d\<in>live t. p = Some d)" if "m_find (t_locked_entries t) k = Some p" for k p
    proof (cases "k = g")
      case True
      then have "p = Some e" using that by (simp add: lk)
      then show ?thesis using True h(1) by (simp add: lv) (simp add: t_def opened_def g_def)
    next
      case False
      then show ?thesis using locks_facts(2-4) [OF l, of k p] that by (auto simp: lk lv) (auto simp: t_def opened_def)
    qed
    fix d z assume d: "d \<in> live t" "h_entries t d = Some z"
    show "ce_readers z = int (card (reads t d)) \<and> (ce_read_lock z \<longleftrightarrow> ce_readers z \<noteq> 0) \<and> \<not> ce_write_lock z"
    proof (cases "d = e")
      case True
      then have "z = y" using d by (simp add: ent)
      then show ?thesis using True locks_facts(5,7) [OF l h(1,2)] g by (simp add: rd y_def reader_added_def)
    next
      case False
      then show ?thesis using d locks_facts(5-7) [OF l, of d z] by (simp add: ent rd lv)
    qed
  qed
  moreover have "files_ok t"
    using f nm lv unfolding files_ok_def by (simp add: t_def opened_def)
  ultimately have "cache_inv t" by (simp add: cache_inv_def)
  then show ?thesis unfolding t_def [symmetric]
  proof (rule goodI)
    show "t_cache_index t = t_cache_index s" "t_cache_root t = t_cache_root s" by (simp_all add: t_def opened_def)
    fix k d assume k: "m_find (t_locked_entries s) k = Some (Some d)"
    then have "k \<noteq> g" using fresh by auto
    then show "m_find (t_locked_entries t) k = Some (Some d) \<and> name_of t d = name_of s d \<and>
        ce_url (the (h_entries t d)) = ce_url (the (h_entries s d)) \<and> h_files t (name_of s d) = h_files s (name_of s d)"
      using k nm [of d] by (simp add: lk) (simp add: t_def opened_def)
  qed
qed

lemma get_cached_good:
  assumes "cache_inv s" "get_cached_response v url s = (Inr r, t)"
  shows "good {} s t"
  using get_cached_Inr [OF assms] good_refl [OF assms(1)] opened_good [OF assms(1)] by blast

lemma release_Inr:
  assumes inv: "cache_inv s" and r: "release_cached_response f s = (Inr u, t)"
  shows "\<exists>e x y. m_find (t_locked_entries s) f = Some (Some e) \<and> h_entries s e = Some x \<and> x = reader_added y \<and>
    (ce_read_lock y \<longleftrightarrow> ce_readers y \<noteq> 0) \<and>
    t = s\<lparr>h_entries := (h_entries s)(e \<mapsto> y), t_locked_entries := m_erase f (t_locked_entries s)\<rparr>"
proof -
  define s0 where "s0 = s\<lparr>d_cache_mutex := True\<rparr>"
  obtain w where w: "\<not> d_cache_mutex s" "uncouple_entry_from_data f s0 = (Inr (), w)" "t = w\<lparr>d_cache_mutex := False\<rparr>"
    using r by (auto simp: release_cached_response_def run_iffs s0_def)
  obtain e where e: "m_find (t_locked_entries s) f = Some (Some e)"
    using w(2) by (auto simp: uncouple_entry_from_data_def m_index_def s0_def split: option.splits)
  obtain x where x: "e \<in> live s" "f \<in> reads s e" "h_entries s e = Some x" "ce_readers x \<noteq> 0" using locked_body [OF inv e] by blast
  define y where "y = x\<lparr>ce_readers := ce_readers x - 1, ce_read_lock := (ce_readers x - 1 \<noteq> 0)\<rparr>"
  have l: "locks_ok s" using inv by (simp add: cache_inv_def)
  have xy: "x = reader_added y" using locks_facts(6) [OF l x(1,3)] x(4)
    by (intro cache_entry.equality) (simp_all add: y_def reader_added_def)
  have yl: "ce_read_lock y \<longleftrightarrow> ce_readers y \<noteq> 0" by (simp add: y_def)
  define s1 where "s1 = s0\<lparr>t_locked_entries := m_erase f (t_locked_entries s)\<rparr>"
  have "unlock_read_response e s1 = (Inr (), s1\<lparr>h_entries := (h_entries s)(e \<mapsto> y)\<rparr>)"
    using unlock_read_ok [OF _ yl, of s1 e] x(3) by (simp add: s1_def s0_def xy [symmetric])
  then have "w = s1\<lparr>h_entries := (h_entries s)(e \<mapsto> y)\<rparr>"
    using w(2) e by (auto simp: uncouple_entry_from_data_def m_index_def s0_def s1_def bind_Inr_iff ret_Inr raise_Inr the_entry_iff split: if_splits)
  then have "t = s\<lparr>h_entries := (h_entries s)(e \<mapsto> y), t_locked_entries := m_erase f (t_locked_entries s)\<rparr>"
    using w(1,3) by (intro http_cache.equality) (simp_all add: s1_def s0_def)
  with e x(3) xy yl show ?thesis by blast
qed

lemma release_good:
  assumes inv: "cache_inv s" and r: "release_cached_response f s = (Inr u, t)"
  shows "good {f} s t"
proof -
  obtain e x y where e: "m_find (t_locked_entries s) f = Some (Some e)" "h_entries s e = Some x" "x = reader_added y"
      "ce_read_lock y \<longleftrightarrow> ce_readers y \<noteq> 0"
    and t: "t = s\<lparr>h_entries := (h_entries s)(e \<mapsto> y), t_locked_entries := m_erase f (t_locked_entries s)\<rparr>"
    using release_Inr [OF assms] by blast
  have tb: "table_ok s" and l: "locks_ok s" and fl: "files_ok s" using inv by (auto simp: cache_inv_def)
  have lv: "live t = live s" by (simp add: live_def t)
  have yx: "ce_url y = ce_url x" "ce_hash y = ce_hash x" "ce_cachename y = ce_cachename x" "ce_size y = ce_size x"
    by (simp_all add: e(3) reader_added_def)
  have nm: "name_of t d = name_of s d \<and> space t d = space s d \<and> ce_url (the (h_entries t d)) = ce_url (the (h_entries s d))" for d
    using e(2) yx by (simp add: name_of_def space_def t)
  have lk: "m_find (t_locked_entries t) k = (if k = f then None else m_find (t_locked_entries s) k)" for k by (simp add: t)
  have rd: "reads t d = reads s d - {f}" for d by (auto simp: reads_def lk)
  have f: "f \<in> reads s d \<longleftrightarrow> d = e" for d using e(1) by (auto simp: reads_def)
  have "table_ok t"
  proof (rule table_okI)
    show "t_block_size t \<noteq> 0" using table_facts(1) [OF tb] by (simp add: t)
    have "sum (space t) (live t) = sum (space s) (live s)" using nm lv by (intro sum.cong) auto
    then show "unat (t_current_size t) = sum (space t) (live t)" using table_facts(2) [OF tb] by (simp add: t)
    show "d = d'" if "d \<in> live t" "d' \<in> live t" "ce_url (the (h_entries t d)) = ce_url (the (h_entries t d'))" for d d'
      using table_facts(4) [OF tb, of d d'] that nm lv by simp
    show "space t d < 2 ^ 31" if "d \<in> live t" for d using table_facts(3) [OF tb, of d] that nm lv by simp
    fix k ps assume "t_cache_table t k = Some ps"
    then have k: "t_cache_table s k = Some ps" by (simp add: t)
    show "k < CACHE_TABLE_SIZE \<and> distinct ps \<and> None \<notin> set ps" using slot_ok(1-3) [OF tb k] by blast
    show "d < h_next t \<and> (\<exists>z. h_entries t d = Some z \<and> get_hash (ce_url z) = k \<and> ce_hash z = int k)" if "Some d \<in> set ps" for d
      using slot_ok(4,5) [OF tb k that] e(2) yx by (auto simp: t)
  qed
  moreover have "locks_ok t"
  proof (rule locks_okI)
    show "m_ok (t_locked_entries t)" using locks_facts(1) [OF l] by (simp add: t)
    show "k < h_next_file t \<and> h_open t k \<noteq> None \<and> (\<exists>d\<in>live t. p = Some d)" if "m_find (t_locked_entries t) k = Some p" for k p
      using locks_facts(2-4) [OF l, of k p] that by (simp add: lk lv split: if_splits) (simp add: t)
    fix d z assume d: "d \<in> live t" "h_entries t d = Some z"
    show "ce_readers z = int (card (reads t d)) \<and> (ce_read_lock z \<longleftrightarrow> ce_readers z \<noteq> 0) \<and> \<not> ce_write_lock z"
    proof (cases "d = e")
      case True
      then have z: "z = y" and de: "e \<in> live s" using d by (simp_all add: t lv [unfolded t])
      have "reads s e \<noteq> {}" using f by blast
      then have "int (card (reads s e - {f})) = int (card (reads s e)) - 1" using f by (simp add: of_nat_diff card_gt_0_iff Suc_leI)
      then have "ce_readers y = int (card (reads t e))" using locks_facts(5) [OF l de e(2)] by (simp add: rd e(3) reader_added_def)
      moreover have "\<not> ce_write_lock y" using locks_facts(7) [OF l de e(2)] by (simp add: e(3) reader_added_def)
      ultimately show ?thesis using z True e(4) by simp
    next
      case False
      have "reads t d = reads s d" unfolding rd using f [of d] False by simp
      moreover have "h_entries s d = Some z" using d(2) False by (simp add: t)
      ultimately show ?thesis using d(1) locks_facts(5-7) [OF l, of d z] by (simp add: lv)
    qed
  qed
  moreover have "files_ok t" using fl nm lv unfolding files_ok_def by (simp add: t)
  ultimately have "cache_inv t" by (simp add: cache_inv_def)
  then show ?thesis
  proof (rule goodI)
    show "t_cache_index t = t_cache_index s" "t_cache_root t = t_cache_root s" by (simp_all add: t)
    fix k d assume "k \<notin> {f}" "m_find (t_locked_entries s) k = Some (Some d)"
    then show "m_find (t_locked_entries t) k = Some (Some d) \<and> name_of t d = name_of s d \<and>
        ce_url (the (h_entries t d)) = ce_url (the (h_entries s d)) \<and> h_files t (name_of s d) = h_files s (name_of s d)"
      using nm [of d] by (simp add: lk) (simp add: t)
  qed
qed

lemma purge_Inr:
  assumes inv: "cache_inv s" and ix: "index_named s" and r: "purge_cache s = (Inr u, t)"
  shows "t_locked_entries s = [] \<and> good {} s t \<and> live t = {} \<and> t_current_size t = 0"
proof -
  define s0 where "s0 = s\<lparr>d_cache_mutex := True\<rparr>"
  have i0: "cache_inv s0" using inv by (simp add: s0_def)
  have tb: "table_ok s0" and l: "locks_ok s0" using i0 by (auto simp: cache_inv_def)
  obtain w where w: "t_locked_entries s = []" "delete_all_entries s0 = (Inr (), w)" "t = w\<lparr>d_cache_mutex := False\<rparr>"
    using r by (auto simp: purge_cache_def run_iffs s0_def is_locked_read_responses_def split: if_splits)
  have free: "reads s0 e = {}" for e using w(1) by (simp add: reads_def s0_def)
  have unl: "unlocked (the (h_entries s0 e))" if e: "e \<in> live s0" for e
  proof -
    obtain x where x: "h_entries s0 e = Some x" using live_entry [OF tb e] by blast
    then show ?thesis using locks_facts(5-7) [OF l e x] free by (simp add: unlocked_def)
  qed
  have sw: "sweep_slots (delete_if (\<lambda>_. True)) [0..<CACHE_TABLE_SIZE] s0 = (Inr (), drop_set (live s0) s0)"
    using deletion.sweep_table [OF i0, of "\<lambda>_. True"] unl by simp
  define s1 where "s1 = drop_set (live s0) s0"
  have g1: "good {} s0 s1" unfolding s1_def by (rule drop_set_good [OF i0]) (simp_all add: free)
  have w2: "w = s1\<lparr>t_new_entries := 0, h_files := (h_files s1)(t_cache_index s1 := None)\<rparr>"
    using w(2) sw by (auto simp: delete_all_entries_def bind_Inr_iff cache_index_delete_def ret_Inr s1_def)
  have i1: "cache_inv s1" "live s1 = {}" using g1 by (auto simp: good_def s1_def)
  have "good {} s1 w" unfolding w2 by (rule quiet_good [OF i1(1)]) (simp_all add: i1(2))
  then have "good {} s0 w" using good_trans [OF g1] by blast
  then have g: "good {} s t" by (simp add: s0_def w(3))
  have "live t = {}" using i1(2) by (simp add: w(3) w2 live_def)
  moreover have "unat (t_current_size t) = sum (space t) (live t)" using g table_facts(2) [of t] by (simp add: good_def cache_inv_def)
  ultimately have "t_current_size t = 0" by (simp add: unat_eq_0)
  with w(1) g \<open>live t = {}\<close> show ?thesis by blast
qed

section \<open>Questions and settings\<close>

text \<open>Looking at an entry under its read lock leaves everything as it was.\<close>

lemma peek:
  fixes url :: string
  assumes "cache_inv s" "\<not> d_cache_mutex s"
  defines "s0 \<equiv> s\<lparr>d_cache_mutex := True\<rparr>"
  defines "lookup \<equiv> bind (get_locked_entry_from_cache_table url) (\<lambda>r. case r of None \<Rightarrow> raise (no_entry_message url) | Some e \<Rightarrow> ret e)"
  shows "holds_url s url e x \<Longrightarrow>
      bind (catch_rethrow lookup unlock_cache_interface) (\<lambda>e. bind (the_entry e) (\<lambda>y. bind (unlock_read_response e) (\<lambda>_.
        bind unlock_cache_interface (\<lambda>_. ret (g y))))) s0 = (Inr (g (reader_added x)), s)"
    and "(\<And>e x. \<not> holds_url s url e x) \<Longrightarrow>
      bind (catch_rethrow lookup unlock_cache_interface) k s0 = (Inl (Raised (no_entry_message url)), s)"
proof -
  have i0: "cache_inv s0" using assms(1) by (simp add: s0_def)
  have same_s: "s0\<lparr>d_cache_mutex := False\<rparr> = s" using assms(2) by (simp add: s0_def http_cache.equality)
  {
    assume x: "holds_url s url e x"
    have x0: "holds_url s0 url e x" using x by (simp add: s0_def)
    have e: "e \<in> live s0" "h_entries s0 e = Some x" using x0 by (auto simp: holds_url_def)
    have rl: "ce_read_lock x \<longleftrightarrow> ce_readers x \<noteq> 0" using locks_facts(6) [OF _ e] i0 by (simp add: cache_inv_def)
    define s1 where "s1 = s0\<lparr>h_entries := (h_entries s0)(e \<mapsto> reader_added x)\<rparr>"
    have "lookup s0 = (Inr e, s1)" using get_locked_ok [OF i0 x0] by (simp add: lookup_def bind_def ret_def s1_def)
    moreover have "unlock_read_response e s1 = (Inr (), s0)"
      using unlock_read_ok [OF _ rl, of s1 e] entry_back [OF e(2)] by (simp add: s1_def)
    moreover have "d_cache_mutex s0" by (simp add: s0_def)
    ultimately show "bind (catch_rethrow lookup unlock_cache_interface) (\<lambda>e. bind (the_entry e) (\<lambda>y. bind (unlock_read_response e) (\<lambda>_.
        bind unlock_cache_interface (\<lambda>_. ret (g y))))) s0 = (Inr (g (reader_added x)), s)"
      by (simp add: bind_def catch_rethrow_def the_entry_def s1_def unlock_cache_interface_def ret_def same_s)
  next
    assume none: "\<And>e x. \<not> holds_url s url e x"
    then have "get_locked_entry_from_cache_table url s0 = (Inr None, s0)" by (intro get_locked_none i0) (simp add: s0_def)
    then have "lookup s0 = (Inl (Raised (no_entry_message url)), s0)" by (simp add: lookup_def bind_def raise_def stops_def)
    moreover have "d_cache_mutex s0" by (simp add: s0_def)
    ultimately show "bind (catch_rethrow lookup unlock_cache_interface) k s0 = (Inl (Raised (no_entry_message url)), s)"
      by (simp add: bind_def catch_rethrow_def unlock_cache_interface_def raise_def stops_def same_s)
  }
qed

lemma lock_free: "\<not> d_cache_mutex s \<Longrightarrow> bind lock_cache_interface f s = f () (s\<lparr>d_cache_mutex := True\<rparr>)"
  by (simp add: bind_def lock_cache_interface_def)

lemma entry_is_fresh_same [simp]:
  "entry_is_fresh t (s\<lparr>d_cache_mutex := b\<rparr>) x = entry_is_fresh t s x" "entry_is_fresh t s (reader_added x) = entry_is_fresh t s x"
  by (simp_all add: entry_is_fresh_def reader_added_def)

lemma is_url_valid_ok:
  assumes "cache_inv s" "\<not> d_cache_mutex s"
  shows "d_always_validate s \<Longrightarrow> is_url_valid v url s = (Inr False, s)"
    "\<not> d_always_validate s \<Longrightarrow> holds_url s url e x \<Longrightarrow> is_url_valid v url s = (Inr (entry_is_fresh (now v) s x), s)"
    "\<not> d_always_validate s \<Longrightarrow> (\<And>e x. \<not> holds_url s url e x) \<Longrightarrow> is_url_valid v url s = (Inl (Raised (no_entry_message url)), s)"
proof -
  have same_s: "s\<lparr>d_cache_mutex := False\<rparr> = s" using assms(2) by (simp add: http_cache.equality)
  show "d_always_validate s \<Longrightarrow> is_url_valid v url s = (Inr False, s)"
    unfolding is_url_valid_def lock_free [OF assms(2)] by (simp add: bind_def unlock_cache_interface_def ret_def same_s)
  show "\<not> d_always_validate s \<Longrightarrow> holds_url s url e x \<Longrightarrow> is_url_valid v url s = (Inr (entry_is_fresh (now v) s x), s)"
    using peek(1) [OF assms, of url e x "entry_is_fresh (now v) (s\<lparr>d_cache_mutex := True\<rparr>)"] assms(2) by (simp add: is_url_valid_def lock_free)
  show "\<not> d_always_validate s \<Longrightarrow> (\<And>e x. \<not> holds_url s url e x) \<Longrightarrow> is_url_valid v url s = (Inl (Raised (no_entry_message url)), s)"
    using assms(2) by (simp add: is_url_valid_def lock_free) (rule peek(2) [OF assms], blast)
qed

lemma is_url_in_cache_ok:
  assumes "cache_inv s"
  shows "is_url_in_cache url s = (Inr (\<exists>e x. holds_url s url e x), s)"
proof (cases "\<exists>e x. holds_url s url e x")
  case True
  then obtain e x where x: "holds_url s url e x" by blast
  have e: "e \<in> live s" "h_entries s e = Some x" using x by (auto simp: holds_url_def)
  have rl: "ce_read_lock x \<longleftrightarrow> ce_readers x \<noteq> 0" using locks_facts(6) [OF _ e] assms by (simp add: cache_inv_def)
  show ?thesis
    using True get_locked_ok [OF assms x] unlock_read_ok [OF _ rl, of "s\<lparr>h_entries := (h_entries s)(e \<mapsto> reader_added x)\<rparr>" e] entry_back [OF e(2)]
    by (simp add: is_url_in_cache_def bind_def ret_def)
next
  case False
  then show ?thesis using get_locked_none [OF assms, of url] by (simp add: is_url_in_cache_def bind_def ret_def)
qed

definition conditional_headers :: "cache_entry \<Rightarrow> string list" where
  "conditional_headers x =
     (if ce_etag x \<noteq> [] then [''If-None-Match: '' @ ce_etag x] else []) @
     (if ce_lm x > 0 then [''If-Modified-Since: '' @ date_time_str (ce_lm x)]
      else if ce_max_age x > 0 then [''If-Modified-Since: '' @ date_time_str (ce_max_age x)]
      else if ce_expires x > 0 then [''If-Modified-Since: '' @ date_time_str (ce_expires x)]
      else [])"

lemma conditional_ok:
  assumes "cache_inv s" "\<not> d_cache_mutex s"
  shows "holds_url s url e x \<Longrightarrow> get_conditional_request_headers url s = (Inr (conditional_headers x), s)"
    "(\<And>e x. \<not> holds_url s url e x) \<Longrightarrow> get_conditional_request_headers url s = (Inl (Raised (no_entry_message url)), s)"
proof -
  have "conditional_headers (reader_added x) = conditional_headers x" by (simp add: conditional_headers_def reader_added_def)
  then show "holds_url s url e x \<Longrightarrow> get_conditional_request_headers url s = (Inr (conditional_headers x), s)"
    using peek(1) [OF assms, of url e x conditional_headers]
    by (simp add: get_conditional_request_headers_def lock_free [OF assms(2)] conditional_headers_def [symmetric])
  show "(\<And>e x. \<not> holds_url s url e x) \<Longrightarrow> get_conditional_request_headers url s = (Inl (Raised (no_entry_message url)), s)"
    by (simp add: get_conditional_request_headers_def lock_free [OF assms(2)]) (rule peek(2) [OF assms], blast)
qed

text \<open>After a question the cache is as it was before, if the question was answered.\<close>

lemma question_Inr:
  assumes "cache_inv s"
  shows "is_url_valid v url s = (Inr b, t) \<Longrightarrow> t = s" "get_conditional_request_headers url s = (Inr hs, t) \<Longrightarrow> t = s"
    "is_url_in_cache url s = (Inr c, t) \<Longrightarrow> t = s"
proof -
  show "t = s" if r: "is_url_valid v url s = (Inr b, t)"
  proof -
    have m: "\<not> d_cache_mutex s" using r by (auto simp: is_url_valid_def run_iffs)
    show ?thesis
      using r is_url_valid_ok [OF assms m, where v = v and url = url] by (cases "d_always_validate s"; cases "\<exists>e x. holds_url s url e x") force+
  qed
  show "t = s" if r: "get_conditional_request_headers url s = (Inr hs, t)"
  proof -
    have m: "\<not> d_cache_mutex s" using r by (auto simp: get_conditional_request_headers_def run_iffs)
    show ?thesis using r conditional_ok [OF assms m, where url = url] by (cases "\<exists>e x. holds_url s url e x") force+
  qed
  show "t = s" if "is_url_in_cache url s = (Inr c, t)" using that is_url_in_cache_ok [OF assms, of url] by simp
qed

text \<open>Settings change only the fields of the cache.\<close>

lemma setting_good:
  assumes "cache_inv s" "t_cache_table t = t_cache_table s" "t_block_size t = t_block_size s" "t_current_size t = t_current_size s"
    "t_locked_entries t = t_locked_entries s" "h_next t = h_next s" "h_next_file t = h_next_file s" "h_open t = h_open s"
    "t_cache_index t = t_cache_index s" "t_cache_root t = t_cache_root s" "h_entries t = h_entries s" "h_files t = h_files s"
  shows "good {} s t"
  using assms files_facts(3) [of s] by (intro quiet_good) (auto simp: cache_inv_def)

lemma locked_upd_Inr: "locked_upd f s = (Inr u, t) \<longleftrightarrow>
    \<not> d_cache_mutex s \<and> d_cache_mutex (f (s\<lparr>d_cache_mutex := True\<rparr>)) \<and> t = (f (s\<lparr>d_cache_mutex := True\<rparr>))\<lparr>d_cache_mutex := False\<rparr>"
  by (auto simp: locked_upd_def run_iffs)

lemma flag_good:
  assumes "cache_inv s"
  shows "set_cache_enabled b s = (Inr u, t) \<Longrightarrow> good {} s t" "set_expire_ignored b s = (Inr u, t) \<Longrightarrow> good {} s t"
    "set_default_expiration n s = (Inr u, t) \<Longrightarrow> good {} s t" "set_always_validate b s = (Inr u, t) \<Longrightarrow> good {} s t"
  using assms
  by (auto simp: set_cache_enabled_def set_expire_ignored_def set_default_expiration_def set_always_validate_def locked_upd_Inr upd_Inr
      intro!: setting_good)

lemma use_cache_control_good:
  assumes "cache_inv s" "use_cache_control v h s = Inr t"
  shows "good {} s t"
  using assms by (auto simp: use_cache_control_def Let_def rbind_Inr_iff split: if_splits intro!: setting_good good_refl)

lemma use_cache_controls_good:
  "cache_inv s \<Longrightarrow> use_cache_controls v hs s = (Inr u, t) \<Longrightarrow> good {} s t"
proof (induction hs arbitrary: s)
  case (Cons h hs)
  then obtain s1 where s1: "use_cache_control v h s = Inr s1" "use_cache_controls v hs s1 = (Inr u, t)"
    by (auto split: sum.splits)
  note g = use_cache_control_good [OF Cons.prems(1) s1(1)]
  have "cache_inv s1" using g by (simp add: good_def)
  then show ?case using good_trans [OF g Cons.IH [OF _ s1(2)]] by blast
qed (simp add: good_refl)

lemma set_cache_control_good:
  assumes "cache_inv s" "set_cache_control v cc s = (Inr u, t)"
  shows "good {} s t"
proof -
  obtain w where w: "use_cache_controls v cc (s\<lparr>d_cache_mutex := True, d_cache_control := cc\<rparr>) = (Inr (), w)" "t = w\<lparr>d_cache_mutex := False\<rparr>"
    using assms(2) by (auto simp: set_cache_control_def run_iffs)
  have "good {} s (s\<lparr>d_cache_mutex := True, d_cache_control := cc\<rparr>)" using assms(1) by (intro setting_good) auto
  moreover from this have "good {} (s\<lparr>d_cache_mutex := True, d_cache_control := cc\<rparr>) w"
    using use_cache_controls_good [OF _ w(1)] by (simp add: good_def [of _ s])
  ultimately have "good {} s w" by (rule good_trans)
  then show ?thesis unfolding w(2) by simp
qed

lemma set_max_size_good:
  assumes "cache_inv s" "index_named s" "set_max_size v sz s = (Inr u, t)"
  shows "good {} s t"
proof -
  define m where "m = (if sz < 5 then 5 * MEGA else sz * MEGA)"
  define s1 where "s1 = s\<lparr>d_cache_mutex := True, d_total_size := m, d_folder_size := m div 10, d_gc_buffer := m div 10\<rparr>"
  obtain w where w: "shrink_cache v (m < d_total_size s) s1 = (Inr (), w)" "t = w\<lparr>d_cache_mutex := False\<rparr>"
    using assms(3) by (auto simp: set_max_size_def run_iffs Let_def m_def s1_def)
  have g: "good {} s s1" using assms(1) by (intro setting_good) (auto simp: s1_def)
  have "good {} s1 w" using shrink_cache_good [OF _ _ w(1)] g assms(2) by (simp add: good_def [of _ s s1] index_named_def)
  then show ?thesis unfolding w(2) using good_trans [OF g] by simp
qed

lemma set_max_entry_size_good:
  assumes "cache_inv s" "index_named s" "set_max_entry_size v sz s = (Inr u, t)"
  shows "good {} s t"
proof -
  define s0 where "s0 = s\<lparr>d_cache_mutex := True\<rparr>"
  define s1 where "s1 = s0\<lparr>d_max_entry_size := sz * MEGA\<rparr>"
  obtain w where "(if sz * MEGA > 0 \<and> sz * MEGA < d_total_size s - d_folder_size s then shrink_cache v (sz * MEGA < d_max_entry_size s) s1
      else (Inr (), s0)) = (Inr (), w)" and t: "t = w\<lparr>d_cache_mutex := False\<rparr>"
    using assms(3) by (auto simp: set_max_entry_size_def bind_Inr_iff lock_Inr catch_Inr_iff unlock_Inr Let_def s0_def s1_def cong: if_cong)
  then have w: "w = s0 \<or> shrink_cache v (sz * MEGA < d_max_entry_size s) s1 = (Inr (), w)" by (auto split: if_splits)
  have g: "good {} s s1" "good {} s s0" using assms(1) by (auto simp: s1_def s0_def intro!: setting_good)
  have "cache_inv s1" "index_named s1" using g(1) assms(2) by (auto simp: good_def index_named_def)
  then have "good {} s w" using w good_trans [OF g(1) shrink_cache_good [of s1]] g(2) by blast
  then show ?thesis unfolding t by simp
qed

end
