(* ===== verification/CacheRuns.thy ===== *)
theory CacheRuns
  imports CacheSteps
begin

text \<open>
  The HTTP cache in use: its calls as one step function, the runs from its constructor on, and what holds
  in all of them. Then what a client sees: a response that was stored is read back, and a response that is
  being read blocks its replacement, with the interface locked.
\<close>

section \<open>Runs\<close>

datatype cache_call =
    Cache_response string int "string list" "string \<times> bool"
  | Update_response string int "string list"
  | Get_cached_response string
  | Release_cached_response nat
  | Purge_cache
  | Is_url_valid string
  | Is_url_in_cache string
  | Get_conditional_headers string
  | Set_max_size "64 word"
  | Set_max_entry_size "64 word"
  | Set_cache_control "string list"
  | Set_cache_enabled bool
  | Set_expire_ignored bool
  | Set_default_expiration int
  | Set_always_validate bool

definition void :: "'a op \<Rightarrow> unit op" where
  "void m = bind m (\<lambda>_. ret ())"

fun cache_step :: "env \<Rightarrow> cache_call \<Rightarrow> unit op" where
  "cache_step v (Cache_response url rt headers body) = void (cache_response v url rt headers body)"
| "cache_step v (Update_response url rt headers) = update_response v url rt headers"
| "cache_step v (Get_cached_response url) = void (get_cached_response v url)"
| "cache_step v (Release_cached_response f) = release_cached_response f"
| "cache_step v Purge_cache = purge_cache"
| "cache_step v (Is_url_valid url) = void (is_url_valid v url)"
| "cache_step v (Is_url_in_cache url) = void (is_url_in_cache url)"
| "cache_step v (Get_conditional_headers url) = void (get_conditional_request_headers url)"
| "cache_step v (Set_max_size sz) = set_max_size v sz"
| "cache_step v (Set_max_entry_size sz) = set_max_entry_size v sz"
| "cache_step v (Set_cache_control cc) = set_cache_control v cc"
| "cache_step v (Set_cache_enabled b) = set_cache_enabled b"
| "cache_step v (Set_expire_ignored b) = set_expire_ignored b"
| "cache_step v (Set_default_expiration n) = set_default_expiration n"
| "cache_step v (Set_always_validate b) = set_always_validate b"

text \<open>The sizes do not overflow when a body is stored.\<close>

fun call_fits :: "http_cache \<Rightarrow> cache_call \<Rightarrow> bool" where
  "call_fits s (Cache_response url rt headers body) = fits s (fst body)"
| "call_fits s _ = True"

fun released_by :: "cache_call \<Rightarrow> nat set" where
  "released_by (Release_cached_response f) = {f}"
| "released_by _ = {}"

lemma void_Inr: "void m s = (Inr u, t) \<longleftrightarrow> (\<exists>a. m s = (Inr a, t))"
  by (auto simp: void_def bind_Inr_iff ret_Inr)

lemma step_good:
  assumes "cache_inv s" "index_named s" "mkstemp_ok v" "call_fits s c" "cache_step v c s = (Inr u, t)"
  shows "good (released_by c) s t"
proof (cases c)
  case (Cache_response url rt headers body)
  then obtain b where "cache_response v url rt headers body s = (Inr b, t)" using assms(5) by (auto simp: void_Inr)
  then show ?thesis using cache_response_good [OF assms(1,2) _ assms(3)] assms(4) Cache_response by simp
next
  case (Update_response url rt headers)
  then show ?thesis using update_response_good [OF assms(1)] assms(5) by simp
next
  case (Get_cached_response url)
  then show ?thesis using get_cached_good [OF assms(1)] assms(5) by (auto simp: void_Inr)
next
  case (Release_cached_response f)
  then show ?thesis using release_good [OF assms(1)] assms(5) by simp
next
  case Purge_cache
  then show ?thesis using purge_Inr [OF assms(1,2)] assms(5) by simp
next
  case (Is_url_valid url)
  then show ?thesis using question_Inr(1) [OF assms(1)] good_refl [OF assms(1)] assms(5) by (fastforce simp: void_Inr)
next
  case (Is_url_in_cache url)
  then show ?thesis using question_Inr(3) [OF assms(1)] good_refl [OF assms(1)] assms(5) by (fastforce simp: void_Inr)
next
  case (Get_conditional_headers url)
  then show ?thesis using question_Inr(2) [OF assms(1)] good_refl [OF assms(1)] assms(5) by (fastforce simp: void_Inr)
next
  case (Set_max_size sz)
  then show ?thesis using set_max_size_good [OF assms(1,2)] assms(5) by simp
next
  case (Set_max_entry_size sz)
  then show ?thesis using set_max_entry_size_good [OF assms(1,2)] assms(5) by simp
next
  case (Set_cache_control cc)
  then show ?thesis using set_cache_control_good [OF assms(1)] assms(5) by simp
qed (use flag_good [OF assms(1)] assms(5) in auto)

text \<open>
  A run begins with the constructor over a directory without an index, where the file system has blocks;
  the answers of the operating system may be others in every call. A call that throws or does not return
  ends the run.
\<close>

inductive cache_run :: "http_cache \<Rightarrow> bool" where
  start: "new_cache v root force s0 = (Inr (), s) \<Longrightarrow> st_blksize v root \<noteq> Some 0 \<Longrightarrow> h_files s0 (t_cache_index s) = None \<Longrightarrow> cache_run s"
| step: "cache_run s \<Longrightarrow> mkstemp_ok v \<Longrightarrow> call_fits s c \<Longrightarrow> cache_step v c s = (Inr (), t) \<Longrightarrow> cache_run t"

lemma create_root_frame: "create_cache_root_from v root cur s = (r, t) \<Longrightarrow> \<exists>ds. t = s\<lparr>h_dirs := ds\<rparr>"
proof (induction v root cur s arbitrary: r t rule: create_cache_root_from.induct)
  case (1 v root cur s)
  note step = create_cache_root_from.simps [of v root cur s]
  have keep: "\<exists>ds. s = s\<lparr>h_dirs := ds\<rparr>" by (rule exI [of _ "h_dirs s"]) simp
  show ?case
  proof (cases "find_char root (CHR ''/'') cur")
    case None
    then have "t = s" using 1(3) by (simp add: step)
    then show ?thesis using keep by simp
  next
    case (Some i)
    define dir where "dir = substr root 0 i"
    show ?thesis
    proof (cases "dir \<in> set (h_dirs s) \<or> h_files s dir \<noteq> None")
      case True
      then show ?thesis using 1(1) [OF Some dir_def True] 1(3) Some by (simp add: step Let_def dir_def)
    next
      case False
      show ?thesis
      proof (cases "mkdir_ok v dir")
        case True
        then have "create_cache_root_from v root (i + 1) (s\<lparr>h_dirs := dir # h_dirs s\<rparr>) = (r, t)"
          using 1(3) Some False by (simp add: step Let_def dir_def)
        from 1(2) [OF Some dir_def False True this] show ?thesis by simp
      next
        case no: False
        then have "t = s" using 1(3) Some False by (simp add: step Let_def dir_def raise_def stops_def)
        then show ?thesis using keep by simp
      qed
    qed
  qed
qed

lemma user_lock_frame:
  assumes "get_single_user_lock v force s = (Inr True, t)"
  shows "\<exists>ds f. t = s\<lparr>h_dirs := ds, h_files := f, d_locked_open_file := True\<rparr> \<and> (\<forall>n. n \<noteq> d_cache_root s @ ''.lock'' \<longrightarrow> f n = h_files s n)"
proof -
  obtain r s1 where s1: "create_cache_root v (d_cache_root s) s = (r, s1)" by (cases "create_cache_root v (d_cache_root s) s")
  obtain ds where ds: "s1 = s\<lparr>h_dirs := ds\<rparr>" using create_root_frame [OF s1 [unfolded create_cache_root_def]] by blast
  have "\<exists>f. t = s1\<lparr>h_files := f, d_locked_open_file := True\<rparr> \<and> (\<forall>n. n \<noteq> d_cache_root s @ ''.lock'' \<longrightarrow> f n = h_files s n)"
    using assms s1 ds by (auto simp: get_single_user_lock_def Let_def split: if_splits sum.splits stop.splits)
  then show ?thesis unfolding ds by auto
qed

lemma empty_table_inv:
  assumes "t_cache_table s = (\<lambda>_. None)" "t_block_size s \<noteq> 0" "t_current_size s = 0" "t_locked_entries s = []"
  shows "cache_inv s"
proof -
  have "live s = {}" using assms(1) by (simp add: live_def)
  then show ?thesis using assms by (simp add: cache_inv_def table_ok_def locks_ok_def files_ok_def)
qed

lemma read_lines_index: "read_lines ls s = (Inr u, t) \<Longrightarrow> t_cache_index t = t_cache_index s"
proof (induction ls arbitrary: s)
  case (Cons l ls)
  then show ?case
    by (fastforce simp: bind_Inr_iff new_entry_def add_entry_to_cache_table_def the_entry_iff Let_def raise_Inr split: if_splits)
qed (simp add: ret_Inr)

lemma bind_upd: "bind (upd f) k s = k () (f s)"
  by (simp add: bind_def upd_def)

lemma new_cache_inv:
  assumes "new_cache v root force s0 = (Inr (), s)" "st_blksize v root \<noteq> Some 0" "h_files s0 (t_cache_index s) = None"
  shows "cache_inv s \<and> index_named s \<and> t_cache_table s = (\<lambda>_. None) \<and> \<not> d_cache_mutex s"
proof -
  obtain s1 where f1: "h_files s1 = h_files s0" "\<not> d_cache_mutex s1" and rest:
    "bind (get_single_user_lock v force) (\<lambda>ok.
       if \<not> ok then raise (Error ''Could not get single user lock for the cache'')
       else case st_blksize v root of
              None \<Rightarrow> raise (Error ''Could not set file system block size.'')
            | Some block_size \<Rightarrow>
                bind (\<lambda>s. new_table v (d_cache_root s) block_size s) (\<lambda>_. upd (\<lambda>s. s\<lparr>d_cache_enabled := True\<rparr>))) s1 = (Inr (), s)"
    by (rule that [OF _ _ assms(1) [unfolded new_cache_def set_cache_root_def bind_upd]]) simp_all
  obtain s2 b where l: "get_single_user_lock v force s1 = (Inr True, s2)" and b: "st_blksize v root = Some b"
    and t: "bind (\<lambda>s. new_table v (d_cache_root s) b s) (\<lambda>_. upd (\<lambda>s. s\<lparr>d_cache_enabled := True\<rparr>)) s2 = (Inr (), s)"
    using rest by (auto simp: bind_Inr_iff [of "get_single_user_lock v force"] raise_Inr split: if_splits option.splits)
  obtain ds f where s2: "s2 = s1\<lparr>h_dirs := ds, h_files := f, d_locked_open_file := True\<rparr>" "\<forall>n. n \<noteq> d_cache_root s1 @ ''.lock'' \<longrightarrow> f n = h_files s0 n"
    using user_lock_frame [OF l] f1 by auto
  define s3 where "s3 = s2\<lparr>t_cache_root := d_cache_root s2, t_block_size := b, t_current_size := 0, t_new_entries := 0,
                    t_cache_index := d_cache_root s2 @ ''.index'', t_cache_table := (\<lambda>_. None), t_locked_entries := []\<rparr>"
  obtain c u where r: "cache_index_read v s3 = (Inr c, u)" and s: "s = u\<lparr>d_cache_enabled := True\<rparr>"
    using t unfolding new_table_def bind_upd by (auto simp: bind_Inr_iff upd_Inr ret_Inr s3_def)
  have frame: "t_cache_index u = t_cache_index s3"
    using r by (auto simp: cache_index_read_def bind_Inr_iff upd_Inr ret_Inr dest: read_lines_index split: option.splits if_splits)
  then have "h_files s3 (t_cache_index s3) = None" using assms(3) s2(2) by (simp add: s s3_def s2(1))
  then have "u = s3" using r by (auto simp: cache_index_read_def)
  then show ?thesis
    using empty_table_inv [of s] b assms(2) f1(2) by (auto simp: s s3_def s2(1) index_named_def)
qed


lemma step_mutex:
  assumes "cache_inv s" "\<not> d_cache_mutex s" "cache_step v c s = (Inr u, t)"
  shows "\<not> d_cache_mutex t"
proof (cases c)
  case (Cache_response url rt headers body)
  then show ?thesis using assms(3) by (auto simp: void_Inr cache_response_def run_iffs split: if_splits)
next
  case (Get_cached_response url)
  then show ?thesis using assms(2,3) get_cached_Inr [OF assms(1)] by (fastforce simp: void_Inr opened_def)
next
  case (Release_cached_response f)
  then show ?thesis using assms(2,3) release_Inr [OF assms(1)] by fastforce
next
  case (Is_url_valid url)
  then show ?thesis using question_Inr(1) [OF assms(1)] assms(2,3) by (fastforce simp: void_Inr)
next
  case (Is_url_in_cache url)
  then show ?thesis using question_Inr(3) [OF assms(1)] assms(2,3) by (fastforce simp: void_Inr)
next
  case (Get_conditional_headers url)
  then show ?thesis using question_Inr(2) [OF assms(1)] assms(2,3) by (fastforce simp: void_Inr)
next
  case (Update_response url rt headers)
  then show ?thesis using assms(3) update_response_Inr [OF assms(1)] by fastforce
qed (use assms(2,3) in \<open>auto simp: purge_cache_def set_max_size_def set_max_entry_size_def set_cache_control_def set_cache_enabled_def
    set_expire_ignored_def set_default_expiration_def set_always_validate_def locked_upd_Inr run_iffs\<close>)

lemma run_inv: "cache_run s \<Longrightarrow> cache_inv s \<and> index_named s \<and> \<not> d_cache_mutex s"
proof (induction rule: cache_run.induct)
  case (start v root force s0 s)
  then show ?case using new_cache_inv by blast
next
  case (step s v c t)
  then have "good (released_by c) s t" using step_good by blast
  then show ?case using step.IH step_mutex [OF _ _ step.hyps(4)] by (auto simp: good_def index_named_def)
qed

text \<open>
  C13: In every run of the cache its books are right: the size that it accounts is the space of the entries in the
  table, no URL has two entries, an entry has as many readers as there are open bodies bound to it and is
  locked exactly when it has one, every bound body belongs to an entry, the files of every entry are there
  and no two share one; and between the calls the interface is not locked.
\<close>

theorem cache_books_kept:
  assumes "cache_run s"
  shows "unat (t_current_size s) = (\<Sum>e\<in>live s. space s e) \<and>
    (\<forall>e\<in>live s. \<forall>d\<in>live s. ce_url (the (h_entries s e)) = ce_url (the (h_entries s d)) \<or> name_of s e = name_of s d \<longrightarrow> e = d) \<and>
    (\<forall>e\<in>live s. \<exists>x. h_entries s e = Some x \<and> ce_readers x = int (card (reads s e)) \<and>
       (ce_read_lock x \<longleftrightarrow> reads s e \<noteq> {}) \<and> \<not> ce_write_lock x \<and>
       h_files s (ce_cachename x) \<noteq> None \<and> h_files s (ce_cachename x @ CACHE_META) \<noteq> None) \<and>
    (\<forall>f p. m_find (t_locked_entries s) f = Some p \<longrightarrow> h_open s f \<noteq> None \<and> (\<exists>e\<in>live s. p = Some e)) \<and>
    \<not> d_cache_mutex s"
proof -
  have i: "cache_inv s" "\<not> d_cache_mutex s" using run_inv [OF assms] by auto
  then have t: "table_ok s" and l: "locks_ok s" and f: "files_ok s" by (auto simp: cache_inv_def)
  have "\<exists>x. h_entries s e = Some x \<and> ce_readers x = int (card (reads s e)) \<and> (ce_read_lock x \<longleftrightarrow> reads s e \<noteq> {}) \<and> \<not> ce_write_lock x \<and>
       h_files s (ce_cachename x) \<noteq> None \<and> h_files s (ce_cachename x @ CACHE_META) \<noteq> None" if e: "e \<in> live s" for e
  proof -
    obtain x where x: "h_entries s e = Some x" using live_entry [OF t e] by blast
    then have "name_of s e = ce_cachename x" by (simp add: name_of_def)
    then show ?thesis using x locks_facts(5-7) [OF l e x] files_facts(2,3) [OF f e] by auto
  qed
  then show ?thesis using i(2) table_facts(2,4) [OF t] files_facts(4) [OF f] locks_facts(3,4) [OF l] by blast
qed

text \<open>
  C14: A response that is being read is safe from every other call, collections, updates and replacements among
  them: its open body stays bound to the same entry of the table, with the same URL and the same file, and
  the file keeps its contents.
\<close>

theorem responses_in_use_stay:
  assumes "cache_run s" "m_find (t_locked_entries s) f = Some (Some e)"
    and "cache_step v c s = (Inr (), t)" "c \<noteq> Release_cached_response f" "mkstemp_ok v" "call_fits s c"
  shows "m_find (t_locked_entries t) f = Some (Some e) \<and> e \<in> live t \<and> ce_readers (the (h_entries t e)) > 0 \<and>
    ce_url (the (h_entries t e)) = ce_url (the (h_entries s e)) \<and> name_of t e = name_of s e \<and>
    h_files s (name_of s e) \<noteq> None \<and> h_files t (name_of t e) = h_files s (name_of s e)"
proof -
  have i: "cache_inv s" "index_named s" using run_inv [OF assms(1)] by auto
  have g: "good (released_by c) s t" using step_good [OF i assms(5,6,3)] .
  have "f \<notin> released_by c" using assms(4) by (cases c) auto
  then have k: "m_find (t_locked_entries t) f = Some (Some e)" "name_of t e = name_of s e"
      "ce_url (the (h_entries t e)) = ce_url (the (h_entries s e))" "h_files t (name_of s e) = h_files s (name_of s e)"
    using g assms(2) by (auto simp: good_def keeps_def)
  have it: "cache_inv t" using g by (simp add: good_def)
  obtain x where x: "e \<in> live t" "h_entries t e = Some x" "ce_readers x \<noteq> 0" using locked_body [OF it k(1)] by blast
  have "ce_readers x > 0" using locks_facts(5) [OF _ x(1,2)] it x(3) by (simp add: cache_inv_def card_gt_0_iff)
  then show ?thesis using k x locked_body [OF i(1) assms(2)] by auto
qed

section \<open>What was stored is read back\<close>

text \<open>Headers that survive the file: one line each, shorter than the buffer.\<close>

definition one_line :: "string \<Rightarrow> bool" where
  "one_line h \<longleftrightarrow> lf \<notin> set h \<and> nul \<notin> set h \<and> length h < 1023"

lemma find_line_end: "lf \<notin> set h \<Longrightarrow> find_char (h @ lf # r) lf 0 = Some (length h)"
  by (simp add: find_char_def find_if_from_def) (subst scan_append_None, auto)

lemma fgets_line: "one_line h \<Longrightarrow> fgets_lines (h @ lf # r) = (h @ [lf]) # fgets_lines r"
  by (subst fgets_lines.simps) (simp add: one_line_def fgets_length_def find_line_end)

lemma fgets_all: "\<forall>h\<in>set hs. one_line h \<Longrightarrow> fgets_lines (concat (map (\<lambda>h. h @ [lf]) hs)) = map (\<lambda>h. h @ [lf]) hs"
proof (induction hs)
  case Nil
  then show ?case by (simp add: fgets_lines.simps)
qed (simp add: fgets_line)

lemma headers_back: "\<forall>h\<in>set hs. one_line h \<Longrightarrow> headers_of_lines (map (\<lambda>h. h @ [lf]) hs) = Inr hs"
proof (induction hs)
  case (Cons h hs)
  have "takeWhile (\<lambda>c. c \<noteq> nul) (h @ [lf]) = h @ [lf]" using Cons.prems by (subst takeWhile_eq_all_conv) (auto simp: one_line_def)
  then show ?case using Cons by (simp add: header_of_line_def c_str_def)
qed simp

lemma write_headers_Inr: "write_headers ok hs acc = (Inr u, c) \<Longrightarrow>
    c = acc @ concat (map (\<lambda>h. h @ [lf]) (filter (\<lambda>h. \<not> is_hop_by_hop_header h) hs))"
  by (induction ok hs acc rule: write_headers.induct) (auto split: if_splits)

definition end_to_end :: "string list \<Rightarrow> string list" where
  "end_to_end hs = filter (\<lambda>h. \<not> is_hop_by_hop_header h) hs"

lemma metadata_back:
  assumes "write_headers ok hs [] = (Inr u, c)" "\<forall>h\<in>set (end_to_end hs). one_line h" "can_open v (n @ CACHE_META)"
    "h_files s (n @ CACHE_META) = Some c"
  shows "read_metadata v n s = (Inr (end_to_end hs), s)"
  using write_headers_Inr [OF assms(1)] assms(2-4) fgets_all headers_back by (auto simp: read_metadata_Inr end_to_end_def)

text \<open>An entry that is there after the index was dumped was there before, with the same files.\<close>

lemma dump_keeps:
  assumes "cache_inv s" "index_named s" "dump_index v s = (Inr d, t)" "holds_url t url e x"
  shows "holds_url s url e x \<and> h_files t (ce_cachename x) = h_files s (ce_cachename x) \<and>
    h_files t (ce_cachename x @ CACHE_META) = h_files s (ce_cachename x @ CACHE_META)"
proof (cases "t_new_entries s > 10")
  case True
  then obtain a where a: "collect_if_needed v s = (Inr (), a)" "cache_index_write v a = (Inr d, t)"
    using assms(3) by (auto simp: dump_index_def bind_Inr_iff)
  have "pruned s a" using collect_prunes [OF assms(1), of v] a(1) by auto
  then obtain E where E: "E \<subseteq> live s" "a = drop_set E s" by (auto simp: pruned_def)
  obtain c where t: "t = a\<lparr>h_files := (h_files a)(t_cache_index a \<mapsto> c), t_new_entries := 0\<rparr>"
    using a(2) by (auto simp: cache_index_write_def Let_def raise_Inr split: if_splits sum.splits)
  have "live t = live a" by (simp add: t live_def)
  then have "live t = live s - E" by (simp add: E(2))
  then have h: "holds_url s url e x" "e \<notin> E"
    using assms(4) \<open>live t = live s - E\<close> by (auto simp: holds_url_def t E(2) split: if_splits)
  note f = holds_files [OF assms(1) h(1)]
  have fs: "files_ok s" using assms(1) by (simp add: cache_inv_def)
  have "ce_cachename x \<noteq> name_of s g \<and> ce_cachename x \<noteq> name_of s g @ CACHE_META \<and> ce_cachename x @ CACHE_META \<noteq> name_of s g"
    if "g \<in> E" for g
  proof -
    have g: "g \<in> live s" "g \<noteq> e" using that E(1) h(2) by auto
    show ?thesis
      using files_facts(4) [OF fs f(1) g(1)] g(2) f(4) made_name_meta [OF f(3)] made_name_meta [OF files_facts(1) [OF fs g(1)]] by metis
  qed
  then show ?thesis
    using h(1) index_no_response [OF assms(2) f(3)] by (auto simp: t E(2))
next
  case False
  then show ?thesis using assms(3,4) by (simp add: dump_index_def)
qed

text \<open>
  What was stored is still there unless the dump of the index, which every eleventh new entry brings about,
  has collected it.
\<close>

lemma cache_response_stored:
  assumes "cache_inv s" "index_named s" "\<not> d_cache_mutex s" "mkstemp_ok v" "fits s (fst body)"
    and "cache_response v url rt headers body s = (Inr True, t)"
    and "t_new_entries s < 10 \<or> (\<exists>e x. holds_url t url e x)"
  shows "\<exists>n c e x. holds_url t url e x \<and> ce_cachename x = n \<and> write_headers (can_write v (n @ CACHE_META)) headers [] = (Inr (), c) \<and>
    h_files t n = Some (fst body) \<and> h_files t (n @ CACHE_META) = Some c"
proof -
  define s0 where "s0 = s\<lparr>d_cache_mutex := True\<rparr>"
  have i0: "cache_inv s0" using assms(1) by (simp add: s0_def)
  obtain u w where u: "store_response v url rt headers body s0 = (Inr True, u)" "dump_index v u = (Inr (), w)"
    and t: "t = w\<lparr>d_cache_mutex := False\<rparr>"
    using assms(6) by (auto simp: cache_response_def run_iffs s0_def split: if_splits)
  have "fits s0 (fst body)" using assms(5) by (simp add: fits_def s0_def)
  then have g: "good {} s0 u" by (rule store_good [OF i0 u(1) assms(4)])
  then have iu: "cache_inv u" "index_named u" using assms(2) by (simp_all add: good_def index_named_def s0_def)
  have st: "stored v url headers (fst body) s0 u" using store_response_Inr [OF i0 u(1)] by simp
  then have n: "t_new_entries u = t_new_entries s + 1" unfolding stored_def by (auto simp: s0_def)
  obtain s1 e x n c ds ps where w: "write_headers (can_write v (n @ CACHE_META)) headers [] = (Inr (), c)"
    and x: "ce_url x = url" "ce_cachename x = n"
    and ueq: "u = s1\<lparr>h_next := e + 1, h_dirs := ds, h_files := (h_files s1)(n \<mapsto> fst body, n @ CACHE_META \<mapsto> c),
        t_cache_table := (t_cache_table s1)(get_hash url \<mapsto> ps @ [Some e]),
        t_current_size := t_current_size s1 + scast (entry_disk_space (ce_size x) (t_block_size s1)),
        t_new_entries := t_new_entries s1 + 1, h_entries := (h_entries s1)(e \<mapsto> x)\<rparr>"
    using st unfolding stored_def by blast
  have "t_cache_table u (get_hash url) = Some (ps @ [Some e])" by (simp add: ueq)
  then have "e \<in> live u" unfolding live_def by (intro CollectI exI [of _ "get_hash url"] exI [of _ "ps @ [Some e]"]) simp
  then have hu: "holds_url u url e x" using x by (simp add: holds_url_def ueq)
  have fu: "h_files u n = Some (fst body)" "h_files u (n @ CACHE_META) = Some c" by (simp_all add: ueq CACHE_META_def)
  have tu: "table_ok u" using iu(1) by (simp add: cache_inv_def)
  have same: "holds_url t url e' x' = holds_url w url e' x'" "h_files t = h_files w" for e' x' by (simp_all add: t holds_url_def live_def)
  have hw: "holds_url w url e x \<and> h_files w n = h_files u n \<and> h_files w (n @ CACHE_META) = h_files u (n @ CACHE_META)"
  proof (cases "t_new_entries s < 10")
    case True
    then have "w = u" using u(2) n by (simp add: dump_index_def)
    then show ?thesis using hu by simp
  next
    case False
    then obtain e' x' where k: "holds_url w url e' x'" using assms(7) same(1) by blast
    note d = dump_keeps [OF iu u(2) k]
    have "e' = e \<and> x' = x" using holds_unique [OF tu _ hu] d by blast
    then show ?thesis using d k x(2) by simp
  qed
  then show ?thesis using w x(2) fu same by (intro exI [of _ n] exI [of _ c] exI [of _ e] exI [of _ x]) simp
qed

text \<open>
  C15: What was stored is read back: after a response was stored, asking for its URL opens a body with exactly its
  contents and gives its end-to-end headers, each on a line of the file, in their order. Every eleventh new entry
  since the index was last written brings about a collection of garbage within the call that stores it, when
  the cache is over its size, and that may take the new response away again, although the call says that it was
  stored; so the response must still be in the table then, which is not asked when fewer than ten entries
  are new. The other conditions: the files can be opened, \<^verbatim>\<open>mkstemp\<close> gives unused names, the sizes fit their
  types and a header is a line of less than 1023 characters.
\<close>

theorem response_read_back:
  assumes "cache_run s" "mkstemp_ok v" "fits s (fst body)" "cache_response v url rt headers body s = (Inr True, t)"
    and "t_new_entries s < 10 \<or> (\<exists>e x. holds_url t url e x)"
    and "\<forall>h\<in>set (end_to_end headers). one_line h" "\<forall>n. can_open w n"
  shows "\<exists>f n u. get_cached_response w url t = (Inr (Some (f, end_to_end headers, n)), u) \<and> h_open u f = Some (fst body)"
proof -
  have i: "cache_inv s" "index_named s" "\<not> d_cache_mutex s" using run_inv [OF assms(1)] by auto
  have it: "cache_inv t" using cache_response_good [OF i(1,2) assms(4,2,3)] by (simp add: good_def)
  have m: "\<not> d_cache_mutex t" using assms(4) by (auto simp: cache_response_def run_iffs split: if_splits)
  obtain n c e x where h: "holds_url t url e x" and x: "ce_cachename x = n"
    and wr: "write_headers (can_write v (n @ CACHE_META)) headers [] = (Inr (), c)"
    and fn: "h_files t n = Some (fst body)" "h_files t (n @ CACHE_META) = Some c"
    using cache_response_stored [OF i assms(2-5)] by blast
  have "read_metadata w (ce_cachename x) t = (Inr (end_to_end headers), t)"
    using metadata_back [OF wr assms(6) _ fn(2), of w] assms(7) x by simp
  then show ?thesis
    using get_cached_ok [OF it m h] fn(1) x assms(7) by (simp add: opened_def)
qed

section \<open>Replacing a response that is being read\<close>

fun locks_interface :: "cache_call \<Rightarrow> bool" where
  "locks_interface (Is_url_in_cache _) = False"
| "locks_interface (Set_always_validate _) = False"
| "locks_interface _ = True"

lemma held_blocks: "d_cache_mutex s \<Longrightarrow> bind lock_cache_interface f s = (Inl Blocked, s)"
  by (simp add: bind_def lock_cache_interface_def)

lemma held_bind_blocks: "d_cache_mutex s \<Longrightarrow> bind (bind lock_cache_interface f) g s = (Inl Blocked, s)"
  by (simp add: bind_stops [OF held_blocks])

lemma locked_step_blocked:
  assumes "d_cache_mutex s" "locks_interface c"
  shows "cache_step v c s = (Inl Blocked, s)"
proof -
  show ?thesis
    using assms(2)
    by (cases c) (simp_all add: held_blocks [OF assms(1)] held_bind_blocks [OF assms(1)] void_def cache_response_def update_response_def get_cached_response_def
      release_cached_response_def purge_cache_def is_url_valid_def get_conditional_request_headers_def set_max_size_def set_max_entry_size_def
      set_cache_control_def set_cache_enabled_def set_expire_ignored_def set_default_expiration_def locked_upd_def)
qed

text \<open>
  C18: Storing a new response for a URL whose response is being read never returns: it waits for the readers
  while it holds the interface, and every later call that takes the interface waits too, the release of
  the body that is being read among them.
\<close>

theorem replacing_while_read_deadlocks:
  assumes "cache_run s" "m_find (t_locked_entries s) f = Some (Some e)"
    and "ce_url (the (h_entries s e)) = url" "is_http_url url"
  shows "\<exists>t. cache_response v url rt headers body s = (Inl Blocked, t) \<and> m_find (t_locked_entries t) f = Some (Some e) \<and>
    (\<forall>w c. locks_interface c \<longrightarrow> cache_step w c t = (Inl Blocked, t))"
proof -
  have i: "cache_inv s" "\<not> d_cache_mutex s" using run_inv [OF assms(1)] by auto
  define t where "t = s\<lparr>d_cache_mutex := True\<rparr>"
  obtain x where x: "e \<in> live s" "h_entries s e = Some x" "ce_readers x \<noteq> 0" using locked_body [OF i(1) assms(2)] by blast
  have h: "holds_url t url e x" using x assms(3) by (simp add: holds_url_def t_def)
  have "remove_entry_from_cache_table url t = (Inl Blocked, t)" using remove_entry_blocked [OF _ h x(3)] i(1) by (simp add: t_def)
  then have st: "store_response v url rt headers body t = (Inl Blocked, t)" by (simp add: store_response_def bind_stops)
  have "cache_response v url rt headers body s = (Inl Blocked, t)"
    unfolding cache_response_def lock_free [OF i(2)] t_def [symmetric]
    using assms(4) by (simp add: bind_def catch_rethrow_def st)
  moreover have "d_cache_mutex t" by (simp add: t_def)
  ultimately show ?thesis using assms(2) locked_step_blocked [of t] by (auto simp: t_def)
qed

section \<open>When collecting garbage ends\<close>

definition in_use :: "http_cache \<Rightarrow> nat set" where
  "in_use s = {e \<in> live s. reads s e \<noteq> {}}"

definition held_space :: "http_cache \<Rightarrow> nat" where
  "held_space s = (\<Sum>e\<in>in_use s. space s e)"

text \<open>The sizes and the stop mark without wrap-around.\<close>

definition gc_sizes_ok :: "http_cache \<Rightarrow> bool" where
  "gc_sizes_ok s \<longleftrightarrow> unat (t_current_size s) + unat (d_folder_size s) < 2 ^ 64 \<and> d_gc_buffer s \<le> d_total_size s"

lemma stopGC_nat:
  assumes "gc_sizes_ok s"
  shows "stopGC s \<longleftrightarrow> unat (t_current_size s) + unat (d_folder_size s) < unat (d_total_size s) - unat (d_gc_buffer s)"
proof -
  have "unat (t_current_size s + d_folder_size s) = unat (t_current_size s) + unat (d_folder_size s)"
    using assms by (simp add: gc_sizes_ok_def unat_plus_if')
  moreover have "unat (d_total_size s - d_gc_buffer s) = unat (d_total_size s) - unat (d_gc_buffer s)"
    using assms by (simp add: gc_sizes_ok_def unat_sub)
  ultimately show ?thesis by (simp add: stopGC_def word_less_nat_alt)
qed

lemma pruned_sizes:
  assumes "cache_inv s" "pruned s t"
  shows "held_space t = held_space s" "held_space s \<le> unat (t_current_size t)" "unat (t_current_size t) \<le> unat (t_current_size s)"
    "gc_sizes_ok s \<Longrightarrow> gc_sizes_ok t" "in_use t = in_use s" "\<And>e. e \<in> live t \<Longrightarrow> h_entries t e = h_entries s e"
proof -
  obtain E where E: "E \<subseteq> live s" "\<forall>e\<in>E. reads s e = {}" "t = drop_set E s" using assms(2) by (auto simp: pruned_def)
  have fin: "finite (live s)" using live_finite assms(1) by (simp add: cache_inv_def)
  have it: "cache_inv t" using pruned_inv [OF assms] .
  show iu: "in_use t = in_use s" using E(2) by (auto simp: in_use_def E(3) reads_def)
  have sp: "space t e = space s e" if "e \<notin> E" for e using name_space_outside(1) [OF that] E(3) by simp
  show hs: "held_space t = held_space s" unfolding held_space_def iu
    using E(2) by (intro sum.cong refl sp) (auto simp: in_use_def)
  have ct: "unat (t_current_size t) = sum (space t) (live t)" using table_facts(2) it by (simp add: cache_inv_def)
  have "in_use t \<subseteq> live t" "finite (live t)" using fin by (auto simp: in_use_def E(3))
  then have "held_space t \<le> unat (t_current_size t)" unfolding ct held_space_def by (intro sum_mono2) auto
  then show "held_space s \<le> unat (t_current_size t)" using hs by simp
  have "sum (space t) (live t) = sum (space s) (live s - E)" using sp by (intro sum.cong) (auto simp: E(3))
  also have "\<dots> \<le> sum (space s) (live s)" using fin by (intro sum_mono2) auto
  also have "\<dots> = unat (t_current_size s)" using table_facts(2) assms(1) by (simp add: cache_inv_def)
  finally show le: "unat (t_current_size t) \<le> unat (t_current_size s)" using ct by simp
  show "gc_sizes_ok s \<Longrightarrow> gc_sizes_ok t" using le by (simp add: gc_sizes_ok_def E(3))
  show "h_entries t e = h_entries s e" if "e \<in> live t" for e using that by (simp add: E(3))
qed

text \<open>Once the hits of every entry are reached, only the entries in use are left.\<close>

lemma all_hits_reached:
  assumes "cache_inv s" "\<forall>e\<in>live s. ce_hits (the (h_entries s e)) \<le> h"
  shows "\<exists>t. delete_by_hits h s = (Inr (), t) \<and> pruned s t \<and> unat (t_current_size t) = held_space s"
proof -
  define t where "t = drop_set {e \<in> live s. has_few_hits h (the (h_entries s e))} s"
  note d = delete_by_hits_prunes [OF assms(1), of h, folded t_def]
  have tb: "table_ok s" and l: "locks_ok s" using assms(1) by (auto simp: cache_inv_def)
  have "has_few_hits h (the (h_entries s e)) \<longleftrightarrow> e \<notin> in_use s" if e: "e \<in> live s" for e
  proof -
    obtain x where x: "h_entries s e = Some x" using live_entry [OF tb e] by blast
    have "ce_readers x = 0 \<longleftrightarrow> reads s e = {}" using locks_facts(5) [OF l e x] by simp
    then show ?thesis using assms(2) e x by (auto simp: has_few_hits_def in_use_def)
  qed
  then have lt: "live t = in_use t"
    unfolding pruned_sizes(5) [OF assms(1) d(2)] by (auto simp: t_def in_use_def)
  have "unat (t_current_size t) = sum (space t) (live t)"
    using table_facts(2) pruned_inv [OF assms(1) d(2)] by (simp add: cache_inv_def)
  then have "unat (t_current_size t) = held_space t" unfolding held_space_def lt .
  then show ?thesis using d pruned_sizes(1) [OF assms(1) d(2)] by auto
qed

lemma hits_loop_ends:
  assumes "held_space s + unat (d_folder_size s) < unat (d_total_size s) - unat (d_gc_buffer s)"
    and "cache_inv s" "gc_sizes_ok s" "\<forall>e\<in>live s. ce_hits (the (h_entries s e)) < h + int n"
  shows "hits_loop h s \<noteq> None"
  using assms
proof (induction n arbitrary: h s)
  case 0
  obtain t where t: "delete_by_hits h s = (Inr (), t)" "pruned s t" "unat (t_current_size t) = held_space s"
    using all_hits_reached [OF 0(2), of h] 0(4) by force
  have "stopGC t" using stopGC_nat pruned_sizes(4) [OF 0(2) t(2) 0(3)] t(3) 0(1) pruned_sel(1-3) [OF t(2)] by simp
  then show ?case by (subst hits_loop.simps) (simp add: t(1) hits_loop.simps [of "h + 1" t])
next
  case (Suc n)
  obtain t where t: "delete_by_hits h s = (Inr (), t)" "pruned s t" using delete_by_hits_prunes [OF Suc.prems(2), of h] by blast
  note p = pruned_sizes [OF Suc.prems(2) t(2)] pruned_sel [OF t(2)]
  have "hits_loop (h + 1) t \<noteq> None"
  proof (rule Suc.IH)
    show "cache_inv t" "gc_sizes_ok t" using pruned_inv [OF Suc.prems(2) t(2)] p(4) Suc.prems(3) by auto
    show "held_space t + unat (d_folder_size t) < unat (d_total_size t) - unat (d_gc_buffer t)" using Suc.prems(1) p by simp
    show "\<forall>e\<in>live t. ce_hits (the (h_entries t e)) < h + 1 + int n" using Suc.prems(4) p(6,14) by force
  qed
  then show ?case by (subst hits_loop.simps) (simp add: t(1))
qed

text \<open>
  C17: Collecting garbage by hits ends, with the cache below its mark, exactly when the responses that are being
  read leave room for it: when they alone are above the mark the loop never ends. (The sizes are those
  that do not wrap around.)
\<close>

theorem collection_ends_iff:
  assumes "cache_run s" "startGC s" "gc_sizes_ok s"
  shows "if held_space s + unat (d_folder_size s) < unat (d_total_size s) - unat (d_gc_buffer s)
    then \<exists>t. hits_gc s = (Inr (), t) \<and> stopGC t \<and> in_use t = in_use s
    else hits_gc s = (Inl Endless, s)"
proof -
  have i: "cache_inv s" using run_inv [OF assms(1)] by auto
  let ?room = "held_space s + unat (d_folder_size s) < unat (d_total_size s) - unat (d_gc_buffer s)"
  have ends: "pruned s t \<and> stopGC t \<and> hits_gc s = (Inr (), t) \<and> ?room" if "hits_loop 0 s = Some (r, t)" for r t
  proof -
    have p: "r = Inr ()" "pruned s t" "stopGC t" using hits_loop_prunes [OF that] i by auto
    have "?room" using p(3) stopGC_nat [OF pruned_sizes(4) [OF i p(2) assms(3)]] pruned_sizes(2) [OF i p(2)] pruned_sel(1-3) [OF p(2)] by simp
    then show ?thesis using p that assms(2) by (simp add: hits_gc_def)
  qed
  have room: "hits_loop 0 s \<noteq> None" if r: ?room
  proof -
    have "finite (live s)" using live_finite i by (simp add: cache_inv_def)
    then obtain m where m: "\<forall>e\<in>live s. ce_hits (the (h_entries s e)) \<le> m"
      using finite_imageI [of "live s" "\<lambda>e. ce_hits (the (h_entries s e))"] by (meson Max_ge imageI)
    show ?thesis by (rule hits_loop_ends [OF r i assms(3), of 0 "nat (m + 1)"]) (use m in fastforce)
  qed
  show ?thesis
  proof (cases ?room)
    case True
    then obtain r t where "hits_loop 0 s = Some (r, t)" using room by fastforce
    then show ?thesis using True ends pruned_sizes(5) [OF i] by (simp del: not_None_eq)
  next
    case False
    then have "hits_loop 0 s = None" using ends by (cases "hits_loop 0 s") auto
    then show ?thesis using False assms(2) by (simp add: hits_gc_def)
  qed
qed

section \<open>Updated headers\<close>

lemma insert_header_names:
  "header_name ` set (insert_header h gs) = insert (header_name h) (header_name ` set gs)"
  by (induction h gs rule: insert_header.induct) auto

lemma insert_header_sorted:
  "sorted_wrt (<) (map header_name gs) \<Longrightarrow> sorted_wrt (<) (map header_name (insert_header h gs))"
proof (induction h gs rule: insert_header.induct)
  case (2 h g gs)
  have "header_name ` set (insert_header h gs) = insert (header_name h) (header_name ` set gs)" by (rule insert_header_names)
  then have a: "header_name k = header_name h \<or> header_name k \<in> header_name ` set gs" if "k \<in> set (insert_header h gs)" for k
    using that by blast
  have "header_name g < header_name k" if "header_name g < header_name h" "k \<in> set (insert_header h gs)" for k
    using a [OF that(2)] that(1) 2(2) by auto
  then show ?case using 2 by (auto intro: less_trans)
qed simp

lemma find_insert_header:
  "sorted_wrt (<) (map header_name gs) \<Longrightarrow>
    find (\<lambda>k. header_name k = n) (insert_header h gs) =
      (case find (\<lambda>k. header_name k = n) gs of Some k \<Rightarrow> Some k | None \<Rightarrow> if header_name h = n then Some h else None)"
proof (induction h gs rule: insert_header.induct)
  case (2 h g gs)
  have "find (\<lambda>k. header_name k = header_name h) gs = None" if "header_name h < header_name g"
    using 2(2) that by (auto simp: find_None_iff)
  then show ?case using 2 by (auto split: option.splits)
qed simp

lemma fold_insert_headers:
  "sorted_wrt (<) (map header_name gs) \<Longrightarrow> sorted_wrt (<) (map header_name (fold insert_header hs gs)) \<and>
    find (\<lambda>k. header_name k = n) (fold insert_header hs gs) =
      (case find (\<lambda>k. header_name k = n) gs of Some k \<Rightarrow> Some k | None \<Rightarrow> find (\<lambda>k. header_name k = n) hs)"
proof (induction hs arbitrary: gs)
  case (Cons h hs)
  note s = insert_header_sorted [OF Cons.prems, of h]
  show ?case using Cons.IH [OF s] find_insert_header [OF Cons.prems, of n h] by (auto split: option.splits)
qed (auto split: option.splits)

lemma find_rev_distinct:
  assumes "distinct (map f xs)"
  shows "find (\<lambda>k. f k = n) (rev xs) = find (\<lambda>k. f k = n) xs"
proof -
  have only: "find (\<lambda>k. f k = n) ys = Some k \<longleftrightarrow> k \<in> set ys \<and> f k = n" if "distinct (map f ys)" for ys k
    using that by (induction ys) auto
  have "distinct (map f (rev xs))" using assms by (simp add: rev_map [symmetric])
  then have "find (\<lambda>k. f k = n) (rev xs) = Some k \<longleftrightarrow> find (\<lambda>k. f k = n) xs = Some k" for k
    by (simp add: only assms)
  then show ?thesis by (cases "find (\<lambda>k. f k = n) xs"; cases "find (\<lambda>k. f k = n) (rev xs)") auto
qed

lemma merged_lookup:
  "find (\<lambda>k. header_name k = n) (merge_headers new old) = find (\<lambda>k. header_name k = n) (new @ old)"
  "distinct (map header_name (merge_headers new old))"
proof -
  note f = fold_insert_headers [of "[]" "new @ old"]
  have s: "sorted_wrt (<) (map header_name (fold insert_header (new @ old) []))" using f by simp
  have d: "distinct (map header_name (fold insert_header (new @ old) []))" using s strict_sorted_iff by blast
  show "distinct (map header_name (merge_headers new old))" using d by (simp add: merge_headers_def rev_map [symmetric])
  show "find (\<lambda>k. header_name k = n) (merge_headers new old) = find (\<lambda>k. header_name k = n) (new @ old)"
    using f find_rev_distinct [OF d] by (simp add: merge_headers_def)
qed

text \<open>
  C16: An update merges the headers of a response and keeps its body: asking for its URL afterwards gives the
  body as before, and as headers the end-to-end ones of a list without duplicate names in which a name
  that the update has stands with the update's first header for it, every other one with the stored header.
\<close>

theorem updated_headers_read:
  assumes "cache_run s" "get_cached_response w url s = (Inr (Some (f, old, n)), u)"
    and "update_response v url rt headers s = (Inr (), t)"
    and "\<forall>h\<in>set (end_to_end (merge_headers headers old)). one_line h"
  shows "\<exists>f' u' merged. get_cached_response w url t = (Inr (Some (f', end_to_end merged, n)), u') \<and> h_open u' f' = h_open u f \<and>
    distinct (map header_name merged) \<and>
    (\<forall>name. find (\<lambda>h. header_name h = name) merged = find (\<lambda>h. header_name h = name) (headers @ old))"
proof -
  have i: "cache_inv s" "index_named s" "\<not> d_cache_mutex s" using run_inv [OF assms(1)] by auto
  obtain e x body where g: "holds_url s url e x" "h_files s n = Some body" "read_metadata w n s = (Inr old, s)" "can_open w n"
      "f = h_next_file s" "ce_cachename x = n" "u = opened s e x body"
    using get_cached_Inr [OF i(1) assms(2)] by auto
  obtain d y z old' c where x: "holds_url s url d y" "same_key y z" "read_metadata v (ce_cachename y) s = (Inr old', s)"
      "write_headers (can_write v (ce_cachename y @ CACHE_META)) (merge_headers headers old') [] = (Inr (), c)"
      "t = s\<lparr>h_files := (h_files s)(ce_cachename y @ CACHE_META \<mapsto> c), h_entries := (h_entries s)(d \<mapsto> z), d_cache_mutex := False\<rparr>"
    using update_response_Inr [OF i(1) assms(3)] by blast
  have same: "d = e" "y = x" using holds_unique [OF _ x(1) g(1)] i(1) by (auto simp: cache_inv_def)
  then have old: "old' = old" using x(3) g(3,6) by (auto simp: read_metadata_Inr)
  have it: "cache_inv t" using update_response_good [OF i(1) assms(3)] by (simp add: good_def)
  have n: "ce_cachename z = n" "ce_url z = url" using x(2) g(1,6) same by (auto simp: same_key_def holds_url_def)
  have lv: "live t = live s" by (simp add: x(5) live_def)
  have h: "holds_url t url e z" using g(1) n lv by (simp add: holds_url_def) (simp add: x(5) same)
  have files: "h_files t n = Some body" "h_files t (n @ CACHE_META) = Some c"
    using g(2) by (simp_all add: x(5) same g(6) CACHE_META_def)
  have "can_open w (n @ CACHE_META)" using g(3) by (simp add: read_metadata_Inr)
  then have "read_metadata w (ce_cachename z) t = (Inr (end_to_end (merge_headers headers old)), t)"
    using metadata_back [OF x(4) _ _, of w n t] assms(4) files(2) by (simp add: old n)
  from get_cached_ok [OF it _ h this] have
    "get_cached_response w url t = (Inr (Some (h_next_file t, end_to_end (merge_headers headers old), n)), opened t e z body)"
    using g(4) files(1) n by (simp add: x(5))
  moreover have "h_open (opened t e z body) (h_next_file t) = h_open u f" by (simp add: opened_def g)
  ultimately show ?thesis using merged_lookup by blast
qed

end
