(* ===== verification/CacheDemo.thy ===== *)
theory CacheDemo
  imports CacheRuns
begin

text \<open>
  A small run of the HTTP cache, in which one response is stored and read, and a large one is stored: the
  theorems about the runs, applied to it.
\<close>

section \<open>A small run\<close>

text \<open>A cache over an empty directory where every call of the operating system succeeds.\<close>

definition willing :: env where
  "willing = \<lparr>now = 1000, can_open = (\<lambda>_. True), can_write = (\<lambda>_. True), mkdir_ok = (\<lambda>_. True), st_blksize = (\<lambda>_. Some 512),
     mkstemp = (\<lambda>files p. if files (p @ ''abcdef'') = None then Some (p @ ''abcdef'') else None)\<rparr>"

definition blank_cache :: http_cache where
  "blank_cache =
     \<lparr>h_entries = (\<lambda>_. None), h_next = 0, h_files = (\<lambda>_. None), h_dirs = [], h_open = (\<lambda>_. None), h_next_file = 0,
      t_cache_table = (\<lambda>_. None), t_cache_root = [], t_cache_index = [], t_block_size = 0, t_current_size = 0, t_new_entries = 0,
      t_locked_entries = [], d_cache_root = [], d_locked_open_file = False, d_cache_enabled = False, d_expire_ignored = False,
      d_always_validate = False, d_total_size = 0, d_folder_size = 0, d_gc_buffer = 0, d_max_entry_size = 0, d_default_expiration = 0,
      d_cache_control = [], d_max_age = 0, d_max_stale = 0, d_min_fresh = 0, d_cache_mutex = False, d_open_files = []\<rparr>"

definition first_url :: string where
  "first_url = ''http:a''"

definition first_entry :: cache_entry where
  "first_entry = (entry_for first_url)\<lparr>ce_cachename := ''/c/105/dodsabcdef'', ce_etag := ''x'', ce_size := 4,
     ce_freshness_lifetime := max 0 (to_int32 NO_LM_EXPIRATION), ce_response_time := 1000,
     ce_corrected_initial_age := max 0 (to_int32 1001) + 10\<rparr>"

definition started :: http_cache where
  "started = snd (new_cache willing ''/c'' False blank_cache)"

definition one_stored :: http_cache where
  "one_stored = snd (cache_response willing first_url 990 [''ETag: x'', ''Connection: close''] (''body'', False) started)"

definition one_read :: http_cache where
  "one_read = snd (get_cached_response willing first_url one_stored)"


lemmas op_simps = bind_def ret_def upd_def raise_def stops_def put_entry_def free_entry_def remove_file_def the_entry_def catch_rethrow_def


lemma start_result:
  "new_cache willing ''/c'' False blank_cache =
    (Inr (), blank_cache\<lparr>h_files := [''/c/.lock'' \<mapsto> []], h_dirs := [''/c''], t_cache_root := ''/c/'', t_cache_index := ''/c/.index'',
     t_block_size := 512, d_cache_root := ''/c/'', d_locked_open_file := True, d_cache_enabled := True,
     d_total_size := CACHE_TOTAL_SIZE * MEGA, d_folder_size := CACHE_TOTAL_SIZE div 10, d_gc_buffer := CACHE_TOTAL_SIZE div 10,
     d_max_entry_size := 3 * MEGA, d_default_expiration := NO_LM_EXPIRATION, d_max_age := - 1, d_max_stale := - 1, d_min_fresh := - 1\<rparr>)"
  unfolding new_cache_def set_cache_root_def bind_upd
  by (simp add: op_simps get_single_user_lock_def create_cache_root_def create_cache_root_from.simps find_char_def find_if_from_def
    substr_def Let_def willing_def blank_cache_def new_table_def cache_index_read_def)

lemmas started_eq = started_def [unfolded start_result snd_conv]

lemma new_cache_started: "new_cache willing ''/c'' False blank_cache = (Inr (), started)"
  by (simp add: start_result started_eq)

lemma first_facts:
  "get_hash first_url = 105" "is_http_url first_url" "parse_header v m ''ETag: x'' x = Inr (x\<lparr>ce_etag := ''x''\<rparr>)"
  "parse_header v m ''Connection: close'' x = Inr x" "is_hop_by_hop_header ''Connection: close''" "\<not> is_hop_by_hop_header ''ETag: x''"
  "entry_disk_space 4 512 = 512" "show_int 105 = ''105''" "to_int32 4 = 4"
  by code_simp+

lemmas storing = cache_response_def op_simps lock_cache_interface_def unlock_cache_interface_def started_eq blank_cache_def
  store_response_def remove_entry_from_cache_table_def sweep_slot_def new_entry_def lock_write_response_def entry_for_def blank_entry_def
  parse_headers_def calculate_time_def create_location_def create_hash_directory_def willing_def write_body_def write_metadata_def
  add_entry_to_cache_table_def unlock_write_response_def dump_index_def Let_def CACHE_TABLE_SIZE_def

lemma first_result:
  "cache_response willing first_url 990 [''ETag: x'', ''Connection: close''] (''body'', False) started =
    (Inr True, started\<lparr>h_entries := [0 \<mapsto> first_entry], h_next := 1, h_files := [''/c/.lock'' \<mapsto> [], ''/c/105/dodsabcdef'' \<mapsto> ''body'',
      ''/c/105/dodsabcdef'' @ CACHE_META \<mapsto> ''ETag: x'' @ [lf]], h_dirs := [''/c/105'', ''/c''],
    t_cache_table := [105 \<mapsto> [Some 0]], t_current_size := 512, t_new_entries := 1\<rparr>)"
  by (simp add: storing first_facts first_entry_def)

lemmas one_stored_eq = one_stored_def [unfolded first_result snd_conv]

lemma first_stored:
  "cache_response willing first_url 990 [''ETag: x'', ''Connection: close''] (''body'', False) started = (Inr True, one_stored)"
  by (simp add: first_result one_stored_eq)

lemma willing_ok: "mkstemp_ok willing"
  by (auto simp: mkstemp_ok_def willing_def split: if_splits)

lemma started_run: "cache_run started"
  by (rule cache_run.start [OF new_cache_started]) (simp_all add: willing_def blank_cache_def)

lemma body_fits: "fits started ''body''"
  by (simp add: fits_def body_space_def started_eq blank_cache_def first_facts)

lemma one_stored_run: "cache_run one_stored"
  by (rule cache_run.step [OF started_run willing_ok, of "Cache_response first_url 990 [''ETag: x'', ''Connection: close''] (''body'', False)"])
    (auto simp: body_fits void_Inr first_stored)

lemma one_read_holds: "holds_url one_stored first_url 0 first_entry"
  by (auto simp: holds_url_def live_def one_stored_eq first_entry_def entry_for_def intro: exI [of _ 105])

lemma first_read:
  "get_cached_response willing first_url one_stored = (Inr (Some (0, [''ETag: x''], ''/c/105/dodsabcdef'')), one_read)"
  "one_read = opened one_stored 0 first_entry ''body''"
proof -
  have n: "ce_cachename first_entry = ''/c/105/dodsabcdef''" by (simp add: first_entry_def)
  have f: "fgets_lines (''ETag: x'' @ [lf]) = [''ETag: x'' @ [lf]]" by code_simp
  have h: "headers_of_lines [''ETag: x'' @ [lf]] = Inr [''ETag: x'']" by code_simp
  have r: "read_metadata willing (ce_cachename first_entry) one_stored = (Inr [''ETag: x''], one_stored)"
    unfolding read_metadata_Inr n using f h by (simp add: willing_def one_stored_eq)
  have g: "get_cached_response willing first_url one_stored = (Inr (Some (0, [''ETag: x''], ''/c/105/dodsabcdef'')), opened one_stored 0 first_entry ''body'')"
    using get_cached_ok [OF _ _ one_read_holds r, where body = "''body''"] run_inv [OF one_stored_run] n
    by (simp add: willing_def) (simp add: one_stored_eq started_eq blank_cache_def CACHE_META_def)
  then show "one_read = opened one_stored 0 first_entry ''body''" by (simp add: one_read_def)
  with g show "get_cached_response willing first_url one_stored = (Inr (Some (0, [''ETag: x''], ''/c/105/dodsabcdef'')), one_read)" by simp
qed

lemma one_read_run: "cache_run one_read"
  by (rule cache_run.step [OF one_stored_run willing_ok, of "Get_cached_response first_url"])
    (auto simp: void_Inr first_read(1))

section \<open>A response that is above the limit\<close>

definition big_body :: string where
  "big_body = replicate 5000000 (CHR ''x'')"

lemma big_body_facts: "length big_body = 5000000" "big_body \<noteq> []"
proof -
  show l: "length big_body = 5000000" unfolding big_body_def by (rule length_replicate)
  show "big_body \<noteq> []" using l by (metis list.size(3) zero_neq_numeral)
qed

definition small_cache :: http_cache where
  "small_cache = snd (set_max_size willing 5 started)"

definition big_stored :: http_cache where
  "big_stored = snd (cache_response willing first_url 990 [] (big_body, False) small_cache)"

lemma sizes_below: "d_total_size started = 20971520" "\<not> (5 :: 64 word) < 5" "5 * MEGA = 5242880" "(5242880 :: 64 word) div 10 = 524288"
  by (simp_all add: started_eq CACHE_TOTAL_SIZE_def MEGA_def)

lemma small_result:
  "set_max_size willing 5 started = (Inr (), started\<lparr>d_total_size := 5242880, d_folder_size := 524288, d_gc_buffer := 524288\<rparr>)"
  by (simp add: set_max_size_def op_simps lock_cache_interface_def unlock_cache_interface_def shrink_cache_def startGC_def Let_def sizes_below)
    (simp add: started_eq blank_cache_def)

lemmas small_cache_eq = small_cache_def [unfolded small_result snd_conv]

lemma small_set: "set_max_size willing 5 started = (Inr (), small_cache)"
  by (simp add: small_result small_cache_eq)

lemma small_run: "cache_run small_cache"
  by (rule cache_run.step [OF started_run willing_ok, of "Set_max_size 5"]) (simp_all add: small_set)

lemma big_facts: "to_int32 5000000 = 5000000" "entry_disk_space 5000000 512 = 5000192" "(scast (5000192 :: 32 word) :: 64 word) = 5000192"
  "is_http_url first_url" "get_hash first_url = 105" "show_int 105 = ''105''"
  by code_simp+

lemma big_result:
  "\<exists>t. cache_response willing first_url 990 [] (big_body, False) small_cache = (Inr True, t) \<and>
    t_current_size t = 5000192 \<and> d_total_size t = 5242880 \<and> d_folder_size t = 524288 \<and> d_gc_buffer t = 524288 \<and> t_locked_entries t = []"
  by (simp add: storing small_cache_eq big_facts big_body_facts)

lemma big_stores: "cache_response willing first_url 990 [] (big_body, False) small_cache = (Inr True, big_stored)"
  using big_result by (auto simp: big_stored_def)

lemma big_sizes: "t_current_size big_stored = 5000192" "d_total_size big_stored = 5242880" "d_folder_size big_stored = 524288"
    "d_gc_buffer big_stored = 524288" "t_locked_entries big_stored = []"
  using big_result by (auto simp: big_stored_def)

lemma big_fits: "fits small_cache big_body"
  by (simp add: fits_def body_space_def big_body_facts big_facts small_cache_eq started_eq blank_cache_def)

lemma big_run: "cache_run big_stored"
  by (rule cache_run.step [OF small_run willing_ok, of "Cache_response first_url 990 [] (big_body, False)"])
    (auto simp: void_Inr big_stores big_fits)

section \<open>The theorems applied\<close>

theorem cache_books_kept_witness:
  "cache_run one_read \<and> unat (t_current_size one_read) = (\<Sum>e\<in>live one_read. space one_read e) \<and> \<not> d_cache_mutex one_read"
  using one_read_run cache_books_kept [OF one_read_run] by blast

lemma one_read_locked: "m_find (t_locked_entries one_read) 0 = Some (Some 0)"
  by (simp add: first_read(2) opened_def one_stored_eq started_eq blank_cache_def)

theorem responses_in_use_stay_witness:
  "0 \<in> live (snd (cache_step willing (Set_expire_ignored True) one_read))"
proof -
  have "cache_step willing (Set_expire_ignored True) one_read = (Inr (), snd (cache_step willing (Set_expire_ignored True) one_read))"
    using run_inv [OF one_read_run]
    by (simp add: set_expire_ignored_def locked_upd_def bind_def lock_cache_interface_def upd_def unlock_cache_interface_def)
  from responses_in_use_stay [OF one_read_run one_read_locked this _ willing_ok] show ?thesis by simp
qed

theorem response_read_back_witness:
  "\<exists>f n u. get_cached_response willing first_url one_stored = (Inr (Some (f, [''ETag: x''], n)), u) \<and> h_open u f = Some ''body''"
proof -
  have e: "end_to_end [''ETag: x'', ''Connection: close''] = [''ETag: x'']" by (simp add: end_to_end_def first_facts)
  have "t_new_entries started < 10" by (simp add: started_eq blank_cache_def)
  from response_read_back [OF started_run willing_ok _ first_stored, of willing] this show ?thesis
    using body_fits by (simp add: e one_line_def willing_def)
qed

theorem replacing_while_read_deadlocks_witness:
  "\<exists>t. cache_response willing first_url 995 [] ([], False) one_read = (Inl Blocked, t) \<and>
    cache_step willing (Release_cached_response 0) t = (Inl Blocked, t)"
proof -
  have "ce_url (the (h_entries one_read 0)) = first_url"
    by (simp add: first_read(2) opened_def reader_added_def first_entry_def entry_for_def)
  from replacing_while_read_deadlocks [OF one_read_run one_read_locked this first_facts(2), of willing 995 "[]" "([], False)"]
  show ?thesis by (meson locks_interface.simps)
qed

theorem collection_ends_iff_witness: "\<exists>t. hits_gc big_stored = (Inr (), t) \<and> stopGC t"
proof -
  have u: "in_use big_stored = {}" by (simp add: in_use_def reads_def big_sizes)
  have "startGC big_stored" "gc_sizes_ok big_stored" by (simp_all add: startGC_def gc_sizes_ok_def big_sizes)
  from collection_ends_iff [OF big_run this] show ?thesis
    by (simp add: held_space_def u big_sizes) blast
qed

lemma new_tag_facts:
  "parse_header v m ''ETag: y'' x = Inr (x\<lparr>ce_etag := ''y''\<rparr>)" "merge_headers [''ETag: y''] [''ETag: x''] = [''ETag: y'']"
  "\<not> is_hop_by_hop_header ''ETag: y''" "fgets_lines ''ETag: x\<newline>'' = [''ETag: x\<newline>'']" "header_of_line ''ETag: x\<newline>'' = Inr ''ETag: x''"
  by code_simp+

lemma first_updated:
  "update_response willing first_url 999 [''ETag: y''] one_stored = (Inr (), snd (update_response willing first_url 999 [''ETag: y''] one_stored))"
  by (simp add: update_response_def get_write_locked_entry_from_cache_table_def find_entry_def first_facts new_tag_facts op_simps
      lock_cache_interface_def unlock_cache_interface_def one_stored_eq started_eq blank_cache_def first_entry_def entry_for_def blank_entry_def
      lock_write_response_def parse_headers_def calculate_time_def read_metadata_def write_metadata_def willing_def unlock_write_response_def Let_def
      CACHE_META_def)

theorem updated_headers_read_witness:
  "\<exists>t f u. update_response willing first_url 999 [''ETag: y''] one_stored = (Inr (), t) \<and>
    (\<exists>hs n. get_cached_response willing first_url t = (Inr (Some (f, hs, n)), u)) \<and> h_open u f = Some ''body''"
proof -
  have "end_to_end (merge_headers [''ETag: y''] [''ETag: x'']) = [''ETag: y'']" by (simp add: new_tag_facts end_to_end_def)
  then have "\<forall>h\<in>set (end_to_end (merge_headers [''ETag: y''] [''ETag: x''])). one_line h" by (simp add: one_line_def)
  from updated_headers_read [OF one_stored_run first_read(1) first_updated this]
  obtain f u hs where r: "get_cached_response willing first_url (snd (update_response willing first_url 999 [''ETag: y''] one_stored)) = (Inr (Some (f, hs, ''/c/105/dodsabcdef'')), u)"
    "h_open u f = h_open one_read 0" by blast
  have "h_open one_read 0 = Some ''body''" by (simp add: first_read(2) opened_def) (simp add: one_stored_eq started_eq blank_cache_def)
  then show ?thesis using first_updated r by metis
qed

end
