(* ===== verification/CacheIndex.thy ===== *)
theory CacheIndex
  imports CacheTable
begin

text \<open>The index of the HTTP cache: the line that is written for an entry is read back as that entry.\<close>

abbreviation blank :: char where "blank \<equiv> CHR '' ''"

lemma show_int_split:
  "\<exists>ds. show_int i = (if i < 0 then CHR ''-'' # ds else ds) \<and> ds \<noteq> [] \<and> (\<forall>c\<in>set ds. is_digit_in 10 c) \<and> digits_value 10 ds = nat \<bar>i\<bar>"
  using show_base_digits [of 10 "nat \<bar>i\<bar>"] by (auto simp: show_int_def digits_value_show_base)

lemma blank_char: "is_space blank" "\<not> is_digit_in 10 blank" "is_space cr" "\<not> is_digit_in 10 cr"
  by (simp_all add: is_space_def is_digit_in_def digit_val_def)

lemma ext_number_shown:
  assumes "r \<noteq> []" "\<not> is_digit_in 10 (hd r)"
  shows "ext_number (blank # show_int i @ r, True) = (Some (i < 0, nat \<bar>i\<bar>), r, True)"
proof -
  obtain ds where ds: "show_int i = (if i < 0 then CHR ''-'' # ds else ds)" "ds \<noteq> []" "\<forall>c\<in>set ds. is_digit_in 10 c"
      "digits_value 10 ds = nat \<bar>i\<bar>"
    using show_int_split by blast
  obtain d e where d: "ds = d # e" "is_digit_in 10 d" using ds(2,3) by (cases ds) auto
  have nd: "\<not> is_space d" "d \<noteq> CHR ''-''" "d \<noteq> CHR ''+''" using is_digit_not_special [OF d(2)] by simp_all
  have tw: "takeWhile (is_digit_in 10) (ds @ r) = ds"
    using ds(3) assms by (cases r) (auto simp: takeWhile_append)
  have sp: "\<not> is_space (CHR ''-'')" by (simp add: is_space_def)
  have "split_sign (skip_ws (blank # show_int i @ r)) = (i < 0, ds @ r)" "skip_ws (blank # show_int i @ r) \<noteq> []"
    using nd sp by (auto simp: skip_ws_def blank_char ds(1) d(1) split_sign_def)
  then show ?thesis using tw ds(2,4) by (simp add: ext_number_def Let_def)
qed

lemma ext_signed_shown:
  assumes "r \<noteq> []" "\<not> is_digit_in 10 (hd r)" "- (2 ^ (w - 1)) \<le> i" "i < 2 ^ (w - 1)"
  shows "ext_signed w (blank # show_int i @ r, True) = (Some i, r, True)"
  using assms(3,4) by (auto simp: ext_signed_def ext_number_shown [OF assms(1,2)] Let_def)

lemma ext_ulong_shown:
  assumes "r \<noteq> []" "\<not> is_digit_in 10 (hd r)"
  shows "ext_ulong (blank # show_int (sint (w :: 64 word)) @ r, True) = (Some w, r, True)"
proof -
  have b: "- (2 ^ 63) \<le> sint w" "sint w < 2 ^ 63" using sint_greater_eq [of w] sint_less [of w] by simp_all
  have "(if sint w < 0 then - of_nat (nat \<bar>sint w\<bar>) else of_nat (nat \<bar>sint w\<bar>)) = (of_int (sint w) :: 64 word)" by auto
  then show ?thesis using b by (auto simp: ext_ulong_def ext_number_shown [OF assms])
qed

lemma ext_bool_shown:
  assumes "r \<noteq> []" "\<not> is_digit_in 10 (hd r)"
  shows "ext_bool (blank # (if b then ''1'' else ''0'') @ r, True) = (Some b, r, True)"
proof -
  have s: "show_int 1 = ''1''" "show_int 0 = ''0''" by code_simp+
  show ?thesis
    using ext_signed_shown [OF assms, of 64 "if b then 1 else 0"] by (cases b) (simp_all add: ext_bool_def s)
qed

definition plain_word :: "string \<Rightarrow> bool" where
  "plain_word w \<longleftrightarrow> w \<noteq> [] \<and> (\<forall>c\<in>set w. \<not> is_space c \<and> c \<noteq> nul)"

lemma ext_word_here:
  assumes "plain_word w"
  shows "ext_word (blank # w @ blank # r, True) = (Some w, blank # r, True)" "ext_word (w @ blank # r, True) = (Some w, blank # r, True)"
proof -
  have sk: "skip_ws (w @ blank # r) = w @ blank # r" using assms by (cases w) (auto simp: plain_word_def skip_ws_def)
  then have sk': "skip_ws (blank # w @ blank # r) = w @ blank # r" by (simp add: skip_ws_def blank_char)
  have "takeWhile (\<lambda>c. \<not> is_space c) (w @ blank # r) = w" "dropWhile (\<lambda>c. \<not> is_space c) (w @ blank # r) = blank # r"
    using assms by (auto simp: plain_word_def blank_char takeWhile_append dropWhile_append)
  then show "ext_word (blank # w @ blank # r, True) = (Some w, blank # r, True)" "ext_word (w @ blank # r, True) = (Some w, blank # r, True)"
    using assms sk sk' by (auto simp: ext_word_def Let_def plain_word_def)
qed

lemma plain_c_str: "plain_word w \<Longrightarrow> c_str w = w"
  by (simp add: c_str_def plain_word_def)

text \<open>The fields that the index has, in the ranges of their types.\<close>

definition indexable :: "cache_entry \<Rightarrow> bool" where
  "indexable x \<longleftrightarrow>
     plain_word (ce_url x) \<and> plain_word (ce_cachename x) \<and> (ce_etag x = [] \<or> plain_word (ce_etag x) \<and> ce_etag x \<noteq> CACHE_EMPTY_ETAG) \<and>
     (\<forall>i\<in>{ce_lm x, ce_expires x, ce_freshness_lifetime x, ce_response_time x, ce_corrected_initial_age x}. - (2 ^ 63) \<le> i \<and> i < 2 ^ 63) \<and>
     (\<forall>i\<in>{ce_hash x, ce_hits x}. - (2 ^ 31) \<le> i \<and> i < 2 ^ 31)"

definition etag_word :: "cache_entry \<Rightarrow> string" where
  "etag_word x = (if ce_etag x = [] then CACHE_EMPTY_ETAG else ce_etag x)"

lemma etag_plain: "indexable x \<Longrightarrow> plain_word (etag_word x)"
  by (auto simp: indexable_def etag_word_def plain_word_def CACHE_EMPTY_ETAG_def is_space_def)

lemma index_line_eq:
  assumes "indexable x"
  shows "index_line x = ce_url x @ blank # ce_cachename x @ blank # etag_word x @ blank # show_int (ce_lm x) @ blank # show_int (ce_expires x) @
    blank # show_int (sint (ce_size x)) @ blank # (if ce_range x then ''1'' else ''0'') @ blank # show_int (ce_hash x) @ blank # show_int (ce_hits x) @
    blank # show_int (ce_freshness_lifetime x) @ blank # show_int (ce_response_time x) @ blank # show_int (ce_corrected_initial_age x) @
    blank # (if ce_must_revalidate x then ''1'' else ''0'') @ [cr, lf]"
  using assms plain_c_str by (auto simp: index_line_def etag_word_def indexable_def)

lemma no_nul: "plain_word w \<Longrightarrow> nul \<notin> set w" "nul \<notin> set (show_int i)"
proof -
  show "nul \<notin> set w" if "plain_word w" using that by (auto simp: plain_word_def)
  show "nul \<notin> set (show_int i)" using show_int_split [of i] is_digit_not_special(6) [of 10 nul] by (auto split: if_splits)
qed

lemma index_line_c_str:
  assumes "indexable x"
  shows "c_str (index_line x) = index_line x"
proof -
  have "nul \<notin> set (index_line x)"
    using no_nul etag_plain [OF assms] assms by (simp add: index_line_eq [OF assms] indexable_def)
  then show ?thesis unfolding c_str_def by (subst takeWhile_eq_all_conv) auto
qed

text \<open>
  C19: The index survives: the line written for an entry is read back as an entry with the same URL, file, tag,
  times, size, hash, hits and flags, every one of the size's 64 bits included, and no readers. The words
  must have no white space and the tag must not be the placeholder of the empty one.
\<close>

theorem index_round_trip:
  assumes "indexable x"
  shows "cache_index_parse_line (index_line x) =
    x\<lparr>ce_date := - 1, ce_age := - 1, ce_max_age := - 1, ce_no_cache := False, ce_readers := 0, ce_read_lock := False, ce_write_lock := False\<rparr>"
proof -
  have w: "plain_word (ce_url x)" "plain_word (ce_cachename x)" "plain_word (etag_word x)"
    using assms etag_plain by (auto simp: indexable_def)
  have e: "(if etag_word x = CACHE_EMPTY_ETAG then [] else etag_word x) = ce_etag x"
    using assms by (auto simp: etag_word_def indexable_def)
  show ?thesis
    unfolding cache_index_parse_line_def index_line_c_str [OF assms]
    unfolding index_line_eq [OF assms]
    using assms e
    by (simp add: ext_word_here [OF w(1)] ext_word_here [OF w(2)] ext_word_here [OF w(3)] ext_signed_shown ext_ulong_shown ext_bool_shown
      blank_char or_else_def indexable_def blank_entry_def)
      (intro conjI impI cache_entry.equality; simp)
qed

theorem index_round_trip_witness:
  "cache_index_parse_line (index_line (blank_entry\<lparr>ce_url := ''http:a'', ce_cachename := ''/c/1/dodsabcdef'', ce_size := - 1, ce_hits := 7\<rparr>)) =
    blank_entry\<lparr>ce_url := ''http:a'', ce_cachename := ''/c/1/dodsabcdef'', ce_size := - 1, ce_hits := 7\<rparr>"
proof -
  have "indexable (blank_entry\<lparr>ce_url := ''http:a'', ce_cachename := ''/c/1/dodsabcdef'', ce_size := - 1, ce_hits := 7\<rparr>)"
    by (simp add: indexable_def plain_word_def blank_entry_def is_space_def)
  from index_round_trip [OF this] show ?thesis by (simp add: blank_entry_def)
qed

end
