(* ===== verification/DapVar.thy ===== *)
theory DapVar
  imports AttrTable DapArray
begin

text \<open>
  The variables of a dataset, \<^verbatim>\<open>libdap/BaseType.cc\<close>, \<^verbatim>\<open>Vector.cc\<close>, \<^verbatim>\<open>Array.cc\<close>, \<^verbatim>\<open>Constructor.cc\<close>,
  \<^verbatim>\<open>Structure.cc\<close>, \<^verbatim>\<open>Sequence.cc\<close> and \<^verbatim>\<open>Grid.cc\<close>: how they are made, named, copied, deleted and put
  together. A variable owns its parts, so that it is a tree here; its attributes are a table in the store
  of \<^theory_text>\<open>AttrTable\<close>, because the entries of tables can be shared. The values of variables are not modelled.
\<close>

section \<open>Types\<close>

datatype dap_type =
    Null_c | Byte_c | Int16_c | UInt16_c | Int32_c | UInt32_c | Float32_c | Float64_c | Str_c | Url_c
  | Array_c | Structure_c | Sequence_c | Grid_c
  | Int8_c | UInt8_c | Int64_c | UInt64_c | Url4_c | Enum_c | Group_c

fun type_name :: "dap_type \<Rightarrow> string" where
  "type_name Null_c = ''Null''"
| "type_name Byte_c = ''Byte''"
| "type_name Int16_c = ''Int16''"
| "type_name UInt16_c = ''UInt16''"
| "type_name Int32_c = ''Int32''"
| "type_name UInt32_c = ''UInt32''"
| "type_name Float32_c = ''Float32''"
| "type_name Float64_c = ''Float64''"
| "type_name Str_c = ''String''"
| "type_name Url_c = ''Url''"
| "type_name Array_c = ''Array''"
| "type_name Structure_c = ''Structure''"
| "type_name Sequence_c = ''Sequence''"
| "type_name Grid_c = ''Grid''"
| "type_name Int8_c = ''Int8''"
| "type_name UInt8_c = ''UInt8''"
| "type_name Int64_c = ''Int64''"
| "type_name UInt64_c = ''UInt64''"
| "type_name Url4_c = ''URL''"
| "type_name Group_c = ''Group''"
| "type_name Enum_c = ''Enum''"

definition get_dap_type :: "string \<Rightarrow> dap_type" where
  "get_dap_type s =
     (if s = ''Byte'' then Byte_c else if s = ''Int8'' then Int8_c else if s = ''UInt8'' then UInt8_c
      else if s = ''Int16'' then Int16_c else if s = ''UInt16'' then UInt16_c
      else if s = ''Int32'' then Int32_c else if s = ''UInt32'' then UInt32_c
      else if s = ''Int64'' then Int64_c else if s = ''UInt64'' then UInt64_c
      else if s = ''Float32'' then Float32_c else if s = ''Float64'' then Float64_c
      else if s = ''String'' then Str_c else if s = ''URL'' then Url4_c else if s = ''Url'' then Url_c
      else if s = ''Array'' then Array_c else if s = ''Structure'' then Structure_c
      else if s = ''Sequence'' then Sequence_c else if s = ''Grid'' then Grid_c else Null_c)"

fun is_simple_type :: "dap_type \<Rightarrow> bool" where
  "is_simple_type Null_c = False"
| "is_simple_type Array_c = False"
| "is_simple_type Structure_c = False"
| "is_simple_type Sequence_c = False"
| "is_simple_type Grid_c = False"
| "is_simple_type Group_c = False"
| "is_simple_type _ = True"

definition is_vector_type :: "dap_type \<Rightarrow> bool" where
  "is_vector_type t = (t = Array_c)"

definition is_constructor_type :: "dap_type \<Rightarrow> bool" where
  "is_constructor_type t = (t = Structure_c \<or> t = Sequence_c \<or> t = Grid_c \<or> t = Group_c)"

section \<open>Variables\<close>

text \<open>
  What all variables have; the table of attributes is an address. A structure and a sequence have their
  fields; an array has its length, dimensions and the variable that stands for its elements, which may be
  missing; a grid has its array, which may be missing, and its maps.
\<close>

record base =
  b_name :: string
  b_type :: dap_type
  b_attr :: nat
  b_read :: bool
  b_send :: bool
  b_in_selection :: bool
  b_synthesized :: bool

datatype dap_var =
    Simple base
  | Vec base int "dimension list" "dap_var option"
  | Strct base "dap_var list"
  | Grd base "dap_var option" "dap_var list"

fun var_base :: "dap_var \<Rightarrow> base" where
  "var_base (Simple b) = b"
| "var_base (Vec b _ _ _) = b"
| "var_base (Strct b _) = b"
| "var_base (Grd b _ _) = b"

fun with_base :: "(base \<Rightarrow> base) \<Rightarrow> dap_var \<Rightarrow> dap_var" where
  "with_base f (Simple b) = Simple (f b)"
| "with_base f (Vec b len ds x) = Vec (f b) len ds x"
| "with_base f (Strct b vs) = Strct (f b) vs"
| "with_base f (Grd b arr maps) = Grd (f b) arr maps"

abbreviation var_name :: "dap_var \<Rightarrow> string" where
  "var_name v \<equiv> b_name (var_base v)"

abbreviation var_type :: "dap_var \<Rightarrow> dap_type" where
  "var_type v \<equiv> b_type (var_base v)"

definition new_base :: "string \<Rightarrow> dap_type \<Rightarrow> nat \<Rightarrow> base" where
  "new_base n t at = \<lparr>b_name = n, b_type = t, b_attr = at, b_read = False, b_send = False,
     b_in_selection = False, b_synthesized = False\<rparr>"

text \<open>The factory makes the types of DAP2; for any other there is a null pointer.\<close>

fun blank_var :: "dap_type \<Rightarrow> base \<Rightarrow> dap_var option" where
  "blank_var Array_c b = Some (Vec b (- 1) [] None)"
| "blank_var Structure_c b = Some (Strct b [])"
| "blank_var Sequence_c b = Some (Strct b [])"
| "blank_var Grid_c b = Some (Grd b None [])"
| "blank_var t b =
     (if t \<in> {Byte_c, Int16_c, UInt16_c, Int32_c, UInt32_c, Float32_c, Float64_c, Str_c, Url_c}
      then Some (Simple b) else None)"

definition factory :: "dap_type \<Rightarrow> string \<Rightarrow> at_heap \<Rightarrow> (dap_var \<times> at_heap) option" where
  "factory t n h =
     (let (a, h') = new_AttrTable h
      in case blank_var t (new_base n t a) of Some v \<Rightarrow> Some (v, h') | None \<Rightarrow> None)"

text \<open>The name of an array is also the name of its element variable.\<close>

definition decoded :: "int \<Rightarrow> string \<Rightarrow> string" where
  "decoded junk n = www2id junk n ''%'' []"

fun set_var_name :: "int \<Rightarrow> string \<Rightarrow> dap_var \<Rightarrow> dap_var" where
  "set_var_name junk n (Vec b len ds x) =
     Vec (b\<lparr>b_name := decoded junk n\<rparr>) len ds (case x of None \<Rightarrow> None | Some e \<Rightarrow> Some (set_var_name junk n e))"
| "set_var_name junk n v = with_base (\<lambda>b. b\<lparr>b_name := decoded junk n\<rparr>) v"

section \<open>Copying and deleting\<close>

lemma obind_cong [fundef_cong]:
  "r = r' \<Longrightarrow> (\<And>a. r' = Some (Inr a) \<Longrightarrow> f a = g a) \<Longrightarrow> obind r f = obind r' g"
  by (auto simp: obind_def split: option.splits sum.splits intro!: Option.bind_cong)

text \<open>
  \<open>ptr_duplicate\<close>: the attributes of every part are copied into a new table, the parts after the
  whole. A grid without an array is copied through a null pointer.
\<close>

definition copy_base :: "nat option \<Rightarrow> base \<Rightarrow> at_heap \<Rightarrow> (base \<times> at_heap) at_result option" where
  "copy_base ptr b h = obind (copy_AttrTable ptr (b_attr b) h) (\<lambda>(a, h). Some (Inr (b\<lparr>b_attr := a\<rparr>, h)))"

fun copy_var :: "nat option \<Rightarrow> dap_var \<Rightarrow> at_heap \<Rightarrow> (dap_var \<times> at_heap) at_result option"
and copy_vars :: "nat option \<Rightarrow> dap_var list \<Rightarrow> at_heap \<Rightarrow> (dap_var list \<times> at_heap) at_result option" where
  "copy_var ptr (Simple b) h = obind (copy_base ptr b h) (\<lambda>(b, h). Some (Inr (Simple b, h)))"
| "copy_var ptr (Vec b len ds x) h =
     obind (copy_base ptr b h) (\<lambda>(b, h).
     case x of
       None \<Rightarrow> Some (Inr (Vec b len ds None, h))
     | Some e \<Rightarrow> obind (copy_var ptr e h) (\<lambda>(e, h). Some (Inr (Vec b len ds (Some e), h))))"
| "copy_var ptr (Strct b vs) h =
     obind (copy_base ptr b h) (\<lambda>(b, h). obind (copy_vars ptr vs h) (\<lambda>(vs, h). Some (Inr (Strct b vs, h))))"
| "copy_var ptr (Grd b arr maps) h =
     obind (copy_base ptr b h) (\<lambda>(b, h).
     case arr of
       None \<Rightarrow> Some (Inl Fault)
     | Some a \<Rightarrow> obind (copy_var ptr a h) (\<lambda>(a, h).
         obind (copy_vars ptr maps h) (\<lambda>(maps, h). Some (Inr (Grd b (Some a) maps, h)))))"
| "copy_vars ptr [] h = Some (Inr ([], h))"
| "copy_vars ptr (v # vs) h =
     obind (copy_var ptr v h) (\<lambda>(v, h). obind (copy_vars ptr vs h) (\<lambda>(vs, h). Some (Inr (v # vs, h))))"

definition delete_table :: "nat \<Rightarrow> at_heap \<Rightarrow> at_heap at_result option" where
  "delete_table a h =
     (case h_tables h a of
        None \<Rightarrow> Some (Inl Fault)
      | Some t \<Rightarrow> obind (delete_entries (attr_map t) h) (\<lambda>h. Some (Inr (free_table a h))))"

text \<open>The destructors: first the parts, then the own attributes.\<close>

fun delete_var :: "dap_var \<Rightarrow> at_heap \<Rightarrow> at_heap at_result option"
and delete_vars :: "dap_var list \<Rightarrow> at_heap \<Rightarrow> at_heap at_result option" where
  "delete_var (Simple b) h = delete_table (b_attr b) h"
| "delete_var (Vec b len ds x) h =
     obind (case x of None \<Rightarrow> Some (Inr h) | Some e \<Rightarrow> delete_var e h) (delete_table (b_attr b))"
| "delete_var (Strct b vs) h = obind (delete_vars vs h) (delete_table (b_attr b))"
| "delete_var (Grd b arr maps) h =
     obind (case arr of None \<Rightarrow> Some (Inr h) | Some a \<Rightarrow> delete_var a h) (\<lambda>h.
     obind (delete_vars maps h) (delete_table (b_attr b)))"
| "delete_vars [] h = Some (Inr h)"
| "delete_vars (v # vs) h = obind (delete_var v h) (delete_vars vs)"

section \<open>Putting variables together\<close>

text \<open>Dimensions are added with the operations of \<^theory_text>\<open>DapArray\<close>.\<close>

fun append_dim_to :: "int \<Rightarrow> int \<Rightarrow> string \<Rightarrow> dap_var \<Rightarrow> dap_var" where
  "append_dim_to junk sz n (Vec b len ds x) =
     (let a = append_dim junk sz n \<lparr>arr_name = b_name b, arr_length = len, arr_shape = ds, arr_var = x, arr_send_p = b_send b\<rparr>
      in Vec b (arr_length a) (arr_shape a) x)"
| "append_dim_to junk sz n v = v"

text \<open>
  The element variable is replaced by a copy. Its name, when it has one, becomes the name of both;
  otherwise it gets the name of the array.
\<close>

definition vector_add_var ::
  "int \<Rightarrow> nat option \<Rightarrow> base \<Rightarrow> int \<Rightarrow> dimension list \<Rightarrow> dap_var option \<Rightarrow> dap_var \<Rightarrow> at_heap \<Rightarrow>
   (dap_var \<times> at_heap) at_result option" where
  "vector_add_var junk ptr b len ds x v h =
     obind (case x of None \<Rightarrow> Some (Inr h) | Some e \<Rightarrow> delete_var e h) (\<lambda>h.
     obind (copy_var ptr v h) (\<lambda>(e, h).
     Some (Inr (if var_name v \<noteq> [] then set_var_name junk (var_name v) (Vec b len ds (Some e))
                else Vec b len ds (Some (set_var_name junk (b_name b) e)), h))))"

text \<open>An array that is added to an array gives its element variable and its dimensions.\<close>

definition array_add_var ::
  "int \<Rightarrow> nat option \<Rightarrow> base \<Rightarrow> int \<Rightarrow> dimension list \<Rightarrow> dap_var option \<Rightarrow> dap_var \<Rightarrow> at_heap \<Rightarrow>
   (dap_var \<times> at_heap) at_result option" where
  "array_add_var junk ptr b len ds x v h =
     (case v of
        Vec vb vlen vds vx \<Rightarrow>
          (case vx of
             None \<Rightarrow> Some (Inl Fault)
           | Some e \<Rightarrow> obind (vector_add_var junk ptr b len ds x e h) (\<lambda>(a, h).
               Some (Inr (fold (\<lambda>d. append_dim_to junk (dim_size d) (dim_name d)) vds a, h))))
      | _ \<Rightarrow> vector_add_var junk ptr b len ds x v h)"

text \<open>The virtual \<open>add_var\<close> of each class. The first variable of a grid must be an array.\<close>

fun add_to :: "int \<Rightarrow> nat option \<Rightarrow> dap_var \<Rightarrow> dap_var \<Rightarrow> at_heap \<Rightarrow> (dap_var \<times> at_heap) at_result option" where
  "add_to junk ptr v (Simple b) h = Some (Inl (Throws (InternalErr ''BaseType::add_var unimplemented'')))"
| "add_to junk ptr v (Vec b len ds x) h = array_add_var junk ptr b len ds x v h"
| "add_to junk ptr v (Strct b vs) h = obind (copy_var ptr v h) (\<lambda>(v, h). Some (Inr (Strct b (vs @ [v]), h)))"
| "add_to junk ptr v (Grd b None maps) h =
     (if is_vector_type (var_type v) then obind (copy_var ptr v h) (\<lambda>(v, h). Some (Inr (Grd b (Some v) maps, h)))
      else Some (Inl (Throws (InternalErr ''Grid::add_var(): with Part==array: object is not an Array!''))))"
| "add_to junk ptr v (Grd b (Some a) maps) h =
     obind (copy_var ptr v h) (\<lambda>(v, h). Some (Inr (Grd b (Some a) (maps @ [v]), h)))"

text \<open>The first variable of that name is deleted.\<close>

fun del_named :: "string \<Rightarrow> dap_var list \<Rightarrow> at_heap \<Rightarrow> (dap_var list \<times> at_heap) at_result option" where
  "del_named n [] h = Some (Inr ([], h))"
| "del_named n (v # vs) h =
     (if var_name v = n then obind (delete_var v h) (\<lambda>h. Some (Inr (vs, h)))
      else obind (del_named n vs h) (\<lambda>(vs, h). Some (Inr (v # vs, h))))"

section \<open>Flags and width\<close>

text \<open>
  The flag that a variable is to be sent goes down to all parts; through a null pointer where an array or
  a grid is not complete. An array takes the flag that its values are read also without an element
  variable.
\<close>

fun set_send_p :: "bool \<Rightarrow> dap_var \<Rightarrow> dap_var at_result"
and set_send_ps :: "bool \<Rightarrow> dap_var list \<Rightarrow> dap_var list at_result" where
  "set_send_p st (Simple b) = Inr (Simple (b\<lparr>b_send := st\<rparr>))"
| "set_send_p st (Vec b len ds x) =
     (case x of None \<Rightarrow> Inl Fault | Some e \<Rightarrow> rbind (set_send_p st e) (\<lambda>e. Inr (Vec (b\<lparr>b_send := st\<rparr>) len ds (Some e))))"
| "set_send_p st (Strct b vs) = rbind (set_send_ps st vs) (\<lambda>vs. Inr (Strct (b\<lparr>b_send := st\<rparr>) vs))"
| "set_send_p st (Grd b arr maps) =
     (case arr of
        None \<Rightarrow> Inl Fault
      | Some a \<Rightarrow> rbind (set_send_p st a) (\<lambda>a. rbind (set_send_ps st maps) (\<lambda>maps. Inr (Grd (b\<lparr>b_send := st\<rparr>) (Some a) maps))))"
| "set_send_ps st [] = Inr []"
| "set_send_ps st (v # vs) = rbind (set_send_p st v) (\<lambda>v. rbind (set_send_ps st vs) (\<lambda>vs. Inr (v # vs)))"

definition base_set_read_p :: "bool \<Rightarrow> base \<Rightarrow> base" where
  "base_set_read_p st b = (if b_synthesized b then b else b\<lparr>b_read := st\<rparr>)"

fun set_read_p :: "bool \<Rightarrow> dap_var \<Rightarrow> dap_var at_result"
and set_read_ps :: "bool \<Rightarrow> dap_var list \<Rightarrow> dap_var list at_result" where
  "set_read_p st (Simple b) = Inr (Simple (base_set_read_p st b))"
| "set_read_p st (Vec b len ds x) =
     (case x of None \<Rightarrow> Inr (Vec (base_set_read_p st b) len ds None)
      | Some e \<Rightarrow> rbind (set_read_p st e) (\<lambda>e. Inr (Vec (base_set_read_p st b) len ds (Some e))))"
| "set_read_p st (Strct b vs) = rbind (set_read_ps st vs) (\<lambda>vs. Inr (Strct (base_set_read_p st b) vs))"
| "set_read_p st (Grd b arr maps) =
     (case arr of
        None \<Rightarrow> Inl Fault
      | Some a \<Rightarrow> rbind (set_read_p st a) (\<lambda>a. rbind (set_read_ps st maps) (\<lambda>maps. Inr (Grd (base_set_read_p st b) (Some a) maps))))"
| "set_read_ps st [] = Inr []"
| "set_read_ps st (v # vs) = rbind (set_read_p st v) (\<lambda>v. rbind (set_read_ps st vs) (\<lambda>vs. Inr (v # vs)))"

text \<open>An array keeps the selection of its element variable.\<close>

fun set_in_selection :: "bool \<Rightarrow> dap_var \<Rightarrow> dap_var at_result"
and set_in_selections :: "bool \<Rightarrow> dap_var list \<Rightarrow> dap_var list at_result" where
  "set_in_selection st (Simple b) = Inr (Simple (b\<lparr>b_in_selection := st\<rparr>))"
| "set_in_selection st (Vec b len ds x) = Inr (Vec (b\<lparr>b_in_selection := st\<rparr>) len ds x)"
| "set_in_selection st (Strct b vs) = rbind (set_in_selections st vs) (\<lambda>vs. Inr (Strct (b\<lparr>b_in_selection := st\<rparr>) vs))"
| "set_in_selection st (Grd b arr maps) =
     (case arr of
        None \<Rightarrow> Inl Fault
      | Some a \<Rightarrow> rbind (set_in_selection st a) (\<lambda>a. rbind (set_in_selections st maps) (\<lambda>maps.
          Inr (Grd (b\<lparr>b_in_selection := st\<rparr>) (Some a) maps))))"
| "set_in_selections st [] = Inr []"
| "set_in_selections st (v # vs) = rbind (set_in_selection st v) (\<lambda>v. rbind (set_in_selections st vs) (\<lambda>vs. Inr (v # vs)))"

text \<open>The bytes of a variable, or of the parts of it that are to be sent; \<open>cell\<close> gives those of a value.\<close>

fun var_width :: "(dap_type \<Rightarrow> nat) \<Rightarrow> bool \<Rightarrow> dap_var \<Rightarrow> nat at_result"
and vars_width :: "(dap_type \<Rightarrow> nat) \<Rightarrow> bool \<Rightarrow> dap_var list \<Rightarrow> nat at_result" where
  "var_width cell constrained (Simple b) = Inr (cell (b_type b))"
| "var_width cell constrained (Vec b len ds x) =
     (case x of
        None \<Rightarrow> Inl Fault
      | Some e \<Rightarrow> rbind (var_width cell constrained e) (\<lambda>w.
          Inr (array_width (\<lambda>_ _. w) constrained
             \<lparr>arr_name = b_name b, arr_length = len, arr_shape = ds, arr_var = x, arr_send_p = b_send b\<rparr>)))"
| "var_width cell constrained (Strct b vs) = vars_width cell constrained vs"
| "var_width cell constrained (Grd b arr maps) =
     (case arr of
        None \<Rightarrow> Inl Fault
      | Some a \<Rightarrow> rbind (if constrained \<and> \<not> b_send (var_base a) then Inr 0 else var_width cell constrained a) (\<lambda>w.
          rbind (vars_width cell constrained maps) (\<lambda>m. Inr ((w + m) mod 2 ^ 32))))"
| "vars_width cell constrained [] = Inr 0"
| "vars_width cell constrained (v # vs) =
     rbind (if constrained \<and> \<not> b_send (var_base v) then Inr 0 else var_width cell constrained v) (\<lambda>w.
     rbind (vars_width cell constrained vs) (\<lambda>m. Inr ((w + m) mod 2 ^ 32)))"

end
