(* ===== verification/DapSearch.thy ===== *)
theory DapSearch
  imports DapVar
begin

text \<open>
  Finding a variable by its name, \<^verbatim>\<open>Constructor::var\<close>, \<^verbatim>\<open>Vector::var\<close>, \<^verbatim>\<open>Grid::var\<close> and \<^verbatim>\<open>DDS::var\<close>, and marking it to
  be sent, \<^verbatim>\<open>DDS::mark\<close>. A pointer to a variable is the list of positions that leads to it.
\<close>

section \<open>Positions\<close>

fun children :: "dap_var \<Rightarrow> dap_var list" where
  "children (Simple b) = []"
| "children (Vec b len ds x) = (case x of None \<Rightarrow> [] | Some e \<Rightarrow> [e])"
| "children (Strct b vs) = vs"
| "children (Grd b arr maps) = (case arr of None \<Rightarrow> maps | Some a \<Rightarrow> a # maps)"

fun with_children :: "dap_var list \<Rightarrow> dap_var \<Rightarrow> dap_var" where
  "with_children cs (Simple b) = Simple b"
| "with_children cs (Vec b len ds x) = Vec b len ds (case x of None \<Rightarrow> None | Some _ \<Rightarrow> Some (hd cs))"
| "with_children cs (Strct b vs) = Strct b cs"
| "with_children cs (Grd b arr maps) = (case arr of None \<Rightarrow> Grd b None cs | Some _ \<Rightarrow> Grd b (Some (hd cs)) (tl cs))"

fun node_in :: "nat list \<Rightarrow> dap_var list \<Rightarrow> dap_var option" where
  "node_in [] vs = None"
| "node_in (i # p) vs =
     (if i < length vs then if p = [] then Some (vs ! i) else node_in p (children (vs ! i)) else None)"

fun update_in :: "(dap_var \<Rightarrow> dap_var) \<Rightarrow> nat list \<Rightarrow> dap_var list \<Rightarrow> dap_var list" where
  "update_in f [] vs = vs"
| "update_in f (i # p) vs =
     (if i < length vs
      then vs[i := (if p = [] then f (vs ! i) else with_children (update_in f p (children (vs ! i))) (vs ! i))]
      else vs)"

definition node_at :: "nat list \<Rightarrow> dap_var \<Rightarrow> dap_var option" where
  "node_at p v = (if p = [] then Some v else node_in p (children v))"

fun index_named :: "string \<Rightarrow> dap_var list \<Rightarrow> nat option" where
  "index_named n [] = None"
| "index_named n (v # vs) = (if var_name v = n then Some 0 else map_option Suc (index_named n vs))"

section \<open>Searching below a variable\<close>

lemma www2id_loop_length: "length (www2id_loop junk esc ex res i) \<le> length res"
proof (induction junk esc ex res i rule: www2id_loop.induct)
  case (1 junk esc ex res i)
  have "length (str_replace res j 3 (unhexstring junk (substr res (j + 1) 2))) \<le> length res"
    if "find_first_of res esc i = Some j" for j
  proof -
    have "j < length res" using find_if_from_SomeD(2) that by (auto simp: find_first_of_def)
    moreover have "length (unhexstring junk (substr res (j + 1) 2)) \<le> 1"
      unfolding unhexstring_def by (rule length_c_str_singleton)
    ultimately show ?thesis by (auto simp: str_replace_def)
  qed
  then show ?case using 1 by (subst www2id_loop.simps) (auto split: option.splits intro: order_trans)
qed

lemma decoded_length: "length (decoded junk n) \<le> length n"
  by (simp add: decoded_def www2id_def www2id_loop_length)

text \<open>
  The result is the position of the variable, or null, and the positions of the variables that were
  pushed on the stack of parents, the first first. What was pushed stays there when the search fails.
  Every call decodes the name again.
\<close>

type_synonym found = "nat list option \<times> nat list list"

definition below :: "nat list \<Rightarrow> found \<Rightarrow> found" where
  "below p r = (map_option ((@) p) (fst r), map ((@) p) (snd r))"

definition before_dot :: "string \<Rightarrow> (string \<times> string) option" where
  "before_dot n =
     (case find_char n (CHR ''.'') 0 of None \<Rightarrow> None | Some pos \<Rightarrow> Some (substr n 0 pos, substr_from n (pos + 1)))"

lemma before_dot_length: "before_dot n = Some (a, f) \<Longrightarrow> length a < length n \<and> length f < length n"
  by (auto simp: before_dot_def find_char_def substr_def substr_from_def split: option.splits dest: find_if_from_SomeD)

text \<open>
  The element variable of an array of a simple type is found under every name. A search for a leaf looks
  into every constructor on the way.
\<close>

function find_in :: "int \<Rightarrow> bool \<Rightarrow> string \<Rightarrow> dap_var \<Rightarrow> found at_result"
and leaf_in :: "int \<Rightarrow> string \<Rightarrow> dap_var list \<Rightarrow> nat \<Rightarrow> found at_result" where
  "find_in junk exact n (Simple b) = Inr (None, [])"
| "find_in junk exact n (Vec b len ds x) =
     (case x of
        None \<Rightarrow> Inl Fault
      | Some e \<Rightarrow>
          if is_constructor_type (var_type e) then
            if decoded junk n = [] \<or> var_name e = decoded junk n then Inr (Some [0], [[]])
            else rbind (find_in junk exact (decoded junk n) e) (\<lambda>r.
                 Inr (let (p, s) = below [0] r in (p, if p = None then s else s @ [[]])))
          else Inr (Some [0], []))"
| "find_in junk exact n (Strct b vs) =
     (if exact then
        case index_named (decoded junk n) vs of
          Some i \<Rightarrow> Inr (Some [i], [[]])
        | None \<Rightarrow>
            (case before_dot (decoded junk n) of
               None \<Rightarrow> Inr (None, [])
             | Some (agg, field) \<Rightarrow>
                 rbind (find_in junk True agg (Strct b vs)) (\<lambda>r.
                 case fst r of
                   None \<Rightarrow> Inr (None, [])
                 | Some p \<Rightarrow>
                     (case node_at p (Strct b vs) of
                        None \<Rightarrow> Inl Fault
                      | Some a \<Rightarrow> rbind (find_in junk True field a) (\<lambda>r. Inr (let (q, s) = below p r in (q, [] # s))))))
      else leaf_in junk (decoded junk n) vs 0)"
| "find_in junk exact n (Grd b arr maps) =
     (case arr of
        None \<Rightarrow> Inl Fault
      | Some a \<Rightarrow> (case index_named (decoded junk n) (a # maps) of Some i \<Rightarrow> Inr (Some [i], [[]]) | None \<Rightarrow> Inr (None, [])))"
| "leaf_in junk n [] i = Inr (None, [])"
| "leaf_in junk n (v # vs) i =
     (if var_name v = n then Inr (Some [i], [[]])
      else rbind (if is_constructor_type (var_type v) then find_in junk False n v else Inr (None, [])) (\<lambda>r.
           if fst r \<noteq> None then Inr (let (p, s) = below [i] r in (p, s @ [[]]))
           else rbind (leaf_in junk n vs (i + 1)) (\<lambda>(p, s). Inr (p, snd (below [i] r) @ s))))"
  by pat_completeness auto

termination
  apply (relation "measures [\<lambda>x. case x of Inl (junk, exact, n, v) \<Rightarrow> length n | Inr (junk, n, vs, i) \<Rightarrow> length n,
                             \<lambda>x. case x of Inl (junk, exact, n, v) \<Rightarrow> size v | Inr (junk, n, vs, i) \<Rightarrow> size_list size vs]")
        apply (auto dest!: before_dot_length intro: less_le_trans [OF _ decoded_length])
  using decoded_length le_neq_implies_less apply (blast+)?
  done

section \<open>Searching in a dataset\<close>

text \<open>
  A dataset: its variables and, when variables are to be put into a structure of the dataset, the position
  of that container.
\<close>

record dds =
  dds_name :: string
  dds_attr :: nat
  dds_vars :: "dap_var list"
  dds_container :: "nat list option"
  dds_major :: int
  dds_minor :: int
  dds_version :: string
  dds_namespace :: string
  dds_xml_base :: string

text \<open>
  \<open>DDS::leaf_match\<close> and \<open>DDS::exact_match\<close>; the variables at the top are not pushed. A qualified name
  is looked up in what the search for the part before the dot finds.
\<close>

fun dds_leaf :: "int \<Rightarrow> string \<Rightarrow> dap_var list \<Rightarrow> nat \<Rightarrow> found at_result" where
  "dds_leaf junk n [] i = Inr (None, [])"
| "dds_leaf junk n (v # vs) i =
     (if var_name v = n then Inr (Some [i], [])
      else rbind (if is_constructor_type (var_type v) then find_in junk False n v else Inr (None, [])) (\<lambda>r.
           if fst r \<noteq> None then Inr (below [i] r)
           else rbind (dds_leaf junk n vs (i + 1)) (\<lambda>(p, s). Inr (p, snd (below [i] r) @ s))))"

function vars_find :: "int \<Rightarrow> string \<Rightarrow> dap_var list \<Rightarrow> found at_result" where
  "vars_find junk n vs =
     (let name = decoded junk n in
      rbind (case index_named name vs of
               Some i \<Rightarrow> Inr (Some [i], [])
             | None \<Rightarrow>
                 (case before_dot name of
                    None \<Rightarrow> Inr (None, [])
                  | Some (agg, field) \<Rightarrow>
                      rbind (vars_find junk agg vs) (\<lambda>(p, s).
                      case p of
                        None \<Rightarrow> Inr (None, s)
                      | Some p \<Rightarrow>
                          (case node_in p vs of
                             None \<Rightarrow> Inl Fault
                           | Some a \<Rightarrow> rbind (find_in junk True field a) (\<lambda>r. let (q, s') = below p r in Inr (q, s @ s'))))))
        (\<lambda>(p, s). case p of
             Some q \<Rightarrow> Inr (p, s)
           | None \<Rightarrow> rbind (dds_leaf junk name vs 0) (\<lambda>(p, s'). Inr (p, s @ s'))))"
  by pat_completeness auto

termination
  by (relation "measure (\<lambda>(junk, n, vs). length n)")
    (auto dest!: before_dot_length intro: less_le_trans [OF _ decoded_length])

declare vars_find.simps [simp del]

definition dds_var :: "int \<Rightarrow> string \<Rightarrow> dds \<Rightarrow> found at_result" where
  "dds_var junk n d =
     (case dds_container d of
        Some c \<Rightarrow>
          (case node_in c (dds_vars d) of
             None \<Rightarrow> Inl Fault
           | Some v \<Rightarrow> rbind (find_in junk False (decoded junk n) v) (\<lambda>r. Inr (below c r)))
      | None \<Rightarrow> vars_find junk n (dds_vars d))"

text \<open>
  \<open>DDS::mark\<close>: the variable with all its parts, and the parents on the stack without theirs. The
  result says whether the variable was found.
\<close>

definition mark :: "int \<Rightarrow> string \<Rightarrow> bool \<Rightarrow> dds \<Rightarrow> (bool \<times> dds) at_result" where
  "mark junk n st d =
     rbind (dds_var junk n d) (\<lambda>(p, s).
     case p of
       None \<Rightarrow> Inr (False, d)
     | Some p \<Rightarrow>
         (case node_in p (dds_vars d) of
            None \<Rightarrow> Inl Fault
          | Some v \<Rightarrow> rbind (set_send_p st v) (\<lambda>v.
              Inr (True, d\<lparr>dds_vars := fold (update_in (with_base (\<lambda>b. b\<lparr>b_send := st\<rparr>))) (rev s)
                                          (update_in (\<lambda>_. v) p (dds_vars d))\<rparr>))))"

definition mark_all :: "bool \<Rightarrow> dds \<Rightarrow> dds at_result" where
  "mark_all st d = rbind (set_send_ps st (dds_vars d)) (\<lambda>vs. Inr (d\<lparr>dds_vars := vs\<rparr>))"

section \<open>Adding and deleting in a dataset\<close>

text \<open>The variable is copied also when its copy is not needed, because the container makes one of its own.\<close>

definition dds_add_var :: "int \<Rightarrow> nat option \<Rightarrow> dap_var \<Rightarrow> dds \<Rightarrow> at_heap \<Rightarrow> (dds \<times> at_heap) at_result option" where
  "dds_add_var junk ptr v d h =
     obind (copy_var ptr v h) (\<lambda>(v', h).
     case dds_container d of
       None \<Rightarrow> Some (Inr (d\<lparr>dds_vars := dds_vars d @ [v']\<rparr>, h))
     | Some c \<Rightarrow>
         (case node_in c (dds_vars d) of
            None \<Rightarrow> Some (Inl Fault)
          | Some w \<Rightarrow> obind (add_to junk ptr v w h) (\<lambda>(w, h).
              obind (delete_var v' h) (\<lambda>h.
              Some (Inr (d\<lparr>dds_vars := update_in (\<lambda>_. w) c (dds_vars d)\<rparr>, h))))))"

definition dds_del_var :: "string \<Rightarrow> dds \<Rightarrow> at_heap \<Rightarrow> (dds \<times> at_heap) at_result option" where
  "dds_del_var n d h =
     (case dds_container d of
        None \<Rightarrow> obind (del_named n (dds_vars d) h) (\<lambda>(vs, h). Some (Inr (d\<lparr>dds_vars := vs\<rparr>, h)))
      | Some c \<Rightarrow>
          (case node_in c (dds_vars d) of
             None \<Rightarrow> Some (Inl Fault)
           | Some w \<Rightarrow> obind (del_named n (children w) h) (\<lambda>(vs, h).
               Some (Inr (d\<lparr>dds_vars := update_in (with_children vs) c (dds_vars d)\<rparr>, h)))))"

text \<open>
  The container of that name is taken when the search finds a structure; otherwise an empty one is added
  and searched again.
\<close>

definition found_structure :: "found \<Rightarrow> dds \<Rightarrow> nat list option" where
  "found_structure r d =
     (case fst r of
        None \<Rightarrow> None
      | Some p \<Rightarrow> (case node_in p (dds_vars d) of Some v \<Rightarrow> if var_type v = Structure_c then Some p else None | None \<Rightarrow> None))"

definition set_container :: "int \<Rightarrow> nat option \<Rightarrow> string \<Rightarrow> dds \<Rightarrow> at_heap \<Rightarrow> (dds \<times> at_heap) at_result option" where
  "set_container junk ptr cn d h =
     (let d = d\<lparr>dds_container := None\<rparr> in
      if cn = [] then Some (Inr (d, h))
      else obind (Some (dds_var junk cn d)) (\<lambda>r.
           case found_structure r d of
             Some p \<Rightarrow> Some (Inr (d\<lparr>dds_container := Some p\<rparr>, h))
           | None \<Rightarrow>
               (let (a, h) = new_AttrTable h; s = Strct (new_base cn Structure_c a) [] in
                obind (dds_add_var junk ptr s d h) (\<lambda>(d, h).
                obind (delete_var s h) (\<lambda>h.
                obind (Some (dds_var junk cn d)) (\<lambda>r.
                Some (Inr (d\<lparr>dds_container := found_structure r d\<rparr>, h))))))))"

end
