(* ===== verification/DapMark.thy ===== *)
theory DapMark
  imports DapSearch "HOL-Library.Sublist"
begin

text \<open>
  What marking a variable by its qualified name does: the search finds the variable that the name leads
  to and pushes its parents, and exactly the variable with its parts and its parents change their flag.
\<close>

section \<open>Flags and positions\<close>

definition sent :: "nat list \<Rightarrow> dap_var list \<Rightarrow> bool option" where
  "sent q vs = map_option (\<lambda>v. b_send (var_base v)) (node_in q vs)"

lemma sent_Nil [simp]: "sent [] vs = None"
  by (simp add: sent_def)

lemma sent_Cons: "sent (i # p) vs =
    (if i < length vs then if p = [] then Some (b_send (var_base (vs ! i))) else sent p (children (vs ! i)) else None)"
  by (simp add: sent_def)

lemma sent_empty [simp]: "sent q [] = None"
  by (cases q) (simp_all add: sent_Cons)

lemma sent_0 [simp]: "sent (0 # p) (v # vs) = (if p = [] then Some (b_send (var_base v)) else sent p (children v))"
  by (simp add: sent_Cons)

lemma sent_Suc [simp]: "sent (Suc i # p) (v # vs) = sent (i # p) vs"
  by (simp add: sent_Cons)

lemma children_with [simp]: "length cs = length (children v) \<Longrightarrow> children (with_children cs v) = cs"
  by (cases v) (auto split: option.splits simp: length_Suc_conv)

lemma base_with_children [simp]: "var_base (with_children cs v) = var_base v"
  by (cases v) (auto split: option.splits)

lemma children_with_base [simp]: "children (with_base f v) = children v" "var_base (with_base f v) = f (var_base v)"
  by (cases v; simp)+

lemma update_in_length [simp]: "length (update_in f p vs) = length vs"
  by (induction f p vs rule: update_in.induct) auto

text \<open>Everything but the flags: the variables with all flags taken away.\<close>

fun unsent :: "dap_var \<Rightarrow> dap_var"
and unsents :: "dap_var list \<Rightarrow> dap_var list" where
  "unsent (Simple b) = Simple (b\<lparr>b_send := False\<rparr>)"
| "unsent (Vec b len ds x) = Vec (b\<lparr>b_send := False\<rparr>) len ds (case x of None \<Rightarrow> None | Some e \<Rightarrow> Some (unsent e))"
| "unsent (Strct b vs) = Strct (b\<lparr>b_send := False\<rparr>) (unsents vs)"
| "unsent (Grd b arr maps) = Grd (b\<lparr>b_send := False\<rparr>) (case arr of None \<Rightarrow> None | Some a \<Rightarrow> Some (unsent a)) (unsents maps)"
| "unsents [] = []"
| "unsents (v # vs) = unsent v # unsents vs"

lemma unsents_map: "unsents vs = map unsent vs"
  by (induction vs) simp_all

lemma unsent_send: "unsent (with_base (\<lambda>b. b\<lparr>b_send := st\<rparr>) v) = unsent v"
  by (cases v) simp_all

lemma unsent_with_children:
  "length cs = length (children v) \<Longrightarrow> unsents cs = unsents (children v) \<Longrightarrow> unsent (with_children cs v) = unsent v"
  by (cases v) (auto split: option.splits simp: length_Suc_conv)

lemma unsents_update_in:
  assumes "\<And>v. node_in p vs = Some v \<Longrightarrow> unsent (f v) = unsent v"
  shows "unsents (update_in f p vs) = unsents vs"
  using assms
proof (induction f p vs rule: update_in.induct)
  case (2 f i p vs)
  show ?case
  proof (cases "i < length vs")
    case True
    have "unsent (if p = [] then f (vs ! i) else with_children (update_in f p (children (vs ! i))) (vs ! i)) = unsent (vs ! i)"
      using 2 True by (auto intro!: unsent_with_children)
    then show ?thesis using True by (simp add: unsents_map map_update list_update_same_conv)
  qed simp
qed simp

text \<open>A change at one position, and a change below it.\<close>

lemma sent_update_in:
  assumes "\<And>v. node_in p vs = Some v \<Longrightarrow> children (f v) = children v"
  shows "sent q (update_in f p vs)
    = (if q = p then map_option (\<lambda>v. b_send (var_base (f v))) (node_in q vs) else sent q vs)"
  using assms
proof (induction f p vs arbitrary: q rule: update_in.induct)
  case (1 f vs)
  then show ?case by (cases q) auto
next
  case (2 f i p vs)
  show ?case
  proof (cases q)
    case (Cons j r)
    show ?thesis
    proof (cases "i < length vs \<and> j = i")
      case False
      then show ?thesis using Cons by (auto simp: sent_Cons)
    next
      case True
      show ?thesis
      proof (cases "p = []")
        case p: True
        have "children (f (vs ! i)) = children (vs ! i)" using 2(2) True p by auto
        then show ?thesis using Cons True p by (auto simp: sent_Cons)
      next
        case p: False
        have ih: "sent r (update_in f p (children (vs ! i)))
            = (if r = p then map_option (\<lambda>v. b_send (var_base (f v))) (node_in r (children (vs ! i))) else sent r (children (vs ! i)))"
          using 2 True p by auto
        show ?thesis using Cons True p ih by (auto simp: sent_Cons)
      qed
    qed
  qed simp
qed

lemma sent_replace:
  assumes "node_in p vs = Some v" "\<And>r. sent r [w] = map_option (\<lambda>_. st) (sent r [v])"
  shows "sent q (update_in (\<lambda>_. w) p vs) = (if prefix p q then map_option (\<lambda>_. st) (sent q vs) else sent q vs)"
  using assms(1)
proof (induction p arbitrary: vs q)
  case (Cons i p)
  then have i: "i < length vs" by (auto split: if_splits)
  show ?case
  proof (cases q)
    case (Cons j r)
    show ?thesis
    proof (cases "j = i")
      case False
      then show ?thesis using Cons i by (auto simp: sent_Cons)
    next
      case True
      show ?thesis
      proof (cases "p = []")
        case p: True
        then have "vs ! i = v" using Cons.prems i by simp
        then show ?thesis using Cons True p i assms(2) [of "0 # r"] by (auto simp: sent_Cons)
      next
        case p: False
        have "node_in p (children (vs ! i)) = Some v" using Cons.prems i p by simp
        from Cons.IH [OF this, of r] show ?thesis using Cons True p i by (auto simp: sent_Cons)
      qed
    qed
  qed simp
qed simp

definition all_sent :: "bool \<Rightarrow> dap_var list \<Rightarrow> dap_var list \<Rightarrow> bool" where
  "all_sent st ws vs = (\<forall>r. sent r ws = map_option (\<lambda>_. st) (sent r vs))"

lemma all_sent_Nil [simp]: "all_sent st [] []"
  by (simp add: all_sent_def)

lemma all_sent_Cons: "all_sent st (w # ws) (v # vs) \<longleftrightarrow>
    b_send (var_base w) = st \<and> all_sent st (children w) (children v) \<and> all_sent st ws vs"
proof
  assume a: "all_sent st (w # ws) (v # vs)"
  have "sent r ws = map_option (\<lambda>_. st) (sent r vs)" for r
    using a [unfolded all_sent_def, rule_format, of "case r of [] \<Rightarrow> [] | i # p \<Rightarrow> Suc i # p"] by (cases r) auto
  moreover have "sent r (children w) = map_option (\<lambda>_. st) (sent r (children v))" for r
    using a [unfolded all_sent_def, rule_format, of "0 # r"] by (cases r) auto
  moreover have "b_send (var_base w) = st" using a [unfolded all_sent_def, rule_format, of "[0]"] by simp
  ultimately show "b_send (var_base w) = st \<and> all_sent st (children w) (children v) \<and> all_sent st ws vs"
    by (simp add: all_sent_def)
next
  assume a: "b_send (var_base w) = st \<and> all_sent st (children w) (children v) \<and> all_sent st ws vs"
  show "all_sent st (w # ws) (v # vs)" unfolding all_sent_def
  proof
    fix r show "sent r (w # ws) = map_option (\<lambda>_. st) (sent r (v # vs))"
    proof (cases r)
      case (Cons i p)
      then show ?thesis using a by (cases i) (auto simp: all_sent_def)
    qed simp
  qed
qed

lemma set_send_sets:
  "set_send_p st v = Inr w \<Longrightarrow> unsent w = unsent v \<and> all_sent st [w] [v]"
  "set_send_ps st vs = Inr ws \<Longrightarrow> unsents ws = unsents vs \<and> all_sent st ws vs"
proof (induction st v and st vs arbitrary: w and ws rule: set_send_p_set_send_ps.induct)
qed (fastforce simp: rbind_Inr_iff all_sent_Cons split: option.splits)+

section \<open>Qualified names\<close>

text \<open>
  The qualified name of a variable: the names on the way to it, joined with dots. There is one when the way
  goes through structures and sequences, the last step perhaps into a grid, and the names at each level
  are different and plain.
\<close>

definition plain_name :: "string \<Rightarrow> bool" where
  "plain_name n = (CHR ''.'' \<notin> set n \<and> CHR ''%'' \<notin> set n)"

definition plain_level :: "dap_var list \<Rightarrow> bool" where
  "plain_level vs = (distinct (map var_name vs) \<and> (\<forall>v \<in> set vs. plain_name (var_name v)))"

fun leads_on :: "dap_var \<Rightarrow> nat list \<Rightarrow> bool" where
  "leads_on (Strct b vs) p = True"
| "leads_on (Grd b (Some a) maps) p = (length p = 1)"
| "leads_on v p = False"

fun dotted :: "nat list \<Rightarrow> dap_var list \<Rightarrow> string option" where
  "dotted [] vs = None"
| "dotted (i # p) vs =
     (if i < length vs \<and> plain_level vs then
        if p = [] then Some (var_name (vs ! i))
        else if leads_on (vs ! i) p
        then map_option (\<lambda>n. var_name (vs ! i) @ CHR ''.'' # n) (dotted p (children (vs ! i)))
        else None
      else None)"

text \<open>The positions of the parents of a variable.\<close>

fun parents :: "nat list \<Rightarrow> nat list list" where
  "parents [] = []"
| "parents (i # p) = [] # map (Cons i) (parents p)"

lemma parents_prefix: "q \<in> set (parents p) \<longleftrightarrow> strict_prefix q p"
proof (induction p arbitrary: q)
  case (Cons i p)
  then show ?case by (cases q) auto
qed simp

lemma decoded_plain: "CHR ''%'' \<notin> set n \<Longrightarrow> decoded junk n = n"
proof -
  assume "CHR ''%'' \<notin> set n"
  then have "find_first_of n ''%'' 0 = None" by (auto simp: find_first_of_def find_if_from_None_iff)
  then show ?thesis by (simp add: decoded_def www2id_def www2id_loop.simps [of junk "''%''" "[]" n 0])
qed

lemma qualified_plain: "dotted p vs = Some n \<Longrightarrow> CHR ''%'' \<notin> set n"
proof (induction p vs arbitrary: n rule: dotted.induct)
  case (2 i p vs)
  then have "i < length vs" "plain_level vs" by (auto split: if_splits)
  then have "plain_name (var_name (vs ! i))" by (simp add: plain_level_def)
  then show ?case using 2 by (auto simp: plain_name_def split: if_splits)
qed simp

lemma index_named_nth:
  "distinct (map var_name vs) \<Longrightarrow> i < length vs \<Longrightarrow> index_named (var_name (vs ! i)) vs = Some i"
proof (induction vs arbitrary: i)
  case (Cons v vs)
  then show ?case by (cases i) (auto simp: image_iff)
qed simp

lemma index_named_none: "(\<forall>v \<in> set vs. var_name v \<noteq> n) \<Longrightarrow> index_named n vs = None"
  by (induction vs) auto

lemma index_named_dotted: "plain_level vs \<Longrightarrow> index_named (a @ CHR ''.'' # n) vs = None"
  by (rule index_named_none) (auto simp: plain_level_def plain_name_def)

lemma before_dot_plain: "CHR ''.'' \<notin> set a \<Longrightarrow> before_dot (a @ CHR ''.'' # n) = Some (a, n)"
proof -
  assume a: "CHR ''.'' \<notin> set a"
  have "find_char (a @ CHR ''.'' # n) (CHR ''.'') 0 = Some (length a)"
    using a by (auto simp: find_char_def find_if_from_def scan_Some_iff nth_append in_set_conv_nth)
  then show ?thesis by (simp add: before_dot_def substr_def substr_from_def)
qed

lemma find_here: "plain_level vs \<Longrightarrow> i < length vs \<Longrightarrow> find_in junk True (var_name (vs ! i)) (Strct b vs) = Inr (Some [i], [[]])"
  by (auto simp: plain_level_def plain_name_def decoded_plain index_named_nth)

lemma find_qualified:
  "dotted p (children v) = Some n \<Longrightarrow> leads_on v p \<Longrightarrow> find_in junk True n v = Inr (Some p, parents p)"
proof (induction p arbitrary: v n)
  case (Cons i p)
  have i: "i < length (children v)" and pl: "plain_level (children v)" using Cons.prems(1) by (auto split: if_splits)
  show ?case
  proof (cases "p = []")
    case True
    then have n: "n = var_name (children v ! i)" using Cons.prems(1) i pl by simp
    have "CHR ''%'' \<notin> set n" using i pl n by (simp add: plain_level_def plain_name_def)
    moreover have "index_named n (children v) = Some i" using i pl n by (simp add: plain_level_def index_named_nth)
    ultimately show ?thesis using Cons.prems(2) True
      by (cases v) (auto simp: decoded_plain split: option.splits)
  next
    case False
    then obtain b vs where v: "v = Strct b vs" using Cons.prems(2) by (cases "(v, i # p)" rule: leads_on.cases) auto
    let ?a = "var_name (vs ! i)"
    obtain m where m: "n = ?a @ CHR ''.'' # m" "leads_on (vs ! i) p" "dotted p (children (vs ! i)) = Some m"
      using Cons.prems(1) v False i pl by (auto split: if_splits)
    have a: "plain_name ?a" using i pl v by (simp add: plain_level_def)
    have d: "decoded junk n = n" using qualified_plain [OF Cons.prems(1)] by (rule decoded_plain)
    have ih: "find_in junk True m (vs ! i) = Inr (Some p, parents p)" using Cons.IH [OF m(3,2)] .
    have agg: "find_in junk True ?a (Strct b vs) = Inr (Some [i], [[]])" using find_here pl i v by simp
    have "index_named n vs = None" "before_dot n = Some (?a, m)"
      using m(1) a pl v by (auto simp: plain_name_def intro: index_named_dotted before_dot_plain)
    then show ?thesis using d agg ih i v by (simp add: node_at_def below_def)
  qed
qed simp

text \<open>A variable is complete when every array below it has its element variable and every grid its array.\<close>

fun complete :: "dap_var \<Rightarrow> bool"
and completes :: "dap_var list \<Rightarrow> bool" where
  "complete (Simple b) = True"
| "complete (Vec b len ds x) = (case x of None \<Rightarrow> False | Some e \<Rightarrow> complete e)"
| "complete (Strct b vs) = completes vs"
| "complete (Grd b arr maps) = ((case arr of None \<Rightarrow> False | Some a \<Rightarrow> complete a) \<and> completes maps)"
| "completes [] = True"
| "completes (v # vs) = (complete v \<and> completes vs)"

lemma completes_all: "completes vs \<longleftrightarrow> (\<forall>v \<in> set vs. complete v)"
  by (induction vs) auto

lemma set_send_complete:
  "complete v \<Longrightarrow> \<exists>w. set_send_p st v = Inr w"
  "completes vs \<Longrightarrow> \<exists>ws. set_send_ps st vs = Inr ws"
  by (induction st v and st vs rule: set_send_p_set_send_ps.induct) (fastforce split: option.splits)+

lemma complete_children: "complete v \<Longrightarrow> completes (children v)"
  by (cases v) (auto split: option.splits)

lemma complete_node: "completes vs \<Longrightarrow> node_in p vs = Some v \<Longrightarrow> complete v"
proof (induction p vs rule: node_in.induct)
  case (2 i p vs)
  then have "i < length vs" "complete (vs ! i)" by (auto simp: completes_all split: if_splits)
  then show ?case using 2 complete_children [of "vs ! i"] by (auto split: if_splits)
qed simp

lemma dotted_node: "dotted p vs = Some n \<Longrightarrow> \<exists>v. node_in p vs = Some v"
  by (induction p vs arbitrary: n rule: dotted.induct) (auto split: if_splits)

text \<open>Marking the parents one after the other.\<close>

lemma fold_flags:
  assumes "vs' = fold (update_in (with_base (\<lambda>b. b\<lparr>b_send := st\<rparr>))) qs vs"
  shows "unsents vs' = unsents vs \<and> (\<forall>q. sent q vs' = (if q \<in> set qs then map_option (\<lambda>_. st) (sent q vs) else sent q vs))"
  using assms
proof (induction qs arbitrary: vs)
  case (Cons p qs)
  let ?vs = "update_in (with_base (\<lambda>b. b\<lparr>b_send := st\<rparr>)) p vs"
  have s: "sent q ?vs = (if q = p then map_option (\<lambda>_. st) (sent q vs) else sent q vs)" for q
    by (subst sent_update_in) (auto simp: sent_def option.map_comp comp_def)
  have "unsents ?vs = unsents vs" by (rule unsents_update_in) (simp add: unsent_send)
  moreover have "unsents vs' = unsents ?vs" and
    "\<And>q. sent q vs' = (if q \<in> set qs then map_option (\<lambda>_. st) (sent q ?vs) else sent q ?vs)"
    using Cons.IH [of ?vs] Cons.prems by auto
  ultimately show ?case by (auto simp: s option.map_comp comp_def)
qed simp

lemma vars_find_qualified:
  assumes "dotted p vs = Some n"
  shows "vars_find junk n vs = Inr (Some p, tl (parents p))"
proof (cases p)
  case (Cons i r)
  then have i: "i < length vs" and pl: "plain_level vs" using assms by (auto split: if_splits)
  have d: "decoded junk n = n" using qualified_plain [OF assms] by (rule decoded_plain)
  show ?thesis
  proof (cases "r = []")
    case True
    then have n: "n = var_name (vs ! i)" using assms Cons i pl by simp
    have "index_named n vs = Some i" using i pl n by (simp add: plain_level_def index_named_nth)
    then show ?thesis using Cons True d by (subst vars_find.simps) simp
  next
    case False
    let ?a = "var_name (vs ! i)"
    obtain m where m: "n = ?a @ CHR ''.'' # m" "leads_on (vs ! i) r" "dotted r (children (vs ! i)) = Some m"
      using assms Cons False i pl by (auto split: if_splits)
    have a: "plain_name ?a" using i pl by (simp add: plain_level_def)
    have agg: "vars_find junk ?a vs = Inr (Some [i], [])"
      using a i pl by (subst vars_find.simps) (simp add: decoded_plain plain_name_def plain_level_def index_named_nth)
    have "index_named n vs = None" "before_dot n = Some (?a, m)"
      using m(1) a pl by (auto simp: plain_name_def intro: index_named_dotted before_dot_plain)
    then show ?thesis using d agg find_qualified [OF m(3,2), of junk] i Cons
      by (subst vars_find.simps) (simp add: below_def)
  qed
qed (use assms in simp)

text \<open>
  C24: Marking a variable by its qualified name, in a dataset without a container and in which no array lacks
  its element variable and no grid its array: the variable is found, whatever the other names in the dataset
  are; it, all its parts and all its parents get the flag, every other flag is as it was, and nothing but
  flags changes. This is so for both values of the flag: taking a variable out of the projection takes its
  parents out too, though the comment on \<^verbatim>\<open>DDS::mark\<close> says that they are then left unchanged.
\<close>

theorem mark_qualified:
  assumes "dds_container d = None" and "completes (dds_vars d)" and "dotted p (dds_vars d) = Some n"
  shows "\<exists>d'. mark junk n st d = Inr (True, d') \<and>
    (\<forall>q. sent q (dds_vars d') = (if prefix p q \<or> prefix q p then map_option (\<lambda>_. st) (sent q (dds_vars d))
                                 else sent q (dds_vars d))) \<and>
    d'\<lparr>dds_vars := unsents (dds_vars d')\<rparr> = d\<lparr>dds_vars := unsents (dds_vars d)\<rparr>"
proof -
  let ?vs = "dds_vars d"
  obtain v where v: "node_in p ?vs = Some v" using dotted_node [OF assms(3)] by auto
  obtain w where w: "set_send_p st v = Inr w" using set_send_complete(1) complete_node [OF assms(2) v] by blast
  let ?us = "update_in (\<lambda>_. w) p ?vs"
  let ?ws = "fold (update_in (with_base (\<lambda>b. b\<lparr>b_send := st\<rparr>))) (rev (tl (parents p))) ?us"
  have found: "dds_var junk n d = Inr (Some p, tl (parents p))"
    using assms(1) vars_find_qualified [OF assms(3)] by (simp add: dds_var_def)
  have m: "mark junk n st d = Inr (True, d\<lparr>dds_vars := ?ws\<rparr>)" by (simp add: mark_def found v w)
  have s: "unsent w = unsent v" "all_sent st [w] [v]" using set_send_sets(1) [OF w] by auto
  have us: "sent q ?us = (if prefix p q then map_option (\<lambda>_. st) (sent q ?vs) else sent q ?vs)" for q
    using s(2) by (intro sent_replace [OF v]) (simp add: all_sent_def)
  have "unsents ?us = unsents ?vs" using v s(1) by (intro unsents_update_in) simp
  moreover note f = fold_flags [OF refl, of st "rev (tl (parents p))" ?us]
  ultimately have "unsents ?ws = unsents ?vs" by simp
  moreover have "sent q ?ws = (if prefix p q \<or> prefix q p then map_option (\<lambda>_. st) (sent q ?vs) else sent q ?vs)" for q
  proof (cases "q = [] \<or> p = []")
    case False
    then have "q \<in> set (tl (parents p)) \<longleftrightarrow> strict_prefix q p"
      using parents_prefix [of q p] by (cases p) auto
    moreover have "prefix p q \<or> prefix q p \<longleftrightarrow> prefix p q \<or> strict_prefix q p" by (auto simp: strict_prefix_def)
    ultimately show ?thesis using f us [of q] by (auto simp: option.map_comp comp_def simp del: fold_rev)
  qed (use assms(3) in auto)
  ultimately show ?thesis using m by auto
qed

definition demo_base :: "string \<Rightarrow> dap_type \<Rightarrow> base" where
  "demo_base n t = new_base n t 0"

definition demo_dds :: dds where
  "demo_dds = \<lparr>dds_name = ''d'', dds_attr = 0,
     dds_vars = [Simple (demo_base ''t'' Byte_c),
                 Strct (demo_base ''s'' Structure_c)
                   [Simple (demo_base ''t'' Byte_c),
                    Strct (demo_base ''u'' Structure_c) [Simple (demo_base ''t'' Int16_c), Simple (demo_base ''w'' Byte_c)]]],
     dds_container = None, dds_major = 2, dds_minor = 0, dds_version = ''2.0'', dds_namespace = [], dds_xml_base = []\<rparr>"

theorem mark_qualified_witness:
  "\<exists>d'. mark 0 ''s.u.t'' True demo_dds = Inr (True, d') \<and> sent [1] (dds_vars d') = Some True \<and>
     sent [1, 1] (dds_vars d') = Some True \<and> sent [1, 1, 0] (dds_vars d') = Some True \<and>
     sent [0] (dds_vars d') = Some False \<and> sent [1, 0] (dds_vars d') = Some False \<and> sent [1, 1, 1] (dds_vars d') = Some False"
proof -
  have "dds_container demo_dds = None" "completes (dds_vars demo_dds)" "dotted [1, 1, 0] (dds_vars demo_dds) = Some ''s.u.t''"
    by (simp_all add: demo_dds_def demo_base_def new_base_def plain_level_def plain_name_def)
  note m = mark_qualified [OF this, of 0 True]
  have s: "sent [1] (dds_vars demo_dds) = Some False" "sent [1, 1] (dds_vars demo_dds) = Some False"
    "sent [1, 1, 0] (dds_vars demo_dds) = Some False" "sent [0] (dds_vars demo_dds) = Some False"
    "sent [1, 0] (dds_vars demo_dds) = Some False" "sent [1, 1, 1] (dds_vars demo_dds) = Some False"
    by (simp_all add: demo_dds_def demo_base_def new_base_def sent_def)
  from m obtain d' where d: "mark 0 ''s.u.t'' True demo_dds = Inr (True, d')" and
    f: "\<And>q. sent q (dds_vars d') = (if prefix [1, 1, 0] q \<or> prefix q [1, 1, 0]
          then map_option (\<lambda>_. True) (sent q (dds_vars demo_dds)) else sent q (dds_vars demo_dds))"
    by blast
  show ?thesis by (intro exI [of _ d'] conjI d) (simp_all add: f s [simplified])
qed

end
