(* ===== verification/DapCheck.thy ===== *)
theory DapCheck
  imports DapSearch
begin

text \<open>
  \<^verbatim>\<open>check_semantics\<close> of the variables and of the dataset, \<^verbatim>\<open>unique_names\<close> of \<^verbatim>\<open>libdap/util.cc\<close>, and what a dataset
  that passes looks like. The result of a check is the message, or nothing when it passes.
\<close>

section \<open>The checks\<close>

fun first_double :: "string list \<Rightarrow> string option" where
  "first_double (x # y # zs) = (if x = y then Some y else first_double (y # zs))"
| "first_double _ = None"

definition unique_names :: "dap_var list \<Rightarrow> string \<Rightarrow> string \<Rightarrow> string option" where
  "unique_names vs vname tname =
     (case first_double (sort (map (\<lambda>v. b_name (var_base v)) vs)) of
        None \<Rightarrow> None
      | Some n \<Rightarrow> Some (''The variable '' @ quoted_name n @ '' is used more than once in '' @ tname @ '' '' @ quoted_name vname))"

definition base_check :: "base \<Rightarrow> string option" where
  "base_check b =
     (if b_type b \<noteq> Null_c \<and> b_name b \<noteq> [] then None else Some (''Every variable must have both a name and a type'' @ [lf]))"

definition element_type :: "dap_var option \<Rightarrow> dap_type at_result" where
  "element_type x = (case x of None \<Rightarrow> Inl Fault | Some e \<Rightarrow> Inr (var_type e))"

definition shape_size :: "dimension list \<Rightarrow> int" where
  "shape_size ds = (if ds = [] then 0 else dim_size (hd ds))"

text \<open>
  The maps of a grid one after the other, each against the next dimension of the array. There are as many
  of them as dimensions.
\<close>

fun map_check :: "string \<Rightarrow> string \<Rightarrow> dimension list \<Rightarrow> dap_var list \<Rightarrow> string option at_result" where
  "map_check gname aname ds [] = Inr None"
| "map_check gname aname ds (m # ms) =
     (if aname = var_name m
      then Inr (Some (''Grid map variable '' @ quoted_name (var_name m) @ '' conflicts with the grid array name in grid ''
                      @ quoted_name gname @ [lf]))
      else (case m of
              Vec b len mds x \<Rightarrow>
                rbind (element_type x) (\<lambda>t.
                if \<not> is_simple_type t
                then Inr (Some (''The field variable '' @ quoted_name gname
                               @ '' must be an array of simple type elements (e.g., int32, String)'' @ [lf]))
                else if length mds \<noteq> 1
                then Inr (Some (''Grid map variable  '' @ quoted_name (b_name b) @ '' must be only one dimension'' @ [lf]))
                else if shape_size mds \<noteq> shape_size ds
                then Inr (Some (''Grid map variable  '' @ [CHR 0x60] @ b_name b @ [squote] @ ''s'' @ [squote]
                               @ '' size does not match the size of array variable '' @ [squote] @ aname @ [squote] @ ''s'' @ [squote]
                               @ '' cooresponding dimension'' @ [lf]))
                else map_check gname aname (tl ds) ms)
            | _ \<Rightarrow> Inr (Some (''Grid map variable  '' @ quoted_name (var_name m) @ '' is not an array'' @ [lf]))))"

definition grid_check :: "base \<Rightarrow> dap_var option \<Rightarrow> dap_var list \<Rightarrow> string option at_result" where
  "grid_check b arr maps =
     (case arr of
        None \<Rightarrow> Inr (Some (''Null grid base array in '' @ quoted_name (b_name b) @ [lf]))
      | Some (Vec ab len ds x) \<Rightarrow>
          rbind (element_type x) (\<lambda>t.
          if \<not> is_simple_type t
          then Inr (Some (''The field variable '' @ quoted_name (b_name b)
                         @ '' must be an array of simple type elements (e.g., int32, String)'' @ [lf]))
          else if length maps \<noteq> length ds
          then Inr (Some (''The number of map variables for grid '' @ quoted_name (b_name b)
                         @ '' does not match the number of dimensions of '' @ quoted_name (b_name ab) @ [lf]))
          else map_check (b_name b) (b_name ab) ds maps)
      | Some a \<Rightarrow> Inr (Some (''Grid '' @ [CHR 0x60] @ b_name b @ [squote] @ ''s'' @ [squote] @ '' member ''
                            @ quoted_name (var_name a) @ '' must be an array'' @ [lf])))"

text \<open>An array does not look at its element variable, whatever it is.\<close>

definition pass :: "string option at_result \<Rightarrow> string option at_result \<Rightarrow> string option at_result" where
  "pass r s = rbind r (\<lambda>m. case m of Some t \<Rightarrow> Inr (Some t) | None \<Rightarrow> s)"

fun check_semantics :: "bool \<Rightarrow> dap_var \<Rightarrow> string option at_result"
and check_all :: "dap_var list \<Rightarrow> string option at_result" where
  "check_semantics al (Simple b) = Inr (base_check b)"
| "check_semantics al (Vec b len ds x) =
     Inr (if base_check b = None \<and> ds \<noteq> [] then None else Some ''An array variable must have dimensions'')"
| "check_semantics al (Strct b vs) =
     pass (Inr (base_check b)) (pass (Inr (unique_names vs (b_name b) (type_name (b_type b))))
       (if al then check_all vs else Inr None))"
| "check_semantics al (Grd b arr maps) =
     pass (Inr (base_check b)) (pass (grid_check b arr maps)
       (if al then pass (case arr of None \<Rightarrow> Inl Fault | Some a \<Rightarrow> check_semantics True a) (check_all maps) else Inr None))"
| "check_all [] = Inr None"
| "check_all (v # vs) = pass (check_semantics True v) (check_all vs)"

text \<open>\<open>DDS::check_semantics\<close> gives a flag; the messages go nowhere.\<close>

definition dds_check_semantics :: "bool \<Rightarrow> dds \<Rightarrow> bool at_result" where
  "dds_check_semantics al d =
     (if dds_name d = [] then Inr False
      else rbind (pass (Inr (unique_names (dds_vars d) (dds_name d) ''Dataset'')) (if al then check_all (dds_vars d) else Inr None))
             (\<lambda>m. Inr (m = None)))"

section \<open>What passes\<close>

fun simple_array :: "dap_var \<Rightarrow> bool" where
  "simple_array (Vec b len ds (Some e)) = is_simple_type (var_type e)"
| "simple_array v = False"

fun shape :: "dap_var \<Rightarrow> dimension list" where
  "shape (Vec b len ds x) = ds"
| "shape v = []"

definition well_named :: "base \<Rightarrow> bool" where
  "well_named b = (b_type b \<noteq> Null_c \<and> b_name b \<noteq> [])"

fun well_formed :: "dap_var \<Rightarrow> bool"
and well_formeds :: "dap_var list \<Rightarrow> bool" where
  "well_formed (Simple b) = well_named b"
| "well_formed (Vec b len ds x) = (well_named b \<and> ds \<noteq> [])"
| "well_formed (Strct b vs) = (well_named b \<and> distinct (map var_name vs) \<and> well_formeds vs)"
| "well_formed (Grd b arr maps) =
     (well_named b \<and>
      (case arr of
         None \<Rightarrow> False
       | Some a \<Rightarrow> well_formed a \<and> simple_array a \<and> var_name a \<notin> var_name ` set maps \<and>
           list_all2 (\<lambda>d m. simple_array m \<and> length (shape m) = 1 \<and> dim_size (hd (shape m)) = dim_size d) (shape a) maps) \<and>
      well_formeds maps)"
| "well_formeds [] = True"
| "well_formeds (v # vs) = (well_formed v \<and> well_formeds vs)"

lemma first_double_sorted: "sorted ys \<Longrightarrow> first_double ys = None \<longleftrightarrow> distinct ys"
proof (induction ys rule: first_double.induct)
  case (1 x y zs)
  then show ?case by (cases "x = y") auto
qed simp_all

lemma unique_names_distinct: "unique_names vs n t = None \<longleftrightarrow> distinct (map var_name vs)"
  using first_double_sorted [of "sort (map var_name vs)"]
  by (auto simp: unique_names_def split: option.splits)

lemma base_check_named: "base_check b = None \<longleftrightarrow> well_named b"
  by (simp add: base_check_def well_named_def)

lemma pass_None: "pass r s = Inr None \<longleftrightarrow> r = Inr None \<and> s = Inr None"
  by (cases r) (auto simp: pass_def split: option.splits)

lemma map_check_passes:
  "length ms = length ds \<Longrightarrow> map_check gname aname ds ms = Inr None \<longleftrightarrow>
     aname \<notin> var_name ` set ms \<and>
     list_all2 (\<lambda>d m. simple_array m \<and> length (shape m) = 1 \<and> dim_size (hd (shape m)) = dim_size d) ds ms"
proof (induction gname aname ds ms rule: map_check.induct)
  case (2 gname aname ds m ms)
  then obtain d ds' where ds: "ds = d # ds'" by (cases ds) auto
  show ?case
  proof (cases m)
    case (Vec b len mds x)
    show ?thesis
    proof (cases x)
      case (Some e)
      then show ?thesis using 2 Vec ds by (auto simp: element_type_def shape_size_def length_Suc_conv)
    qed (use Vec ds in \<open>simp add: element_type_def\<close>)
  qed (use ds in simp_all)
qed simp

lemma grid_check_passes:
  "grid_check b arr maps = Inr None \<longleftrightarrow>
     (case arr of
        None \<Rightarrow> False
      | Some a \<Rightarrow> simple_array a \<and> var_name a \<notin> var_name ` set maps \<and>
          list_all2 (\<lambda>d m. simple_array m \<and> length (shape m) = 1 \<and> dim_size (hd (shape m)) = dim_size d) (shape a) maps)"
proof (cases arr)
  case (Some a)
  show ?thesis
  proof (cases a)
    case (Vec ab len ds x)
    show ?thesis
    proof (cases x)
      case x: (Some e)
      show ?thesis
      proof (cases "length maps = length ds")
        case True
        then show ?thesis using Some Vec x map_check_passes [OF True] by (simp add: grid_check_def element_type_def)
      next
        case False
        then have "\<not> list_all2 P ds maps" for P using list_all2_lengthD by fastforce
        then show ?thesis using Some Vec x False by (simp add: grid_check_def element_type_def)
      qed
    qed (use Some Vec in \<open>simp add: grid_check_def element_type_def\<close>)
  qed (use Some in \<open>simp_all add: grid_check_def\<close>)
qed (simp add: grid_check_def)

lemma check_passes:
  "check_semantics True v = Inr None \<longleftrightarrow> well_formed v"
  "check_all vs = Inr None \<longleftrightarrow> well_formeds vs"
  by (induction v and vs rule: well_formed_well_formeds.induct)
    (auto simp: pass_None base_check_named unique_names_distinct grid_check_passes split: option.splits)

text \<open>A grid whose two maps have one name is taken for well formed.\<close>

definition a_dim :: "string \<Rightarrow> dimension" where
  "a_dim n = \<lparr>dim_size = 3, dim_name = n, dim_start = 0, dim_stop = 2, dim_stride = 1, dim_c_size = 3\<rparr>"

definition an_array :: "string \<Rightarrow> dimension list \<Rightarrow> dap_var" where
  "an_array n ds = Vec (new_base n Array_c 0) (3 ^ length ds) ds (Some (Simple (new_base n Byte_c 0)))"

lemma two_maps_one_name:
  "well_formed (Grd (new_base ''g'' Grid_c 0) (Some (an_array ''a'' [a_dim ''lat'', a_dim ''lon'']))
     [an_array ''lat'' [a_dim ''lat''], an_array ''lat'' [a_dim ''lat'']])"
  by code_simp

text \<open>
  C25: The check of a dataset with all its variables says yes exactly when the dataset has a name, no two
  variables of the dataset itself, of a structure or of a sequence have the same name, every variable has a name
  and a type, every array has dimensions and every grid has an array of a simple type and for each of its
  dimensions a map, an array of a simple type with one dimension of the same size; no map is named as the
  array. Two things are not asked for: the maps of a grid may share a name (\<open>two_maps_one_name\<close>), and a structure
  inside an array is never looked at, as \<open>well_formed\<close> says nothing of the element variable of an array.
\<close>

theorem check_semantics_spec:
  "dds_check_semantics True d = Inr True \<longleftrightarrow>
     dds_name d \<noteq> [] \<and> distinct (map var_name (dds_vars d)) \<and> well_formeds (dds_vars d)"
proof -
  let ?r = "pass (Inr (unique_names (dds_vars d) (dds_name d) ''Dataset'')) (check_all (dds_vars d))"
  have "rbind ?r (\<lambda>m. Inr (m = None)) = Inr True \<longleftrightarrow> ?r = Inr None" by (auto simp: rbind_Inr_iff)
  then show ?thesis by (simp add: dds_check_semantics_def pass_None unique_names_distinct check_passes)
qed

end
