(* ===== verification/DapPrint.thy ===== *)
theory DapPrint
  imports DapSearch
begin

text \<open>
  A dataset as text and as XML: \<^verbatim>\<open>print_decl\<close> and \<^verbatim>\<open>print_xml_writer\<close> of the variables and of \<^verbatim>\<open>libdap/DDS.cc\<close>,
  and the version of the protocol. What is given to the XML writer is a tree of elements.
\<close>

section \<open>When a projected grid is a grid\<close>

text \<open>
  The array and its maps must be sent with the same hyperslabs. The loop ends with the shorter of dimensions and maps.
\<close>

definition same_slab :: "dimension list \<Rightarrow> dimension \<Rightarrow> bool" where
  "same_slab mds d =
     ((if mds \<noteq> [] then dim_start (hd mds) else 0) = dim_start d \<and>
      (if mds \<noteq> [] then dim_stop (hd mds) else 0) = dim_stop d \<and>
      (if mds \<noteq> [] then dim_stride (hd mds) else 0) = dim_stride d)"

fun slabs_agree :: "dimension list \<Rightarrow> dap_var list \<Rightarrow> bool at_result" where
  "slabs_agree (d # ds) (m # ms) =
     (case m of
        Vec b len mds x \<Rightarrow>
          if dim_c_size d \<noteq> 0 \<and> b_send b \<and> same_slab mds d then slabs_agree ds ms else Inr False
      | _ \<Rightarrow> Inl Fault)"
| "slabs_agree _ _ = Inr True"

definition components :: "dap_var \<Rightarrow> dap_var list \<Rightarrow> nat" where
  "components a maps = length (filter (\<lambda>v. b_send (var_base v)) (a # maps))"

definition projection_yields_grid :: "dap_var option \<Rightarrow> dap_var list \<Rightarrow> bool at_result" where
  "projection_yields_grid arr maps =
     (case arr of
        None \<Rightarrow> Inl Fault
      | Some a \<Rightarrow>
          if \<not> b_send (var_base a) then Inr False
          else if components a maps = 1 then Inr False
          else (case a of Vec b len ds x \<Rightarrow> slabs_agree ds maps | _ \<Rightarrow> Inl Fault))"

section \<open>Declarations\<close>

definition send_note :: "bool \<Rightarrow> base \<Rightarrow> string" where
  "send_note info b = (if info then (if b_send b then '': Send True'' else '': Send False'') else [])"

definition semicolon :: "bool \<Rightarrow> string" where
  "semicolon semi = (if semi then '';'' @ [lf] else [])"

definition closing :: "string \<Rightarrow> bool \<Rightarrow> bool \<Rightarrow> base \<Rightarrow> string" where
  "closing space semi info b = space @ ''} '' @ id2www (b_name b) allowable_id @ send_note info b @ semicolon semi"

fun print_decl :: "string \<Rightarrow> bool \<Rightarrow> bool \<Rightarrow> bool \<Rightarrow> dap_var \<Rightarrow> string at_result"
and print_decls :: "string \<Rightarrow> bool \<Rightarrow> bool \<Rightarrow> dap_var list \<Rightarrow> string at_result" where
  "print_decl space semi info constrained (Simple b) =
     Inr (if constrained \<and> \<not> b_send b then []
          else space @ type_name (b_type b) @ '' '' @ id2www (b_name b) allowable_id @ send_note info b @ semicolon semi)"
| "print_decl space semi info constrained (Vec b len ds x) =
     (if constrained \<and> \<not> b_send b then Inr []
      else (case x of
              None \<Rightarrow> Inl Fault
            | Some e \<Rightarrow> rbind (print_decl space False info constrained e) (\<lambda>s.
                Inr (s @ concat (map (dim_decl constrained) ds) @ semicolon semi))))"
| "print_decl space semi info constrained (Strct b vs) =
     (if constrained \<and> \<not> b_send b then Inr []
      else rbind (print_decls (space @ ''    '') info constrained vs) (\<lambda>s.
           Inr (space @ type_name (b_type b) @ '' {'' @ [lf] @ s @ closing space semi info b)))"
| "print_decl space semi info constrained (Grd b arr maps) =
     (if constrained \<and> \<not> b_send b then Inr []
      else rbind (if constrained then projection_yields_grid arr maps else Inr True) (\<lambda>grid.
           rbind (case arr of None \<Rightarrow> Inl Fault | Some a \<Rightarrow> print_decl (space @ ''    '') True info constrained a) (\<lambda>s.
           rbind (print_decls (space @ ''    '') info constrained maps) (\<lambda>ms.
           Inr (if grid
                then space @ type_name (b_type b) @ '' {'' @ [lf] @ space @ ''  Array:'' @ [lf] @ s @ space @ ''  Maps:'' @ [lf]
                     @ ms @ closing space semi info b
                else space @ ''Structure {'' @ [lf] @ s @ ms @ closing space semi info b)))))"
| "print_decls space info constrained [] = Inr []"
| "print_decls space info constrained (v # vs) =
     rbind (print_decl space True info constrained v) (\<lambda>s. rbind (print_decls space info constrained vs) (\<lambda>t. Inr (s @ t)))"

definition dds_print :: "bool \<Rightarrow> dds \<Rightarrow> string at_result" where
  "dds_print constrained d =
     rbind (print_decls ''    '' False constrained (dds_vars d)) (\<lambda>s.
     Inr (''Dataset {'' @ [lf] @ s @ ''} '' @ id2www (dds_name d) allowable_id @ '';'' @ [lf]))"

section \<open>XML\<close>

text \<open>
  The element variable of an array is printed without its name. It is given an empty name for that and its
  old one afterwards; \<open>set_name\<close> decodes the old one, which is not part of the result here.
\<close>

definition table_xml :: "at_heap \<Rightarrow> nat \<Rightarrow> xml_out list at_result option" where
  "table_xml h a = (case h_tables h a of None \<Rightarrow> Some (Inl Fault) | Some t \<Rightarrow> print_xml_entries h (attr_map t))"

definition name_attribute :: "string \<Rightarrow> (string \<times> string) list" where
  "name_attribute n = (if n \<noteq> [] then [(''name'', n)] else [])"

definition shown_name :: "bool \<Rightarrow> base \<Rightarrow> (string \<times> string) list" where
  "shown_name nameless b = (if nameless then [] else name_attribute (b_name b))"

definition dimension_xml :: "bool \<Rightarrow> dimension \<Rightarrow> xml_out" where
  "dimension_xml constrained d =
     Out_element ''dimension'' (name_attribute (dim_name d) @ [(''size'', show_int (if constrained then dim_c_size d else dim_size d))]) []"

fun is_array :: "dap_var \<Rightarrow> bool" where
  "is_array (Vec b len ds x) = True"
| "is_array v = False"

text \<open>The tag is that of an array; it is another one for the maps of a grid.\<close>

fun print_xml :: "at_heap \<Rightarrow> bool \<Rightarrow> string \<Rightarrow> bool \<Rightarrow> dap_var \<Rightarrow> xml_out list at_result option"
and print_xmls :: "at_heap \<Rightarrow> bool \<Rightarrow> dap_var list \<Rightarrow> xml_out list at_result option"
and print_maps :: "at_heap \<Rightarrow> bool \<Rightarrow> string \<Rightarrow> dap_var list \<Rightarrow> xml_out list at_result option" where
  "print_xml h constrained tag nameless (Simple b) =
     (if constrained \<and> \<not> b_send b then Some (Inr [])
      else obind (table_xml h (b_attr b)) (\<lambda>as. Some (Inr [Out_element (type_name (b_type b)) (shown_name nameless b) as])))"
| "print_xml h constrained tag nameless (Vec b len ds x) =
     (if constrained \<and> \<not> b_send b then Some (Inr [])
      else obind (table_xml h (b_attr b)) (\<lambda>as.
           case x of
             None \<Rightarrow> Some (Inl Fault)
           | Some e \<Rightarrow> obind (print_xml h constrained ''Array'' True e) (\<lambda>es.
               Some (Inr [Out_element tag (shown_name nameless b) (as @ es @ map (dimension_xml constrained) ds)]))))"
| "print_xml h constrained tag nameless (Strct b vs) =
     (if constrained \<and> \<not> b_send b then Some (Inr [])
      else obind (table_xml h (b_attr b)) (\<lambda>as. obind (print_xmls h constrained vs) (\<lambda>es.
           Some (Inr [Out_element (type_name (b_type b)) (shown_name nameless b) (as @ es)]))))"
| "print_xml h constrained tag nameless (Grd b arr maps) =
     (if constrained \<and> \<not> b_send b then Some (Inr [])
      else obind (Some (if constrained then projection_yields_grid arr maps else Inr True)) (\<lambda>grid.
           obind (table_xml h (b_attr b)) (\<lambda>as.
           case arr of
             None \<Rightarrow> Some (Inl (Throws (InternalErr ''bad Cast'')))
           | Some a \<Rightarrow> obind (print_xml h constrained ''Array'' False a) (\<lambda>es.
               obind (print_maps h constrained (if grid then ''Map'' else ''Array'') maps) (\<lambda>ms.
               Some (Inr [Out_element (if grid then ''Grid'' else ''Structure'') (shown_name nameless b) (as @ es @ ms)]))))))"
| "print_xmls h constrained [] = Some (Inr [])"
| "print_xmls h constrained (v # vs) =
     obind (print_xml h constrained ''Array'' False v) (\<lambda>x. obind (print_xmls h constrained vs) (\<lambda>xs. Some (Inr (x @ xs))))"
| "print_maps h constrained tag [] = Some (Inr [])"
| "print_maps h constrained tag (m # ms) =
     (if is_array m
      then obind (print_xml h constrained tag False m) (\<lambda>x. obind (print_maps h constrained tag ms) (\<lambda>xs. Some (Inr (x @ xs))))
      else Some (Inl (Throws (InternalErr ''Expected an Array.''))))"

section \<open>The dataset\<close>

definition c_xml_namespace :: string where "c_xml_namespace = ''http://www.w3.org/XML/1998/namespace''"
definition grddl_transformation_dap32 :: string where "grddl_transformation_dap32 = ''http://xml.opendap.org/transforms/ddxToRdfTriples.xsl''"
definition c_dap20_namespace :: string where "c_dap20_namespace = ''http://xml.opendap.org/ns/DAP2''"
definition c_dap32_namespace :: string where "c_dap32_namespace = ''http://xml.opendap.org/ns/DAP/3.2#''"
definition c_dap40_namespace :: string where "c_dap40_namespace = ''http://xml.opendap.org/ns/DAP/4.0#''"
definition c_dap_20_n_sl :: string where "c_dap_20_n_sl = c_dap20_namespace @ '' '' @ ''http://xml.opendap.org/dap/dap2.xsd''"
definition c_dap_32_n_sl :: string where "c_dap_32_n_sl = c_dap32_namespace @ '' '' @ ''http://xml.opendap.org/dap/dap3.2.xsd''"

text \<open>
  The version is read from a stream: a number, a character and a number. A minor version that is no number
  is 0.
\<close>

definition parse_version :: "string \<Rightarrow> (int \<times> int) option" where
  "parse_version v =
     (let (neg, r) = split_sign (skip_ws v);
          ds = takeWhile (is_digit_in 10) r;
          m = int (digits_value 10 ds);
          major = (if neg then - m else m);
          rest = drop (length ds) r
      in if ds = [] \<or> rest = [] \<or> saturate32 major \<noteq> major then None
         else (case skip_ws rest of
                 [] \<Rightarrow> None
               | dot # s \<Rightarrow>
                   (case extract_int 10 s of
                      None \<Rightarrow> None
                    | Some minor \<Rightarrow> if major = - 1 \<or> minor = - 1 \<or> dot \<noteq> CHR ''.'' then None else Some (major, minor))))"

definition set_dap_version :: "string \<Rightarrow> dds \<Rightarrow> dds at_result" where
  "set_dap_version v d =
     (case parse_version v of
        None \<Rightarrow> Inl (Throws (InternalErr (''Could not parse dap version. Value given: '' @ v)))
      | Some (major, minor) \<Rightarrow>
          (let d = d\<lparr>dds_version := v, dds_major := major, dds_minor := minor\<rparr> in
           if major = 2 then Inr (d\<lparr>dds_namespace := c_dap20_namespace\<rparr>)
           else if major = 3 then Inr (d\<lparr>dds_namespace := c_dap32_namespace\<rparr>)
           else if major = 4 then Inr (d\<lparr>dds_namespace := c_dap40_namespace\<rparr>)
           else Inl (Throws (InternalErr ''Unknown DAP version.''))))"

definition base_attributes :: "dds \<Rightarrow> (string \<times> string) list" where
  "base_attributes d =
     (if dds_xml_base d \<noteq> [] then [(''xmlns:xml'', c_xml_namespace), (''xml:base'', dds_xml_base d)] else [])"

definition dataset_attributes :: "dds \<Rightarrow> (string \<times> string) list" where
  "dataset_attributes d =
     (''name'', dds_name d) #
     (if 4 \<le> dds_major d
      then [(''dapVersion'', dds_version d)] @ base_attributes d @
           (if dds_namespace d \<noteq> [] then [(''xmlns'', dds_namespace d)] else [])
      else if dds_major d = 3 \<and> 2 \<le> dds_minor d
      then [(''xmlns:xsi'', ''http://www.w3.org/2001/XMLSchema-instance''),
            (''xsi:schemaLocation'', c_dap_32_n_sl),
            (''xmlns:grddl'', ''http://www.w3.org/2003/g/data-view#''),
            (''grddl:transformation'', grddl_transformation_dap32),
            (''xmlns'', c_dap32_namespace),
            (''xmlns:dap'', c_dap32_namespace),
            (''dapVersion'', ''3.2'')] @ base_attributes d
      else [(''xmlns:xsi'', ''http://www.w3.org/2001/XMLSchema-instance''),
            (''xmlns'', c_dap20_namespace),
            (''xsi:schemaLocation'', c_dap_20_n_sl)])"

definition blob_xml :: "dds \<Rightarrow> string \<Rightarrow> xml_out list" where
  "blob_xml d blob =
     (if 4 \<le> dds_major d then (if blob \<noteq> [] then [Out_element ''blob'' [(''href'', ''cid:'' @ blob)] []] else [])
      else if dds_major d = 3 \<and> 2 \<le> dds_minor d then [Out_element ''blob'' [(''href'', ''cid:'' @ blob)] []]
      else [Out_element ''dataBLOB'' [(''href'', [])] []])"

definition dds_print_xml :: "at_heap \<Rightarrow> bool \<Rightarrow> string \<Rightarrow> dds \<Rightarrow> xml_out at_result option" where
  "dds_print_xml h constrained blob d =
     obind (table_xml h (dds_attr d)) (\<lambda>as.
     obind (print_xmls h constrained (dds_vars d)) (\<lambda>vs.
     Some (Inr (Out_element (if 4 \<le> dds_major d then ''Group'' else ''Dataset'') (dataset_attributes d)
                  (as @ vs @ blob_xml d blob)))))"

end
