(* ===== verification/DdxParser.thy ===== *)
theory DdxParser
  imports DapPrint CppMap HttpDates "HOL-Library.Word"
begin

text \<open>
  The parser of the DDX, \<^verbatim>\<open>libdap/DDXParserSAX2.cc\<close> and \<^verbatim>\<open>DDXParserSAX2.h\<close>: the callbacks of the SAX parser of libxml2
  on three stacks, of states, of variables that are being built and of tables of attributes. What libxml2 reports is a
  list of events with their line numbers. An empty stack and a null pointer are told apart from the errors of
  the tables of attributes; without a result a copy of attributes never ends.
\<close>

section \<open>The state\<close>

datatype parse_state =
    parser_start | inside_dataset
  | inside_attribute_container | inside_attribute | inside_attribute_value | inside_other_xml_attribute
  | inside_alias | inside_simple_type | inside_array | inside_dimension | inside_grid | inside_map
  | inside_structure | inside_sequence | inside_blob_href | parser_unknown | parser_error

datatype ddx_stop = Empty_stack | Null_pointer | Attr_stop at_error

type_synonym 'a ddx_result = "(ddx_stop + 'a) option"

definition of_attr :: "'a at_result option \<Rightarrow> 'a ddx_result" where
  "of_attr r = map_option (map_sum Attr_stop id) r"

abbreviation done_with :: "'a \<Rightarrow> 'a ddx_result" where
  "done_with a \<equiv> Some (Inr a)"

abbreviation stop :: "ddx_stop \<Rightarrow> 'a ddx_result" where
  "stop e \<equiv> Some (Inl e)"

text \<open>An attribute of an element as libxml2 gives it: name, prefix, URI and value; null is \<open>None\<close>.\<close>

type_synonym sax_attribute = "string \<times> string option \<times> string option \<times> string"

record xml_attribute =
  xa_prefix :: string
  xa_nsURI :: string
  xa_value :: string

text \<open>The top of a stack is the head of the list.\<close>

record ddx =
  x_s :: "parse_state list"
  x_bt :: "dap_var list"
  x_at :: "nat list"
  x_heap :: at_heap
  x_dds :: dds
  x_blob_href :: string
  x_other_xml :: string
  x_depth :: "32 word"
  x_error_msg :: string
  x_line :: int
  x_attr_name :: string
  x_attr_type :: string
  x_char_data :: string
  x_root_ns :: string
  x_attributes :: "(string, xml_attribute) cpp_map"
  x_namespaces :: "(string, string) cpp_map"

definition new_parser :: "dds \<Rightarrow> at_heap \<Rightarrow> string \<Rightarrow> ddx" where
  "new_parser d h cid =
     \<lparr>x_s = [], x_bt = [], x_at = [], x_heap = h, x_dds = d, x_blob_href = cid, x_other_xml = [], x_depth = 0,
      x_error_msg = [], x_line = 0, x_attr_name = [], x_attr_type = [], x_char_data = [], x_root_ns = [],
      x_attributes = [], x_namespaces = []\<rparr>"

definition set_state :: "parse_state \<Rightarrow> ddx \<Rightarrow> ddx" where
  "set_state s p = p\<lparr>x_s := s # x_s p\<rparr>"

definition get_state :: "ddx \<Rightarrow> parse_state ddx_result" where
  "get_state p = (case x_s p of [] \<Rightarrow> stop Empty_stack | s # r \<Rightarrow> done_with s)"

definition pop_state :: "ddx \<Rightarrow> ddx ddx_result" where
  "pop_state p = (case x_s p of [] \<Rightarrow> stop Empty_stack | s # r \<Rightarrow> done_with (p\<lparr>x_s := r\<rparr>))"

definition top_var :: "ddx \<Rightarrow> dap_var ddx_result" where
  "top_var p = (case x_bt p of [] \<Rightarrow> stop Empty_stack | v # r \<Rightarrow> done_with v)"

definition top_table :: "ddx \<Rightarrow> nat ddx_result" where
  "top_table p = (case x_at p of [] \<Rightarrow> stop Empty_stack | a # r \<Rightarrow> done_with a)"

definition pop_var :: "ddx \<Rightarrow> ddx ddx_result" where
  "pop_var p = (case x_bt p of [] \<Rightarrow> stop Empty_stack | v # r \<Rightarrow> done_with (p\<lparr>x_bt := r\<rparr>))"

definition pop_table :: "ddx \<Rightarrow> ddx ddx_result" where
  "pop_table p = (case x_at p of [] \<Rightarrow> stop Empty_stack | a # r \<Rightarrow> done_with (p\<lparr>x_at := r\<rparr>))"

text \<open>The message is cut at the size of a buffer.\<close>

definition fatal_error :: "string \<Rightarrow> ddx \<Rightarrow> ddx" where
  "fatal_error msg p =
     p\<lparr>x_s := parser_error # x_s p,
       x_error_msg := x_error_msg p @ ''At line '' @ show_int (x_line p) @ '': '' @ take 1023 msg @ [lf]\<rparr>"

definition in_quotes :: "string \<Rightarrow> string" where
  "in_quotes s = [squote] @ s @ [squote]"

definition expected :: "string \<Rightarrow> string \<Rightarrow> string" where
  "expected what found = ''Expected '' @ what @ ''; found '' @ in_quotes found @ '' instead.''"

section \<open>Attributes of elements\<close>

definition to_string :: "string option \<Rightarrow> string" where
  "to_string s = (case s of None \<Rightarrow> [] | Some t \<Rightarrow> t)"

definition transfer_xml_attrs :: "sax_attribute list \<Rightarrow> ddx \<Rightarrow> ddx" where
  "transfer_xml_attrs attrs p =
     p\<lparr>x_attributes := fold (\<lambda>(n, prefix, uri, v) m.
         snd (m_insert n \<lparr>xa_prefix = to_string prefix, xa_nsURI = to_string uri, xa_value = v\<rparr> m)) attrs []\<rparr>"

text \<open>The table of name spaces is never cleared, and an entry that is there is kept.\<close>

definition transfer_xml_ns :: "(string option \<times> string) list \<Rightarrow> ddx \<Rightarrow> ddx" where
  "transfer_xml_ns nss p =
     p\<lparr>x_namespaces := fold (\<lambda>(prefix, uri) m. snd (m_insert (to_string prefix) uri m)) nss (x_namespaces p)\<rparr>"

text \<open>The check reports what is missing, but it always says true.\<close>

definition check_required_attribute :: "string \<Rightarrow> ddx \<Rightarrow> ddx" where
  "check_required_attribute n p =
     (if m_find (x_attributes p) n = None then fatal_error (''Required attribute '' @ in_quotes n @ '' not found.'') p else p)"

text \<open>Indexing the table also inserts an absent name, with an empty value; the table is filled anew before it is read again.\<close>

definition attribute_value :: "string \<Rightarrow> ddx \<Rightarrow> string" where
  "attribute_value n p = (case m_find (x_attributes p) n of None \<Rightarrow> [] | Some a \<Rightarrow> xa_value a)"

section \<open>The parts of the callbacks\<close>

definition process_attribute_element :: "sax_attribute list \<Rightarrow> ddx \<Rightarrow> ddx ddx_result" where
  "process_attribute_element attrs p =
     (let p = check_required_attribute ''type'' (check_required_attribute ''name'' (transfer_xml_attrs attrs p));
          name = attribute_value ''name'' p; type = attribute_value ''type'' p
      in if type = ''Container'' then
           obind (top_table p) (\<lambda>parent.
           obind (of_attr (Some (append_new_container parent name (x_heap p)))) (\<lambda>(child, h).
           done_with ((set_state inside_attribute_container p)\<lparr>x_at := child # x_at p, x_heap := h\<rparr>)))
         else if type = ''OtherXML''
         then done_with ((set_state inside_other_xml_attribute p)\<lparr>x_attr_name := name, x_attr_type := type\<rparr>)
         else done_with ((set_state inside_attribute p)\<lparr>x_attr_name := name, x_attr_type := type\<rparr>))"

definition process_attribute_alias :: "sax_attribute list \<Rightarrow> ddx \<Rightarrow> ddx ddx_result" where
  "process_attribute_alias attrs p =
     (let p = check_required_attribute ''attribute'' (check_required_attribute ''name'' (transfer_xml_attrs attrs p));
          p = set_state inside_alias p
      in obind (top_table p) (\<lambda>a.
         obind (of_attr (add_value_alias a a (attribute_value ''name'' p) (attribute_value ''attribute'' p) (x_heap p))) (\<lambda>h.
         done_with (p\<lparr>x_heap := h\<rparr>))))"

text \<open>
  The element variable of an array needs no name. When the factory gives a null pointer, that is an error of the
  parse, but the pointer is used all the same.
\<close>

definition process_variable :: "dap_type \<Rightarrow> parse_state \<Rightarrow> sax_attribute list \<Rightarrow> ddx \<Rightarrow> ddx ddx_result" where
  "process_variable t s attrs p =
     (let p = set_state s (transfer_xml_attrs attrs p) in
      obind (top_var p) (\<lambda>v.
      let p = (if var_type v = Array_c then p else check_required_attribute ''name'' p) in
      case factory t (attribute_value ''name'' p) (x_heap p) of
        None \<Rightarrow> stop Null_pointer
      | Some (b, h) \<Rightarrow> done_with (p\<lparr>x_bt := b # x_bt p, x_at := b_attr (var_base b) # x_at p, x_heap := h\<rparr>)))"

definition atoi :: "string \<Rightarrow> int" where
  "atoi s = wrap32 (fst (strtol (c_str s)))"

definition process_dimension :: "int \<Rightarrow> sax_attribute list \<Rightarrow> ddx \<Rightarrow> ddx ddx_result" where
  "process_dimension junk attrs p =
     (let p = set_state inside_dimension (check_required_attribute ''size'' (transfer_xml_attrs attrs p)) in
      case x_bt p of
        [] \<Rightarrow> stop Empty_stack
      | v # r \<Rightarrow>
          if is_array v
          then done_with (p\<lparr>x_bt := append_dim_to junk (atoi (attribute_value ''size'' p)) (attribute_value ''name'' p) v # r\<rparr>)
          else done_with (fatal_error ''Parse error: Expected an array variable.'' p))"

definition process_blob :: "sax_attribute list \<Rightarrow> ddx \<Rightarrow> ddx" where
  "process_blob attrs p =
     (let p = set_state inside_blob_href (check_required_attribute ''href'' (transfer_xml_attrs attrs p))
      in p\<lparr>x_blob_href := attribute_value ''href'' p\<rparr>)"

definition on_attribute_or_alias :: "string \<Rightarrow> sax_attribute list \<Rightarrow> ddx \<Rightarrow> ddx ddx_result \<Rightarrow> ddx ddx_result" where
  "on_attribute_or_alias n attrs p other =
     (if n = ''Attribute'' then process_attribute_element attrs p
      else if n = ''Alias'' then process_attribute_alias attrs p
      else other)"

definition variable_start :: "string \<Rightarrow> (dap_type \<times> parse_state) option" where
  "variable_start n =
     (if is_simple_type (get_dap_type n) then Some (get_dap_type n, inside_simple_type)
      else if n = ''Array'' then Some (Array_c, inside_array)
      else if n = ''Structure'' then Some (Structure_c, inside_structure)
      else if n = ''Sequence'' then Some (Sequence_c, inside_sequence)
      else if n = ''Grid'' then Some (Grid_c, inside_grid)
      else None)"

definition on_variable :: "string \<Rightarrow> sax_attribute list \<Rightarrow> ddx \<Rightarrow> ddx ddx_result \<Rightarrow> ddx ddx_result" where
  "on_variable n attrs p other = (case variable_start n of Some (t, s) \<Rightarrow> process_variable t s attrs p | None \<Rightarrow> other)"

text \<open>
  The variable at the top is finished: its copy is added to the one below and it is deleted. It stays
  allocated when its type is not the expected one, and when a simple variable is refused.
\<close>

definition add_finished :: "int \<Rightarrow> nat option \<Rightarrow> dap_var \<Rightarrow> string \<Rightarrow> bool \<Rightarrow> ddx \<Rightarrow> ddx ddx_result" where
  "add_finished junk ptr v refused delete_it p =
     (case x_bt p of
        [] \<Rightarrow> stop Empty_stack
      | parent # r \<Rightarrow>
          if is_vector_type (var_type parent) \<or> is_constructor_type (var_type parent)
          then obind (of_attr (add_to junk ptr v parent (x_heap p))) (\<lambda>(parent, h).
               obind (of_attr (delete_var v h)) (\<lambda>h. done_with (p\<lparr>x_bt := parent # r, x_heap := h\<rparr>)))
          else obind (if delete_it then of_attr (delete_var v (x_heap p)) else done_with (x_heap p)) (\<lambda>h.
               done_with ((fatal_error (''Tried to add the '' @ refused @ '' to a non-constructor type (''
                 @ type_name (var_type parent) @ '' '' @ var_name parent @ '').'') p)\<lparr>x_heap := h\<rparr>)))"

definition finish_variable :: "int \<Rightarrow> nat option \<Rightarrow> string \<Rightarrow> dap_type \<Rightarrow> string \<Rightarrow> ddx \<Rightarrow> ddx ddx_result" where
  "finish_variable junk ptr tag t expect p =
     (if tag \<noteq> expect then done_with (fatal_error (expected (''an end tag for a '' @ expect) tag) p)
      else obind (pop_state p) (\<lambda>p.
           obind (top_var p) (\<lambda>v.
           obind (pop_var p) (\<lambda>p.
           obind (pop_table p) (\<lambda>p.
           if var_type v \<noteq> t then done_with (fatal_error (''Internal error: Expected a '' @ expect @ '' variable.'') p)
           else if t = Array_c \<and> (case v of Vec _ _ ds _ \<Rightarrow> ds = [] | _ \<Rightarrow> True)
           then obind (of_attr (delete_var v (x_heap p))) (\<lambda>h.
                done_with ((fatal_error (''No dimension element included in the Array '' @ in_quotes (var_name v) @ ''.'') p)\<lparr>x_heap := h\<rparr>))
           else add_finished junk ptr v (''array variable '' @ in_quotes tag) True p)))))"

section \<open>The callbacks\<close>

definition start_document :: "ddx \<Rightarrow> ddx" where
  "start_document p =
     (let (a, h) = new_AttrTable (x_heap p)
      in set_state parser_start (p\<lparr>x_error_msg := [], x_char_data := [], x_at := dds_attr (x_dds p) # x_at p,
           x_bt := Strct (new_base ''dummy_dds'' Structure_c a) [] # x_bt p, x_heap := h\<rparr>))"

fun add_all :: "int \<Rightarrow> nat option \<Rightarrow> dap_var list \<Rightarrow> dds \<Rightarrow> at_heap \<Rightarrow> (dds \<times> at_heap) at_result option" where
  "add_all junk ptr [] d h = Some (Inr (d, h))"
| "add_all junk ptr (v # vs) d h = obind (dds_add_var junk ptr v d h) (\<lambda>(d, h). add_all junk ptr vs d h)"

definition end_document :: "int \<Rightarrow> nat option \<Rightarrow> ddx \<Rightarrow> ddx ddx_result" where
  "end_document junk ptr p =
     obind (get_state p) (\<lambda>s.
     let p = (if s \<noteq> parser_start then fatal_error ''The document contained unbalanced tags.'' p else p) in
     obind (get_state p) (\<lambda>s.
     obind (top_var p) (\<lambda>v.
     if s = parser_error then obind (of_attr (delete_var v (x_heap p))) (\<lambda>h. done_with (p\<lparr>x_heap := h\<rparr>))
     else if \<not> is_constructor_type (var_type v)
     then done_with (fatal_error ''Parse error: Expected a Structure, Sequence or Grid variable.'' p)
     else obind (of_attr (add_all junk ptr (children v) (x_dds p) (x_heap p))) (\<lambda>(d, h).
          obind (pop_var p) (\<lambda>p.
          obind (of_attr (delete_var v h)) (\<lambda>h. done_with (p\<lparr>x_dds := d, x_heap := h\<rparr>)))))))"

definition start_dataset :: "string \<Rightarrow> string option \<Rightarrow> sax_attribute list \<Rightarrow> ddx \<Rightarrow> ddx ddx_result" where
  "start_dataset n uri attrs p =
     (if n = ''Dataset'' then
        let p = transfer_xml_attrs attrs ((set_state inside_dataset p)\<lparr>x_root_ns := to_string uri\<rparr>);
            p = check_required_attribute ''name'' p;
            d = (x_dds p)\<lparr>dds_name := attribute_value ''name'' p\<rparr>
        in if m_find (x_attributes p) ''dapVersion'' \<noteq> None
           then obind (of_attr (Some (set_dap_version (attribute_value ''dapVersion'' p) d))) (\<lambda>d. done_with (p\<lparr>x_dds := d\<rparr>))
           else done_with (p\<lparr>x_dds := d\<rparr>)
      else done_with (fatal_error (''Expected response to start with a Dataset element; found '' @ in_quotes n @ '' instead.'') p))"

definition prefixed :: "string option \<Rightarrow> string \<Rightarrow> string" where
  "prefixed prefix n = (case prefix of None \<Rightarrow> n | Some q \<Rightarrow> q @ '':'' @ n)"

definition xmlns_text :: "string \<times> string \<Rightarrow> string" where
  "xmlns_text ns = '' xmlns'' @ (if fst ns \<noteq> [] then '':'' @ fst ns else []) @ ''='' @ [dquote] @ snd ns @ [dquote]"

definition attribute_text :: "string \<times> xml_attribute \<Rightarrow> string" where
  "attribute_text a =
     '' '' @ (if xa_prefix (snd a) \<noteq> [] then xa_prefix (snd a) @ '':'' else []) @ fst a @ ''='' @ [dquote] @ xa_value (snd a) @ [dquote]"

definition start_other_xml ::
  "string \<Rightarrow> string option \<Rightarrow> (string option \<times> string) list \<Rightarrow> sax_attribute list \<Rightarrow> ddx \<Rightarrow> ddx" where
  "start_other_xml n prefix nss attrs p =
     (let p = p\<lparr>x_depth := x_depth p + 1, x_other_xml := x_other_xml p @ ''<'' @ prefixed prefix n\<rparr>;
          p = (if nss \<noteq> [] then transfer_xml_ns nss p else p);
          p = (if nss \<noteq> [] then p\<lparr>x_other_xml := x_other_xml p @ concat (map xmlns_text (x_namespaces p))\<rparr> else p);
          p = (if attrs \<noteq> [] then transfer_xml_attrs attrs p else p);
          p = (if attrs \<noteq> [] then p\<lparr>x_other_xml := x_other_xml p @ concat (map attribute_text (x_attributes p))\<rparr> else p)
      in p\<lparr>x_other_xml := x_other_xml p @ ''>''\<rparr>)"

definition unexpected_state :: "string \<Rightarrow> string \<Rightarrow> string" where
  "unexpected_state place n = ''Internal parser error; unexpected state, '' @ place @ '' while processing element '' @ in_quotes n @ ''.''"

text \<open>In the state of an error, and in the unknown state, the elements are passed over.\<close>

definition start_element ::
  "int \<Rightarrow> string \<Rightarrow> string option \<Rightarrow> string option \<Rightarrow> (string option \<times> string) list \<Rightarrow> sax_attribute list \<Rightarrow>
   ddx \<Rightarrow> ddx ddx_result" where
  "start_element junk n prefix uri nss attrs p =
     obind (get_state p) (\<lambda>s.
     case s of
       parser_start \<Rightarrow> start_dataset n uri attrs p
     | inside_dataset \<Rightarrow>
         on_attribute_or_alias n attrs p (on_variable n attrs p
           (if n = ''blob'' \<or> n = ''dataBLOB'' then done_with (process_blob attrs p)
            else done_with (fatal_error (expected ''an Attribute, Alias or variable element'' n) p)))
     | inside_attribute_container \<Rightarrow>
         on_attribute_or_alias n attrs p (done_with (fatal_error (expected ''an Attribute or Alias element'' n) p))
     | inside_attribute \<Rightarrow>
         on_attribute_or_alias n attrs p
           (if n = ''value'' then done_with (set_state inside_attribute_value p)
            else done_with (fatal_error (expected (''an '' @ in_quotes ''Attribute'' @ '', '' @ in_quotes ''Alias'' @ '' or ''
                              @ in_quotes ''value'' @ '' element'') n) p))
     | inside_attribute_value \<Rightarrow> done_with (fatal_error (unexpected_state ''inside value'' n) p)
     | inside_other_xml_attribute \<Rightarrow> done_with (start_other_xml n prefix nss attrs p)
     | inside_alias \<Rightarrow> done_with (fatal_error (unexpected_state ''inside alias'' n) p)
     | inside_simple_type \<Rightarrow>
         on_attribute_or_alias n attrs p
           (done_with (fatal_error (expected (''an '' @ in_quotes ''Attribute'' @ '' or '' @ in_quotes ''Alias'' @ '' element'') n) p))
     | inside_array \<Rightarrow>
         on_attribute_or_alias n attrs p
           (if n \<noteq> ''Array'' \<and> variable_start n \<noteq> None then on_variable n attrs p (done_with p)
            else if n = ''dimension'' then process_dimension junk attrs p
            else done_with (fatal_error (expected (''an '' @ in_quotes ''Attribute'' @ '' or '' @ in_quotes ''Alias'' @ '' element'') n) p))
     | inside_dimension \<Rightarrow> done_with (fatal_error (unexpected_state ''inside dimension'' n) p)
     | inside_structure \<Rightarrow>
         on_attribute_or_alias n attrs p (on_variable n attrs p
           (done_with (fatal_error (expected ''an Attribute, Alias or variable element'' n) p)))
     | inside_sequence \<Rightarrow>
         on_attribute_or_alias n attrs p (on_variable n attrs p
           (done_with (fatal_error (expected ''an Attribute, Alias or variable element'' n) p)))
     | inside_grid \<Rightarrow>
         on_attribute_or_alias n attrs p
           (if n = ''Array'' then process_variable Array_c inside_array attrs p
            else if n = ''Map'' then process_variable Array_c inside_map attrs p
            else done_with (fatal_error (expected ''an Attribute, Alias or variable element'' n) p))
     | inside_map \<Rightarrow>
         on_attribute_or_alias n attrs p
           (if n \<noteq> ''Array'' \<and> n \<noteq> ''Sequence'' \<and> n \<noteq> ''Grid'' \<and> variable_start n \<noteq> None
            then on_variable n attrs p (done_with p)
            else if n = ''dimension'' then process_dimension junk attrs p
            else done_with (fatal_error (expected (''an '' @ in_quotes ''Attribute'' @ '', '' @ in_quotes ''Alias''
                              @ '', variable or '' @ in_quotes ''dimension'' @ '' element'') n) p))
     | inside_blob_href \<Rightarrow> done_with (fatal_error (unexpected_state ''inside blob href'' n) p)
     | parser_unknown \<Rightarrow> done_with (set_state parser_unknown p)
     | parser_error \<Rightarrow> done_with p)"

text \<open>
  The end of an OtherXML attribute is the end of an element Attribute in the name space of the document; without a
  name space of the element a string is compared with a null pointer.
\<close>

definition end_other_xml :: "string \<Rightarrow> string option \<Rightarrow> string option \<Rightarrow> ddx \<Rightarrow> ddx ddx_result" where
  "end_other_xml n prefix uri p =
     (if n = ''Attribute'' \<and> uri = None then stop Null_pointer
      else if n = ''Attribute'' \<and> uri = Some (x_root_ns p) then
        obind (pop_state p) (\<lambda>p.
        obind (top_table p) (\<lambda>a.
        obind (of_attr (Some (append_attr a (x_attr_name p) (x_attr_type p) (x_other_xml p) (x_heap p)))) (\<lambda>(k, h).
        done_with (p\<lparr>x_heap := h, x_other_xml := []\<rparr>))))
      else
        let p = (if x_depth p = 0
                 then fatal_error (''Expected an OtherXML attribute to end! Instead I found '' @ in_quotes n) p else p)
        in done_with (p\<lparr>x_depth := x_depth p - 1, x_other_xml := x_other_xml p @ ''</'' @ prefixed prefix n @ ''>''\<rparr>))"

definition end_element :: "int \<Rightarrow> nat option \<Rightarrow> string \<Rightarrow> string option \<Rightarrow> string option \<Rightarrow> ddx \<Rightarrow> ddx ddx_result" where
  "end_element junk ptr n prefix uri p =
     obind (get_state p) (\<lambda>s.
     case s of
       parser_start \<Rightarrow> done_with (fatal_error (unexpected_state ''inside start state'' n) p)
     | inside_dataset \<Rightarrow>
         if n = ''Dataset'' then pop_state p else done_with (fatal_error (expected ''an end Dataset tag'' n) p)
     | inside_attribute_container \<Rightarrow>
         if n = ''Attribute'' then obind (pop_state p) pop_table
         else done_with (fatal_error (expected ''an end Attribute tag'' n) p)
     | inside_attribute \<Rightarrow>
         if n = ''Attribute'' then pop_state p else done_with (fatal_error (expected ''an end Attribute tag'' n) p)
     | inside_attribute_value \<Rightarrow>
         if n = ''value'' then
           obind (pop_state p) (\<lambda>p.
           obind (top_table p) (\<lambda>a.
           obind (of_attr (Some (append_attr a (x_attr_name p) (x_attr_type p) (x_char_data p) (x_heap p)))) (\<lambda>(k, h).
           done_with (p\<lparr>x_heap := h, x_char_data := []\<rparr>))))
         else done_with (fatal_error (expected ''an end value tag'' n) p)
     | inside_other_xml_attribute \<Rightarrow> end_other_xml n prefix uri p
     | inside_alias \<Rightarrow> pop_state p
     | inside_simple_type \<Rightarrow>
         if is_simple_type (get_dap_type n) then
           obind (pop_state p) (\<lambda>p.
           obind (top_var p) (\<lambda>v.
           obind (pop_var p) (\<lambda>p.
           obind (pop_table p) (add_finished junk ptr v (''simple-type variable '' @ in_quotes n) False))))
         else done_with (fatal_error (expected ''an end tag for a simple type'' n) p)
     | inside_array \<Rightarrow> finish_variable junk ptr n Array_c ''Array'' p
     | inside_dimension \<Rightarrow>
         if n = ''dimension'' then pop_state p else done_with (fatal_error (expected ''an end dimension tag'' n) p)
     | inside_structure \<Rightarrow> finish_variable junk ptr n Structure_c ''Structure'' p
     | inside_sequence \<Rightarrow> finish_variable junk ptr n Sequence_c ''Sequence'' p
     | inside_grid \<Rightarrow> finish_variable junk ptr n Grid_c ''Grid'' p
     | inside_map \<Rightarrow> finish_variable junk ptr n Array_c ''Map'' p
     | inside_blob_href \<Rightarrow>
         if n = ''blob'' \<or> n = ''dataBLOB'' then pop_state p else done_with (fatal_error (expected ''an end dataBLOB/blob tag'' n) p)
     | parser_unknown \<Rightarrow> pop_state p
     | parser_error \<Rightarrow> done_with p)"

definition get_characters :: "string \<Rightarrow> ddx \<Rightarrow> ddx ddx_result" where
  "get_characters cs p =
     obind (get_state p) (\<lambda>s. done_with
       (if s = inside_attribute_value then p\<lparr>x_char_data := x_char_data p @ cs\<rparr>
        else if s = inside_other_xml_attribute then p\<lparr>x_other_xml := x_other_xml p @ cs\<rparr>
        else p))"

definition ignoreable_whitespace :: "string \<Rightarrow> ddx \<Rightarrow> ddx ddx_result" where
  "ignoreable_whitespace cs p =
     obind (get_state p) (\<lambda>s. done_with
       (if s = inside_other_xml_attribute then p\<lparr>x_other_xml := x_other_xml p @ cs\<rparr> else p))"

definition get_cdata :: "string \<Rightarrow> ddx \<Rightarrow> ddx ddx_result" where
  "get_cdata cs p =
     obind (get_state p) (\<lambda>s. done_with
       (if s = inside_other_xml_attribute then p\<lparr>x_other_xml := x_other_xml p @ cs\<rparr>
        else if s = parser_unknown then p
        else fatal_error ''Found a CData block but none are allowed by DAP.'' p))"

section \<open>A whole document\<close>

text \<open>A warning, an error and a fatal error of libxml2 come as \<open>Problem\<close> with their text.\<close>

datatype sax_event =
    Start_element string "string option" "string option" "(string option \<times> string) list" "sax_attribute list"
  | End_element string "string option" "string option"
  | Characters string
  | Whitespace string
  | Cdata string
  | Problem string

fun callback :: "int \<Rightarrow> nat option \<Rightarrow> sax_event \<Rightarrow> ddx \<Rightarrow> ddx ddx_result" where
  "callback junk ptr (Start_element n prefix uri nss attrs) p = start_element junk n prefix uri nss attrs p"
| "callback junk ptr (End_element n prefix uri) p = end_element junk ptr n prefix uri p"
| "callback junk ptr (Characters cs) p = get_characters cs p"
| "callback junk ptr (Whitespace cs) p = ignoreable_whitespace cs p"
| "callback junk ptr (Cdata cs) p = get_cdata cs p"
| "callback junk ptr (Problem msg) p = done_with (fatal_error msg p)"

fun callbacks :: "int \<Rightarrow> nat option \<Rightarrow> (int \<times> sax_event) list \<Rightarrow> ddx \<Rightarrow> ddx ddx_result" where
  "callbacks junk ptr [] p = done_with p"
| "callbacks junk ptr ((line, e) # es) p = obind (callback junk ptr e (p\<lparr>x_line := line\<rparr>)) (callbacks junk ptr es)"

text \<open>What \<open>cleanup_parse\<close> throws; nothing when the parse was good. The two flags are those of libxml2.\<close>

definition cleanup_parse :: "bool \<Rightarrow> bool \<Rightarrow> ddx \<Rightarrow> string option ddx_result" where
  "cleanup_parse well_formed valid p =
     (if \<not> well_formed then done_with (Some ([lf] @ ''The DDX is not a well formed XML document.'' @ [lf] @ x_error_msg p))
      else if \<not> valid then done_with (Some ([lf] @ ''The DDX is not a valid document.'' @ [lf] @ x_error_msg p))
      else obind (get_state p) (\<lambda>s. done_with
             (if s = parser_error then Some ([lf] @ ''Error parsing DDX response.'' @ [lf] @ x_error_msg p) else None)))"

text \<open>The parse of a document: the dataset, the href of the blob and what is thrown.\<close>

definition intern :: "int \<Rightarrow> nat option \<Rightarrow> (int \<times> sax_event) list \<Rightarrow> bool \<Rightarrow> bool \<Rightarrow> ddx \<Rightarrow> (string option \<times> ddx) ddx_result" where
  "intern junk ptr es well_formed valid p =
     obind (callbacks junk ptr es (start_document p)) (\<lambda>p.
     obind (end_document junk ptr p) (\<lambda>p.
     obind (cleanup_parse well_formed valid p) (\<lambda>e. done_with (e, p))))"

end
