(* ===== verification/DdxProofs.thy ===== *)
theory DdxProofs
  imports DdxParser
begin

text \<open>
  What holds of the parser whatever events come: the three stacks fit, so that none is popped or looked at when it
  is empty, and an error that was reported is not forgotten.
\<close>

section \<open>The stacks fit\<close>

definition variable_state :: "parse_state \<Rightarrow> bool" where
  "variable_state s = (s \<in> {inside_simple_type, inside_array, inside_map, inside_structure, inside_sequence, inside_grid})"

text \<open>Which variable belongs to a state.\<close>

fun built_in :: "parse_state \<Rightarrow> dap_var \<Rightarrow> bool" where
  "built_in inside_simple_type (Simple b) = is_simple_type (b_type b)"
| "built_in inside_array (Vec b _ _ _) = (b_type b = Array_c)"
| "built_in inside_map (Vec b _ _ _) = (b_type b = Array_c)"
| "built_in inside_structure (Strct b _) = (b_type b = Structure_c)"
| "built_in inside_sequence (Strct b _) = (b_type b = Sequence_c)"
| "built_in inside_grid (Grd b _ _) = (b_type b = Grid_c)"
| "built_in _ _ = False"

text \<open>
  Below everything lies the start state with the structure for the top level and the table of the dataset;
  every state of a variable has its variable and a table, every container of attributes a table.
\<close>

fun fits :: "parse_state list \<Rightarrow> dap_var list \<Rightarrow> nat list \<Rightarrow> bool" where
  "fits [] vs ats = False"
| "fits (s # ss) vs ats =
     (if s = parser_start then ss = [] \<and> length ats = 1 \<and> (case vs of [Strct b ws] \<Rightarrow> b_type b = Structure_c | _ \<Rightarrow> False)
      else if variable_state s then vs \<noteq> [] \<and> ats \<noteq> [] \<and> built_in s (hd vs) \<and> fits ss (tl vs) (tl ats)
      else if s = inside_attribute_container then ats \<noteq> [] \<and> fits ss vs (tl ats)
      else fits ss vs ats)"

abbreviation stacks_fit :: "ddx \<Rightarrow> bool" where
  "stacks_fit p \<equiv> fits (x_s p) (x_bt p) (x_at p)"

lemma fits_nonempty: "fits ss vs ats \<Longrightarrow> ss \<noteq> [] \<and> vs \<noteq> [] \<and> ats \<noteq> []"
  by (induction ss vs ats rule: fits.induct) (auto split: if_splits)

text \<open>The kind of a variable does not change while parts and dimensions are added to it.\<close>

fun same_kind :: "dap_var \<Rightarrow> dap_var \<Rightarrow> bool" where
  "same_kind (Simple b) (Simple c) = (b_type b = b_type c)"
| "same_kind (Vec b _ _ _) (Vec c _ _ _) = (b_type b = b_type c)"
| "same_kind (Strct b _) (Strct c _) = (b_type b = b_type c)"
| "same_kind (Grd b _ _) (Grd c _ _) = (b_type b = b_type c)"
| "same_kind _ _ = False"

lemma same_kind_refl [simp]: "same_kind v v"
  by (cases v) simp_all

lemma same_kind_trans: "same_kind u v \<Longrightarrow> same_kind v w \<Longrightarrow> same_kind u w"
  by (cases u; cases v; cases w) simp_all

lemma built_in_kind: "same_kind v w \<Longrightarrow> built_in s w = built_in s v"
  by (cases v; cases w; cases s) simp_all

lemma fits_kind: "fits ss (v # vs) ats \<Longrightarrow> same_kind v w \<Longrightarrow> fits ss (w # vs) ats"
proof (induction ss "v # vs" ats rule: fits.induct)
  case (2 s ss ats)
  then show ?case using built_in_kind [OF 2(5), of s]
    by (cases v; cases w) (auto split: if_splits list.splits)
qed simp

lemma append_dim_kind [simp]: "same_kind v (append_dim_to junk sz n v)"
  by (cases v) (simp_all add: Let_def)

lemma fold_dims_kind: "same_kind v (fold (\<lambda>d. append_dim_to junk (f d) (g d)) ds v)"
proof (induction ds arbitrary: v)
  case (Cons d ds)
  show ?case using same_kind_trans [OF append_dim_kind Cons.IH] by simp
qed simp

lemma obind_Inr: "obind r f = Some (Inr b) \<longleftrightarrow> (\<exists>a. r = Some (Inr a) \<and> f a = Some (Inr b))"
  by (cases r) (auto simp: obind_def split: sum.splits)

lemma obind_Inl: "obind r f = Some (Inl x) \<longleftrightarrow> r = Some (Inl x) \<or> (\<exists>a. r = Some (Inr a) \<and> f a = Some (Inl x))"
  by (cases r) (auto simp: obind_def split: sum.splits)

lemma set_name_kind [simp]: "same_kind (Vec b len ds x) (set_var_name junk n (Vec b len ds x))"
  by simp

lemma add_to_kind: "add_to junk ptr v w h = Some (Inr (w', h')) \<Longrightarrow> same_kind w w'"
proof (induction junk ptr v w h rule: add_to.induct)
  case (2 junk ptr v b len ds x h)
  have k: "same_kind (Vec b len ds x) a" if "vector_add_var junk ptr b len ds x e g = Some (Inr (a, g'))" for e a g g'
    using that by (auto simp: vector_add_var_def obind_Inr split: if_splits)
  show ?case
  proof (cases v)
    case (Vec vb vlen vds vx)
    then obtain e a g where a: "vector_add_var junk ptr b len ds x e h = Some (Inr (a, g))"
      "w' = fold (\<lambda>d. append_dim_to junk (dim_size d) (dim_name d)) vds a"
      using 2 by (auto simp: array_add_var_def obind_Inr split: option.splits)
    show ?thesis using same_kind_trans [OF k [OF a(1)] fold_dims_kind] a(2) by simp
  qed (use 2 k in \<open>auto simp: array_add_var_def\<close>)
qed (auto simp: obind_Inr split: if_splits)

section \<open>One callback\<close>

text \<open>
  What a callback may give: no answer, a stop that is not an empty stack (a null pointer only where \<open>c\<close>
  allows one), or a state whose stacks fit, with the error kept that was there.
\<close>

definition failed :: "ddx \<Rightarrow> bool" where
  "failed p = (parser_error \<in> set (x_s p))"

definition sound :: "ddx \<Rightarrow> bool" where
  "sound p = (stacks_fit p \<and> (x_error_msg p \<noteq> [] \<longrightarrow> failed p))"

definition allowed :: "bool \<Rightarrow> ddx \<Rightarrow> ddx ddx_result \<Rightarrow> bool" where
  "allowed c p r =
     (case r of
        None \<Rightarrow> True
      | Some (Inl Empty_stack) \<Rightarrow> False
      | Some (Inl Null_pointer) \<Rightarrow> c
      | Some (Inl (Attr_stop e)) \<Rightarrow> True
      | Some (Inr q) \<Rightarrow> sound q \<and> (failed p \<longrightarrow> failed q))"

lemma allowed_simps [simp]:
  "allowed c p None" "\<not> allowed c p (stop Empty_stack)" "allowed c p (stop Null_pointer) = c" "allowed c p (stop (Attr_stop e))"
  "allowed c p (done_with q) = (sound q \<and> (failed p \<longrightarrow> failed q))"
  by (simp_all add: allowed_def)

lemma allowed_of_attr: "(\<And>a. r = Some (Inr a) \<Longrightarrow> allowed c p (f a)) \<Longrightarrow> allowed c p (obind (of_attr r) f)"
  by (cases r) (auto simp: of_attr_def map_sum_def obind_def split: sum.splits)

lemma allowed_fatal: "sound p \<Longrightarrow> allowed c p (done_with (fatal_error m p))"
  by (auto simp: sound_def failed_def fatal_error_def variable_state_def)

text \<open>States without a variable.\<close>

definition plain_state :: "parse_state \<Rightarrow> bool" where
  "plain_state s = (s \<noteq> parser_start \<and> s \<noteq> inside_attribute_container \<and> \<not> variable_state s)"

lemma fits_plain: "plain_state s \<Longrightarrow> fits (s # ss) vs ats = fits ss vs ats"
  by (simp add: plain_state_def)

lemma plain_states [simp]:
  "plain_state inside_dataset" "plain_state inside_attribute" "plain_state inside_attribute_value"
  "plain_state inside_other_xml_attribute" "plain_state inside_alias" "plain_state inside_dimension"
  "plain_state inside_blob_href" "plain_state parser_unknown" "plain_state parser_error"
  by (simp_all add: plain_state_def variable_state_def)

lemma sound_check: "sound p \<Longrightarrow> sound (check_required_attribute n p) \<and> (failed p \<longrightarrow> failed (check_required_attribute n p))"
  using allowed_fatal [of p] by (auto simp: check_required_attribute_def)

lemma sound_transfer: "sound (transfer_xml_attrs attrs p) = sound p" "failed (transfer_xml_attrs attrs p) = failed p"
  by (simp_all add: transfer_xml_attrs_def sound_def failed_def)

text \<open>A plain state on top of a sound parser, with changes that the stacks do not see.\<close>

lemma sound_push:
  "sound p \<Longrightarrow> x_s q = s # x_s p \<Longrightarrow> plain_state s \<Longrightarrow> x_bt q = x_bt p \<Longrightarrow> x_at q = x_at p \<Longrightarrow> x_error_msg q = x_error_msg p \<Longrightarrow>
   sound q \<and> (failed p \<longrightarrow> failed q)"
  by (auto simp: sound_def failed_def fits_plain simp del: fits.simps)

lemma attribute_element_allowed:
  assumes "sound p"
  shows "allowed c p (process_attribute_element attrs p)"
proof -
  let ?p = "check_required_attribute ''type'' (check_required_attribute ''name'' (transfer_xml_attrs attrs p))"
  have s: "sound ?p" "failed p \<longrightarrow> failed ?p"
    using sound_check [of "transfer_xml_attrs attrs p" "''name''"] sound_check [of _ "''type''"] assms by (auto simp: sound_transfer)
  have "x_at ?p \<noteq> []" using s(1) fits_nonempty by (auto simp: sound_def)
  then obtain a as where at: "x_at ?p = a # as" by (cases "x_at ?p") auto
  have "allowed c p (done_with ((set_state inside_attribute_container ?p)\<lparr>x_at := x # x_at ?p, x_heap := h\<rparr>))" for x h
    using s by (auto simp: sound_def failed_def set_state_def variable_state_def)
  moreover have "allowed c p (done_with ((set_state st ?p)\<lparr>x_attr_name := u, x_attr_type := w\<rparr>))" if "plain_state st" for u w st
    using s that sound_push [of ?p "(set_state st ?p)\<lparr>x_attr_name := u, x_attr_type := w\<rparr>" st] by (auto simp: set_state_def)
  ultimately show ?thesis
    by (auto simp: process_attribute_element_def Let_def top_table_def at split: if_splits intro!: allowed_of_attr)
qed

lemma attribute_alias_allowed:
  assumes "sound p"
  shows "allowed c p (process_attribute_alias attrs p)"
proof -
  let ?p = "check_required_attribute ''attribute'' (check_required_attribute ''name'' (transfer_xml_attrs attrs p))"
  have s: "sound ?p" "failed p \<longrightarrow> failed ?p"
    using sound_check [of "transfer_xml_attrs attrs p" "''name''"] sound_check [of _ "''attribute''"] assms by (auto simp: sound_transfer)
  let ?q = "set_state inside_alias ?p"
  have q: "sound ?q" "failed p \<longrightarrow> failed ?q" using s sound_push [of ?p ?q inside_alias] by (auto simp: set_state_def)
  have "x_at ?q \<noteq> []" using q(1) fits_nonempty by (auto simp: sound_def)
  moreover have "allowed c p (done_with (?q\<lparr>x_heap := h\<rparr>))" for h using q by (simp add: sound_def failed_def)
  ultimately show ?thesis
    by (cases "x_at ?q") (auto simp: process_attribute_alias_def Let_def top_table_def intro!: allowed_of_attr)
qed

text \<open>A new variable is of the kind that its state builds.\<close>

definition starts :: "dap_type \<Rightarrow> parse_state \<Rightarrow> bool" where
  "starts t s = (is_simple_type t \<and> s = inside_simple_type \<or> t = Array_c \<and> (s = inside_array \<or> s = inside_map) \<or>
     t = Structure_c \<and> s = inside_structure \<or> t = Sequence_c \<and> s = inside_sequence \<or> t = Grid_c \<and> s = inside_grid)"

lemma starts_built: "starts t s \<Longrightarrow> blank_var t (new_base n t a) = Some v \<Longrightarrow> variable_state s \<and> built_in s v"
  by (cases t) (auto simp: starts_def variable_state_def new_base_def)

lemma variable_starts: "variable_start n = Some (t, s) \<Longrightarrow> starts t s"
  by (auto simp: variable_start_def starts_def split: if_splits)

definition dap4_type :: "dap_type \<Rightarrow> bool" where
  "dap4_type t = (t \<in> {Int8_c, UInt8_c, Int64_c, UInt64_c, Url4_c, Enum_c, Group_c})"

lemma starts_blank: "starts t s \<Longrightarrow> blank_var t b = None \<Longrightarrow> dap4_type t"
  by (cases t) (auto simp: starts_def dap4_type_def)

lemma variable_allowed:
  assumes "sound p" "starts t s" "dap4_type t \<Longrightarrow> c"
  shows "allowed c p (process_variable t s attrs p)"
proof -
  let ?p0 = "transfer_xml_attrs attrs p"
  have p0: "sound ?p0" "failed ?p0 = failed p" using assms(1) by (simp_all add: sound_transfer)
  have "x_bt ?p0 \<noteq> []" using p0(1) fits_nonempty by (auto simp: sound_def)
  then obtain v vs where bt: "x_bt ?p0 = v # vs" by (cases "x_bt ?p0") auto
  let ?p1 = "set_state s ?p0"
  let ?p2 = "if var_type v = Array_c then ?p1 else check_required_attribute ''name'' ?p1"
  have tv: "top_var ?p1 = done_with v" using bt by (simp add: top_var_def set_state_def)
  have x: "x_s ?p2 = s # x_s ?p0 \<or> x_s ?p2 = parser_error # s # x_s ?p0" "x_bt ?p2 = x_bt ?p0" "x_at ?p2 = x_at ?p0"
    "x_error_msg ?p2 \<noteq> [] \<longrightarrow> x_s ?p2 = parser_error # s # x_s ?p0 \<or> x_error_msg ?p0 \<noteq> []"
    by (simp_all add: check_required_attribute_def fatal_error_def set_state_def)
  show ?thesis
  proof (cases "factory t (attribute_value ''name'' ?p2) (x_heap ?p2)")
    case None
    then have "dap4_type t" using starts_blank [OF assms(2)] by (auto simp: factory_def Let_def split: option.splits prod.splits)
    then show ?thesis using assms(3) None tv by (simp add: process_variable_def Let_def)
  next
    case (Some r)
    obtain b h where r: "r = (b, h)" by (cases r)
    then obtain a where b: "blank_var t (new_base (attribute_value ''name'' ?p2) t a) = Some b"
      using Some by (auto simp: factory_def Let_def split: option.splits prod.splits)
    note k = starts_built [OF assms(2) b]
    have n: "s \<noteq> parser_start" "s \<noteq> parser_error" using k by (auto simp: variable_state_def)
    have e: "parser_error \<noteq> parser_start" "\<not> variable_state parser_error" "parser_error \<noteq> inside_attribute_container"
      by (simp_all add: variable_state_def)
    have f: "fits (s # x_s ?p0) (b # x_bt ?p0) (u # x_at ?p0)" for u using p0(1) k n by (simp add: sound_def)
    let ?q = "?p2\<lparr>x_bt := b # x_bt ?p2, x_at := b_attr (var_base b) # x_at ?p2, x_heap := h\<rparr>"
    have "stacks_fit ?q" using x(1,2,3) f [of "b_attr (var_base b)"] e by (elim disjE) (simp_all del: fits.simps add: fits_plain)
    moreover have "failed p \<longrightarrow> failed ?q" using p0(2) x(1) by (auto simp: failed_def)
    moreover have "x_error_msg ?q \<noteq> [] \<longrightarrow> failed ?q" using x(1,4) p0 by (auto simp: failed_def sound_def)
    ultimately have "allowed c p (done_with ?q)" by (simp add: sound_def)
    then show ?thesis using Some r tv by (simp add: process_variable_def Let_def)
  qed
qed

lemma dimension_allowed:
  assumes "sound p"
  shows "allowed c p (process_dimension junk attrs p)"
proof -
  let ?p1 = "check_required_attribute ''size'' (transfer_xml_attrs attrs p)"
  let ?p = "set_state inside_dimension ?p1"
  have s: "sound ?p1" "failed p \<longrightarrow> failed ?p1"
    using sound_check [of "transfer_xml_attrs attrs p" "''size''"] assms by (auto simp: sound_transfer)
  have q: "sound ?p" "failed p \<longrightarrow> failed ?p" using s sound_push [of ?p1 ?p inside_dimension] by (auto simp: set_state_def)
  then obtain v vs where bt: "x_bt ?p = v # vs" using fits_nonempty [of "x_s ?p" "x_bt ?p" "x_at ?p"]
    by (cases "x_bt ?p") (auto simp: sound_def)
  have "fits (x_s ?p) (v # vs) (x_at ?p)" using q(1) bt by (simp add: sound_def)
  then have "fits (x_s ?p) (append_dim_to junk (atoi (attribute_value ''size'' ?p)) (attribute_value ''name'' ?p) v # vs) (x_at ?p)"
    by (rule fits_kind) simp
  then have "allowed c p (done_with (?p\<lparr>x_bt := append_dim_to junk (atoi (attribute_value ''size'' ?p)) (attribute_value ''name'' ?p) v # vs\<rparr>))"
    using q by (simp add: sound_def failed_def)
  moreover have "allowed c p (done_with (fatal_error m ?p))" for m using q allowed_fatal [OF q(1), of c m] by auto
  ultimately show ?thesis using bt by (simp add: process_dimension_def Let_def)
qed

lemma blob_allowed:
  assumes "sound p"
  shows "allowed c p (done_with (process_blob attrs p))"
proof -
  let ?p = "check_required_attribute ''href'' (transfer_xml_attrs attrs p)"
  have "sound ?p" "failed p \<longrightarrow> failed ?p"
    using sound_check [of "transfer_xml_attrs attrs p" "''href''"] assms by (auto simp: sound_transfer)
  then show ?thesis using sound_push [of ?p "process_blob attrs p" inside_blob_href]
    by (auto simp: process_blob_def Let_def set_state_def)
qed

lemma on_attribute_allowed: "sound p \<Longrightarrow> allowed c p r \<Longrightarrow> allowed c p (on_attribute_or_alias n attrs p r)"
  by (simp add: on_attribute_or_alias_def attribute_element_allowed attribute_alias_allowed)

lemma variable_start_dap4: "variable_start n = Some (t, s) \<Longrightarrow> dap4_type t \<Longrightarrow> dap4_type (get_dap_type n)"
  by (simp add: variable_start_def split: if_splits) (auto simp: dap4_type_def)

lemma on_variable_allowed:
  assumes "sound p" "dap4_type (get_dap_type n) \<Longrightarrow> c" "allowed c p r"
  shows "allowed c p (on_variable n attrs p r)"
proof (cases "variable_start n")
  case (Some x)
  obtain t s where x: "x = (t, s)" by (cases x)
  have "allowed c p (process_variable t s attrs p)"
    using variable_starts variable_start_dap4 Some x assms(1,2) by (intro variable_allowed) auto
  then show ?thesis by (simp add: on_variable_def Some x)
qed (simp add: on_variable_def assms(3))

lemma start_dataset_allowed:
  assumes "sound p"
  shows "allowed c p (start_dataset n uri attrs p)"
proof -
  let ?q = "(set_state inside_dataset p)\<lparr>x_root_ns := to_string uri\<rparr>"
  let ?r = "check_required_attribute ''name'' (transfer_xml_attrs attrs ?q)"
  have q: "sound ?q \<and> (failed p \<longrightarrow> failed ?q)"
    by (rule sound_push [OF assms, of _ inside_dataset]) (simp_all add: set_state_def)
  then have "sound ?r \<and> (failed p \<longrightarrow> failed ?r)"
    using sound_check [of "transfer_xml_attrs attrs ?q" "''name''"] by (simp add: sound_transfer)
  then have "allowed c p (done_with (?r\<lparr>x_dds := d\<rparr>))" for d by (simp add: sound_def failed_def)
  then show ?thesis using allowed_fatal [OF assms] unfolding start_dataset_def Let_def
    by (auto intro!: allowed_of_attr simp del: allowed_simps(5))
qed

lemma start_other_xml_same:
  "x_s (start_other_xml n prefix nss attrs p) = x_s p \<and> x_bt (start_other_xml n prefix nss attrs p) = x_bt p \<and>
   x_at (start_other_xml n prefix nss attrs p) = x_at p \<and> x_error_msg (start_other_xml n prefix nss attrs p) = x_error_msg p"
  by (simp add: start_other_xml_def Let_def transfer_xml_ns_def transfer_xml_attrs_def)

lemma same_stacks_allowed:
  "sound p \<Longrightarrow> x_s q = x_s p \<Longrightarrow> x_bt q = x_bt p \<Longrightarrow> x_at q = x_at p \<Longrightarrow> x_error_msg q = x_error_msg p \<Longrightarrow> allowed c p (done_with q)"
  by (simp add: sound_def failed_def)

lemma get_state_allowed:
  assumes "sound p" "\<And>s ss. x_s p = s # ss \<Longrightarrow> allowed c p (f s)"
  shows "allowed c p (obind (get_state p) f)"
  using assms fits_nonempty by (cases "x_s p") (auto simp: get_state_def sound_def)

lemma start_element_allowed:
  assumes "sound p" "dap4_type (get_dap_type n) \<Longrightarrow> c"
  shows "allowed c p (start_element junk n prefix uri nss attrs p)"
proof -
  have push: "allowed c p (done_with (set_state st p))" if "plain_state st" for st
    using sound_push [OF assms(1), of "set_state st p" st] that by (simp add: set_state_def)
  have a: "allowed c p (process_variable Array_c inside_array attrs p)" "allowed c p (process_variable Array_c inside_map attrs p)"
    using assms(1) by (auto intro!: variable_allowed simp: starts_def dap4_type_def)
  have other: "allowed c p (done_with (start_other_xml n prefix nss attrs p))"
    using start_other_xml_same assms(1) by (intro same_stacks_allowed) auto
  have self: "allowed c p (done_with p)" using assms(1) by simp
  note facts = start_dataset_allowed [OF assms(1)] on_attribute_allowed [OF assms(1)] on_variable_allowed [OF assms]
    allowed_fatal [OF assms(1)] dimension_allowed [OF assms(1)] blob_allowed [OF assms(1)] other push self a
  show ?thesis unfolding start_element_def
    by (rule get_state_allowed [OF assms(1)], rename_tac s ss, case_tac s)
      (auto simp: facts simp del: allowed_simps(5))
qed

section \<open>Ends of elements\<close>

lemma allowed_trans: "allowed c q r \<Longrightarrow> (failed p \<longrightarrow> failed q) \<Longrightarrow> allowed c p r"
  by (auto simp: allowed_def split: option.splits sum.splits ddx_stop.splits)

lemma popped:
  assumes "sound p" "x_s p = s # ss" "variable_state s"
  obtains v vs a as where "x_bt p = v # vs" "x_at p = a # as" "built_in s v"
    "sound (p\<lparr>x_s := ss, x_bt := vs, x_at := as\<rparr>)" "failed p \<longrightarrow> failed (p\<lparr>x_s := ss, x_bt := vs, x_at := as\<rparr>)"
proof -
  have s: "s \<noteq> parser_start" "s \<noteq> parser_error" using assms(3) by (auto simp: variable_state_def)
  have f: "x_bt p \<noteq> []" "x_at p \<noteq> []" "built_in s (hd (x_bt p))" "fits ss (tl (x_bt p)) (tl (x_at p))"
    using assms s by (auto simp: sound_def)
  then obtain v vs a as where "x_bt p = v # vs" "x_at p = a # as" by (auto simp: neq_Nil_conv)
  then show ?thesis using f s assms by (intro that) (auto simp: sound_def failed_def)
qed

lemma pop_plain:
  assumes "sound p" "x_s p = s # ss" "plain_state s" "s \<noteq> parser_error"
  shows "sound (p\<lparr>x_s := ss\<rparr>) \<and> (failed p \<longrightarrow> failed (p\<lparr>x_s := ss\<rparr>))"
  using assms by (auto simp: sound_def failed_def fits_plain simp del: fits.simps)

lemma add_finished_allowed:
  assumes "sound q"
  shows "allowed c q (add_finished junk ptr v w d q)"
proof -
  obtain parent r where bt: "x_bt q = parent # r"
    using fits_nonempty assms by (cases "x_bt q") (auto simp: sound_def)
  have grown: "allowed c q (done_with (q\<lparr>x_bt := parent' # r, x_heap := g\<rparr>))"
    if "add_to junk ptr v parent h = Some (Inr (parent', h'))" for parent' h h' g
  proof -
    have "fits (x_s q) (parent' # r) (x_at q)"
      using assms bt by (intro fits_kind [OF _ add_to_kind [OF that]]) (simp add: sound_def)
    then show ?thesis using assms by (simp add: sound_def failed_def)
  qed
  have refused: "allowed c q (done_with ((fatal_error m q)\<lparr>x_heap := h\<rparr>))" for m h
    using allowed_fatal [OF assms, of c m] by (simp add: sound_def failed_def)
  show ?thesis unfolding add_finished_def bt using grown refused
    by (cases d) (auto intro!: allowed_of_attr simp del: allowed_simps(5))
qed

lemma table_obind:
  assumes "sound q" "\<And>a. allowed c p (f a)"
  shows "allowed c p (obind (top_table q) f)"
  using fits_nonempty assms by (cases "x_at q") (auto simp: sound_def top_table_def)

lemma pop_all:
  assumes "x_s p = s # ss" "x_bt p = v # vs" "x_at p = a # as"
  shows "obind (pop_state p) (\<lambda>p. obind (top_var p) (\<lambda>v. obind (pop_var p) (\<lambda>p. obind (pop_table p) (f v))))
    = f v (p\<lparr>x_s := ss, x_bt := vs, x_at := as\<rparr>)"
  using assms by (simp add: pop_state_def top_var_def pop_var_def pop_table_def)

lemma finish_variable_allowed:
  assumes "sound p" "x_s p = s # ss" "variable_state s"
  shows "allowed c p (finish_variable junk ptr tag t expect p)"
proof (cases "tag = expect")
  case False
  then show ?thesis using allowed_fatal [OF assms(1)] by (simp add: finish_variable_def del: allowed_simps(5))
next
  case True
  obtain v vs a as where bt: "x_bt p = v # vs" "x_at p = a # as" and k: "built_in s v"
    and q: "sound (p\<lparr>x_s := ss, x_bt := vs, x_at := as\<rparr>)" "failed p \<longrightarrow> failed (p\<lparr>x_s := ss, x_bt := vs, x_at := as\<rparr>)"
    by (rule popped [OF assms]) (rule that)
  define q where "q = p\<lparr>x_s := ss, x_bt := vs, x_at := as\<rparr>"
  note q = q [folded q_def]
  have "allowed c p (done_with ((fatal_error m q)\<lparr>x_heap := h\<rparr>))" for m h
    using allowed_trans [OF allowed_fatal [OF q(1)] q(2), of c m] by (simp add: sound_def failed_def)
  then have gone: "allowed c p (obind (of_attr r) (\<lambda>h. done_with ((fatal_error m q)\<lparr>x_heap := h\<rparr>)))" for m r
    by (rule allowed_of_attr)
  have err: "allowed c p (done_with (fatal_error m q))" for m by (rule allowed_trans [OF allowed_fatal [OF q(1)] q(2)])
  have add: "allowed c p (add_finished junk ptr v w d q)" for w d by (rule allowed_trans [OF add_finished_allowed [OF q(1)] q(2)])
  show ?thesis unfolding finish_variable_def pop_all [OF assms(2) bt] q_def [symmetric]
    using True gone err add by (simp del: allowed_simps(5))
qed

lemma simple_end_allowed:
  assumes "sound p" "x_s p = s # ss" "variable_state s"
  shows "allowed c p (obind (pop_state p) (\<lambda>p. obind (top_var p) (\<lambda>v. obind (pop_var p) (\<lambda>p. obind (pop_table p)
           (add_finished junk ptr v w d)))))"
proof -
  obtain v vs a as where bt: "x_bt p = v # vs" "x_at p = a # as" and k: "built_in s v"
    and q: "sound (p\<lparr>x_s := ss, x_bt := vs, x_at := as\<rparr>)" "failed p \<longrightarrow> failed (p\<lparr>x_s := ss, x_bt := vs, x_at := as\<rparr>)"
    by (rule popped [OF assms]) (rule that)
  show ?thesis unfolding pop_all [OF assms(2) bt] by (rule allowed_trans [OF add_finished_allowed [OF q(1)] q(2)])
qed

lemma value_end_allowed:
  assumes "sound p" "x_s p = s # ss" "plain_state s" "s \<noteq> parser_error"
    and "\<And>q h. x_s (f q h) = x_s q \<and> x_bt (f q h) = x_bt q \<and> x_at (f q h) = x_at q \<and> x_error_msg (f q h) = x_error_msg q"
  shows "allowed c p (obind (pop_state p) (\<lambda>p. obind (top_table p) (\<lambda>a. obind (of_attr (Some (g a p))) (\<lambda>(k, h). done_with (f p h)))))"
proof -
  let ?q = "p\<lparr>x_s := ss\<rparr>"
  have q: "sound ?q" "failed p \<longrightarrow> failed ?q" using pop_plain [OF assms(1-4)] by auto
  have "allowed c p (done_with (f ?q h))" for h
    by (rule allowed_trans [OF same_stacks_allowed q(2)]) (use q(1) assms(5) in auto)
  then show ?thesis using assms(2) q(1)
    by (auto simp: pop_state_def intro!: table_obind allowed_of_attr simp del: allowed_simps(5))
qed

lemma end_other_xml_allowed:
  assumes "sound p" "x_s p = inside_other_xml_attribute # ss" "n = ''Attribute'' \<and> uri = None \<Longrightarrow> c"
  shows "allowed c p (end_other_xml n prefix uri p)"
proof -
  define q where "q m = (if x_depth p = 0 then fatal_error m p else p)" for m
  have "sound (q m) \<and> (failed p \<longrightarrow> failed (q m))" for m using allowed_fatal [OF assms(1)] assms(1) by (simp add: q_def)
  then have "allowed c p (done_with ((q m)\<lparr>x_depth := d, x_other_xml := t\<rparr>))" for m d t
    by (simp add: sound_def failed_def)
  moreover have "allowed c p (obind (pop_state p) (\<lambda>p. obind (top_table p) (\<lambda>a.
        obind (of_attr (Some (append_attr a (x_attr_name p) (x_attr_type p) (x_other_xml p) (x_heap p)))) (\<lambda>(k, h).
        done_with (p\<lparr>x_heap := h, x_other_xml := []\<rparr>)))))"
    by (rule value_end_allowed [OF assms(1,2)]) simp_all
  ultimately show ?thesis using assms(3) unfolding end_other_xml_def Let_def q_def [symmetric]
    by (simp del: allowed_simps(5))
qed

lemma end_element_allowed:
  assumes "sound p" "n = ''Attribute'' \<and> uri = None \<Longrightarrow> c"
  shows "allowed c p (end_element junk ptr n prefix uri p)"
proof -
  note fatal = allowed_fatal [OF assms(1)]
  have pop: "allowed c p (pop_state p)" if "x_s p = s # ss" "plain_state s" "s \<noteq> parser_error" for s ss
    using pop_plain [OF assms(1) that] that by (simp add: pop_state_def)
  have container: "allowed c p (obind (pop_state p) pop_table)" if "x_s p = inside_attribute_container # ss" for ss
  proof -
    have "x_at p \<noteq> []" "fits ss (x_bt p) (tl (x_at p))" using assms(1) that by (auto simp: sound_def variable_state_def)
    then show ?thesis using assms(1) that by (cases "x_at p") (auto simp: pop_state_def pop_table_def sound_def failed_def)
  qed
  have val: "allowed c p (obind (pop_state p) (\<lambda>p. obind (top_table p) (\<lambda>a.
        obind (of_attr (Some (append_attr a (x_attr_name p) (x_attr_type p) (x_char_data p) (x_heap p)))) (\<lambda>(k, h).
        done_with (p\<lparr>x_heap := h, x_char_data := []\<rparr>)))))" if "x_s p = inside_attribute_value # ss" for ss
    by (rule value_end_allowed [OF assms(1) that]) simp_all
  have v: "variable_state inside_simple_type" "variable_state inside_array" "variable_state inside_map"
    "variable_state inside_structure" "variable_state inside_sequence" "variable_state inside_grid"
    by (simp_all add: variable_state_def)
  have self: "allowed c p (done_with p)" using assms(1) by simp
  show ?thesis unfolding end_element_def
    by (rule get_state_allowed [OF assms(1)], rename_tac s ss, case_tac s)
      (auto simp: fatal container val pop self v finish_variable_allowed [OF assms(1)] simple_end_allowed [OF assms(1)]
        end_other_xml_allowed [OF assms(1) _ assms(2)] simp del: allowed_simps(5))
qed

section \<open>A document\<close>

text \<open>The events at which the parser may follow a null pointer: a type of DAP4, and the end of an attribute without a name space.\<close>

fun treacherous :: "sax_event \<Rightarrow> bool" where
  "treacherous (Start_element n prefix uri nss attrs) = dap4_type (get_dap_type n)"
| "treacherous (End_element n prefix uri) = (n = ''Attribute'' \<and> uri = None)"
| "treacherous _ = False"

lemma callback_allowed:
  assumes "sound p"
  shows "allowed (treacherous e) p (callback junk ptr e p)"
proof (cases e)
  case (Start_element n prefix uri nss attrs)
  then show ?thesis using start_element_allowed [OF assms] by simp
next
  case (End_element n prefix uri)
  then show ?thesis using end_element_allowed [OF assms] by simp
next
  case (Characters cs)
  have "allowed c p (done_with (p\<lparr>x_char_data := d\<rparr>))" "allowed c p (done_with (p\<lparr>x_other_xml := d\<rparr>))" "allowed c p (done_with p)" for c d
    using assms by (auto intro!: same_stacks_allowed simp del: allowed_simps(5))
  then show ?thesis using Characters by (auto simp: get_characters_def intro!: get_state_allowed [OF assms] simp del: allowed_simps(5))
next
  case (Whitespace cs)
  have "allowed c p (done_with (p\<lparr>x_other_xml := d\<rparr>))" "allowed c p (done_with p)" for c d
    using assms by (auto intro!: same_stacks_allowed simp del: allowed_simps(5))
  then show ?thesis using Whitespace by (auto simp: ignoreable_whitespace_def intro!: get_state_allowed [OF assms] simp del: allowed_simps(5))
next
  case (Cdata cs)
  have "allowed c p (done_with (p\<lparr>x_other_xml := d\<rparr>))" "allowed c p (done_with p)" for c d
    using assms by (auto intro!: same_stacks_allowed simp del: allowed_simps(5))
  then show ?thesis using Cdata allowed_fatal [OF assms]
    by (auto simp: get_cdata_def intro!: get_state_allowed [OF assms] simp del: allowed_simps(5))
next
  case (Problem m)
  then show ?thesis using allowed_fatal [OF assms] by (simp del: allowed_simps(5))
qed

lemma callbacks_allowed:
  "sound p \<Longrightarrow> allowed (\<exists>(l, e) \<in> set es. treacherous e) p (callbacks junk ptr es p)"
proof (induction es arbitrary: p)
  case (Cons x es)
  obtain l e where x: "x = (l, e)" by (cases x)
  let ?p = "p\<lparr>x_line := l\<rparr>"
  have p: "sound ?p" "failed ?p = failed p" using Cons.prems by (simp_all add: sound_def failed_def)
  have a: "allowed (treacherous e) ?p (callback junk ptr e ?p)" using callback_allowed [OF p(1)] .
  show ?case
  proof (cases "callback junk ptr e ?p")
    case (Some r)
    show ?thesis
    proof (cases r)
      case (Inl s)
      then show ?thesis using a Some x by (cases s) (auto simp: allowed_def)
    next
      case (Inr q)
      then have q: "sound q" "failed p \<longrightarrow> failed q" using a Some p by simp_all
      have "allowed (\<exists>(l, e) \<in> set (x # es). treacherous e) q (callbacks junk ptr es q)"
        using Cons.IH [OF q(1)] by (auto simp: allowed_def split: option.splits sum.splits ddx_stop.splits)
      from allowed_trans [OF this q(2)] show ?thesis using Some Inr x by simp
    qed
  qed (simp add: x)
qed simp

lemma start_sound: "sound (start_document (new_parser d h cid))" "\<not> failed (start_document (new_parser d h cid))"
  by (simp_all add: start_document_def new_parser_def new_AttrTable_def set_state_def sound_def failed_def new_base_def)

lemma of_attr_stop: "of_attr r \<noteq> stop Empty_stack" "of_attr r \<noteq> stop Null_pointer"
  by (cases r) (auto simp: of_attr_def map_sum_def split: sum.splits)

text \<open>The end of the document: no stack is empty before it is popped, and only a parse without errors ends well.\<close>

lemma end_document_ends:
  assumes "sound p"
  shows "end_document junk ptr p \<noteq> stop Empty_stack \<and> end_document junk ptr p \<noteq> stop Null_pointer \<and>
    (\<forall>q. end_document junk ptr p = done_with q \<longrightarrow> x_s q \<noteq> [] \<and>
       (hd (x_s q) = parser_error \<or> x_s p = [parser_start] \<and> x_s q = x_s p \<and> x_bt q = [] \<and> x_error_msg q = x_error_msg p))"
proof -
  obtain s ss v vs where s: "x_s p = s # ss" "x_bt p = v # vs"
    using fits_nonempty [of "x_s p" "x_bt p" "x_at p"] assms by (auto simp: sound_def neq_Nil_conv)
  show ?thesis
  proof (cases "s = parser_start")
    case False
    then show ?thesis using s
      by (auto simp: of_attr_stop end_document_def get_state_def top_var_def fatal_error_def Let_def obind_Inl obind_Inr)
  next
    case True
    have f: "ss = []" "vs = []" "is_constructor_type (var_type v)"
      using assms s True by (auto simp: sound_def is_constructor_type_def split: dap_var.splits list.splits)
    then show ?thesis using s True
      by (auto simp: of_attr_stop end_document_def get_state_def top_var_def pop_var_def Let_def obind_Inl obind_Inr)
  qed
qed

text \<open>A document with an element Grid that is empty.\<close>

definition empty_grid :: "(int \<times> sax_event) list" where
  "empty_grid =
     [(1, Start_element ''Dataset'' None None [] [(''name'', None, None, ''d'')]),
      (2, Start_element ''Grid'' None None [] [(''name'', None, None, ''g'')]),
      (3, End_element ''Grid'' None None)]"

lemma clone_nothing: "clone_entries ptr a [] h = Some (Inr h)"
  by (subst clone_entries.simps) simp

lemma empty_grid_faults: "callbacks junk ptr empty_grid (start_document (new_parser d h cid)) = stop (Attr_stop Fault)"
  by (simp add: empty_grid_def start_document_def new_parser_def new_AttrTable_def set_state_def start_element_def
      start_dataset_def get_state_def transfer_xml_attrs_def check_required_attribute_def attribute_value_def
      on_attribute_or_alias_def on_variable_def variable_start_def process_variable_def factory_def top_var_def end_element_def
      finish_variable_def pop_state_def pop_var_def pop_table_def add_finished_def new_base_def of_attr_def copy_base_def
      copy_AttrTable_def clone_nothing put_table_def blank_table_def is_constructor_type_def is_vector_type_def get_dap_type_def
      m_find_def m_insert_def Let_def)

text \<open>What the parser does with its stacks.\<close>

lemma stacks_hold:
  "case callbacks junk ptr es (start_document (new_parser d h cid)) of
     None \<Rightarrow> True
   | Some (Inl Empty_stack) \<Rightarrow> False
   | Some (Inl Null_pointer) \<Rightarrow> \<exists>(l, e) \<in> set es. treacherous e
   | Some (Inl (Attr_stop e)) \<Rightarrow> True
   | Some (Inr p) \<Rightarrow> fits (x_s p) (x_bt p) (x_at p) \<and>
       end_document junk ptr p \<noteq> stop Empty_stack \<and> end_document junk ptr p \<noteq> stop Null_pointer"
proof -
  have a: "allowed (\<exists>(l, e) \<in> set es. treacherous e) (start_document (new_parser d h cid))
    (callbacks junk ptr es (start_document (new_parser d h cid)))"
    by (rule callbacks_allowed [OF start_sound(1)])
  show ?thesis
  proof (cases "callbacks junk ptr es (start_document (new_parser d h cid))")
    case (Some r)
    show ?thesis
    proof (cases r)
      case (Inl s)
      then show ?thesis using a Some by (cases s) auto
    next
      case (Inr p)
      then have "sound p" using a Some by simp
      then show ?thesis using end_document_ends [of p junk ptr] Some Inr by (simp add: sound_def)
    qed
  qed simp
qed

text \<open>
  C22: The stacks of the parser: whatever events come, in whatever order, after the start of a document, no stack
  is popped or looked at when it is empty, neither by a callback nor at the end of the document; after every
  event that returns each state of a variable on the stack has its variable, of the kind that the state builds, and a table of
  attributes. The callbacks themselves follow a null pointer only at the start of an element of a type that only DAP4
  has and at the end of an attribute without a name space. Nothing is said of the operations on variables and
  tables of attributes that the callbacks call (\<open>Attr_stop\<close>), which may throw, and which may follow a null
  pointer of their own: the second part shows that they do at the end of an empty element Grid, which is
  copied without its array. No result means that such an operation never returns.
\<close>

theorem ddx_stacks_fit:
  "(case callbacks junk ptr es (start_document (new_parser d h cid)) of
     None \<Rightarrow> True
   | Some (Inl Empty_stack) \<Rightarrow> False
   | Some (Inl Null_pointer) \<Rightarrow> \<exists>(l, e) \<in> set es. treacherous e
   | Some (Inl (Attr_stop e)) \<Rightarrow> True
   | Some (Inr p) \<Rightarrow> fits (x_s p) (x_bt p) (x_at p) \<and>
       end_document junk ptr p \<noteq> stop Empty_stack \<and> end_document junk ptr p \<noteq> stop Null_pointer) \<and>
   callbacks junk ptr empty_grid (start_document (new_parser d h cid)) = stop (Attr_stop Fault)"
  using stacks_hold empty_grid_faults by blast

lemma callbacks_append:
  "callbacks junk ptr (es @ fs) p = obind (callbacks junk ptr es p) (callbacks junk ptr fs)"
proof (induction es arbitrary: p)
  case (Cons x es)
  obtain l e where x: "x = (l, e)" by (cases x)
  show ?case
  proof (cases "callback junk ptr e (p\<lparr>x_line := l\<rparr>)")
    case (Some r)
    then show ?thesis using Cons x by (cases r) auto
  qed (simp add: x)
qed simp

text \<open>
  C23: An error is not forgotten: when the parse of a document ends without an exception, libxml2 found it well
  formed and valid, no event of it reported an error, every element that was opened was closed again in its own state and
  the temporary variable of the parser is gone.
\<close>

theorem ddx_errors_fail:
  assumes "intern junk ptr es well_formed valid (new_parser d h cid) = done_with (None, q)"
  shows "well_formed \<and> valid \<and> x_s q = [parser_start] \<and> x_bt q = [] \<and> x_error_msg q = [] \<and>
    (\<forall>es1 es2. es = es1 @ es2 \<longrightarrow>
       (\<exists>p. callbacks junk ptr es1 (start_document (new_parser d h cid)) = done_with p \<and>
            parser_error \<notin> set (x_s p) \<and> x_error_msg p = []))"
proof -
  let ?s = "start_document (new_parser d h cid)"
  obtain p where p: "callbacks junk ptr es ?s = done_with p" "end_document junk ptr p = done_with q"
      "cleanup_parse well_formed valid q = done_with None"
    using assms by (auto simp: intern_def obind_Inr)
  have a: "allowed (\<exists>(l, e) \<in> set fs. treacherous e) ?s (callbacks junk ptr fs ?s)" for fs by (rule callbacks_allowed [OF start_sound(1)])
  have sp: "sound p" using a [of es] p(1) by simp
  note e = end_document_ends [OF sp, of junk ptr]
  have c: "well_formed" "valid" "hd (x_s q) \<noteq> parser_error"
    using p(3) e p(2) by (auto simp: cleanup_parse_def get_state_def obind_Inr split: if_splits list.splits)
  then have q: "x_s p = [parser_start]" "x_s q = [parser_start]" "x_bt q = []" "x_error_msg q = x_error_msg p" using e p(2) by auto
  then have np: "\<not> failed p" by (simp add: failed_def)
  have "\<exists>r. callbacks junk ptr es1 ?s = done_with r \<and> \<not> failed r \<and> x_error_msg r = []" if es: "es = es1 @ es2" for es1 es2
  proof -
    obtain r where r: "callbacks junk ptr es1 ?s = done_with r" "callbacks junk ptr es2 r = done_with p"
      using p(1) by (auto simp: es callbacks_append obind_Inr)
    have "sound r" using a [of es1] r(1) by simp
    moreover from this have "failed r \<longrightarrow> failed p" using callbacks_allowed [where p = r and es = es2 and junk = junk and ptr = ptr] r(2) by simp
    ultimately show ?thesis using np r(1) by (auto simp: sound_def)
  qed
  moreover have "x_error_msg p = []" using sp np by (auto simp: sound_def)
  ultimately show ?thesis using c q unfolding failed_def by auto
qed

end
