(* ===== verification/DdxHeap.thy ===== *)
theory DdxHeap
  imports DdxProofs DapMark
begin

text \<open>
  Variables without attributes in the store: copying such a variable gives one that is the same but for its
  addresses, which are new; deleting it gives back exactly its own tables.
\<close>

section \<open>Addresses and skeletons\<close>

fun addrs :: "dap_var \<Rightarrow> nat list"
and addrss :: "dap_var list \<Rightarrow> nat list" where
  "addrs (Simple b) = [b_attr b]"
| "addrs (Vec b len ds x) = b_attr b # (case x of None \<Rightarrow> [] | Some e \<Rightarrow> addrs e)"
| "addrs (Strct b vs) = b_attr b # addrss vs"
| "addrs (Grd b arr maps) = b_attr b # (case arr of None \<Rightarrow> [] | Some a \<Rightarrow> addrs a) @ addrss maps"
| "addrss [] = []"
| "addrss (v # vs) = addrs v @ addrss vs"

lemma addrss_append [simp]: "addrss (vs @ ws) = addrss vs @ addrss ws"
  by (induction vs) simp_all

text \<open>A variable without its address and with its flags as they are made.\<close>

definition bare :: "base \<Rightarrow> base" where
  "bare b = new_base (b_name b) (b_type b) 0"

fun skel :: "dap_var \<Rightarrow> dap_var"
and skels :: "dap_var list \<Rightarrow> dap_var list" where
  "skel (Simple b) = Simple (bare b)"
| "skel (Vec b len ds x) = Vec (bare b) len ds (case x of None \<Rightarrow> None | Some e \<Rightarrow> Some (skel e))"
| "skel (Strct b vs) = Strct (bare b) (skels vs)"
| "skel (Grd b arr maps) = Grd (bare b) (case arr of None \<Rightarrow> None | Some a \<Rightarrow> Some (skel a)) (skels maps)"
| "skels [] = []"
| "skels (v # vs) = skel v # skels vs"

lemma skels_map: "skels vs = map skel vs"
  by (induction vs) simp_all

lemma bare_simps [simp]: "b_name (bare b) = b_name b" "b_type (bare b) = b_type b" "bare (b\<lparr>b_attr := a\<rparr>) = bare b"
  "bare (b\<lparr>b_name := n\<rparr>) = (bare b)\<lparr>b_name := n\<rparr>" "bare (bare b) = bare b"
  by (simp_all add: bare_def new_base_def)

lemma skel_base [simp]: "var_base (skel v) = bare (var_base v)"
  by (cases v) simp_all

lemma skel_array [simp]: "is_array (skel v) = is_array v"
  by (cases v) simp_all

lemma complete_skel: "complete (skel v) = complete v" "completes (skels vs) = completes vs"
  by (induction v and vs rule: skel_skels.induct) (auto split: option.splits)

lemma skel_set_name [simp]: "skel (set_var_name junk n v) = set_var_name junk n (skel v)"
  by (induction junk n v rule: set_var_name.induct) (auto split: option.splits)

lemma addrs_set_name [simp]: "addrs (set_var_name junk n v) = addrs v"
  by (induction junk n v rule: set_var_name.induct) (auto split: option.splits)

lemma skel_append_dim [simp]: "skel (append_dim_to junk sz n v) = append_dim_to junk sz n (skel v)"
  by (cases v) (simp_all add: Let_def append_dim_def update_length_def)

lemma addrs_append_dim [simp]: "addrs (append_dim_to junk sz n v) = addrs v"
  by (cases v) (simp_all add: Let_def)

section \<open>Copying\<close>

definition blank :: "at_heap \<Rightarrow> nat \<Rightarrow> bool" where
  "blank h a = (case h_tables h a of None \<Rightarrow> False | Some t \<Rightarrow> attr_map t = [])"

definition tidy :: "at_heap \<Rightarrow> nat list \<Rightarrow> bool" where
  "tidy h as = (distinct as \<and> (\<forall>a \<in> set as. blank h a \<and> a < h_next h))"

text \<open>The new addresses lie between the old and the new end of the store, below which nothing changes.\<close>

definition extended :: "at_heap \<Rightarrow> at_heap \<Rightarrow> nat list \<Rightarrow> bool" where
  "extended h h' as = (h_next h \<le> h_next h' \<and> (\<forall>a < h_next h. h_tables h' a = h_tables h a) \<and>
     tidy h' as \<and> (\<forall>a \<in> set as. h_next h \<le> a))"

lemma blank_same: "h_tables h' a = h_tables h a \<Longrightarrow> blank h' a = blank h a"
  by (simp add: blank_def)

lemma extended_blank: "extended h h' as \<Longrightarrow> a < h_next h \<Longrightarrow> blank h' a = blank h a"
  by (simp add: extended_def blank_def)

lemma extended_old: "extended h h' as \<Longrightarrow> \<forall>a \<in> set bs. blank h a \<and> a < h_next h \<Longrightarrow> \<forall>a \<in> set bs. blank h' a \<and> a < h_next h'"
  by (auto simp: extended_def blank_def)

lemma extended_Nil [simp]: "extended h h []"
  by (simp add: extended_def tidy_def)

lemma extended_append:
  assumes "extended h h' as" "extended h' h'' bs"
  shows "extended h h'' (as @ bs)"
proof -
  have "a \<notin> set bs" if "a \<in> set as" for a using assms that by (force simp: extended_def tidy_def)
  moreover have "blank h'' a" if "a \<in> set as" for a
    using assms that extended_blank [OF assms(2), of a] by (auto simp: extended_def tidy_def)
  ultimately show ?thesis using assms by (auto simp: extended_def tidy_def intro: order_trans less_le_trans)
qed

lemma copy_blank_base:
  assumes "blank h (b_attr b)"
  shows "\<exists>h'. copy_base ptr b h = Some (Inr (b\<lparr>b_attr := h_next h\<rparr>, h')) \<and> extended h h' [h_next h]"
proof -
  obtain t where t: "h_tables h (b_attr b) = Some t" "attr_map t = []" using assms by (auto simp: blank_def split: option.splits)
  have "clone_entries ptr (h_next h) [] (start_copy t h) = Some (Inr (start_copy t h))" by (subst clone_entries.simps) simp
  moreover have "extended h (start_copy t h) [h_next h]"
    by (simp add: extended_def tidy_def start_copy_def put_table_def blank_def blank_table_def)
  ultimately show ?thesis using t by (simp add: copy_base_def copy_AttrTable_def)
qed

lemma copy_blank:
  "complete v \<Longrightarrow> \<forall>a \<in> set (addrs v). blank h a \<and> a < h_next h \<Longrightarrow>
     \<exists>v' h'. copy_var ptr v h = Some (Inr (v', h')) \<and> skel v' = skel v \<and> extended h h' (addrs v')"
  "completes vs \<Longrightarrow> \<forall>a \<in> set (addrss vs). blank h a \<and> a < h_next h \<Longrightarrow>
     \<exists>vs' h'. copy_vars ptr vs h = Some (Inr (vs', h')) \<and> skels vs' = skels vs \<and> extended h h' (addrss vs')"
proof (induction v and vs arbitrary: h and h rule: addrs_addrss.induct)
  case (1 b)
  then show ?case using copy_blank_base [of h b ptr] by auto
next
  case (2 b len ds x)
  then obtain e where e: "x = Some e" by (auto split: option.splits)
  obtain h1 where h1: "copy_base ptr b h = Some (Inr (b\<lparr>b_attr := h_next h\<rparr>, h1))" "extended h h1 [h_next h]"
    using copy_blank_base [of h b ptr] 2 by auto
  have "\<forall>a \<in> set (addrs e). blank h1 a \<and> a < h_next h1" using 2 e by (intro extended_old [OF h1(2)]) simp
  then obtain e' h2 where h2: "copy_var ptr e h1 = Some (Inr (e', h2))" "skel e' = skel e" "extended h1 h2 (addrs e')"
    using "2.IH" [OF e, of h1] "2.prems"(1) e by auto
  show ?case using e h1(1) h2(1,2) extended_append [OF h1(2) h2(3)] by simp
next
  case (3 b vs)
  obtain h1 where h1: "copy_base ptr b h = Some (Inr (b\<lparr>b_attr := h_next h\<rparr>, h1))" "extended h h1 [h_next h]"
    using copy_blank_base [of h b ptr] 3 by auto
  have "\<forall>a \<in> set (addrss vs). blank h1 a \<and> a < h_next h1" using 3 by (intro extended_old [OF h1(2)]) simp
  then obtain vs' h2 where h2: "copy_vars ptr vs h1 = Some (Inr (vs', h2))" "skels vs' = skels vs" "extended h1 h2 (addrss vs')"
    using "3.IH" [of h1] "3.prems"(1) by auto
  show ?case using h1(1) h2(1,2) extended_append [OF h1(2) h2(3)] by simp
next
  case (4 b arr maps)
  then obtain x where x: "arr = Some x" by (auto split: option.splits)
  obtain h1 where h1: "copy_base ptr b h = Some (Inr (b\<lparr>b_attr := h_next h\<rparr>, h1))" "extended h h1 [h_next h]"
    using copy_blank_base [of h b ptr] 4 by auto
  have a1: "\<forall>a \<in> set (addrs x @ addrss maps). blank h1 a \<and> a < h_next h1" using 4 x by (intro extended_old [OF h1(2)]) simp
  then obtain x' h2 where h2: "copy_var ptr x h1 = Some (Inr (x', h2))" "skel x' = skel x" "extended h1 h2 (addrs x')"
    using "4.IH"(1) [OF x, of h1] "4.prems"(1) x by auto
  have "\<forall>a \<in> set (addrss maps). blank h2 a \<and> a < h_next h2" using a1 by (intro extended_old [OF h2(3)]) simp
  then obtain maps' h3 where h3: "copy_vars ptr maps h2 = Some (Inr (maps', h3))" "skels maps' = skels maps" "extended h2 h3 (addrss maps')"
    using "4.IH"(2) [of h2] "4.prems"(1) by auto
  show ?case using x h1(1) h2(1,2) h3(1,2) extended_append [OF h1(2) extended_append [OF h2(3) h3(3)]] by simp
next
  case 5
  then show ?case by simp
next
  case (6 v vs)
  have "complete v" "\<forall>a \<in> set (addrs v). blank h a \<and> a < h_next h" using "6.prems" by auto
  then obtain v' h1 where h1: "copy_var ptr v h = Some (Inr (v', h1))" "skel v' = skel v" "extended h h1 (addrs v')"
    using "6.IH"(1) by blast
  have "\<forall>a \<in> set (addrss vs). blank h1 a \<and> a < h_next h1" using 6 by (intro extended_old [OF h1(3)]) simp
  then obtain vs' h2 where h2: "copy_vars ptr vs h1 = Some (Inr (vs', h2))" "skels vs' = skels vs" "extended h1 h2 (addrss vs')"
    using "6.IH"(2) [of h1] "6.prems"(1) by auto
  show ?case using h1(1,2) h2(1,2) extended_append [OF h1(3) h2(3)] by simp
qed

section \<open>Deleting\<close>

definition freed :: "at_heap \<Rightarrow> at_heap \<Rightarrow> nat list \<Rightarrow> bool" where
  "freed h h' as = (h_next h' = h_next h \<and> (\<forall>a. a \<notin> set as \<longrightarrow> h_tables h' a = h_tables h a))"

lemma freed_append: "freed h h' as \<Longrightarrow> freed h' h'' bs \<Longrightarrow> freed h h'' (as @ bs)"
  by (simp add: freed_def)

lemma delete_no_entries: "delete_entries [] h = Some (Inr h)"
  by (subst delete_entries.simps) simp

lemma delete_blank_table: "blank h a \<Longrightarrow> \<exists>h'. delete_table a h = Some (Inr h') \<and> freed h h' [a]"
  by (auto simp: delete_table_def blank_def delete_no_entries freed_def free_table_def split: option.splits)

lemma freed_blank: "freed h h' as \<Longrightarrow> a \<notin> set as \<Longrightarrow> blank h a \<Longrightarrow> blank h' a"
  by (simp add: freed_def blank_def)

lemma delete_blank:
  "distinct (addrs v) \<Longrightarrow> \<forall>a \<in> set (addrs v). blank h a \<Longrightarrow> \<exists>h'. delete_var v h = Some (Inr h') \<and> freed h h' (addrs v)"
  "distinct (addrss vs) \<Longrightarrow> \<forall>a \<in> set (addrss vs). blank h a \<Longrightarrow> \<exists>h'. delete_vars vs h = Some (Inr h') \<and> freed h h' (addrss vs)"
proof (induction v and vs arbitrary: h and h rule: addrs_addrss.induct)
  case (1 b)
  then show ?case using delete_blank_table [of h "b_attr b"] by auto
next
  case (2 b len ds x)
  let ?as = "case x of None \<Rightarrow> [] | Some e \<Rightarrow> addrs e"
  have "\<exists>h1. (case x of None \<Rightarrow> Some (Inr h) | Some e \<Rightarrow> delete_var e h) = Some (Inr h1) \<and> freed h h1 ?as"
    using 2 by (cases x) (auto simp: freed_def)
  then obtain h1 where h1: "(case x of None \<Rightarrow> Some (Inr h) | Some e \<Rightarrow> delete_var e h) = Some (Inr h1)" "freed h h1 ?as" by blast
  then obtain h2 where h2: "delete_table (b_attr b) h1 = Some (Inr h2)" "freed h1 h2 [b_attr b]"
    using delete_blank_table [of h1 "b_attr b"] freed_blank [OF h1(2)] "2.prems" by auto
  show ?case using h1(1) h2(1) freed_append [OF h1(2) h2(2)] by (auto simp: freed_def)
next
  case (3 b vs)
  have "distinct (addrss vs)" "\<forall>a \<in> set (addrss vs). blank h a" using "3.prems" by auto
  then obtain h1 where h1: "delete_vars vs h = Some (Inr h1)" "freed h h1 (addrss vs)" using "3.IH" by blast
  then obtain h2 where h2: "delete_table (b_attr b) h1 = Some (Inr h2)" "freed h1 h2 [b_attr b]"
    using delete_blank_table [of h1 "b_attr b"] freed_blank [OF h1(2)] "3.prems" by auto
  show ?case using h1(1) h2(1) freed_append [OF h1(2) h2(2)] by (auto simp: freed_def)
next
  case (4 b arr maps)
  let ?as = "case arr of None \<Rightarrow> [] | Some e \<Rightarrow> addrs e"
  have "\<exists>h1. (case arr of None \<Rightarrow> Some (Inr h) | Some e \<Rightarrow> delete_var e h) = Some (Inr h1) \<and> freed h h1 ?as"
    using 4 by (cases arr) (auto simp: freed_def)
  then obtain h1 where h1: "(case arr of None \<Rightarrow> Some (Inr h) | Some e \<Rightarrow> delete_var e h) = Some (Inr h1)" "freed h h1 ?as" by blast
  have "\<forall>a \<in> set (addrss maps). blank h1 a" using "4.prems" freed_blank [OF h1(2)] by (cases arr) auto
  then obtain h2 where h2: "delete_vars maps h1 = Some (Inr h2)" "freed h1 h2 (addrss maps)"
    using "4.IH"(2) [of h1] "4.prems"(1) by auto
  have "blank h2 (b_attr b)" using "4.prems" freed_blank [OF h1(2)] freed_blank [OF h2(2)] by auto
  then obtain h3 where h3: "delete_table (b_attr b) h2 = Some (Inr h3)" "freed h2 h3 [b_attr b]"
    using delete_blank_table by blast
  show ?case using h1(1) h2(1) h3(1) freed_append [OF h1(2) freed_append [OF h2(2) h3(2)]] by (auto simp: freed_def)
next
  case 5
  then show ?case by (simp add: freed_def)
next
  case (6 v vs)
  have "distinct (addrs v)" "\<forall>a \<in> set (addrs v). blank h a" using "6.prems" by auto
  then obtain h1 where h1: "delete_var v h = Some (Inr h1)" "freed h h1 (addrs v)" using "6.IH"(1) by blast
  have "\<forall>a \<in> set (addrss vs). blank h1 a" using "6.prems" freed_blank [OF h1(2)] by auto
  then obtain h2 where h2: "delete_vars vs h1 = Some (Inr h2)" "freed h1 h2 (addrss vs)"
    using "6.IH"(2) [of h1] "6.prems"(1) by auto
  show ?case using h1(1) h2(1) freed_append [OF h1(2) h2(2)] by simp
qed

end
