(* ===== verification/DdxReads.thy ===== *)
theory DdxReads
  imports DdxHeap "HOL-Library.Multiset"
begin

text \<open>
  The parser on a document without attributes: what the callbacks for a variable, its parts and its dimensions
  do to the stacks. Addresses are left out, so that a variable on the stack is given by its skeleton.
\<close>

section \<open>Adding and deleting variables without attributes\<close>

fun join :: "int \<Rightarrow> dap_var \<Rightarrow> dap_var \<Rightarrow> dap_var" where
  "join junk v (Simple b) = Simple b"
| "join junk v (Vec b len ds x) = Vec b len ds (Some (set_var_name junk (b_name b) v))"
| "join junk v (Strct b vs) = Strct b (vs @ [v])"
| "join junk v (Grd b None maps) = Grd b (Some v) maps"
| "join junk v (Grd b (Some a) maps) = Grd b (Some a) (maps @ [v])"

text \<open>When a variable may be added to another that is being built.\<close>

fun room :: "dap_var \<Rightarrow> dap_var \<Rightarrow> bool" where
  "room v (Simple b) = False"
| "room v (Vec b len ds x) = (b_type b = Array_c \<and> x = None \<and> \<not> is_array v \<and> var_name v = [])"
| "room v (Strct b vs) = is_constructor_type (b_type b)"
| "room v (Grd b None maps) = (b_type b = Grid_c \<and> var_type v = Array_c \<and> maps = [])"
| "room v (Grd b (Some a) maps) = (b_type b = Grid_c)"

lemma tidy_extended:
  assumes "tidy h as" "extended h h' bs"
  shows "tidy h' (bs @ as)"
proof -
  have "\<forall>a \<in> set as. blank h' a \<and> a < h_next h'" using extended_old [OF assms(2), of as] assms(1) by (simp add: tidy_def)
  moreover have "a \<notin> set bs" if "a \<in> set as" for a
  proof
    assume "a \<in> set bs"
    then have "h_next h \<le> a" "a < h_next h" using assms that by (auto simp: tidy_def extended_def)
    then show False by simp
  qed
  ultimately show ?thesis using assms by (auto simp: tidy_def extended_def)
qed

lemma tidy_perm: "tidy h as \<Longrightarrow> mset as = mset bs \<Longrightarrow> tidy h bs"
  using mset_eq_setD [of as bs] by (simp add: tidy_def distinct_count_atmost_1)

lemma copy_tidy:
  assumes "complete v" "tidy h as" "set (addrs v) \<subseteq> set as"
  shows "\<exists>v' h'. copy_var ptr v h = Some (Inr (v', h')) \<and> skel v' = skel v \<and> tidy h' (addrs v' @ as)"
proof -
  have "\<forall>a \<in> set (addrs v). blank h a \<and> a < h_next h" using assms by (auto simp: tidy_def)
  then show ?thesis using copy_blank(1) [OF assms(1)] tidy_extended [OF assms(2)] by meson
qed

lemma delete_tidy:
  assumes "tidy h (addrs v @ as)"
  shows "\<exists>h'. delete_var v h = Some (Inr h') \<and> tidy h' as"
proof -
  obtain h' where "delete_var v h = Some (Inr h')" "freed h h' (addrs v)"
    using delete_blank(1) [of v h] assms by (auto simp: tidy_def)
  moreover have "blank h' a" if "a \<in> set as" for a
    using that assms freed_blank [OF \<open>freed h h' (addrs v)\<close>, of a] by (auto simp: tidy_def)
  ultimately show ?thesis using assms by (auto simp: tidy_def freed_def)
qed

lemma skel_names [simp]: "var_name (skel v) = var_name v" "var_type (skel v) = var_type v"
  by simp_all

lemma add_tidy:
  assumes "complete v" "tidy h (addrs v @ addrs w @ as)" "room (skel v) (skel w)"
  shows "\<exists>w' h'. add_to junk ptr v w h = Some (Inr (w', h')) \<and> skel w' = join junk (skel v) (skel w) \<and>
    tidy h' (addrs v @ addrs w' @ as)"
proof -
  obtain v' h' where v: "copy_var ptr v h = Some (Inr (v', h'))" "skel v' = skel v" "tidy h' (addrs v' @ addrs v @ addrs w @ as)"
    using copy_tidy [OF assms(1,2), of ptr] by auto
  have p: "tidy h' (addrs v @ bs @ as)" if "mset bs = mset (addrs v') + mset (addrs w)" for bs
    using v(3) by (rule tidy_perm) (simp add: that ac_simps)
  show ?thesis
  proof (cases w)
    case (Vec b len ds x)
    then have "x = None" "\<not> is_array v" "var_name v = []" using assms(3) by (auto split: option.splits)
    then have "add_to junk ptr v w h = Some (Inr (Vec b len ds (Some (set_var_name junk (b_name b) v')), h'))"
      using Vec v(1) by (cases v) (simp_all add: array_add_var_def vector_add_var_def)
    then show ?thesis using Vec \<open>x = None\<close> v(2) p [of "addrs (Vec b len ds (Some (set_var_name junk (b_name b) v')))"] by simp
  next
    case (Strct b vs)
    then show ?thesis using v(1,2) p [of "addrs (Strct b (vs @ [v']))"] by (simp add: skels_map)
  next
    case (Grd b arr maps)
    show ?thesis
    proof (cases arr)
      case None
      then have "var_type v = Array_c" "maps = []" using assms(3) Grd by (auto simp: skels_map)
      then show ?thesis using None Grd v(1,2) p [of "addrs (Grd b (Some v') [])"] by (simp add: is_vector_type_def)
    next
      case (Some a)
      then show ?thesis using Grd v(1,2) p [of "addrs (Grd b (Some a) (maps @ [v']))"] by (simp add: skels_map)
    qed
  qed (use assms(3) in simp)
qed

lemma room_container: "room v w \<Longrightarrow> is_vector_type (var_type w) \<or> is_constructor_type (var_type w)"
  by (cases "(v, w)" rule: room.cases) (simp_all add: is_vector_type_def is_constructor_type_def)

section \<open>Events and what they say\<close>

text \<open>
  The events of an element are its start, its contents and its end; name spaces, prefixes and line numbers do
  not matter to the parser here, and text between the elements is passed over.
\<close>

datatype token = Opens string "(string \<times> string) list" | Closes string | Other

definition plain_attributes :: "sax_attribute list \<Rightarrow> (string \<times> string) list" where
  "plain_attributes attrs = map (\<lambda>(n, pre, uri, v). (n, v)) attrs"

fun said :: "sax_event \<Rightarrow> token list" where
  "said (Start_element n pre uri nss attrs) = [Opens n (plain_attributes attrs)]"
| "said (End_element n pre uri) = [Closes n]"
| "said (Characters cs) = []"
| "said (Whitespace cs) = []"
| "said (Cdata cs) = [Other]"
| "said (Problem msg) = [Other]"

definition contents :: "(int \<times> sax_event) list \<Rightarrow> token list" where
  "contents es = concat (map (\<lambda>(l, e). said e) es)"

lemma contents_simps [simp]: "contents [] = []" "contents ((l, e) # es) = said e @ contents es"
    "contents (es @ fs) = contents es @ contents fs"
  by (simp_all add: contents_def)

lemma said_cases: "said e = [] \<or> (\<exists>t. said e = [t])"
  by (cases e) simp_all

lemma contents_append: "contents es = xs @ ys \<Longrightarrow> \<exists>fs gs. es = fs @ gs \<and> contents fs = xs \<and> contents gs = ys"
proof (induction es arbitrary: xs)
  case Nil
  then show ?case by (intro exI [of _ "[]"]) simp
next
  case (Cons x es)
  obtain l e where x: "x = (l, e)" by (cases x)
  show ?case
  proof (cases "said e = [] \<or> xs \<noteq> []")
    case True
    then obtain xs' where "xs = said e @ xs'" "contents es = xs' @ ys"
      using Cons.prems x said_cases [of e] by (cases xs) auto
    then obtain fs gs where "es = fs @ gs" "contents fs = xs'" "contents gs = ys" using Cons.IH by blast
    then show ?thesis using x \<open>xs = said e @ xs'\<close> by (intro exI [of _ "x # fs"] exI [of _ gs]) simp
  next
    case False
    then show ?thesis using Cons.prems by (intro exI [of _ "[]"] exI [of _ "x # es"]) simp
  qed
qed

section \<open>Views of the parser\<close>

text \<open>
  A view is the stack of states, the skeletons of the variables on their stack, the dataset, the href of the
  blob and the message. All attributes are empty, and no text is being collected.
\<close>

type_synonym view = "parse_state list \<times> dap_var list \<times> dds \<times> string \<times> string"

definition quiet :: "parse_state list \<Rightarrow> bool" where
  "quiet ss = (ss \<noteq> [] \<and> hd ss \<notin> {inside_attribute_value, inside_other_xml_attribute})"

definition there :: "ddx \<Rightarrow> view \<Rightarrow> bool" where
  "there p V = (V = (x_s p, skels (x_bt p), x_dds p, x_blob_href p, x_error_msg p) \<and> quiet (x_s p) \<and>
     length (x_at p) = length (x_bt p) \<and> tidy (x_heap p) (addrss (x_bt p)))"

definition reads :: "int \<Rightarrow> nat option \<Rightarrow> token list \<Rightarrow> view \<Rightarrow> view \<Rightarrow> bool" where
  "reads junk ptr ts V W = (\<forall>es p. contents es = ts \<longrightarrow> there p V \<longrightarrow>
     (\<exists>q. callbacks junk ptr es p = done_with q \<and> there q W))"

lemma thereD: "there p (ss, L, E) \<Longrightarrow> x_s p = ss \<and> skels (x_bt p) = L \<and> (x_dds p, x_blob_href p, x_error_msg p) = E \<and> quiet ss \<and>
    length (x_at p) = length (x_bt p) \<and> tidy (x_heap p) (addrss (x_bt p))"
  by (auto simp: there_def)

lemma there_line [simp]: "there (p\<lparr>x_line := l\<rparr>) V = there p V"
  by (simp add: there_def)

lemma reads_append:
  assumes "reads junk ptr ts U V" "reads junk ptr us V W"
  shows "reads junk ptr (ts @ us) U W"
  unfolding reads_def
proof (intro allI impI)
  fix es p assume "contents es = ts @ us" and p: "there p U"
  then obtain fs gs where e: "es = fs @ gs" "contents fs = ts" "contents gs = us" using contents_append by blast
  obtain q where q: "callbacks junk ptr fs p = done_with q" "there q V" using assms(1) e(2) p unfolding reads_def by blast
  obtain r where "callbacks junk ptr gs q = done_with r" "there r W" using assms(2) e(3) q(2) unfolding reads_def by blast
  then show "\<exists>q. callbacks junk ptr es p = done_with q \<and> there q W" using e(1) q(1) by (simp add: callbacks_append)
qed

lemma silent: "said e = [] \<Longrightarrow> there p V \<Longrightarrow> \<exists>q. callback junk ptr e p = done_with q \<and> there q V"
  by (cases e) (auto simp: there_def quiet_def get_characters_def ignoreable_whitespace_def get_state_def split: list.splits)

lemma reads_Nil: "reads junk ptr [] V V"
  unfolding reads_def
proof (intro allI impI)
  fix es p assume "contents es = []" "there p V"
  then show "\<exists>q. callbacks junk ptr es p = done_with q \<and> there q V"
  proof (induction es arbitrary: p)
    case (Cons x es)
    obtain l e where x: "x = (l, e)" by (cases x)
    then obtain q where "callback junk ptr e (p\<lparr>x_line := l\<rparr>) = done_with q" "there q V"
      using silent [of e "p\<lparr>x_line := l\<rparr>" V junk ptr] Cons.prems by auto
    then show ?case using x Cons by simp
  qed simp
qed

lemma reads_one:
  assumes "\<And>e p. said e = [t] \<Longrightarrow> there p V \<Longrightarrow> \<exists>q. callback junk ptr e p = done_with q \<and> there q W"
  shows "reads junk ptr [t] V W"
  unfolding reads_def
proof (intro allI impI)
  fix es p assume "contents es = [t]" "there p V"
  then show "\<exists>q. callbacks junk ptr es p = done_with q \<and> there q W"
  proof (induction es arbitrary: p)
    case (Cons x es)
    obtain l e where x: "x = (l, e)" by (cases x)
    show ?case
    proof (cases "said e = []")
      case True
      then obtain q where "callback junk ptr e (p\<lparr>x_line := l\<rparr>) = done_with q" "there q V"
        using silent [of e "p\<lparr>x_line := l\<rparr>" V junk ptr] Cons.prems by auto
      then show ?thesis using x True Cons by simp
    next
      case False
      then have e: "said e = [t]" "contents es = []" using said_cases [of e] Cons.prems x by auto
      then obtain q where "callback junk ptr e (p\<lparr>x_line := l\<rparr>) = done_with q" "there q W"
        using assms [of e "p\<lparr>x_line := l\<rparr>"] Cons.prems by auto
      then show ?thesis using x reads_Nil [of junk ptr W] e(2) by (simp add: reads_def)
    qed
  qed simp
qed

section \<open>Attributes of elements\<close>

lemma found_attribute: "map_option xa_value (m_find (x_attributes (transfer_xml_attrs attrs p)) n) = map_of (plain_attributes attrs) n"
proof -
  have "map_option xa_value (m_find (fold (\<lambda>(n, pre, uri, v) m.
         snd (m_insert n \<lparr>xa_prefix = to_string pre, xa_nsURI = to_string uri, xa_value = v\<rparr> m)) attrs m) n) =
        (case map_option xa_value (m_find m n) of None \<Rightarrow> map_of (plain_attributes attrs) n | Some v \<Rightarrow> Some v)" for m
    by (induction attrs arbitrary: m) (auto simp: plain_attributes_def m_insert_def split: option.splits)
  from this [of "[]"] show ?thesis by (simp add: transfer_xml_attrs_def)
qed

definition named_value :: "string \<Rightarrow> (string \<times> string) list \<Rightarrow> string" where
  "named_value n as = (case map_of as n of None \<Rightarrow> [] | Some v \<Rightarrow> v)"

lemma value_found: "attribute_value n (transfer_xml_attrs attrs p) = named_value n (plain_attributes attrs)"
  using found_attribute [of attrs p n] by (auto simp: attribute_value_def named_value_def split: option.splits)

lemma value_cong: "x_attributes p = x_attributes q \<Longrightarrow> attribute_value n p = attribute_value n q"
  by (simp add: attribute_value_def)

lemma required_found:
  "map_of (plain_attributes attrs) n \<noteq> None \<Longrightarrow> x_attributes p = x_attributes (transfer_xml_attrs attrs q) \<Longrightarrow>
   check_required_attribute n p = p"
  using found_attribute [of attrs q n] by (auto simp: check_required_attribute_def)

section \<open>The start of a variable\<close>

definition made :: "dap_type \<Rightarrow> bool" where
  "made t = (t \<in> {Byte_c, Int16_c, UInt16_c, Int32_c, UInt32_c, Float32_c, Float64_c, Str_c, Url_c,
                  Array_c, Structure_c, Sequence_c, Grid_c})"

definition fresh :: "dap_type \<Rightarrow> string \<Rightarrow> dap_var" where
  "fresh t n = the (blank_var t (new_base n t 0))"

text \<open>Which elements may start a variable in a state, the type of the variable and the state inside.\<close>

definition opens :: "parse_state \<Rightarrow> string \<Rightarrow> (dap_type \<times> parse_state) option" where
  "opens s n =
     (if s \<in> {inside_dataset, inside_structure, inside_sequence} then variable_start n
      else if s = inside_array then (if n = ''Array'' then None else variable_start n)
      else if s = inside_map then (if n \<in> {''Array'', ''Sequence'', ''Grid''} then None else variable_start n)
      else if s = inside_grid
      then (if n = ''Array'' then Some (Array_c, inside_array) else if n = ''Map'' then Some (Array_c, inside_map) else None)
      else None)"

lemma start_opens:
  assumes "opens s n = Some (t, s')" "x_s p = s # ss"
  shows "start_element junk n pre uri nss attrs p = process_variable t s' attrs p"
proof -
  have "variable_start ''Attribute'' = None" "variable_start ''Alias'' = None" by (simp_all add: variable_start_def get_dap_type_def)
  then have "opens s ''Attribute'' = None" "opens s ''Alias'' = None" by (simp_all add: opens_def)
  then have "n \<noteq> ''Attribute''" "n \<noteq> ''Alias''" using assms(1) by (metis option.distinct(1))+
  note n = this and d = opens_def start_element_def get_state_def on_attribute_or_alias_def on_variable_def
  show ?thesis
  proof (cases "s = inside_grid")
    case True
    then consider "n = ''Array''" "t = Array_c" "s' = inside_array" | "n = ''Map''" "t = Array_c" "s' = inside_map"
      using assms(1) by (auto simp: opens_def split: if_splits)
    then show ?thesis using assms(2) True by cases (simp_all add: d)
  next
    case False
    then have v: "variable_start n = Some (t, s')" and "s \<in> {inside_dataset, inside_structure, inside_sequence, inside_array, inside_map}"
      and a: "s = inside_array \<Longrightarrow> n \<noteq> ''Array''" and m: "s = inside_map \<Longrightarrow> n \<noteq> ''Array'' \<and> n \<noteq> ''Sequence'' \<and> n \<noteq> ''Grid''"
      using assms(1) by (auto simp: opens_def split: if_splits)
    then consider "s = inside_dataset" | "s = inside_structure" | "s = inside_sequence" | "s = inside_array" | "s = inside_map" by blast
    then show ?thesis
      using n assms(2) v a m by cases (simp_all only: d obind_simps parse_state.case list.case option.case prod.case if_False if_True, simp_all)
  qed
qed

lemma opens_quiet: "opens s n = Some (t, s') \<Longrightarrow> s' \<notin> {inside_attribute_value, inside_other_xml_attribute}"
  by (auto simp: opens_def variable_start_def split: if_splits)

lemma blank_made:
  "made t \<Longrightarrow> \<exists>v. blank_var t (new_base n t a) = Some v \<and> skel v = fresh t n \<and> addrs v = [a] \<and> b_attr (var_base v) = a"
  by (cases t) (simp_all add: made_def fresh_def bare_def new_base_def)

lemma tidy_new: "tidy h as \<Longrightarrow> tidy (snd (new_AttrTable h)) (fst (new_AttrTable h) # as)"
  by (auto simp: tidy_def new_AttrTable_def put_table_def blank_def blank_table_def)

lemma reads_open:
  assumes "opens s n = Some (t, s')" "made t" "map_of as ''name'' \<noteq> None \<or> var_type w = Array_c"
  shows "reads junk ptr [Opens n as] (s # ss, w # L, E) (s' # s # ss, fresh t (named_value ''name'' as) # w # L, E)"
proof (rule reads_one)
  fix e p assume e: "said e = [Opens n as]" and p: "there p (s # ss, w # L, E)"
  obtain pre uri nss attrs where a: "e = Start_element n pre uri nss attrs" "as = plain_attributes attrs"
    using e by (cases e) auto
  let ?p = "set_state s' (transfer_xml_attrs attrs p)"
  obtain v vs where v: "x_bt p = v # vs" "skel v = w" using p by (cases "x_bt p") (auto simp: there_def)
  have c: "check_required_attribute ''name'' ?p = ?p" if "var_type v \<noteq> Array_c"
    using that assms(3) v(2) required_found [of attrs "''name''" ?p p] by (auto simp: a set_state_def)
  let ?h = "x_heap p"
  have pf: "x_bt ?p = x_bt p" "x_at ?p = x_at p" "x_heap ?p = ?h" by (simp_all add: set_state_def transfer_xml_attrs_def)
  have nv: "attribute_value ''name'' ?p = named_value ''name'' as"
    using value_found [of "''name''" attrs p] value_cong [of ?p "transfer_xml_attrs attrs p"] by (simp add: a set_state_def)
  obtain u where u: "blank_var t (new_base (named_value ''name'' as) t (h_next ?h)) = Some u" "skel u = fresh t (named_value ''name'' as)"
      "addrs u = [h_next ?h]" "b_attr (var_base u) = h_next ?h"
    using blank_made [OF assms(2)] by blast
  have f: "factory t (named_value ''name'' as) ?h = Some (u, snd (new_AttrTable ?h))"
    using u(1) by (simp add: factory_def new_AttrTable_def)
  let ?q = "?p\<lparr>x_bt := u # x_bt p, x_at := h_next ?h # x_at p, x_heap := snd (new_AttrTable ?h)\<rparr>"
  have "process_variable t s' attrs p = done_with ?q"
    using c nv f u(4) v(1) pf by (cases "var_type v = Array_c") (simp_all add: process_variable_def top_var_def Let_def)
  moreover have "there ?q (s' # s # ss, fresh t (named_value ''name'' as) # w # L, E)"
    using p u(2,3) opens_quiet [OF assms(1)] tidy_new [of ?h "addrss (x_bt p)"]
    by (auto simp: there_def quiet_def set_state_def transfer_xml_attrs_def new_AttrTable_def)
  moreover have "x_s p = s # ss" using p by (simp add: there_def)
  ultimately show "\<exists>q. callback junk ptr e p = done_with q \<and> there q (s' # s # ss, fresh t (named_value ''name'' as) # w # L, E)"
    using start_opens [OF assms(1), of p] by (simp add: a(1))
qed

section \<open>The end of a variable\<close>

text \<open>A finished variable: its state, its kind, its dimensions.\<close>

definition finished :: "parse_state \<Rightarrow> string \<Rightarrow> dap_var \<Rightarrow> bool" where
  "finished s n v = (built_in s v \<and> complete v \<and>
     (case s of
        inside_simple_type \<Rightarrow> is_simple_type (get_dap_type n)
      | inside_array \<Rightarrow> n = ''Array''
      | inside_map \<Rightarrow> n = ''Map''
      | inside_structure \<Rightarrow> n = ''Structure''
      | inside_sequence \<Rightarrow> n = ''Sequence''
      | inside_grid \<Rightarrow> n = ''Grid''
      | _ \<Rightarrow> False) \<and>
     (case v of Vec b len ds x \<Rightarrow> ds \<noteq> [] | _ \<Rightarrow> True))"

lemma add_finished_there:
  assumes "complete v" "tidy (x_heap p) (addrs v @ addrss (x_bt p))" "x_bt p = w # vs" "room (skel v) (skel w)"
    "quiet (x_s p)" "length (x_at p) = length (x_bt p)" "x_s p = ss" "(x_dds p, x_blob_href p, x_error_msg p) = E"
  shows "\<exists>q. add_finished junk ptr v msg del p = done_with q \<and> there q (ss, join junk (skel v) (skel w) # skels vs, E)"
proof -
  obtain w' h' where w: "add_to junk ptr v w (x_heap p) = Some (Inr (w', h'))" "skel w' = join junk (skel v) (skel w)"
      "tidy h' (addrs v @ addrs w' @ addrss vs)"
    using add_tidy [OF assms(1) _ assms(4)] assms(2,3) by force
  obtain h'' where h: "delete_var v h' = Some (Inr h'')" "tidy h'' (addrs w' @ addrss vs)" using delete_tidy [OF w(3)] by blast
  have "is_vector_type (var_type w) \<or> is_constructor_type (var_type w)" using room_container [OF assms(4)] by simp
  then have "add_finished junk ptr v msg del p = done_with (p\<lparr>x_bt := w' # vs, x_heap := h''\<rparr>)"
    by (simp add: add_finished_def assms(3) w(1) h(1) of_attr_def)
  then show ?thesis using assms w(2) h(2) by (auto simp: there_def)
qed

lemma finish_finishes:
  assumes "x_s p = s # ss" "x_bt p = v # vs" "x_at p = a # as" "var_type v = t"
    "t = Array_c \<longrightarrow> (case v of Vec b len ds x \<Rightarrow> ds \<noteq> [] | _ \<Rightarrow> False)"
  shows "finish_variable junk ptr n t n p =
    add_finished junk ptr v (''array variable '' @ in_quotes n) True (p\<lparr>x_s := ss, x_bt := vs, x_at := as\<rparr>)"
proof -
  have "\<not> (t = Array_c \<and> (case v of Vec _ _ ds _ \<Rightarrow> ds = [] | _ \<Rightarrow> True))" using assms(5) by (cases v) auto
  then show ?thesis using assms(1-4) by (auto simp: finish_variable_def pop_state_def top_var_def pop_var_def pop_table_def)
qed

lemma end_finishes:
  assumes "x_s p = s # ss" "x_bt p = v # vs" "x_at p = a # as" "finished s n v"
  shows "\<exists>msg del. end_element junk ptr n pre uri p = add_finished junk ptr v msg del (p\<lparr>x_s := ss, x_bt := vs, x_at := as\<rparr>)"
proof (cases "s = inside_simple_type")
  case True
  then have "end_element junk ptr n pre uri p =
      add_finished junk ptr v (''simple-type variable '' @ in_quotes n) False (p\<lparr>x_s := ss, x_bt := vs, x_at := as\<rparr>)"
    using assms by (simp add: end_element_def get_state_def pop_state_def top_var_def pop_var_def pop_table_def finished_def)
  then show ?thesis by blast
next
  case False
  note f = finish_finishes [OF assms(1-3)]
  have "end_element junk ptr n pre uri p = finish_variable junk ptr n (var_type v) n p \<and>
      (var_type v = Array_c \<longrightarrow> (case v of Vec b len ds x \<Rightarrow> ds \<noteq> [] | _ \<Rightarrow> False))"
    using False assms(1,4) by (cases s; cases v) (simp_all add: end_element_def get_state_def finished_def)
  then show ?thesis using f [OF refl] by auto
qed

lemma reads_close:
  assumes "finished s n v" "room v w" "quiet ss"
  shows "reads junk ptr [Closes n] (s # ss, v # w # L, E) (ss, join junk v w # L, E)"
proof (rule reads_one)
  fix e p assume "said e = [Closes n]" and p: "there p (s # ss, v # w # L, E)"
  then obtain pre uri where e: "e = End_element n pre uri" by (cases e) auto
  obtain u t ts where b: "x_bt p = u # t # ts" "skel u = v" "skel t = w" "skels ts = L"
    using p by (cases "x_bt p"; cases "tl (x_bt p)") (auto simp: there_def)
  obtain a as where a: "x_at p = a # as" "length as = length (t # ts)" using p b(1) by (cases "x_at p") (auto simp: there_def)
  have f: "finished s n u" using assms(1) b(2) complete_skel(1) [of u]
    by (cases u; cases s) (auto simp: finished_def)
  let ?p = "p\<lparr>x_s := ss, x_bt := t # ts, x_at := as\<rparr>"
  obtain msg del where m: "end_element junk ptr n pre uri p = add_finished junk ptr u msg del ?p"
    using end_finishes [OF _ b(1) a(1) f, of ss junk ptr pre uri] thereD [OF p] by auto
  have "\<exists>q. add_finished junk ptr u msg del ?p = done_with q \<and> there q (ss, join junk (skel u) (skel t) # skels ts, E)"
    using p f a(2) b assms(2,3) by (intro add_finished_there) (auto simp: there_def finished_def)
  then show "\<exists>q. callback junk ptr e p = done_with q \<and> there q (ss, join junk v w # L, E)" using b m by (simp add: e)
qed

section \<open>Dimensions\<close>

lemma atoi_written: "0 \<le> i \<Longrightarrow> i < 2 ^ 31 \<Longrightarrow> atoi (show_int i) = i"
proof -
  assume i: "0 \<le> i" "i < 2 ^ 31"
  note d = show_int_digits [OF i(1)]
  have "nul \<notin> set (show_int i)" using d by (auto simp: is_digit_in_def digit_val_def)
  then have "c_str (show_int i) = show_int i" by (auto simp: c_str_def takeWhile_eq_all_conv)
  moreover have "strtol (show_int i) = (i, [])" using strtol_digits [of "[]" "show_int i" "[]"] d i by simp
  ultimately show ?thesis using i by (simp add: atoi_def wrap32_id)
qed

lemma reads_dimension:
  assumes "s \<in> {inside_array, inside_map}" "is_array w" "map_of as ''size'' = Some (show_int i)" "0 \<le> i" "i < 2 ^ 31"
  shows "reads junk ptr [Opens ''dimension'' as, Closes ''dimension''] (s # ss, w # L, E)
    (s # ss, append_dim_to junk i (named_value ''name'' as) w # L, E)"
proof -
  let ?w = "append_dim_to junk i (named_value ''name'' as) w"
  have "reads junk ptr [Opens ''dimension'' as] (s # ss, w # L, E) (inside_dimension # s # ss, ?w # L, E)"
  proof (rule reads_one)
    fix e p assume e: "said e = [Opens ''dimension'' as]" and p: "there p (s # ss, w # L, E)"
    obtain pre uri nss attrs where a: "e = Start_element ''dimension'' pre uri nss attrs" "as = plain_attributes attrs"
      using e by (cases e) auto
    let ?p = "transfer_xml_attrs attrs p"
    obtain v vs where v: "x_bt p = v # vs" "skel v = w" "is_array v" using p assms(2) by (cases "x_bt p") (auto simp: there_def)
    have c: "check_required_attribute ''size'' ?p = ?p" using assms(3) required_found [of attrs "''size''" ?p p] by (simp add: a)
    have f: "x_bt ?p = x_bt p" "x_s ?p = x_s p" by (simp_all add: transfer_xml_attrs_def)
    let ?v = "append_dim_to junk i (named_value ''name'' as) v"
    let ?q = "(set_state inside_dimension ?p)\<lparr>x_bt := ?v # vs\<rparr>"
    have nv: "attribute_value k (set_state inside_dimension ?p) = named_value k as" for k
      using value_found [of k attrs p] value_cong [of "set_state inside_dimension ?p" ?p k] by (simp add: a set_state_def)
    have "atoi (named_value ''size'' as) = i" using assms(3) atoi_written [OF assms(4,5)] by (simp add: named_value_def)
    then have q: "process_dimension junk attrs p = done_with ?q"
      using c v nv by (simp add: process_dimension_def set_state_def f Let_def)
    have "variable_start ''dimension'' = None" by (simp add: variable_start_def get_dap_type_def)
    then have s: "start_element junk ''dimension'' pre uri nss attrs p = process_dimension junk attrs p"
      using assms(1) thereD [OF p] by (auto simp: start_element_def get_state_def on_attribute_or_alias_def)
    have "there ?q (inside_dimension # s # ss, ?w # L, E)"
      using p v by (auto simp: there_def quiet_def set_state_def transfer_xml_attrs_def)
    then show "\<exists>q. callback junk ptr e p = done_with q \<and> there q (inside_dimension # s # ss, ?w # L, E)" using s q a(1) by simp
  qed
  moreover have "reads junk ptr [Closes ''dimension''] (inside_dimension # s # ss, ?w # L, E) (s # ss, ?w # L, E)"
  proof (rule reads_one)
    fix e p assume "said e = [Closes ''dimension'']" and p: "there p (inside_dimension # s # ss, ?w # L, E)"
    then obtain pre uri where e: "e = End_element ''dimension'' pre uri" by (cases e) auto
    have "x_s p = inside_dimension # s # ss" using p by (simp add: there_def)
    then have "end_element junk ptr ''dimension'' pre uri p = done_with (p\<lparr>x_s := s # ss\<rparr>)"
      by (simp add: end_element_def get_state_def pop_state_def)
    moreover have "there (p\<lparr>x_s := s # ss\<rparr>) (s # ss, ?w # L, E)" using p assms(1) by (auto simp: there_def quiet_def)
    ultimately show "\<exists>q. callback junk ptr e p = done_with q \<and> there q (s # ss, ?w # L, E)" by (simp add: e)
  qed
  ultimately show ?thesis using reads_append [of junk ptr "[Opens ''dimension'' as]"] by fastforce
qed

end
