(* ===== verification/DdxRoundTrip.thy ===== *)
theory DdxRoundTrip
  imports DdxReads
begin

text \<open>
  A dataset that is printed as a DDX and parsed again: \<^verbatim>\<open>DDS::print_xml_writer\<close> of \<^theory_text>\<open>DapPrint\<close> and \<^verbatim>\<open>DDXParser::intern\<close> of
  \<^theory_text>\<open>DdxParser\<close>.
\<close>

section \<open>The events of a tree\<close>

text \<open>
  The declarations of name spaces are not among the attributes that libxml2 reports, and the other names come
  without their prefixes.
\<close>

definition declares :: "string \<Rightarrow> bool" where
  "declares n = (n = ''xmlns'' \<or> take 6 n = ''xmlns:'')"

definition local_name :: "string \<Rightarrow> string" where
  "local_name n = (case dropWhile (\<lambda>c. c \<noteq> CHR '':'') n of [] \<Rightarrow> n | _ # r \<Rightarrow> r)"

definition reported :: "(string \<times> string) list \<Rightarrow> (string \<times> string) list" where
  "reported as = map (\<lambda>(n, v). (local_name n, v)) (filter (\<lambda>(n, v). \<not> declares n) as)"

fun tokens :: "xml_out \<Rightarrow> token list" where
  "tokens (Out_element n as xs) = Opens n (reported as) # concat (map tokens xs) @ [Closes n]"
| "tokens (Out_text s) = []"
| "tokens (Out_raw s) = [Other]"

section \<open>What is printed without attributes\<close>

fun tree :: "string \<Rightarrow> bool \<Rightarrow> dap_var \<Rightarrow> xml_out"
and trees :: "string \<Rightarrow> dap_var list \<Rightarrow> xml_out list" where
  "tree tag nameless (Simple b) = Out_element (type_name (b_type b)) (shown_name nameless b) []"
| "tree tag nameless (Vec b len ds x) =
     Out_element tag (shown_name nameless b)
       ((case x of None \<Rightarrow> [] | Some e \<Rightarrow> [tree ''Array'' True e]) @ map (dimension_xml False) ds)"
| "tree tag nameless (Strct b vs) = Out_element (type_name (b_type b)) (shown_name nameless b) (trees ''Array'' vs)"
| "tree tag nameless (Grd b arr maps) =
     Out_element ''Grid'' (shown_name nameless b)
       ((case arr of None \<Rightarrow> [] | Some a \<Rightarrow> [tree ''Array'' False a]) @ trees ''Map'' maps)"
| "trees tag [] = []"
| "trees tag (v # vs) = tree tag False v # trees tag vs"

text \<open>
  What can be read again: the types of DAP2, every variable named; arrays with dimensions at full size
  whose length fits, with an element variable of the same name that is no array; grids with an array and with arrays
  of a simple type or of structures as maps. Array and dimension names have no escapes.
\<close>

definition plain_dim :: "dimension \<Rightarrow> bool" where
  "plain_dim d = (CHR ''%'' \<notin> set (dim_name d) \<and> 0 \<le> dim_size d \<and> dim_size d < 2 ^ 31 \<and> reset_dim d = d)"

fun map_like :: "dap_var \<Rightarrow> bool" where
  "map_like (Vec b len ds (Some (Simple c))) = True"
| "map_like (Vec b len ds (Some (Strct c vs))) = (b_type c = Structure_c)"
| "map_like v = False"

fun printable :: "dap_var \<Rightarrow> bool"
and printables :: "dap_var list \<Rightarrow> bool" where
  "printable (Simple b) =
     (b_name b \<noteq> [] \<and> b_type b \<in> {Byte_c, Int16_c, UInt16_c, Int32_c, UInt32_c, Float32_c, Float64_c, Str_c, Url_c})"
| "printable (Vec b len ds x) =
     (b_name b \<noteq> [] \<and> b_type b = Array_c \<and> CHR ''%'' \<notin> set (b_name b) \<and> ds \<noteq> [] \<and> (\<forall>d \<in> set ds. plain_dim d) \<and>
      len = length_loop ds 1 \<and>
      (case x of None \<Rightarrow> False | Some e \<Rightarrow> printable e \<and> \<not> is_array e \<and> var_name e = b_name b))"
| "printable (Strct b vs) = (b_name b \<noteq> [] \<and> b_type b \<in> {Structure_c, Sequence_c} \<and> printables vs)"
| "printable (Grd b arr maps) =
     (b_name b \<noteq> [] \<and> b_type b = Grid_c \<and> (case arr of None \<Rightarrow> False | Some a \<Rightarrow> is_array a \<and> printable a) \<and>
      (\<forall>m \<in> set maps. map_like m) \<and> printables maps)"
| "printables [] = True"
| "printables (v # vs) = (printable v \<and> printables vs)"

lemma map_like_array: "map_like m \<Longrightarrow> is_array m"
  by (cases m rule: map_like.cases) simp_all

lemma blank_prints: "blank h a \<Longrightarrow> table_xml h a = Some (Inr [])"
  by (auto simp: blank_def table_xml_def print_xml_entries.simps split: option.splits)

lemma prints_tree:
  "printable v \<Longrightarrow> \<forall>a \<in> set (addrs v). blank h a \<Longrightarrow> print_xml h False tag nameless v = Some (Inr [tree tag nameless v])"
  "printables vs \<Longrightarrow> \<forall>a \<in> set (addrss vs). blank h a \<Longrightarrow>
     print_xmls h False vs = Some (Inr (trees ''Array'' vs)) \<and>
     ((\<forall>m \<in> set vs. is_array m) \<longrightarrow> print_maps h False ''Map'' vs = Some (Inr (trees ''Map'' vs)))"
proof (induction v and vs arbitrary: tag nameless rule: printable_printables.induct)
  case (2 b len ds x)
  then show ?case by (cases x) (simp_all add: blank_prints)
next
  case (4 b arr maps)
  then have "\<forall>m \<in> set maps. is_array m" using map_like_array by auto
  then show ?case using 4 by (cases arr) (simp_all add: blank_prints)
qed (simp_all add: blank_prints)

lemma printable_complete: "printable v \<Longrightarrow> complete v" "printables vs \<Longrightarrow> completes vs"
  by (induction v and vs rule: printable_printables.induct) (auto split: option.splits)

section \<open>Reading the dimensions\<close>

lemma full_plain: "plain_dim d \<Longrightarrow> full_dim junk (dim_size d) (dim_name d) = d"
  using decoded_plain [of "dim_name d" junk] by (cases d) (simp add: plain_dim_def full_dim_def reset_dim_def decoded_def)

lemma fold_dims:
  "\<forall>d \<in> set ds. plain_dim d \<Longrightarrow>
     fold (\<lambda>d. append_dim_to junk (dim_size d) (dim_name d)) ds (Vec b len ds' x) =
       Vec b (if ds = [] then len else length_loop (ds' @ ds) 1) (ds' @ ds) x"
  by (induction ds arbitrary: len ds') (simp_all add: append_dim_def update_length_def full_plain)

lemma reported_name: "named_value ''name'' (reported (name_attribute n @ [(''size'', s)])) = n"
    "map_of (reported (name_attribute n @ [(''size'', s)])) ''size'' = Some s"
  by (simp_all add: reported_def name_attribute_def declares_def local_name_def named_value_def)

lemma reads_dimensions:
  assumes "s \<in> {inside_array, inside_map}" "\<forall>d \<in> set ds. plain_dim d" "is_array w"
  shows "reads junk ptr (concat (map tokens (map (dimension_xml False) ds))) (s # ss, w # L, E)
    (s # ss, fold (\<lambda>d. append_dim_to junk (dim_size d) (dim_name d)) ds w # L, E)"
  using assms(2,3)
proof (induction ds arbitrary: w)
  case Nil
  then show ?case by (simp add: reads_Nil)
next
  case (Cons d ds)
  let ?w = "append_dim_to junk (dim_size d) (dim_name d) w"
  have "is_array ?w" using Cons.prems by (cases w) (simp_all add: Let_def)
  then have "reads junk ptr (concat (map tokens (map (dimension_xml False) ds))) (s # ss, ?w # L, E)
      (s # ss, fold (\<lambda>d. append_dim_to junk (dim_size d) (dim_name d)) ds ?w # L, E)" using Cons by simp
  moreover have "reads junk ptr (tokens (dimension_xml False d)) (s # ss, w # L, E) (s # ss, ?w # L, E)"
    using reads_dimension [OF assms(1), of w "reported (name_attribute (dim_name d) @ [(''size'', show_int (dim_size d))])" "dim_size d"]
      Cons.prems reported_name by (simp add: dimension_xml_def plain_dim_def)
  ultimately show ?case using reads_append by fastforce
qed

section \<open>Reading the variables\<close>

text \<open>The element variable of an array is built without its name.\<close>

definition named :: "bool \<Rightarrow> dap_var \<Rightarrow> dap_var" where
  "named nameless v = (if nameless then with_base (\<lambda>b. b\<lparr>b_name := []\<rparr>) v else v)"

fun tag_name :: "string \<Rightarrow> dap_var \<Rightarrow> string" where
  "tag_name tag (Vec b len ds x) = tag"
| "tag_name tag v = type_name (var_type v)"

fun inner :: "string \<Rightarrow> dap_var \<Rightarrow> parse_state" where
  "inner tag (Simple b) = inside_simple_type"
| "inner tag (Vec b len ds x) = (if tag = ''Map'' then inside_map else inside_array)"
| "inner tag (Strct b vs) = (if b_type b = Structure_c then inside_structure else inside_sequence)"
| "inner tag (Grd b arr maps) = inside_grid"

definition admits :: "parse_state \<Rightarrow> string \<Rightarrow> dap_var \<Rightarrow> bool" where
  "admits s tag v = (opens s (tag_name tag v) = Some (var_type v, inner tag v) \<and>
     (tag = ''Array'' \<or> tag = ''Map'' \<and> map_like v))"

lemma start_printable:
  assumes "printable v"
  shows "variable_start (tag_name ''Array'' v) = Some (var_type v, inner ''Array'' v)"
  using assms by (cases v) (auto simp: variable_start_def get_dap_type_def)

lemma admits_fields:
  assumes "printable v" "s \<in> {inside_dataset, inside_structure, inside_sequence}"
  shows "admits s ''Array'' v"
  using start_printable [OF assms(1)] assms(2) by (auto simp: admits_def opens_def)

lemma admits_element:
  assumes "printable (Vec b len ds (Some e))" "tag = ''Array'' \<or> tag = ''Map'' \<and> map_like (Vec b len ds (Some e))"
  shows "admits (inner tag (Vec b len ds (Some e))) ''Array'' e"
proof -
  have e: "printable e" "\<not> is_array e" using assms(1) by auto
  then have "tag_name ''Array'' e \<noteq> ''Array''" by (cases e) auto
  moreover have "tag_name ''Array'' e \<notin> {''Sequence'', ''Grid''}" if "map_like (Vec b len ds (Some e))"
    using that e by (cases e) auto
  ultimately show ?thesis using start_printable [OF e(1)] assms(2) by (auto simp: admits_def opens_def)
qed

lemma bare_new: "bare b = new_base (b_name b) (b_type b) 0"
  by (simp add: bare_def)

lemma made_printable: "printable v \<Longrightarrow> made (var_type v)"
  by (cases v) (auto simp: made_def)

lemma finished_printable:
  assumes "printable v" "admits s tag v"
  shows "finished (inner tag v) (tag_name tag v) (named nameless (skel v))"
proof -
  have "complete (named nameless (skel v))"
    using printable_complete(1) [OF assms(1)] complete_skel(1) [of v] by (cases "skel v") (auto simp: named_def)
  moreover have "built_in (inner tag v) (named nameless (skel v))"
    using assms(1) by (cases nameless; cases v) (auto simp: named_def)
  moreover have "case named nameless (skel v) of Vec b len ds x \<Rightarrow> ds \<noteq> [] | _ \<Rightarrow> True"
    using assms(1) by (cases nameless; cases v) (auto simp: named_def)
  moreover have "case inner tag v of inside_simple_type \<Rightarrow> is_simple_type (get_dap_type (tag_name tag v))
      | inside_array \<Rightarrow> tag_name tag v = ''Array'' | inside_map \<Rightarrow> tag_name tag v = ''Map''
      | inside_structure \<Rightarrow> tag_name tag v = ''Structure'' | inside_sequence \<Rightarrow> tag_name tag v = ''Sequence''
      | inside_grid \<Rightarrow> tag_name tag v = ''Grid'' | _ \<Rightarrow> False"
    using assms by (cases v) (auto simp: admits_def get_dap_type_def)
  ultimately show ?thesis unfolding finished_def by blast
qed

lemma quiet_admits: "admits s tag v \<Longrightarrow> quiet (s # ss)"
  by (auto simp: admits_def opens_def quiet_def)

lemma shown_name_value:
  "b_name b \<noteq> [] \<Longrightarrow> named_value ''name'' (reported (shown_name nameless b)) = (if nameless then [] else b_name b)"
  "b_name b \<noteq> [] \<Longrightarrow> \<not> nameless \<Longrightarrow> map_of (reported (shown_name nameless b)) ''name'' \<noteq> None"
  by (simp_all add: reported_def shown_name_def name_attribute_def declares_def local_name_def named_value_def)

lemma reads_element:
  assumes "printable v" "admits s tag v" "room (named nameless (skel v)) w" "nameless \<longrightarrow> var_type w = Array_c"
    "tree tag nameless v = Out_element (tag_name tag v) (shown_name nameless (var_base v)) xs"
    "reads junk ptr (concat (map tokens xs))
       (inner tag v # s # ss, fresh (var_type v) (if nameless then [] else var_name v) # w # L, E)
       (inner tag v # s # ss, named nameless (skel v) # w # L, E)"
  shows "reads junk ptr (tokens (tree tag nameless v)) (s # ss, w # L, E) (s # ss, join junk (named nameless (skel v)) w # L, E)"
proof -
  let ?as = "reported (shown_name nameless (var_base v))" and ?n = "tag_name tag v"
  have n: "var_name v \<noteq> []" using assms(1) by (cases v) auto
  have nv: "named_value ''name'' ?as = (if nameless then [] else var_name v)" by (rule shown_name_value(1) [OF n])
  have "opens s ?n = Some (var_type v, inner tag v)" using assms(2) by (simp add: admits_def)
  moreover have "map_of ?as ''name'' \<noteq> None \<or> var_type w = Array_c" using assms(4) shown_name_value(2) [OF n] by blast
  ultimately have "reads junk ptr [Opens ?n ?as] (s # ss, w # L, E)
      (inner tag v # s # ss, fresh (var_type v) (named_value ''name'' ?as) # w # L, E)"
    using made_printable [OF assms(1)] by (intro reads_open)
  then have o: "reads junk ptr [Opens ?n ?as] (s # ss, w # L, E)
      (inner tag v # s # ss, fresh (var_type v) (if nameless then [] else var_name v) # w # L, E)" by (simp only: nv)
  have c: "reads junk ptr [Closes ?n] (inner tag v # s # ss, named nameless (skel v) # w # L, E)
      (s # ss, join junk (named nameless (skel v)) w # L, E)"
    using finished_printable [OF assms(1,2)] assms(3) quiet_admits [OF assms(2)] by (rule reads_close)
  show ?thesis using reads_append [OF o reads_append [OF assms(6) c]] by (simp add: assms(5))
qed

lemma fold_join_fields: "fold (join junk) vs (Strct b ws) = Strct b (ws @ vs)"
  by (induction vs arbitrary: ws) simp_all

lemma fold_join_maps: "fold (join junk) vs (Grd b (Some a) ws) = Grd b (Some a) (ws @ vs)"
  by (induction vs arbitrary: ws) simp_all

text \<open>What fields and maps are added to.\<close>

fun grows :: "dap_var \<Rightarrow> bool" where
  "grows (Strct b vs) = is_constructor_type (b_type b)"
| "grows (Grd b (Some a) maps) = (b_type b = Grid_c)"
| "grows v = False"

lemma grows_room: "grows w \<Longrightarrow> room v w \<and> grows (join junk v w)"
  by (cases w rule: grows.cases) simp_all

lemma element_named: "CHR ''%'' \<notin> set n \<Longrightarrow> \<not> is_array e \<Longrightarrow> var_name e = n \<Longrightarrow>
    set_var_name junk n (with_base (\<lambda>b. b\<lparr>b_name := []\<rparr>) (skel e)) = skel e"
  using decoded_plain [of n junk] by (cases e) (auto simp: bare_def new_base_def)

lemma reads_variables:
  "printable v \<Longrightarrow> admits s tag v \<Longrightarrow> room (named nameless (skel v)) w \<Longrightarrow> nameless \<longrightarrow> var_type w = Array_c \<and> \<not> is_array v \<Longrightarrow>
     reads junk ptr (tokens (tree tag nameless v)) (s # ss, w # L, E) (s # ss, join junk (named nameless (skel v)) w # L, E)"
  "printables vs \<Longrightarrow> \<forall>v \<in> set vs. admits s tag v \<Longrightarrow> grows w \<Longrightarrow>
     reads junk ptr (concat (map tokens (trees tag vs))) (s # ss, w # L, E) (s # ss, fold (join junk) (skels vs) w # L, E)"
proof (induction v and vs arbitrary: s tag nameless w ss L and s tag w ss L rule: printable_printables.induct)
  case (1 b)
  let ?b = "new_base (if nameless then [] else b_name b) (b_type b) 0"
  have "named nameless (skel (Simple b)) = Simple ?b" by (simp add: named_def bare_def new_base_def)
  moreover have "fresh (b_type b) (if nameless then [] else b_name b) = Simple ?b" using "1.prems"(1) by (auto simp: fresh_def)
  ultimately show ?case
    using "1.prems" by (intro reads_element [OF "1.prems"(1-3), where xs = "[]"]) (cases nameless; simp add: reads_Nil)+
next
  case (2 b len ds x)
  obtain e where x: "x = Some e" and e: "printable e" "\<not> is_array e" "var_name e = b_name b"
    using "2.prems"(1) by (cases x) auto
  have nl: "\<not> nameless" using "2.prems"(4) by auto
  let ?v = "Vec b len ds x" and ?b = "new_base (b_name b) Array_c 0"
  let ?s = "inner tag ?v"
  have b: "bare b = ?b" and f: "fresh Array_c (b_name b) = Vec ?b (- 1) [] None" and nb: "b_name ?b = b_name b" "b_type ?b = Array_c"
    using "2.prems"(1) by (simp_all add: bare_new fresh_def new_base_def)
  have a: "admits ?s ''Array'' e" using admits_element [of b len ds e tag] "2.prems"(1,2) x by (auto simp: admits_def)
  have r: "room (named True (skel e)) (Vec ?b (- 1) [] None)" using e(2) nb by (cases e) (simp_all add: named_def)
  have j: "join junk (named True (skel e)) (Vec ?b (- 1) [] None) = Vec ?b (- 1) [] (Some (skel e))"
    using element_named [of "b_name b" e junk] e "2.prems"(1) nb by (simp add: named_def)
  have ih: "reads junk ptr (tokens (tree ''Array'' True e)) (?s # s # ss, Vec ?b (- 1) [] None # w # L, E)
      (?s # s # ss, Vec ?b (- 1) [] (Some (skel e)) # w # L, E)"
    using "2.IH" [OF x e(1) a r, of "s # ss" "w # L"] e(2) nb by (simp only: j) simp
  have d: "reads junk ptr (concat (map tokens (map (dimension_xml False) ds)))
      (?s # s # ss, Vec ?b (- 1) [] (Some (skel e)) # w # L, E) (?s # s # ss, skel ?v # w # L, E)"
    using reads_dimensions [of ?s ds "Vec ?b (- 1) [] (Some (skel e))" junk ptr "s # ss" "w # L" E] "2.prems"(1) x b
    by (simp add: fold_dims)
  show ?case
    by (rule reads_element [OF "2.prems"(1-3), where xs = "tree ''Array'' True e # map (dimension_xml False) ds"])
      (use "2.prems" nl x f reads_append [OF ih d] in \<open>auto simp: named_def\<close>)
next
  case (3 b vs)
  let ?v = "Strct b vs" and ?b = "new_base (if nameless then [] else b_name b) (b_type b) 0"
  have t: "b_type b \<in> {Structure_c, Sequence_c}" "printables vs" using "3.prems"(1) by auto
  have a: "\<forall>u \<in> set vs. admits (inner tag ?v) ''Array'' u"
    using t admits_fields by (induction vs) auto
  have g: "grows (Strct ?b [])" using t(1) by (auto simp: new_base_def is_constructor_type_def)
  have f: "fresh (b_type b) (if nameless then [] else b_name b) = Strct ?b []" using t(1) by (auto simp: fresh_def)
  have n: "named nameless (skel ?v) = Strct ?b (skels vs)" by (simp add: named_def bare_def new_base_def)
  have "reads junk ptr (concat (map tokens (trees ''Array'' vs)))
      (inner tag ?v # s # ss, Strct ?b [] # w # L, E) (inner tag ?v # s # ss, Strct ?b (skels vs) # w # L, E)"
    using "3.IH" [OF t(2) a g, of "s # ss" "w # L"] by (simp add: fold_join_fields)
  then show ?case
    using "3.prems" n f by (intro reads_element [OF "3.prems"(1-3), where xs = "trees ''Array'' vs"])
        (cases nameless; cases "b_type b = Structure_c"; simp)+
next
  case (4 b arr maps)
  obtain a where arr: "arr = Some a" and a: "printable a" "is_array a" using "4.prems"(1) by (cases arr) auto
  let ?v = "Grd b arr maps" and ?b = "new_base (if nameless then [] else b_name b) Grid_c 0"
  have t: "b_type b = Grid_c" "printables maps" "\<forall>m \<in> set maps. map_like m" using "4.prems"(1) by auto
  have ta: "var_type a = Array_c" using a by (cases a) auto
  have ad: "admits inside_grid ''Array'' a" using a ta by (cases a) (auto simp: admits_def opens_def)
  have am: "admits inside_grid ''Map'' m" if "printable m" "map_like m" for m
    using that map_like_array [OF that(2)] by (cases m) (auto simp: admits_def opens_def)
  have ms: "\<forall>m \<in> set maps. admits inside_grid ''Map'' m" using t(2,3) am by (induction maps) auto
  have nb: "b_type ?b = Grid_c" by (simp add: new_base_def)
  have ih1: "reads junk ptr (tokens (tree ''Array'' False a)) (inside_grid # s # ss, Grd ?b None [] # w # L, E)
      (inside_grid # s # ss, Grd ?b (Some (skel a)) [] # w # L, E)"
    using "4.IH"(1) [OF arr a(1) ad, of False "Grd ?b None []" "s # ss" "w # L"] nb ta by (simp add: named_def)
  have ih2: "reads junk ptr (concat (map tokens (trees ''Map'' maps))) (inside_grid # s # ss, Grd ?b (Some (skel a)) [] # w # L, E)
      (inside_grid # s # ss, Grd ?b (Some (skel a)) (skels maps) # w # L, E)"
    using "4.IH"(2) [OF t(2) ms, of "Grd ?b (Some (skel a)) []" "s # ss" "w # L"] nb by (simp add: fold_join_maps)
  have f: "fresh (b_type b) (if nameless then [] else b_name b) = Grd ?b None []" using t(1) by (simp add: fresh_def)
  have n: "named nameless (skel ?v) = Grd ?b (Some (skel a)) (skels maps)" using t(1) arr by (simp add: named_def bare_def new_base_def)
  show ?case
    using "4.prems" n f arr t(1) reads_append [OF ih1 ih2]
    by (intro reads_element [OF "4.prems"(1-3), where xs = "tree ''Array'' False a # trees ''Map'' maps"])
        (cases nameless; simp)+
next
  case 5
  then show ?case by (simp add: reads_Nil)
next
  case (6 v vs)
  have g: "room (skel v) w" "grows (join junk (skel v) w)" using grows_room [OF "6.prems"(3)] by auto
  have "reads junk ptr (tokens (tree tag False v)) (s # ss, w # L, E) (s # ss, join junk (skel v) w # L, E)"
    using "6.IH"(1) [of s tag False w ss L] "6.prems"(1,2) g(1) by (simp add: named_def)
  moreover have "reads junk ptr (concat (map tokens (trees tag vs))) (s # ss, join junk (skel v) w # L, E)
      (s # ss, fold (join junk) (skels vs) (join junk (skel v) w) # L, E)"
    using "6.IH"(2) [OF _ _ g(2)] "6.prems"(1,2) by simp
  ultimately show ?case using reads_append by fastforce
qed

end
