(* ===== verification/DdxWhole.thy ===== *)
theory DdxWhole
  imports DdxRoundTrip
begin

text \<open>A whole dataset: printed as a DDX, and parsed into an empty or a partly filled dataset.\<close>

section \<open>The element Dataset and the blob\<close>

definition opened :: "(string \<times> string) list \<Rightarrow> dds \<Rightarrow> dds at_result" where
  "opened as d =
     (let d = d\<lparr>dds_name := named_value ''name'' as\<rparr>
      in case map_of as ''dapVersion'' of None \<Rightarrow> Inr d | Some v \<Rightarrow> set_dap_version v d)"

lemma reads_dataset:
  assumes "map_of as ''name'' \<noteq> None" "opened as d = Inr d'"
  shows "reads junk ptr [Opens ''Dataset'' as] ([parser_start], L, d, H) ([inside_dataset, parser_start], L, d', H)"
proof (rule reads_one)
  fix e p assume e: "said e = [Opens ''Dataset'' as]" and p: "there p ([parser_start], L, d, H)"
  obtain pre uri nss attrs where a: "e = Start_element ''Dataset'' pre uri nss attrs" "as = plain_attributes attrs"
    using e by (cases e) auto
  let ?p = "transfer_xml_attrs attrs ((set_state inside_dataset p)\<lparr>x_root_ns := to_string uri\<rparr>)"
  note t = thereD [OF p]
  have c: "check_required_attribute ''name'' ?p = ?p" using assms(1) required_found [of attrs "''name''" ?p] by (simp add: a)
  have n: "attribute_value ''name'' ?p = named_value ''name'' as" using value_found a by simp
  have v: "map_option xa_value (m_find (x_attributes ?p) ''dapVersion'') = map_of as ''dapVersion''" using found_attribute a by simp
  then have v': "attribute_value ''dapVersion'' ?p = named_value ''dapVersion'' as" using value_found a by simp
  have f: "x_dds ?p = d" using t by (auto simp: transfer_xml_attrs_def set_state_def)
  have "start_dataset ''Dataset'' uri attrs p = done_with (?p\<lparr>x_dds := d'\<rparr>)"
  proof (cases "map_of as ''dapVersion''")
    case None
    then show ?thesis using c n v f assms(2) by (simp add: start_dataset_def opened_def Let_def)
  next
    case (Some w)
    then have "m_find (x_attributes ?p) ''dapVersion'' \<noteq> None" using v by auto
    then show ?thesis using Some c n v' f assms(2) by (simp add: start_dataset_def opened_def Let_def of_attr_def named_value_def)
  qed
  then have "callback junk ptr e p = done_with (?p\<lparr>x_dds := d'\<rparr>)" using t by (simp add: a(1) start_element_def get_state_def)
  moreover have "there (?p\<lparr>x_dds := d'\<rparr>) ([inside_dataset, parser_start], L, d', H)"
    using t by (auto simp: there_def quiet_def transfer_xml_attrs_def set_state_def)
  ultimately show "\<exists>q. callback junk ptr e p = done_with q \<and> there q ([inside_dataset, parser_start], L, d', H)" by blast
qed

lemma reads_end_dataset:
  "reads junk ptr [Closes ''Dataset''] ([inside_dataset, parser_start], L, E) ([parser_start], L, E)"
proof (rule reads_one)
  fix e p assume "said e = [Closes ''Dataset'']" and p: "there p ([inside_dataset, parser_start], L, E)"
  then obtain pre uri where e: "e = End_element ''Dataset'' pre uri" by (cases e) auto
  have "end_element junk ptr ''Dataset'' pre uri p = done_with (p\<lparr>x_s := [parser_start]\<rparr>)"
    using thereD [OF p] by (simp add: end_element_def get_state_def pop_state_def)
  moreover have "there (p\<lparr>x_s := [parser_start]\<rparr>) ([parser_start], L, E)" using p by (auto simp: there_def quiet_def)
  ultimately show "\<exists>q. callback junk ptr e p = done_with q \<and> there q ([parser_start], L, E)" by (simp add: e)
qed

lemma reads_blob:
  assumes "n \<in> {''blob'', ''dataBLOB''}" "map_of as ''href'' = Some u"
  shows "reads junk ptr [Opens n as, Closes n] (inside_dataset # ss, L, d, c, m) (inside_dataset # ss, L, d, u, m)"
proof -
  have "reads junk ptr [Opens n as] (inside_dataset # ss, L, d, c, m) (inside_blob_href # inside_dataset # ss, L, d, u, m)"
  proof (rule reads_one)
    fix e p assume e: "said e = [Opens n as]" and p: "there p (inside_dataset # ss, L, d, c, m)"
    obtain pre uri nss attrs where a: "e = Start_element n pre uri nss attrs" "as = plain_attributes attrs"
      using e by (cases e) auto
    note t = thereD [OF p]
    let ?p = "transfer_xml_attrs attrs p"
    let ?q = "(set_state inside_blob_href ?p)\<lparr>x_blob_href := u\<rparr>"
    have c: "check_required_attribute ''href'' ?p = ?p" using assms(2) required_found [of attrs "''href''" ?p p] by (simp add: a)
    have "attribute_value ''href'' (set_state inside_blob_href ?p) = u"
      using value_found [of "''href''" attrs p] value_cong [of "set_state inside_blob_href ?p" ?p "''href''"] assms(2)
      by (simp add: a set_state_def named_value_def)
    then have "process_blob attrs p = ?q" using c by (simp add: process_blob_def Let_def)
    moreover have "variable_start ''blob'' = None" "variable_start ''dataBLOB'' = None"
      by (simp_all add: variable_start_def get_dap_type_def)
    moreover have "n = ''blob'' \<or> n = ''dataBLOB''" using assms(1) by blast
    then have "n \<noteq> ''Attribute''" "n \<noteq> ''Alias''" by (elim disjE; simp)+
    moreover have "x_s p = inside_dataset # ss" using t by blast
    ultimately have "callback junk ptr e p = done_with ?q"
      using \<open>n = ''blob'' \<or> n = ''dataBLOB''\<close>
      by (elim disjE) (simp_all add: a(1) start_element_def get_state_def on_attribute_or_alias_def on_variable_def)
    moreover have "there ?q (inside_blob_href # inside_dataset # ss, L, d, u, m)"
      using t by (auto simp: there_def quiet_def transfer_xml_attrs_def set_state_def)
    ultimately show "\<exists>q. callback junk ptr e p = done_with q \<and> there q (inside_blob_href # inside_dataset # ss, L, d, u, m)" by blast
  qed
  moreover have "reads junk ptr [Closes n] (inside_blob_href # inside_dataset # ss, L, d, u, m) (inside_dataset # ss, L, d, u, m)"
  proof (rule reads_one)
    fix e p assume "said e = [Closes n]" and p: "there p (inside_blob_href # inside_dataset # ss, L, d, u, m)"
    then obtain pre uri where e: "e = End_element n pre uri" by (cases e) auto
    have "end_element junk ptr n pre uri p = done_with (p\<lparr>x_s := inside_dataset # ss\<rparr>)"
      using thereD [OF p] assms(1) by (auto simp: end_element_def get_state_def pop_state_def)
    moreover have "there (p\<lparr>x_s := inside_dataset # ss\<rparr>) (inside_dataset # ss, L, d, u, m)" using p by (auto simp: there_def quiet_def)
    ultimately show "\<exists>q. callback junk ptr e p = done_with q \<and> there q (inside_dataset # ss, L, d, u, m)" by (simp add: e)
  qed
  ultimately show ?thesis using reads_append [of junk ptr "[Opens n as]"] by fastforce
qed

section \<open>The start and the end of the document\<close>

abbreviation dummy :: base where
  "dummy \<equiv> new_base ''dummy_dds'' Structure_c 0"

lemma start_there: "there (start_document (new_parser d h cid)) ([parser_start], [Strct dummy []], d, cid, [])"
  using tidy_new [of h "[]"]
  by (auto simp: there_def start_document_def new_parser_def set_state_def new_AttrTable_def quiet_def bare_def new_base_def tidy_def)

lemma add_all_tidy:
  "completes us \<Longrightarrow> tidy h as \<Longrightarrow> set (addrss us) \<subseteq> set as \<Longrightarrow> dds_container d = None \<Longrightarrow>
     \<exists>ws h'. add_all junk ptr us d h = Some (Inr (d\<lparr>dds_vars := dds_vars d @ ws\<rparr>, h')) \<and> skels ws = skels us \<and> tidy h' as"
proof (induction us arbitrary: d h)
  case (Cons u us)
  obtain u' h1 where u: "copy_var ptr u h = Some (Inr (u', h1))" "skel u' = skel u" "tidy h1 (addrs u' @ as)"
    using copy_tidy [of u h as ptr] Cons.prems by auto
  then have "tidy h1 as" by (simp add: tidy_def)
  then obtain ws h2 where "add_all junk ptr us (d\<lparr>dds_vars := dds_vars d @ [u']\<rparr>) h1 = Some (Inr (d\<lparr>dds_vars := dds_vars d @ u' # ws\<rparr>, h2))"
      "skels ws = skels us" "tidy h2 as"
    using Cons.IH [of h1 "d\<lparr>dds_vars := dds_vars d @ [u']\<rparr>"] Cons.prems by auto
  then show ?case using u(1,2) Cons.prems(4) by (intro exI [of _ "u' # ws"] exI [of _ h2]) (simp add: dds_add_var_def)
qed (intro exI [of _ "[]"], simp)

lemma end_document_there:
  assumes "there p ([parser_start], [Strct b vs], d, u, m)" "completes vs" "dds_container d = None" "is_constructor_type (b_type b)"
  shows "\<exists>q. end_document junk ptr p = done_with q \<and> x_s q = [parser_start] \<and> x_blob_href q = u \<and>
    (\<exists>ws. x_dds q = d\<lparr>dds_vars := dds_vars d @ ws\<rparr> \<and> skels ws = vs)"
proof -
  note t = thereD [OF assms(1)]
  obtain v where v: "x_bt p = [v]" "skel v = Strct b vs" using t by (cases "x_bt p"; cases "tl (x_bt p)") auto
  then obtain c us where c: "v = Strct c us" "bare c = b" "skels us = vs" by (cases v) auto
  have "completes us" using assms(2) c(3) complete_skel(2) [of us] by simp
  moreover have "tidy (x_heap p) (addrs v)" using t v by simp
  ultimately obtain ws h where w: "add_all junk ptr us d (x_heap p) = Some (Inr (d\<lparr>dds_vars := dds_vars d @ ws\<rparr>, h))"
      "skels ws = skels us" "tidy h (addrs v)"
    using add_all_tidy [of us "x_heap p" "addrs v" d junk ptr] assms(3) c(1) by auto
  obtain h' where h: "delete_var v h = Some (Inr h')" using delete_tidy [of h v "[]"] w(3) by auto
  have "end_document junk ptr p = done_with (p\<lparr>x_bt := [], x_dds := d\<lparr>dds_vars := dds_vars d @ ws\<rparr>, x_heap := h'\<rparr>)"
    using t v w(1) h c assms(4)
    by (auto simp: end_document_def get_state_def top_var_def pop_var_def of_attr_def)
  then show ?thesis using t w(2) c(3) by auto
qed

section \<open>The round trip\<close>

lemma printables_all: "printables vs \<longleftrightarrow> (\<forall>v \<in> set vs. printable v)"
  by (induction vs) auto

lemma version_32: "set_dap_version ''3.2'' d = Inr (d\<lparr>dds_version := ''3.2'', dds_major := 3, dds_minor := 2, dds_namespace := c_dap32_namespace\<rparr>)"
proof -
  have "parse_version ''3.2'' = Some (3, 2)" by code_simp
  then show ?thesis by (simp add: set_dap_version_def)
qed

lemma dataset_opened:
  assumes "dds_major d < 4"
  shows "map_of (reported (dataset_attributes d)) ''name'' = Some (dds_name d) \<and>
    (\<exists>d1. opened (reported (dataset_attributes d)) d0 = Inr d1 \<and>
      dds_name d1 = dds_name d \<and> dds_vars d1 = dds_vars d0 \<and> dds_container d1 = dds_container d0)"
proof (cases "dds_major d = 3 \<and> 2 \<le> dds_minor d")
  case True
  then have "map_of (reported (dataset_attributes d)) ''name'' = Some (dds_name d)"
      "map_of (reported (dataset_attributes d)) ''dapVersion'' = Some ''3.2''"
    by (simp_all add: dataset_attributes_def reported_def declares_def local_name_def base_attributes_def)
  then show ?thesis by (simp add: opened_def named_value_def version_32)
next
  case False
  then have "map_of (reported (dataset_attributes d)) ''name'' = Some (dds_name d)"
      "map_of (reported (dataset_attributes d)) ''dapVersion'' = None"
    using assms by (auto simp: dataset_attributes_def reported_def declares_def local_name_def)
  then show ?thesis by (simp add: opened_def named_value_def)
qed

definition blob_href :: "string \<Rightarrow> dds \<Rightarrow> string" where
  "blob_href blob d = (if dds_major d = 3 \<and> 2 \<le> dds_minor d then ''cid:'' @ blob else [])"

lemma reads_blob_xml:
  assumes "dds_major d < 4"
  shows "reads junk ptr (concat (map tokens (blob_xml d blob))) (inside_dataset # ss, L, d1, c, m)
    (inside_dataset # ss, L, d1, blob_href blob d, m)"
proof -
  let ?n = "if dds_major d = 3 \<and> 2 \<le> dds_minor d then ''blob'' else ''dataBLOB''"
  let ?as = "reported [(''href'', blob_href blob d)]"
  have "concat (map tokens (blob_xml d blob)) = [Opens ?n ?as, Closes ?n]" using assms by (simp add: blob_xml_def blob_href_def)
  moreover have "map_of ?as ''href'' = Some (blob_href blob d)" by (simp add: reported_def declares_def local_name_def)
  ultimately show ?thesis using reads_blob [of ?n ?as] by simp
qed

lemma document_read:
  assumes "reads junk ptr ts ([parser_start], [Strct dummy []], d0, cid, []) ([parser_start], [Strct dummy vs], d1, u, [])"
    "contents es = ts" "completes vs" "dds_container d1 = None"
  shows "\<exists>q ws. intern junk ptr es True True (new_parser d0 g cid) = done_with (None, q) \<and> x_blob_href q = u \<and>
    x_dds q = d1\<lparr>dds_vars := dds_vars d1 @ ws\<rparr> \<and> skels ws = vs"
proof -
  obtain p where p: "callbacks junk ptr es (start_document (new_parser d0 g cid)) = done_with p"
      "there p ([parser_start], [Strct dummy vs], d1, u, [])"
    using assms(1,2) start_there unfolding reads_def by blast
  obtain q ws where q: "end_document junk ptr p = done_with q" "x_s q = [parser_start]" "x_blob_href q = u"
      "x_dds q = d1\<lparr>dds_vars := dds_vars d1 @ ws\<rparr>" "skels ws = vs"
    using end_document_there [OF p(2) assms(3,4), of junk ptr] by (auto simp: new_base_def is_constructor_type_def)
  have "intern junk ptr es True True (new_parser d0 g cid) = done_with (None, q)"
    using p(1) q(1,2) by (simp add: intern_def cleanup_parse_def get_state_def)
  then show ?thesis using q(3-5) by blast
qed

text \<open>
  C21: The DDX is a faithful image of the variables: a dataset of variables without attributes that is printed for a
  version below 4 and parsed again, from whatever events say what was printed, into a dataset without a container
  gives no error and the same variables behind those that were there, with their names, types, dimensions and lengths, the
  name of the dataset and the href of the blob.
\<close>

theorem ddx_round_trip:
  assumes "dds_major d < 4" and "printables (dds_vars d)" and "\<forall>a \<in> set (dds_attr d # addrss (dds_vars d)). blank h a"
    and "dds_container d0 = None"
  shows "\<exists>x. dds_print_xml h False blob d = Some (Inr x) \<and>
    (\<forall>es. contents es = tokens x \<longrightarrow>
      (\<exists>q. intern junk ptr es True True (new_parser d0 g cid) = done_with (None, q) \<and>
           dds_name (x_dds q) = dds_name d \<and> x_blob_href q = blob_href blob d \<and>
           skels (dds_vars (x_dds q)) = skels (dds_vars d0) @ skels (dds_vars d)))"
proof -
  let ?vs = "dds_vars d" and ?as = "reported (dataset_attributes d)"
  let ?x = "Out_element ''Dataset'' (dataset_attributes d) (trees ''Array'' ?vs @ blob_xml d blob)"
  have x: "dds_print_xml h False blob d = Some (Inr ?x)"
    using assms prints_tree(2) [OF assms(2), of h] by (simp add: dds_print_xml_def blank_prints)
  obtain d1 where n: "map_of ?as ''name'' \<noteq> None" and d1: "opened ?as d0 = Inr d1" "dds_name d1 = dds_name d"
      "dds_vars d1 = dds_vars d0" "dds_container d1 = None"
    using dataset_opened [OF assms(1), of d0] assms(4) by auto
  let ?L = "[Strct dummy (skels ?vs)]"
  have a: "\<forall>v \<in> set ?vs. admits inside_dataset ''Array'' v" using assms(2) by (auto simp: printables_all intro: admits_fields)
  have "reads junk ptr (concat (map tokens (trees ''Array'' ?vs))) ([inside_dataset, parser_start], [Strct dummy []], d1, cid, [])
      ([inside_dataset, parser_start], ?L, d1, cid, [])"
    using reads_variables(2) [OF assms(2) a, of "Strct dummy []"] by (simp add: fold_join_fields new_base_def is_constructor_type_def)
  note vs = reads_append [OF this reads_append [OF reads_blob_xml [OF assms(1), of junk ptr blob "[parser_start]"] reads_end_dataset]]
  have r: "reads junk ptr (tokens ?x) ([parser_start], [Strct dummy []], d0, cid, []) ([parser_start], ?L, d1, blob_href blob d, [])"
    using reads_append [OF reads_dataset [OF n d1(1)] vs] by simp
  have "completes (skels ?vs)" using printable_complete(2) [OF assms(2)] by (simp add: complete_skel)
  then have "\<exists>q. intern junk ptr es True True (new_parser d0 g cid) = done_with (None, q) \<and>
      dds_name (x_dds q) = dds_name d \<and> x_blob_href q = blob_href blob d \<and>
      skels (dds_vars (x_dds q)) = skels (dds_vars d0) @ skels ?vs" if es: "contents es = tokens ?x" for es
    using document_read [OF r es _ d1(4)] d1(2,3) by (fastforce simp: skels_map)
  then show ?thesis using x by blast
qed

section \<open>Two documents\<close>

text \<open>Events that say what is asked for.\<close>

fun event_for :: "token \<Rightarrow> sax_event" where
  "event_for (Opens n as) = Start_element n None None [] (map (\<lambda>(k, v). (k, None, None, v)) as)"
| "event_for (Closes n) = End_element n None None"
| "event_for Other = Problem []"

definition report :: "token list \<Rightarrow> (int \<times> sax_event) list" where
  "report ts = map (\<lambda>t. (1, event_for t)) ts"

lemma said_for: "said (event_for t) = [t]"
  by (cases t) (simp_all add: plain_attributes_def comp_def case_prod_beta)

lemma contents_report: "contents (report ts) = ts"
  by (induction ts) (simp_all add: report_def said_for)

definition demo_store :: at_heap where
  "demo_store = snd (new_AttrTable empty_heap)"

lemma demo_blank: "blank demo_store 0"
  by (simp add: demo_store_def new_AttrTable_def put_table_def blank_def blank_table_def empty_heap_def)

definition empty_dds :: dds where
  "empty_dds = \<lparr>dds_name = [], dds_attr = 0, dds_vars = [], dds_container = None, dds_major = 2, dds_minor = 0,
     dds_version = ''2.0'', dds_namespace = [], dds_xml_base = []\<rparr>"

definition demo_array :: "string \<Rightarrow> dap_type \<Rightarrow> string \<Rightarrow> int \<Rightarrow> dap_var" where
  "demo_array n t dn i = Vec (demo_base n Array_c) i [full_dim 0 i dn] (Some (Simple (demo_base n t)))"

definition demo_grid_dds :: dds where
  "demo_grid_dds = empty_dds\<lparr>dds_name := ''g'', dds_vars :=
     [Simple (demo_base ''t'' Byte_c),
      Strct (demo_base ''s'' Sequence_c) [Simple (demo_base ''u'' Str_c), demo_array ''a'' Int16_c [] 3],
      Grd (demo_base ''sst'' Grid_c) (Some (demo_array ''sst'' Float64_c ''lat'' 7)) [demo_array ''lat'' Float32_c ''lat'' 7]]\<rparr>"

theorem ddx_round_trip_witness:
  "\<exists>x q. dds_print_xml demo_store False [] demo_grid_dds = Some (Inr x) \<and>
     intern 0 None (report (tokens x)) True True (new_parser empty_dds empty_heap []) = done_with (None, q) \<and>
     skels (dds_vars (x_dds q)) = skels (dds_vars demo_grid_dds)"
proof -
  have "\<forall>d \<in> {full_dim 0 3 [], full_dim 0 7 ''lat''}. plain_dim d"
    using decoded_plain [of "[]" 0] decoded_plain [of "''lat''" 0]
    by (simp add: plain_dim_def full_dim_def reset_dim_def decoded_def)
  then have p: "printables (dds_vars demo_grid_dds)"
    by (simp add: demo_grid_dds_def demo_array_def demo_base_def new_base_def wrap32_id full_dim_def)
  have b: "\<forall>a \<in> set (dds_attr demo_grid_dds # addrss (dds_vars demo_grid_dds)). blank demo_store a"
    by (simp add: demo_grid_dds_def demo_array_def demo_base_def new_base_def empty_dds_def demo_blank)
  have m: "dds_major demo_grid_dds < 4" "dds_container empty_dds = None" by (simp_all add: demo_grid_dds_def empty_dds_def)
  from ddx_round_trip [OF m(1) p b m(2), of "[]" 0 None empty_heap "[]"] obtain x where
    x: "dds_print_xml demo_store False [] demo_grid_dds = Some (Inr x)" and
    r: "\<And>es. contents es = tokens x \<Longrightarrow> \<exists>q. intern 0 None es True True (new_parser empty_dds empty_heap []) = done_with (None, q) \<and>
       skels (dds_vars (x_dds q)) = skels (dds_vars empty_dds) @ skels (dds_vars demo_grid_dds)"
    by blast
  have "skels (dds_vars empty_dds) = []" by (simp add: empty_dds_def)
  then show ?thesis using x r [OF contents_report] by auto
qed

definition demo_document :: "(int \<times> sax_event) list" where
  "demo_document =
     [(1, Start_element ''Dataset'' None (Some c_dap20_namespace) [(None, c_dap20_namespace)] [(''name'', None, None, ''d'')]),
      (1, Whitespace [lf]),
      (2, Start_element ''Byte'' None (Some c_dap20_namespace) [] [(''name'', None, None, ''b'')]),
      (2, End_element ''Byte'' None (Some c_dap20_namespace)),
      (3, End_element ''Dataset'' None (Some c_dap20_namespace))]"

theorem ddx_errors_fail_witness:
  "\<exists>q. intern 0 None demo_document True True (new_parser empty_dds empty_heap []) = done_with (None, q) \<and>
     x_s q = [parser_start] \<and> x_bt q = [] \<and> x_error_msg q = []"
proof -
  let ?v = "Simple (new_base ''b'' Byte_c 0)" and ?n = "[(''name'', ''d'')]"
  let ?d = "empty_dds\<lparr>dds_name := ''d''\<rparr>"
  have o: "opened ?n empty_dds = Inr ?d" by (simp add: opened_def named_value_def)
  have v: "printable ?v" "skel ?v = ?v" by (simp_all add: new_base_def bare_def)
  have t: "tokens (tree ''Array'' False ?v) = [Opens ''Byte'' [(''name'', ''b'')], Closes ''Byte'']"
    by (simp add: new_base_def shown_name_def name_attribute_def reported_def declares_def local_name_def)
  have a: "admits inside_dataset ''Array'' ?v" using admits_fields [OF v(1)] by simp
  have "reads 0 None [Opens ''Byte'' [(''name'', ''b'')], Closes ''Byte'']
      ([inside_dataset, parser_start], [Strct dummy []], ?d, [], []) ([inside_dataset, parser_start], [Strct dummy [?v]], ?d, [], [])"
    using reads_variables(1) [OF v(1) a, of False "Strct dummy []" 0 None "[parser_start]" "[]" "(?d, [], [])"]
    by (simp only: t v(2) named_def) (simp add: new_base_def is_constructor_type_def)
  from reads_append [OF reads_dataset [OF _ o] reads_append [OF this reads_end_dataset]]
  have "reads 0 None (contents demo_document) ([parser_start], [Strct dummy []], empty_dds, [], []) ([parser_start], [Strct dummy [?v]], ?d, [], [])"
    by (simp add: demo_document_def plain_attributes_def)
  from document_read [OF this refl] obtain q where
    "intern 0 None demo_document True True (new_parser empty_dds empty_heap []) = done_with (None, q)"
    by (auto simp: empty_dds_def)
  then show ?thesis using ddx_errors_fail by blast
qed

end
