(* ===== verification/Spec2Isabelle.thy ===== *)
theory Spec2Isabelle
  imports Escaping BesUtil BesInfo Registries Services RefStores Storage PptServer DapArray
    BesTokenizer BesKeys RequestStores ClientCommands AttrTrees AttrAliases CacheDemo CacheIndex DapMark DapCheck DdxWhole
begin

text \<open>
  Verification of parts of the OPeNDAP server (Hyrax): its back end, \<^verbatim>\<open>src/opendap/bes\<close>, and the data
  access library under it, \<^verbatim>\<open>src/opendap/libdap\<close>. Paths below are relative to \<^verbatim>\<open>src/opendap\<close>.

  \<^bold>\<open>The program.\<close> A client connects to a listener of the back end over PPT, a protocol of chunks over
  sockets (\<^verbatim>\<open>bes/ppt\<close>). A child process (\<^verbatim>\<open>bes/server/BESServerHandler.cc\<close>) reads one message after the
  other; each is an XML document of commands. A document becomes a list of command objects
  (\<^verbatim>\<open>bes/xmlcommand\<close>), each with a request record, \<^verbatim>\<open>BESDataHandlerInterface\<close>; the interface classes
  (\<^verbatim>\<open>bes/dispatch/BESInterface.cc\<close> and the two classes over it) execute the response handler of each
  command and transmit its response. The handlers work on singletons: lists of stores of containers
  (data files under a symbolic name) and of definitions (containers with constraints), the context,
  the registry of services, and the configuration. Modules for data formats register handlers and
  other objects in registries. libdap has the data model: variables in datasets, arrays with constraints, names and values that
  are escaped for URLs, attribute tables, the XML form of a dataset (the DDX) and its parser, and the cache of a client.

  \<^bold>\<open>The theories,\<close> in the order of their imports:

  \<^item> \<open>Prelude\<close>: bytes, the exceptions of the BES and of libdap, results as sums, folding over a list with
    failure. \<open>CppString\<close>, \<open>CppStream\<close>, \<open>CppMap\<close>: \<^verbatim>\<open>std::string\<close> searches and substrings, number formatting and
    extraction of streams, and \<^verbatim>\<open>std::map\<close> as an ordered association list; the locale \<open>assoc_store\<close> is its
    interface.
  \<^item> \<open>Escaping\<close> (\<^verbatim>\<open>libdap/escaping.cc\<close>): names, XML text and attribute values; the round trips, and the strings
    for which they fail.
  \<^item> \<open>BesUtil\<close> (\<^verbatim>\<open>bes/dispatch/BESUtil.cc\<close>): the access check of paths over an abstract file system, lists
    of values, URLs, numbers.
  \<^item> \<open>BesInfo\<close> (\<^verbatim>\<open>BESInfo.cc\<close>, \<^verbatim>\<open>BESTextInfo.cc\<close>): informational responses with their stack of tags; the locale
    \<open>info_sink\<close> is what their writers rely on.
  \<^item> \<open>Registries\<close> (handlers, reporters, transmitters, builders, definitions, context) and \<open>Services\<close>
    (\<^verbatim>\<open>BESServiceRegistry.cc\<close>): the locale \<open>registry\<close>, interpreted for each of them, and its refinement to a partial
    function that keeps the first binding.
  \<^item> \<open>RefStores\<close> (\<^verbatim>\<open>BESContainerStorageList.cc\<close>, \<^verbatim>\<open>BESDefinitionStorageList.cc\<close>, \<^verbatim>\<open>BESCatalogList.cc\<close>): stores
    counted by reference, refining a map of counted stores. \<open>Storage\<close> (\<^verbatim>\<open>BESContainerStorageVolatile.cc\<close>): the
    containers, and where they come from: \<open>check_path\<close> granted each, or a caller put its pointer there.
  \<^item> \<open>PptConnection\<close>, \<open>PptServer\<close> (\<^verbatim>\<open>bes/ppt\<close>, \<^verbatim>\<open>bes/server/BESServerHandler.cc\<close>): what one side sends arrives at the
    other however the network cuts the bytes; answers through the stream buffer; the greeting; a session.
  \<^item> \<open>DapArray\<close> (\<^verbatim>\<open>libdap/Array.cc\<close>): the shape of an array and its constraints; selected sizes.
  \<^item> \<open>BesTokenizer\<close> (\<^verbatim>\<open>BESTokenizer.cc\<close>): the scanner of the command language, a state machine over
    characters, and its cursor.
  \<^item> \<open>BesKeys\<close> (\<^verbatim>\<open>BESKeys.cc\<close>, \<^verbatim>\<open>BESFSFile.cc\<close>, \<^verbatim>\<open>BESFSDir.cc\<close>): loading of configuration files with includes.
  \<^item> \<open>BesXml\<close>, \<open>BesCommand\<close>, \<open>BesDefine\<close> (\<^verbatim>\<open>bes/xmlcommand\<close>): the tree of a document and the commands: reading
    from the element, preparing before execution. \<open>BesHandlers\<close> (\<^verbatim>\<open>BES*ResponseHandler.cc\<close>): executing and
    transmitting. \<open>BesModules\<close> (\<^verbatim>\<open>BESDefaultModule.cc\<close>): what the core registers. \<open>BesRequest\<close>
    (\<^verbatim>\<open>BESInterface.cc\<close>, \<^verbatim>\<open>BESBasicInterface.cc\<close>, \<^verbatim>\<open>BESXMLInterface.cc\<close>, \<^verbatim>\<open>BESExceptionManager.cc\<close>): a whole request.
  \<^item> \<open>RequestProofs\<close>, \<open>RequestAnswers\<close>, \<open>RequestStores\<close>, \<open>RequestParsing\<close>: the theorems on requests: the plan runs the
    commands in sequence; every request is answered and errors are reported with their code; containers
    and definitions are read back as they were set; commands are read as they were written.
  \<^item> \<open>CmdTranslation\<close>, \<open>ClientCommands\<close> (\<^verbatim>\<open>bes/cmdln/CmdTranslation.cc\<close>): the command line client: a text of
    commands becomes a request document, and a definition is read by the server as it was typed.
  \<^item> \<open>AttrTable\<close>, \<open>AttrSafety\<close>, \<open>AttrTrees\<close>, \<open>AttrAliases\<close> (\<^verbatim>\<open>libdap/AttrTable.cc\<close>): tables of attributes on a
    heap of tables and vectors: no bad pointer is followed, searches find what the tree holds, copies are
    deep, values are read back, and what goes wrong with aliases and with attributes of the type Container.
  \<^item> \<open>HttpDates\<close> (\<^verbatim>\<open>libdap/util_mit.cc\<close>): dates of HTTP. \<open>CacheTable\<close>, \<open>HttpCache\<close> (\<^verbatim>\<open>libdap/HTTPCacheTable.cc\<close>,
    \<^verbatim>\<open>libdap/HTTPCache.cc\<close>): the cache of responses: entries on a heap with their locks, files, sizes and times, a
    call that waits for a lock of its own thread being an outcome. \<open>CacheProofs\<close>, \<open>CacheOps\<close>, \<open>CacheSteps\<close>: the
    invariant of the books, and every operation keeps it (the locale \<open>entry_sweep\<close> is what the collections share).
    \<open>CacheRuns\<close>, \<open>CacheDemo\<close>, \<open>CacheIndex\<close>: runs of the cache: what is read is what was stored, what is being read stays,
    when collecting ends, the deadlock, and the index.

  \<^item> \<open>DapVar\<close> (\<^verbatim>\<open>libdap/BaseType.cc\<close>, \<^verbatim>\<open>Vector.cc\<close>, \<^verbatim>\<open>Array.cc\<close>, \<^verbatim>\<open>Constructor.cc\<close>, \<^verbatim>\<open>Grid.cc\<close>): variables as trees whose
    attributes are tables of \<open>AttrTable\<close>: copying, deleting, adding, flags and width. \<open>DapSearch\<close>, \<open>DapMark\<close> (\<^verbatim>\<open>libdap/DDS.cc\<close>):
    the search by name, whose pointers are positions in the tree, and what marking a variable marks. \<open>DapCheck\<close>: the
    semantic checks and what passes them. \<open>DapPrint\<close>: declarations, and the XML as a tree of elements.
  \<^item> \<open>DdxParser\<close> (\<^verbatim>\<open>libdap/DDXParserSAX2.cc\<close>): the callbacks of the parser of the DDX on its three stacks; a document is the
    list of events that libxml2 reports. \<open>DdxProofs\<close>: the stacks fit whatever events come, no error is
    forgotten, and an empty grid makes the parser copy through a null pointer. \<open>DdxHeap\<close>, \<open>DdxReads\<close>, \<open>DdxRoundTrip\<close>, \<open>DdxWhole\<close>: variables without attributes in the store, what the events of
    a variable do to a view of the parser, and the round trip of a dataset through its XML.

  \<^bold>\<open>How the model corresponds to the code.\<close> A class is a record or an abstract type of its contents, a
  member function a definition of the same name. An exception is a left value of a sum; where the state that
  an exception leaves behind matters (requests), an operation gives its object and an \<open>outcome\<close>. A
  pointer that may be null is an option, and a call through a null pointer is an outcome of its own. Virtual
  functions of classes that are not modelled, callbacks, the file system, libxml2, sockets and the clock
  are parameters: arguments of the definitions, or fields of the records \<open>world\<close> and \<open>env\<close>. \<^verbatim>\<open>unsigned int\<close> counters
  that can wrap are 32-bit words; sizes that are bounded by memory are natural numbers.

  \<^bold>\<open>Loops.\<close> Loops over data are structural or have a measure (the bytes still to be
  received, the characters still to be read, the siblings still to be visited). A loop that may not end is a
  result \<open>None\<close>: reading the lines of a file and the copy of a text file, the search, copying and printing of attribute
  tables with aliases, and the collection of garbage by hits; that they end under stated conditions is a theorem. Only
  \<open>initialize_keys\<close> and \<open>new_keys\<close> have fuel, a bound on the depth of nested configuration files, with \<open>None\<close>
  when it is used up: \<open>loading_returns\<close> shows that one more than the number of included paths is enough,
  when that number is finite.

  \<^bold>\<open>Not modelled\<close>: the dump functions, which print for debugging; HTML and XML responses (the XML ones write
  over libxml2); the system calls of sockets, processes, file locks and caches; the handlers for help,
  version, streams and catalogs; of libdap the values of variables, their serialisation and printing, the rows of
  sequences, the evaluation of constraints, marshalling, DAP4, the HTTP connection and the parsers of grammars (generated
  code); the round trip of the DDX is shown for variables without attributes; vendored
  code (\<^verbatim>\<open>libdap/gl\<close>) and the data modules, which are glue over libraries for file formats. In a get the
  containers are copies of those of the definition, where the code shares the objects: no modelled operation
  changes a container after its definition was made. The output of the server is cut into chunks where its buffer is
  full and at its end, not where a handler flushes it, which changes the chunks and not the bytes. The
  client's translation of commands takes its text to the end and not to a NUL in it, and the document that
  libxml2 writes and the server's libxml2 reads is one tree.
\<close>

end
